(* ===== verification/Sct_Prelude.thy ===== *)
theory Sct_Prelude
  imports Main "HOL-Library.Word" "HOL-Library.Monad_Syntax"
begin

unbundle bit_operations_syntax

text \<open>
  The prelude: the machine types, the status codes, the representation of C memory blocks
  and C strings, and the generic lemmas every component shares.

  A block of memory reached through a pointer is the list of its cells from the pointer up
  to the end of the block. A read or a write past the end is undefined behaviour and is the
  value \<open>None\<close>; so a theorem that a routine returns \<open>Some\<close> result is also a theorem that
  it stays inside its buffers. \<open>cstr\<close> reads a block as a NUL-terminated string.
\<close>

section \<open>Machine types and status codes\<close>

type_synonym u8 = "8 word"
type_synonym u16 = "16 word"
type_synonym u32 = "32 word"
type_synonym u64 = "64 word"

text \<open>
  The \<open>EFI_STATUS\<close> values the modelled code returns or tests. \<open>EFI_ERROR\<close> holds of
  every error code and not of success (the warning codes have the high bit clear).
\<close>

datatype EFI_STATUS =
    EFI_SUCCESS
  | EFI_WARN_DELETE_FAILURE
  | EFI_INVALID_PARAMETER
  | EFI_UNSUPPORTED
  | EFI_BUFFER_TOO_SMALL
  | EFI_NOT_READY
  | EFI_DEVICE_ERROR
  | EFI_OUT_OF_RESOURCES
  | EFI_NOT_FOUND
  | EFI_ACCESS_DENIED
  | EFI_ALREADY_STARTED
  | EFI_ABORTED
  | EFI_TIMEOUT
  | EFI_NOT_STARTED
  | EFI_NO_MAPPING
  | EFI_PROTOCOL_ERROR
  | EFI_ICMP_ERROR
  | EFI_TFTP_ERROR

fun EFI_ERROR :: "EFI_STATUS \<Rightarrow> bool" where
  "EFI_ERROR EFI_SUCCESS = False"
| "EFI_ERROR EFI_WARN_DELETE_FAILURE = False"
| "EFI_ERROR _ = True"

lemma sint_eq_iff [simp]: "sint a = sint b \<longleftrightarrow> a = b"
  by (auto intro: signed_word_eqI)

lemma uint_eq_iff [simp]: "uint a = uint b \<longleftrightarrow> a = b"
  by (auto intro: unsigned_word_eqI)

lemma sint_eq_0_iff [simp]: "sint a = 0 \<longleftrightarrow> a = 0"
  using sint_eq_iff [of a 0] by simp

lemma word_of_int_small_eq_0:
  assumes "\<bar>k\<bar> < 2 ^ LENGTH('a)"
  shows "word_of_int k = (0 :: 'a::len word) \<longleftrightarrow> k = 0"
proof -
  have "k = 0" if "(2::int) ^ LENGTH('a) dvd k"
    using dvd_imp_le_int [OF _ that] assms by fastforce
  then show ?thesis by (auto simp: word_of_int_eq_0_iff)
qed

text \<open>The difference of two bytes, widened to 64 bits, is zero only on equal bytes.\<close>

lemma byte_diff_eq_0:
  "word_of_int (sint (a::u8) - sint b) = (0::u64) \<longleftrightarrow> a = b"
proof -
  have "\<bar>sint a - sint b\<bar> < 2 ^ LENGTH(64)"
    using sint_range_size [of a] sint_range_size [of b] by (auto simp: word_size)
  then have "word_of_int (sint a - sint b) = (0::u64) \<longleftrightarrow> sint a - sint b = 0"
    by (rule word_of_int_small_eq_0)
  then show ?thesis by simp
qed

lemma scast_byte_eq_0 [simp]: "(scast (b::u8) :: u64) = 0 \<longleftrightarrow> b = 0"
  using byte_diff_eq_0 [of b 0] by simp

lemma unat_of_nat_u64: "n < 2 ^ 64 \<Longrightarrow> unat (of_nat n :: u64) = n"
  by (simp add: unat_of_nat take_bit_nat_eq_self)

section \<open>Fact collections\<close>

named_theorems cstr_simps \<open>evaluation of string routines through \<open>cstr\<close>\<close>
named_theorems rdwr_simps \<open>bounds-checked reads and writes\<close>

section \<open>Bounds-checked cells\<close>

definition rd :: "'a list \<Rightarrow> nat \<Rightarrow> 'a option" where
  "rd b i = (if i < length b then Some (b ! i) else None)"

definition wr :: "'a list \<Rightarrow> nat \<Rightarrow> 'a \<Rightarrow> 'a list option" where
  "wr b i x = (if i < length b then Some (b[i := x]) else None)"

lemma rd_in [rdwr_simps]: "i < length b \<Longrightarrow> rd b i = Some (b ! i)"
  by (simp add: rd_def)

lemma rd_out [rdwr_simps]: "length b \<le> i \<Longrightarrow> rd b i = None"
  by (simp add: rd_def)

lemma wr_in [rdwr_simps]: "i < length b \<Longrightarrow> wr b i x = Some (b[i := x])"
  by (simp add: wr_def)

lemma wr_out [rdwr_simps]: "length b \<le> i \<Longrightarrow> wr b i x = None"
  by (simp add: wr_def)

lemma rd_Cons_0 [simp]: "rd (x # xs) 0 = Some x"
  by (simp add: rd_def)

lemma rd_Cons_Suc [simp]: "rd (x # xs) (Suc i) = rd xs i"
  by (simp add: rd_def)

lemma rd_Nil [simp]: "rd [] i = None"
  by (simp add: rd_def)

lemma rd_Some_iff: "rd b i = Some x \<longleftrightarrow> i < length b \<and> b ! i = x"
  by (auto simp: rd_def)

lemma wr_Some_iff: "wr b i x = Some b' \<longleftrightarrow> i < length b \<and> b' = b[i := x]"
  by (auto simp: wr_def)

lemma rd_append_left [rdwr_simps]: "i < length s \<Longrightarrow> rd (s @ t) i = Some (s ! i)"
  by (simp add: rd_def nth_append)

lemma rd_append_right [rdwr_simps]: "rd (s @ t) (length s + k) = rd t k"
  by (simp add: rd_def nth_append)

lemma rd_append_at [simp]: "rd (s @ t) (length s) = rd t 0"
  using rd_append_right [of s t 0] by simp

section \<open>C strings\<close>

definition cstr :: "'a::zero list \<Rightarrow> 'a list option" where
  "cstr b = (if 0 \<in> set b then Some (takeWhile (\<lambda>c. c \<noteq> 0) b) else None)"

lemma cstr_Nil [simp]: "cstr [] = None"
  by (simp add: cstr_def)

lemma cstr_Cons: "cstr (c # b) = (if c = 0 then Some [] else map_option ((#) c) (cstr b))"
  by (auto simp: cstr_def)

lemma cstr_Cons_0 [simp]: "cstr (0 # b) = Some []"
  by (simp add: cstr_Cons)

lemma cstr_Cons_nz [simp]: "c \<noteq> 0 \<Longrightarrow> cstr (c # b) = map_option ((#) c) (cstr b)"
  by (simp add: cstr_Cons)

lemma cstr_append_0 [simp]: "0 \<notin> set s \<Longrightarrow> cstr (s @ 0 # r) = Some s"
  by (induction s) (auto simp: cstr_Cons)

lemma cstr_Some_iff: "cstr b = Some s \<longleftrightarrow> 0 \<notin> set s \<and> (\<exists>r. b = s @ 0 # r)"
proof (induction b arbitrary: s)
  case Nil
  then show ?case by simp
next
  case (Cons c b)
  show ?case
  proof (cases "c = 0")
    case True
    then show ?thesis by (cases s) auto
  next
    case False
    then show ?thesis using Cons.IH by (cases s) auto
  qed
qed

lemma cstr_None_iff: "cstr b = None \<longleftrightarrow> 0 \<notin> set b"
  by (simp add: cstr_def)

lemma cstrE:
  assumes "cstr b = Some s"
  obtains r where "b = s @ 0 # r" and "0 \<notin> set s"
  using assms by (auto simp: cstr_Some_iff)

lemma cstr_nz: "cstr b = Some s \<Longrightarrow> 0 \<notin> set s"
  by (simp add: cstr_Some_iff)

lemma cstr_length: "cstr b = Some s \<Longrightarrow> length s < length b"
  by (auto simp: cstr_Some_iff)

lemma cstr_Nil_iff: "cstr b = Some [] \<longleftrightarrow> (\<exists>r. b = 0 # r)"
  by (auto simp: cstr_Some_iff)

text \<open>Reading a cell of a string: its characters, then its terminator.\<close>

lemma cstr_rd:
  assumes "cstr b = Some s" and "i \<le> length s"
  shows "rd b i = Some (if i < length s then s ! i else 0)"
  using assms by (auto simp: cstr_Some_iff rd_def nth_append)

lemma cstr_rd_lt: "cstr b = Some s \<Longrightarrow> i < length s \<Longrightarrow> rd b i = Some (s ! i)"
  by (simp add: cstr_rd)

lemma cstr_rd_end: "cstr b = Some s \<Longrightarrow> rd b (length s) = Some 0"
  by (simp add: cstr_rd)

lemma cstr_drop:
  assumes "cstr b = Some s" and "i \<le> length s"
  shows "cstr (drop i b) = Some (drop i s)"
proof -
  obtain r where b: "b = s @ 0 # r" and nz: "0 \<notin> set s"
    using assms(1) by (rule cstrE)
  have "0 \<notin> set (drop i s)"
    using nz by (meson in_set_dropD)
  then show ?thesis
    using b assms(2) by simp
qed

section \<open>Trimming and shared list facts\<close>

text \<open>The list both trimming routines compute: the string without the characters at its
  two ends that satisfy the two predicates.\<close>

definition trimmed :: "('a \<Rightarrow> bool) \<Rightarrow> ('a \<Rightarrow> bool) \<Rightarrow> 'a list \<Rightarrow> 'a list" where
  "trimmed P Q s = rev (dropWhile Q (rev (dropWhile P s)))"

lemma set_trimmed: "set (trimmed P Q s) \<subseteq> set s"
  unfolding trimmed_def by (auto dest!: set_dropWhileD)

lemma length_trimmed: "length (trimmed P Q s) \<le> length s"
  unfolding trimmed_def
  by (metis length_dropWhile_le length_rev order_trans)

lemma trimmed_nz: "0 \<notin> set s \<Longrightarrow> 0 \<notin> set (trimmed P Q s)"
  using set_trimmed [of P Q s] by auto

lemma dropWhile_rev_prefix: "\<exists>t. s = rev (dropWhile Q (rev s)) @ t \<and> (\<forall>c\<in>set t. Q c)"
proof -
  have "rev s = takeWhile Q (rev s) @ dropWhile Q (rev s)" by simp
  then have "s = rev (dropWhile Q (rev s)) @ rev (takeWhile Q (rev s))"
    by (metis rev_append rev_rev_ident)
  moreover have "\<forall>c\<in>set (rev (takeWhile Q (rev s))). Q c"
    by (auto dest: set_takeWhileD)
  ultimately show ?thesis by blast
qed

lemma trimmed_last: "trimmed P Q s \<noteq> [] \<Longrightarrow> \<not> Q (last (trimmed P Q s))"
  unfolding trimmed_def
  by (metis hd_dropWhile last_rev rev_is_Nil_conv)

lemma dropWhile_id: "s = [] \<or> \<not> P (hd s) \<Longrightarrow> dropWhile P s = s"
  by (cases s) auto

lemma trimmed_hd:
  assumes "trimmed P Q s \<noteq> []"
  shows "\<not> P (hd (trimmed P Q s))"
proof -
  obtain t where t: "dropWhile P s = trimmed P Q s @ t"
    using dropWhile_rev_prefix [of "dropWhile P s" Q] unfolding trimmed_def by blast
  have "dropWhile P s \<noteq> []" and "hd (dropWhile P s) = hd (trimmed P Q s)"
    using t assms by auto
  then show ?thesis using hd_dropWhile [of P s] by metis
qed

lemma trimmed_id:
  assumes "s = [] \<or> (\<not> P (hd s) \<and> \<not> Q (last s))"
  shows "trimmed P Q s = s"
proof -
  have "dropWhile P s = s" using assms by (intro dropWhile_id) auto
  moreover have "dropWhile Q (rev s) = rev s"
    using assms by (intro dropWhile_id) (auto simp: hd_rev)
  ultimately show ?thesis by (simp add: trimmed_def)
qed

lemma trimmed_idem: "trimmed P Q (trimmed P Q s) = trimmed P Q s"
  by (rule trimmed_id) (use trimmed_hd trimmed_last in blast)

lemma list_update_append_at [simp]: "(s @ x # t)[length s := y] = s @ y # t"
  by (induction s) auto

lemma nth_append_at [simp]: "(s @ x # t) ! length s = x"
  by simp

lemma rev_dropWhile_take:
  "rev (dropWhile Q (rev u)) = take (length (dropWhile Q (rev u))) u"
proof -
  define w where "w = rev (dropWhile Q (rev u))"
  obtain t where "u = w @ t"
    using dropWhile_rev_prefix [of u Q] unfolding w_def by blast
  then have "take (length w) u = w" by simp
  then show ?thesis by (simp add: w_def)
qed

text \<open>The position of the first occurrence of a character.\<close>

definition first_pos :: "'a \<Rightarrow> 'a list \<Rightarrow> nat" where
  "first_pos c s = length (takeWhile (\<lambda>x. x \<noteq> c) s)"

lemma first_pos_le: "first_pos c s \<le> length s"
  by (simp add: first_pos_def length_takeWhile_le)

lemma first_pos_lt: "c \<in> set s \<Longrightarrow> first_pos c s < length s"
  unfolding first_pos_def by (induction s) auto

lemma first_pos_nth: "c \<in> set s \<Longrightarrow> s ! first_pos c s = c"
  unfolding first_pos_def by (induction s) auto

lemma first_pos_notin: "c \<notin> set (take (first_pos c s) s)"
  unfolding first_pos_def by (induction s) auto

lemma first_pos_absent: "c \<notin> set s \<Longrightarrow> first_pos c s = length s"
  unfolding first_pos_def by (induction s) auto

lemma first_pos_Cons [simp]: "first_pos c (x # s) = (if x = c then 0 else Suc (first_pos c s))"
  by (simp add: first_pos_def)

lemma first_pos_Nil [simp]: "first_pos c [] = 0"
  by (simp add: first_pos_def)

end
