(* ===== verification/Sct_String.thy ===== *)
theory Sct_String
  imports Sct_Prelude
begin

text \<open>
  The string routines of \<open>SctLib/String.c\<close> and the memory routines of \<open>SctLib/Mem.c\<close>:
  length, comparison, copying, concatenation, character search, trimming, tokenising and
  the conversions between \<open>CHAR16\<close> and \<open>CHAR8\<close> strings. \<open>CHAR16\<close> is \<open>u16\<close>; \<open>CHAR8\<close>
  is \<open>u8\<close>, read as a signed number where the code subtracts two of them (plain \<open>char\<close> is
  signed on the IA32 and X64 compilers of the build guide). Source and destination are
  separate blocks: the code asserts or assumes that they do not overlap.
\<close>

section \<open>Length\<close>

fun SctStrLen :: "u16 list \<Rightarrow> nat option" where
  "SctStrLen [] = None"
| "SctStrLen (c # s) = (if c = 0 then Some 0 else map_option Suc (SctStrLen s))"

definition SctStrSize :: "u16 list \<Rightarrow> nat option" where
  "SctStrSize s1 = map_option (\<lambda>len. (len + 1) * 2) (SctStrLen s1)"

fun SctAsciiStrLen :: "u8 list \<Rightarrow> nat option" where
  "SctAsciiStrLen [] = None"
| "SctAsciiStrLen (c # s) = (if c = 0 then Some 0 else map_option Suc (SctAsciiStrLen s))"

definition SctAsciiStrSize :: "u8 list \<Rightarrow> nat option" where
  "SctAsciiStrSize s = map_option (\<lambda>len. len + 1) (SctAsciiStrLen s)"

lemma SctStrLen_cstr [cstr_simps]: "SctStrLen b = map_option length (cstr b)"
  by (induction b) (auto simp: cstr_Cons option.map_comp comp_def)

lemma SctAsciiStrLen_cstr [cstr_simps]: "SctAsciiStrLen b = map_option length (cstr b)"
  by (induction b) (auto simp: cstr_Cons option.map_comp comp_def)

lemma SctStrSize_cstr [cstr_simps]:
  "SctStrSize b = map_option (\<lambda>s. 2 * length s + 2) (cstr b)"
  by (simp add: SctStrSize_def SctStrLen_cstr option.map_comp comp_def mult.commute)

section \<open>Comparison\<close>

fun SctStrCmp :: "u16 list \<Rightarrow> u16 list \<Rightarrow> int option" where
  "SctStrCmp (a # s1) (b # s2) =
     (if a \<noteq> 0 \<and> a = b then SctStrCmp s1 s2 else Some (uint a - uint b))"
| "SctStrCmp _ _ = None"

fun SctStrnCmp :: "u16 list \<Rightarrow> u16 list \<Rightarrow> nat \<Rightarrow> int option" where
  "SctStrnCmp [] s2 len = None"
| "SctStrnCmp (a # s1) s2 0 = Some 0"
| "SctStrnCmp (a # s1) [] (Suc len) = None"
| "SctStrnCmp (a # s1) (b # s2) (Suc len) =
     (if a \<noteq> 0 \<and> a = b then SctStrnCmp s1 s2 len else Some (uint a - uint b))"

text \<open>The \<open>CHAR8\<close> comparisons return the difference as an unsigned \<open>UINTN\<close>.\<close>

fun SctAsciiStrCmp :: "u8 list \<Rightarrow> u8 list \<Rightarrow> u64 option" where
  "SctAsciiStrCmp (a # s1) (b # s2) =
     (if a \<noteq> 0 \<and> a = b then SctAsciiStrCmp s1 s2 else Some (word_of_int (sint a - sint b)))"
| "SctAsciiStrCmp _ _ = None"

fun SctAsciiStrnCmp :: "u8 list \<Rightarrow> u8 list \<Rightarrow> nat \<Rightarrow> u64 option" where
  "SctAsciiStrnCmp [] s2 len = None"
| "SctAsciiStrnCmp (a # s1) s2 0 = Some 0"
| "SctAsciiStrnCmp (a # s1) [] (Suc len) = None"
| "SctAsciiStrnCmp (a # s1) (b # s2) (Suc len) =
     (if a \<noteq> 0 \<and> a = b then SctAsciiStrnCmp s1 s2 len
      else Some (word_of_int (sint a - sint b)))"

definition AsciiToUpper :: "u8 \<Rightarrow> u8" where
  "AsciiToUpper Chr = (if 97 \<le> Chr \<and> Chr \<le> 122 then Chr - (97 - 65) else Chr)"

fun SctAsciiStriCmp :: "u8 list \<Rightarrow> u8 list \<Rightarrow> int option" where
  "SctAsciiStriCmp (a # FirstString) (b # SecondString) =
     (if a \<noteq> 0 \<and> AsciiToUpper a = AsciiToUpper b
      then SctAsciiStriCmp FirstString SecondString
      else Some (sint (AsciiToUpper a) - sint (AsciiToUpper b)))"
| "SctAsciiStriCmp _ _ = None"

lemma AsciiToUpper_0 [simp]: "AsciiToUpper 0 = 0"
  by (simp add: AsciiToUpper_def)

lemma AsciiToUpper_eq_0 [simp]: "AsciiToUpper c = 0 \<longleftrightarrow> c = 0"
  by (auto simp: AsciiToUpper_def)

lemma AsciiToUpper_idem [simp]: "AsciiToUpper (AsciiToUpper c) = AsciiToUpper c"
  unfolding AsciiToUpper_def by (auto simp: unat_arith_simps unat_sub_if')

text \<open>
  \<open>SctStrCmp\<close> against the two strings: zero exactly on equal strings, negative exactly
  when the first one comes before the second in the lexicographic order of their
  characters; it never leaves the two blocks.
\<close>

lemma SctStrCmp_cstr:
  assumes "cstr b1 = Some s" and "cstr b2 = Some t"
  shows "\<exists>r. SctStrCmp b1 b2 = Some r \<and> (r = 0 \<longleftrightarrow> s = t) \<and> (r < 0 \<longleftrightarrow> ord_class.lexordp s t)"
  using assms
proof (induction b1 b2 arbitrary: s t rule: SctStrCmp.induct)
  case (1 a s1 b s2)
  show ?case
  proof (cases "a \<noteq> 0 \<and> a = b")
    case True
    then obtain s' t' where "cstr s1 = Some s'" "cstr s2 = Some t'" "s = a # s'" "t = a # t'"
      using "1.prems" by auto
    then show ?thesis using "1.IH" True by force
  next
    case False
    have "s = (if a = 0 then [] else a # tl s)" "t = (if b = 0 then [] else b # tl t)"
      using "1.prems" by (auto split: if_splits)
    moreover have "uint a - uint b < 0 \<longleftrightarrow> a < b" and "uint a - uint b = 0 \<longleftrightarrow> a = b"
      by (auto simp: word_less_def)
    moreover have "0 < b \<longleftrightarrow> b \<noteq> 0" by (simp add: word_neq_0_conv)
    ultimately show ?thesis using False
      by (cases s; cases t) (auto split: if_splits)
  qed
qed auto

lemma SctStrCmp_eq0:
  assumes "cstr b1 = Some s" and "cstr b2 = Some t"
  shows "SctStrCmp b1 b2 = Some 0 \<longleftrightarrow> s = t"
  using SctStrCmp_cstr [OF assms] by auto


text \<open>\<open>SctStrnCmp\<close> compares the first \<open>len\<close> characters.\<close>

lemma SctStrnCmp_eq0:
  assumes "cstr b1 = Some s" and "cstr b2 = Some t"
  shows "SctStrnCmp b1 b2 n = Some 0 \<longleftrightarrow> take n s = take n t"
  using assms
proof (induction b1 b2 n arbitrary: s t rule: SctStrnCmp.induct)
  case (4 a s1 b s2 len)
  show ?case
  proof (cases "a \<noteq> 0 \<and> a = b")
    case True
    then obtain s' t' where "cstr s1 = Some s'" "cstr s2 = Some t'" "s = a # s'" "t = a # t'"
      using "4.prems" by auto
    then show ?thesis using "4.IH" True by auto
  next
    case False
    have st: "s = (if a = 0 then [] else a # tl s)" "t = (if b = 0 then [] else b # tl t)"
      using "4.prems" by (auto split: if_splits)
    show ?thesis using False
      by (subst st(1), subst st(2)) auto
  qed
qed auto

lemma SctAsciiStrCmp_eq0:
  assumes "cstr b1 = Some s" and "cstr b2 = Some t"
  shows "SctAsciiStrCmp b1 b2 = Some 0 \<longleftrightarrow> s = t"
  using assms
proof (induction b1 b2 arbitrary: s t rule: SctAsciiStrCmp.induct)
  case (1 a s1 b s2)
  show ?case
  proof (cases "a \<noteq> 0 \<and> a = b")
    case True
    then obtain s' t' where "cstr s1 = Some s'" "cstr s2 = Some t'" "s = a # s'" "t = a # t'"
      using "1.prems" by auto
    then show ?thesis using "1.IH" True by auto
  next
    case False
    have st: "s = (if a = 0 then [] else a # tl s)" "t = (if b = 0 then [] else b # tl t)"
      using "1.prems" by (auto split: if_splits)
    show ?thesis using False
      by (subst st(1), subst st(2)) (auto simp: byte_diff_eq_0 simp del: of_int_diff)
  qed
qed auto

text \<open>\<open>SctAsciiStriCmp\<close> is equality up to the case of the ASCII letters.\<close>

lemma SctAsciiStriCmp_cstr:
  assumes "cstr b1 = Some s" and "cstr b2 = Some t"
  shows "\<exists>r. SctAsciiStriCmp b1 b2 = Some r \<and>
    (r = 0 \<longleftrightarrow> map AsciiToUpper s = map AsciiToUpper t)"
  using assms
proof (induction b1 b2 arbitrary: s t rule: SctAsciiStriCmp.induct)
  case (1 a s1 b s2)
  show ?case
  proof (cases "a \<noteq> 0 \<and> AsciiToUpper a = AsciiToUpper b")
    case True
    then have "b \<noteq> 0" by (metis AsciiToUpper_eq_0)
    with True obtain s' t' where "cstr s1 = Some s'" "cstr s2 = Some t'" "s = a # s'" "t = b # t'"
      using "1.prems" by auto
    then show ?thesis using "1.IH" True by force
  next
    case False
    have st: "s = (if a = 0 then [] else a # tl s)" "t = (if b = 0 then [] else b # tl t)"
      using "1.prems" by (auto split: if_splits)
    show ?thesis using False
      by (subst st(1), subst st(2)) auto
  qed
qed auto

section \<open>Memory blocks (Mem.c)\<close>

text \<open>The cells of a block may be bytes or wider; \<open>Size\<close> counts cells.\<close>

fun SctSetMem :: "'a list \<Rightarrow> nat \<Rightarrow> 'a \<Rightarrow> 'a list option" where
  "SctSetMem pt 0 Value = Some pt"
| "SctSetMem [] (Suc Size) Value = None"
| "SctSetMem (x # pt) (Suc Size) Value = map_option ((#) Value) (SctSetMem pt Size Value)"

fun SctZeroMem :: "'a::zero list \<Rightarrow> nat \<Rightarrow> 'a list option" where
  "SctZeroMem pt 0 = Some pt"
| "SctZeroMem [] (Suc Size) = None"
| "SctZeroMem (x # pt) (Suc Size) = map_option ((#) 0) (SctZeroMem pt Size)"

fun SctCopyMem :: "'a list \<Rightarrow> 'a list \<Rightarrow> nat \<Rightarrow> 'a list option" where
  "SctCopyMem d s 0 = Some d"
| "SctCopyMem (x # d) (y # s) (Suc len) = map_option ((#) y) (SctCopyMem d s len)"
| "SctCopyMem _ _ (Suc len) = None"

fun SctCompareMem :: "u8 list \<Rightarrow> u8 list \<Rightarrow> nat \<Rightarrow> int option" where
  "SctCompareMem d s 0 = Some 0"
| "SctCompareMem (x # d) (y # s) (Suc len) =
     (if x \<noteq> y then Some (sint x - sint y) else SctCompareMem d s len)"
| "SctCompareMem _ _ (Suc len) = None"

lemma SctSetMem_spec:
  "SctSetMem b n v = (if n \<le> length b then Some (replicate n v @ drop n b) else None)"
  by (induction b n v rule: SctSetMem.induct) auto

lemma SctZeroMem_spec:
  "SctZeroMem b n = (if n \<le> length b then Some (replicate n 0 @ drop n b) else None)"
  by (induction b n rule: SctZeroMem.induct) auto

lemma SctCopyMem_spec:
  "SctCopyMem d s n =
     (if n \<le> length d \<and> n \<le> length s then Some (take n s @ drop n d) else None)"
  by (induction d s n rule: SctCopyMem.induct) auto

lemma SctCompareMem_eq0:
  "n \<le> length d \<Longrightarrow> n \<le> length s \<Longrightarrow> SctCompareMem d s n = Some 0 \<longleftrightarrow> take n d = take n s"
  by (induction d s n rule: SctCompareMem.induct) auto

section \<open>Copying and concatenation\<close>

fun SctStrCpy :: "u16 list \<Rightarrow> u16 list \<Rightarrow> u16 list option" where
  "SctStrCpy Dest [] = None"
| "SctStrCpy [] (c # Src) = None"
| "SctStrCpy (d # Dest) (c # Src) =
     (if c \<noteq> 0 then map_option ((#) c) (SctStrCpy Dest Src) else Some (0 # Dest))"

fun SctAsciiStrCpy :: "u8 list \<Rightarrow> u8 list \<Rightarrow> u8 list option" where
  "SctAsciiStrCpy Destination [] = None"
| "SctAsciiStrCpy [] (c # Source) = None"
| "SctAsciiStrCpy (d # Destination) (c # Source) =
     (if c \<noteq> 0 then map_option ((#) c) (SctAsciiStrCpy Destination Source)
      else Some (0 # Destination))"

text \<open>\<open>SctStrnCpy\<close> reads the next source character before it looks at the count.\<close>

fun SctStrnCpy_loop :: "u16 list \<Rightarrow> u16 list \<Rightarrow> nat \<Rightarrow> u16 list option" where
  "SctStrnCpy_loop Destination [] Length = None"
| "SctStrnCpy_loop Destination (c # Source) 0 = SctZeroMem Destination 0"
| "SctStrnCpy_loop Destination (c # Source) (Suc Length) =
     (if c \<noteq> 0
      then (case Destination of
              [] \<Rightarrow> None
            | d # Dest \<Rightarrow> map_option ((#) c) (SctStrnCpy_loop Dest Source Length))
      else SctZeroMem Destination (Suc Length))"

definition SctStrnCpy :: "u16 list \<Rightarrow> u16 list \<Rightarrow> nat \<Rightarrow> u16 list option" where
  "SctStrnCpy Destination Source Length =
     (if Length = 0 then Some Destination else SctStrnCpy_loop Destination Source Length)"

fun SctAsciiStrnCpy :: "u8 list \<Rightarrow> u8 list \<Rightarrow> nat \<Rightarrow> u8 list option" where
  "SctAsciiStrnCpy dst src 0 = Some dst"
| "SctAsciiStrnCpy (d # dst) (c # src) (Suc n) =
     (if c = 0 then map_option ((#) 0) (SctZeroMem dst n)
      else map_option ((#) c) (SctAsciiStrnCpy dst src n))"
| "SctAsciiStrnCpy _ _ (Suc n) = None"

definition SctStrCat :: "u16 list \<Rightarrow> u16 list \<Rightarrow> u16 list option" where
  "SctStrCat Dest Src = do {
     len \<leftarrow> SctStrLen Dest;
     tail \<leftarrow> SctStrCpy (drop len Dest) Src;
     Some (take len Dest @ tail) }"

definition SctAsciiStrCat :: "u8 list \<Rightarrow> u8 list \<Rightarrow> u8 list option" where
  "SctAsciiStrCat Destination Source = do {
     len \<leftarrow> SctAsciiStrLen Destination;
     tail \<leftarrow> SctAsciiStrCpy (drop len Destination) Source;
     Some (take len Destination @ tail) }"

text \<open>
  Duplication: \<open>pool\<close> is the pool allocator, which returns a block of the number of bytes
  asked for or \<open>NULL\<close> (\<open>None\<close>); a null source is \<open>None\<close> too.
\<close>

definition SctStrDuplicate :: "(nat \<Rightarrow> u16 list option) \<Rightarrow> u16 list \<Rightarrow> u16 list option option" where
  "SctStrDuplicate pool Src = do {
     Size \<leftarrow> SctStrSize Src;
     (case pool Size of
        None \<Rightarrow> Some None
      | Some Dest \<Rightarrow> map_option Some (SctCopyMem Dest Src (Size div 2))) }"

definition SctAsciiStrDuplicate ::
    "(nat \<Rightarrow> u8 list option) \<Rightarrow> u8 list option \<Rightarrow> u8 list option option" where
  "SctAsciiStrDuplicate pool str =
     (case str of
        None \<Rightarrow> Some None
      | Some s \<Rightarrow> do {
          len \<leftarrow> SctAsciiStrLen s;
          (case pool (len + 1) of
             None \<Rightarrow> Some None
           | Some copy \<Rightarrow> map_option Some (SctAsciiStrCpy copy s)) })"

lemma SctStrCpy_spec:
  "cstr src = Some t \<Longrightarrow> SctStrCpy dest src =
     (if length t < length dest then Some (t @ 0 # drop (Suc (length t)) dest) else None)"
proof (induction dest src arbitrary: t rule: SctStrCpy.induct)
  case (3 d Dest c Src)
  then show ?case by (cases "c = 0") auto
qed auto

lemma SctAsciiStrCpy_spec:
  "cstr src = Some t \<Longrightarrow> SctAsciiStrCpy dest src =
     (if length t < length dest then Some (t @ 0 # drop (Suc (length t)) dest) else None)"
proof (induction dest src arbitrary: t rule: SctAsciiStrCpy.induct)
  case (3 d Dest c Src)
  then show ?case by (cases "c = 0") auto
qed auto

lemma SctAsciiStrCpy_None: "cstr src = None \<Longrightarrow> SctAsciiStrCpy dest src = None"
proof (induction dest src rule: SctAsciiStrCpy.induct)
  case (3 d Dest c Src)
  then show ?case by (cases "c = 0") auto
qed auto

lemma SctAsciiStrnCpy_spec:
  "cstr src = Some t \<Longrightarrow> SctAsciiStrnCpy dest src n =
     (if n \<le> length dest
      then Some (take n t @ replicate (n - length t) 0 @ drop n dest) else None)"
proof (induction dest src n arbitrary: t rule: SctAsciiStrnCpy.induct)
  case (2 d dst c src n)
  then show ?case by (cases "c = 0") (auto simp: SctZeroMem_spec)
qed auto

lemma SctStrnCpy_spec:
  "cstr src = Some t \<Longrightarrow> n \<le> length dest \<Longrightarrow>
     SctStrnCpy dest src n = Some (take n t @ replicate (n - length t) 0 @ drop n dest)"
proof -
  have "cstr src = Some t \<Longrightarrow> n \<le> length dest \<Longrightarrow>
     SctStrnCpy_loop dest src n = Some (take n t @ replicate (n - length t) 0 @ drop n dest)"
  proof (induction dest src n arbitrary: t rule: SctStrnCpy_loop.induct)
    case (3 dest c src n)
    then show ?case by (cases "c = 0"; cases dest) (auto simp: SctZeroMem_spec)
  qed auto
  then show "cstr src = Some t \<Longrightarrow> n \<le> length dest \<Longrightarrow> ?thesis"
    by (simp add: SctStrnCpy_def)
qed

lemma SctStrCat_spec:
  assumes "cstr dest = Some s" and "cstr src = Some t"
  shows "SctStrCat dest src =
    (if length s + length t < length dest
     then Some (s @ t @ 0 # drop (Suc (length s + length t)) dest) else None)"
proof -
  obtain r where "dest = s @ 0 # r" using assms(1) by (rule cstrE)
  then show ?thesis
    using assms by (auto simp: SctStrCat_def SctStrLen_cstr SctStrCpy_spec [OF assms(2)])
qed

lemma SctAsciiStrCat_spec:
  assumes "cstr dest = Some s" and "cstr src = Some t"
  shows "SctAsciiStrCat dest src =
    (if length s + length t < length dest
     then Some (s @ t @ 0 # drop (Suc (length s + length t)) dest) else None)"
proof -
  obtain r where "dest = s @ 0 # r" using assms(1) by (rule cstrE)
  then show ?thesis
    using assms by (auto simp: SctAsciiStrCat_def SctAsciiStrLen_cstr SctAsciiStrCpy_spec [OF assms(2)])
qed

section \<open>Character search\<close>

text \<open>
  A returned pointer into the string is its offset from the start; the inner \<open>None\<close> is
  \<open>NULL\<close>. \<open>SctStrChr\<close> also finds the terminator; \<open>SctAsciiStrChr\<close> does not.
\<close>

fun SctStrChr :: "u16 list \<Rightarrow> u16 \<Rightarrow> nat option option" where
  "SctStrChr [] c = None"
| "SctStrChr (x # Str) c =
     (if x = c then Some (Some 0)
      else if x = 0 then Some None
      else map_option (map_option Suc) (SctStrChr Str c))"

fun SctSctAsciiStrChr :: "u8 list \<Rightarrow> u8 \<Rightarrow> nat option option" where
  "SctSctAsciiStrChr [] c = None"
| "SctSctAsciiStrChr (x # Str) c =
     (if x = c then Some (Some 0)
      else if x = 0 then Some None
      else map_option (map_option Suc) (SctSctAsciiStrChr Str c))"

fun SctAsciiStrChr :: "u8 list \<Rightarrow> u8 \<Rightarrow> nat option option" where
  "SctAsciiStrChr [] c = None"
| "SctAsciiStrChr (x # String) c =
     (if x \<noteq> 0
      then (if x = c then Some (Some 0) else map_option (map_option Suc) (SctAsciiStrChr String c))
      else Some None)"

lemma SctStrChr_spec:
  "cstr b = Some s \<Longrightarrow> SctStrChr b c =
     Some (if c \<in> set s \<or> c = 0 then Some (first_pos c s) else None)"
  by (induction b c arbitrary: s rule: SctStrChr.induct) (auto simp: cstr_Cons split: if_splits)

lemma SctSctAsciiStrChr_spec:
  "cstr b = Some s \<Longrightarrow> SctSctAsciiStrChr b c =
     Some (if c \<in> set s \<or> c = 0 then Some (first_pos c s) else None)"
  by (induction b c arbitrary: s rule: SctSctAsciiStrChr.induct) (auto simp: cstr_Cons split: if_splits)

lemma SctAsciiStrChr_spec:
  "cstr b = Some s \<Longrightarrow> SctAsciiStrChr b c =
     Some (if c \<in> set s then Some (first_pos c s) else None)"
  by (induction b c arbitrary: s rule: SctAsciiStrChr.induct) (auto simp: cstr_Cons split: if_splits)

section \<open>Trimming\<close>

text \<open>
  \<open>SctStrTrim\<close> works in place with two pointers. \<open>SctStrTrim_lead\<close> is its first loop,
  \<open>SctStrTrim_shift\<close> the copy down, \<open>SctStrTrim_tail\<close> the loop from the end, whose
  \<open>p1\<close> is represented by the offset \<open>p1 + 1\<close> so that running off the front is 0.
\<close>

function SctStrTrim_lead :: "u16 list \<Rightarrow> u16 \<Rightarrow> nat \<Rightarrow> nat option" where
  "SctStrTrim_lead str c p1 =
     (case rd str p1 of
        None \<Rightarrow> None
      | Some x \<Rightarrow> if x \<noteq> 0 \<and> x = c then SctStrTrim_lead str c (Suc p1) else Some p1)"
  by pat_completeness auto
termination
  by (relation "measure (\<lambda>(str, c, p1). length str - p1)") (auto simp: rd_Some_iff)

function SctStrTrim_shift :: "u16 list \<Rightarrow> nat \<Rightarrow> nat \<Rightarrow> u16 list option" where
  "SctStrTrim_shift str p2 p1 =
     (case rd str p1 of
        None \<Rightarrow> None
      | Some x \<Rightarrow>
          if x \<noteq> 0
          then (case wr str p2 x of
                  None \<Rightarrow> None
                | Some str' \<Rightarrow> SctStrTrim_shift str' (Suc p2) (Suc p1))
          else wr str p2 0)"
  by pat_completeness auto
termination
  by (relation "measure (\<lambda>(str, p2, p1). length str - p1)") (auto simp: rd_Some_iff wr_Some_iff)

fun SctStrTrim_tail :: "u16 list \<Rightarrow> u16 \<Rightarrow> nat \<Rightarrow> nat option" where
  "SctStrTrim_tail str c 0 = Some 0"
| "SctStrTrim_tail str c (Suc k) =
     (case rd str k of
        None \<Rightarrow> None
      | Some x \<Rightarrow> if x = c then SctStrTrim_tail str c k else Some (Suc k))"

definition SctStrTrim :: "u16 list \<Rightarrow> u16 \<Rightarrow> u16 list option" where
  "SctStrTrim str c = do {
     c0 \<leftarrow> rd str 0;
     if c0 = 0 then Some str else do {
       p1 \<leftarrow> SctStrTrim_lead str c 0;
       str1 \<leftarrow> (if p1 = 0 then Some str else SctStrTrim_shift str 0 p1);
       len \<leftarrow> SctStrLen str1;
       k \<leftarrow> SctStrTrim_tail str1 c len;
       if k \<noteq> len then wr str1 k 0 else Some str1 } }"

declare SctStrTrim_lead.simps [simp del] SctStrTrim_shift.simps [simp del]

lemma SctStrTrim_lead_spec:
  "cstr (drop p1 b) = Some u \<Longrightarrow>
     SctStrTrim_lead b c p1 = Some (p1 + length (takeWhile (\<lambda>x. x = c) u))"
proof (induction b c p1 arbitrary: u rule: SctStrTrim_lead.induct)
  case (1 b c p1)
  obtain x where x: "rd b p1 = Some x" and lt: "p1 < length b"
    using "1.prems" by (cases "p1 < length b") (auto simp: rd_def)
  have dr: "drop p1 b = x # drop (Suc p1) b"
    using x by (auto simp: rd_Some_iff Cons_nth_drop_Suc)
  show ?case
  proof (cases "x \<noteq> 0 \<and> x = c")
    case True
    then obtain u' where "cstr (drop (Suc p1) b) = Some u'" and "u = x # u'"
      using "1.prems" dr by auto
    then show ?thesis
      using "1.IH" x True by (subst SctStrTrim_lead.simps) auto
  next
    case False
    then show ?thesis
      using "1.prems" x dr
      by (subst SctStrTrim_lead.simps; cases u) (auto simp: cstr_Cons split: if_splits)
  qed
qed

lemma SctStrTrim_shift_spec:
  "cstr (drop p1 b) = Some u \<Longrightarrow> p2 < p1 \<Longrightarrow>
     SctStrTrim_shift b p2 p1 = Some (take p2 b @ u @ 0 # drop (Suc (p2 + length u)) b)"
proof (induction b p2 p1 arbitrary: u rule: SctStrTrim_shift.induct)
  case (1 b p2 p1)
  obtain x where x: "rd b p1 = Some x" and lt: "p1 < length b"
    using "1.prems" by (cases "p1 < length b") (auto simp: rd_def)
  have dr: "drop p1 b = x # drop (Suc p1) b"
    using x by (auto simp: rd_Some_iff Cons_nth_drop_Suc)
  have w: "wr b p2 y = Some (b[p2 := y])" for y
    using lt "1.prems" by (simp add: rdwr_simps)
  show ?case
  proof (cases "x = 0")
    case True
    then have "u = []" using "1.prems"(1) dr by simp
    then show ?thesis
      using True x w lt "1.prems"(2)
      by (subst SctStrTrim_shift.simps) (simp add: upd_conv_take_nth_drop)
  next
    case False
    then obtain u' where u': "cstr (drop (Suc p1) b) = Some u'" and u: "u = x # u'"
      using "1.prems" dr by auto
    have "SctStrTrim_shift (b[p2 := x]) (Suc p2) (Suc p1) =
        Some (take (Suc p2) (b[p2 := x]) @ u' @ 0 # drop (Suc (Suc p2 + length u')) (b[p2 := x]))"
      by (rule "1.IH" [OF x False w]) (use u' "1.prems"(2) in auto)
    also have "take (Suc p2) (b[p2 := x]) = take p2 b @ [x]"
      using lt "1.prems"(2) by (simp add: take_Suc_conv_app_nth)
    finally show ?thesis
      using False x w u "1.prems"(2) by (subst SctStrTrim_shift.simps) simp
  qed
qed

lemma SctStrTrim_tail_spec:
  "cstr b = Some u \<Longrightarrow> k \<le> length u \<Longrightarrow>
     SctStrTrim_tail b c k = Some (length (dropWhile (\<lambda>x. x = c) (rev (take k u))))"
proof (induction k)
  case (Suc k)
  then have "rd b k = Some (u ! k)" and "take (Suc k) u = take k u @ [u ! k]"
    by (auto simp: cstr_rd_lt take_Suc_conv_app_nth)
  then show ?case using Suc by simp
qed simp

lemma SctStrTrim_cstr:
  assumes b: "cstr b = Some s"
  shows "\<exists>b'. SctStrTrim b c = Some b' \<and> length b' = length b \<and>
    cstr b' = Some (trimmed (\<lambda>x. x = c) (\<lambda>x. x = c) s)"
proof (cases "s = []")
  case True
  then obtain r where "b = 0 # r" using b by (auto simp: cstr_Nil_iff)
  then show ?thesis using True by (auto simp: SctStrTrim_def trimmed_def)
next
  case False
  define u where "u = dropWhile (\<lambda>x. x = c) s"
  define p1 where "p1 = length (takeWhile (\<lambda>x. x = c) s)"
  have u_drop: "u = drop p1 s" by (simp add: u_def p1_def dropWhile_eq_drop)
  have p1_le: "p1 \<le> length s" by (simp add: p1_def length_takeWhile_le)
  have du: "cstr (drop p1 b) = Some u"
    using cstr_drop [OF b p1_le] u_drop by simp
  have lead: "SctStrTrim_lead b c 0 = Some p1"
    using SctStrTrim_lead_spec [of 0 b s c] b by (simp add: p1_def)
  obtain x where x: "rd b 0 = Some x" "x \<noteq> 0"
    using False b cstr_rd_lt [OF b, of 0] cstr_nz [OF b] by (metis length_greater_0_conv nth_mem)
  define b1 where "b1 = (if p1 = 0 then b else u @ 0 # drop (Suc (length u)) b)"
  have shift: "(if p1 = 0 then Some b else SctStrTrim_shift b 0 p1) = Some b1"
    using SctStrTrim_shift_spec [OF du, of 0] by (simp add: b1_def)
  have nz: "0 \<notin> set u" using cstr_nz [OF du] .
  have b1: "cstr b1 = Some u"
    using b nz u_drop by (simp add: b1_def)
  have len1: "length b1 = length b"
    using cstr_length [OF b] u_drop by (auto simp: b1_def)
  define k where "k = length (dropWhile (\<lambda>x. x = c) (rev u))"
  have tail: "SctStrTrim_tail b1 c (length u) = Some k"
    using SctStrTrim_tail_spec [OF b1, of "length u" c] by (simp add: k_def)
  have k_le: "k \<le> length u" unfolding k_def by (metis length_dropWhile_le length_rev)
  have tr: "trimmed (\<lambda>x. x = c) (\<lambda>x. x = c) s = take k u"
    unfolding trimmed_def k_def u_def [symmetric] by (rule rev_dropWhile_take)
  have run: "SctStrTrim b c = (if k \<noteq> length u then wr b1 k 0 else Some b1)"
    using x lead shift tail by (simp add: SctStrTrim_def SctStrLen_cstr b1)
  show ?thesis
  proof (cases "k = length u")
    case True
    then show ?thesis using run b1 len1 tr by simp
  next
    case False
    obtain r where r: "b1 = u @ 0 # r" using b1 by (rule cstrE)
    have kl: "k < length b1" and kl': "k < length u" using False k_le r by auto
    have "b1[k := 0] = take k u @ 0 # drop (Suc k) b1"
      using kl kl' r by (simp add: upd_conv_take_nth_drop)
    moreover have "0 \<notin> set (take k u)" using nz by (meson in_set_takeD)
    ultimately have "cstr (b1[k := 0]) = Some (take k u)" by simp
    then show ?thesis using run False kl len1 tr by (simp add: rdwr_simps)
  qed
qed

section \<open>Tokenising\<close>

text \<open>
  \<open>SctSplitStr\<close> takes the buffer and the offset \<open>*List\<close>; it returns the offset of the
  token, the buffer with the separator overwritten, and the new \<open>*List\<close>. The \<open>CHAR8\<close>
  variant differs in its test of the list pointer: it returns \<open>NULL\<close> on a null list
  pointer and does not stop early on an empty string.
\<close>

function SctSplitStr_find :: "'a::zero list \<Rightarrow> nat \<Rightarrow> 'a \<Rightarrow> nat option" where
  "SctSplitStr_find b Str Separator =
     (case rd b Str of
        None \<Rightarrow> None
      | Some x \<Rightarrow>
          if x \<noteq> 0 then (if x = Separator then Some Str
                           else SctSplitStr_find b (Suc Str) Separator)
          else Some Str)"
  by pat_completeness auto
termination
  by (relation "measure (\<lambda>(b, i, c). length b - i)") (auto simp: rd_Some_iff)

declare SctSplitStr_find.simps [simp del]

definition SctSplitStr :: "u16 list \<Rightarrow> nat \<Rightarrow> u16 \<Rightarrow> (nat \<times> u16 list \<times> nat) option" where
  "SctSplitStr b List Separator = do {
     x \<leftarrow> rd b List;
     if x = 0 then Some (List, b, List) else do {
       Str \<leftarrow> SctSplitStr_find b List Separator;
       y \<leftarrow> rd b Str;
       if y = Separator then do {
         b' \<leftarrow> wr b Str 0;
         Some (List, b', Suc Str) }
       else Some (List, b, Str) } }"

definition SctAsciiSplitStr ::
    "u8 list \<Rightarrow> nat option \<Rightarrow> u8 \<Rightarrow> (nat option \<times> u8 list \<times> nat option) option" where
  "SctAsciiSplitStr b List Separator =
     (case List of
        None \<Rightarrow> Some (None, b, None)
      | Some i \<Rightarrow> do {
          Str \<leftarrow> SctSplitStr_find b i Separator;
          y \<leftarrow> rd b Str;
          if y = Separator then do {
            b' \<leftarrow> wr b Str 0;
            Some (Some i, b', Some (Suc Str)) }
          else Some (Some i, b, Some Str) })"

lemma SctSplitStr_find_spec:
  "cstr (drop i b) = Some u \<Longrightarrow> SctSplitStr_find b i c = Some (i + first_pos c u)"
proof (induction b i c arbitrary: u rule: SctSplitStr_find.induct)
  case (1 b i c)
  obtain x where x: "rd b i = Some x"
    using "1.prems" by (cases "i < length b") (auto simp: rd_def)
  have dr: "drop i b = x # drop (Suc i) b"
    using x by (auto simp: rd_Some_iff Cons_nth_drop_Suc)
  show ?case
  proof (cases "x = 0 \<or> x = c")
    case True
    then show ?thesis
      using "1.prems" x dr
      by (subst SctSplitStr_find.simps; cases u) (auto simp: cstr_Cons split: if_splits)
  next
    case False
    then obtain u' where "cstr (drop (Suc i) b) = Some u'" and "u = x # u'"
      using "1.prems" dr by auto
    then show ?thesis using "1.IH" x False by (subst SctSplitStr_find.simps) auto
  qed
qed

text \<open>
  One step of tokenising the string \<open>u\<close> left at \<open>*List\<close>: the token is the text before
  the separator, and the text after it is left.
\<close>

lemma SctSplitStr_spec:
  assumes u: "cstr (drop i b) = Some u" and c: "c \<noteq> 0"
  shows "\<exists>b' i'. SctSplitStr b i c = Some (i, b', i') \<and> length b' = length b \<and>
    cstr (drop i b') = Some (takeWhile (\<lambda>x. x \<noteq> c) u) \<and>
    cstr (drop i' b') = Some (drop (Suc (first_pos c u)) u)"
proof -
  obtain r where r: "drop i b = u @ 0 # r" and nz: "0 \<notin> set u" using u by (rule cstrE)
  have i: "i + length u < length b"
    using r by (metis add_less_cancel_left add_lessD1 cstr_length length_drop less_diff_conv add.commute u)
  have x: "rd b i = Some ((u @ 0 # r) ! 0)"
    using r i by (simp add: rd_def flip: r)
  have cells: "rd b (i + k) = Some (if k < length u then u ! k else 0)" if "k \<le> length u" for k
    using that i r by (simp add: rd_def flip: nth_append_length) (metis (no_types, lifting) add_lessD1 i less_imp_le nth_append nth_append_at nth_drop r linorder_neqE_nat not_le)
  show ?thesis
  proof (cases "u = []")
    case True
    then show ?thesis using x u by (simp add: SctSplitStr_def)
  next
    case False
    then have hd: "(u @ 0 # r) ! 0 \<noteq> 0"
      using nz by (metis hd_conv_nth hd_in_set nth_append length_greater_0_conv)
    define p where "p = first_pos c u"
    have f: "SctSplitStr_find b i c = Some (i + p)"
      using SctSplitStr_find_spec [OF u] by (simp add: p_def)
    show ?thesis
    proof (cases "c \<in> set u")
      case False
      then have p: "p = length u" by (simp add: p_def first_pos_absent)
      have tw: "takeWhile (\<lambda>x. x \<noteq> c) u = u" using False by (auto simp: takeWhile_eq_all_conv)
      have "cstr (drop (i + length u) b) = Some []"
        using r by (metis append_eq_conv_conj cstr_Cons_0 drop_drop add.commute)
      then have rest: "cstr (drop (i + length u) b) = Some (drop (Suc (first_pos c u)) u)"
        using p by (simp add: p_def)
      have run: "SctSplitStr b i c = Some (i, b, i + length u)"
        using x hd f p c cells [of "length u"] by (simp add: SctSplitStr_def)
      have tok: "cstr (drop i b) = Some (takeWhile (\<lambda>x. x \<noteq> c) u)"
        by (rule trans [OF u]) (rule arg_cong [OF tw [symmetric]])
      show ?thesis
        by (rule exI, rule exI, intro conjI, rule run, rule refl, rule tok, rule rest)
    next
      case True
      then have p: "p < length u" "u ! p = c"
        by (auto simp: p_def first_pos_lt first_pos_nth)
      let ?b = "b[i + p := 0]"
      have t: "takeWhile (\<lambda>x. x \<noteq> c) u = take p u"
        unfolding p_def first_pos_def by (rule takeWhile_eq_take)
      have "drop i ?b = (u @ 0 # r)[p := 0]" using r by (simp add: drop_update_swap)
      also have "\<dots> = take p u @ 0 # drop (Suc p) u @ 0 # r"
        using p by (simp add: upd_conv_take_nth_drop)
      finally have d: "drop i ?b = take p u @ 0 # drop (Suc p) u @ 0 # r" .
      have "0 \<notin> set (take p u)" "0 \<notin> set (drop (Suc p) u)"
        using nz by (meson in_set_takeD in_set_dropD)+
      moreover have "drop (Suc (i + p)) ?b = drop (Suc p) u @ 0 # r"
      proof -
        have "drop (Suc (i + p)) ?b = drop (Suc p) (drop i ?b)"
          by (simp add: add.commute)
        then show ?thesis using d p by simp
      qed
      ultimately show ?thesis
        using x hd f p d t i cells [of p]
        by (simp add: SctSplitStr_def rdwr_simps p_def)
    qed
  qed
qed

section \<open>Conversions between CHAR16 and CHAR8 strings\<close>

text \<open>
  Both conversions stop after \<open>n\<close> characters or at the terminator; they return the number
  of characters before it, or all ones when a pointer is \<open>NULL\<close> (\<open>None\<close>).
\<close>

fun SctUnicodeToAscii_loop :: "u8 list \<Rightarrow> u16 list \<Rightarrow> nat \<Rightarrow> (u8 list \<times> nat) option" where
  "SctUnicodeToAscii_loop s pwcs 0 = Some (s, 0)"
| "SctUnicodeToAscii_loop (x # s) (w # pwcs) (Suc n) =
     (let a = ucast (w AND 0xff) in
      if a = 0 then Some (a # s, 0)
      else map_option (\<lambda>(s', cnt). (a # s', Suc cnt)) (SctUnicodeToAscii_loop s pwcs n))"
| "SctUnicodeToAscii_loop _ _ (Suc n) = None"

definition SctUnicodeToAscii ::
    "u8 list option \<Rightarrow> u16 list option \<Rightarrow> nat \<Rightarrow> (u8 list option \<times> u64) option" where
  "SctUnicodeToAscii s pwcs n =
     (case (s, pwcs) of
        (Some d, Some p) \<Rightarrow>
          map_option (\<lambda>(d', cnt). (Some d', of_nat cnt)) (SctUnicodeToAscii_loop d p n)
      | _ \<Rightarrow> Some (s, - 1))"

fun SctAsciiToUnicode_loop :: "u16 list \<Rightarrow> u8 list \<Rightarrow> nat \<Rightarrow> (u16 list \<times> nat) option" where
  "SctAsciiToUnicode_loop pwcs s 0 = Some (pwcs, 0)"
| "SctAsciiToUnicode_loop (x # pwcs) (a # s) (Suc n) =
     (let w = ucast a AND 0xff in
      if w = 0 then Some (w # pwcs, 0)
      else map_option (\<lambda>(p', cnt). (w # p', Suc cnt)) (SctAsciiToUnicode_loop pwcs s n))"
| "SctAsciiToUnicode_loop _ _ (Suc n) = None"

definition SctAsciiToUnicode ::
    "u16 list option \<Rightarrow> u8 list option \<Rightarrow> nat \<Rightarrow> (u16 list option \<times> u64) option" where
  "SctAsciiToUnicode pwcs s n =
     (case (pwcs, s) of
        (Some d, Some p) \<Rightarrow>
          map_option (\<lambda>(d', cnt). (Some d', of_nat cnt)) (SctAsciiToUnicode_loop d p n)
      | _ \<Rightarrow> Some (pwcs, - 1))"

fun SctStrToAscii :: "u16 list \<Rightarrow> u8 list \<Rightarrow> u8 list option" where
  "SctStrToAscii [] AsciiStr = None"
| "SctStrToAscii (c # Str) [] = None"
| "SctStrToAscii (c # Str) (a # AsciiStr) =
     (if c \<noteq> 0 then map_option ((#) (ucast c)) (SctStrToAscii Str AsciiStr)
      else Some (0 # AsciiStr))"

text \<open>
  The narrowing keeps the low byte. A character whose low byte is zero ends the copy even
  though it does not end the \<open>CHAR16\<close> string; the other characters are copied one by one.
\<close>

definition low_bytes :: "u16 list \<Rightarrow> u8 list" where
  "low_bytes s = takeWhile (\<lambda>a. a \<noteq> 0) (map (\<lambda>w. ucast (w AND 0xff)) s)"

definition widen :: "u8 list \<Rightarrow> u16 list" where
  "widen s = map (\<lambda>a. ucast a) s"

lemma low_bytes_nz: "0 \<notin> set (low_bytes s)"
  unfolding low_bytes_def by (auto dest: set_takeWhileD)

lemma length_low_bytes: "length (low_bytes s) \<le> length s"
  unfolding low_bytes_def by (metis length_map length_takeWhile_le)

lemma length_widen [simp]: "length (widen s) = length s"
  by (simp add: widen_def)

lemma ucast_mask_byte [simp]: "(ucast (a::u8) :: u16) AND 0xff = ucast a"
proof -
  have "(ucast a :: u16) AND mask 8 = ucast a"
    by (rule bit_word_eqI) (auto simp: bit_simps dest: bit_imp_le_length)
  then show ?thesis by (simp add: mask_eq_exp_minus_1)
qed

lemma ucast_u16_eq_0 [simp]: "(ucast (a::u8) :: u16) = 0 \<longleftrightarrow> a = 0"
proof
  assume "(ucast a :: u16) = 0"
  then have "(ucast (ucast a :: u16) :: u8) = 0" by simp
  then show "a = 0" by (simp add: ucast_up_ucast_id is_up)
qed simp

lemma ucast_byte_roundtrip [simp]: "(ucast (ucast (a::u8) :: u16) :: u8) = a"
  by (simp add: ucast_up_ucast_id is_up)

lemma low_bytes_widen: "0 \<notin> set t \<Longrightarrow> low_bytes (widen t) = t"
  by (induction t) (auto simp: low_bytes_def widen_def)

lemma widen_nz: "0 \<notin> set t \<Longrightarrow> 0 \<notin> set (widen t)"
  by (auto simp: widen_def)

lemma low_bytes_Nil [simp]: "low_bytes [] = []"
  by (simp add: low_bytes_def)

lemma SctUnicodeToAscii_loop_spec:
  "cstr src = Some t \<Longrightarrow> length (low_bytes t) < n \<Longrightarrow> length (low_bytes t) < length d \<Longrightarrow>
   SctUnicodeToAscii_loop d src n =
     Some (low_bytes t @ 0 # drop (Suc (length (low_bytes t))) d, length (low_bytes t))"
proof (induction d src n arbitrary: t rule: SctUnicodeToAscii_loop.induct)
  case (2 x s w pwcs n)
  show ?case
  proof (cases "w = 0")
    case True
    then show ?thesis using "2.prems" by simp
  next
    case False
    then obtain t' where t': "cstr pwcs = Some t'" and t: "t = w # t'"
      using "2.prems" by auto
    then show ?thesis
      using "2.IH" [OF refl _ t'] "2.prems"
      by (cases "(ucast (w AND 0xff) :: u8) = 0") (auto simp: low_bytes_def Let_def)
  qed
qed auto

lemma SctAsciiToUnicode_loop_spec:
  "cstr src = Some t \<Longrightarrow> length t < n \<Longrightarrow> length t < length d \<Longrightarrow>
   SctAsciiToUnicode_loop d src n =
     Some (widen t @ 0 # drop (Suc (length t)) d, length t)"
proof (induction d src n arbitrary: t rule: SctAsciiToUnicode_loop.induct)
  case (2 x pwcs a s n)
  then show ?case by (cases "a = 0") (auto simp: widen_def Let_def)
qed auto

lemma SctUnicodeToAscii_spec:
  assumes "cstr src = Some t" and "length (low_bytes t) < n" and "length (low_bytes t) < length d"
  shows "SctUnicodeToAscii (Some d) (Some src) n =
    Some (Some (low_bytes t @ 0 # drop (Suc (length (low_bytes t))) d), of_nat (length (low_bytes t)))"
  using SctUnicodeToAscii_loop_spec [OF assms] by (simp add: SctUnicodeToAscii_def)

lemma SctAsciiToUnicode_spec:
  assumes "cstr src = Some t" and "length t < n" and "length t < length d"
  shows "SctAsciiToUnicode (Some d) (Some src) n =
    Some (Some (widen t @ 0 # drop (Suc (length t)) d), of_nat (length t))"
  using SctAsciiToUnicode_loop_spec [OF assms] by (simp add: SctAsciiToUnicode_def)

text \<open>Without a terminator in the first \<open>n\<close> characters all \<open>n\<close> cells are written and none
  of them is zero: the result is then no string.\<close>

lemma SctUnicodeToAscii_loop_full:
  "\<forall>w\<in>set (take n src). (ucast (w AND 0xff) :: u8) \<noteq> 0 \<Longrightarrow> n \<le> length src \<Longrightarrow> n \<le> length d \<Longrightarrow>
   SctUnicodeToAscii_loop d src n =
     Some (map (\<lambda>w. ucast (w AND 0xff)) (take n src) @ drop n d, n)"
  by (induction d src n rule: SctUnicodeToAscii_loop.induct) (auto simp: Let_def)

lemma SctStrToAscii_spec:
  "cstr src = Some t \<Longrightarrow> length t < length d \<Longrightarrow>
   SctStrToAscii src d = Some (map ucast t @ 0 # drop (Suc (length t)) d)"
proof (induction src d arbitrary: t rule: SctStrToAscii.induct)
  case (3 c Str a AsciiStr)
  then show ?case by (cases "c = 0") auto
qed auto

end
