(* ===== verification/Sct_Number.thy ===== *)
theory Sct_Number
  imports Sct_String
begin

text \<open>
  The numeric conversions of \<open>SctLib/String.c\<close> and the 64-bit helpers of \<open>SctLib/Math.c\<close>:
  decimal and hexadecimal parsing, the address parsers, hexadecimal printing, and the
  conversion between a byte buffer and its hexadecimal string. \<open>UINTN\<close> is 64 bits wide
  (the X64 build). The reference value of a digit string is \<open>num_of base digits\<close>.
\<close>

section \<open>Math.c\<close>

definition SctLShiftU64 :: "u64 \<Rightarrow> nat \<Rightarrow> u64" where
  "SctLShiftU64 Operand Count = push_bit Count Operand"

definition SctRShiftU64 :: "u64 \<Rightarrow> nat \<Rightarrow> u64" where
  "SctRShiftU64 Operand Count = drop_bit Count Operand"

definition SctMultU64x32 :: "u64 \<Rightarrow> u64 \<Rightarrow> u64" where
  "SctMultU64x32 Multiplicand Multiplier = Multiplicand * Multiplier"

text \<open>Division returns the quotient and the remainder; dividing by zero is undefined.\<close>

definition SctDivU64x32 :: "u64 \<Rightarrow> u64 \<Rightarrow> (u64 \<times> u64) option" where
  "SctDivU64x32 Dividend Divisor =
     (if Divisor = 0 then None else Some (Dividend div Divisor, Dividend mod Divisor))"

section \<open>Digit strings\<close>

definition num_of :: "nat \<Rightarrow> nat list \<Rightarrow> nat" where
  "num_of b ds = foldl (\<lambda>a d. b * a + d) 0 ds"

lemma num_of_Nil [simp]: "num_of b [] = 0"
  by (simp add: num_of_def)

lemma num_of_snoc [simp]: "num_of b (ds @ [d]) = b * num_of b ds + d"
  by (simp add: num_of_def)

lemma foldl_num_of: "foldl (\<lambda>a d. b * a + d) v ds = v * b ^ length ds + num_of b ds"
proof (induction ds arbitrary: v rule: rev_induct)
  case (snoc d ds)
  then show ?case by (simp add: algebra_simps)
qed simp

lemma num_of_Cons: "num_of b (d # ds) = d * b ^ length ds + num_of b ds"
  using foldl_num_of [of b d ds] by (simp add: num_of_def)

lemma num_of_mono_prefix: "1 \<le> b \<Longrightarrow> num_of b ds \<le> num_of b (ds @ es)"
proof (induction es rule: rev_induct)
  case (snoc e es)
  have "num_of b ds \<le> num_of b (ds @ es)" using snoc by simp
  also have "\<dots> \<le> b * num_of b (ds @ es)" using snoc.prems by simp
  also have "\<dots> \<le> num_of b (ds @ es @ [e])"
    using num_of_snoc [of b "ds @ es" e] by simp
  finally show ?case .
qed simp

text \<open>The value of a decimal and of a hexadecimal digit character.\<close>

definition dec_val :: "u16 \<Rightarrow> nat option" where
  "dec_val c = (if 48 \<le> c \<and> c \<le> 57 then Some (unat c - 48) else None)"

definition hex_val :: "u16 \<Rightarrow> nat option" where
  "hex_val c =
     (if 48 \<le> c \<and> c \<le> 57 then Some (unat c - 48)
      else if 65 \<le> c \<and> c \<le> 70 then Some (unat c - 55)
      else if 97 \<le> c \<and> c \<le> 102 then Some (unat c - 87)
      else None)"

lemma dec_val_lt: "dec_val c = Some d \<Longrightarrow> d < 10"
  by (auto simp: dec_val_def word_le_nat_alt split: if_splits)

lemma hex_val_lt: "hex_val c = Some d \<Longrightarrow> d < 16"
  by (auto simp: hex_val_def word_le_nat_alt split: if_splits)

lemma dec_val_0 [simp]: "dec_val 0 = None"
  by (simp add: dec_val_def)

lemma hex_val_0 [simp]: "hex_val 0 = None"
  by (simp add: hex_val_def)

text \<open>The maximal digit prefix of a string, as digit values.\<close>

fun digits_of :: "('a \<Rightarrow> nat option) \<Rightarrow> 'a list \<Rightarrow> nat list" where
  "digits_of val [] = []"
| "digits_of val (c # s) = (case val c of None \<Rightarrow> [] | Some d \<Rightarrow> d # digits_of val s)"

lemma digits_of_all:
  "\<forall>c\<in>set s. val c \<noteq> None \<Longrightarrow> digits_of val s = map (\<lambda>c. the (val c)) s"
  by (induction s) auto

lemma digits_of_append_stop:
  "\<forall>c\<in>set s. val c \<noteq> None \<Longrightarrow> t = [] \<or> val (hd t) = None \<Longrightarrow>
   digits_of val (s @ t) = map (\<lambda>c. the (val c)) s"
  by (induction s) (cases t; auto)+

section \<open>SctXtoi and SctAtoi\<close>

fun skip_char :: "u16 \<Rightarrow> u16 list \<Rightarrow> u16 list option" where
  "skip_char ch [] = None"
| "skip_char ch (c # str) = (if c \<noteq> 0 \<and> c = ch then skip_char ch str else Some (c # str))"

fun SctXtoi_digits :: "u16 list \<Rightarrow> u64 \<Rightarrow> u64 option" where
  "SctXtoi_digits [] u = None"
| "SctXtoi_digits (c0 # str) u =
     (if c0 = 0 then Some u
      else let c = (if 97 \<le> c0 \<and> c0 \<le> 102 then c0 - (97 - 65) else c0) in
        if (48 \<le> c \<and> c \<le> 57) \<or> (65 \<le> c \<and> c \<le> 70)
        then SctXtoi_digits str (push_bit 4 u OR ucast (c - (if 65 \<le> c then 65 - 10 else 48)))
        else Some u)"

definition SctXtoi :: "u16 list \<Rightarrow> u64 option" where
  "SctXtoi str = do {
     str \<leftarrow> skip_char 32 str;
     str \<leftarrow> skip_char 48 str;
     c \<leftarrow> rd str 0;
     str \<leftarrow> Some (if c \<noteq> 0 \<and> (c = 120 \<or> c = 88) then drop 1 str else str);
     SctXtoi_digits str 0 }"

fun SctAtoi_digits :: "u16 list \<Rightarrow> u64 \<Rightarrow> u64 option" where
  "SctAtoi_digits [] u = None"
| "SctAtoi_digits (c # str) u =
     (if c = 0 then Some u
      else if 48 \<le> c \<and> c \<le> 57 then SctAtoi_digits str (u * 10 + ucast c - 48)
      else Some u)"

definition SctAtoi :: "u16 list \<Rightarrow> u64 option" where
  "SctAtoi str = do { str \<leftarrow> skip_char 32 str; SctAtoi_digits str 0 }"

lemma skip_char_cstr [cstr_simps]:
  "ch \<noteq> 0 \<Longrightarrow> cstr b = Some s \<Longrightarrow>
   \<exists>b'. skip_char ch b = Some b' \<and> cstr b' = Some (dropWhile (\<lambda>x. x = ch) s)"
proof (induction ch b arbitrary: s rule: skip_char.induct)
  case (2 ch c str)
  then show ?case by (cases "c = 0"; cases "c = ch") auto
qed simp

lemma push_bit_4_or:
  fixes u :: u64
  assumes "d < 16"
  shows "push_bit 4 u OR of_nat d = 16 * u + of_nat d"
proof -
  have "take_bit 4 d = d" using assms by (simp add: take_bit_nat_eq_self)
  then have d: "\<not> bit d n" if "4 \<le> n" for n
    using that by (metis bit_take_bit_iff not_le)
  have "push_bit 4 u AND (of_nat d :: u64) = 0"
    by (rule bit_word_eqI) (auto simp: bit_simps bit_of_nat_iff d)
  then have "push_bit 4 u + (of_nat d :: u64) = push_bit 4 u OR of_nat d"
    by (rule disjunctive_add_eq_or)
  then show ?thesis by (simp add: push_bit_eq_mult mult.commute)
qed

lemma ucast_sub16:
  assumes "k \<le> c"
  shows "(ucast (c - k :: u16) :: u64) = ucast c - ucast k"
proof -
  have le: "unat k \<le> unat c" using assms by (simp add: word_le_nat_alt)
  have "(ucast (c - k) :: u64) = of_nat (unat (c - k))" by simp
  also have "unat (c - k) = unat c - unat k" using assms by (rule unat_sub)
  also have "(of_nat (unat c - unat k) :: u64) = of_nat (unat c) - of_nat (unat k)"
    using le by (rule of_nat_diff)
  finally show ?thesis by simp
qed

text \<open>Reading one hexadecimal digit, and the value the digit loop accumulates.\<close>

lemma Xtoi_step:
  fixes c0 :: u16
  defines "c \<equiv> (if 97 \<le> c0 \<and> c0 \<le> 102 then c0 - (97 - 65) else c0)"
  shows "(((48 \<le> c \<and> c \<le> 57) \<or> (65 \<le> c \<and> c \<le> 70)) \<longleftrightarrow> hex_val c0 \<noteq> None) \<and>
    (\<forall>d. hex_val c0 = Some d \<longrightarrow>
      (ucast (c - (if 65 \<le> c then 65 - 10 else 48)) :: u64) = of_nat d)"
proof -
  have u: "(ucast (w :: u16) :: u64) = of_nat (unat w)" for w by simp
  show ?thesis
    unfolding c_def hex_val_def u
    by (auto simp: word_le_nat_alt unat_sub ucast_sub16 word_less_nat_alt split: if_splits)
qed

lemma SctXtoi_digits_spec:
  "cstr b = Some s \<Longrightarrow> SctXtoi_digits b u =
     Some (foldl (\<lambda>a d. 16 * a + of_nat d) u (digits_of hex_val s))"
proof (induction b u arbitrary: s rule: SctXtoi_digits.induct)
  case (2 c0 str u)
  show ?case
  proof (cases "hex_val c0")
    case None
    then show ?thesis
      using "2.prems" Xtoi_step [of c0] by (cases "c0 = 0") (auto simp: Let_def)
  next
    case (Some d)
    then have nz: "c0 \<noteq> 0" by auto
    then obtain s' where s': "cstr str = Some s'" "s = c0 # s'" using "2.prems" by auto
    have "push_bit 4 u OR of_nat d = 16 * u + of_nat d"
      using hex_val_lt [OF Some] by (rule push_bit_4_or)
    then show ?thesis
      using "2.IH" [OF nz refl _ s'(1)] Xtoi_step [of c0] Some nz s'(2)
      by (simp add: Let_def split: if_splits)
  qed
qed simp

lemma foldl_word_num_of:
  "foldl (\<lambda>a d. of_nat b * a + of_nat d) (of_nat v) ds =
     (of_nat (v * b ^ length ds + num_of b ds) :: u64)"
proof -
  have "foldl (\<lambda>a d. of_nat b * a + of_nat d) (of_nat v) ds =
      (of_nat (foldl (\<lambda>a d. b * a + d) v ds) :: u64)"
    by (induction ds arbitrary: v) (simp_all flip: of_nat_mult of_nat_add)
  then show ?thesis by (simp add: foldl_num_of)
qed

definition xtoi_body :: "u16 list \<Rightarrow> u16 list" where
  "xtoi_body s =
     (let t = dropWhile (\<lambda>x. x = 48) (dropWhile (\<lambda>x. x = 32) s) in
      if t \<noteq> [] \<and> (hd t = 120 \<or> hd t = 88) then tl t else t)"

lemma SctXtoi_cstr [cstr_simps]:
  assumes "cstr b = Some s"
  shows "SctXtoi b = Some (of_nat (num_of 16 (digits_of hex_val (xtoi_body s))))"
proof -
  obtain b1 where b1: "skip_char 32 b = Some b1" "cstr b1 = Some (dropWhile (\<lambda>x. x = 32) s)"
    using skip_char_cstr [of 32 b s] assms by auto
  obtain b2 where b2: "skip_char 48 b1 = Some b2"
      "cstr b2 = Some (dropWhile (\<lambda>x. x = 48) (dropWhile (\<lambda>x. x = 32) s))"
    using skip_char_cstr [of 48 b1] b1(2) by auto
  define t where "t = dropWhile (\<lambda>x. x = 48) (dropWhile (\<lambda>x. x = 32) s)"
  obtain c where c: "rd b2 0 = Some c" "c = (if t = [] then 0 else hd t)"
    using cstr_rd [OF b2(2), of 0] by (simp add: t_def hd_conv_nth)
  define b3 where "b3 = (if c \<noteq> 0 \<and> (c = 120 \<or> c = 88) then drop 1 b2 else b2)"
  have "cstr b3 = Some (xtoi_body s)"
  proof (cases "t \<noteq> [] \<and> (hd t = 120 \<or> hd t = 88)")
    case True
    then have "cstr (drop 1 b2) = Some (drop 1 t)"
      using cstr_drop [OF b2(2), of 1] by (cases t) (auto simp: t_def)
    then show ?thesis
      using True c(2) by (auto simp: b3_def xtoi_body_def t_def Let_def drop_Suc)
  next
    case False
    then have "b3 = b2" using c(2) by (auto simp: b3_def)
    then show ?thesis using False b2(2) by (auto simp: xtoi_body_def t_def Let_def)
  qed
  then have "SctXtoi_digits b3 0 = Some (of_nat (num_of 16 (digits_of hex_val (xtoi_body s))))"
    using SctXtoi_digits_spec [of b3 _ 0] foldl_word_num_of [of 16 0] by simp
  then show ?thesis using b1(1) b2(1) c(1) by (simp add: SctXtoi_def b3_def)
qed

lemma Atoi_step:
  "48 \<le> c \<and> c \<le> 57 \<longleftrightarrow> dec_val c \<noteq> None"
  "dec_val c = Some d \<Longrightarrow> (u * 10 + ucast c - 48 :: u64) = 10 * u + of_nat d"
proof -
  show "48 \<le> c \<and> c \<le> 57 \<longleftrightarrow> dec_val c \<noteq> None" by (simp add: dec_val_def)
  assume d: "dec_val c = Some d"
  then have "48 \<le> unat c" and dd: "d = unat c - 48"
    by (auto simp: dec_val_def word_le_nat_alt split: if_splits)
  then have "(of_nat d :: u64) = ucast c - 48" by simp
  then show "u * 10 + ucast c - 48 = 10 * u + of_nat d" by simp
qed

lemma SctAtoi_digits_spec:
  "cstr b = Some s \<Longrightarrow> SctAtoi_digits b u =
     Some (foldl (\<lambda>a d. 10 * a + of_nat d) u (digits_of dec_val s))"
proof (induction b u arbitrary: s rule: SctAtoi_digits.induct)
  case (2 c str u)
  show ?case
  proof (cases "dec_val c")
    case None
    then show ?thesis
      using "2.prems" Atoi_step(1) [of c] by (cases "c = 0") auto
  next
    case (Some d)
    then have nz: "c \<noteq> 0" by auto
    then obtain s' where s': "cstr str = Some s'" "s = c # s'" using "2.prems" by auto
    have rng: "48 \<le> c \<and> c \<le> 57" using Atoi_step(1) [of c] Some by simp
    have "SctAtoi_digits str (u * 10 + ucast c - 48) =
        Some (foldl (\<lambda>a d. 10 * a + of_nat d) (u * 10 + ucast c - 48) (digits_of dec_val s'))"
      by (rule "2.IH" [OF nz rng s'(1)])
    then show ?thesis
      using Some nz rng s'(2) by (simp add: Atoi_step(2) [OF Some])
  qed
qed simp

lemma SctAtoi_cstr [cstr_simps]:
  assumes "cstr b = Some s"
  shows "SctAtoi b = Some (of_nat (num_of 10 (digits_of dec_val (dropWhile (\<lambda>x. x = 32) s))))"
proof -
  obtain b1 where b1: "skip_char 32 b = Some b1" "cstr b1 = Some (dropWhile (\<lambda>x. x = 32) s)"
    using skip_char_cstr [of 32 b s] assms by auto
  then show ?thesis
    using SctAtoi_digits_spec [OF b1(2), of 0] foldl_word_num_of [of 10 0]
    by (simp add: SctAtoi_def)
qed

section \<open>SctStrToUInt and SctStrToUInt64\<close>

text \<open>
  Both trim the string in place first, so the modified buffer is part of the result. The
  loop runs over the \<open>Len\<close> characters left after an optional \<open>0x\<close> prefix; a return in
  the middle of it yields 0.
\<close>

fun SctStrToUInt_loop :: "nat \<Rightarrow> u16 list \<Rightarrow> nat \<Rightarrow> u64 \<Rightarrow> u64 option" where
  "SctStrToUInt_loop Base Str 0 Value = Some Value"
| "SctStrToUInt_loop Base [] (Suc Len) Value = None"
| "SctStrToUInt_loop Base (c0 # Str) (Suc Len) Value =
     (let NewValue = (if Base = 16 then Value * 16 else Value * 8 + Value * 2) in
      if Base \<noteq> 16 \<and> NewValue < Value * 2 then Some 0
      else let c = (if Base = 16 \<and> 97 \<le> c0 \<and> c0 \<le> 102 then c0 - 97 + 65 else c0) in
        if Base = 16 \<and> 65 \<le> c \<and> c \<le> 70
        then SctStrToUInt_loop Base Str Len (NewValue + (ucast (c - 65) + 10))
        else if 48 \<le> c \<and> c \<le> 57
        then SctStrToUInt_loop Base Str Len (NewValue + ucast (c - 48))
        else Some 0)"

definition SctStrToUInt :: "u16 list \<Rightarrow> (u16 list \<times> u64) option" where
  "SctStrToUInt Str0 = do {
     c \<leftarrow> rd Str0 0;
     if c = 0 then Some (Str0, 0) else do {
       Str \<leftarrow> SctStrTrim Str0 32;
       Len \<leftarrow> SctStrLen Str;
       if 2 \<le> Len \<and> rd Str 0 = Some 48 \<and> (rd Str 1 = Some 120 \<or> rd Str 1 = Some 88)
       then (if Len - 2 = 0 then Some (Str, 0)
             else map_option (Pair Str) (SctStrToUInt_loop 16 (drop 2 Str) (Len - 2) 0))
       else (if Len = 0 then Some (Str, 0)
             else map_option (Pair Str) (SctStrToUInt_loop 10 Str Len 0)) } }"

fun SctStrToUInt64_loop :: "nat \<Rightarrow> u16 list \<Rightarrow> nat \<Rightarrow> u64 \<Rightarrow> u64 option" where
  "SctStrToUInt64_loop Base Str 0 Value = Some Value"
| "SctStrToUInt64_loop Base [] (Suc Len) Value = None"
| "SctStrToUInt64_loop Base (c0 # Str) (Suc Len) Value =
     (if Base = 16 \<and> SctRShiftU64 Value 60 \<noteq> 0 then Some 0
      else if Base \<noteq> 16 \<and> SctRShiftU64 Value 61 \<noteq> 0 then Some 0
      else let NewValue = (if Base = 16 then SctLShiftU64 Value 4
                           else SctLShiftU64 Value 3 + SctLShiftU64 Value 1) in
        if Base \<noteq> 16 \<and> NewValue < SctLShiftU64 Value 1 then Some 0
        else let c = (if Base = 16 \<and> 97 \<le> c0 \<and> c0 \<le> 102 then c0 - 97 + 65 else c0) in
          if Base = 16 \<and> 65 \<le> c \<and> c \<le> 70
          then SctStrToUInt64_loop Base Str Len (NewValue + (ucast (c - 65) + 10))
          else if 48 \<le> c \<and> c \<le> 57
          then SctStrToUInt64_loop Base Str Len (NewValue + ucast (c - 48))
          else Some 0)"

definition SctStrToUInt64 :: "u16 list \<Rightarrow> (u16 list \<times> u64) option" where
  "SctStrToUInt64 Str0 = do {
     c \<leftarrow> rd Str0 0;
     if c = 0 then Some (Str0, 0) else do {
       Str \<leftarrow> SctStrTrim Str0 32;
       Len \<leftarrow> SctStrLen Str;
       if 2 \<le> Len \<and> rd Str 0 = Some 48 \<and> (rd Str 1 = Some 120 \<or> rd Str 1 = Some 88)
       then (if Len - 2 = 0 then Some (Str, 0)
             else map_option (Pair Str) (SctStrToUInt64_loop 16 (drop 2 Str) (Len - 2) 0))
       else (if Len = 0 then Some (Str, 0)
             else map_option (Pair Str) (SctStrToUInt64_loop 10 Str Len 0)) } }"

lemma StrToUInt_hex_digit:
  fixes c0 :: u16
  defines "c \<equiv> (if 97 \<le> c0 \<and> c0 \<le> 102 then c0 - 97 + 65 else c0)"
  assumes d: "hex_val c0 = Some d"
  shows "(65 \<le> c \<and> c \<le> 70 \<and> ucast (c - 65) + 10 = (of_nat d :: u64)) \<or>
    (\<not> (65 \<le> c \<and> c \<le> 70) \<and> 48 \<le> c \<and> c \<le> 57 \<and> ucast (c - 48) = (of_nat d :: u64))"
proof -
  have c: "c = (if 97 \<le> c0 \<and> c0 \<le> 102 then c0 - 32 else c0)"
    by (simp add: c_def)
  show ?thesis
    using d unfolding c hex_val_def
    by (auto simp: word_le_nat_alt unat_sub ucast_sub16 word_less_nat_alt split: if_splits)
qed

lemma StrToUInt_dec_digit:
  assumes "dec_val c = Some d"
  shows "48 \<le> c \<and> c \<le> 57 \<and> ucast (c - 48) = (of_nat d :: u64)"
  using assms unfolding dec_val_def
  by (auto simp: word_le_nat_alt ucast_sub16 split: if_splits)

text \<open>The value of a digit string whose characters are all digits.\<close>

definition value_of :: "nat \<Rightarrow> u16 list \<Rightarrow> nat" where
  "value_of b s = num_of b (map (\<lambda>c. the ((if b = 16 then hex_val else dec_val) c)) s)"

definition all_digits :: "nat \<Rightarrow> u16 list \<Rightarrow> bool" where
  "all_digits b s \<longleftrightarrow> (\<forall>c\<in>set s. (if b = 16 then hex_val else dec_val) c \<noteq> None)"

lemma value_of_Nil [simp]: "value_of b [] = 0"
  by (simp add: value_of_def)

lemma value_of_Cons:
  "value_of b (c # s) = the ((if b = 16 then hex_val else dec_val) c) * b ^ length s + value_of b s"
  by (simp add: value_of_def num_of_Cons)

lemma u64_top_bits:
  assumes "v < 2 ^ 64"
  shows "drop_bit 60 (of_nat v :: u64) \<noteq> 0 \<longleftrightarrow> 2 ^ 60 \<le> v"
    and "drop_bit 61 (of_nat v :: u64) \<noteq> 0 \<longleftrightarrow> 2 ^ 61 \<le> v"
proof -
  have u: "unat (of_nat v :: u64) = v"
    using assms by (simp add: unat_of_nat take_bit_nat_eq_self)
  have z: "drop_bit n (of_nat v :: u64) = 0 \<longleftrightarrow> v div 2 ^ n = 0" for n
    using u by (metis drop_bit_eq_div unat_drop_bit_eq unat_eq_zero)
  show "drop_bit 60 (of_nat v :: u64) \<noteq> 0 \<longleftrightarrow> 2 ^ 60 \<le> v"
    and "drop_bit 61 (of_nat v :: u64) \<noteq> 0 \<longleftrightarrow> 2 ^ 61 \<le> v"
    by (simp_all add: z div_eq_0_iff not_less)
qed

lemma StrToUInt64_loop_hex:
  "all_digits 16 s \<Longrightarrow> v < 2 ^ 64 \<Longrightarrow>
   SctStrToUInt64_loop 16 (s @ r) (length s) (of_nat v) =
     Some (if v * 16 ^ length s + value_of 16 s < 2 ^ 64
           then of_nat (v * 16 ^ length s + value_of 16 s) else 0)"
proof (induction s arbitrary: v)
  case (Cons c s)
  obtain d where d: "hex_val c = Some d" using Cons.prems(1) by (auto simp: all_digits_def)
  have s: "all_digits 16 s" using Cons.prems(1) by (simp add: all_digits_def)
  have lt: "d < 16" using d by (rule hex_val_lt)
  have tot: "v * 16 ^ length (c # s) + value_of 16 (c # s) =
      (16 * v + d) * 16 ^ length s + value_of 16 s"
    using d by (simp add: value_of_Cons algebra_simps)
  show ?case
  proof (cases "2 ^ 60 \<le> v")
    case True
    have "2 ^ 64 \<le> (16 * v + d) * 1" using True by simp
    also have "\<dots> \<le> (16 * v + d) * 16 ^ length s" by (rule mult_le_mono2) simp
    finally have "\<not> v * 16 ^ length (c # s) + value_of 16 (c # s) < 2 ^ 64"
      unfolding tot by simp
    then show ?thesis
      using True Cons.prems(2) by (simp add: SctRShiftU64_def u64_top_bits)
  next
    case False
    have nv: "push_bit 4 (of_nat v :: u64) + of_nat d = of_nat (16 * v + d)"
      by (simp add: push_bit_eq_mult mult.commute)
    have "SctStrToUInt64_loop 16 (c # s @ r) (Suc (length s)) (of_nat v) =
        SctStrToUInt64_loop 16 (s @ r) (length s) (of_nat (16 * v + d))"
      using False Cons.prems(2) StrToUInt_hex_digit [OF d] nv
      by (auto simp: SctRShiftU64_def SctLShiftU64_def u64_top_bits Let_def)
    also have "\<dots> = Some (if (16 * v + d) * 16 ^ length s + value_of 16 s < 2 ^ 64
           then of_nat ((16 * v + d) * 16 ^ length s + value_of 16 s) else 0)"
      by (rule Cons.IH [OF s]) (use False lt in simp)
    finally show ?thesis unfolding tot by simp
  qed
qed simp

lemma dec_step:
  assumes "10 * v + d < 2 ^ 64"
  shows "(of_nat v :: u64) * 8 + of_nat v * 2 + of_nat d = of_nat (10 * v + d)"
    and "\<not> (of_nat v :: u64) * 8 + of_nat v * 2 < of_nat v * 2"
proof -
  show "(of_nat v :: u64) * 8 + of_nat v * 2 + of_nat d = of_nat (10 * v + d)"
    by (simp add: algebra_simps)
  have a: "(of_nat v :: u64) * 8 + of_nat v * 2 = of_nat (10 * v)"
    by (simp add: algebra_simps)
  have b: "(of_nat v :: u64) * 2 = of_nat (2 * v)"
    by (simp add: algebra_simps)
  have "unat (of_nat (10 * v) :: u64) = 10 * v"
    by (rule unat_of_nat_u64) (use assms in simp)
  moreover have "unat (of_nat (2 * v) :: u64) = 2 * v"
    by (rule unat_of_nat_u64) (use assms in simp)
  ultimately show "\<not> (of_nat v :: u64) * 8 + of_nat v * 2 < of_nat v * 2"
    unfolding a b by (simp add: word_less_nat_alt)
qed

lemma small_prefix: "a * k + b < (n::nat) \<Longrightarrow> 1 \<le> k \<Longrightarrow> a < n"
proof -
  assume "a * k + b < n" and "1 \<le> k"
  moreover have "a * 1 \<le> a * k" using \<open>1 \<le> k\<close> by (rule mult_le_mono2)
  ultimately show "a < n" by linarith
qed

lemma StrToUInt64_loop_dec:
  "all_digits 10 s \<Longrightarrow> v * 10 ^ length s + value_of 10 s < 2 ^ 64 \<Longrightarrow>
   SctStrToUInt64_loop 10 (s @ r) (length s) (of_nat v) =
     Some (of_nat (v * 10 ^ length s + value_of 10 s))"
proof (induction s arbitrary: v)
  case (Cons c s)
  obtain d where d: "dec_val c = Some d" using Cons.prems(1) by (auto simp: all_digits_def)
  have s: "all_digits 10 s" using Cons.prems(1) by (simp add: all_digits_def)
  have tot: "v * 10 ^ length (c # s) + value_of 10 (c # s) =
      (10 * v + d) * 10 ^ length s + value_of 10 s"
    using d by (simp add: value_of_Cons algebra_simps)
  have small: "10 * v + d < 2 ^ 64"
    by (rule small_prefix [OF Cons.prems(2) [unfolded tot]]) simp
  have "SctStrToUInt64_loop 10 (c # s @ r) (Suc (length s)) (of_nat v) =
      SctStrToUInt64_loop 10 (s @ r) (length s) (of_nat (10 * v + d))"
    using small StrToUInt_dec_digit [OF d] dec_step [OF small]
    by (auto simp: SctRShiftU64_def SctLShiftU64_def u64_top_bits Let_def push_bit_eq_mult)
  also have "\<dots> = Some (of_nat ((10 * v + d) * 10 ^ length s + value_of 10 s))"
    by (rule Cons.IH [OF s]) (use Cons.prems(2) tot in simp)
  finally show ?case unfolding tot by simp
qed simp

lemma StrToUInt_loop_dec:
  "all_digits 10 s \<Longrightarrow> v * 10 ^ length s + value_of 10 s < 2 ^ 64 \<Longrightarrow>
   SctStrToUInt_loop 10 (s @ r) (length s) (of_nat v) =
     Some (of_nat (v * 10 ^ length s + value_of 10 s))"
proof (induction s arbitrary: v)
  case (Cons c s)
  obtain d where d: "dec_val c = Some d" using Cons.prems(1) by (auto simp: all_digits_def)
  have s: "all_digits 10 s" using Cons.prems(1) by (simp add: all_digits_def)
  have tot: "v * 10 ^ length (c # s) + value_of 10 (c # s) =
      (10 * v + d) * 10 ^ length s + value_of 10 s"
    using d by (simp add: value_of_Cons algebra_simps)
  have small: "10 * v + d < 2 ^ 64"
    by (rule small_prefix [OF Cons.prems(2) [unfolded tot]]) simp
  have "SctStrToUInt_loop 10 (c # s @ r) (Suc (length s)) (of_nat v) =
      SctStrToUInt_loop 10 (s @ r) (length s) (of_nat (10 * v + d))"
    using StrToUInt_dec_digit [OF d] dec_step [OF small] by (auto simp: Let_def)
  also have "\<dots> = Some (of_nat ((10 * v + d) * 10 ^ length s + value_of 10 s))"
    by (rule Cons.IH [OF s]) (use Cons.prems(2) tot in simp)
  finally show ?case unfolding tot by simp
qed simp

lemma StrToUInt_loop_hex:
  "all_digits 16 s \<Longrightarrow>
   SctStrToUInt_loop 16 (s @ r) (length s) (of_nat v) =
     Some (of_nat (v * 16 ^ length s + value_of 16 s))"
proof (induction s arbitrary: v)
  case (Cons c s)
  obtain d where d: "hex_val c = Some d" using Cons.prems(1) by (auto simp: all_digits_def)
  have s: "all_digits 16 s" using Cons.prems(1) by (simp add: all_digits_def)
  have "SctStrToUInt_loop 16 (c # s @ r) (Suc (length s)) (of_nat v) =
      SctStrToUInt_loop 16 (s @ r) (length s) (of_nat (16 * v + d))"
    using StrToUInt_hex_digit [OF d] by (auto simp: Let_def mult.commute [of _ 16])
  also have "\<dots> = Some (of_nat ((16 * v + d) * 16 ^ length s + value_of 16 s))"
    by (rule Cons.IH [OF s])
  also have "(16 * v + d) * 16 ^ length s + value_of 16 s =
      v * 16 ^ length (c # s) + value_of 16 (c # s)"
    using d by (simp add: value_of_Cons algebra_simps)
  finally show ?case by simp
qed simp

text \<open>The string both parsers see after trimming: its base and its digit text.\<close>

definition int_text :: "u16 list \<Rightarrow> nat \<times> u16 list" where
  "int_text t =
     (case t of c # x # ds \<Rightarrow> if c = 48 \<and> (x = 120 \<or> x = 88) then (16, ds) else (10, t)
      | _ \<Rightarrow> (10, t))"

abbreviation trim_spaces :: "u16 list \<Rightarrow> u16 list" where
  "trim_spaces s \<equiv> trimmed (\<lambda>x. x = 32) (\<lambda>x. x = 32) s"

lemma StrTrim_then_prefix:
  assumes b: "cstr b = Some s"
  obtains b' where "SctStrTrim b 32 = Some b'" and "cstr b' = Some (trim_spaces s)"
    and "length b' = length b"
    and "(2 \<le> length (trim_spaces s) \<and> rd b' 0 = Some 48 \<and>
          (rd b' 1 = Some 120 \<or> rd b' 1 = Some 88)) \<longleftrightarrow> fst (int_text (trim_spaces s)) = 16"
proof -
  obtain b' where b': "SctStrTrim b 32 = Some b'" "length b' = length b"
      "cstr b' = Some (trim_spaces s)"
    using SctStrTrim_cstr [OF b] by blast
  define t where "t = trim_spaces s"
  have t: "cstr b' = Some t" using b'(3) by (simp add: t_def)
  have "(2 \<le> length t \<and> rd b' 0 = Some 48 \<and> (rd b' 1 = Some 120 \<or> rd b' 1 = Some 88)) \<longleftrightarrow>
      fst (int_text t) = 16"
  proof (cases "2 \<le> length t")
    case True
    then obtain c x ds where tt: "t = c # x # ds" by (cases t; cases "tl t") auto
    then have "rd b' 0 = Some c" "rd b' 1 = Some x"
      using cstr_rd_lt [OF t, of 0] cstr_rd_lt [OF t, of 1] by simp_all
    then show ?thesis using tt by (auto simp: int_text_def)
  next
    case False
    then show ?thesis by (auto simp: int_text_def split: list.splits)
  qed
  then show ?thesis using that b' by (simp add: t_def)
qed

lemma SctStrToUInt64_cstr:
  assumes b: "cstr b = Some s" and it: "int_text (trim_spaces s) = (base, ds)"
    and dig: "all_digits base ds"
    and fits: "base = 16 \<or> value_of base ds < 2 ^ 64"
  shows "\<exists>b'. cstr b' = Some (trim_spaces s) \<and> length b' = length b \<and>
    SctStrToUInt64 b = Some (b', if value_of base ds < 2 ^ 64 then of_nat (value_of base ds) else 0)"
proof (cases "s = []")
  case True
  then show ?thesis
    using b it by (auto simp: cstr_Nil_iff SctStrToUInt64_def trimmed_def int_text_def)
next
  case False
  have c: "rd b 0 = Some (s ! 0)" "s ! 0 \<noteq> 0"
    using False cstr_rd_lt [OF b, of 0] cstr_nz [OF b] by (auto simp: in_set_conv_nth)
  obtain b' where b': "SctStrTrim b 32 = Some b'" "cstr b' = Some (trim_spaces s)"
    "length b' = length b"
    and pre: "(2 \<le> length (trim_spaces s) \<and> rd b' 0 = Some 48 \<and>
          (rd b' 1 = Some 120 \<or> rd b' 1 = Some 88)) \<longleftrightarrow> fst (int_text (trim_spaces s)) = 16"
    using StrTrim_then_prefix [OF b] .
  obtain r where r: "b' = trim_spaces s @ 0 # r" using b'(2) by (rule cstrE)
  show ?thesis
  proof (cases "base = 16")
    case True
    obtain x where t: "trim_spaces s = 48 # x # ds" "x = 120 \<or> x = 88"
      using it True by (auto simp: int_text_def split: list.splits if_splits)
    have "SctStrToUInt64_loop 16 (ds @ 0 # r) (length ds) (of_nat 0) =
        Some (if 0 * 16 ^ length ds + value_of 16 ds < 2 ^ 64
           then of_nat (0 * 16 ^ length ds + value_of 16 ds) else 0)"
      by (rule StrToUInt64_loop_hex) (use dig True in simp_all)
    then show ?thesis
      using b' c pre it True t r
      by (intro exI [of _ b']) (simp add: SctStrToUInt64_def SctStrLen_cstr)
  next
    case False
    then have "base = 10" and ds: "ds = trim_spaces s"
      using it by (auto simp: int_text_def split: list.splits if_splits)
    then have "SctStrToUInt64_loop 10 (ds @ 0 # r) (length ds) (of_nat 0) =
        Some (of_nat (0 * 10 ^ length ds + value_of 10 ds))"
      by (intro StrToUInt64_loop_dec) (use dig fits in simp_all)
    then show ?thesis
      using b' c pre it \<open>base = 10\<close> ds r fits
      by (intro exI [of _ b']) (auto simp: SctStrToUInt64_def SctStrLen_cstr)
  qed
qed

lemma SctStrToUInt_cstr:
  assumes b: "cstr b = Some s" and it: "int_text (trim_spaces s) = (base, ds)"
    and dig: "all_digits base ds"
    and fits: "base = 16 \<or> value_of base ds < 2 ^ 64"
  shows "\<exists>b'. cstr b' = Some (trim_spaces s) \<and> length b' = length b \<and>
    SctStrToUInt b = Some (b', of_nat (value_of base ds))"
proof (cases "s = []")
  case True
  then show ?thesis
    using b it by (auto simp: cstr_Nil_iff SctStrToUInt_def trimmed_def int_text_def)
next
  case False
  have c: "rd b 0 = Some (s ! 0)" "s ! 0 \<noteq> 0"
    using False cstr_rd_lt [OF b, of 0] cstr_nz [OF b] by (auto simp: in_set_conv_nth)
  obtain b' where b': "SctStrTrim b 32 = Some b'" "cstr b' = Some (trim_spaces s)"
    "length b' = length b"
    and pre: "(2 \<le> length (trim_spaces s) \<and> rd b' 0 = Some 48 \<and>
          (rd b' 1 = Some 120 \<or> rd b' 1 = Some 88)) \<longleftrightarrow> fst (int_text (trim_spaces s)) = 16"
    using StrTrim_then_prefix [OF b] .
  obtain r where r: "b' = trim_spaces s @ 0 # r" using b'(2) by (rule cstrE)
  show ?thesis
  proof (cases "base = 16")
    case True
    obtain x where t: "trim_spaces s = 48 # x # ds" "x = 120 \<or> x = 88"
      using it True by (auto simp: int_text_def split: list.splits if_splits)
    have "SctStrToUInt_loop 16 (ds @ 0 # r) (length ds) (of_nat 0) =
        Some (of_nat (0 * 16 ^ length ds + value_of 16 ds))"
      by (rule StrToUInt_loop_hex) (use dig True in simp)
    then show ?thesis
      using b' c pre it True t r
      by (intro exI [of _ b']) (simp add: SctStrToUInt_def SctStrLen_cstr)
  next
    case False
    then have "base = 10" and ds: "ds = trim_spaces s"
      using it by (auto simp: int_text_def split: list.splits if_splits)
    then have "SctStrToUInt_loop 10 (ds @ 0 # r) (length ds) (of_nat 0) =
        Some (of_nat (0 * 10 ^ length ds + value_of 10 ds))"
      by (intro StrToUInt_loop_dec) (use dig fits in simp_all)
    then show ?thesis
      using b' c pre it \<open>base = 10\<close> ds r fits
      by (intro exI [of _ b']) (auto simp: SctStrToUInt_def SctStrLen_cstr)
  qed
qed

end
