(* ===== verification/Sct_Hex.thy ===== *)
theory Sct_Hex
  imports Sct_Number
begin

text \<open>
  The rest of \<open>SctLib/String.c\<close>: address parsing (\<open>SctStrToIPv4Addr\<close>,
  \<open>SctStrToIPv6Addr\<close>), hexadecimal printing (\<open>SctValueToHexStr\<close>) and the conversion
  between byte buffers and hexadecimal strings (\<open>SctHexStringToBuf\<close>,
  \<open>SctBufToHexString\<close>), which read and write the buffer as one little-endian number.
\<close>

section \<open>Hexadecimal digits\<close>

definition mHex :: "u8 list" where
  "mHex = [48, 49, 50, 51, 52, 53, 54, 55, 56, 57, 65, 66, 67, 68, 69, 70]"

definition SctIsHexDigit :: "u16 \<Rightarrow> u8 option" where
  "SctIsHexDigit Chr =
     (if 48 \<le> Chr \<and> Chr \<le> 57 then Some (ucast (Chr - 48))
      else if 65 \<le> Chr \<and> Chr \<le> 70 then Some (ucast (Chr - 65 + 0x0A))
      else if 97 \<le> Chr \<and> Chr \<le> 102 then Some (ucast (Chr - 97 + 0x0A))
      else None)"

definition SctNibbleToHexChar :: "u8 \<Rightarrow> u16" where
  "SctNibbleToHexChar Nibble0 =
     (let Nibble = Nibble0 AND 0x0F in
      if Nibble \<le> 9 then ucast Nibble + 48 else ucast Nibble - 0xA + 65)"

lemma ucast_u16_u8: "(ucast (w :: u16) :: u8) = of_nat (unat w)"
  by simp

lemma SctIsHexDigit_hex_val: "SctIsHexDigit c = map_option of_nat (hex_val c)"
proof -
  have k: "c - 65 + 0x0A = c - 55" "c - 97 + 0x0A = c - 87" by simp_all
  show ?thesis
    unfolding SctIsHexDigit_def hex_val_def k ucast_u16_u8
    by (auto simp: word_le_nat_alt unat_sub)
qed

text \<open>All sixteen nibbles, checked one by one.\<close>

lemma nibble_chars:
  "list_all (\<lambda>n. hex_val (SctNibbleToHexChar (of_nat n)) = Some n) [0..<16]"
  by code_simp

lemma mHex_chars: "list_all (\<lambda>n. hex_val (ucast (mHex ! n)) = Some n) [0..<16]"
  by code_simp

lemma hex_val_nibble_char: "n < 16 \<Longrightarrow> hex_val (SctNibbleToHexChar (of_nat n)) = Some n"
  using nibble_chars by (auto simp: list_all_iff)

lemma hex_val_mHex: "n < 16 \<Longrightarrow> hex_val (ucast (mHex ! n)) = Some n"
  using mHex_chars by (auto simp: list_all_iff)

lemma and_15_u8: "(b :: u8) AND 0xF = take_bit 4 b"
proof -
  have "b AND 0xF = b AND mask 4" by (simp add: mask_eq_exp_minus_1)
  then show ?thesis by (simp only: take_bit_eq_mask)
qed

lemma SctNibbleToHexChar_mask: "SctNibbleToHexChar b = SctNibbleToHexChar (of_nat (unat b mod 16))"
proof -
  have u: "unat (b mod 16) = unat b mod 16" by (simp add: unat_mod_distrib)
  have "(of_nat (unat (b mod 16)) :: u8) = b mod 16" by (simp only: of_nat_unat ucast_id)
  also have "b mod 16 = take_bit 4 b" by (simp add: take_bit_eq_mod)
  finally have "(of_nat (unat b mod 16) :: u8) = take_bit 4 b" by (simp only: u)
  then have "(of_nat (unat b mod 16) :: u8) AND 0xF = b AND 0xF"
    by (simp only: and_15_u8 take_bit_take_bit min.idem)
  then show ?thesis by (simp only: SctNibbleToHexChar_def)
qed

lemma hex_val_low: "hex_val (SctNibbleToHexChar b) = Some (unat b mod 16)"
  by (subst SctNibbleToHexChar_mask) (rule hex_val_nibble_char, simp)

lemma hex_val_high: "hex_val (SctNibbleToHexChar (drop_bit 4 b)) = Some (unat (b::u8) div 16)"
proof -
  have "unat b < 256" using unsigned_less [of b, where ?'a = nat] by simp
  then have "unat (drop_bit 4 b) = unat b div 16" "unat b div 16 < 16"
    by (simp_all add: unat_drop_bit_eq drop_bit_eq_div unat_div_distrib)
  then show ?thesis using hex_val_low [of "drop_bit 4 b"] by simp
qed

section \<open>Printing a value\<close>

text \<open>
  The digits are collected into \<open>str\<close> from the least significant one and copied out in
  reverse. \<open>Flags\<close> and \<open>Width\<close> are not used by the code.
\<close>

function SctValueToHexStr_digits :: "u64 \<Rightarrow> u8 list" where
  "SctValueToHexStr_digits v =
     (if v = 0 then [] else mHex ! unat (v AND 0xf) # SctValueToHexStr_digits (SctRShiftU64 v 4))"
  by pat_completeness auto
termination
proof (relation "measure unat")
  fix v :: u64
  assume "v \<noteq> 0"
  then have "0 < unat v" by (simp add: unat_gt_0)
  then show "(SctRShiftU64 v 4, v) \<in> measure unat"
    by (simp add: SctRShiftU64_def unat_drop_bit_eq drop_bit_eq_div unat_div_distrib)
qed simp

declare SctValueToHexStr_digits.simps [simp del]

fun write_cells :: "'a list \<Rightarrow> 'a list \<Rightarrow> 'a list option" where
  "write_cells b [] = Some b"
| "write_cells [] (x # xs) = None"
| "write_cells (y # b) (x # xs) = map_option ((#) x) (write_cells b xs)"

definition SctValueToHexStr :: "u16 list \<Rightarrow> u64 \<Rightarrow> u16 list option" where
  "SctValueToHexStr Buffer v =
     (if v = 0 then write_cells Buffer [48, 0]
      else write_cells Buffer (map ucast (rev (SctValueToHexStr_digits v)) @ [0]))"

lemma write_cells_spec:
  "write_cells b xs = (if length xs \<le> length b then Some (xs @ drop (length xs) b) else None)"
  by (induction b xs rule: write_cells.induct) auto

text \<open>The digits spell the value, and there are never more than 16 of them (the code's
  scratch array has room for 30).\<close>

lemma low_nibble: "unat ((v::u64) AND 0xf) = unat v mod 16"
proof -
  have "v AND 0xf = take_bit 4 v" by (simp add: take_bit_eq_mask mask_eq_exp_minus_1)
  then show ?thesis by (simp add: unsigned_take_bit_eq take_bit_eq_mod unat_mod_distrib)
qed

lemma SctValueToHexStr_digits_value:
  "all_digits 16 (map ucast (rev (SctValueToHexStr_digits v))) \<and>
   value_of 16 (map ucast (rev (SctValueToHexStr_digits v))) = unat v"
proof (induction v rule: SctValueToHexStr_digits.induct)
  case (1 v)
  show ?case
  proof (cases "v = 0")
    case True
    then show ?thesis
      by (subst (1 2) SctValueToHexStr_digits.simps) (simp add: all_digits_def)
  next
    case False
    have hd: "hex_val (ucast (mHex ! unat (v AND 0xf))) = Some (unat v mod 16)"
      using hex_val_mHex [of "unat v mod 16"] by (simp add: low_nibble)
    have sh: "unat (SctRShiftU64 v 4) = unat v div 16"
      by (simp add: SctRShiftU64_def unat_drop_bit_eq drop_bit_eq_div unat_div_distrib)
    show ?thesis
      using "1.IH" [OF False] False hd sh
      by (subst (1 2) SctValueToHexStr_digits.simps) (simp add: all_digits_def value_of_def)
  qed
qed

lemma length_SctValueToHexStr_digits: "unat v < 16 ^ n \<Longrightarrow> length (SctValueToHexStr_digits v) \<le> n"
proof (induction v arbitrary: n rule: SctValueToHexStr_digits.induct)
  case (1 v)
  show ?case
  proof (cases "v = 0")
    case True
    then show ?thesis by (subst SctValueToHexStr_digits.simps) simp
  next
    case False
    then have "0 < unat v" by (simp add: unat_gt_0)
    then have "n \<noteq> 0" using "1.prems" by (intro notI) simp
    then obtain m where n: "n = Suc m" by (cases n) auto
    have "unat (SctRShiftU64 v 4) < 16 ^ m"
      using "1.prems" n
      by (simp add: SctRShiftU64_def unat_drop_bit_eq drop_bit_eq_div unat_div_distrib
        less_mult_imp_div_less mult.commute)
    then show ?thesis
      using "1.IH" [OF False, of m] False n by (subst SctValueToHexStr_digits.simps) simp
  qed
qed

text \<open>Printing then parsing a value gives it back.\<close>

lemma all_digits_16_cons: "all_digits 16 (c # s) \<longleftrightarrow> hex_val c \<noteq> None \<and> all_digits 16 s"
  by (simp add: all_digits_def)

lemma xtoi_body_digits:
  assumes "all_digits 16 s"
  shows "num_of 16 (digits_of hex_val (xtoi_body s)) = value_of 16 s"
proof -
  have sp: "dropWhile (\<lambda>x. x = 32) s = s"
    using assms by (cases s) (auto simp: all_digits_16_cons hex_val_def)
  define t where "t = dropWhile (\<lambda>x. x = 48) s"
  have t: "all_digits 16 t" and v: "value_of 16 t = value_of 16 s"
    using assms unfolding t_def
    by (induction s) (auto simp: all_digits_16_cons value_of_Cons hex_val_def)
  have "xtoi_body s = t"
    using t sp by (cases t) (auto simp: xtoi_body_def t_def [symmetric] Let_def all_digits_16_cons hex_val_def)
  moreover have "digits_of hex_val t = map (\<lambda>c. the (hex_val c)) t"
    by (rule digits_of_all) (use t in \<open>simp add: all_digits_def\<close>)
  ultimately show ?thesis using v by (simp add: value_of_def)
qed

lemma all_digits_nz: "all_digits b s \<Longrightarrow> 0 \<notin> set s"
  by (auto simp: all_digits_def split: if_splits)

lemma SctValueToHexStr_spec:
  assumes "17 \<le> length Buffer"
  obtains Buffer' s where "SctValueToHexStr Buffer v = Some Buffer'"
    and "cstr Buffer' = Some s" and "all_digits 16 s" and "value_of 16 s = unat v"
    and "length s \<le> 16" and "s \<noteq> []"
proof (cases "v = 0")
  case True
  have "SctValueToHexStr Buffer v = Some ([48] @ 0 # drop 2 Buffer)"
    using assms True by (simp add: SctValueToHexStr_def write_cells_spec numeral_2_eq_2)
  moreover have "all_digits 16 [48]" "value_of 16 [48] = unat v"
    using True by (simp_all add: all_digits_def value_of_def hex_val_def num_of_def)
  ultimately show ?thesis by (intro that) auto
next
  case False
  define s where "s = (map ucast (rev (SctValueToHexStr_digits v)) :: u16 list)"
  have s: "all_digits 16 s" "value_of 16 s = unat v"
    using SctValueToHexStr_digits_value [of v] by (simp_all add: s_def)
  have "unat v < 16 ^ 16" using unsigned_less [of v, where ?'a = nat] by simp
  then have len: "length s \<le> 16"
    using length_SctValueToHexStr_digits by (simp add: s_def)
  have "s \<noteq> []" using s(2) False by (auto simp: unat_eq_zero)
  moreover have "SctValueToHexStr Buffer v = Some (s @ 0 # drop (Suc (length s)) Buffer)"
    using assms False len by (simp add: SctValueToHexStr_def write_cells_spec flip: s_def)
  moreover have "cstr (s @ 0 # drop (Suc (length s)) Buffer) = Some s"
    using all_digits_nz [OF s(1)] by simp
  ultimately show ?thesis using s len that by blast
qed

section \<open>Buffers as hexadecimal strings\<close>

fun SctHexStringToBuf_count :: "u16 list \<Rightarrow> nat option" where
  "SctHexStringToBuf_count [] = None"
| "SctHexStringToBuf_count (c # Str) =
     (case SctIsHexDigit c of
        None \<Rightarrow> Some 0
      | Some Digit \<Rightarrow> map_option Suc (SctHexStringToBuf_count Str))"

text \<open>The digit loop; \<open>Digit\<close> keeps its value when \<open>SctIsHexDigit\<close> fails, as the output
  argument of the C function does.\<close>

function SctHexStringToBuf_loop ::
    "u16 list \<Rightarrow> nat \<Rightarrow> u8 \<Rightarrow> u8 list \<Rightarrow> nat \<Rightarrow> u8 list option" where
  "SctHexStringToBuf_loop Str HexCnt Digit0 Buf Idx =
     (if Idx < HexCnt
      then (case rd Str (HexCnt - 1 - Idx) of
              None \<Rightarrow> None
            | Some c \<Rightarrow>
                (let Digit = (case SctIsHexDigit c of None \<Rightarrow> Digit0 | Some d \<Rightarrow> d) in
                 case (if even Idx then Some Digit
                       else map_option (\<lambda>Byte. (Byte AND 0x0F) OR push_bit 4 Digit)
                              (rd Buf (Idx div 2))) of
                   None \<Rightarrow> None
                 | Some Byte \<Rightarrow>
                     (case wr Buf (Idx div 2) Byte of
                        None \<Rightarrow> None
                      | Some Buf' \<Rightarrow> SctHexStringToBuf_loop Str HexCnt Digit Buf' (Suc Idx))))
      else Some Buf)"
  by pat_completeness auto
termination
  by (relation "measure (\<lambda>(Str, HexCnt, Digit, Buf, Idx). HexCnt - Idx)") auto

declare SctHexStringToBuf_loop.simps [simp del]

definition SctHexStringToBuf ::
    "u8 list \<Rightarrow> nat \<Rightarrow> u16 list \<Rightarrow> nat option \<Rightarrow> (EFI_STATUS \<times> u8 list \<times> nat \<times> nat option) option"
  where
  "SctHexStringToBuf Buf Len Str ConvertedStrLen = do {
     HexCnt \<leftarrow> SctHexStringToBuf_count Str;
     if HexCnt = 0 then Some (EFI_SUCCESS, Buf, 0, ConvertedStrLen)
     else let BufferLength = (HexCnt + 1) div 2 in
       if Len < BufferLength then Some (EFI_BUFFER_TOO_SMALL, Buf, BufferLength, ConvertedStrLen)
       else do {
         Buf' \<leftarrow> SctHexStringToBuf_loop Str HexCnt 0 Buf 0;
         Some (EFI_SUCCESS, Buf', BufferLength, map_option (\<lambda>_. HexCnt) ConvertedStrLen) } }"

function SctBufToHexString_loop :: "u16 list \<Rightarrow> nat \<Rightarrow> u8 list \<Rightarrow> nat \<Rightarrow> nat \<Rightarrow> u16 list option" where
  "SctBufToHexString_loop Str StrLen Buf Len Idx =
     (if Idx < Len
      then (case rd Buf Idx of
              None \<Rightarrow> None
            | Some Byte \<Rightarrow>
                (case wr Str (StrLen - 1 - Idx * 2) (SctNibbleToHexChar Byte) of
                   None \<Rightarrow> None
                 | Some Str1 \<Rightarrow>
                     (case wr Str1 (StrLen - 2 - Idx * 2) (SctNibbleToHexChar (drop_bit 4 Byte)) of
                        None \<Rightarrow> None
                      | Some Str2 \<Rightarrow> SctBufToHexString_loop Str2 StrLen Buf Len (Suc Idx))))
      else Some Str)"
  by pat_completeness auto
termination
  by (relation "measure (\<lambda>(Str, StrLen, Buf, Len, Idx). Len - Idx)") auto

declare SctBufToHexString_loop.simps [simp del]

definition SctBufToHexString ::
    "u16 list \<Rightarrow> u64 \<Rightarrow> u8 list \<Rightarrow> nat \<Rightarrow> (EFI_STATUS \<times> u16 list \<times> u64) option" where
  "SctBufToHexString Str HexStringBufferLength Buf Len =
     (let StrLen = Len * 2 in
      if unat (HexStringBufferLength - 1) < StrLen
      then Some (EFI_BUFFER_TOO_SMALL, Str, of_nat (StrLen + 1))
      else do {
        Str1 \<leftarrow> wr Str StrLen 0;
        Str2 \<leftarrow> SctBufToHexString_loop Str1 StrLen Buf Len 0;
        Some (EFI_SUCCESS, Str2, of_nat (StrLen + 1)) })"

text \<open>A byte buffer as a little-endian number.\<close>

fun le_val :: "u8 list \<Rightarrow> nat" where
  "le_val [] = 0"
| "le_val (b # bs) = unat b + 256 * le_val bs"

lemma le_val_snoc: "le_val (bs @ [b]) = le_val bs + unat b * 256 ^ length bs"
  by (induction bs) (simp_all add: algebra_simps)

lemma byte_lt_256: "unat (b :: u8) < 256"
  using unsigned_less [of b, where ?'a = nat] by simp

lemma le_val_inj: "length bs = length cs \<Longrightarrow> le_val bs = le_val cs \<Longrightarrow> bs = cs"
proof (induction bs cs rule: list_induct2)
  case (Cons b bs c cs)
  have "unat b = (unat b + 256 * le_val bs) mod 256" using byte_lt_256 [of b] by simp
  also have "\<dots> = (unat c + 256 * le_val cs) mod 256" using Cons.prems by simp
  also have "\<dots> = unat c" using byte_lt_256 [of c] by simp
  finally have "b = c" by (rule word_unat_eq_iff [THEN iffD2])
  then show ?case using Cons by simp
qed simp

text \<open>The text of a buffer: two digits per byte, most significant byte first.\<close>

definition hex_text :: "u8 list \<Rightarrow> u16 list" where
  "hex_text Buf =
     concat (map (\<lambda>b. [SctNibbleToHexChar (drop_bit 4 b), SctNibbleToHexChar b]) (rev Buf))"

lemma hex_text_Nil [simp]: "hex_text [] = []"
  by (simp add: hex_text_def)

lemma hex_text_Cons: "hex_text (b # Buf) =
    hex_text Buf @ [SctNibbleToHexChar (drop_bit 4 b), SctNibbleToHexChar b]"
  by (simp add: hex_text_def)

lemma length_hex_text: "length (hex_text Buf) = 2 * length Buf"
  by (induction Buf) (simp_all add: hex_text_Cons)

lemma hex_text_digits: "all_digits 16 (hex_text Buf)"
  by (induction Buf) (auto simp: hex_text_Cons all_digits_def hex_val_low hex_val_high)

lemma hex_text_value: "value_of 16 (hex_text Buf) = le_val Buf"
proof (induction Buf)
  case (Cons b Buf)
  define ds where "ds = map (\<lambda>c. the (hex_val c)) (hex_text Buf)"
  have h: "the (hex_val (SctNibbleToHexChar (drop_bit 4 b))) = unat b div 16"
    by (subst hex_val_high) simp
  have l: "the (hex_val (SctNibbleToHexChar b)) = unat b mod 16"
    by (simp add: hex_val_low)
  have "value_of 16 (hex_text (b # Buf)) = num_of 16 ((ds @ [unat b div 16]) @ [unat b mod 16])"
    by (simp add: hex_text_Cons value_of_def ds_def h l del: num_of_snoc)
  also have "\<dots> = 16 * (16 * num_of 16 ds + unat b div 16) + unat b mod 16"
    by (simp only: num_of_snoc)
  finally show ?case using Cons by (simp add: value_of_def ds_def)
qed (simp add: value_of_def)

lemma SctBufToHexString_loop_spec:
  assumes "Idx \<le> Len" and "Len \<le> length Buf" and "length x = 2 * (Len - Idx)"
  shows "SctBufToHexString_loop (x @ T) (2 * Len) Buf Len Idx =
    Some (hex_text (drop Idx (take Len Buf)) @ T)"
  using assms
proof (induction "Len - Idx" arbitrary: Idx x T)
  case 0
  then show ?case by (subst SctBufToHexString_loop.simps) simp
next
  case (Suc k)
  then have lt: "Idx < Len" and k: "k = Len - Suc Idx" by linarith+
  obtain y u v where x: "x = y @ [u, v]"
  proof -
    have "length x = Suc (Suc (2 * k))" using Suc.prems Suc.hyps(2) by simp
    then show ?thesis using that
      by (metis (no_types, lifting) append_Cons append_Nil append_assoc length_Suc_conv_rev)
  qed
  have ly: "length y = 2 * (Len - Suc Idx)" using Suc.prems(3) x lt by simp
  have p1: "2 * Len - 1 - Idx * 2 = Suc (length y)" and p2: "2 * Len - 2 - Idx * 2 = length y"
    using ly lt by linarith+
  define b where "b = Buf ! Idx"
  have rdb: "rd Buf Idx = Some b" using lt Suc.prems(2) by (simp add: rd_def b_def)
  have w1: "wr (x @ T) (2 * Len - 1 - Idx * 2) c = Some (y @ [u, c] @ T)" for c
    unfolding p1 by (simp add: x wr_def list_update_append)
  have w2: "wr (y @ [u, c] @ T) (2 * Len - 2 - Idx * 2) c' = Some (y @ [c', c] @ T)" for c c'
    unfolding p2 by (simp add: wr_def)
  have "drop Idx (take Len Buf) = b # drop (Suc Idx) (take Len Buf)"
    using lt Suc.prems(2) by (simp add: b_def flip: Cons_nth_drop_Suc)
  then have ht: "hex_text (drop Idx (take Len Buf)) = hex_text (drop (Suc Idx) (take Len Buf)) @
      [SctNibbleToHexChar (drop_bit 4 b), SctNibbleToHexChar b]"
    by (simp add: hex_text_Cons)
  have "SctBufToHexString_loop (x @ T) (2 * Len) Buf Len Idx =
      SctBufToHexString_loop (y @ [SctNibbleToHexChar (drop_bit 4 b), SctNibbleToHexChar b] @ T)
        (2 * Len) Buf Len (Suc Idx)"
    using lt rdb w1 w2 by (subst SctBufToHexString_loop.simps) simp
  also have "\<dots> = Some (hex_text (drop (Suc Idx) (take Len Buf)) @
      [SctNibbleToHexChar (drop_bit 4 b), SctNibbleToHexChar b] @ T)"
    by (rule Suc.hyps(1) [OF k]) (use lt Suc.prems(2) ly in simp_all)
  finally show ?case using ht by simp
qed

text \<open>Putting a second nibble above the first.\<close>

lemma join_nibbles:
  assumes "unat b < 16" and "d < 16"
  shows "unat ((b AND 0x0F) OR push_bit 4 (of_nat d :: u8)) = unat b + 16 * d"
proof -
  define p where "p = push_bit 4 (of_nat d :: u8)"
  have z: "take_bit 4 b AND p = 0"
    by (rule bit_word_eqI) (auto simp: p_def bit_simps)
  have "(b AND 0x0F) OR p = take_bit 4 b + p"
    using disjunctive_add_eq_or [OF z] by (simp only: and_15_u8)
  moreover have "unat (take_bit 4 b) = unat b"
    using assms(1) by (simp add: unsigned_take_bit_eq take_bit_nat_eq_self)
  moreover have "unat p = 16 * d"
    using assms(2) by (simp add: p_def push_bit_eq_mult unat_word_ariths unat_of_nat
      take_bit_nat_eq_self mult.commute)
  ultimately show ?thesis
    using assms by (simp add: unat_word_ariths flip: p_def)
qed

lemma value_of_drop:
  assumes "i < length ds"
  shows "value_of 16 (drop i ds) =
    the (hex_val (ds ! i)) * 16 ^ (length ds - Suc i) + value_of 16 (drop (Suc i) ds)"
  using assms by (simp add: value_of_Cons flip: Cons_nth_drop_Suc)

lemma pow_16_even: "(16::nat) ^ (2 * k) = 256 ^ k" "(16::nat) ^ (k * 2) = 256 ^ k"
  by (simp_all add: power_mult mult.commute [of k])

lemma SctHexStringToBuf_loop_spec:
  assumes "all_digits 16 ds" and "length ds = n" and "Idx \<le> n" and "(n + 1) div 2 \<le> length Buf"
    and "le_val (take ((Idx + 1) div 2) Buf) = value_of 16 (drop (n - Idx) ds)"
    and "odd Idx \<Longrightarrow> unat (Buf ! (Idx div 2)) < 16"
  shows "\<exists>Buf'. SctHexStringToBuf_loop (ds @ r) n D Buf Idx = Some Buf' \<and>
    length Buf' = length Buf \<and> le_val (take ((n + 1) div 2) Buf') = value_of 16 ds \<and>
    drop ((n + 1) div 2) Buf' = drop ((n + 1) div 2) Buf"
  using assms
proof (induction "n - Idx" arbitrary: Idx Buf D)
  case 0
  then have "Idx = n" by simp
  then show ?case using 0 by (subst SctHexStringToBuf_loop.simps) simp
next
  case (Suc m)
  then have lt: "Idx < n" and m: "m = n - Suc Idx" by linarith+
  define i where "i = n - Suc Idx"
  have i: "i < length ds" "Suc i = n - Idx" "length ds - Suc i = Idx"
    using lt Suc.prems(2) by (auto simp: i_def)
  have "ds ! i \<in> set ds" using i by simp
  then obtain d where d: "hex_val (ds ! i) = Some d"
    using Suc.prems(1) by (fastforce simp: all_digits_def)
  have dlt: "d < 16" using d by (rule hex_val_lt)
  have rdi: "rd (ds @ r) i = Some (ds ! i)" using i by (simp add: rd_def nth_append)
  have dig: "SctIsHexDigit (ds ! i) = Some (of_nat d)" by (simp add: SctIsHexDigit_hex_val d)
  have val: "value_of 16 (drop (n - Suc Idx) ds) = d * 16 ^ Idx + value_of 16 (drop (n - Idx) ds)"
    using value_of_drop [OF i(1)] i d by (simp add: i_def)
  define k where "k = Idx div 2"
  have klen: "k < length Buf" "k < (n + 1) div 2" using lt Suc.prems(4) by (auto simp: k_def)
  have wrk: "wr Buf (Idx div 2) y = Some (Buf[k := y])" for y
    using klen by (simp add: wr_def k_def)
  have snoc: "take (Suc k) (Buf[k := y]) = take k Buf @ [y]" for y
    using klen by (simp add: take_Suc_conv_app_nth)
  have lk: "length (take k Buf) = k" using klen by simp
  have rest: "drop ((n + 1) div 2) (Buf[k := y]) = drop ((n + 1) div 2) Buf" for y
    using klen by simp
  show ?case
  proof (cases "even Idx")
    case True
    let ?B = "Buf[k := of_nat d]"
    have idx: "Idx = 2 * k" "(Idx + 1) div 2 = k" "(Suc Idx + 1) div 2 = Suc k" "odd (Suc Idx)"
        "Suc Idx div 2 = k"
      using True by (auto simp: k_def)
    have ud: "unat (of_nat d :: u8) = d" using dlt by (simp add: unat_of_nat take_bit_nat_eq_self)
    have run: "SctHexStringToBuf_loop (ds @ r) n D Buf Idx =
        SctHexStringToBuf_loop (ds @ r) n (of_nat d) ?B (Suc Idx)"
      using lt rdi dig wrk True
      by (subst SctHexStringToBuf_loop.simps) (simp add: Let_def flip: i_def)
    have "le_val (take ((Suc Idx + 1) div 2) ?B) = value_of 16 (drop (n - Suc Idx) ds)"
      unfolding idx(3) snoc le_val_snoc lk ud val
      using Suc.prems(5) by (simp add: idx(1) idx(2) pow_16_even)
    moreover have "unat (?B ! (Suc Idx div 2)) < 16" using klen ud dlt by (simp only: idx) simp
    ultimately have "\<exists>Buf'. SctHexStringToBuf_loop (ds @ r) n (of_nat d) ?B (Suc Idx) = Some Buf' \<and>
        length Buf' = length ?B \<and> le_val (take ((n + 1) div 2) Buf') = value_of 16 ds \<and>
        drop ((n + 1) div 2) Buf' = drop ((n + 1) div 2) ?B"
      using lt Suc.prems(4) by (intro Suc.hyps(1) [OF m Suc.prems(1,2)]) (simp_all only: length_list_update Suc_leI)
    then show ?thesis unfolding run rest length_list_update .
  next
    case False
    let ?y = "(Buf ! k AND 0x0F) OR push_bit 4 (of_nat d)"
    let ?B = "Buf[k := ?y]"
    have idx: "Idx = Suc (2 * k)" "(Idx + 1) div 2 = Suc k" "(Suc Idx + 1) div 2 = Suc k"
        "even (Suc Idx)"
      using False by (auto simp: k_def elim: oddE)
    have old: "unat (Buf ! k) < 16" using Suc.prems(6) False by (simp add: k_def)
    have uy: "unat ?y = unat (Buf ! k) + 16 * d" by (rule join_nibbles [OF old dlt])
    have run: "SctHexStringToBuf_loop (ds @ r) n D Buf Idx =
        SctHexStringToBuf_loop (ds @ r) n (of_nat d) ?B (Suc Idx)"
      using lt rdi dig wrk False klen
      by (subst SctHexStringToBuf_loop.simps) (simp add: Let_def rd_in flip: i_def k_def)
    have "le_val (take (Suc k) Buf) = le_val (take k Buf) + unat (Buf ! k) * 256 ^ k"
      using klen by (simp add: take_Suc_conv_app_nth le_val_snoc)
    then have "le_val (take ((Suc Idx + 1) div 2) ?B) = value_of 16 (drop (n - Suc Idx) ds)"
      unfolding idx(3) snoc le_val_snoc lk uy val
      using Suc.prems(5) idx by (simp add: pow_16_even algebra_simps)
    then have "\<exists>Buf'. SctHexStringToBuf_loop (ds @ r) n (of_nat d) ?B (Suc Idx) = Some Buf' \<and>
        length Buf' = length ?B \<and> le_val (take ((n + 1) div 2) Buf') = value_of 16 ds \<and>
        drop ((n + 1) div 2) Buf' = drop ((n + 1) div 2) ?B"
      using lt Suc.prems(4) idx(4)
      by (intro Suc.hyps(1) [OF m Suc.prems(1,2)]) (simp_all only: length_list_update Suc_leI)
    then show ?thesis unfolding run rest length_list_update .
  qed
qed

lemma SctHexStringToBuf_count_spec:
  assumes "all_digits 16 ds" and "hex_val c = None"
  shows "SctHexStringToBuf_count (ds @ c # r) = Some (length ds)"
  using assms by (induction ds) (auto simp: all_digits_def SctIsHexDigit_hex_val)

text \<open>
  Reading a hexadecimal text of \<open>n\<close> digits into a buffer with room for it: the buffer's
  first bytes are the number the text spells, in little-endian order, and the bytes after
  them are untouched.
\<close>

lemma SctHexStringToBuf_spec:
  assumes ds: "all_digits 16 ds" "ds \<noteq> []" and c: "hex_val c = None"
    and fits: "(length ds + 1) div 2 \<le> Len" "Len \<le> length Buf"
  shows "\<exists>Buf'. SctHexStringToBuf Buf Len (ds @ c # r) Conv =
      Some (EFI_SUCCESS, Buf', (length ds + 1) div 2, map_option (\<lambda>_. length ds) Conv) \<and>
    length Buf' = length Buf \<and>
    le_val (take ((length ds + 1) div 2) Buf') = value_of 16 ds \<and>
    drop ((length ds + 1) div 2) Buf' = drop ((length ds + 1) div 2) Buf"
proof -
  have "\<exists>Buf'. SctHexStringToBuf_loop (ds @ c # r) (length ds) 0 Buf 0 = Some Buf' \<and>
    length Buf' = length Buf \<and> le_val (take ((length ds + 1) div 2) Buf') = value_of 16 ds \<and>
    drop ((length ds + 1) div 2) Buf' = drop ((length ds + 1) div 2) Buf"
    by (rule SctHexStringToBuf_loop_spec) (use ds fits in auto)
  then show ?thesis
    using ds fits SctHexStringToBuf_count_spec [OF ds(1) c, of r]
    by (auto simp: SctHexStringToBuf_def Let_def)
qed

lemma SctBufToHexString_spec:
  assumes "2 * Len \<le> unat (HexLen - 1)" and "2 * Len < length Str" and "Len \<le> length Buf"
  shows "SctBufToHexString Str HexLen Buf Len =
    Some (EFI_SUCCESS, hex_text (take Len Buf) @ 0 # drop (Suc (2 * Len)) Str, of_nat (2 * Len + 1))"
proof -
  define S where "S = Str[2 * Len := 0]"
  have S: "S = take (2 * Len) Str @ 0 # drop (Suc (2 * Len)) Str"
    using assms(2) by (simp add: S_def upd_conv_take_nth_drop)
  have "SctBufToHexString_loop S (2 * Len) Buf Len 0 =
      Some (hex_text (drop 0 (take Len Buf)) @ 0 # drop (Suc (2 * Len)) Str)"
    unfolding S by (rule SctBufToHexString_loop_spec) (use assms in simp_all)
  then show ?thesis
    using assms by (simp add: SctBufToHexString_def Let_def wr_def S_def mult.commute)
qed

section \<open>Address parsing\<close>

text \<open>The loops over the address fields; the address is built field by field.\<close>

fun SctStrToIPv4Addr_loop :: "nat \<Rightarrow> u16 list \<Rightarrow> nat \<Rightarrow> (u16 list \<times> nat \<times> u8 list) option" where
  "SctStrToIPv4Addr_loop 0 b Str = Some (b, Str, [])"
| "SctStrToIPv4Addr_loop (Suc n) b Str = do {
     (tok, b1, Str1) \<leftarrow> SctSplitStr b Str 46;
     v \<leftarrow> SctAtoi (drop tok b1);
     (b2, Str2, Addr) \<leftarrow> SctStrToIPv4Addr_loop n b1 Str1;
     Some (b2, Str2, ucast v # Addr) }"

definition SctStrToIPv4Addr :: "u16 list \<Rightarrow> nat \<Rightarrow> (u16 list \<times> nat \<times> u8 list) option" where
  "SctStrToIPv4Addr b Str = SctStrToIPv4Addr_loop 4 b Str"

fun SctStrToIPv6Addr_loop :: "nat \<Rightarrow> u16 list \<Rightarrow> nat \<Rightarrow> (u16 list \<times> nat \<times> u8 list) option" where
  "SctStrToIPv6Addr_loop 0 b Str = Some (b, Str, [])"
| "SctStrToIPv6Addr_loop (Suc n) b Str = do {
     (tok, b1, Str1) \<leftarrow> SctSplitStr b Str 58;
     v \<leftarrow> SctXtoi (drop tok b1);
     let Data = (ucast v :: u16);
     (b2, Str2, Addr) \<leftarrow> SctStrToIPv6Addr_loop n b1 Str1;
     Some (b2, Str2, ucast (drop_bit 8 Data) # ucast (Data AND 0xff) # Addr) }"

definition SctStrToIPv6Addr :: "u16 list \<Rightarrow> nat \<Rightarrow> (u16 list \<times> nat \<times> u8 list) option" where
  "SctStrToIPv6Addr b Str = SctStrToIPv6Addr_loop 8 b Str"

text \<open>The first \<open>n\<close> fields of a text, and what is left after them.\<close>

fun addr_fields :: "nat \<Rightarrow> 'a \<Rightarrow> 'a list \<Rightarrow> 'a list list" where
  "addr_fields 0 c u = []"
| "addr_fields (Suc n) c u = takeWhile (\<lambda>x. x \<noteq> c) u # addr_fields n c (drop (Suc (first_pos c u)) u)"

definition atoi_val :: "u16 list \<Rightarrow> nat" where
  "atoi_val s = num_of 10 (digits_of dec_val (dropWhile (\<lambda>x. x = 32) s))"

definition xtoi_val :: "u16 list \<Rightarrow> nat" where
  "xtoi_val s = num_of 16 (digits_of hex_val (xtoi_body s))"

lemma ucast_down_of_nat: "(ucast (of_nat n :: u64) :: u8) = of_nat n"
  by (simp add: unsigned_of_nat word_of_nat_eq_iff)

lemma ucast_down_of_nat16: "(ucast (of_nat n :: u64) :: u16) = of_nat n"
  by (simp add: unsigned_of_nat word_of_nat_eq_iff)

lemma SctStrToIPv4Addr_loop_spec:
  "cstr (drop i b) = Some u \<Longrightarrow>
   \<exists>b' i'. SctStrToIPv4Addr_loop n b i =
     Some (b', i', map (\<lambda>t. of_nat (atoi_val t)) (addr_fields n 46 u))"
proof (induction n arbitrary: b i u)
  case (Suc n)
  obtain b1 i1 where s: "SctSplitStr b i 46 = Some (i, b1, i1)"
      "cstr (drop i b1) = Some (takeWhile (\<lambda>x. x \<noteq> 46) u)"
      "cstr (drop i1 b1) = Some (drop (Suc (first_pos 46 u)) u)"
    using SctSplitStr_spec [OF Suc.prems, of 46] by auto
  obtain b2 i2 where "SctStrToIPv4Addr_loop n b1 i1 =
      Some (b2, i2, map (\<lambda>t. of_nat (atoi_val t)) (addr_fields n 46 (drop (Suc (first_pos 46 u)) u)))"
    using Suc.IH [OF s(3)] by blast
  then show ?case
    using s SctAtoi_cstr [OF s(2)] by (simp add: atoi_val_def ucast_down_of_nat)
qed simp

text \<open>An IPv6 group is 16 bits, stored with its high byte first.\<close>

definition group_bytes :: "nat \<Rightarrow> u8 list" where
  "group_bytes v = [of_nat (v div 256), of_nat v]"

lemma ucast_group:
  "[ucast (drop_bit 8 (of_nat v :: u16)), ucast ((of_nat v :: u16) AND 0xff)] = group_bytes (v mod 2 ^ 16)"
proof -
  define w where "w = (of_nat v :: u16)"
  have u: "unat w = v mod 2 ^ 16" by (simp add: w_def unat_of_nat take_bit_eq_mod)
  have d: "unat (drop_bit 8 w) = v mod 2 ^ 16 div 256"
    unfolding unat_drop_bit_eq u by (simp add: drop_bit_eq_div)
  have "(ucast (w AND mask 8) :: u8) = ucast w"
    by (rule bit_word_eqI) (auto simp: bit_simps)
  then have "(ucast (w AND 0xff) :: u8) = ucast w" by (simp add: mask_eq_exp_minus_1)
  also have "\<dots> = of_nat (v mod 2 ^ 16)" unfolding u [symmetric] by (simp only: of_nat_unat)
  finally have lo: "(ucast (w AND 0xff) :: u8) = of_nat (v mod 2 ^ 16)" .
  have hi: "(ucast (drop_bit 8 w) :: u8) = of_nat (v mod 2 ^ 16 div 256)"
    unfolding d [symmetric] by (simp only: of_nat_unat)
  show ?thesis unfolding w_def [symmetric] lo hi by (simp only: group_bytes_def)
qed

lemma SctStrToIPv6Addr_loop_spec:
  "cstr (drop i b) = Some u \<Longrightarrow>
   \<exists>b' i'. SctStrToIPv6Addr_loop n b i =
     Some (b', i', concat (map (\<lambda>t. group_bytes (xtoi_val t mod 2 ^ 16)) (addr_fields n 58 u)))"
proof (induction n arbitrary: b i u)
  case (Suc n)
  let ?t = "takeWhile (\<lambda>x. x \<noteq> 58) u"
  obtain b1 i1 where s: "SctSplitStr b i 58 = Some (i, b1, i1)"
      "cstr (drop i b1) = Some ?t"
      "cstr (drop i1 b1) = Some (drop (Suc (first_pos 58 u)) u)"
    using SctSplitStr_spec [OF Suc.prems, of 58] by auto
  obtain b2 i2 where r: "SctStrToIPv6Addr_loop n b1 i1 =
      Some (b2, i2, concat (map (\<lambda>t. group_bytes (xtoi_val t mod 2 ^ 16))
        (addr_fields n 58 (drop (Suc (first_pos 58 u)) u))))"
    using Suc.IH [OF s(3)] by blast
  have x: "SctXtoi (drop i b1) = Some (of_nat (xtoi_val ?t))"
    using SctXtoi_cstr [OF s(2)] by (simp add: xtoi_val_def)
  have "(ucast (of_nat (xtoi_val ?t) :: u64) :: u16) = of_nat (xtoi_val ?t)"
    by (rule ucast_down_of_nat16)
  then show ?case
    using s(1) r x ucast_group [of "xtoi_val ?t"] by (simp add: Let_def)
qed simp

end
