(* ===== verification/Sct_Search.thy ===== *)
theory Sct_Search
  imports Sct_String
begin

text \<open>
  Substring search in \<open>SctLib/String.c\<close>: \<open>SctStrStr\<close>, a Knuth-Morris-Pratt search with a
  failure table in a pool block, and \<open>SctAsciiStrStr\<close>, the restarting scan. Both are
  compared with the reference \<open>first_occ\<close>, the position of the first occurrence.
\<close>

section \<open>The reference: the first occurrence\<close>

definition occ :: "'a list \<Rightarrow> 'a list \<Rightarrow> nat \<Rightarrow> bool" where
  "occ p s q \<longleftrightarrow> q + length p \<le> length s \<and> (\<forall>x<length p. s ! (q + x) = p ! x)"

fun is_prefix :: "'a list \<Rightarrow> 'a list \<Rightarrow> bool" where
  "is_prefix [] s = True"
| "is_prefix (x # p) [] = False"
| "is_prefix (x # p) (y # s) = (x = y \<and> is_prefix p s)"

fun first_occ :: "'a list \<Rightarrow> 'a list \<Rightarrow> nat option" where
  "first_occ p [] = (if p = [] then Some 0 else None)"
| "first_occ p (y # s) = (if is_prefix p (y # s) then Some 0 else map_option Suc (first_occ p s))"

lemma is_prefix_occ: "is_prefix p s \<longleftrightarrow> occ p s 0"
proof (induction p s rule: is_prefix.induct)
  case (3 x p y s)
  have "occ (x # p) (y # s) 0 \<longleftrightarrow> x = y \<and> occ p s 0"
    by (auto simp: occ_def less_Suc_eq_0_disj all_conj_distrib)
  then show ?case using "3.IH" by auto
qed (auto simp: occ_def)

lemma occ_Suc: "occ p (y # s) (Suc q) \<longleftrightarrow> occ p s q"
  by (simp add: occ_def)

lemma first_occ_Some: "first_occ p s = Some q \<longleftrightarrow> occ p s q \<and> (\<forall>q'<q. \<not> occ p s q')"
proof (induction p s arbitrary: q rule: first_occ.induct)
  case (1 p)
  then show ?case by (auto simp: occ_def)
next
  case (2 p y s)
  show ?case
  proof (cases "is_prefix p (y # s)")
    case True
    then have o: "occ p (y # s) 0" by (simp add: is_prefix_occ)
    then show ?thesis using True by (cases q) auto
  next
    case False
    then have o: "\<not> occ p (y # s) 0" by (simp add: is_prefix_occ)
    then show ?thesis using False 2
      by (cases q) (auto simp: occ_Suc less_Suc_eq_0_disj)
  qed
qed

lemma first_occ_None: "first_occ p s = None \<longleftrightarrow> (\<forall>q. \<not> occ p s q)"
proof
  assume n: "first_occ p s = None"
  show "\<forall>q. \<not> occ p s q"
  proof (rule ccontr)
    assume "\<not> (\<forall>q. \<not> occ p s q)"
    then obtain q where "occ p s q" by blast
    then have "occ p s (LEAST q. occ p s q)" by (rule LeastI)
    moreover have "\<forall>q'<(LEAST q. occ p s q). \<not> occ p s q'"
      using not_less_Least by blast
    ultimately have "first_occ p s = Some (LEAST q. occ p s q)"
      unfolding first_occ_Some by (rule conjI)
    then show False using n by simp
  qed
next
  assume "\<forall>q. \<not> occ p s q"
  then show "first_occ p s = None" using first_occ_Some [of p s] by (cases "first_occ p s") auto
qed

section \<open>SctAsciiStrStr\<close>

text \<open>The three pointers as offsets: \<open>Src\<close> and \<open>String\<close> into the string, \<open>StrCharSet\<close>
  into the pattern.\<close>

function SctAsciiStrStr_loop :: "u8 list \<Rightarrow> u8 list \<Rightarrow> nat \<Rightarrow> nat \<Rightarrow> nat \<Rightarrow> nat option option" where
  "SctAsciiStrStr_loop b p Src String StrCharSet =
     (case (rd b String, rd p StrCharSet) of
        (Some x, Some y) \<Rightarrow>
          if x \<noteq> 0 \<and> y \<noteq> 0
          then (if x \<noteq> y then SctAsciiStrStr_loop b p (Suc Src) (Suc Src) 0
                else SctAsciiStrStr_loop b p Src (Suc String) (Suc StrCharSet))
          else Some (if y = 0 then Some Src else None)
      | _ \<Rightarrow> None)"
  by pat_completeness auto
termination
  by (relation "measures [\<lambda>(b, p, Src, String, C). length b - Src,
                          \<lambda>(b, p, Src, String, C). length b - String]")
     (auto simp: rd_def split: if_splits)

declare SctAsciiStrStr_loop.simps [simp del]

definition SctAsciiStrStr :: "u8 list \<Rightarrow> u8 list \<Rightarrow> nat option option" where
  "SctAsciiStrStr b p = SctAsciiStrStr_loop b p 0 0 0"

lemma SctAsciiStrStr_loop_spec:
  "cstr b = Some s \<Longrightarrow> cstr pb = Some p \<Longrightarrow> String = Src + m \<Longrightarrow>
    m \<le> length p \<Longrightarrow> Src + m \<le> length s \<Longrightarrow> \<forall>x < m. s ! (Src + x) = p ! x \<Longrightarrow>
    \<forall>q < Src. \<not> occ p s q \<Longrightarrow>
    SctAsciiStrStr_loop b pb Src String m = Some (first_occ p s)"
proof (induction b pb Src String m rule: SctAsciiStrStr_loop.induct)
  case (1 b pb Src String m)
  note b = "1.prems"(1) and pb = "1.prems"(2) and str = "1.prems"(3)
  have x: "rd b String = Some (if String < length s then s ! String else 0)"
    using cstr_rd [OF b, of String] "1.prems" by simp
  have y: "rd pb m = Some (if m < length p then p ! m else 0)"
    using cstr_rd [OF pb, of m] "1.prems" by simp
  have nzs: "String < length s \<Longrightarrow> s ! String \<noteq> 0" and nzp: "m < length p \<Longrightarrow> p ! m \<noteq> 0"
    using cstr_nz [OF b] cstr_nz [OF pb] by (metis nth_mem)+
  consider (found) "m = length p" | (ended) "m < length p" "String = length s"
    | (mismatch) "m < length p" "String < length s" "s ! String \<noteq> p ! m"
    | (matched) "m < length p" "String < length s" "s ! String = p ! m"
    using "1.prems" by linarith
  then show ?case
  proof cases
    case found
    then have "occ p s Src" using "1.prems" by (auto simp: occ_def)
    then have "first_occ p s = Some Src" using "1.prems" by (simp add: first_occ_Some)
    then show ?thesis using x y found by (subst SctAsciiStrStr_loop.simps) simp
  next
    case ended
    have "\<not> occ p s q" for q
      using "1.prems" ended by (cases "q < Src") (auto simp: occ_def)
    then have "first_occ p s = None" by (simp add: first_occ_None)
    then show ?thesis using x y ended nzp by (subst SctAsciiStrStr_loop.simps) simp
  next
    case mismatch
    have "\<not> occ p s Src" using mismatch str by (auto simp: occ_def)
    then have none: "\<forall>q < Suc Src. \<not> occ p s q" using "1.prems" by (auto simp: less_Suc_eq)
    have "SctAsciiStrStr_loop b pb (Suc Src) (Suc Src) 0 = Some (first_occ p s)"
      by (rule "1.IH"(1) [OF refl x y]) (use mismatch nzs nzp none "1.prems" in auto)
    then show ?thesis using x y mismatch nzs nzp by (subst SctAsciiStrStr_loop.simps) simp
  next
    case matched
    have m: "\<forall>x < Suc m. s ! (Src + x) = p ! x"
      using matched str "1.prems" by (auto simp: less_Suc_eq)
    have "SctAsciiStrStr_loop b pb Src (Suc String) (Suc m) = Some (first_occ p s)"
      by (rule "1.IH"(2) [OF refl x y]) (use matched nzs nzp m "1.prems" in auto)
    then show ?thesis using x y matched nzs nzp by (subst SctAsciiStrStr_loop.simps) simp
  qed
qed

section \<open>SctStrStr\<close>

text \<open>
  The indices are signed integers (\<open>INTN\<close>); the failure table is the pool block
  \<open>SctAllocatePool\<close> returned, \<open>None\<close> when it returned \<open>NULL\<close>, which the code dereferences.
  The two \<open>while\<close> loops need not end on an arbitrary table, so they are partial functions.
\<close>

definition rdi :: "'a list \<Rightarrow> int \<Rightarrow> 'a option" where
  "rdi b i = (if 0 \<le> i then rd b (nat i) else None)"

lemma rdi_nat [simp]: "rdi b (int k) = rd b k"
  by (simp add: rdi_def)

lemma rdi_nat_Suc [simp]: "rdi b (1 + int k) = rd b (Suc k)"
  by (simp add: rdi_def nat_add_distrib)

lemma rdi_nat_Suc' [simp]: "rdi b (int k + 1) = rd b (Suc k)"
  by (simp add: rdi_def nat_add_distrib)

lemma rdi_pred: "0 < k \<Longrightarrow> rdi b (int k - 1) = rd b (k - 1)"
  by (cases k) (simp_all add: rdi_def)

lemma rdi_0 [simp]: "rdi b 0 = rd b 0"
  by (simp add: rdi_def)

partial_function (option) kmp_back :: "u16 list \<Rightarrow> int list \<Rightarrow> int \<Rightarrow> int \<Rightarrow> int option" where
  "kmp_back Pat Failure j i =
     do { x \<leftarrow> rdi Pat j; y \<leftarrow> rdi Pat (i + 1);
          if x \<noteq> y \<and> 0 \<le> i
          then do { i' \<leftarrow> rdi Failure i; kmp_back Pat Failure j i' }
          else Some i }"

function kmp_build :: "u16 list \<Rightarrow> int list \<Rightarrow> int \<Rightarrow> int \<Rightarrow> int list option" where
  "kmp_build Pat Failure j Lenp =
     (if j < Lenp
      then do { i \<leftarrow> rdi Failure (j - 1);
                i \<leftarrow> kmp_back Pat Failure j i;
                x \<leftarrow> rdi Pat j; y \<leftarrow> rdi Pat (i + 1);
                Failure \<leftarrow> wr Failure (nat j) (if x = y then i + 1 else -1);
                kmp_build Pat Failure (j + 1) Lenp }
      else Some Failure)"
  by pat_completeness auto
termination by (relation "measure (\<lambda>(_, _, j, Lenp). nat (Lenp - j))") auto

declare kmp_build.simps [simp del]

partial_function (option) kmp_search ::
    "u16 list \<Rightarrow> u16 list \<Rightarrow> int list \<Rightarrow> int \<Rightarrow> int \<Rightarrow> int \<Rightarrow> int \<Rightarrow> (int \<times> int) option" where
  "kmp_search Str Pat Failure Lens Lenp i j =
     (if i < Lens \<and> j < Lenp
      then do { x \<leftarrow> rdi Str i; y \<leftarrow> rdi Pat j;
                if x = y then kmp_search Str Pat Failure Lens Lenp (i + 1) (j + 1)
                else if j = 0 then kmp_search Str Pat Failure Lens Lenp (i + 1) j
                else do { f \<leftarrow> rdi Failure (j - 1);
                          kmp_search Str Pat Failure Lens Lenp i (f + 1) } }
      else Some (i, j))"

text \<open>The result is the offset from \<open>Str\<close> of the pointer returned, \<open>None\<close> for \<open>NULL\<close>.\<close>

definition SctStrStr :: "u16 list \<Rightarrow> u16 list \<Rightarrow> int list option \<Rightarrow> int option option" where
  "SctStrStr Str Pat Pool =
     do { Lenp \<leftarrow> map_option int (SctStrLen Pat);
          Lens \<leftarrow> map_option int (SctStrLen Str);
          if Lenp = 0 \<or> Lens = 0 then Some None
          else do { Failure \<leftarrow> Pool;
                    Failure \<leftarrow> wr Failure 0 (-1);
                    Failure \<leftarrow> kmp_build Pat Failure 1 Lenp;
                    (i, j) \<leftarrow> kmp_search Str Pat Failure Lens Lenp 0 0;
                    Some (if j = Lenp then Some (i - Lenp + 1) else None) } }"

subsection \<open>Borders and the failure table\<close>

text \<open>\<open>l\<close> is a border of the first \<open>k\<close> characters: they end with their own first \<open>l\<close>.\<close>

definition border :: "'a list \<Rightarrow> nat \<Rightarrow> nat \<Rightarrow> bool" where
  "border p k l \<longleftrightarrow> l < k \<and> k \<le> length p \<and> (\<forall>x<l. p ! x = p ! (k - l + x))"

definition max_border :: "'a list \<Rightarrow> nat \<Rightarrow> nat \<Rightarrow> bool" where
  "max_border p k l \<longleftrightarrow> border p k l \<and> (\<forall>m. border p k m \<longrightarrow> m \<le> l)"

definition table_upto :: "'a list \<Rightarrow> int list \<Rightarrow> nat \<Rightarrow> bool" where
  "table_upto p F n \<longleftrightarrow> n \<le> length F \<and> (\<forall>k<n. \<exists>l. F ! k = int l - 1 \<and> max_border p (Suc k) l)"

lemma border_trans: "border p k l \<Longrightarrow> border p l m \<Longrightarrow> border p k m"
  unfolding border_def
proof (intro conjI allI impI)
  fix x
  assume k: "l < k \<and> k \<le> length p \<and> (\<forall>x<l. p ! x = p ! (k - l + x))"
    and l: "m < l \<and> l \<le> length p \<and> (\<forall>x<m. p ! x = p ! (l - m + x))" and x: "x < m"
  have "p ! x = p ! (l - m + x)" using l x by blast
  also have "\<dots> = p ! (k - l + (l - m + x))" using k l x by (metis add_less_cancel_left
        le_add_diff_inverse2 less_imp_le)
  also have "k - l + (l - m + x) = k - m + x" using k l by simp
  finally show "p ! x = p ! (k - m + x)" .
qed auto

lemma border_of_border: "border p j l \<Longrightarrow> border p j m \<Longrightarrow> m < l \<Longrightarrow> border p l m"
  unfolding border_def
proof (intro conjI allI impI)
  fix x
  assume l: "l < j \<and> j \<le> length p \<and> (\<forall>x<l. p ! x = p ! (j - l + x))"
    and m: "m < j \<and> j \<le> length p \<and> (\<forall>x<m. p ! x = p ! (j - m + x))"
    and ml: "m < l" and x: "x < m"
  have "p ! x = p ! (j - m + x)" using m x by blast
  also have "j - m + x = j - l + (l - m + x)" using l ml by simp
  also have "p ! \<dots> = p ! (l - m + x)" using l ml x by (metis add_less_cancel_left
        le_add_diff_inverse2 less_imp_le)
  finally show "p ! x = p ! (l - m + x)" .
qed auto

lemma border_0: "0 < k \<Longrightarrow> k \<le> length p \<Longrightarrow> border p k 0"
  by (simp add: border_def)

lemma border_Suc:
  assumes "0 < j" "j < length p"
  shows "border p (Suc j) (Suc l) \<longleftrightarrow> border p j l \<and> p ! l = p ! j"
proof (cases "l < j")
  case True
  then have "Suc j - Suc l + l = j" by simp
  then show ?thesis using assms True by (auto simp: border_def less_Suc_eq)
qed (simp add: border_def)

lemma kmp_back_spec:
  assumes pat: "cstr Pat = Some p" and j: "0 < j" "j < length p" and tab: "table_upto p F j"
    and l: "border p j l" and max: "\<forall>m. border p j m \<and> p ! m = p ! j \<longrightarrow> m \<le> l"
  shows "\<exists>l'. kmp_back Pat F (int j) (int l - 1) = Some (int l' - 1) \<and> border p j l' \<and>
    (\<forall>m. border p j m \<and> p ! m = p ! j \<longrightarrow> m \<le> l') \<and> (p ! l' = p ! j \<or> l' = 0)"
  using l max
proof (induction l rule: less_induct)
  case (less l)
  have lj: "l < j" using less.prems by (simp add: border_def)
  have x: "rd Pat j = Some (p ! j)" and y: "rd Pat l = Some (p ! l)"
    using cstr_rd_lt [OF pat] j lj by auto
  show ?case
  proof (cases "p ! l = p ! j \<or> l = 0")
    case True
    then have "kmp_back Pat F (int j) (int l - 1) = Some (int l - 1)"
      using x y by (subst kmp_back.simps) auto
    then show ?thesis using less.prems True by blast
  next
    case False
    then obtain k where k: "l = Suc k" by (cases l) auto
    have "k < j" using k lj by simp
    then have "k < length F \<and> (\<exists>m. F ! k = int m - 1 \<and> max_border p (Suc k) m)"
      using tab unfolding table_upto_def by (meson le_trans less_le_not_le linorder_not_le)
    then obtain m where m: "F ! k = int m - 1" "max_border p l m" and kF: "k < length F"
      using k by blast
    have run: "kmp_back Pat F (int j) (int l - 1) = kmp_back Pat F (int j) (int m - 1)"
      using x y False k m(1) kF by (subst kmp_back.simps) (simp add: rd_in)
    have ml: "border p l m" "m < l" using m(2) by (auto simp: max_border_def border_def)
    have b: "border p j m" by (rule border_trans [OF less.prems(1) ml(1)])
    have "m' \<le> m" if "border p j m'" "p ! m' = p ! j" for m'
    proof -
      have "m' < l" using that less.prems(2) False by (metis le_neq_implies_less)
      then have "border p l m'" by (rule border_of_border [OF less.prems(1) that(1)])
      then show ?thesis using m(2) by (simp add: max_border_def)
    qed
    then show ?thesis unfolding run using less.IH [OF ml(2) b] by blast
  qed
qed

lemma kmp_build_spec:
  assumes pat: "cstr Pat = Some p"
  shows "0 < j \<Longrightarrow> j \<le> length p \<Longrightarrow> length p \<le> length F \<Longrightarrow> table_upto p F j \<Longrightarrow>
    \<exists>F'. kmp_build Pat F (int j) (int (length p)) = Some F' \<and> table_upto p F' (length p)"
proof (induction "length p - j" arbitrary: j F)
  case 0
  then show ?case by (subst kmp_build.simps) simp
next
  case (Suc d)
  have j: "0 < j" "j < length p" using Suc.prems Suc.hyps(2) by auto
  obtain m where m: "F ! (j - 1) = int m - 1" "max_border p j m"
    using Suc.prems(4) j unfolding table_upto_def
    by (metis Suc_pred' diff_less zero_less_one)
  have "border p j m" and "\<forall>m'. border p j m' \<and> p ! m' = p ! j \<longrightarrow> m' \<le> m"
    using m(2) by (auto simp: max_border_def)
  then obtain l where bk: "kmp_back Pat F (int j) (int m - 1) = Some (int l - 1)"
    and l: "border p j l" "\<forall>m. border p j m \<and> p ! m = p ! j \<longrightarrow> m \<le> l"
      "p ! l = p ! j \<or> l = 0"
    using kmp_back_spec [OF pat j Suc.prems(4)] by blast
  have lj: "l < j" using l(1) by (simp add: border_def)
  define e where "e = (if p ! j = p ! l then int l else - 1)"
  define F' where "F' = F[j := e]"
  have f: "rdi F (int j - 1) = Some (int m - 1)"
    using m(1) j Suc.prems(3) by (simp add: rdi_pred rd_def)
  have run: "kmp_build Pat F (int j) (int (length p)) =
      kmp_build Pat F' (int (Suc j)) (int (length p))"
    using j lj f bk Suc.prems(3) cstr_rd_lt [OF pat j(2)] cstr_rd_lt [OF pat, of l]
    by (subst kmp_build.simps) (simp add: wr_in e_def F'_def add.commute)
  have "\<exists>q. e = int q - 1 \<and> max_border p (Suc j) q"
  proof (cases "p ! j = p ! l")
    case True
    have "m \<le> Suc l" if "border p (Suc j) m" for m
      using that l(2) by (cases m) (auto simp: border_Suc j)
    then have "max_border p (Suc j) (Suc l)"
      using l(1) True by (simp add: max_border_def border_Suc j)
    then show ?thesis using True by (intro exI [of _ "Suc l"]) (simp add: e_def)
  next
    case False
    then have l0: "l = 0" using l(3) by simp
    have "m = 0" if "border p (Suc j) m" for m
      using that l(2) l0 False by (cases m) (auto simp: border_Suc j)
    then have "max_border p (Suc j) 0" using j by (auto simp: max_border_def border_0)
    then show ?thesis using False by (intro exI [of _ 0]) (simp add: e_def)
  qed
  then have "table_upto p F' (Suc j)"
    using Suc.prems(3,4) j by (auto simp: table_upto_def F'_def less_Suc_eq)
  then show ?case unfolding run
    using Suc.hyps(1) [of "Suc j" F'] Suc.hyps(2) Suc.prems(3) j by (simp add: F'_def)
qed

subsection \<open>The search\<close>

text \<open>\<open>matched p s i j\<close>: the \<open>j\<close> characters before position \<open>i\<close> match, and the pattern occurs
  nowhere before them.\<close>

definition matched :: "'a list \<Rightarrow> 'a list \<Rightarrow> nat \<Rightarrow> nat \<Rightarrow> bool" where
  "matched p s i j \<longleftrightarrow> j \<le> length p \<and> j \<le> i \<and> i \<le> length s \<and>
     (\<forall>x<j. s ! (i - j + x) = p ! x) \<and> (\<forall>q<i - j. \<not> occ p s q)"

lemma matched_extend:
  assumes "matched p s i j" "i < length s" "j < length p" "s ! i = p ! j"
  shows "matched p s (Suc i) (Suc j)"
proof -
  have "i - j + j = i" using assms(1) by (simp add: matched_def)
  then show ?thesis using assms by (auto simp: matched_def less_Suc_eq)
qed

lemma matched_skip:
  assumes "matched p s i 0" "i < length s" "0 < length p" "s ! i \<noteq> p ! 0"
  shows "matched p s (Suc i) 0"
proof -
  have "\<not> occ p s i" using assms by (auto simp: occ_def)
  then show ?thesis using assms by (auto simp: matched_def less_Suc_eq)
qed

lemma matched_fall_back:
  assumes m: "matched p s i j" and ij: "i < length s" "j < length p" "0 < j" "s ! i \<noteq> p ! j"
    and l: "max_border p j l"
  shows "matched p s i l"
proof -
  have lj: "l < j" "\<forall>x<l. p ! x = p ! (j - l + x)" using l by (auto simp: max_border_def border_def)
  have ji: "j \<le> i" "\<forall>x<j. s ! (i - j + x) = p ! x" using m by (auto simp: matched_def)
  have "s ! (i - l + x) = p ! x" if x: "x < l" for x
  proof -
    have "i - l + x = i - j + (j - l + x)" using lj ji by simp
    then have "s ! (i - l + x) = s ! (i - j + (j - l + x))" by (simp only:)
    also have "j - l + x < j" using lj x by simp
    then have "s ! (i - j + (j - l + x)) = p ! (j - l + x)" using ji by blast
    also have "\<dots> = p ! x" using lj x by metis
    finally show ?thesis .
  qed
  moreover have "\<not> occ p s q" if q: "q < i - l" for q
  proof
    assume o: "occ p s q"
    have "i - j \<le> q" using m o by (meson linorder_not_le matched_def)
    define k where "k = i - q"
    have k: "l < k" "k \<le> j" "q = i - k" "k \<le> i"
      using \<open>i - j \<le> q\<close> q ji k_def by auto
    have at: "p ! x = s ! (i - k + x)" if "x < length p" for x
      using o that k by (simp add: occ_def)
    show False
    proof (cases "k = j")
      case True
      then show ?thesis using at [OF ij(2)] ij ji by simp
    next
      case False
      have "p ! x = p ! (j - k + x)" if x: "x < k" for x
      proof -
        have "j - k + x < j" "x < length p" using k x ij by simp_all
        then have "s ! (i - j + (j - k + x)) = p ! (j - k + x)" "p ! x = s ! (i - k + x)"
          using ji at by blast+
        moreover have "i - k + x = i - j + (j - k + x)" using k ji by simp
        ultimately show ?thesis by (simp only:)
      qed
      then have "border p j k" using k False ij by (simp add: border_def)
      then show ?thesis using l k(1) unfolding max_border_def by (meson linorder_not_le)
    qed
  qed
  ultimately show ?thesis using m lj by (simp add: matched_def)
qed

lemma kmp_search_spec:
  assumes pat: "cstr Pat = Some p" and str: "cstr Str = Some s"
    and tab: "table_upto p F (length p)"
  shows "matched p s i j \<Longrightarrow>
    \<exists>i' j'. kmp_search Str Pat F (int (length s)) (int (length p)) (int i) (int j) =
        Some (int i', int j') \<and> matched p s i' j' \<and> (j' = length p \<or> i' = length s)"
proof (induction "2 * (length s - i) + j" arbitrary: i j rule: less_induct)
  case less
  show ?case
  proof (cases "i < length s \<and> j < length p")
    case False
    then have "j = length p \<or> i = length s" using less.prems by (auto simp: matched_def)
    then show ?thesis using False less.prems by (subst kmp_search.simps) auto
  next
    case True
    then have i: "i < length s" and j: "j < length p" by auto
    have x: "rd Str i = Some (s ! i)" and y: "rd Pat j = Some (p ! j)"
      using cstr_rd_lt [OF str i] cstr_rd_lt [OF pat j] by auto
    consider (hit) "s ! i = p ! j" | (skip) "s ! i \<noteq> p ! j" "j = 0" | (fall) "s ! i \<noteq> p ! j" "0 < j"
      by auto
    then show ?thesis
    proof cases
      case hit
      have run: "kmp_search Str Pat F (int (length s)) (int (length p)) (int i) (int j) =
          kmp_search Str Pat F (int (length s)) (int (length p)) (int (Suc i)) (int (Suc j))"
        using x y hit i j by (subst kmp_search.simps) (simp add: add.commute)
      show ?thesis unfolding run
        by (rule less.hyps [OF _ matched_extend [OF less.prems i j hit]]) (use i in simp)
    next
      case skip
      have run: "kmp_search Str Pat F (int (length s)) (int (length p)) (int i) (int j) =
          kmp_search Str Pat F (int (length s)) (int (length p)) (int (Suc i)) (int 0)"
        using x y skip i j by (subst kmp_search.simps) (simp add: add.commute)
      have "matched p s (Suc i) 0"
        by (rule matched_skip) (use less.prems skip i j in auto)
      then show ?thesis unfolding run by (rule less.hyps [rotated]) (use i skip in simp)
    next
      case fall
      obtain l where l: "F ! (j - 1) = int l - 1" "max_border p j l" and jF: "j - 1 < length F"
        using tab j fall unfolding table_upto_def
        by (metis Suc_pred' less_imp_diff_less order_less_le_trans)
      have lj: "l < j" using l(2) by (simp add: max_border_def border_def)
      have f: "rdi F (int j - 1) = Some (int l - 1)"
        using l(1) jF fall by (simp add: rdi_pred rd_def)
      have run: "kmp_search Str Pat F (int (length s)) (int (length p)) (int i) (int j) =
          kmp_search Str Pat F (int (length s)) (int (length p)) (int i) (int l)"
        using x y fall i j f by (subst kmp_search.simps) simp
      have "matched p s i l"
        by (rule matched_fall_back [OF less.prems i j fall(2,1) l(2)])
      then show ?thesis unfolding run by (rule less.hyps [rotated]) (use lj in simp)
    qed
  qed
qed

lemma SctStrStr_cstr:
  assumes str: "cstr Str = Some s" and pat: "cstr Pat = Some p"
    and ne: "s \<noteq> []" "p \<noteq> []" and pool: "length p \<le> length F"
  shows "SctStrStr Str Pat (Some F) = Some (map_option (\<lambda>q. int q + 1) (first_occ p s))"
proof -
  have len: "SctStrLen Str = Some (length s)" "SctStrLen Pat = Some (length p)"
    by (simp_all add: SctStrLen_cstr str pat)
  have F0: "0 < length F" and p0: "Suc 0 \<le> length p" using ne pool by (auto simp: Suc_le_eq)
  have "max_border p (Suc 0) 0" using p0 by (auto simp: max_border_def border_def)
  then have "table_upto p (F[0 := -1]) 1" using F0 by (auto simp: table_upto_def Suc_le_eq)
  then obtain F' where bld: "kmp_build Pat (F[0 := -1]) 1 (int (length p)) = Some F'"
    and tab: "table_upto p F' (length p)"
    using kmp_build_spec [OF pat, of 1 "F[0 := -1]"] ne pool by (auto simp: Suc_le_eq)
  have "matched p s 0 0" by (simp add: matched_def)
  then obtain i j where
    srch: "kmp_search Str Pat F' (int (length s)) (int (length p)) 0 0 = Some (int i, int j)"
    and m: "matched p s i j" and fin: "j = length p \<or> i = length s"
    using kmp_search_spec [OF pat str tab, of 0 0] by auto
  have res: "SctStrStr Str Pat (Some F) =
      Some (if j = length p then Some (int i - int (length p) + 1) else None)"
    using ne F0 bld srch by (simp add: SctStrStr_def len wr_in)
  show ?thesis
  proof (cases "j = length p")
    case True
    then have "occ p s (i - j)" "j \<le> i" using m by (auto simp: matched_def occ_def)
    then have "first_occ p s = Some (i - j)" using m by (simp add: first_occ_Some matched_def)
    then show ?thesis using res True \<open>j \<le> i\<close> by (simp add: of_nat_diff)
  next
    case False
    have "\<not> occ p s q" for q
      using m False fin by (cases "q < i - j") (auto simp: matched_def occ_def)
    then have "first_occ p s = None" by (simp add: first_occ_None)
    then show ?thesis using res False by simp
  qed
qed

end
