(* ===== verification/Sct_Misc.thy ===== *)
theory Sct_Misc
  imports Sct_Prelude
begin

text \<open>
  \<open>SctLib/Misc.c\<close>: the buffer-growing helper of the allocate-and-retry idiom, GUID
  comparison, the table-driven CRC-32, byte swapping and unaligned little-endian writes.
  The CRC is compared with the bit-at-a-time division by the reflected polynomial.
\<close>

section \<open>SctGrowBuffer\<close>

text \<open>
  \<open>Alloc\<close> is what \<open>SctAllocatePool\<close> returns for \<open>BufferSize\<close>. Besides the status and the
  buffer the result lists the buffers handed to \<open>SctFreePool\<close>, in order.
\<close>

record 'b grown =
  TryAgain :: bool
  gStatus :: EFI_STATUS
  gBuffer :: "'b option"
  gFreed :: "'b list"

definition SctGrowBuffer ::
    "EFI_STATUS \<Rightarrow> 'b option \<Rightarrow> nat \<Rightarrow> (nat \<Rightarrow> 'b option) \<Rightarrow> 'b grown" where
  "SctGrowBuffer Status Buffer BufferSize Alloc =
     (let Status = (if Buffer = None \<and> BufferSize \<noteq> 0 then EFI_BUFFER_TOO_SMALL else Status);
          (TryAgain, Status, Buffer, Freed) =
            (if Status = EFI_BUFFER_TOO_SMALL
             then (let Freed = (case Buffer of Some b \<Rightarrow> [b] | None \<Rightarrow> []);
                       Buffer = Alloc BufferSize
                   in if Buffer \<noteq> None then (True, Status, Buffer, Freed)
                      else (False, EFI_OUT_OF_RESOURCES, Buffer, Freed))
             else (False, Status, Buffer, []))
      in case Buffer of
           Some b \<Rightarrow>
             if \<not> TryAgain \<and> EFI_ERROR Status
             then \<lparr>TryAgain = TryAgain, gStatus = Status, gBuffer = None, gFreed = Freed @ [b]\<rparr>
             else \<lparr>TryAgain = TryAgain, gStatus = Status, gBuffer = Buffer, gFreed = Freed\<rparr>
         | None \<Rightarrow> \<lparr>TryAgain = TryAgain, gStatus = Status, gBuffer = Buffer, gFreed = Freed\<rparr>)"

text \<open>The caller retries only with a fresh buffer; it never keeps a buffer together with an
  error it will not retry; and a buffer it held is either still held or was freed, once.\<close>

lemma SctGrowBuffer_retry:
  "TryAgain (SctGrowBuffer S B n A) \<longleftrightarrow>
     (S = EFI_BUFFER_TOO_SMALL \<or> B = None \<and> n \<noteq> 0) \<and> A n \<noteq> None"
  by (auto simp: SctGrowBuffer_def Let_def split: option.splits)

lemma SctGrowBuffer_buffer:
  "gBuffer (SctGrowBuffer S B n A) =
     (if S = EFI_BUFFER_TOO_SMALL \<or> B = None \<and> n \<noteq> 0 then A n
      else if EFI_ERROR S then None else B)"
  by (auto simp: SctGrowBuffer_def Let_def split: option.splits)

lemma SctGrowBuffer_freed:
  "gFreed (SctGrowBuffer S B n A) =
     (case B of Some b \<Rightarrow> if EFI_ERROR S then [b] else [] | None \<Rightarrow> [])"
  by (auto simp: SctGrowBuffer_def Let_def split: option.splits)

section \<open>SctCompareGuid\<close>

text \<open>The 16 bytes of a GUID as four 32-bit words, as the code reads them. The differences
  wrap at 32 bits; the result is sign-extended to \<open>INTN\<close>.\<close>

type_synonym guid_words = "u32 \<times> u32 \<times> u32 \<times> u32"

fun SctCompareGuid :: "guid_words \<Rightarrow> guid_words \<Rightarrow> u64" where
  "SctCompareGuid (a0, a1, a2, a3) (b0, b1, b2, b3) =
     (let r = a0 - b0; r = r OR (a1 - b1); r = r OR (a2 - b2); r = r OR (a3 - b3) in scast r)"

lemma scast_u32_eq_0: "(scast (w::u32) :: u64) = 0 \<longleftrightarrow> w = 0"
proof -
  have "\<bar>sint w\<bar> < 2 ^ LENGTH(64)"
    using sint_range_size [of w] by (auto simp: word_size)
  then show ?thesis
    using word_of_int_small_eq_0 [of "sint w", where 'a = 64] by simp
qed

lemma SctCompareGuid_0: "SctCompareGuid g h = 0 \<longleftrightarrow> g = h"
  by (cases g rule: prod_cases4; cases h rule: prod_cases4)
     (simp add: Let_def scast_u32_eq_0 or_eq_0_iff)

section \<open>CRC-32\<close>

definition mCrcTable :: "u32 list" where
  "mCrcTable =
  [0x00000000, 0x77073096, 0xEE0E612C, 0x990951BA, 0x076DC419, 0x706AF48F, 0xE963A535, 0x9E6495A3,
   0x0EDB8832, 0x79DCB8A4, 0xE0D5E91E, 0x97D2D988, 0x09B64C2B, 0x7EB17CBD, 0xE7B82D07, 0x90BF1D91,
   0x1DB71064, 0x6AB020F2, 0xF3B97148, 0x84BE41DE, 0x1ADAD47D, 0x6DDDE4EB, 0xF4D4B551, 0x83D385C7,
   0x136C9856, 0x646BA8C0, 0xFD62F97A, 0x8A65C9EC, 0x14015C4F, 0x63066CD9, 0xFA0F3D63, 0x8D080DF5,
   0x3B6E20C8, 0x4C69105E, 0xD56041E4, 0xA2677172, 0x3C03E4D1, 0x4B04D447, 0xD20D85FD, 0xA50AB56B,
   0x35B5A8FA, 0x42B2986C, 0xDBBBC9D6, 0xACBCF940, 0x32D86CE3, 0x45DF5C75, 0xDCD60DCF, 0xABD13D59,
   0x26D930AC, 0x51DE003A, 0xC8D75180, 0xBFD06116, 0x21B4F4B5, 0x56B3C423, 0xCFBA9599, 0xB8BDA50F,
   0x2802B89E, 0x5F058808, 0xC60CD9B2, 0xB10BE924, 0x2F6F7C87, 0x58684C11, 0xC1611DAB, 0xB6662D3D,
   0x76DC4190, 0x01DB7106, 0x98D220BC, 0xEFD5102A, 0x71B18589, 0x06B6B51F, 0x9FBFE4A5, 0xE8B8D433,
   0x7807C9A2, 0x0F00F934, 0x9609A88E, 0xE10E9818, 0x7F6A0DBB, 0x086D3D2D, 0x91646C97, 0xE6635C01,
   0x6B6B51F4, 0x1C6C6162, 0x856530D8, 0xF262004E, 0x6C0695ED, 0x1B01A57B, 0x8208F4C1, 0xF50FC457,
   0x65B0D9C6, 0x12B7E950, 0x8BBEB8EA, 0xFCB9887C, 0x62DD1DDF, 0x15DA2D49, 0x8CD37CF3, 0xFBD44C65,
   0x4DB26158, 0x3AB551CE, 0xA3BC0074, 0xD4BB30E2, 0x4ADFA541, 0x3DD895D7, 0xA4D1C46D, 0xD3D6F4FB,
   0x4369E96A, 0x346ED9FC, 0xAD678846, 0xDA60B8D0, 0x44042D73, 0x33031DE5, 0xAA0A4C5F, 0xDD0D7CC9,
   0x5005713C, 0x270241AA, 0xBE0B1010, 0xC90C2086, 0x5768B525, 0x206F85B3, 0xB966D409, 0xCE61E49F,
   0x5EDEF90E, 0x29D9C998, 0xB0D09822, 0xC7D7A8B4, 0x59B33D17, 0x2EB40D81, 0xB7BD5C3B, 0xC0BA6CAD,
   0xEDB88320, 0x9ABFB3B6, 0x03B6E20C, 0x74B1D29A, 0xEAD54739, 0x9DD277AF, 0x04DB2615, 0x73DC1683,
   0xE3630B12, 0x94643B84, 0x0D6D6A3E, 0x7A6A5AA8, 0xE40ECF0B, 0x9309FF9D, 0x0A00AE27, 0x7D079EB1,
   0xF00F9344, 0x8708A3D2, 0x1E01F268, 0x6906C2FE, 0xF762575D, 0x806567CB, 0x196C3671, 0x6E6B06E7,
   0xFED41B76, 0x89D32BE0, 0x10DA7A5A, 0x67DD4ACC, 0xF9B9DF6F, 0x8EBEEFF9, 0x17B7BE43, 0x60B08ED5,
   0xD6D6A3E8, 0xA1D1937E, 0x38D8C2C4, 0x4FDFF252, 0xD1BB67F1, 0xA6BC5767, 0x3FB506DD, 0x48B2364B,
   0xD80D2BDA, 0xAF0A1B4C, 0x36034AF6, 0x41047A60, 0xDF60EFC3, 0xA867DF55, 0x316E8EEF, 0x4669BE79,
   0xCB61B38C, 0xBC66831A, 0x256FD2A0, 0x5268E236, 0xCC0C7795, 0xBB0B4703, 0x220216B9, 0x5505262F,
   0xC5BA3BBE, 0xB2BD0B28, 0x2BB45A92, 0x5CB36A04, 0xC2D7FFA7, 0xB5D0CF31, 0x2CD99E8B, 0x5BDEAE1D,
   0x9B64C2B0, 0xEC63F226, 0x756AA39C, 0x026D930A, 0x9C0906A9, 0xEB0E363F, 0x72076785, 0x05005713,
   0x95BF4A82, 0xE2B87A14, 0x7BB12BAE, 0x0CB61B38, 0x92D28E9B, 0xE5D5BE0D, 0x7CDCEFB7, 0x0BDBDF21,
   0x86D3D2D4, 0xF1D4E242, 0x68DDB3F8, 0x1FDA836E, 0x81BE16CD, 0xF6B9265B, 0x6FB077E1, 0x18B74777,
   0x88085AE6, 0xFF0F6A70, 0x66063BCA, 0x11010B5C, 0x8F659EFF, 0xF862AE69, 0x616BFFD3, 0x166CCF45,
   0xA00AE278, 0xD70DD2EE, 0x4E048354, 0x3903B3C2, 0xA7672661, 0xD06016F7, 0x4969474D, 0x3E6E77DB,
   0xAED16A4A, 0xD9D65ADC, 0x40DF0B66, 0x37D83BF0, 0xA9BCAE53, 0xDEBB9EC5, 0x47B2CF7F, 0x30B5FFE9,
   0xBDBDF21C, 0xCABAC28A, 0x53B39330, 0x24B4A3A6, 0xBAD03605, 0xCDD70693, 0x54DE5729, 0x23D967BF,
   0xB3667A2E, 0xC4614AB8, 0x5D681B02, 0x2A6F2B94, 0xB40BBE37, 0xC30C8EA1, 0x5A05DF1B, 0x2D02EF8D]"

fun crc_loop :: "u32 \<Rightarrow> u8 list \<Rightarrow> u32" where
  "crc_loop Crc [] = Crc"
| "crc_loop Crc (d # ds) =
     crc_loop (drop_bit 8 Crc XOR mCrcTable ! unat ((ucast Crc :: u8) XOR d)) ds"

text \<open>The loop reads \<open>DataSize\<close> bytes of the buffer; \<open>CrcOut\<close> is the cell pointed to.\<close>

definition SctCalculateCrc32 ::
    "u8 list option \<Rightarrow> nat \<Rightarrow> u32 option \<Rightarrow> (EFI_STATUS \<times> u32 option) option" where
  "SctCalculateCrc32 Data DataSize CrcOut =
     (if DataSize = 0 \<or> Data = None \<or> CrcOut = None
      then Some (EFI_INVALID_PARAMETER, CrcOut)
      else if DataSize \<le> length (the Data)
      then Some (EFI_SUCCESS, Some (crc_loop 0xffffffff (take DataSize (the Data)) XOR 0xffffffff))
      else None)"

subsection \<open>The reference: one bit at a time\<close>

definition crc_bit :: "u32 \<Rightarrow> u32" where
  "crc_bit c = (if bit c 0 then drop_bit 1 c XOR 0xEDB88320 else drop_bit 1 c)"

definition crc8 :: "u32 \<Rightarrow> u32" where
  "crc8 c = (crc_bit ^^ 8) c"

definition crc32_ref :: "u8 list \<Rightarrow> u32" where
  "crc32_ref ds = fold (\<lambda>d c. crc8 (c XOR ucast d)) ds 0xffffffff XOR 0xffffffff"

lemma crc_bit_xor: "crc_bit (a XOR b) = crc_bit a XOR crc_bit b"
  by (rule bit_word_eqI) (auto simp: crc_bit_def bit_simps)

lemma crc8_xor: "crc8 (a XOR b) = crc8 a XOR crc8 b"
proof -
  have "(crc_bit ^^ n) (a XOR b) = (crc_bit ^^ n) a XOR (crc_bit ^^ n) b" for n
    by (induction n) (simp_all add: crc_bit_xor)
  then show ?thesis by (simp only: crc8_def)
qed

lemma crc_bit_even: "\<not> bit c 0 \<Longrightarrow> crc_bit c = drop_bit 1 c"
  by (simp add: crc_bit_def)

lemma crc_bits_high:
  "(\<forall>k<n. \<not> bit c k) \<Longrightarrow> (crc_bit ^^ n) c = drop_bit n c"
proof (induction n arbitrary: c)
  case (Suc n)
  have "(crc_bit ^^ Suc n) c = (crc_bit ^^ n) (drop_bit 1 c)"
    using Suc.prems by (simp add: funpow_swap1 crc_bit_even)
  also have "\<dots> = drop_bit n (drop_bit 1 c)"
    by (rule Suc.IH) (use Suc.prems in \<open>auto simp: bit_simps\<close>)
  finally show ?case by simp
qed simp

text \<open>The table is the span of its entries at the powers of two.\<close>

definition span_step :: "u32 \<Rightarrow> u32 list \<Rightarrow> u32 list" where
  "span_step b xs = xs @ map (\<lambda>x. b XOR x) xs"

definition crc_tab :: "nat \<Rightarrow> u32 list" where
  "crc_tab n = map (\<lambda>k. crc8 (of_nat k)) [0..<2 ^ n]"

lemma of_nat_pow2_add:
  assumes "k < 2 ^ n" and "n < 32"
  shows "(of_nat (2 ^ n + k) :: u32) = 2 ^ n XOR of_nat k"
proof -
  have "\<not> bit k n"
    using assms(1) by (simp add: bit_iff_odd)
  then have "(2 ^ n AND of_nat k :: u32) = 0"
    by (intro bit_word_eqI) (auto simp: bit_simps)
  then have "(2 ^ n + of_nat k :: u32) = 2 ^ n XOR of_nat k"
    by (metis disjunctive_add_eq_xor)
  then show ?thesis by simp
qed

lemma crc_tab_Suc: "n < 32 \<Longrightarrow> crc_tab (Suc n) = span_step (crc8 (2 ^ n)) (crc_tab n)"
proof -
  assume n: "n < 32"
  have "[0..<2 ^ Suc n] = [0..<2 ^ n] @ map (\<lambda>k. 2 ^ n + k) [0..<2 ^ n]"
    using upt_add_eq_append [of 0 "2 ^ n" "2 ^ n"] map_add_upt [of "2 ^ n" "2 ^ n"]
    by (simp add: add.commute mult_2)
  then show ?thesis
    using n by (simp add: crc_tab_def span_step_def of_nat_pow2_add crc8_xor del: of_nat_add)
qed

lemma crc_tab_0: "crc_tab 0 = [0]"
  by (simp add: crc_tab_def crc8_def crc_bit_def numeral_eq_Suc)

lemma crc8_steps:
  "crc8 c = crc_bit (crc_bit (crc_bit (crc_bit (crc_bit (crc_bit (crc_bit (crc_bit c)))))))"
  by (simp add: crc8_def numeral_eq_Suc)

lemma crc8_basis:
  "crc8 1 = 0x77073096" "crc8 2 = 0xEE0E612C" "crc8 4 = 0x076DC419" "crc8 8 = 0x0EDB8832"
  "crc8 16 = 0x1DB71064" "crc8 32 = 0x3B6E20C8" "crc8 64 = 0x76DC4190" "crc8 128 = 0xEDB88320"
  by (simp_all add: crc8_steps crc_bit_def)

lemma mCrcTable_tab: "crc_tab 8 = mCrcTable"
  by (simp add: numeral_eq_Suc crc_tab_Suc crc_tab_0)
     (simp add: span_step_def crc8_basis mCrcTable_def)

lemma mCrcTable_map: "mCrcTable = map (\<lambda>k. crc8 (of_nat k)) [0..<256]"
  using mCrcTable_tab by (simp add: crc_tab_def)

lemma mCrcTable_nth: "k < 256 \<Longrightarrow> mCrcTable ! k = crc8 (of_nat k)"
  by (simp add: mCrcTable_map)

lemma unat_lt2p_u8: "unat (b::u8) < 256"
  using unsigned_less [of b, where ?'a = nat] by simp

lemma u8_u32_u8: "ucast (ucast (b::u8) :: u32) = b"
  by (rule bit_word_eqI) (simp add: bit_simps)

lemma crc_step:
  "drop_bit 8 c XOR mCrcTable ! unat ((ucast c :: u8) XOR d) = crc8 (c XOR ucast d)"
proof -
  define low where "low = (ucast c :: u8) XOR d"
  define hi where "hi = push_bit 8 (drop_bit 8 c)"
  have "unat low < 256" using unat_lt2p_u8 [of low] .
  then have "mCrcTable ! unat low = crc8 (of_nat (unat low))" by (rule mCrcTable_nth)
  also have "of_nat (unat low) = (ucast low :: u32)" by simp
  finally have t: "mCrcTable ! unat low = crc8 (ucast low)" .
  have "crc8 hi = drop_bit 8 hi" unfolding crc8_def
    by (rule crc_bits_high) (simp add: hi_def bit_simps)
  also have "drop_bit 8 hi = drop_bit 8 c"
    by (rule bit_word_eqI) (auto simp: hi_def bit_simps dest: bit_imp_le_length)
  finally have h: "drop_bit 8 c = crc8 hi" by simp
  have "hi XOR ucast low = c XOR ucast d"
    by (rule bit_word_eqI) (auto simp: hi_def low_def bit_simps)
  then show ?thesis
    using t h low_def crc8_xor [of hi "ucast low"] by simp
qed

lemma crc_loop_ref: "crc_loop c ds = fold (\<lambda>d c. crc8 (c XOR ucast d)) ds c"
  by (induction ds arbitrary: c) (simp_all add: crc_step)

lemma SctCalculateCrc32_ref:
  "0 < n \<Longrightarrow> n \<le> length d \<Longrightarrow>
    SctCalculateCrc32 (Some d) n (Some c) = Some (EFI_SUCCESS, Some (crc32_ref (take n d)))"
  by (simp add: SctCalculateCrc32_def crc_loop_ref crc32_ref_def)

subsection \<open>A changed byte is always detected\<close>

lemma crc_bit_31: "bit (crc_bit c) 31 \<longleftrightarrow> bit c 0"
  using bit_imp_le_length [of c 32] by (auto simp: crc_bit_def bit_simps)

lemma xor_right_cancel: "a XOR c = b XOR c \<longleftrightarrow> a = b" for a b c :: "'a::len word"
  by (metis xor.right_neutral xor.assoc xor_self_eq)

lemma xor_left_cancel: "c XOR a = c XOR b \<longleftrightarrow> a = b" for a b c :: "'a::len word"
  by (metis xor.commute xor_right_cancel)

lemma crc_bit_inj: "crc_bit a = crc_bit b \<Longrightarrow> a = b"
proof -
  assume e: "crc_bit a = crc_bit b"
  then have b0: "bit a 0 = bit b 0" by (metis crc_bit_31)
  then have "drop_bit 1 a = drop_bit 1 b"
    using e by (auto simp: crc_bit_def xor_right_cancel split: if_splits)
  then have s: "bit a (Suc k) = bit b (Suc k)" for k
    by (metis bit_drop_bit_eq comp_apply plus_1_eq_Suc)
  show "a = b"
    by (rule bit_word_eqI) (metis b0 s not0_implies_Suc)
qed

lemma crc8_inj: "crc8 a = crc8 b \<Longrightarrow> a = b"
proof -
  have inj: "(crc_bit ^^ n) a = (crc_bit ^^ n) b \<Longrightarrow> a = b" for n
    by (induction n) (auto dest: crc_bit_inj)
  show "crc8 a = crc8 b \<Longrightarrow> a = b" unfolding crc8_def by (rule inj)
qed

lemma crc_fold_inj:
  "fold (\<lambda>d c. crc8 (c XOR ucast d)) ds a = fold (\<lambda>d c. crc8 (c XOR ucast d)) ds b \<Longrightarrow> a = b"
  for ds :: "u8 list"
proof (induction ds arbitrary: a b)
  case (Cons d ds)
  then have "crc8 (a XOR ucast d) = crc8 (b XOR ucast d)" by simp
  then have "a XOR ucast d = b XOR ucast d" by (rule crc8_inj)
  then show ?case by (simp only: xor_right_cancel)
qed simp

lemma crc32_ref_byte:
  assumes "i < length d" and "x \<noteq> d ! i"
  shows "crc32_ref (d[i := x]) \<noteq> crc32_ref d"
proof
  let ?f = "\<lambda>(d::u8) (c::u32). crc8 (c XOR ucast d)"
  assume "crc32_ref (d[i := x]) = crc32_ref d"
  then have "fold ?f (d[i := x]) 0xffffffff = fold ?f d 0xffffffff"
    by (simp only: crc32_ref_def xor_right_cancel)
  moreover have "d = take i d @ d ! i # drop (Suc i) d"
    using assms(1) by (simp add: id_take_nth_drop)
  moreover have "d[i := x] = take i d @ x # drop (Suc i) d"
    using assms(1) by (simp add: upd_conv_take_nth_drop)
  ultimately have "fold ?f (take i d @ x # drop (Suc i) d) 0xffffffff =
      fold ?f (take i d @ d ! i # drop (Suc i) d) 0xffffffff"
    by (simp only:)
  then have "fold ?f (drop (Suc i) d) (?f x (fold ?f (take i d) 0xffffffff)) =
      fold ?f (drop (Suc i) d) (?f (d ! i) (fold ?f (take i d) 0xffffffff))"
    by (simp only: fold_append fold.simps comp_apply)
  then have "crc8 (fold ?f (take i d) 0xffffffff XOR ucast x) =
      crc8 (fold ?f (take i d) 0xffffffff XOR ucast (d ! i))"
    by (rule crc_fold_inj)
  then have "(ucast x :: u32) = ucast (d ! i)"
    using crc8_inj xor_left_cancel by blast
  then have "(ucast (ucast x :: u32) :: u8) = ucast (ucast (d ! i) :: u32)" by simp
  then have "x = d ! i" by (simp only: u8_u32_u8)
  then show False using assms(2) by simp
qed

section \<open>Byte order\<close>

definition SctSwapBytes16 :: "u16 \<Rightarrow> u16" where
  "SctSwapBytes16 Value = push_bit 8 Value OR drop_bit 8 Value"

definition SctSwapBytes32 :: "u32 \<Rightarrow> u32" where
  "SctSwapBytes32 Value =
     (let LowerBytes = (ucast (SctSwapBytes16 (ucast Value)) :: u32);
          HigherBytes = ucast (SctSwapBytes16 (ucast (drop_bit 16 Value)))
      in push_bit 16 LowerBytes OR HigherBytes)"

definition SctWriteUnaligned16 :: "u8 list \<Rightarrow> u16 \<Rightarrow> (u8 list \<times> u16) option" where
  "SctWriteUnaligned16 Buffer Value =
     do { Buffer \<leftarrow> wr Buffer 0 (ucast Value);
          Buffer \<leftarrow> wr Buffer 1 (ucast (drop_bit 8 Value));
          Some (Buffer, Value) }"

definition SctWriteUnaligned32 :: "u8 list \<Rightarrow> u32 \<Rightarrow> (u8 list \<times> u32) option" where
  "SctWriteUnaligned32 Buffer Value =
     do { (Buffer, _) \<leftarrow> SctWriteUnaligned16 Buffer (ucast Value);
          (Upper, _) \<leftarrow> SctWriteUnaligned16 (drop 2 Buffer) (ucast (drop_bit 16 Value));
          Some (take 2 Buffer @ Upper, Value) }"

definition le_bytes32 :: "u32 \<Rightarrow> u8 list" where
  "le_bytes32 v = [ucast v, ucast (drop_bit 8 v), ucast (drop_bit 16 v), ucast (drop_bit 24 v)]"

lemma bit_SctSwapBytes16: "bit (SctSwapBytes16 v) n \<longleftrightarrow>
   (if n < 8 then bit v (n + 8) else n < 16 \<and> bit v (n - 8))"
  using bit_imp_le_length [of v "n + 8"]
  by (auto simp: SctSwapBytes16_def bit_simps add.commute)

lemma bit_SctSwapBytes32: "bit (SctSwapBytes32 v) n \<longleftrightarrow>
   (if n < 8 then bit v (n + 24) else if n < 16 then bit v (n + 8)
    else if n < 24 then bit v (n - 8) else n < 32 \<and> bit v (n - 24))"
  by (auto simp: SctSwapBytes32_def Let_def bit_simps bit_SctSwapBytes16 add.commute)

lemma SctSwapBytes16_invol: "SctSwapBytes16 (SctSwapBytes16 v) = v"
  by (rule bit_word_eqI) (auto simp: bit_SctSwapBytes16)

lemma SctSwapBytes32_invol: "SctSwapBytes32 (SctSwapBytes32 v) = v"
  by (rule bit_word_eqI) (auto simp: bit_SctSwapBytes32)

lemma SctSwapBytes32_bytes: "le_bytes32 (SctSwapBytes32 v) = rev (le_bytes32 v)"
  by (auto simp: le_bytes32_def bit_simps bit_SctSwapBytes32 add.commute intro!: bit_word_eqI)

lemma SctWriteUnaligned32_spec:
  assumes "4 \<le> length b"
  shows "SctWriteUnaligned32 b v = Some (le_bytes32 v @ drop 4 b, v)"
proof -
  obtain a0 a1 a2 a3 r where b: "b = a0 # a1 # a2 # a3 # r"
    using assms by (auto simp: eval_nat_numeral Suc_le_length_iff)
  have lo: "ucast (drop_bit 8 (ucast v :: u16)) = (ucast (drop_bit 8 v) :: u8)"
    "ucast (ucast v :: u16) = (ucast v :: u8)"
    by (rule bit_word_eqI; simp add: bit_simps)+
  have hi: "ucast (ucast (drop_bit 16 v) :: u16) = (ucast (drop_bit 16 v) :: u8)"
    "ucast (drop_bit 8 (ucast (drop_bit 16 v) :: u16)) = (ucast (drop_bit 24 v) :: u8)"
    by (rule bit_word_eqI; simp add: bit_simps add.commute)+
  show ?thesis
    by (simp add: b SctWriteUnaligned32_def SctWriteUnaligned16_def wr_def le_bytes32_def lo hi)
qed

end
