(* ===== verification/Sct_Match.thy ===== *)
theory Sct_Match
  imports Sct_Prelude
begin

text \<open>
  \<open>SctMetaMatch\<close> (\<open>SctLib/Match.c\<close>): shell-style matching with \<open>*\<close>, \<open>?\<close> and bracketed
  character sets. The reference is the language of a list of pattern tokens.
\<close>

section \<open>The matcher\<close>

abbreviation (input) chSTAR :: u16 where "chSTAR \<equiv> 42"
abbreviation (input) chQUEST :: u16 where "chQUEST \<equiv> 63"
abbreviation (input) chOPEN :: u16 where "chOPEN \<equiv> 91"
abbreviation (input) chCLOSE :: u16 where "chCLOSE \<equiv> 93"
abbreviation (input) chMINUS :: u16 where "chMINUS \<equiv> 45"

text \<open>
  The scan of a character set: \<open>c\<close> the character to find, \<open>l\<close> the last literal, \<open>p\<close> the
  current pattern character, the rest of the block behind it. The inner \<open>None\<close> is
  \<open>return FALSE\<close>; otherwise the \<open>p\<close> and the pattern position at which the loop was left.
\<close>

fun set_scan :: "u16 \<Rightarrow> u16 \<Rightarrow> u16 \<Rightarrow> u16 list \<Rightarrow> (u16 \<times> u16 list) option option" where
  "set_scan c l p Pattern =
     (if p = 0 then Some (Some (p, Pattern))
      else if p = chCLOSE then Some None
      else if p = chMINUS then
        (case Pattern of
           [] \<Rightarrow> None
         | q # Pattern' \<Rightarrow>
             if q = 0 \<or> q = chCLOSE then Some None
             else if l \<le> c \<and> c \<le> q then Some (Some (q, Pattern))
             else if c = q then Some (Some (q, Pattern))
             else set_scan c q q Pattern')
      else if c = p then Some (Some (p, Pattern))
      else (case Pattern of
              [] \<Rightarrow> None
            | q # Pattern' \<Rightarrow> set_scan c p q Pattern'))"

declare set_scan.simps [simp del]

fun set_skip :: "u16 \<Rightarrow> u16 list \<Rightarrow> u16 list option" where
  "set_skip p Pattern =
     (if p \<noteq> 0 \<and> p \<noteq> chCLOSE
      then (case Pattern of [] \<Rightarrow> None | q # Pattern' \<Rightarrow> set_skip q Pattern')
      else Some Pattern)"

declare set_skip.simps [simp del]

text \<open>The two scans over an exhausted block and over a cell.\<close>

lemmas set_scan_Nil = set_scan.simps [where Pattern = "[]", simplified]
lemmas set_scan_Cons = set_scan.simps [where Pattern = "q # P" for q P, simplified]
lemmas set_skip_Nil = set_skip.simps [where Pattern = "[]", simplified]
lemmas set_skip_Cons = set_skip.simps [where Pattern = "q # P" for q P, simplified]
lemmas set_eqs = set_scan_Nil set_scan_Cons set_skip_Nil set_skip_Cons

lemma set_scan_length:
  "set_scan c l p P = Some (Some (q, P')) \<Longrightarrow> length P' \<le> length P"
proof (induction P arbitrary: l p)
  case (Cons x P)
  then show ?case by (auto simp: set_scan_Cons split: if_splits intro: le_SucI)
qed (auto simp: set_scan_Nil split: if_splits)

lemma set_skip_length: "set_skip p P = Some P' \<Longrightarrow> length P' \<le> length P"
proof (induction P arbitrary: p)
  case (Cons x P)
  then show ?case by (auto simp: set_skip_Cons split: if_splits intro: le_SucI)
qed (auto simp: set_skip_Nil split: if_splits)

text \<open>The whole character set from behind the bracket, for a character that is not NUL.\<close>

definition match_set :: "u16 \<Rightarrow> u16 list \<Rightarrow> u16 list option option" where
  "match_set c Pattern =
     (case Pattern of
        [] \<Rightarrow> None
      | p # Pattern \<Rightarrow>
          do { r \<leftarrow> set_scan c 0 p Pattern;
               case r of
                 None \<Rightarrow> Some None
               | Some (p, Pattern) \<Rightarrow> map_option Some (set_skip p Pattern) })"

lemma match_set_length: "match_set c P = Some (Some P') \<Longrightarrow> length P' < length P"
  by (cases P)
    (auto simp: match_set_def bind_eq_Some_conv split: option.splits
      dest!: set_scan_length set_skip_length)

text \<open>\<open>meta_star\<close> is the \<open>while\<close> loop of the case of \<open>*\<close> with the call after it.\<close>

function SctMetaMatch :: "u16 list \<Rightarrow> u16 list \<Rightarrow> bool option"
  and meta_star :: "u16 list \<Rightarrow> u16 list \<Rightarrow> bool option" where
  "SctMetaMatch String Pattern =
     (case (rd String 0, Pattern) of
        (Some c, p # Pattern) \<Rightarrow>
          if p = 0 then Some (c = 0)
          else if p = chSTAR then meta_star String Pattern
          else if p = chQUEST then
            (if c = 0 then Some False else SctMetaMatch (tl String) Pattern)
          else if p = chOPEN then
            (if c = 0 then Some False
             else (case match_set c Pattern of
                     None \<Rightarrow> None
                   | Some None \<Rightarrow> Some False
                   | Some (Some Pattern) \<Rightarrow> SctMetaMatch (tl String) Pattern))
          else (if c \<noteq> p then Some False else SctMetaMatch (tl String) Pattern)
      | _ \<Rightarrow> None)"
| "meta_star String Pattern =
     (case String of
        [] \<Rightarrow> None
      | c # String' \<Rightarrow>
          if c \<noteq> 0
          then (case SctMetaMatch String Pattern of
                  None \<Rightarrow> None
                | Some True \<Rightarrow> Some True
                | Some False \<Rightarrow> meta_star String' Pattern)
          else SctMetaMatch String Pattern)"
  by pat_completeness auto
termination
  by (relation "measures [\<lambda>x. case x of Inl (S, P) \<Rightarrow> length P | Inr (S, P) \<Rightarrow> length P,
                          \<lambda>x. case x of Inl (S, P) \<Rightarrow> 0 | Inr (S, P) \<Rightarrow> Suc (length S)]")
     (auto dest: match_set_length)

declare SctMetaMatch.simps [simp del] meta_star.simps [simp del]

text \<open>
  A character set left open runs past the end of the pattern: the scan consumes the
  terminating NUL and the main loop reads the cell behind it.
\<close>

lemma SctMetaMatch_overrun:
  "SctMetaMatch [98, 0] [chOPEN, 97, 0] = None"
  by (simp add: SctMetaMatch.simps [of "[98, 0]" "[91, 97, 0]"] match_set_def set_eqs
      SctMetaMatch.simps [of "[0]" "[]"])

section \<open>The reference\<close>

text \<open>
  A pattern as tokens. The text of a set is its content between the brackets: characters and
  ranges; the lower end of a range is the character before the minus sign (NUL at the start).
\<close>

datatype tok = Star | Quest | Lit u16 | Set "u16 list"

fun tok_text :: "tok \<Rightarrow> u16 list" where
  "tok_text Star = [chSTAR]"
| "tok_text Quest = [chQUEST]"
| "tok_text (Lit c) = [c]"
| "tok_text (Set x) = chOPEN # x @ [chCLOSE]"

fun tok_wf :: "tok \<Rightarrow> bool" where
  "tok_wf (Lit c) = (c \<notin> {0, chSTAR, chQUEST, chOPEN})"
| "tok_wf (Set x) = (0 \<notin> set x \<and> chCLOSE \<notin> set x \<and> (x \<noteq> [] \<longrightarrow> last x \<noteq> chMINUS))"
| "tok_wf _ = True"

definition in_set :: "u16 \<Rightarrow> u16 list \<Rightarrow> bool" where
  "in_set c x \<longleftrightarrow> (\<exists>i<length x.
     if x ! i = chMINUS
     then i + 1 < length x \<and> ((if i = 0 then 0 else x ! (i - 1)) \<le> c \<and> c \<le> x ! (i + 1) \<or> c = x ! (i + 1))
     else c = x ! i)"

fun tok_matches :: "tok \<Rightarrow> u16 list \<Rightarrow> bool" where
  "tok_matches Star w = True"
| "tok_matches Quest w = (length w = 1)"
| "tok_matches (Lit c) w = (w = [c])"
| "tok_matches (Set x) w = (\<exists>c. w = [c] \<and> in_set c x)"

definition pat_text :: "tok list \<Rightarrow> u16 list" where
  "pat_text ts = concat (map tok_text ts)"

text \<open>A string is in the language when it splits into one piece per token.\<close>

definition glob :: "tok list \<Rightarrow> u16 list \<Rightarrow> bool" where
  "glob ts s \<longleftrightarrow> (\<exists>ws. s = concat ws \<and> list_all2 tok_matches ts ws)"

lemma glob_Nil: "glob [] s \<longleftrightarrow> s = []"
  by (auto simp: glob_def)

lemma glob_Cons: "glob (t # ts) s \<longleftrightarrow> (\<exists>w u. s = w @ u \<and> tok_matches t w \<and> glob ts u)"
proof
  assume "glob (t # ts) s"
  then obtain w ws where "s = w @ concat ws" "tok_matches t w" "list_all2 tok_matches ts ws"
    by (auto simp: glob_def list_all2_Cons1)
  then show "\<exists>w u. s = w @ u \<and> tok_matches t w \<and> glob ts u" by (auto simp: glob_def)
next
  assume "\<exists>w u. s = w @ u \<and> tok_matches t w \<and> glob ts u"
  then obtain w ws where "s = w @ concat ws" "tok_matches t w" "list_all2 tok_matches ts ws"
    by (auto simp: glob_def)
  then show "glob (t # ts) s" unfolding glob_def by (intro exI [of _ "w # ws"]) simp
qed

lemma glob_Star_Nil: "glob (Star # ts) [] \<longleftrightarrow> glob ts []"
  by (simp add: glob_Cons)

lemma glob_Star_Cons: "glob (Star # ts) (c # s) \<longleftrightarrow> glob ts (c # s) \<or> glob (Star # ts) s"
  by (auto simp: glob_Cons Cons_eq_append_conv)

lemma glob_one:
  assumes "\<And>w. tok_matches t w \<longleftrightarrow> (\<exists>c. w = [c] \<and> P c)"
  shows "glob (t # ts) s \<longleftrightarrow> s \<noteq> [] \<and> P (hd s) \<and> glob ts (tl s)"
proof (cases s)
  case (Cons d u)
  have "glob (t # ts) (d # u)" if "P d" "glob ts u"
    unfolding glob_Cons using that by (intro exI [of _ "[d]"] exI [of _ u]) (simp add: assms)
  then show ?thesis using Cons by (auto simp: glob_Cons assms)
qed (auto simp: glob_Cons assms)

lemma glob_Quest: "glob (Quest # ts) s \<longleftrightarrow> s \<noteq> [] \<and> glob ts (tl s)"
  using glob_one [of Quest "\<lambda>_. True"] by (simp add: length_Suc_conv)

lemma glob_Lit: "glob (Lit c # ts) s \<longleftrightarrow> s \<noteq> [] \<and> hd s = c \<and> glob ts (tl s)"
  using glob_one [of "Lit c" "\<lambda>d. d = c"] by auto

lemma glob_Set: "glob (Set x # ts) s \<longleftrightarrow> s \<noteq> [] \<and> in_set (hd s) x \<and> glob ts (tl s)"
  using glob_one [of "Set x" "\<lambda>c. in_set c x"] by simp

section \<open>Character sets\<close>

text \<open>\<open>has_at\<close>: the item at position \<open>i\<close> admits \<open>c\<close>; \<open>l\<close> is the literal before the text.\<close>

definition has_at :: "u16 \<Rightarrow> u16 \<Rightarrow> u16 list \<Rightarrow> nat \<Rightarrow> bool" where
  "has_at c l x i \<longleftrightarrow>
     (if x ! i = chMINUS
      then i + 1 < length x \<and> ((if i = 0 then l else x ! (i - 1)) \<le> c \<and> c \<le> x ! (i + 1) \<or> c = x ! (i + 1))
      else c = x ! i)"

definition has :: "u16 \<Rightarrow> u16 \<Rightarrow> u16 list \<Rightarrow> bool" where
  "has c l x \<longleftrightarrow> (\<exists>i<length x. has_at c l x i)"

lemma in_set_has: "in_set c x \<longleftrightarrow> has c 0 x"
  by (simp add: in_set_def has_def has_at_def)

lemma has_Nil: "\<not> has c l []"
  by (simp add: has_def)

lemma has_at_Suc: "has_at c l (p # x) (Suc i) \<longleftrightarrow> has_at c p x i"
  by (cases i) (auto simp: has_at_def)

lemma has_Cons: "has c l (p # x) \<longleftrightarrow> has_at c l (p # x) 0 \<or> has c p x"
  unfolding has_def by (auto simp: has_at_Suc less_Suc_eq_0_disj)

text \<open>The code re-reads the upper end of a range as the literal before itself.\<close>

lemma has_reread: "has c q (q # x) \<longleftrightarrow> has c chMINUS (q # x)"
  by (auto simp: has_Cons has_at_def)

lemma set_skip_close:
  "p \<noteq> 0 \<Longrightarrow> p \<noteq> chCLOSE \<Longrightarrow> 0 \<notin> set x \<Longrightarrow> chCLOSE \<notin> set x \<Longrightarrow>
    set_skip p (x @ chCLOSE # r) = Some r"
proof (induction x arbitrary: p)
  case Nil
  have "set_skip 93 r = Some r" by (cases r) (simp_all add: set_eqs)
  then show ?case using Nil by (simp add: set_eqs)
qed (simp add: set_eqs)

lemma set_scan_closed:
  assumes "0 \<notin> set (p # x)" "chCLOSE \<notin> set (p # x)" "last (p # x) \<noteq> chMINUS"
  shows "if has c l (p # x)
    then \<exists>q P. set_scan c l p (x @ chCLOSE # r) = Some (Some (q, P)) \<and> set_skip q P = Some r
    else set_scan c l p (x @ chCLOSE # r) = Some None"
  using assms
proof (induction x arbitrary: l p)
  case Nil
  have "set_scan c p 93 r = Some None" by (cases r) (simp_all add: set_eqs)
  moreover have "set_skip p (93 # r) = Some r" using set_skip_close [of p "[]" r] Nil by simp
  ultimately show ?case using Nil by (auto simp: set_eqs has_Cons has_Nil has_at_def)
next
  case (Cons q x)
  have skq: "set_skip q (q # x @ 93 # r) = Some r"
    using Cons.prems set_skip_close [of q "q # x" r] by simp
  have skp: "set_skip p (q # x @ 93 # r) = Some r"
    using Cons.prems set_skip_close [of p "q # x" r] by simp
  have IH: "if has c l (q # x)
    then \<exists>q' P. set_scan c l q (x @ 93 # r) = Some (Some (q', P)) \<and> set_skip q' P = Some r
    else set_scan c l q (x @ 93 # r) = Some None" for l
    by (rule Cons.IH) (use Cons.prems in auto)
  show ?case
  proof (cases "p = 45")
    case True
    have e: "has c l (p # q # x) \<longleftrightarrow> (l \<le> c \<and> c \<le> q \<or> c = q) \<or> has c q (q # x)"
      using True has_Cons [of c l p "q # x"] has_reread [of c q x] by (simp add: has_at_def)
    show ?thesis
    proof (cases "l \<le> c \<and> c \<le> q \<or> c = q")
      case in_range: True
      then have "set_scan c l p (q # x @ 93 # r) = Some (Some (q, q # x @ 93 # r))"
        using True Cons.prems by (auto simp: set_scan_Cons)
      then show ?thesis using e in_range skq by simp
    next
      case False
      then have "set_scan c l p (q # x @ 93 # r) = set_scan c q q (x @ 93 # r)"
        using True Cons.prems by (auto simp: set_scan_Cons)
      then show ?thesis using e False IH [of q] by simp
    qed
  next
    case False
    have e: "has c l (p # q # x) \<longleftrightarrow> c = p \<or> has c p (q # x)"
      using False by (simp add: has_Cons [of c l p] has_at_def)
    show ?thesis
    proof (cases "c = p")
      case True
      then have "set_scan c l p (q # x @ 93 # r) = Some (Some (p, q # x @ 93 # r))"
        using False Cons.prems by (auto simp: set_scan_Cons)
      then show ?thesis using e True skp by simp
    next
      case ne: False
      then have "set_scan c l p (q # x @ 93 # r) = set_scan c p q (x @ 93 # r)"
        using False Cons.prems by (auto simp: set_scan_Cons)
      then show ?thesis using e ne IH [of p] by simp
    qed
  qed
qed

lemma match_set_closed:
  assumes "tok_wf (Set x)"
  shows "match_set c (x @ chCLOSE # r) = Some (if in_set c x then Some r else None)"
proof (cases x)
  case Nil
  have "set_scan c 0 93 r = Some None" by (cases r) (simp_all add: set_eqs)
  then show ?thesis using Nil by (simp add: match_set_def in_set_has has_Nil)
next
  case (Cons p y)
  then show ?thesis
    using assms set_scan_closed [of p y c 0 r]
    by (auto simp: match_set_def in_set_has split: if_splits)
qed

section \<open>The matcher computes the language\<close>

lemma SctMetaMatch_glob:
  "list_all tok_wf ts \<Longrightarrow> cstr S = Some s \<Longrightarrow>
    SctMetaMatch S (pat_text ts @ 0 # r) = Some (glob ts s)"
proof (induction ts arbitrary: S s)
  case Nil
  then show ?case
    by (cases S) (auto simp: SctMetaMatch.simps pat_text_def glob_Nil cstr_Cons split: if_splits)
next
  case (Cons t ts)
  define P where "P = pat_text ts @ 0 # r"
  have P: "pat_text (t # ts) @ 0 # r = tok_text t @ P" by (simp add: P_def pat_text_def)
  have IH: "\<And>S s. cstr S = Some s \<Longrightarrow> SctMetaMatch S P = Some (glob ts s)"
    using Cons by (simp add: P_def)
  obtain c S' where S: "S = c # S'" using Cons.prems(2) by (cases S) auto
  have cs: "c = 0 \<longleftrightarrow> s = []" using Cons.prems(2) S by (auto simp: cstr_Cons split: if_splits)
  have nxt: "s \<noteq> [] \<Longrightarrow> hd s = c \<and> SctMetaMatch S' P = Some (glob ts (tl s))"
    using Cons.prems(2) S IH by (auto simp: cstr_Cons split: if_splits)
  note mm = SctMetaMatch.simps [of "_ # S'"]
  show ?case
  proof (cases t)
    case Star
    have "cstr S = Some s \<Longrightarrow> meta_star S P = Some (glob (Star # ts) s)" for S s
    proof (induction S arbitrary: s)
      case (Cons d S)
      then have d: "SctMetaMatch (d # S) P = Some (glob ts s)" by (intro IH) simp
      show ?case
      proof (cases "d = 0")
        case True
        then show ?thesis using Cons.prems d by (simp add: meta_star.simps glob_Star_Nil)
      next
        case False
        then obtain u where "s = d # u" "cstr S = Some u" using Cons.prems by auto
        then show ?thesis
          using d False Cons.IH [of u]
          by (cases "glob ts s") (auto simp: meta_star.simps [of "d # S"] glob_Star_Cons)
      qed
    qed simp
    then show ?thesis
      using Star Cons.prems(2) S unfolding P by (simp add: mm)
  next
    case Quest
    then show ?thesis using cs nxt S unfolding P by (auto simp: mm glob_Quest)
  next
    case (Lit p)
    then show ?thesis
      using cs nxt S Cons.prems(1) unfolding P by (auto simp: mm glob_Lit)
  next
    case (Set x)
    then show ?thesis
      using cs nxt S Cons.prems(1) match_set_closed [of x c P]
      unfolding P by (auto simp: mm glob_Set)
  qed
qed

end
