(* ===== verification/Sct_List.thy ===== *)
theory Sct_List
  imports Sct_Prelude
begin

text \<open>
  The doubly linked lists of \<open>SctLib/List.c\<close>, over an explicit heap of list entries. The
  abstraction \<open>dll h List xs\<close> says that the heap holds a circular list with head \<open>List\<close> and
  nodes \<open>xs\<close>; every operation is a function on the list of nodes. The interface is a locale,
  with the traversals of its clients, interpreted on the heap operations.
\<close>

section \<open>The heap and the operations\<close>

record 'p SCT_LIST_ENTRY =
  ForwardLink :: 'p
  BackLink :: 'p

type_synonym 'p heap = "'p \<rightharpoonup> 'p SCT_LIST_ENTRY"

definition fwd :: "'p heap \<Rightarrow> 'p \<Rightarrow> 'p option" where
  "fwd h p = map_option ForwardLink (h p)"

definition bck :: "'p heap \<Rightarrow> 'p \<Rightarrow> 'p option" where
  "bck h p = map_option BackLink (h p)"

text \<open>A write to a field of an entry; \<open>None\<close> when the address holds no entry.\<close>

definition set_fwd :: "'p heap \<Rightarrow> 'p \<Rightarrow> 'p \<Rightarrow> 'p heap option" where
  "set_fwd h p q = (case h p of None \<Rightarrow> None | Some e \<Rightarrow> Some (h(p \<mapsto> e\<lparr>ForwardLink := q\<rparr>)))"

definition set_bck :: "'p heap \<Rightarrow> 'p \<Rightarrow> 'p \<Rightarrow> 'p heap option" where
  "set_bck h p q = (case h p of None \<Rightarrow> None | Some e \<Rightarrow> Some (h(p \<mapsto> e\<lparr>BackLink := q\<rparr>)))"

definition SctInitializeListHead :: "'p heap \<Rightarrow> 'p \<Rightarrow> 'p heap option" where
  "SctInitializeListHead h List =
     do { h \<leftarrow> set_fwd h List List; set_bck h List List }"

definition SctIsListEmpty :: "'p heap \<Rightarrow> 'p \<Rightarrow> bool option" where
  "SctIsListEmpty h List = map_option (\<lambda>p. p = List) (fwd h List)"

text \<open>\<open>Bad\<close> is \<open>EFI_BAD_POINTER\<close> in a debug build, where the removed entry is poisoned.\<close>

definition SctRemoveEntryList :: "'p option \<Rightarrow> 'p heap \<Rightarrow> 'p \<Rightarrow> 'p heap option" where
  "SctRemoveEntryList Bad h Entry =
     do { ForwardLink \<leftarrow> fwd h Entry;
          BackLink \<leftarrow> bck h Entry;
          h \<leftarrow> set_fwd h BackLink ForwardLink;
          h \<leftarrow> set_bck h ForwardLink BackLink;
          (case Bad of
             None \<Rightarrow> Some h
           | Some b \<Rightarrow> do { h \<leftarrow> set_fwd h Entry b; set_bck h Entry b }) }"

definition SctInsertTailList :: "'p heap \<Rightarrow> 'p \<Rightarrow> 'p \<Rightarrow> 'p heap option" where
  "SctInsertTailList h ListHead Entry =
     do { BackLink \<leftarrow> bck h ListHead;
          h \<leftarrow> set_fwd h Entry ListHead;
          h \<leftarrow> set_bck h Entry BackLink;
          h \<leftarrow> set_fwd h BackLink Entry;
          set_bck h ListHead Entry }"

definition SctInsertHeadList :: "'p heap \<Rightarrow> 'p \<Rightarrow> 'p \<Rightarrow> 'p heap option" where
  "SctInsertHeadList h ListHead Entry =
     do { ForwardLink \<leftarrow> fwd h ListHead;
          h \<leftarrow> set_fwd h Entry ForwardLink;
          h \<leftarrow> set_bck h Entry ListHead;
          h \<leftarrow> set_bck h ForwardLink Entry;
          set_fwd h ListHead Entry }"

definition SctSwapListEntries :: "'p heap \<Rightarrow> 'p \<Rightarrow> 'p \<Rightarrow> 'p heap option" where
  "SctSwapListEntries h Entry1 Entry2 =
     do { Entry2ForwardLink \<leftarrow> fwd h Entry2;
          Entry2BackLink \<leftarrow> bck h Entry2;
          Entry1BackLink \<leftarrow> bck h Entry1;
          h \<leftarrow> set_fwd h Entry2BackLink Entry2ForwardLink;
          h \<leftarrow> set_bck h Entry2ForwardLink Entry2BackLink;
          h \<leftarrow> set_fwd h Entry2 Entry1;
          h \<leftarrow> set_bck h Entry2 Entry1BackLink;
          h \<leftarrow> set_fwd h Entry1BackLink Entry2;
          set_bck h Entry1 Entry2 }"

definition SctGetFirstNode :: "'p heap \<Rightarrow> 'p \<Rightarrow> 'p option" where
  "SctGetFirstNode h List = fwd h List"

definition SctGetNextNode :: "'p heap \<Rightarrow> 'p \<Rightarrow> 'p \<Rightarrow> 'p option" where
  "SctGetNextNode h List Node = (if Node = List then Some List else fwd h Node)"

definition SctIsNull :: "'p \<Rightarrow> 'p \<Rightarrow> bool" where
  "SctIsNull List Node \<longleftrightarrow> Node = List"

definition SctIsNodeAtEnd :: "'p heap \<Rightarrow> 'p \<Rightarrow> 'p \<Rightarrow> bool option" where
  "SctIsNodeAtEnd h List Node =
     (if SctIsNull List Node then Some False
      else map_option (\<lambda>p. p = Node) (bck h List))"

lemmas list_ops = SctInitializeListHead_def SctIsListEmpty_def SctRemoveEntryList_def
  SctInsertTailList_def SctInsertHeadList_def SctSwapListEntries_def SctGetFirstNode_def
  SctGetNextNode_def SctIsNull_def SctIsNodeAtEnd_def

section \<open>Writes and the links they leave alone\<close>

definition upd_fwd :: "'p heap \<Rightarrow> 'p \<Rightarrow> 'p \<Rightarrow> 'p heap" where
  "upd_fwd h p q = h(p := map_option (ForwardLink_update (\<lambda>_. q)) (h p))"

definition upd_bck :: "'p heap \<Rightarrow> 'p \<Rightarrow> 'p \<Rightarrow> 'p heap" where
  "upd_bck h p q = h(p := map_option (BackLink_update (\<lambda>_. q)) (h p))"

named_theorems heap_simps \<open>reads of a written heap\<close>

lemma set_fwd_dom [heap_simps]: "p \<in> dom h \<Longrightarrow> set_fwd h p q = Some (upd_fwd h p q)"
  by (auto simp: set_fwd_def upd_fwd_def)

lemma set_bck_dom [heap_simps]: "p \<in> dom h \<Longrightarrow> set_bck h p q = Some (upd_bck h p q)"
  by (auto simp: set_bck_def upd_bck_def)

lemma dom_upd [heap_simps]: "dom (upd_fwd h p q) = dom h" "dom (upd_bck h p q) = dom h"
  by (auto simp: upd_fwd_def upd_bck_def split: if_splits)

lemma upd_eq:
  "upd_fwd h p q x = (if x = p then map_option (ForwardLink_update (\<lambda>_. q)) (h p) else h x)"
  "upd_bck h p q x = (if x = p then map_option (BackLink_update (\<lambda>_. q)) (h p) else h x)"
  by (simp_all add: upd_fwd_def upd_bck_def)

lemma fwd_upd [heap_simps]:
  "p \<in> dom h \<Longrightarrow> fwd (upd_fwd h p q) x = (if x = p then Some q else fwd h x)"
  "fwd (upd_bck h p q) x = fwd h x"
  by (auto simp: fwd_def upd_fwd_def upd_bck_def option.map_comp comp_def)

lemma bck_upd [heap_simps]:
  "p \<in> dom h \<Longrightarrow> bck (upd_bck h p q) x = (if x = p then Some q else bck h x)"
  "bck (upd_fwd h p q) x = bck h x"
  by (auto simp: bck_def upd_fwd_def upd_bck_def option.map_comp comp_def)

definition lnk :: "'p heap \<Rightarrow> 'p \<Rightarrow> 'p \<Rightarrow> bool" where
  "lnk h a b \<longleftrightarrow> fwd h a = Some b \<and> bck h b = Some a"

definition linked :: "'p heap \<Rightarrow> ('p \<times> 'p) list \<Rightarrow> bool" where
  "linked h E \<longleftrightarrow> (\<forall>(a, b)\<in>set E. lnk h a b)"

lemma linked_simps [simp]:
  "linked h []"
  "linked h ((a, b) # E) \<longleftrightarrow> lnk h a b \<and> linked h E"
  "linked h (E @ F) \<longleftrightarrow> linked h E \<and> linked h F"
  by (auto simp: linked_def)

lemma lnk_dom: "lnk h a b \<Longrightarrow> a \<in> dom h \<and> b \<in> dom h"
  by (auto simp: lnk_def fwd_def bck_def)

lemma linked_frame:
  assumes "linked h E"
    and "\<And>a. a \<in> fst ` set E \<Longrightarrow> fwd h' a = fwd h a"
    and "\<And>b. b \<in> snd ` set E \<Longrightarrow> bck h' b = bck h b"
  shows "linked h' E"
  using assms unfolding linked_def lnk_def by (force simp: image_iff)

section \<open>The abstraction\<close>

fun links :: "'p \<Rightarrow> 'p list \<Rightarrow> 'p \<Rightarrow> ('p \<times> 'p) list" where
  "links a [] b = [(a, b)]"
| "links a (x # xs) b = (a, x) # links x xs b"

definition dll :: "'p heap \<Rightarrow> 'p \<Rightarrow> 'p list \<Rightarrow> bool" where
  "dll h List xs \<longleftrightarrow> distinct (List # xs) \<and> linked h (links List xs List)"

lemma links_fst: "map fst (links a xs b) = a # xs"
  by (induction a xs b rule: links.induct) auto

lemma links_snd: "map snd (links a xs b) = xs @ [b]"
  by (induction a xs b rule: links.induct) auto

lemma links_append: "links a (xs @ y # ys) b = links a xs y @ links y ys b"
  by (induction xs arbitrary: a) auto

text \<open>All links but the last do not depend on the end; all but the first not on the start.\<close>

lemma links_front_ex:
  "\<exists>P p. (\<forall>b. links a xs b = P @ [(p, b)]) \<and> map fst P @ [p] = a # xs \<and> map snd P = xs"
proof (induction xs arbitrary: a)
  case Nil
  show ?case by (rule exI [of _ "[]"]) simp
next
  case (Cons x xs)
  then obtain P p where "\<forall>b. links x xs b = P @ [(p, b)]" "map fst P @ [p] = x # xs"
    "map snd P = xs" by metis
  then show ?case by (intro exI [of _ "(a, x) # P"] exI [of _ p]) simp
qed

lemma links_front:
  obtains P p where "\<And>b. links a xs b = P @ [(p, b)]" and "map fst P @ [p] = a # xs"
    and "map snd P = xs"
  using links_front_ex [of a xs] by blast

lemma links_rear:
  obtains Q n where "\<And>a. links a xs b = (a, n) # Q" and "map fst Q = xs"
    and "n # map snd Q = xs @ [b]"
proof (cases xs)
  case Nil
  show thesis by (rule that [of b "[]"]) (use Nil in auto)
next
  case (Cons x ys)
  show thesis
    by (rule that [of x "links x ys b"]) (use Cons links_fst links_snd in auto)
qed

text \<open>The two views of a cyclic list that the operations cut: at its head and at a node.\<close>

lemma dll_head:
  assumes "dll h L xs"
  obtains Q n where "\<And>a. links a xs L = (a, n) # Q" "linked h Q" "lnk h L n"
    "map fst Q = xs" "n # map snd Q = xs @ [L]"
  using assms links_rear [of xs L] unfolding dll_def by (metis linked_simps(2))

lemma dll_tail:
  assumes "dll h L xs"
  obtains P p where "\<And>b. links L xs b = P @ [(p, b)]" "linked h P" "lnk h p L"
    "map fst P @ [p] = L # xs" "map snd P = xs"
  using assms links_front [of L xs] unfolding dll_def by (metis linked_simps(2,3))

lemma dll_split:
  assumes "dll h L (xs @ e # ys)"
  obtains P p n Q where "\<And>b. links L xs b = P @ [(p, b)]" "\<And>a. links a ys L = (a, n) # Q"
    "linked h P" "linked h Q" "lnk h p e" "lnk h e n"
    "map fst P @ [p] = L # xs" "map snd P = xs" "map fst Q = ys" "n # map snd Q = ys @ [L]"
proof -
  obtain P p where P: "\<And>b. links L xs b = P @ [(p, b)]" "map fst P @ [p] = L # xs"
    "map snd P = xs" using links_front [of L xs] by blast
  obtain Q n where Q: "\<And>a. links a ys L = (a, n) # Q" "map fst Q = ys"
    "n # map snd Q = ys @ [L]" using links_rear [of ys L] by blast
  show thesis
    by (rule that [OF P(1) Q(1)]) (use assms P Q in \<open>auto simp: dll_def links_append\<close>)
qed

text \<open>Distinct nodes: every node is the source of one link and the target of one.\<close>

lemma cut_distinct:
  assumes "distinct (L # xs @ e # ys)" "map fst P @ [p] = L # xs" "map snd P = xs"
    "map fst Q = ys" "n # map snd Q = ys @ [L]"
  shows "distinct (map fst P @ p # e # map fst Q)" "distinct (map snd P @ e # n # map snd Q)"
proof -
  have "map fst P @ p # e # map fst Q = (L # xs) @ e # ys" using assms(2,4) by simp
  then show "distinct (map fst P @ p # e # map fst Q)" using assms(1) by simp
  have "map snd P @ e # n # map snd Q = xs @ e # ys @ [L]" using assms(3,5) by simp
  then show "distinct (map snd P @ e # n # map snd Q)" using assms(1) by auto
qed

section \<open>The operations on lists\<close>

lemma SctInitializeListHead_dll:
  assumes "L \<in> dom h"
  shows "\<exists>h'. SctInitializeListHead h L = Some h' \<and> dll h' L [] \<and> dom h' = dom h \<and>
    (\<forall>q. q \<noteq> L \<longrightarrow> h' q = h q)"
  using assms by (simp add: list_ops heap_simps dll_def lnk_def) (simp add: upd_eq)

lemma dll_fwd: "dll h L xs \<Longrightarrow> fwd h L = Some (hd (xs @ [L]))"
  by (erule dll_head) (auto simp: lnk_def, metis list.sel(1))

lemma dll_bck: "dll h L xs \<Longrightarrow> bck h L = Some (last (L # xs))"
proof -
  assume "dll h L xs"
  then obtain P p where "\<And>b. links L xs b = P @ [(p, b)]" "linked h P"
    and p: "lnk h p L" "map fst P @ [p] = L # xs" and "map snd P = xs"
    by (rule dll_tail) blast
  then have "last (L # xs) = p" by (metis last_snoc)
  then show ?thesis using p(1) by (simp add: lnk_def)
qed

lemma dll_fwd_node: "dll h L (xs @ x # ys) \<Longrightarrow> fwd h x = Some (hd (ys @ [L]))"
  by (erule dll_split) (metis list.sel(1) lnk_def)

text \<open>A node that is moved in front of another one has changed places with it only when nothing is
  between them.\<close>

lemma dll_swapped:
  assumes "dll h L (xs @ b # a # ys @ zs)"
  shows "dll h L (xs @ b # ys @ a # zs) \<longleftrightarrow> ys = []"
proof
  assume "dll h L (xs @ b # ys @ a # zs)"
  from dll_fwd_node [OF this] dll_fwd_node [OF assms] have "hd ((ys @ a # zs) @ [L]) = a" by simp
  then show "ys = []" using assms by (cases ys) (auto simp: dll_def)
qed (use assms in simp)

lemma dll_dom: "dll h L xs \<Longrightarrow> insert L (set xs) \<subseteq> dom h"
proof -
  assume d: "dll h L xs"
  have "fst ` set (links L xs L) \<subseteq> dom h"
    using d lnk_dom unfolding dll_def linked_def by fastforce
  then show ?thesis by (metis links_fst list.set_map list.simps(15))
qed

lemma SctIsListEmpty_dll: "dll h L xs \<Longrightarrow> SctIsListEmpty h L = Some (xs = [])"
  using dll_fwd [of h L xs] by (cases xs) (auto simp: list_ops dll_def)

lemma SctIsNodeAtEnd_dll:
  "dll h L xs \<Longrightarrow> SctIsNodeAtEnd h L p = Some (xs \<noteq> [] \<and> p = last xs)"
  using dll_bck [of h L xs] by (auto simp: list_ops dll_def)

lemma SctInsertTailList_dll:
  assumes d: "dll h L xs" and e: "e \<in> dom h" "e \<notin> insert L (set xs)"
  shows "\<exists>h'. SctInsertTailList h L e = Some h' \<and> dll h' L (xs @ [e]) \<and> dom h' = dom h \<and>
    (\<forall>q. q \<notin> insert e (insert L (set xs)) \<longrightarrow> h' q = h q)"
proof -
  obtain P p where P: "\<And>b. links L xs b = P @ [(p, b)]" "linked h P" "lnk h p L"
    "map fst P @ [p] = L # xs" "map snd P = xs" using d by (rule dll_tail) blast
  have dist: "distinct (map fst P @ [p])" "distinct (map snd P)" and L: "L \<notin> set (map snd P)"
    using d P(4,5) by (simp_all add: dll_def)
  have pin: "p \<in> set (L # xs)" using P(4) by (metis in_set_conv_decomp)
  have dom: "p \<in> dom h" "L \<in> dom h" using lnk_dom [OF P(3)] by auto
  have "insert p (fst ` set P) = insert L (set xs)" "snd ` set P = set xs"
    using arg_cong [OF P(4), of set] arg_cong [OF P(5), of set] by simp_all
  then have sP: "fst ` set P \<subseteq> insert L (set xs)" "snd ` set P = set xs" by auto
  have ne: "e \<notin> fst ` set P" "e \<notin> snd ` set P" "p \<noteq> e"
    using e(2) pin sP by auto
  define h' where "h' = upd_bck (upd_fwd (upd_bck (upd_fwd h e L) e p) p e) L e"
  have run: "SctInsertTailList h L e = Some h'"
    using P(3) e(1) dom by (simp add: list_ops lnk_def heap_simps h'_def)
  have "linked h' P"
    by (rule linked_frame [OF P(2)])
      (use dist L ne e dom in \<open>auto simp: h'_def heap_simps\<close>)
  moreover have "lnk h' p e" "lnk h' e L"
    using ne e dom by (auto simp: h'_def heap_simps lnk_def)
  ultimately have "dll h' L (xs @ [e])"
    using d e(2) by (auto simp: dll_def links_append P(1))
  moreover have "dom h' = dom h" by (simp add: h'_def heap_simps)
  moreover have "\<forall>q. q \<notin> insert e (insert L (set xs)) \<longrightarrow> h' q = h q"
    using pin by (auto simp: h'_def upd_eq)
  ultimately show ?thesis using run by blast
qed

lemma SctInsertHeadList_dll:
  assumes d: "dll h L xs" and e: "e \<in> dom h" "e \<notin> insert L (set xs)"
  shows "\<exists>h'. SctInsertHeadList h L e = Some h' \<and> dll h' L (e # xs) \<and> dom h' = dom h \<and>
    (\<forall>q. q \<notin> insert e (insert L (set xs)) \<longrightarrow> h' q = h q)"
proof -
  obtain Q n where Q: "\<And>a. links a xs L = (a, n) # Q" "linked h Q" "lnk h L n"
    "map fst Q = xs" "n # map snd Q = xs @ [L]" using d by (rule dll_head) blast
  have "distinct (n # map snd Q)" "L \<notin> set (map fst Q)" using d Q(4,5) by (simp_all add: dll_def)
  then have dist: "n \<notin> snd ` set Q" "L \<notin> fst ` set Q" by auto
  have nin: "n \<in> insert L (set xs)" using Q(5) by (cases xs) auto
  have dom: "n \<in> dom h" "L \<in> dom h" using lnk_dom [OF Q(3)] by auto
  have "set (n # map snd Q) = insert L (set xs)" using Q(5) by simp
  then have ne: "e \<notin> fst ` set Q" "e \<notin> snd ` set Q" "n \<noteq> e" "L \<noteq> e"
    using e(2) Q(4) by (auto simp: set_map [symmetric] simp del: set_map)
  define h' where "h' = upd_fwd (upd_bck (upd_bck (upd_fwd h e n) e L) n e) L e"
  have run: "SctInsertHeadList h L e = Some h'"
    using Q(3) e(1) dom by (simp add: list_ops lnk_def heap_simps h'_def)
  have "linked h' Q"
    by (rule linked_frame [OF Q(2)])
      (use dist ne e dom in \<open>auto simp: h'_def heap_simps\<close>)
  moreover have "lnk h' L e" "lnk h' e n"
    using ne e dom by (auto simp: h'_def heap_simps lnk_def)
  ultimately have "dll h' L (e # xs)"
    using d e(2) by (auto simp: dll_def Q(1))
  moreover have "dom h' = dom h" by (simp add: h'_def heap_simps)
  moreover have "\<forall>q. q \<notin> insert e (insert L (set xs)) \<longrightarrow> h' q = h q"
    using nin by (auto simp: h'_def upd_eq)
  ultimately show ?thesis using run by blast
qed

lemma SctRemoveEntryList_dll:
  assumes d: "dll h L (xs @ e # ys)"
  shows "\<exists>h'. SctRemoveEntryList Bad h e = Some h' \<and> dll h' L (xs @ ys) \<and> dom h' = dom h \<and>
    (\<forall>q. q \<notin> insert L (set (xs @ e # ys)) \<longrightarrow> h' q = h q)"
proof -
  obtain P p n Q where P: "\<And>b. links L xs b = P @ [(p, b)]" "linked h P" "lnk h p e"
      "map fst P @ [p] = L # xs" "map snd P = xs"
    and Q: "\<And>a. links a ys L = (a, n) # Q" "linked h Q" "lnk h e n"
      "map fst Q = ys" "n # map snd Q = ys @ [L]"
    using d by (rule dll_split) blast
  have dl: "distinct (L # xs @ e # ys)" using d by (simp add: dll_def)
  note cut = cut_distinct [OF dl P(4,5) Q(4,5)]
  have dist: "p \<notin> fst ` set (P @ Q)" "e \<notin> fst ` set (P @ Q)" "n \<notin> snd ` set (P @ Q)"
    "e \<notin> snd ` set (P @ Q)" "p \<noteq> e" "n \<noteq> e"
    using cut by auto
  have pin: "p \<in> set (L # xs)" using P(4) by (metis in_set_conv_decomp)
  have nin: "n \<in> insert L (set ys)" using Q(5) by (cases ys) auto
  have dom: "p \<in> dom h" "n \<in> dom h" "e \<in> dom h" using lnk_dom P(3) Q(3) by metis+
  define h1 where "h1 = upd_bck (upd_fwd h p n) n p"
  define h' where "h' = (case Bad of None \<Rightarrow> h1 | Some b \<Rightarrow> upd_bck (upd_fwd h1 e b) e b)"
  have run: "SctRemoveEntryList Bad h e = Some h'"
    using P(3) Q(3) dom
    by (cases Bad) (simp_all add: list_ops lnk_def heap_simps h'_def h1_def)
  have "linked h' (P @ Q)"
    by (rule linked_frame [of h])
      (use P(2) Q(2) dist dom in \<open>auto simp: h'_def h1_def heap_simps split: option.splits\<close>)
  moreover have "lnk h' p n"
    using dist dom by (auto simp: h'_def h1_def heap_simps lnk_def split: option.splits)
  ultimately have lk: "linked h' (P @ (p, n) # Q)" by simp
  have "links L (xs @ ys) L = P @ (p, n) # Q"
    using P(1) Q(1) by (cases ys) (auto simp: links_append)
  then have "dll h' L (xs @ ys)" using dl lk by (simp add: dll_def)
  moreover have "dom h' = dom h" by (simp add: h'_def h1_def heap_simps split: option.splits)
  moreover have "\<forall>q. q \<notin> insert L (set (xs @ e # ys)) \<longrightarrow> h' q = h q"
    using pin nin by (auto simp: h'_def h1_def upd_eq split: option.splits)
  ultimately show ?thesis using run by blast
qed

text \<open>The entries may be adjacent or apart, but \<open>Entry1\<close> must come first; in the list
  \<open>Entry2\<close> is then moved in front of \<open>Entry1\<close>, which keeps its place.\<close>

lemma SctSwapListEntries_dll:
  assumes d: "dll h L (xs @ a # ys @ b # zs)"
  shows "\<exists>h'. SctSwapListEntries h a b = Some h' \<and> dll h' L (xs @ b # a # ys @ zs) \<and>
    dom h' = dom h \<and> (\<forall>q. q \<notin> insert L (set (xs @ a # ys @ b # zs)) \<longrightarrow> h' q = h q)"
proof -
  obtain P p where P: "\<And>b. links L xs b = P @ [(p, b)]" "map fst P @ [p] = L # xs"
    "map snd P = xs" using links_front [of L xs] by blast
  obtain M m where M: "\<And>b. links a ys b = M @ [(m, b)]" "map fst M @ [m] = a # ys"
    "map snd M = ys" using links_front [of a ys] by blast
  obtain Q n where Q: "\<And>a. links a zs L = (a, n) # Q" "map fst Q = zs"
    "n # map snd Q = zs @ [L]" using links_rear [of zs L] by blast
  have lk: "linked h P" "linked h M" "linked h Q" "lnk h p a" "lnk h m b" "lnk h b n"
    using d by (simp_all add: dll_def links_append P(1) M(1) Q(1))
  have dl: "distinct (L # xs @ a # ys @ b # zs)" using d by (simp add: dll_def)
  have "(L # xs) @ (a # ys) @ b # zs = (map fst P @ [p]) @ (map fst M @ [m]) @ b # map fst Q"
    using P(2) M(2) Q(2) by simp
  then have "distinct ((map fst P @ [p]) @ (map fst M @ [m]) @ b # map fst Q)" using dl by simp
  then have f: "{p, m, b} \<inter> fst ` set (P @ M @ Q) = {}" "p \<noteq> m" "p \<noteq> b" "m \<noteq> b" by auto
  have "xs @ a # ys @ b # zs @ [L] = map snd P @ a # map snd M @ b # n # map snd Q"
    using P(3) M(3) Q(3) by simp
  moreover have "distinct (xs @ a # ys @ b # zs @ [L])" using dl by auto
  ultimately have "distinct (map snd P @ a # map snd M @ b # n # map snd Q)" by metis
  then have s: "{a, b, n} \<inter> snd ` set (P @ M @ Q) = {}" "a \<noteq> b" "a \<noteq> n" "b \<noteq> n" by auto
  have pin: "p \<in> set (L # xs)" using P(2) by (metis in_set_conv_decomp)
  have min: "m \<in> set (a # ys)" using M(2) by (metis in_set_conv_decomp)
  have nin: "n \<in> insert L (set zs)" using Q(3) by (cases zs) auto
  have dom: "p \<in> dom h" "a \<in> dom h" "m \<in> dom h" "b \<in> dom h" "n \<in> dom h"
    using lnk_dom lk(4,5,6) by metis+
  define h' where "h' = upd_bck (upd_fwd (upd_bck (upd_fwd (upd_bck (upd_fwd h m n) n m) b a) b p) p b) a b"
  have run: "SctSwapListEntries h a b = Some h'"
    using lk(4-6) dom by (simp add: list_ops lnk_def heap_simps h'_def)
  have "linked h' (P @ M @ Q)"
    by (rule linked_frame [of h]) (use lk(1-3) f s dom in \<open>auto simp: h'_def heap_simps\<close>)
  moreover have "lnk h' p b" "lnk h' b a" "lnk h' m n"
    using f s dom by (auto simp: h'_def heap_simps lnk_def)
  moreover have "links L (xs @ b # a # ys @ zs) L = P @ (p, b) # (b, a) # M @ (m, n) # Q"
    using P(1) M(1) Q(1) by (cases zs) (auto simp: links_append)
  ultimately have "dll h' L (xs @ b # a # ys @ zs)" using dl by (auto simp: dll_def)
  moreover have "dom h' = dom h" by (simp add: h'_def heap_simps)
  moreover have "\<forall>q. q \<notin> insert L (set (xs @ a # ys @ b # zs)) \<longrightarrow> h' q = h q"
    using pin min nin by (auto simp: h'_def upd_eq)
  ultimately show ?thesis using run by blast
qed

section \<open>The interface\<close>

text \<open>
  The traversals the users of the lists write, over the operations as parameters: collecting
  the nodes by \<open>GetFirst\<close>/\<open>GetNext\<close>, searching for a node, and emptying a list from the front.
  Fuel bounds the number of steps.
\<close>

fun walk :: "('h \<Rightarrow> 'p \<Rightarrow> 'p \<Rightarrow> 'p option) \<Rightarrow> ('p \<Rightarrow> 'p \<Rightarrow> bool) \<Rightarrow> nat \<Rightarrow> 'h \<Rightarrow> 'p \<Rightarrow> 'p \<Rightarrow> 'p list option" where
  "walk nxt isnull 0 h L Node = None"
| "walk nxt isnull (Suc n) h L Node =
     (if isnull L Node then Some []
      else do { Next \<leftarrow> nxt h L Node; map_option ((#) Node) (walk nxt isnull n h L Next) })"

definition walk_all where
  "walk_all first nxt isnull n h L = do { Node \<leftarrow> first h L; walk nxt isnull n h L Node }"

fun drain :: "('h \<Rightarrow> 'p \<Rightarrow> bool option) \<Rightarrow> ('h \<Rightarrow> 'p \<Rightarrow> 'p option) \<Rightarrow> ('h \<Rightarrow> 'p \<Rightarrow> 'h option) \<Rightarrow> nat \<Rightarrow> 'h \<Rightarrow> 'p \<Rightarrow> ('p list \<times> 'h) option" where
  "drain isempty first remove 0 h L = None"
| "drain isempty first remove (Suc n) h L =
     do { e \<leftarrow> isempty h L;
          if e then Some ([], h)
          else do { Node \<leftarrow> first h L;
                    h \<leftarrow> remove h Node;
                    (ps, h) \<leftarrow> drain isempty first remove n h L;
                    Some (Node # ps, h) } }"

locale linked_list =
  fixes repr :: "'h \<Rightarrow> 'p \<Rightarrow> 'p list \<Rightarrow> bool"
    and isempty :: "'h \<Rightarrow> 'p \<Rightarrow> bool option"
    and first :: "'h \<Rightarrow> 'p \<Rightarrow> 'p option"
    and nxt :: "'h \<Rightarrow> 'p \<Rightarrow> 'p \<Rightarrow> 'p option"
    and isnull :: "'p \<Rightarrow> 'p \<Rightarrow> bool"
    and remove :: "'h \<Rightarrow> 'p \<Rightarrow> 'h option"
  assumes repr_head: "repr h L xs \<Longrightarrow> L \<notin> set xs"
    and empty_law: "repr h L xs \<Longrightarrow> isempty h L = Some (xs = [])"
    and first_law: "repr h L xs \<Longrightarrow> first h L = Some (hd (xs @ [L]))"
    and next_law: "repr h L (xs @ x # ys) \<Longrightarrow> nxt h L x = Some (hd (ys @ [L]))"
    and isnull_law: "isnull L x \<longleftrightarrow> x = L"
    and remove_law: "repr h L (xs @ x # ys) \<Longrightarrow> \<exists>h'. remove h x = Some h' \<and> repr h' L (xs @ ys)"
begin

lemma walk_suffix:
  "repr h L (xs @ ys) \<Longrightarrow> length ys < n \<Longrightarrow> walk nxt isnull n h L (hd (ys @ [L])) = Some ys"
proof (induction ys arbitrary: xs n)
  case Nil
  then show ?case by (cases n) (simp_all add: isnull_law)
next
  case (Cons y ys)
  obtain k where n: "n = Suc k" using Cons.prems by (cases n) auto
  have "y \<noteq> L" using repr_head [OF Cons.prems(1)] by auto
  moreover have "walk nxt isnull k h L (hd (ys @ [L])) = Some ys"
    using Cons.IH [of "xs @ [y]" k] Cons.prems n by simp
  ultimately show ?case
    using n next_law [OF Cons.prems(1)] by (simp add: isnull_law [of L y])
qed

lemma walk_repr:
  "repr h L xs \<Longrightarrow> length xs < n \<Longrightarrow> walk_all first nxt isnull n h L = Some xs"
  using walk_suffix [of h L "[]" xs n] by (simp add: walk_all_def first_law)

lemma drain_repr:
  "repr h L xs \<Longrightarrow> length xs < n \<Longrightarrow>
    \<exists>h'. drain isempty first remove n h L = Some (xs, h') \<and> repr h' L []"
proof (induction xs arbitrary: h n)
  case Nil
  then show ?case by (cases n) (simp_all add: empty_law)
next
  case (Cons x xs)
  obtain k where n: "n = Suc k" using Cons.prems by (cases n) auto
  obtain h1 where h1: "remove h x = Some h1" "repr h1 L xs"
    using remove_law [of h L "[]" x xs] Cons.prems by auto
  then obtain h' where "drain isempty first remove k h1 L = Some (xs, h')" "repr h' L []"
    using Cons.IH [of h1 k] Cons.prems n by auto
  then show ?case using h1 n Cons.prems by (simp add: empty_law first_law)
qed

end

text \<open>The insertions as a second interface, over the first: what was inserted is walked.\<close>

locale linked_list_ins = linked_list repr isempty first nxt isnull remove
  for repr :: "'h \<Rightarrow> 'p \<Rightarrow> 'p list \<Rightarrow> bool" and isempty first nxt isnull remove +
  fixes free :: "'h \<Rightarrow> 'p \<Rightarrow> bool"
    and ins :: "'h \<Rightarrow> 'p \<Rightarrow> 'p \<Rightarrow> 'h option"
  assumes ins_law: "repr h L xs \<Longrightarrow> free h e \<Longrightarrow> e \<notin> insert L (set xs) \<Longrightarrow>
      \<exists>h'. ins h L e = Some h' \<and> repr h' L (xs @ [e]) \<and> (\<forall>q. free h q \<longrightarrow> free h' q)"
begin

text \<open>Inserting a sequence of entries at the tail appends them in order.\<close>

lemma ins_many:
  "repr h L xs \<Longrightarrow> distinct (L # xs @ es) \<Longrightarrow> \<forall>e\<in>set es. free h e \<Longrightarrow>
    \<exists>h'. fold (\<lambda>e h. Option.bind h (\<lambda>h. ins h L e)) es (Some h) = Some h' \<and> repr h' L (xs @ es)"
proof (induction es arbitrary: h xs)
  case Nil
  then show ?case by simp
next
  case (Cons e es)
  obtain h1 where h1: "ins h L e = Some h1" "repr h1 L (xs @ [e])" "\<forall>q. free h q \<longrightarrow> free h1 q"
    using ins_law [of h L xs e] Cons.prems by auto
  then show ?case using Cons.IH [of h1 "xs @ [e]"] Cons.prems by auto
qed

end

interpretation sct_list: linked_list dll SctIsListEmpty SctGetFirstNode SctGetNextNode SctIsNull
    "SctRemoveEntryList Bad" for Bad :: "'p option"
proof unfold_locales
  fix h :: "'p heap" and L x :: 'p and xs ys :: "'p list"
  show "dll h L xs \<Longrightarrow> L \<notin> set xs" by (simp add: dll_def)
  show "dll h L xs \<Longrightarrow> SctIsListEmpty h L = Some (xs = [])" by (rule SctIsListEmpty_dll)
  show "dll h L xs \<Longrightarrow> SctGetFirstNode h L = Some (hd (xs @ [L]))"
    by (simp add: SctGetFirstNode_def dll_fwd)
  show "dll h L (xs @ x # ys) \<Longrightarrow> SctGetNextNode h L x = Some (hd (ys @ [L]))"
    using dll_fwd_node [of h L xs x ys] by (auto simp: SctGetNextNode_def dll_def)
  show "SctIsNull L x \<longleftrightarrow> x = L" by (simp add: SctIsNull_def)
  show "dll h L (xs @ x # ys) \<Longrightarrow> \<exists>h'. SctRemoveEntryList Bad h x = Some h' \<and> dll h' L (xs @ ys)"
    using SctRemoveEntryList_dll [of h L xs x ys Bad] by blast
qed

interpretation sct_list_ins: linked_list_ins dll SctIsListEmpty SctGetFirstNode SctGetNextNode
    SctIsNull "SctRemoveEntryList Bad" "\<lambda>h e. e \<in> dom h" SctInsertTailList for Bad :: "'p option"
proof unfold_locales
  fix h :: "'p heap" and L e :: 'p and xs :: "'p list"
  assume "dll h L xs" "e \<in> dom h" "e \<notin> insert L (set xs)"
  then show "\<exists>h'. SctInsertTailList h L e = Some h' \<and> dll h' L (xs @ [e]) \<and>
      (\<forall>q. q \<in> dom h \<longrightarrow> q \<in> dom h')"
    using SctInsertTailList_dll [of h L xs e] by metis
qed

end
