(* ===== verification/Ini_File.thy ===== *)
theory Ini_File
  imports Sct_String
begin

text \<open>
  The data of the test profile library
  (\<open>TestInfrastructure/SCT/Drivers/TestProfile/TestProfile.c\<close> and \<open>.h\<close>) and its string
  helpers: the records of an INI file, \<open>_alltrim\<close>, and the case-insensitive comparison of
  names. The fields of a record are blocks of 101 bytes, a comment is a block of 512.

  The chain of records from \<open>Head\<close> through \<open>ptrNext\<close> is a list of addressed records; \<open>Tail\<close>
  is the address the code keeps of the last one, so that the statements which compare or
  follow \<open>Tail\<close> are modelled and its agreement with the chain is an invariant to prove.
\<close>

section \<open>The records\<close>

definition MAX_STRING_LEN :: nat where "MAX_STRING_LEN = 100"
definition MAX_LINE_LEN :: nat where "MAX_LINE_LEN = 512"

record INI =
  commentNo :: u32
  ptrSection :: "u8 list"
  ptrEntry :: "u8 list"
  ptrValue :: "u8 list"

record COMMENTLINE =
  cmtNo :: u32
  ptrComment :: "u8 list"

type_synonym item = "nat \<times> INI"

record 'd EFI_INI_FILE =
  DevPath :: "'d option"
  FileName :: "u16 list option"
  Items :: "item list"
  Tail :: "nat option"
  CommentLines :: "COMMENTLINE list"
  isUnicode :: bool
  Modified :: bool

definition initFile :: "'d EFI_INI_FILE" where
  "initFile = \<lparr>DevPath = None, FileName = None, Items = [], Tail = None, CommentLines = [],
     isUnicode = False, Modified = False\<rparr>"

text \<open>\<open>_freePointer\<close>: the records and comments freed, in order, and the file left behind.\<close>

fun freeItems :: "item list \<Rightarrow> nat list" where
  "freeItems [] = []"
| "freeItems ((a, it) # its) = a # freeItems its"

fun freeComments :: "COMMENTLINE list \<Rightarrow> COMMENTLINE list" where
  "freeComments [] = []"
| "freeComments (c # cs) = c # freeComments cs"

definition freePointer :: "'d EFI_INI_FILE \<Rightarrow> nat list \<times> COMMENTLINE list \<times> 'd EFI_INI_FILE" where
  "freePointer IniFile =
     (freeItems (Items IniFile), freeComments (CommentLines IniFile),
      IniFile\<lparr>Items := [], Tail := None, CommentLines := []\<rparr>)"

text \<open>The uninitialised arrays on the stack, by the name of the variable.\<close>

datatype local_var = L_ptrSection | L_ptrEntry | L_ptrString | L_ptrValue
  | L_tmpSection | L_tmpEntry | L_tmpString

type_synonym stack = "local_var \<Rightarrow> u8 list"

definition stack_ok :: "stack \<Rightarrow> bool" where
  "stack_ok Stk \<longleftrightarrow>
     list_all (\<lambda>v. length (Stk v) = MAX_STRING_LEN + 1)
       [L_ptrSection, L_ptrEntry, L_ptrString, L_ptrValue, L_tmpSection, L_tmpEntry, L_tmpString]"

lemma stack_ok_length: "stack_ok Stk \<Longrightarrow> length (Stk v) = 101"
  by (cases v) (simp_all add: stack_ok_def MAX_STRING_LEN_def)

section \<open>_alltrim\<close>

abbreviation (input) chSPACE :: u8 where "chSPACE \<equiv> 32"
abbreviation (input) chLF :: u8 where "chLF \<equiv> 10"
abbreviation (input) chCR :: u8 where "chCR \<equiv> 13"

function alltrim_lead :: "u8 list \<Rightarrow> nat \<Rightarrow> nat option" where
  "alltrim_lead ptrStr tmp =
     (case rd ptrStr tmp of
        None \<Rightarrow> None
      | Some x \<Rightarrow> if x = chSPACE then alltrim_lead ptrStr (Suc tmp) else Some tmp)"
  by pat_completeness auto
termination
  by (relation "measure (\<lambda>(b, p). length b - p)") (auto simp: rd_def split: if_splits)

declare alltrim_lead.simps [simp del]

fun alltrim_tail :: "u8 list \<Rightarrow> nat \<Rightarrow> nat \<Rightarrow> nat option" where
  "alltrim_tail ptrStr tmp 0 = Some 0"
| "alltrim_tail ptrStr tmp (Suc k) =
     (case rd ptrStr (tmp + k) of
        None \<Rightarrow> None
      | Some x \<Rightarrow>
          if x \<noteq> chLF \<and> x \<noteq> chSPACE \<and> x \<noteq> chCR then Some (Suc k)
          else alltrim_tail ptrStr tmp k)"

function alltrim_copy :: "u8 list \<Rightarrow> nat \<Rightarrow> nat \<Rightarrow> nat \<Rightarrow> u8 list option" where
  "alltrim_copy ptrStr tmp Index FinalLength =
     (if Index \<le> FinalLength
      then do { x \<leftarrow> rd ptrStr (tmp + Index);
                ptrStr \<leftarrow> wr ptrStr Index x;
                alltrim_copy ptrStr tmp (Suc Index) FinalLength }
      else Some ptrStr)"
  by pat_completeness auto
termination
  by (relation "measure (\<lambda>(b, t, i, n). Suc n - i)") auto

declare alltrim_copy.simps [simp del]

text \<open>\<open>Length\<close> is cut to 32 bits.\<close>

definition alltrim :: "u8 list \<Rightarrow> u8 list option" where
  "alltrim ptrStr = do {
     tmp \<leftarrow> alltrim_lead ptrStr 0;
     len \<leftarrow> SctAsciiStrLen (drop tmp ptrStr);
     Index \<leftarrow> alltrim_tail ptrStr tmp (len mod 2 ^ 32);
     ptrStr \<leftarrow> wr ptrStr (tmp + Index) 0;
     alltrim_copy ptrStr tmp 0 Index }"

text \<open>What it computes: the string without leading spaces and trailing blanks.\<close>

definition trim :: "u8 list \<Rightarrow> u8 list" where
  "trim s = trimmed (\<lambda>c. c = chSPACE) (\<lambda>c. c \<in> {chLF, chSPACE, chCR}) s"

lemma trim_nz: "0 \<notin> set s \<Longrightarrow> 0 \<notin> set (trim s)"
  by (simp add: trim_def trimmed_nz)

lemma length_trim: "length (trim s) \<le> length s"
  by (simp add: trim_def length_trimmed)

lemma trim_idem [simp]: "trim (trim s) = trim s"
  by (simp add: trim_def trimmed_idem)

lemma trim_Nil [simp]: "trim [] = []"
  by (simp add: trim_def trimmed_def)

lemma alltrim_lead_spec:
  "cstr (drop p b) = Some u \<Longrightarrow>
    alltrim_lead b p = Some (p + length (takeWhile (\<lambda>c. c = chSPACE) u))"
proof (induction b p arbitrary: u rule: alltrim_lead.induct)
  case (1 b p)
  have pl: "p < length b" using cstr_length [OF "1.prems"] by simp
  then have d: "drop p b = b ! p # drop (Suc p) b" by (simp add: Cons_nth_drop_Suc)
  show ?case
  proof (cases "b ! p = chSPACE")
    case True
    then obtain v where v: "u = chSPACE # v" "cstr (drop (Suc p) b) = Some v"
      using "1.prems" d by auto
    then show ?thesis
      using "1.IH" [OF _ True, of v] pl True by (subst alltrim_lead.simps) (simp add: rd_in)
  next
    case False
    then have "u = [] \<or> hd u \<noteq> chSPACE" using "1.prems" d by (auto simp: cstr_Cons split: if_splits)
    then show ?thesis using pl False by (subst alltrim_lead.simps) (cases u; auto simp: rd_in)
  qed
qed

lemma alltrim_tail_spec:
  "cstr (drop t b) = Some u \<Longrightarrow> k \<le> length u \<Longrightarrow>
    alltrim_tail b t k = Some (length (dropWhile (\<lambda>c. c \<in> {chLF, chSPACE, chCR}) (rev (take k u))))"
proof (induction k)
  case (Suc k)
  have "rd (drop t b) k = Some (u ! k)" using cstr_rd_lt [OF Suc.prems(1)] Suc.prems(2) by simp
  then have x: "rd b (t + k) = Some (u ! k)" by (auto simp: rd_def split: if_splits)
  have "take (Suc k) u = take k u @ [u ! k]" using Suc.prems(2) by (simp add: take_Suc_conv_app_nth)
  then show ?case using Suc x by auto
qed simp

lemma alltrim_copy_spec:
  assumes "t + n < length b" and "i \<le> Suc n"
  shows "alltrim_copy (take i (drop t b) @ drop i b) t i n =
    Some (take (Suc n) (drop t b) @ drop (Suc n) b)"
  using assms
proof (induction "Suc n - i" arbitrary: i)
  case 0
  then show ?case by (subst alltrim_copy.simps) (simp add: le_antisym)
next
  case (Suc d)
  then have i: "i \<le> n" by simp
  let ?b = "take i (drop t b) @ drop i b"
  have len: "length (take i (drop t b)) = i" using i Suc.prems by simp
  have r: "rd ?b (t + i) = Some (b ! (t + i))"
    using i Suc.prems len by (simp add: rd_def nth_append add.commute)
  have "drop i b = b ! i # drop (Suc i) b" using i Suc.prems by (simp add: Cons_nth_drop_Suc)
  then have "wr ?b i (b ! (t + i)) = Some (take i (drop t b) @ b ! (t + i) # drop (Suc i) b)"
    using len list_update_append_at [of "take i (drop t b)" "b ! i" "drop (Suc i) b"]
    by (simp add: wr_def)
  moreover have "take (Suc i) (drop t b) = take i (drop t b) @ [b ! (t + i)]"
    using i Suc.prems by (simp add: take_Suc_conv_app_nth)
  ultimately have w: "wr ?b i (b ! (t + i)) = Some (take (Suc i) (drop t b) @ drop (Suc i) b)"
    by simp
  show ?case
    using Suc.hyps(1) [of "Suc i"] Suc.hyps(2) Suc.prems i r w
    by (subst alltrim_copy.simps) simp
qed

lemma alltrim_spec:
  assumes b: "cstr b = Some s" and len: "length b \<le> 2 ^ 32"
  shows "\<exists>b'. alltrim b = Some b' \<and> length b' = length b \<and> cstr b' = Some (trim s) \<and>
    drop (Suc (length s)) b' = drop (Suc (length s)) b"
proof -
  define i where "i = length (takeWhile (\<lambda>c. c = chSPACE) s)"
  define u where "u = dropWhile (\<lambda>c. c = chSPACE) s"
  have u: "u = drop i s" unfolding u_def i_def by (rule dropWhile_eq_drop)
  have il: "i \<le> length s" unfolding i_def by (rule length_takeWhile_le)
  have sb: "length s < length b" using cstr_length [OF b] .
  have cu: "cstr (drop i b) = Some u" using cstr_drop [OF b il] u by simp
  define k where "k = length (trim s)"
  have w: "trim s = take k u"
    unfolding k_def trim_def trimmed_def u_def [symmetric] length_rev by (rule rev_dropWhile_take)
  have ku: "k \<le> length u"
    unfolding k_def trim_def trimmed_def u_def [symmetric]
    by (metis length_dropWhile_le length_rev)
  have lead: "alltrim_lead b 0 = Some i" using alltrim_lead_spec [of 0 b s] b by (simp add: i_def)
  have "length u mod 2 ^ 32 = length u" using sb len u by simp
  then have tail: "alltrim_tail b i (length u mod 2 ^ 32) = Some k"
    using alltrim_tail_spec [OF cu order_refl]
    by (simp add: k_def trim_def trimmed_def u_def [symmetric])
  have ik: "i + k \<le> length s" using ku u il by simp
  define b1 where "b1 = b[i + k := 0]"
  have l1: "length b1 = length b" by (simp add: b1_def)
  have w1: "wr b (i + k) 0 = Some b1" using ik sb by (simp add: wr_in b1_def)
  have run: "alltrim b = Some (take (Suc k) (drop i b1) @ drop (Suc k) b1)"
    using alltrim_copy_spec [of i k b1 0] ik sb l1 lead tail cu w1
    by (simp add: alltrim_def SctAsciiStrLen_cstr)
  obtain r where r: "b = s @ 0 # r" "0 \<notin> set s" using b by (rule cstrE)
  have "take k (drop i b1) = take k (drop i b)"
    using ik sb by (intro nth_equalityI) (simp_all add: b1_def)
  also have "\<dots> = take k u" using r u ku by simp
  finally have tk: "take k (drop i b1) = trim s" using w by simp
  have "b1 ! (i + k) = 0" using ik sb by (simp add: b1_def)
  then have pre: "take (Suc k) (drop i b1) = trim s @ [0]"
    using tk ik sb l1 by (simp add: take_Suc_conv_app_nth)
  have nz: "0 \<notin> set (trim s)" using r(2) by (rule trim_nz)
  have "drop (Suc (length s)) (trim s @ 0 # drop (Suc k) b1) = drop (Suc (length s)) b1"
    using k_def ik by (simp add: Suc_diff_le)
  also have "\<dots> = drop (Suc (length s)) b" using ik by (simp add: b1_def)
  finally show ?thesis using run pre nz l1 k_def ik sb by simp
qed

section \<open>Names\<close>

text \<open>Names are compared without regard to case.\<close>

definition up :: "u8 list \<Rightarrow> u8 list" where
  "up s = map AsciiToUpper s"

lemma up_Nil [simp]: "up s = [] \<longleftrightarrow> s = []"  "up [] = []"
  by (simp_all add: up_def)

definition same :: "u8 list \<Rightarrow> u8 list \<Rightarrow> bool option" where
  "same a b = map_option (\<lambda>r. r = 0) (SctAsciiStriCmp a b)"

lemma same_cstr:
  "cstr a = Some s \<Longrightarrow> cstr b = Some t \<Longrightarrow> same a b = Some (up s = up t)"
  using SctAsciiStriCmp_cstr [of a s b t] by (auto simp: same_def up_def)

text \<open>
  The code all interface functions share for a name: convert it to ASCII, copy it and trim
  it. The inner \<open>None\<close> is the conversion error that the callers answer with
  \<open>EFI_INVALID_PARAMETER\<close>.
\<close>

definition to_ascii :: "u8 list \<Rightarrow> u16 list \<Rightarrow> u8 list option option" where
  "to_ascii ptr Str = do {
     (p, r) \<leftarrow> SctUnicodeToAscii (Some ptr) (Some Str) (MAX_STRING_LEN + 1);
     Some (if r = - 1 then None else p) }"

definition trim_copy :: "u8 list \<Rightarrow> u8 list \<Rightarrow> u8 list option" where
  "trim_copy tmp ptr = do { tmp \<leftarrow> SctAsciiStrCpy tmp ptr; alltrim tmp }"

text \<open>The name a Unicode string stands for.\<close>

definition name_of :: "u16 list \<Rightarrow> u8 list" where
  "name_of t = trim (low_bytes t)"

lemma name_of_nz: "0 \<notin> set (name_of t)"
  by (simp add: name_of_def trim_nz low_bytes_nz)

lemma length_name_of: "length (name_of t) \<le> length t"
  unfolding name_of_def using length_trim length_low_bytes le_trans by blast

lemma name_of_trim [simp]: "trim (name_of t) = name_of t"
  by (simp add: name_of_def)

lemma small_not_minus_one: "n < 2 ^ 64 - 1 \<Longrightarrow> (of_nat n :: u64) \<noteq> - 1"
proof
  assume n: "n < 2 ^ 64 - 1" and eq: "(of_nat n :: u64) = - 1"
  have "(of_nat n :: u64) = of_nat (2 ^ 64 - 1)" using eq by simp
  then have "unat (of_nat n :: u64) = unat (of_nat (2 ^ 64 - 1) :: u64)" by (rule arg_cong)
  then show False using n by (simp only: unat_of_nat_u64 [of n] unat_of_nat_u64 [of "2 ^ 64 - 1"])
qed

lemma to_ascii_spec:
  assumes "cstr Str = Some t" "length t \<le> 100" "length ptr = 101"
  shows "\<exists>p. to_ascii ptr Str = Some (Some p) \<and> length p = 101 \<and> cstr p = Some (low_bytes t)"
proof -
  have l: "length (low_bytes t) < 101" using assms(2) length_low_bytes [of t] by simp
  have "(of_nat (length (low_bytes t)) :: u64) \<noteq> - 1"
    by (rule small_not_minus_one) (use l in simp)
  then show ?thesis
    using SctUnicodeToAscii_spec [OF assms(1), of 101 ptr] l assms(3) low_bytes_nz [of t]
    by (simp add: to_ascii_def MAX_STRING_LEN_def)
qed

lemma trim_copy_spec:
  assumes p: "cstr p = Some s" and len: "length s < length tmp" "length tmp \<le> 2 ^ 32"
  shows "\<exists>b. trim_copy tmp p = Some b \<and> length b = length tmp \<and> cstr b = Some (trim s)"
proof -
  let ?c = "s @ 0 # drop (Suc (length s)) tmp"
  have c: "SctAsciiStrCpy tmp p = Some ?c" using SctAsciiStrCpy_spec [OF p] len by simp
  have "cstr ?c = Some s" using cstr_nz [OF p] by simp
  moreover have "length ?c = length tmp" using len by simp
  ultimately show ?thesis using alltrim_spec [of ?c s] len c by (auto simp: trim_copy_def)
qed

section \<open>Records and their abstraction\<close>

text \<open>Every field of a record is a 101-byte block that holds a terminated string.\<close>

definition field_ok :: "u8 list \<Rightarrow> bool" where
  "field_ok b \<longleftrightarrow> length b = MAX_STRING_LEN + 1 \<and> cstr b \<noteq> None"

definition item_ok :: "INI \<Rightarrow> bool" where
  "item_ok it \<longleftrightarrow> field_ok (ptrSection it) \<and> field_ok (ptrEntry it) \<and> field_ok (ptrValue it)"

definition text_of :: "u8 list \<Rightarrow> u8 list" where
  "text_of b = takeWhile (\<lambda>c. c \<noteq> 0) b"

abbreviation sec_of :: "INI \<Rightarrow> u8 list" where "sec_of it \<equiv> text_of (ptrSection it)"
abbreviation ent_of :: "INI \<Rightarrow> u8 list" where "ent_of it \<equiv> text_of (ptrEntry it)"
abbreviation val_of :: "INI \<Rightarrow> u8 list" where "val_of it \<equiv> text_of (ptrValue it)"

lemma text_of_cstr: "cstr b = Some s \<Longrightarrow> text_of b = s"
  by (auto simp: text_of_def cstr_def split: if_splits)

lemma field_ok_cstr: "field_ok b \<Longrightarrow> cstr b = Some (text_of b)"
  by (auto simp: field_ok_def text_of_def cstr_def split: if_splits)

lemma field_ok_length: "field_ok b \<Longrightarrow> length b = 101"
  by (simp add: field_ok_def MAX_STRING_LEN_def)

lemma field_ok_le: "field_ok b \<Longrightarrow> length (text_of b) \<le> 100"
  using cstr_length [of b "text_of b"] field_ok_cstr field_ok_length by fastforce

lemma item_okD:
  assumes "item_ok it"
  shows "cstr (ptrSection it) = Some (sec_of it)" "cstr (ptrEntry it) = Some (ent_of it)"
    "cstr (ptrValue it) = Some (val_of it)"
  using assms by (simp_all add: item_ok_def field_ok_cstr)

text \<open>Filling a field: the length limit of 100 leaves the last byte alone, so a name of
  exactly 100 characters is terminated only when that byte happens to be NUL.\<close>

lemma fill_field:
  assumes "cstr p = Some s" "length s < 100" "length b = 101"
  shows "\<exists>b'. SctAsciiStrnCpy b p MAX_STRING_LEN = Some b' \<and> field_ok b' \<and> text_of b' = s"
proof -
  let ?b = "s @ replicate (100 - length s) 0 @ drop 100 b"
  obtain k where k: "100 - length s = Suc k" using assms(2) by (cases "100 - length s") auto
  have run: "SctAsciiStrnCpy b p MAX_STRING_LEN = Some ?b"
    using SctAsciiStrnCpy_spec [OF assms(1)] assms by (simp add: MAX_STRING_LEN_def)
  have "cstr ?b = Some s" using cstr_nz [OF assms(1)] by (simp add: k)
  moreover have "length ?b = 101" using assms by simp
  ultimately show ?thesis using run text_of_cstr by (auto simp: field_ok_def MAX_STRING_LEN_def)
qed

end
