(* ===== verification/Ini_Ops.thy ===== *)
theory Ini_Ops
  imports Ini_File
begin

text \<open>
  Looking up, setting and removing by name: \<open>EfiIniGetString\<close>, \<open>EfiIniSetString\<close> and
  \<open>EfiIniRmSection\<close> of \<open>TestProfile.c\<close>, the invariant of a file in memory, and the
  refinement of the three operations to functions on the list of
  \<open>(section, entry, value)\<close> texts.
\<close>

section \<open>The parameters the interface functions check and convert\<close>

text \<open>The chain of \<open>SctStrLen (...) > MAX_STRING_LEN\<close> tests, with C's early exit.\<close>

fun any_too_long :: "u16 list list \<Rightarrow> bool option" where
  "any_too_long [] = Some False"
| "any_too_long (s # ss) =
     do { l \<leftarrow> SctStrLen s; if l > MAX_STRING_LEN then Some True else any_too_long ss }"

declare any_too_long.simps(2) [simp del]

text \<open>Both names, converted and trimmed; the inner \<open>None\<close> is \<open>EFI_INVALID_PARAMETER\<close>.\<close>

definition ini_names :: "stack \<Rightarrow> u16 list \<Rightarrow> u16 list \<Rightarrow> (u8 list \<times> u8 list) option option" where
  "ini_names Stk Section Entry = do {
     s \<leftarrow> to_ascii (Stk L_ptrSection) Section;
     (case s of
        None \<Rightarrow> Some None
      | Some pSection \<Rightarrow> do {
          e \<leftarrow> to_ascii (Stk L_ptrEntry) Entry;
          (case e of
             None \<Rightarrow> Some None
           | Some pEntry \<Rightarrow> do {
               tmpSection \<leftarrow> trim_copy (Stk L_tmpSection) pSection;
               tmpEntry \<leftarrow> trim_copy (Stk L_tmpEntry) pEntry;
               ls \<leftarrow> SctAsciiStrLen tmpSection;
               le \<leftarrow> SctAsciiStrLen tmpEntry;
               Some (if ls = 0 \<or> le = 0 then None else Some (tmpSection, tmpEntry)) }) }) }"

section \<open>EfiIniGetString\<close>

definition item_matches :: "u8 list \<Rightarrow> u8 list \<Rightarrow> INI \<Rightarrow> bool option" where
  "item_matches tmpSection tmpEntry it = do {
     s \<leftarrow> same tmpSection (ptrSection it);
     if s then same tmpEntry (ptrEntry it) else Some False }"

fun find_item :: "u8 list \<Rightarrow> u8 list \<Rightarrow> item list \<Rightarrow> INI option option" where
  "find_item tmpSection tmpEntry [] = Some None"
| "find_item tmpSection tmpEntry ((a, it) # its) = do {
     m \<leftarrow> item_matches tmpSection tmpEntry it;
     if m then Some (Some it) else find_item tmpSection tmpEntry its }"

text \<open>The value of the record found, copied to the caller's buffer or cut to its size. The
  lengths are 32-bit words, so \<open>*maxLength - 1\<close> wraps.\<close>

definition return_value ::
    "stack \<Rightarrow> INI \<Rightarrow> u16 list \<Rightarrow> u32 \<Rightarrow> (EFI_STATUS \<times> u16 list option \<times> u32) option" where
  "return_value Stk it String maxLength = do {
     len \<leftarrow> SctAsciiStrLen (ptrValue it);
     if len < unat maxLength then do {
       ptrString \<leftarrow> SctAsciiStrCpy (Stk L_ptrString) (ptrValue it);
       l \<leftarrow> SctAsciiStrLen ptrString;
       (String, _) \<leftarrow> SctAsciiToUnicode (Some String) (Some ptrString) (l + 1);
       Some (EFI_SUCCESS, String, maxLength) }
     else do {
       ptrString \<leftarrow> SctAsciiStrnCpy (Stk L_ptrString) (ptrValue it) (unat (maxLength - 1));
       ptrString \<leftarrow> wr ptrString (unat (maxLength - 1)) 0;
       l \<leftarrow> SctAsciiStrLen ptrString;
       (String, _) \<leftarrow> SctAsciiToUnicode (Some String) (Some ptrString) (l + 1);
       Some (EFI_BUFFER_TOO_SMALL, String, of_nat (len + 1)) } }"

definition EfiIniGetString ::
    "stack \<Rightarrow> 'd EFI_INI_FILE \<Rightarrow> u16 list option \<Rightarrow> u16 list option \<Rightarrow> u16 list option \<Rightarrow> u32 \<Rightarrow>
     (EFI_STATUS \<times> u16 list option \<times> u32) option" where
  "EfiIniGetString Stk This Section Entry String maxLength =
     (case (Section, Entry, String) of
        (Some Section, Some Entry, Some String) \<Rightarrow> do {
          String \<leftarrow> SctStrCpy String [0];
          long \<leftarrow> any_too_long [Section, Entry];
          if long then Some (EFI_INVALID_PARAMETER, Some String, maxLength) else do {
            names \<leftarrow> ini_names Stk Section Entry;
            (case names of
               None \<Rightarrow> Some (EFI_INVALID_PARAMETER, Some String, maxLength)
             | Some (tmpSection, tmpEntry) \<Rightarrow> do {
                 found \<leftarrow> find_item tmpSection tmpEntry (Items This);
                 (case found of
                    None \<Rightarrow> Some (EFI_NOT_FOUND, Some String, maxLength)
                  | Some it \<Rightarrow> return_value Stk it String maxLength) }) } }
      | _ \<Rightarrow> Some (EFI_INVALID_PARAMETER, String, maxLength))"

section \<open>EfiIniSetString\<close>

text \<open>The scan: the record to update (\<open>Inl\<close>), or \<open>ptrPrev\<close>, the last record of the
  section (\<open>Inr\<close>).\<close>

fun set_scan ::
    "u8 list \<Rightarrow> u8 list \<Rightarrow> nat option \<Rightarrow> item list \<Rightarrow> (item + nat option) option" where
  "set_scan tmpSection tmpEntry ptrPrev [] = Some (Inr ptrPrev)"
| "set_scan tmpSection tmpEntry ptrPrev ((a, it) # its) = do {
     s \<leftarrow> same tmpSection (ptrSection it);
     if s then do {
       e \<leftarrow> same tmpEntry (ptrEntry it);
       if e then Some (Inl (a, it)) else set_scan tmpSection tmpEntry (Some a) its }
     else set_scan tmpSection tmpEntry ptrPrev its }"

text \<open>Writes to the chain: the record at an address, the \<open>ptrNext\<close> of a record to a new
  record in front of the old successor, and to a new chain instead of it.\<close>

fun store_item :: "nat \<Rightarrow> INI \<Rightarrow> item list \<Rightarrow> item list" where
  "store_item a it [] = []"
| "store_item a it ((b, x) # its) = (if a = b then (b, it) # its else (b, x) # store_item a it its)"

fun link_after :: "nat \<Rightarrow> item \<Rightarrow> item list \<Rightarrow> item list" where
  "link_after p new [] = []"
| "link_after p new ((b, x) # its) =
     (if p = b then (b, x) # new # its else (b, x) # link_after p new its)"

fun link_next :: "nat \<Rightarrow> item list \<Rightarrow> item list \<Rightarrow> item list" where
  "link_next p new [] = []"
| "link_next p new ((b, x) # its) =
     (if p = b then (b, x) # new else (b, x) # link_next p new its)"

definition set_value :: "'d EFI_INI_FILE \<Rightarrow> item \<Rightarrow> u8 list \<Rightarrow> 'd EFI_INI_FILE option" where
  "set_value Private x tmpString = do {
     eq \<leftarrow> same tmpString (ptrValue (snd x));
     if eq then Some Private else do {
       v \<leftarrow> SctAsciiStrnCpy (ptrValue (snd x)) tmpString MAX_STRING_LEN;
       Some (Private\<lparr>Items := store_item (fst x) ((snd x)\<lparr>ptrValue := v\<rparr>) (Items Private),
                     Modified := True\<rparr>) } }"

definition entry_item :: "INI \<Rightarrow> u8 list \<Rightarrow> u8 list \<Rightarrow> u8 list \<Rightarrow> INI option" where
  "entry_item new tmpSection tmpEntry tmpString = do {
     s \<leftarrow> SctAsciiStrnCpy (ptrSection new) tmpSection MAX_STRING_LEN;
     e \<leftarrow> SctAsciiStrnCpy (ptrEntry new) tmpEntry MAX_STRING_LEN;
     v \<leftarrow> SctAsciiStrnCpy (ptrValue new) tmpString MAX_STRING_LEN;
     Some \<lparr>commentNo = 0, ptrSection = s, ptrEntry = e, ptrValue = v\<rparr> }"

definition head_item :: "INI \<Rightarrow> u8 list \<Rightarrow> INI option" where
  "head_item new tmpSection = do {
     s \<leftarrow> SctAsciiStrnCpy (ptrSection new) tmpSection MAX_STRING_LEN;
     e \<leftarrow> SctAsciiStrCpy (ptrEntry new) [0];
     v \<leftarrow> SctAsciiStrCpy (ptrValue new) [0];
     Some \<lparr>commentNo = 0, ptrSection = s, ptrEntry = e, ptrValue = v\<rparr> }"

text \<open>
  \<open>Pool n\<close> is the uninitialised record \<open>SctAllocatePool\<close> returns for the \<open>n\<close>-th allocation
  (\<open>None\<close> for \<open>NULL\<close>); the number is its address. The tail of \<open>EfiIniSetString\<close> and
  \<open>EfiIniSetStringByOrder\<close>, from \<open>if not, should add a new item\<close> on.
\<close>

type_synonym pool = "nat \<Rightarrow> INI option"

definition add_entry ::
    "pool \<Rightarrow> nat \<Rightarrow> 'd EFI_INI_FILE \<Rightarrow> nat option \<Rightarrow> u8 list \<Rightarrow> u8 list \<Rightarrow> u8 list \<Rightarrow>
     (EFI_STATUS \<times> 'd EFI_INI_FILE) option" where
  "add_entry Pool n Private ptrPrev tmpSection tmpEntry tmpString =
     (case Pool n of
        None \<Rightarrow> Some (EFI_OUT_OF_RESOURCES, Private)
      | Some new \<Rightarrow> do {
          new \<leftarrow> entry_item new tmpSection tmpEntry tmpString;
          (case ptrPrev of
             Some p \<Rightarrow>
               Some (EFI_SUCCESS,
                 Private\<lparr>Items := link_after p (n, new) (Items Private),
                         Tail := (if Tail Private = Some p then Some n else Tail Private),
                         Modified := True\<rparr>)
           | None \<Rightarrow>
               (case Pool (Suc n) of
                  None \<Rightarrow> Some (EFI_OUT_OF_RESOURCES, Private)
                | Some new' \<Rightarrow> do {
                    sect \<leftarrow> head_item new' tmpSection;
                    Some (EFI_SUCCESS,
                      Private\<lparr>Items := (case Tail Private of
                                  Some t \<Rightarrow> link_next t [(Suc n, sect), (n, new)] (Items Private)
                                | None \<Rightarrow> [(Suc n, sect), (n, new)]),
                              Tail := Some n,
                              Modified := True\<rparr>) })) })"

definition EfiIniSetString ::
    "stack \<Rightarrow> pool \<Rightarrow> nat \<Rightarrow> 'd EFI_INI_FILE \<Rightarrow> u16 list option \<Rightarrow> u16 list option \<Rightarrow> u16 list option \<Rightarrow>
     (EFI_STATUS \<times> 'd EFI_INI_FILE) option" where
  "EfiIniSetString Stk Pool n Private Section Entry String =
     (case (Section, Entry, String) of
        (Some Section, Some Entry, Some String) \<Rightarrow> do {
          long \<leftarrow> any_too_long [Section, Entry, String];
          if long then Some (EFI_INVALID_PARAMETER, Private) else do {
            names \<leftarrow> ini_names Stk Section Entry;
            (case names of
               None \<Rightarrow> Some (EFI_INVALID_PARAMETER, Private)
             | Some (tmpSection, tmpEntry) \<Rightarrow> do {
                 str \<leftarrow> to_ascii (Stk L_ptrString) String;
                 (case str of
                    None \<Rightarrow> Some (EFI_INVALID_PARAMETER, Private)
                  | Some ptrString \<Rightarrow> do {
                      tmpString \<leftarrow> trim_copy (Stk L_tmpString) ptrString;
                      found \<leftarrow> set_scan tmpSection tmpEntry None (Items Private);
                      (case found of
                         Inl x \<Rightarrow> map_option (\<lambda>f. (EFI_SUCCESS, f)) (set_value Private x tmpString)
                       | Inr ptrPrev \<Rightarrow>
                           add_entry Pool n Private ptrPrev tmpSection tmpEntry tmpString) }) }) } }
      | _ \<Rightarrow> Some (EFI_INVALID_PARAMETER, Private))"

section \<open>EfiIniRmSection\<close>

fun rmComment :: "COMMENTLINE list \<Rightarrow> INI \<Rightarrow> COMMENTLINE list" where
  "rmComment [] it = []"
| "rmComment (c # cs) it =
     (if cmtNo c = commentNo it then rmComment cs it else c # rmComment cs it)"

text \<open>The loop, with \<open>ptrPrev\<close> and the fields of the file it changes.\<close>

fun rm_loop ::
    "u8 list \<Rightarrow> nat option \<Rightarrow> item list \<Rightarrow> COMMENTLINE list \<Rightarrow> nat option \<Rightarrow> bool \<Rightarrow>
     (item list \<times> COMMENTLINE list \<times> nat option \<times> bool) option" where
  "rm_loop tmpSection ptrPrev [] Comments tail modified = Some ([], Comments, tail, modified)"
| "rm_loop tmpSection ptrPrev ((a, it) # its) Comments tail modified = do {
     m \<leftarrow> same tmpSection (ptrSection it);
     if m
     then rm_loop tmpSection ptrPrev its (rmComment Comments it)
            (if its = [] then ptrPrev else tail) True
     else do {
       (rest, st) \<leftarrow> rm_loop tmpSection (Some a) its Comments tail modified;
       Some ((a, it) # rest, st) } }"

definition EfiIniRmSection ::
    "stack \<Rightarrow> 'd EFI_INI_FILE \<Rightarrow> u16 list option \<Rightarrow> (EFI_STATUS \<times> 'd EFI_INI_FILE) option" where
  "EfiIniRmSection Stk Private Section =
     (case Section of
        None \<Rightarrow> Some (EFI_INVALID_PARAMETER, Private)
      | Some Section \<Rightarrow> do {
          s \<leftarrow> to_ascii (Stk L_ptrSection) Section;
          (case s of
             None \<Rightarrow> Some (EFI_INVALID_PARAMETER, Private)
           | Some pSection \<Rightarrow> do {
               tmpSection \<leftarrow> trim_copy (Stk L_tmpSection) pSection;
               (its, cs, tail, modified) \<leftarrow>
                 rm_loop tmpSection None (Items Private) (CommentLines Private) (Tail Private)
                   (Modified Private);
               Some (if modified then EFI_SUCCESS else EFI_NOT_FOUND,
                 Private\<lparr>Items := its, CommentLines := cs, Tail := tail, Modified := modified\<rparr>) }) })"

section \<open>The file as a list of texts\<close>

type_synonym entry = "u8 list \<times> u8 list \<times> u8 list"

definition view :: "item \<Rightarrow> entry" where
  "view x = (sec_of (snd x), ent_of (snd x), val_of (snd x))"

definition entries :: "'d EFI_INI_FILE \<Rightarrow> entry list" where
  "entries f = map view (Items f)"

definition hits :: "u8 list \<Rightarrow> u8 list \<Rightarrow> entry \<Rightarrow> bool" where
  "hits s e x \<longleftrightarrow> up s = up (fst x) \<and> up e = up (fst (snd x))"

definition in_section :: "u8 list \<Rightarrow> entry \<Rightarrow> bool" where
  "in_section s x \<longleftrightarrow> up s = up (fst x)"

definition a_get :: "u8 list \<Rightarrow> u8 list \<Rightarrow> entry list \<Rightarrow> u8 list option" where
  "a_get s e xs = map_option (snd \<circ> snd) (List.find (hits s e) xs)"

text \<open>A value that differs only in case is left as it is.\<close>

definition new_value :: "u8 list \<Rightarrow> entry \<Rightarrow> entry" where
  "new_value v x = (if up v = up (snd (snd x)) then x else (fst x, fst (snd x), v))"

fun a_update :: "u8 list \<Rightarrow> u8 list \<Rightarrow> u8 list \<Rightarrow> entry list \<Rightarrow> entry list" where
  "a_update s e v [] = []"
| "a_update s e v (x # xs) =
     (if hits s e x then new_value v x # xs else x # a_update s e v xs)"

fun insert_last :: "('a \<Rightarrow> bool) \<Rightarrow> 'a \<Rightarrow> 'a list \<Rightarrow> 'a list" where
  "insert_last P y [] = []"
| "insert_last P y (x # xs) =
     (if list_ex P xs then x # insert_last P y xs else if P x then x # y # xs else x # xs)"

definition a_set :: "u8 list \<Rightarrow> u8 list \<Rightarrow> u8 list \<Rightarrow> entry list \<Rightarrow> entry list" where
  "a_set s e v xs =
     (if list_ex (hits s e) xs then a_update s e v xs
      else if list_ex (in_section s) xs then insert_last (in_section s) (s, e, v) xs
      else xs @ [(s, [], []), (s, e, v)])"

definition a_rm :: "u8 list \<Rightarrow> entry list \<Rightarrow> entry list" where
  "a_rm s xs = filter (\<lambda>x. \<not> in_section s x) xs"

text \<open>The invariant: well-formed records at distinct addresses, with \<open>Tail\<close> the last one.\<close>

definition chain_ok :: "item list \<Rightarrow> nat option \<Rightarrow> bool" where
  "chain_ok its t \<longleftrightarrow> (\<forall>x\<in>set its. item_ok (snd x)) \<and> distinct (map fst its) \<and>
     t = (if its = [] then None else Some (fst (last its)))"

definition file_ok :: "'d EFI_INI_FILE \<Rightarrow> bool" where
  "file_ok f \<longleftrightarrow> chain_ok (Items f) (Tail f)"

definition fresh :: "nat \<Rightarrow> 'd EFI_INI_FILE \<Rightarrow> bool" where
  "fresh n f \<longleftrightarrow> (\<forall>x\<in>set (Items f). fst x < n)"

definition pool_ok :: "pool \<Rightarrow> bool" where
  "pool_ok Pool \<longleftrightarrow> (\<forall>n it. Pool n = Some it \<longrightarrow>
     length (ptrSection it) = 101 \<and> length (ptrEntry it) = 101 \<and> length (ptrValue it) = 101)"

subsection \<open>Looking up\<close>

lemma same_item:
  assumes "item_ok it" "cstr t = Some s"
  shows "same t (ptrSection it) = Some (up s = up (sec_of it))"
    and "same t (ptrEntry it) = Some (up s = up (ent_of it))"
    and "same t (ptrValue it) = Some (up s = up (val_of it))"
  using assms item_okD [OF assms(1)] by (simp_all add: same_cstr)

lemma item_matches_spec:
  assumes "item_ok (snd x)" "cstr tS = Some s" "cstr tE = Some e"
  shows "item_matches tS tE (snd x) = Some (hits s e (view x))"
  using same_item assms by (simp add: item_matches_def hits_def view_def)

lemma find_item_spec:
  assumes "\<forall>x\<in>set its. item_ok (snd x)" "cstr tS = Some s" "cstr tE = Some e"
  shows "find_item tS tE its = Some (map_option snd (List.find (\<lambda>x. hits s e (view x)) its))"
  using assms(1)
proof (induction its)
  case (Cons y its)
  then show ?case
    using item_matches_spec [of y, OF _ assms(2,3)] by (cases y) auto
qed simp

lemma find_map_view:
  "List.find P (map f xs) = map_option f (List.find (\<lambda>x. P (f x)) xs)"
  by (induction xs) auto

lemma any_too_long_spec:
  "list_all (\<lambda>b. \<exists>t. cstr b = Some t \<and> length t \<le> 100) bs \<Longrightarrow> any_too_long bs = Some False"
  by (induction bs) (auto simp: any_too_long.simps SctStrLen_cstr MAX_STRING_LEN_def)

lemma ini_names_spec:
  assumes S: "cstr Section = Some S" "length S \<le> 100" and E: "cstr Entry = Some E" "length E \<le> 100"
    and stk: "stack_ok Stk" and ne: "name_of S \<noteq> []" "name_of E \<noteq> []"
  shows "\<exists>tS tE. ini_names Stk Section Entry = Some (Some (tS, tE)) \<and>
    cstr tS = Some (name_of S) \<and> cstr tE = Some (name_of E)"
proof -
  note l = stack_ok_length [OF stk]
  obtain pS where pS: "to_ascii (Stk L_ptrSection) Section = Some (Some pS)" "cstr pS = Some (low_bytes S)"
    using to_ascii_spec [OF S l] by blast
  obtain pE where pE: "to_ascii (Stk L_ptrEntry) Entry = Some (Some pE)" "cstr pE = Some (low_bytes E)"
    using to_ascii_spec [OF E l] by blast
  have "length (low_bytes S) < 101" "length (low_bytes E) < 101"
    using S(2) E(2) length_low_bytes [of S] length_low_bytes [of E] by simp_all
  then obtain tS tE where t: "trim_copy (Stk L_tmpSection) pS = Some tS" "cstr tS = Some (name_of S)"
      "trim_copy (Stk L_tmpEntry) pE = Some tE" "cstr tE = Some (name_of E)"
    using trim_copy_spec [OF pS(2), of "Stk L_tmpSection"] trim_copy_spec [OF pE(2), of "Stk L_tmpEntry"]
    by (auto simp: l name_of_def)
  then show ?thesis using pS pE ne by (simp add: ini_names_def SctAsciiStrLen_cstr)
qed

lemma return_value_spec:
  assumes it: "item_ok it" and stk: "stack_ok Stk" and m: "0 < unat m"
    and room: "min (unat m) (length (val_of it) + 1) \<le> length Str"
  shows "\<exists>Str'. cstr Str' = Some (widen (take (unat m - 1) (val_of it))) \<and>
    return_value Stk it Str m =
      Some (if length (val_of it) < unat m then (EFI_SUCCESS, Some Str', m)
            else (EFI_BUFFER_TOO_SMALL, Some Str', of_nat (length (val_of it) + 1)))"
proof -
  let ?v = "val_of it"
  have v: "cstr (ptrValue it) = Some ?v" and nz: "0 \<notin> set ?v"
    using item_okD [OF it] cstr_nz by auto
  have v100: "length ?v \<le> 100" using it field_ok_le by (simp add: item_ok_def)
  have l: "length (Stk L_ptrString) = 101" by (rule stack_ok_length [OF stk])
  show ?thesis
  proof (cases "length ?v < unat m")
    case True
    have c: "SctAsciiStrCpy (Stk L_ptrString) (ptrValue it) =
        Some (?v @ 0 # drop (Suc (length ?v)) (Stk L_ptrString))" (is "_ = Some ?p")
      using SctAsciiStrCpy_spec [OF v] l v100 by simp
    have p: "cstr ?p = Some ?v" using nz by simp
    have "length ?v < length Str" using room True by simp
    then show ?thesis
      using True v c p SctAsciiToUnicode_spec [OF p, of "length ?v + 1" Str] widen_nz [OF nz]
      by (intro exI [of _ "widen ?v @ 0 # drop (Suc (length ?v)) Str"])
        (simp add: return_value_def SctAsciiStrLen_cstr)
  next
    case False
    define k where "k = unat m - 1"
    have "m \<noteq> 0" using m by auto
    then have km: "unat (m - 1) = k" using unat_minus_one k_def by blast
    have k: "k < length ?v" and k1: "unat m - Suc 0 = k" using False m by (simp_all add: k_def)
    let ?p = "take k ?v @ drop k (Stk L_ptrString)"
    have c: "SctAsciiStrnCpy (Stk L_ptrString) (ptrValue it) k = Some ?p"
      using SctAsciiStrnCpy_spec [OF v] l v100 k by simp
    let ?q = "take k ?v @ 0 # drop (Suc k) (Stk L_ptrString)"
    have "drop k (Stk L_ptrString) = Stk L_ptrString ! k # drop (Suc k) (Stk L_ptrString)"
      using l k v100 by (simp add: Cons_nth_drop_Suc)
    then have w: "wr ?p k 0 = Some ?q"
      using k l v100 list_update_append_at [of "take k ?v"] by (simp add: wr_def min_def)
    have nzk: "0 \<notin> set (take k ?v)" using nz by (meson in_set_takeD)
    have q: "cstr ?q = Some (take k ?v)" using nzk by simp
    have "length (take k ?v) < length Str" using room False k m k_def by simp
    then show ?thesis
      using False v c q w km k SctAsciiToUnicode_spec [OF q, of "k + 1" Str] widen_nz [OF nzk]
      by (intro exI [of _ "widen (take k ?v) @ 0 # drop (Suc k) Str"])
        (simp add: return_value_def SctAsciiStrLen_cstr k1 min_def)
  qed
qed

lemma EfiIniGetString_entries:
  assumes f: "file_ok f" and S: "cstr Section = Some S" "length S \<le> 100"
    and E: "cstr Entry = Some E" "length E \<le> 100"
    and ne: "name_of S \<noteq> []" "name_of E \<noteq> []" and stk: "stack_ok Stk"
    and m: "0 < unat m" and room: "101 \<le> length Str"
  shows "case a_get (name_of S) (name_of E) (entries f) of
    None \<Rightarrow> EfiIniGetString Stk f (Some Section) (Some Entry) (Some Str) m =
        Some (EFI_NOT_FOUND, Some (0 # tl Str), m)
  | Some v \<Rightarrow> \<exists>Str'. cstr Str' = Some (widen (take (unat m - 1) v)) \<and>
      EfiIniGetString Stk f (Some Section) (Some Entry) (Some Str) m =
        Some (if length v < unat m then (EFI_SUCCESS, Some Str', m)
              else (EFI_BUFFER_TOO_SMALL, Some Str', of_nat (length v + 1)))"
proof -
  obtain tS tE where n: "ini_names Stk Section Entry = Some (Some (tS, tE))"
    "cstr tS = Some (name_of S)" "cstr tE = Some (name_of E)"
    using ini_names_spec [OF S E stk ne] by blast
  have ok: "\<forall>x\<in>set (Items f). item_ok (snd x)" using f by (simp add: file_ok_def chain_ok_def)
  define r where "r = List.find (\<lambda>x. hits (name_of S) (name_of E) (view x)) (Items f)"
  have fi: "find_item tS tE (Items f) = Some (map_option snd r)"
    using find_item_spec [OF ok n(2,3)] by (simp add: r_def)
  have g: "a_get (name_of S) (name_of E) (entries f) = map_option (\<lambda>x. val_of (snd x)) r"
    by (simp add: a_get_def entries_def find_map_view r_def option.map_comp comp_def view_def)
  have cpy: "SctStrCpy Str [0] = Some (0 # tl Str)" using room by (cases Str) simp_all
  have long: "any_too_long [Section, Entry] = Some False"
    by (rule any_too_long_spec) (use S E in simp)
  have run: "EfiIniGetString Stk f (Some Section) (Some Entry) (Some Str) m =
      (case r of None \<Rightarrow> Some (EFI_NOT_FOUND, Some (0 # tl Str), m)
       | Some x \<Rightarrow> return_value Stk (snd x) (0 # tl Str) m)"
    by (simp add: EfiIniGetString_def cpy long n(1) fi split: option.splits)
  show ?thesis
  proof (cases r)
    case (Some x)
    then have ok: "item_ok (snd x)" using ok by (auto simp: r_def find_Some_iff)
    then have "length (val_of (snd x)) \<le> 100" using field_ok_le by (simp add: item_ok_def)
    then have "min (unat m) (length (val_of (snd x)) + 1) \<le> length (0 # tl Str)" using room by simp
    from return_value_spec [OF ok stk m this] show ?thesis using run g Some by simp
  qed (use run g in simp)
qed

subsection \<open>Writing to the chain\<close>

lemma store_item_fst [simp]: "map fst (store_item a it its) = map fst its"
  by (induction its) auto

lemma store_item_Nil [simp]: "store_item a it its = [] \<longleftrightarrow> its = []"
  by (cases its) (auto split: if_splits)

lemma set_store_item: "set (store_item a it its) \<subseteq> insert (a, it) (set its)"
  by (induction its) (auto split: if_splits)

lemma last_fst: "its \<noteq> [] \<Longrightarrow> fst (last its) = last (map fst its)"
  by (simp add: last_map)

lemma chain_ok_store:
  assumes "chain_ok its t" "item_ok it"
  shows "chain_ok (store_item a it its) t"
proof -
  have "item_ok (snd x)" if "x \<in> set (store_item a it its)" for x
    using that assms set_store_item [of a it its] by (auto simp: chain_ok_def)
  then show ?thesis using assms by (auto simp: chain_ok_def last_fst)
qed

lemma store_item_view:
  assumes "distinct (map fst its)" "List.find (\<lambda>x. hits s e (view x)) its = Some x"
    "view (fst x, it) = new_value v (view x)"
  shows "map view (store_item (fst x) it its) = a_update s e v (map view its)"
  using assms
proof (induction its)
  case (Cons y its)
  show ?case
  proof (cases "hits s e (view y)")
    case True
    then show ?thesis using Cons.prems by (cases y) auto
  next
    case False
    then have f: "List.find (\<lambda>x. hits s e (view x)) its = Some x" using Cons.prems(2) by simp
    then have "fst x \<in> fst ` set its" by (auto simp: find_Some_iff)
    then have "fst x \<noteq> fst y" using Cons.prems(1) by (metis distinct.simps(2) list.simps(9) list.set_map)
    then show ?thesis using Cons.IH f Cons.prems False by (cases y) auto
  qed
qed simp

lemma set_link_after: "p \<in> fst ` set its \<Longrightarrow> set (link_after p x its) = insert x (set its)"
proof (induction its)
  case (Cons y its)
  then show ?case by (cases "p = fst y"; cases y) auto
qed simp

lemma distinct_link_after:
  "p \<in> fst ` set its \<Longrightarrow> distinct (map fst its) \<Longrightarrow> fst x \<notin> fst ` set its \<Longrightarrow>
    distinct (map fst (link_after p x its))"
proof (induction its)
  case (Cons y its)
  show ?case
  proof (cases "p = fst y")
    case False
    then have p: "p \<in> fst ` set its" using Cons.prems(1) by auto
    have "fst ` set (link_after p x its) = insert (fst x) (fst ` set its)"
      by (simp add: set_link_after [OF p])
    then show ?thesis using Cons.IH [OF p] Cons.prems False by (cases y) auto
  qed (use Cons.prems in \<open>cases y; auto\<close>)
qed simp

lemma last_link_after:
  "p \<in> fst ` set its \<Longrightarrow> distinct (map fst its) \<Longrightarrow>
    last (link_after p x its) = (if fst (last its) = p then x else last its)"
proof (induction its)
  case (Cons y its)
  have l: "its \<noteq> [] \<Longrightarrow> fst (last its) \<in> fst ` set its" by simp
  show ?case
  proof (cases "p = fst y")
    case True
    then show ?thesis using l Cons.prems(2) by (cases y) auto
  next
    case False
    then have p: "p \<in> fst ` set its" using Cons.prems(1) by auto
    then have "link_after p x its \<noteq> []" "its \<noteq> []" using set_link_after [OF p, of x] by auto
    then show ?thesis using Cons.IH [OF p] Cons.prems(2) False by (cases y) auto
  qed
qed simp

lemma chain_ok_link_after:
  assumes "chain_ok its t" "p \<in> fst ` set its" "fst x \<notin> fst ` set its" "item_ok (snd x)"
  shows "chain_ok (link_after p x its) (if t = Some p then Some (fst x) else t)"
proof -
  have ne: "link_after p x its \<noteq> []" "its \<noteq> []" using assms(2) set_link_after [of p its x] by auto
  then show ?thesis
    using assms distinct_link_after [of p its x] last_link_after [of p its x]
    by (auto simp: chain_ok_def set_link_after)
qed

lemma link_next_last:
  "its \<noteq> [] \<Longrightarrow> distinct (map fst its) \<Longrightarrow> link_next (fst (last its)) new its = its @ new"
proof (induction its)
  case (Cons y its)
  have "its \<noteq> [] \<Longrightarrow> fst (last its) \<in> fst ` set its" by simp
  then show ?case using Cons by (cases y; cases "its = []") auto
qed simp

definition last_in :: "u8 list \<Rightarrow> nat option \<Rightarrow> item list \<Rightarrow> nat option" where
  "last_in s prev its =
     (case filter (\<lambda>x. in_section s (view x)) its of [] \<Rightarrow> prev | ys \<Rightarrow> Some (fst (last ys)))"

lemma last_in_Cons:
  "last_in s prev (y # its) = last_in s (if in_section s (view y) then Some (fst y) else prev) its"
  by (simp add: last_in_def split: list.split)

lemma last_in_Nil: "last_in s prev [] = prev"
  by (simp add: last_in_def)

lemma set_scan_spec:
  assumes "\<forall>x\<in>set its. item_ok (snd x)" "cstr tS = Some s" "cstr tE = Some e"
  shows "set_scan tS tE prev its = Some
    (case List.find (\<lambda>x. hits s e (view x)) its of Some x \<Rightarrow> Inl x | None \<Rightarrow> Inr (last_in s prev its))"
  using assms(1)
proof (induction its arbitrary: prev)
  case (Cons y its)
  obtain a it where y: "y = (a, it)" by (cases y)
  then have "item_ok it" using Cons.prems by simp
  note m = same_item(1) [OF this assms(2)] same_item(2) [OF this assms(3)]
  have h: "hits s e (view (a, it)) \<longleftrightarrow> up s = up (sec_of it) \<and> up e = up (ent_of it)"
    and i: "in_section s (view (a, it)) \<longleftrightarrow> up s = up (sec_of it)"
    by (simp_all add: hits_def in_section_def view_def)
  show ?case
    using Cons by (simp add: y m h i last_in_Cons split: option.split)
qed (simp add: last_in_Nil)

lemma link_after_last_in:
  assumes "distinct (map fst its)" "last_in s None its = Some p"
  shows "map view (link_after p x its) = insert_last (in_section s) (view x) (map view its) \<and>
    p \<in> fst ` set its"
  using assms
proof (induction its)
  case (Cons y its)
  show ?case
  proof (cases "list_ex (in_section s) (map view its)")
    case True
    then have "last_in s prev its = last_in s None its" for prev
      by (auto simp: last_in_def list_ex_iff filter_empty_conv split: list.split)
    then have p: "last_in s None its = Some p" using Cons.prems(2) unfolding last_in_Cons by metis
    then have IH: "map view (link_after p x its) = insert_last (in_section s) (view x) (map view its)"
      "p \<in> fst ` set its" using Cons.IH Cons.prems(1) by auto
    then have "p \<noteq> fst y" using Cons.prems(1) by (metis distinct.simps(2) list.simps(9) list.set_map)
    then show ?thesis using IH True by (cases y) auto
  next
    case False
    then have "filter (\<lambda>x. in_section s (view x)) its = []"
      by (auto simp: list_ex_iff filter_empty_conv)
    then have "in_section s (view y) \<and> p = fst y"
      using Cons.prems(2) by (auto simp: last_in_Cons last_in_def split: if_splits)
    then show ?thesis using False by (cases y) auto
  qed
qed (simp add: last_in_def)

lemma last_in_None: "last_in s None its = None \<longleftrightarrow> \<not> list_ex (in_section s) (map view its)"
proof -
  have "list_ex (in_section s) (map view its) \<longleftrightarrow> filter (\<lambda>x. in_section s (view x)) its \<noteq> []"
    by (auto simp: list_ex_iff filter_empty_conv)
  then show ?thesis by (simp add: last_in_def split: list.split)
qed

subsection \<open>Setting\<close>

lemma entry_item_spec:
  assumes "cstr tS = Some s" "cstr tE = Some e" "cstr tV = Some v"
    and "length s < 100" "length e < 100" "length v < 100"
    and "length (ptrSection it) = 101" "length (ptrEntry it) = 101" "length (ptrValue it) = 101"
  shows "\<exists>it'. entry_item it tS tE tV = Some it' \<and> item_ok it' \<and> commentNo it' = 0 \<and>
    (\<forall>a. view (a, it') = (s, e, v))"
proof -
  obtain bs be bv where
    "SctAsciiStrnCpy (ptrSection it) tS MAX_STRING_LEN = Some bs" "field_ok bs" "text_of bs = s"
    "SctAsciiStrnCpy (ptrEntry it) tE MAX_STRING_LEN = Some be" "field_ok be" "text_of be = e"
    "SctAsciiStrnCpy (ptrValue it) tV MAX_STRING_LEN = Some bv" "field_ok bv" "text_of bv = v"
    using fill_field [OF assms(1,4,7)] fill_field [OF assms(2,5,8)] fill_field [OF assms(3,6,9)]
    by blast
  then show ?thesis by (simp add: entry_item_def item_ok_def view_def)
qed

lemma empty_field:
  assumes "length b = 101"
  shows "\<exists>b'. SctAsciiStrCpy b [0] = Some b' \<and> field_ok b' \<and> text_of b' = []"
  using assms by (cases b) (simp_all add: field_ok_def MAX_STRING_LEN_def text_of_def)

lemma head_item_spec:
  assumes "cstr tS = Some s" "length s < 100"
    and "length (ptrSection it) = 101" "length (ptrEntry it) = 101" "length (ptrValue it) = 101"
  shows "\<exists>it'. head_item it tS = Some it' \<and> item_ok it' \<and> commentNo it' = 0 \<and>
    (\<forall>a. view (a, it') = (s, [], []))"
proof -
  obtain bs be bv where
    "SctAsciiStrnCpy (ptrSection it) tS MAX_STRING_LEN = Some bs" "field_ok bs" "text_of bs = s"
    "SctAsciiStrCpy (ptrEntry it) [0] = Some be" "field_ok be" "text_of be = []"
    "SctAsciiStrCpy (ptrValue it) [0] = Some bv" "field_ok bv" "text_of bv = []"
    using fill_field [OF assms(1,2,3)] empty_field [OF assms(4)] empty_field [OF assms(5)] by blast
  then show ?thesis by (simp add: head_item_def item_ok_def view_def)
qed

lemma store_item_same:
  "distinct (map fst its) \<Longrightarrow> x \<in> set its \<Longrightarrow> store_item (fst x) (snd x) its = its"
  by (induction its) (auto simp: image_iff)

lemma set_value_run:
  assumes f: "file_ok f" and x: "x \<in> set (Items f)" and v: "cstr tV = Some v" "length v < 100"
  shows "\<exists>it m. item_ok it \<and> view (fst x, it) = new_value v (view x) \<and>
    set_value f x tV = Some (f\<lparr>Items := store_item (fst x) it (Items f), Modified := m\<rparr>)"
proof -
  have dist: "distinct (map fst (Items f))" and ix: "item_ok (snd x)"
    using f x by (simp_all add: file_ok_def chain_ok_def)
  note eq = same_item(3) [OF ix v(1)]
  show ?thesis
  proof (cases "up v = up (val_of (snd x))")
    case True
    have "view (fst x, snd x) = new_value v (view x)" using True by (simp add: new_value_def view_def)
    moreover have "set_value f x tV =
        Some (f\<lparr>Items := store_item (fst x) (snd x) (Items f), Modified := Modified f\<rparr>)"
      using True eq store_item_same [OF dist x] by (simp add: set_value_def)
    ultimately show ?thesis using ix by blast
  next
    case False
    obtain b where b: "SctAsciiStrnCpy (ptrValue (snd x)) tV MAX_STRING_LEN = Some b"
      "field_ok b" "text_of b = v"
      using fill_field [OF v] ix field_ok_length by (metis item_ok_def)
    let ?it = "(snd x)\<lparr>ptrValue := b\<rparr>"
    have "item_ok ?it" using ix b(2) by (simp add: item_ok_def)
    moreover have "view (fst x, ?it) = new_value v (view x)"
      using False b(3) by (simp add: new_value_def view_def)
    moreover have "set_value f x tV =
        Some (f\<lparr>Items := store_item (fst x) ?it (Items f), Modified := True\<rparr>)"
      using False eq b(1) by (simp add: set_value_def)
    ultimately show ?thesis by blast
  qed
qed

lemma set_value_spec:
  assumes f: "file_ok f" and x: "List.find (\<lambda>x. hits s e (view x)) (Items f) = Some x"
    and v: "cstr tV = Some v" "length v < 100"
  shows "\<exists>f'. set_value f x tV = Some f' \<and> file_ok f' \<and>
    entries f' = a_update s e v (entries f) \<and> fst ` set (Items f') = fst ` set (Items f)"
proof -
  have dist: "distinct (map fst (Items f))" using f by (simp add: file_ok_def chain_ok_def)
  have "x \<in> set (Items f)" using x by (auto simp: find_Some_iff)
  then obtain it m where it: "item_ok it" "view (fst x, it) = new_value v (view x)"
    and run: "set_value f x tV = Some (f\<lparr>Items := store_item (fst x) it (Items f), Modified := m\<rparr>)"
    using set_value_run [OF f _ v] by blast
  have "chain_ok (store_item (fst x) it (Items f)) (Tail f)"
    using f it(1) chain_ok_store by (simp add: file_ok_def)
  moreover have "fst ` set (store_item (fst x) it (Items f)) = fst ` set (Items f)"
    by (metis list.set_map store_item_fst)
  ultimately show ?thesis
    using run store_item_view [OF dist x it(2)] by (simp add: file_ok_def entries_def)
qed

text \<open>The two ways a new record enters the chain: behind a record, and with a new section.\<close>

lemma add_entry_after:
  assumes f: "file_ok f" and n: "fresh n f" and pool: "pool_ok Pool" and P: "Pool n \<noteq> None"
    and t: "cstr tS = Some s" "cstr tE = Some e" "cstr tV = Some v"
    and l: "length s < 100" "length e < 100" "length v < 100"
    and p: "p \<in> fst ` set (Items f)"
  shows "\<exists>it f'. add_entry Pool n f (Some p) tS tE tV = Some (EFI_SUCCESS, f') \<and>
    file_ok f' \<and> fresh (n + 2) f' \<and> Items f' = link_after p (n, it) (Items f) \<and>
    view (n, it) = (s, e, v)"
proof -
  obtain r where r: "Pool n = Some r" using P by blast
  then have len: "length (ptrSection r) = 101" "length (ptrEntry r) = 101" "length (ptrValue r) = 101"
    using pool by (auto simp: pool_ok_def)
  obtain it where it: "entry_item r tS tE tV = Some it" "item_ok it" "\<forall>a. view (a, it) = (s, e, v)"
    using entry_item_spec [OF t l len] by blast
  have c: "chain_ok (Items f) (Tail f)" using f by (simp add: file_ok_def)
  have "n \<notin> fst ` set (Items f)" using n by (auto simp: fresh_def)
  then have "chain_ok (link_after p (n, it) (Items f)) (if Tail f = Some p then Some n else Tail f)"
    using chain_ok_link_after [OF c p, of "(n, it)"] it(2) by (auto split: if_splits)
  then show ?thesis
    using r it n set_link_after [OF p, of "(n, it)"]
    by (intro exI [of _ it]) (auto simp: add_entry_def file_ok_def fresh_def)
qed

lemma add_entry_new:
  assumes f: "file_ok f" and n: "fresh n f" and pool: "pool_ok Pool"
    and P: "Pool n \<noteq> None" "Pool (Suc n) \<noteq> None"
    and t: "cstr tS = Some s" "cstr tE = Some e" "cstr tV = Some v"
    and l: "length s < 100" "length e < 100" "length v < 100"
  shows "\<exists>f'. add_entry Pool n f None tS tE tV = Some (EFI_SUCCESS, f') \<and>
    file_ok f' \<and> fresh (n + 2) f' \<and> entries f' = entries f @ [(s, [], []), (s, e, v)]"
proof -
  obtain r0 r1 where r: "Pool n = Some r0" "Pool (Suc n) = Some r1" using P by blast
  then have len: "length (ptrSection r0) = 101" "length (ptrEntry r0) = 101" "length (ptrValue r0) = 101"
    "length (ptrSection r1) = 101" "length (ptrEntry r1) = 101" "length (ptrValue r1) = 101"
    using pool by (auto simp: pool_ok_def)
  obtain it where it: "entry_item r0 tS tE tV = Some it" "item_ok it" "\<forall>a. view (a, it) = (s, e, v)"
    using entry_item_spec [OF t l len(1-3)] by blast
  obtain hd' where h: "head_item r1 tS = Some hd'" "item_ok hd'" "\<forall>a. view (a, hd') = (s, [], [])"
    using head_item_spec [OF t(1) l(1) len(4-6)] by blast
  have c: "chain_ok (Items f) (Tail f)" using f by (simp add: file_ok_def)
  have new: "n \<notin> fst ` set (Items f)" "Suc n \<notin> fst ` set (Items f)"
    using n by (auto simp: fresh_def)
  define its where "its = Items f @ [(Suc n, hd'), (n, it)]"
  have "(case Tail f of Some t \<Rightarrow> link_next t [(Suc n, hd'), (n, it)] (Items f)
      | None \<Rightarrow> [(Suc n, hd'), (n, it)]) = its"
    using c link_next_last [of "Items f"] by (auto simp: chain_ok_def its_def)
  then have run: "add_entry Pool n f None tS tE tV =
      Some (EFI_SUCCESS, f\<lparr>Items := its, Tail := Some n, Modified := True\<rparr>)"
    using r it(1) h(1) by (simp add: add_entry_def)
  have "chain_ok its (Some n)"
    using c new it(2) h(2) by (auto simp: chain_ok_def its_def)
  moreover have "map view its = entries f @ [(s, [], []), (s, e, v)]"
    using it(3) h(3) by (simp add: its_def entries_def)
  moreover have "\<forall>x\<in>set its. fst x < n + 2" using n by (auto simp: its_def fresh_def)
  ultimately show ?thesis using run by (auto simp: file_ok_def entries_def fresh_def)
qed

lemma add_entry_spec:
  assumes f: "file_ok f" and n: "fresh n f" and pool: "pool_ok Pool"
    and P: "Pool n \<noteq> None" "Pool (Suc n) \<noteq> None"
    and t: "cstr tS = Some s" "cstr tE = Some e" "cstr tV = Some v"
    and l: "length s < 100" "length e < 100" "length v < 100"
  shows "\<exists>f'. add_entry Pool n f (last_in s None (Items f)) tS tE tV = Some (EFI_SUCCESS, f') \<and>
    file_ok f' \<and> fresh (n + 2) f' \<and>
    entries f' = (if list_ex (in_section s) (entries f)
      then insert_last (in_section s) (s, e, v) (entries f)
      else entries f @ [(s, [], []), (s, e, v)])"
proof (cases "last_in s None (Items f)")
  case (Some p)
  have dist: "distinct (map fst (Items f))" using f by (simp add: file_ok_def chain_ok_def)
  have ex: "list_ex (in_section s) (entries f)"
    using Some last_in_None [of s "Items f"] by (simp add: entries_def)
  note la = link_after_last_in [OF dist Some]
  then have "p \<in> fst ` set (Items f)" by blast
  from add_entry_after [OF f n pool P(1) t l this] show ?thesis
    using la ex Some by (auto simp: entries_def)
next
  case None
  then have "\<not> list_ex (in_section s) (entries f)"
    using last_in_None [of s "Items f"] by (simp add: entries_def)
  then show ?thesis using add_entry_new [OF f n pool P t l] None by simp
qed

lemma find_hits_None: "List.find (\<lambda>x. hits s e (view x)) its = None \<longleftrightarrow> \<not> list_ex (hits s e) (map view its)"
  by (auto simp: find_None_iff list_ex_iff)

lemma EfiIniSetString_entries:
  assumes f: "file_ok f" and n: "fresh n f" and pool: "pool_ok Pool"
    and P: "Pool n \<noteq> None" "Pool (Suc n) \<noteq> None" and stk: "stack_ok Stk"
    and S: "cstr Section = Some S" "length S \<le> 100" and E: "cstr Entry = Some E" "length E \<le> 100"
    and V: "cstr String = Some V" "length V \<le> 100"
    and ne: "name_of S \<noteq> []" "name_of E \<noteq> []"
    and l: "length (name_of S) < 100" "length (name_of E) < 100" "length (name_of V) < 100"
  shows "\<exists>f'. EfiIniSetString Stk Pool n f (Some Section) (Some Entry) (Some String) =
      Some (EFI_SUCCESS, f') \<and> file_ok f' \<and> fresh (n + 2) f' \<and>
    entries f' = a_set (name_of S) (name_of E) (name_of V) (entries f)"
proof -
  obtain tS tE where nm: "ini_names Stk Section Entry = Some (Some (tS, tE))"
    "cstr tS = Some (name_of S)" "cstr tE = Some (name_of E)"
    using ini_names_spec [OF S E stk ne] by blast
  obtain pV where pV: "to_ascii (Stk L_ptrString) String = Some (Some pV)" "cstr pV = Some (low_bytes V)"
    using to_ascii_spec [OF V stack_ok_length [OF stk]] by blast
  have "length (low_bytes V) < length (Stk L_tmpString)"
    using V(2) length_low_bytes [of V] stack_ok_length [OF stk] by simp
  then obtain tV where tV: "trim_copy (Stk L_tmpString) pV = Some tV" "cstr tV = Some (name_of V)"
    using trim_copy_spec [OF pV(2), of "Stk L_tmpString"] stack_ok_length [OF stk] by (auto simp: name_of_def)
  have ok: "\<forall>x\<in>set (Items f). item_ok (snd x)" using f by (simp add: file_ok_def chain_ok_def)
  have long: "any_too_long [Section, Entry, String] = Some False"
    by (rule any_too_long_spec) (use S E V in simp)
  let ?r = "List.find (\<lambda>x. hits (name_of S) (name_of E) (view x)) (Items f)"
  have run: "EfiIniSetString Stk Pool n f (Some Section) (Some Entry) (Some String) =
      (case ?r of
         Some x \<Rightarrow> map_option (\<lambda>f. (EFI_SUCCESS, f)) (set_value f x tV)
       | None \<Rightarrow> add_entry Pool n f (last_in (name_of S) None (Items f)) tS tE tV)"
    using set_scan_spec [OF ok nm(2,3)]
    by (simp add: EfiIniSetString_def long nm(1) pV(1) tV(1) split: option.split)
  show ?thesis
  proof (cases ?r)
    case None
    then have "\<not> list_ex (hits (name_of S) (name_of E)) (entries f)"
      by (simp add: find_hits_None entries_def)
    then show ?thesis
      using run None add_entry_spec [OF f n pool P nm(2,3) tV(2) l] by (auto simp: a_set_def)
  next
    case (Some x)
    then have "list_ex (hits (name_of S) (name_of E)) (entries f)"
      using find_hits_None [of "name_of S" "name_of E" "Items f"] by (simp add: entries_def)
    moreover have "fresh (n + 2) f'" if "fst ` set (Items f') = fst ` set (Items f)" for f' :: "'a EFI_INI_FILE"
    proof -
      have "\<forall>a\<in>fst ` set (Items f'). a < n + 2" unfolding that using n by (auto simp: fresh_def)
      then show ?thesis by (simp add: fresh_def)
    qed
    ultimately show ?thesis
      using run Some set_value_spec [OF f Some tV(2) l(3)] by (auto simp: a_set_def)
  qed
qed

subsection \<open>Removing\<close>

lemma rmComment_filter: "rmComment cs it = filter (\<lambda>c. cmtNo c \<noteq> commentNo it) cs"
  by (induction cs) auto

definition last_addr :: "nat option \<Rightarrow> item list \<Rightarrow> nat option" where
  "last_addr prev ys = (if ys = [] then prev else Some (fst (last ys)))"

lemma rm_loop_spec:
  assumes "\<forall>x\<in>set its. item_ok (snd x)" "cstr tS = Some s"
    and "its \<noteq> [] \<longrightarrow> tail = Some (fst (last its))" "its = [] \<longrightarrow> tail = prev"
  shows "\<exists>cs'. rm_loop tS prev its cs tail modified =
    Some (filter (\<lambda>x. \<not> in_section s (view x)) its, cs',
      last_addr prev (filter (\<lambda>x. \<not> in_section s (view x)) its),
      modified \<or> list_ex (in_section s) (map view its)) \<and>
    cs' = filter (\<lambda>c. \<forall>x\<in>set its. in_section s (view x) \<longrightarrow> cmtNo c \<noteq> commentNo (snd x)) cs"
  using assms(1,3,4)
proof (induction its arbitrary: prev cs tail modified)
  case (Cons y its)
  obtain a it where y: "y = (a, it)" by (cases y)
  have "item_ok it" using Cons.prems y by simp
  then have m: "same tS (ptrSection it) = Some (in_section s (view y))"
    using same_item(1) [OF _ assms(2)] by (simp add: in_section_def view_def y)
  have ok: "\<forall>x\<in>set its. item_ok (snd x)" using Cons.prems by simp
  show ?case
  proof (cases "in_section s (view y)")
    case True
    have c1: "its \<noteq> [] \<longrightarrow> (if its = [] then prev else tail) = Some (fst (last its))"
      and c2: "its = [] \<longrightarrow> (if its = [] then prev else tail) = prev"
      using Cons.prems(2) by auto
    show ?thesis
      using Cons.IH [OF ok c1 c2, of "rmComment cs it" True] m True
      by (auto simp: y rmComment_filter intro!: filter_cong)
  next
    case False
    have c1: "its \<noteq> [] \<longrightarrow> tail = Some (fst (last its))" and c2: "its = [] \<longrightarrow> tail = Some a"
      using Cons.prems(2) y by auto
    show ?thesis
      using Cons.IH [OF ok c1 c2, of cs modified] m False
      by (auto simp: y last_addr_def)
  qed
qed (simp add: last_addr_def)

lemma chain_ok_filter:
  "chain_ok its t \<Longrightarrow>
    chain_ok (filter P its) (last_addr None (filter P its))"
  by (auto simp: chain_ok_def distinct_map_filter last_addr_def)

lemma EfiIniRmSection_entries:
  assumes f: "file_ok f" and stk: "stack_ok Stk" and S: "cstr Section = Some S" "length S \<le> 100"
  shows "\<exists>f'. EfiIniRmSection Stk f (Some Section) =
      Some (if Modified f \<or> list_ex (in_section (name_of S)) (entries f) then EFI_SUCCESS
            else EFI_NOT_FOUND, f') \<and>
    file_ok f' \<and> entries f' = a_rm (name_of S) (entries f) \<and>
    Items f' = filter (\<lambda>x. \<not> in_section (name_of S) (view x)) (Items f) \<and>
    CommentLines f' = filter (\<lambda>c. \<forall>x\<in>set (Items f).
      in_section (name_of S) (view x) \<longrightarrow> cmtNo c \<noteq> commentNo (snd x)) (CommentLines f)"
proof -
  obtain pS where pS: "to_ascii (Stk L_ptrSection) Section = Some (Some pS)" "cstr pS = Some (low_bytes S)"
    using to_ascii_spec [OF S stack_ok_length [OF stk]] by blast
  have "length (low_bytes S) < length (Stk L_tmpSection)"
    using S(2) length_low_bytes [of S] stack_ok_length [OF stk] by simp
  then obtain tS where tS: "trim_copy (Stk L_tmpSection) pS = Some tS" "cstr tS = Some (name_of S)"
    using trim_copy_spec [OF pS(2), of "Stk L_tmpSection"] stack_ok_length [OF stk] by (auto simp: name_of_def)
  have c: "chain_ok (Items f) (Tail f)" using f by (simp add: file_ok_def)
  define ys where "ys = filter (\<lambda>x. \<not> in_section (name_of S) (view x)) (Items f)"
  obtain cs' where rm: "rm_loop tS None (Items f) (CommentLines f) (Tail f) (Modified f) =
      Some (ys, cs', last_addr None ys,
        Modified f \<or> list_ex (in_section (name_of S)) (entries f))"
    and cs': "cs' = filter (\<lambda>c. \<forall>x\<in>set (Items f).
      in_section (name_of S) (view x) \<longrightarrow> cmtNo c \<noteq> commentNo (snd x)) (CommentLines f)"
    using rm_loop_spec [of "Items f" tS "name_of S" "Tail f" None "CommentLines f" "Modified f"]
      c tS(2) by (auto simp: chain_ok_def ys_def entries_def)
  have "map view ys = a_rm (name_of S) (entries f)"
    by (simp add: ys_def a_rm_def entries_def filter_map comp_def)
  moreover have "chain_ok ys (last_addr None ys)"
    using chain_ok_filter [OF c, of "\<lambda>x. \<not> in_section (name_of S) (view x)"]
    by (simp add: ys_def)
  ultimately show ?thesis
    using pS(1) tS(1) rm cs' by (auto simp: EfiIniRmSection_def file_ok_def entries_def ys_def)
qed

end
