(* ===== verification/Ini_Store.thy ===== *)
theory Ini_Store
  imports Ini_Ops
begin

text \<open>
  The laws of the name table an INI file implements, as an interface: looking up what was
  set, independence of other names, and the effect of a sequence of settings. The model of
  \<open>TestProfile.c\<close> is an instance. The section structure (every record stands behind the head
  of its own section) is an invariant of the operations.
\<close>

section \<open>The interface\<close>

locale string_table =
  fixes get :: "'t \<Rightarrow> 'k \<Rightarrow> 'v option"
    and put :: "'t \<Rightarrow> 'k \<Rightarrow> 'v \<Rightarrow> 't"
    and valid :: "'k \<Rightarrow> bool"
    and keq :: "'k \<Rightarrow> 'k \<Rightarrow> bool"
    and veq :: "'v \<Rightarrow> 'v \<Rightarrow> bool"
  assumes get_put: "valid k \<Longrightarrow> keq k k' \<Longrightarrow> \<exists>w. get (put t k v) k' = Some w \<and> veq w v"
    and get_put_other: "valid k' \<Longrightarrow> \<not> keq k k' \<Longrightarrow> get (put t k v) k' = get t k'"
begin

text \<open>After a sequence of settings, a name has the value of its last setting.\<close>

lemma get_puts:
  assumes "\<forall>(k, v)\<in>set kvs. valid k" and "valid k'"
  shows "case List.find (\<lambda>(k, v). keq k k') (rev kvs) of
    Some (k, v) \<Rightarrow> \<exists>w. get (foldl (\<lambda>t (k, v). put t k v) t kvs) k' = Some w \<and> veq w v
  | None \<Rightarrow> get (foldl (\<lambda>t (k, v). put t k v) t kvs) k' = get t k'"
  using assms(1)
proof (induction kvs rule: rev_induct)
  case (snoc kv kvs)
  obtain k v where kv: "kv = (k, v)" by (cases kv)
  show ?case
  proof (cases "keq k k'")
    case True
    then show ?thesis using get_put [of k k'] snoc.prems kv by simp
  next
    case False
    then show ?thesis
      using snoc.IH snoc.prems kv get_put_other [OF assms(2) False] by (auto split: option.splits)
  qed
qed simp

end

section \<open>The laws of the model\<close>

lemma hits_new_value [simp]: "hits s e (new_value v x) = hits s e x"
  by (simp add: hits_def new_value_def)

lemma up_new_value [simp]: "up (snd (snd (new_value v x))) = up v"
  by (simp add: new_value_def)

lemma a_get_simps [simp]:
  "a_get s e [] = None"
  "a_get s e (x # xs) = (if hits s e x then Some (snd (snd x)) else a_get s e xs)"
  by (simp_all add: a_get_def)

lemma a_get_cong: "up s = up s' \<Longrightarrow> up e = up e' \<Longrightarrow> a_get s e = a_get s' e'"
proof -
  assume "up s = up s'" "up e = up e'"
  then have h: "hits s e = hits s' e'" unfolding hits_def fun_eq_iff by simp
  show ?thesis unfolding a_get_def h ..
qed

lemma hits_unique: "hits s e x \<Longrightarrow> hits s' e' x \<Longrightarrow> up s = up s' \<and> up e = up e'"
  by (simp add: hits_def)

lemma a_get_append: "a_get s e (xs @ ys) = (case a_get s e xs of None \<Rightarrow> a_get s e ys | r \<Rightarrow> r)"
  by (induction xs) auto

lemma a_get_None: "a_get s e xs = None \<longleftrightarrow> \<not> list_ex (hits s e) xs"
  by (induction xs) auto

lemma a_get_update:
  "list_ex (hits s e) xs \<Longrightarrow> \<exists>w. a_get s e (a_update s e v xs) = Some w \<and> up w = up v"
proof (induction xs)
  case (Cons x xs)
  then show ?case by (cases "hits s e x") simp_all
qed simp

lemma a_get_update_other:
  "\<not> (up s = up s' \<and> up e = up e') \<Longrightarrow> a_get s' e' (a_update s e v xs) = a_get s' e' xs"
proof (induction xs)
  case (Cons x xs)
  then show ?case using hits_unique [of s e x s' e'] by (cases "hits s e x") auto
qed simp

lemma a_get_insert_last:
  "list_ex P xs \<Longrightarrow> hits s e y \<Longrightarrow> a_get s e xs = None \<Longrightarrow>
    a_get s e (insert_last P y xs) = Some (snd (snd y))"
  by (induction xs) (auto split: if_splits)

lemma a_get_insert_last_other: "\<not> hits s e y \<Longrightarrow> a_get s e (insert_last P y xs) = a_get s e xs"
  by (induction xs) simp_all

lemma a_get_set:
  assumes "e \<noteq> []" "up s = up s'" "up e = up e'"
  shows "\<exists>w. a_get s' e' (a_set s e v xs) = Some w \<and> up w = up v"
proof -
  have h: "a_get s' e' = a_get s e" using a_get_cong assms by metis
  have new: "hits s e (s, e, v)" "\<not> hits s e (s, [], [])" using assms(1) by (auto simp: hits_def)
  consider (hit) "list_ex (hits s e) xs"
    | (sec) "\<not> list_ex (hits s e) xs" "list_ex (in_section s) xs"
    | (none) "\<not> list_ex (hits s e) xs" "\<not> list_ex (in_section s) xs" by blast
  then show ?thesis
  proof cases
    case hit
    then show ?thesis using a_get_update [OF hit, of v] h by (simp add: a_set_def)
  next
    case sec
    then have "a_get s e xs = None" by (simp add: a_get_None)
    from a_get_insert_last [OF sec(2) new(1) this] show ?thesis using sec h by (simp add: a_set_def)
  next
    case none
    then have "a_get s e xs = None" by (simp add: a_get_None)
    then show ?thesis using none h new by (simp add: a_set_def a_get_append)
  qed
qed

lemma a_get_set_other:
  assumes "e' \<noteq> []" "\<not> (up s = up s' \<and> up e = up e')"
  shows "a_get s' e' (a_set s e v xs) = a_get s' e' xs"
proof -
  have new: "\<not> hits s' e' (s, e, v)" "\<not> hits s' e' (s, [], [])" using assms by (auto simp: hits_def)
  then show ?thesis
    using a_get_update_other [OF assms(2), of v xs] a_get_insert_last_other [OF new(1)]
    by (simp add: a_set_def a_get_append split: option.split)
qed

lemma a_get_rm: "a_get s' e (a_rm s xs) = (if up s = up s' then None else a_get s' e xs)"
proof (induction xs)
  case (Cons x xs)
  then show ?case by (auto simp: a_rm_def in_section_def hits_def)
qed (simp add: a_rm_def)

definition key_eq :: "u8 list \<times> u8 list \<Rightarrow> u8 list \<times> u8 list \<Rightarrow> bool" where
  "key_eq k k' \<longleftrightarrow> up (fst k) = up (fst k') \<and> up (snd k) = up (snd k')"

interpretation ini_table: string_table "\<lambda>xs k. a_get (fst k) (snd k) xs"
    "\<lambda>xs k v. a_set (fst k) (snd k) v xs" "\<lambda>k. snd k \<noteq> []" key_eq "\<lambda>w v. up w = up v"
  by unfold_locales (simp_all add: key_eq_def a_get_set a_get_set_other)

section \<open>Sections\<close>

text \<open>Every record stands behind the head of its section.\<close>

fun grouped_from :: "u8 list option \<Rightarrow> entry list \<Rightarrow> bool" where
  "grouped_from cur [] = True"
| "grouped_from cur ((s, e, v) # xs) =
     (if e = [] then grouped_from (Some (up s)) xs
      else cur = Some (up s) \<and> grouped_from cur xs)"

definition grouped :: "entry list \<Rightarrow> bool" where
  "grouped xs = grouped_from None xs"

lemma grouped_update:
  "e \<noteq> [] \<Longrightarrow> grouped_from cur xs \<Longrightarrow> grouped_from cur (a_update s e v xs)"
  by (induction cur xs rule: grouped_from.induct) (auto simp: new_value_def split: if_splits)

lemma grouped_insert_last:
  "e \<noteq> [] \<Longrightarrow> list_ex (in_section s) xs \<Longrightarrow> grouped_from cur xs \<Longrightarrow>
    grouped_from cur (insert_last (in_section s) (s, e, v) xs)"
proof (induction xs arbitrary: cur)
  case (Cons x xs)
  obtain s' e' v' where x: "x = (s', e', v')" by (cases x)
  show ?case
  proof (cases "list_ex (in_section s) xs")
    case True
    then show ?thesis using Cons x by (auto split: if_splits)
  next
    case False
    then have s: "in_section s x" using Cons.prems by simp
    then have "up s = up s'" by (simp add: x in_section_def)
    then show ?thesis using Cons.prems False s x by (auto split: if_splits)
  qed
qed simp

lemma grouped_append:
  "e \<noteq> [] \<Longrightarrow> grouped_from cur xs \<Longrightarrow> grouped_from cur (xs @ [(s, [], []), (s, e, v)])"
  by (induction cur xs rule: grouped_from.induct) (auto split: if_splits)

lemma grouped_a_set: "e \<noteq> [] \<Longrightarrow> grouped xs \<Longrightarrow> grouped (a_set s e v xs)"
  by (simp add: grouped_def a_set_def grouped_update grouped_insert_last grouped_append)

lemma a_rm_simps [simp]:
  "a_rm s [] = []"
  "a_rm s (x # xs) = (if in_section s x then a_rm s xs else x # a_rm s xs)"
  by (simp_all add: a_rm_def)

lemma grouped_rm_from:
  "grouped_from cur xs \<Longrightarrow> cur' = cur \<or> cur = Some (up s) \<Longrightarrow> grouped_from cur' (a_rm s xs)"
proof (induction xs arbitrary: cur cur')
  case (Cons x xs)
  obtain s' e v where x: "x = (s', e, v)" by (cases x)
  have sec: "in_section s x \<longleftrightarrow> up s = up s'" by (simp add: x in_section_def)
  show ?case
  proof (cases "e = []")
    case True
    then have "grouped_from (Some (up s')) xs" using Cons.prems(1) x by simp
    then show ?thesis
      using Cons.IH [of "Some (up s')" cur'] Cons.IH [of "Some (up s')" "Some (up s')"] sec x True
      by auto
  next
    case False
    then have "cur = Some (up s')" "grouped_from cur xs" using Cons.prems(1) x by auto
    then show ?thesis using Cons.IH [of cur cur'] Cons.prems(2) sec x False by auto
  qed
qed simp

lemma grouped_a_rm: "grouped xs \<Longrightarrow> grouped (a_rm s xs)"
  by (simp add: grouped_def grouped_rm_from)

end
