(* ===== verification/Ini_Order.thy ===== *)
theory Ini_Order
  imports Ini_Store
begin

text \<open>
  The operations by section order of \<open>TestProfile.c\<close>: \<open>_searchSection\<close>,
  \<open>_getNextSection\<close>, \<open>EfiIniGetStringByOrder\<close>, \<open>EfiIniSetStringByOrder\<close>,
  \<open>EfiIniRmSectionByOrder\<close> and \<open>EfiIniGetOrderNum\<close>. A file is read as a list of sections;
  the operations work on the one among the sections of a name that has the given order.
  A pointer into the chain of records is the rest of the chain from there.
\<close>

section \<open>The operations\<close>

text \<open>The loop of \<open>_getNextSection\<close>, from \<open>CurSection->ptrNext\<close>.\<close>

fun getNextSection :: "item list \<Rightarrow> item list option" where
  "getNextSection [] = Some []"
| "getNextSection ((a, it) # its) = do {
     c \<leftarrow> rd (ptrEntry it) 0;
     if c = 0 then Some ((a, it) # its) else getNextSection its }"

lemma getNextSection_length: "getNextSection its = Some r \<Longrightarrow> length r \<le> length its"
  by (induction its rule: getNextSection.induct)
    (auto simp: bind_eq_Some_conv split: if_splits intro: le_SucI)

function search_loop :: "u32 \<Rightarrow> u32 \<Rightarrow> u8 list \<Rightarrow> item list \<Rightarrow> item list option" where
  "search_loop CurOrder Order Section [] = Some []"
| "search_loop CurOrder Order Section ((a, it) # its) =
     (case same Section (ptrSection it) of
        None \<Rightarrow> None
      | Some m \<Rightarrow>
          if m \<and> CurOrder = Order then Some ((a, it) # its)
          else (case getNextSection its of
                  None \<Rightarrow> None
                | Some r \<Rightarrow> search_loop (if m then CurOrder + 1 else CurOrder) Order Section r))"
  by pat_completeness auto
termination
  by (relation "measure (\<lambda>(_, _, _, its). length its)")
    (auto dest: getNextSection_length)

definition searchSection :: "item list \<Rightarrow> u32 \<Rightarrow> u8 list \<Rightarrow> item list option" where
  "searchSection Head Order Section = search_loop 0 Order Section Head"

text \<open>The loop over one section, with \<open>ptrPrev\<close>: the record found, or the last record.\<close>

fun order_scan :: "u8 list \<Rightarrow> u8 list \<Rightarrow> nat option \<Rightarrow> item list \<Rightarrow> (item + nat option) option" where
  "order_scan tmpSection tmpEntry ptrPrev [] = Some (Inr ptrPrev)"
| "order_scan tmpSection tmpEntry ptrPrev ((a, it) # its) = do {
     c \<leftarrow> rd (ptrEntry it) 0;
     if c = 0 then Some (Inr ptrPrev) else do {
       m \<leftarrow> item_matches tmpSection tmpEntry it;
       if m then Some (Inl (a, it)) else order_scan tmpSection tmpEntry (Some a) its } }"

definition EfiIniGetStringByOrder ::
    "stack \<Rightarrow> 'd EFI_INI_FILE \<Rightarrow> u32 \<Rightarrow> u16 list option \<Rightarrow> u16 list option \<Rightarrow> u16 list option \<Rightarrow> u32 \<Rightarrow>
     (EFI_STATUS \<times> u16 list option \<times> u32) option" where
  "EfiIniGetStringByOrder Stk This Order Section Entry String maxLength =
     (case (Section, Entry, String) of
        (Some Section, Some Entry, Some String) \<Rightarrow> do {
          String \<leftarrow> SctStrCpy String [0];
          long \<leftarrow> any_too_long [Section, Entry];
          if long then Some (EFI_INVALID_PARAMETER, Some String, maxLength) else do {
            names \<leftarrow> ini_names Stk Section Entry;
            (case names of
               None \<Rightarrow> Some (EFI_INVALID_PARAMETER, Some String, maxLength)
             | Some (tmpSection, tmpEntry) \<Rightarrow> do {
                 ptrCur \<leftarrow> searchSection (Items This) Order tmpSection;
                 found \<leftarrow> order_scan tmpSection tmpEntry None (tl ptrCur);
                 (case found of
                    Inr _ \<Rightarrow> Some (EFI_NOT_FOUND, Some String, maxLength)
                  | Inl x \<Rightarrow> return_value Stk (snd x) String maxLength) }) } }
      | _ \<Rightarrow> Some (EFI_INVALID_PARAMETER, String, maxLength))"

definition EfiIniSetStringByOrder ::
    "stack \<Rightarrow> pool \<Rightarrow> nat \<Rightarrow> 'd EFI_INI_FILE \<Rightarrow> u32 \<Rightarrow> u16 list option \<Rightarrow> u16 list option \<Rightarrow> u16 list option \<Rightarrow>
     (EFI_STATUS \<times> 'd EFI_INI_FILE) option" where
  "EfiIniSetStringByOrder Stk Pool n Private Order Section Entry String =
     (case (Section, Entry, String) of
        (Some Section, Some Entry, Some String) \<Rightarrow> do {
          long \<leftarrow> any_too_long [Section, Entry, String];
          if long then Some (EFI_INVALID_PARAMETER, Private) else do {
            names \<leftarrow> ini_names Stk Section Entry;
            (case names of
               None \<Rightarrow> Some (EFI_INVALID_PARAMETER, Private)
             | Some (tmpSection, tmpEntry) \<Rightarrow> do {
                 str \<leftarrow> to_ascii (Stk L_ptrString) String;
                 (case str of
                    None \<Rightarrow> Some (EFI_INVALID_PARAMETER, Private)
                  | Some pString \<Rightarrow> do {
                      tmpString \<leftarrow> trim_copy (Stk L_tmpString) pString;
                      ptrCur \<leftarrow> searchSection (Items Private) Order tmpSection;
                      found \<leftarrow> order_scan tmpSection tmpEntry
                        (case ptrCur of [] \<Rightarrow> None | x # _ \<Rightarrow> Some (fst x)) (tl ptrCur);
                      (case found of
                         Inl x \<Rightarrow> map_option (\<lambda>f. (EFI_SUCCESS, f)) (set_value Private x tmpString)
                       | Inr ptrPrev \<Rightarrow>
                           add_entry Pool n Private ptrPrev tmpSection tmpEntry tmpString) }) }) } }
      | _ \<Rightarrow> Some (EFI_INVALID_PARAMETER, Private))"

text \<open>The record before the section, and the removal of its entries up to the next head.\<close>

fun prev_of :: "nat \<Rightarrow> nat option \<Rightarrow> item list \<Rightarrow> nat option" where
  "prev_of ptrSect ptrPrev [] = ptrPrev"
| "prev_of ptrSect ptrPrev ((a, it) # its) =
     (if a = ptrSect then ptrPrev else prev_of ptrSect (Some a) its)"

fun rm_entries :: "item list \<Rightarrow> COMMENTLINE list \<Rightarrow> (item list \<times> COMMENTLINE list) option" where
  "rm_entries [] Comments = Some ([], Comments)"
| "rm_entries ((a, it) # its) Comments = do {
     c \<leftarrow> rd (ptrEntry it) 0;
     if c = 0 then Some ((a, it) # its, Comments) else rm_entries its (rmComment Comments it) }"

definition EfiIniRmSectionByOrder ::
    "stack \<Rightarrow> 'd EFI_INI_FILE \<Rightarrow> u32 \<Rightarrow> u16 list option \<Rightarrow> (EFI_STATUS \<times> 'd EFI_INI_FILE) option" where
  "EfiIniRmSectionByOrder Stk Private Order Section =
     (case Section of
        None \<Rightarrow> Some (EFI_INVALID_PARAMETER, Private)
      | Some Section \<Rightarrow> do {
          s \<leftarrow> to_ascii (Stk L_ptrSection) Section;
          (case s of
             None \<Rightarrow> Some (EFI_INVALID_PARAMETER, Private)
           | Some pSection \<Rightarrow> do {
               tmpSection \<leftarrow> trim_copy (Stk L_tmpSection) pSection;
               ptrSect \<leftarrow> searchSection (Items Private) Order tmpSection;
               (case ptrSect of
                  [] \<Rightarrow> Some (EFI_NOT_FOUND, Private)
                | x # rest \<Rightarrow> do {
                    (ptrNext, cs) \<leftarrow> rm_entries rest (rmComment (CommentLines Private) (snd x));
                    let ptrPrev = prev_of (fst x) None (Items Private) in
                    Some (EFI_SUCCESS,
                      Private\<lparr>Items := (case ptrPrev of
                                 None \<Rightarrow> ptrNext
                               | Some p \<Rightarrow> link_next p ptrNext (Items Private)),
                              Tail := (if ptrNext = [] then ptrPrev else Tail Private),
                              CommentLines := cs,
                              Modified := True\<rparr>) }) }) })"

function order_loop :: "u8 list \<Rightarrow> u32 \<Rightarrow> item list \<Rightarrow> u32 option" where
  "order_loop tmpSection OrderNum [] = Some OrderNum"
| "order_loop tmpSection OrderNum ((a, it) # its) =
     (case same tmpSection (ptrSection it) of
        None \<Rightarrow> None
      | Some m \<Rightarrow>
          (case getNextSection its of
             None \<Rightarrow> None
           | Some r \<Rightarrow> order_loop tmpSection (if m then OrderNum + 1 else OrderNum) r))"
  by pat_completeness auto
termination
  by (relation "measure (\<lambda>(_, _, its). length its)")
    (auto dest: getNextSection_length)

definition EfiIniGetOrderNum ::
    "stack \<Rightarrow> 'd EFI_INI_FILE \<Rightarrow> u16 list option \<Rightarrow> u32 option \<Rightarrow> (EFI_STATUS \<times> u32 option) option" where
  "EfiIniGetOrderNum Stk Private Section OrderNum =
     (case (OrderNum, Section) of
        (Some _, Some Section) \<Rightarrow> do {
          s \<leftarrow> to_ascii (Stk L_ptrSection) Section;
          (case s of
             None \<Rightarrow> Some (EFI_INVALID_PARAMETER, OrderNum)
           | Some pSection \<Rightarrow> do {
               tmpSection \<leftarrow> trim_copy (Stk L_tmpSection) pSection;
               n \<leftarrow> order_loop tmpSection 0 (Items Private);
               Some (EFI_SUCCESS, Some n) }) }
      | _ \<Rightarrow> Some (EFI_INVALID_PARAMETER, OrderNum))"

section \<open>A file as a list of sections\<close>

definition is_head :: "entry \<Rightarrow> bool" where
  "is_head x \<longleftrightarrow> fst (snd x) = []"

function sections :: "entry list \<Rightarrow> entry list list" where
  "sections [] = []"
| "sections (x # xs) =
     (x # takeWhile (\<lambda>y. \<not> is_head y) xs) # sections (dropWhile (\<lambda>y. \<not> is_head y) xs)"
  by pat_completeness auto
termination
  by (relation "measure length") (auto simp: le_imp_less_Suc length_dropWhile_le)

text \<open>The section of order \<open>k\<close> among those of a name, and a change of just that section.\<close>

fun nth_match :: "('a \<Rightarrow> bool) \<Rightarrow> nat \<Rightarrow> 'a list \<Rightarrow> 'a option" where
  "nth_match P k [] = None"
| "nth_match P k (g # gs) =
     (if P g then (case k of 0 \<Rightarrow> Some g | Suc j \<Rightarrow> nth_match P j gs) else nth_match P k gs)"

fun map_nth_match :: "('a \<Rightarrow> bool) \<Rightarrow> nat \<Rightarrow> ('a \<Rightarrow> 'a) \<Rightarrow> 'a list \<Rightarrow> 'a list" where
  "map_nth_match P k F [] = []"
| "map_nth_match P k F (g # gs) =
     (if P g then (case k of 0 \<Rightarrow> F g # gs | Suc j \<Rightarrow> g # map_nth_match P j F gs)
      else g # map_nth_match P k F gs)"

definition of_section :: "u8 list \<Rightarrow> entry list \<Rightarrow> bool" where
  "of_section s g \<longleftrightarrow> in_section s (hd g)"

lemma of_section_Cons: "of_section s (x # g) = in_section s x"
  by (simp add: of_section_def)

text \<open>The set operation on one section, and on a file.\<close>

definition set_in :: "u8 list \<Rightarrow> u8 list \<Rightarrow> u8 list \<Rightarrow> entry list \<Rightarrow> entry list" where
  "set_in s e v g =
     (if list_ex (hits s e) (tl g) then hd g # a_update s e v (tl g) else g @ [(s, e, v)])"

definition a_set_nth :: "nat \<Rightarrow> u8 list \<Rightarrow> u8 list \<Rightarrow> u8 list \<Rightarrow> entry list \<Rightarrow> entry list" where
  "a_set_nth k s e v xs =
     (if nth_match (of_section s) k (sections xs) = None
      then xs @ [(s, [], []), (s, e, v)]
      else concat (map_nth_match (of_section s) k (set_in s e v) (sections xs)))"

definition a_rm_nth :: "nat \<Rightarrow> u8 list \<Rightarrow> entry list \<Rightarrow> entry list" where
  "a_rm_nth k s xs = concat (map_nth_match (of_section s) k (\<lambda>_. []) (sections xs))"

text \<open>Cutting the chain of records at the section the search finds.\<close>

abbreviation head_item_p :: "item \<Rightarrow> bool" where "head_item_p x \<equiv> is_head (view x)"

function cut :: "nat \<Rightarrow> u8 list \<Rightarrow> item list \<Rightarrow> (item list \<times> item list \<times> item list) option" where
  "cut k s [] = None"
| "cut k s (x # its) =
     (let g = x # takeWhile (\<lambda>y. \<not> head_item_p y) its;
          r = dropWhile (\<lambda>y. \<not> head_item_p y) its
      in if in_section s (view x) \<and> k = 0 then Some ([], g, r)
         else map_option (\<lambda>(p, g', r'). (g @ p, g', r'))
                (cut (if in_section s (view x) then k - 1 else k) s r))"
  by pat_completeness auto
termination
  by (relation "measure (\<lambda>(_, _, its). length its)") (auto simp: le_imp_less_Suc length_dropWhile_le)

declare cut.simps(2) [simp del]

lemma sections_concat [simp]: "concat (sections xs) = xs"
  by (induction xs rule: sections.induct) simp_all

lemma getNextSection_spec:
  "\<forall>x\<in>set its. item_ok (snd x) \<Longrightarrow>
    getNextSection its = Some (dropWhile (\<lambda>y. \<not> head_item_p y) its)"
proof (induction its rule: getNextSection.induct)
  case (2 a it its)
  then have "item_ok it" by simp
  then have c: "cstr (ptrEntry it) = Some (ent_of it)" by (rule item_okD)
  then have "rd (ptrEntry it) 0 = Some (if ent_of it = [] then 0 else ent_of it ! 0)"
    using cstr_rd [OF c, of 0] by simp
  moreover have "ent_of it \<noteq> [] \<Longrightarrow> ent_of it ! 0 \<noteq> 0"
    using cstr_nz [OF c] by (metis length_greater_0_conv nth_mem)
  ultimately show ?case using 2 by (simp add: is_head_def view_def)
qed simp

lemma cut_split:
  "cut k s its = Some (p, g, r) \<Longrightarrow>
    its = p @ g @ r \<and> (\<exists>x g'. g = x # g' \<and> (\<forall>y\<in>set g'. \<not> head_item_p y) \<and> in_section s (view x)) \<and>
    (r = [] \<or> head_item_p (hd r))"
proof (induction k s its arbitrary: p g r rule: cut.induct)
  case (2 k s x its)
  let ?ent = "\<lambda>y. \<not> head_item_p y"
  show ?case
  proof (cases "in_section s (view x) \<and> k = 0")
    case True
    then have "p = []" "g = x # takeWhile ?ent its" "r = dropWhile ?ent its"
      using "2.prems" by (simp_all add: cut.simps(2))
    moreover have "\<forall>y\<in>set (takeWhile ?ent its). ?ent y" by (auto dest: set_takeWhileD)
    moreover have "dropWhile ?ent its = [] \<or> \<not> ?ent (hd (dropWhile ?ent its))"
      using hd_dropWhile by metis
    ultimately show ?thesis using True by auto
  next
    case False
    then obtain p' where "cut (if in_section s (view x) then k - 1 else k) s (dropWhile ?ent its) =
        Some (p', g, r)" and p: "p = x # takeWhile ?ent its @ p'"
      using "2.prems" by (auto simp: cut.simps(2) Let_def)
    from "2.IH" [OF refl refl False this(1)] show ?thesis
      unfolding p by (metis append.assoc append_Cons takeWhile_dropWhile_id)
  qed
qed simp

lemma map_view_sections:
  "sections (map view (x # its)) =
    map view (x # takeWhile (\<lambda>y. \<not> head_item_p y) its) #
      sections (map view (dropWhile (\<lambda>y. \<not> head_item_p y) its))"
  by (simp add: takeWhile_map dropWhile_map comp_def)

lemma cut_sections:
  "nth_match (of_section s) k (sections (map view its)) =
     map_option (\<lambda>(p, g, r). map view g) (cut k s its) \<and>
   (\<forall>p g r. cut k s its = Some (p, g, r) \<longrightarrow>
     concat (map_nth_match (of_section s) k F (sections (map view its))) =
       map view p @ F (map view g) @ map view r)"
proof (induction k s its rule: cut.induct)
  case (2 k s x its)
  let ?r = "dropWhile (\<lambda>y. \<not> head_item_p y) its"
  have of: "of_section s (map view (x # takeWhile (\<lambda>y. \<not> head_item_p y) its)) = in_section s (view x)"
    by (simp add: of_section_def)
  show ?case
  proof (cases "in_section s (view x) \<and> k = 0")
    case True
    then show ?thesis unfolding map_view_sections by (simp add: cut.simps(2) of_section_def)
  next
    case False
    note IH = "2.IH" [OF refl refl False]
    show ?thesis
      unfolding map_view_sections using False IH
      by (cases k) (auto simp: cut.simps(2) Let_def of_section_def option.map_comp comp_def split_def)
  qed
qed (simp_all)

lemma order_step:
  "cur < order \<Longrightarrow> cur + 1 \<le> order \<and> unat (order - (cur + 1)) = unat (order - cur) - 1"
  for cur order :: u32
proof -
  assume lt: "cur < order"
  have "unat (cur + 1) = unat cur + 1" using lt unsigned_less [of order, where ?'a = nat]
    by (simp add: unat_word_ariths word_less_nat_alt)
  then show ?thesis using lt
    by (simp add: word_le_nat_alt word_less_nat_alt unat_sub)
qed

lemma search_loop_spec:
  "cstr tS = Some s \<Longrightarrow> \<forall>x\<in>set its. item_ok (snd x) \<Longrightarrow> cur \<le> order \<Longrightarrow>
    search_loop cur order tS its =
      Some (case cut (unat (order - cur)) s its of None \<Rightarrow> [] | Some (p, g, r) \<Rightarrow> g @ r)"
proof (induction cur order tS its rule: search_loop.induct)
  case (2 cur order tS a it its)
  let ?r = "dropWhile (\<lambda>y. \<not> head_item_p y) its"
  have m: "same tS (ptrSection it) = Some (in_section s (view (a, it)))" (is "_ = Some ?m")
    using same_item(1) [of it tS s] "2.prems" by (simp add: in_section_def view_def)
  have nx: "getNextSection its = Some ?r" using "2.prems" by (simp add: getNextSection_spec)
  have okr: "\<forall>x\<in>set ?r. item_ok (snd x)" using "2.prems"(2) by (auto dest: set_dropWhileD)
  show ?case
  proof (cases "?m \<and> cur = order")
    case True
    then show ?thesis using m by (simp add: cut.simps(2))
  next
    case False
    then have "?m \<Longrightarrow> cur < order" using "2.prems"(3) by auto
    then have le: "(if ?m then cur + 1 else cur) \<le> order"
      and k: "unat (order - (if ?m then cur + 1 else cur)) =
        (if ?m then unat (order - cur) - 1 else unat (order - cur))"
      using order_step [of cur order] "2.prems"(3) by auto
    have nz: "\<not> (?m \<and> unat (order - cur) = 0)"
      using False by (metis eq_iff_diff_eq_0 unsigned_eq_0_iff)
    have run: "search_loop cur order tS ((a, it) # its) =
        search_loop (if ?m then cur + 1 else cur) order tS ?r"
      using False m nx by (cases ?m) auto
    have ce: "cut (unat (order - cur)) s ((a, it) # its) =
        map_option (\<lambda>(p, g', r'). ((a, it) # takeWhile (\<lambda>y. \<not> head_item_p y) its @ p, g', r'))
          (cut (if ?m then unat (order - cur) - 1 else unat (order - cur)) s ?r)"
      using nz by (cases ?m) (auto simp: cut.simps(2) Let_def)
    show ?thesis
      unfolding run "2.IH" [OF m False nx "2.prems"(1) okr le] k ce
      by (simp split: option.split)
  qed
qed simp

lemma order_scan_spec:
  assumes "cstr tS = Some s" "cstr tE = Some e"
  shows "\<forall>x\<in>set its. item_ok (snd x) \<Longrightarrow> order_scan tS tE prev its = Some
    (case List.find (\<lambda>x. hits s e (view x)) (takeWhile (\<lambda>y. \<not> head_item_p y) its) of
       Some x \<Rightarrow> Inl x
     | None \<Rightarrow> Inr (last_addr prev (takeWhile (\<lambda>y. \<not> head_item_p y) its)))"
proof (induction its arbitrary: prev)
  case (Cons y its)
  obtain a it where y: "y = (a, it)" by (cases y)
  have ok: "item_ok it" using Cons.prems y by simp
  then have "getNextSection [y] = Some (dropWhile (\<lambda>y. \<not> head_item_p y) [y])"
    using getNextSection_spec [of "[y]"] y by simp
  then obtain c where c: "rd (ptrEntry it) 0 = Some c" "c = 0 \<longleftrightarrow> head_item_p y"
    by (auto simp: y bind_eq_Some_conv split: if_splits)
  note m = item_matches_spec [of y, OF _ assms]
  show ?case
    using Cons ok c m by (auto simp: y last_addr_def split: option.split)
qed (simp add: last_addr_def)

text \<open>The section found, and the run of the scan through it.\<close>

lemma takeWhile_section:
  "\<forall>y\<in>set g. \<not> P y \<Longrightarrow> r = [] \<or> P (hd r) \<Longrightarrow> takeWhile (\<lambda>y. \<not> P y) (g @ r) = g"
  by (induction g) (cases r; auto)+

lemma order_find:
  assumes f: "file_ok f" and t: "cstr tS = Some s" "cstr tE = Some e"
    and c: "cut (unat order) s (Items f) = Some (p, x # g, r)"
  shows "searchSection (Items f) order tS = Some (x # g @ r)"
    and "order_scan tS tE prev (g @ r) = Some
      (case List.find (\<lambda>x. hits s e (view x)) g of Some y \<Rightarrow> Inl y | None \<Rightarrow> Inr (last_addr prev g))"
proof -
  have ok: "\<forall>x\<in>set (Items f). item_ok (snd x)" using f by (simp add: file_ok_def chain_ok_def)
  then show "searchSection (Items f) order tS = Some (x # g @ r)"
    using search_loop_spec [OF t(1) ok, of 0 order] c by (simp add: searchSection_def)
  have sp: "Items f = p @ x # g @ r" "\<forall>y\<in>set g. \<not> head_item_p y" "r = [] \<or> head_item_p (hd r)"
    using cut_split [OF c] by auto
  have tw: "takeWhile (\<lambda>y. \<not> head_item_p y) (g @ r) = g"
    by (rule takeWhile_section) (use sp in auto)
  have "\<forall>x\<in>set (g @ r). item_ok (snd x)" using ok sp(1) by auto
  from order_scan_spec [OF t this, of prev] show "order_scan tS tE prev (g @ r) = Some
      (case List.find (\<lambda>x. hits s e (view x)) g of Some y \<Rightarrow> Inl y | None \<Rightarrow> Inr (last_addr prev g))"
    unfolding tw .
qed

lemma order_none:
  assumes f: "file_ok f" and t: "cstr tS = Some s" and c: "cut (unat order) s (Items f) = None"
  shows "searchSection (Items f) order tS = Some []"
proof -
  have "\<forall>x\<in>set (Items f). item_ok (snd x)" using f by (simp add: file_ok_def chain_ok_def)
  then show ?thesis using search_loop_spec [OF t, of "Items f" 0 order] c by (simp add: searchSection_def)
qed

lemma cut_cases:
  obtains (none) "cut k s its = None"
  | (found) p x g r where "cut k s its = Some (p, x # g, r)" "its = p @ x # g @ r"
      "\<forall>y\<in>set g. \<not> head_item_p y" "r = [] \<or> head_item_p (hd r)" "in_section s (view x)"
  using cut_split [of k s its] by (cases "cut k s its") fastforce+

section \<open>What the operations do to the list of sections\<close>

lemma nth_match_cut:
  "cut k s (Items f) = None \<Longrightarrow> nth_match (of_section s) k (sections (entries f)) = None"
  "cut k s (Items f) = Some (p, g, r) \<Longrightarrow>
    nth_match (of_section s) k (sections (entries f)) = Some (map view g)"
  using cut_sections [of s k "Items f"] by (simp_all add: entries_def)

lemma map_nth_match_cut:
  "cut k s (Items f) = Some (p, g, r) \<Longrightarrow>
    concat (map_nth_match (of_section s) k F (sections (entries f))) =
      map view p @ F (map view g) @ map view r"
  using cut_sections [of s k "Items f" F] by (simp add: entries_def)

lemma map_nth_match_none:
  "nth_match P k gs = None \<Longrightarrow> map_nth_match P k F gs = gs"
  by (induction P k F gs rule: map_nth_match.induct) (auto split: nat.splits if_splits)

lemma EfiIniGetStringByOrder_entries:
  assumes f: "file_ok f" and S: "cstr Section = Some S" "length S \<le> 100"
    and E: "cstr Entry = Some E" "length E \<le> 100"
    and ne: "name_of S \<noteq> []" "name_of E \<noteq> []" and stk: "stack_ok Stk"
    and m: "0 < unat m" and room: "101 \<le> length Str"
  shows "case Option.bind (nth_match (of_section (name_of S)) (unat Order) (sections (entries f)))
      (\<lambda>g. a_get (name_of S) (name_of E) (tl g)) of
    None \<Rightarrow> EfiIniGetStringByOrder Stk f Order (Some Section) (Some Entry) (Some Str) m =
        Some (EFI_NOT_FOUND, Some (0 # tl Str), m)
  | Some v \<Rightarrow> \<exists>Str'. cstr Str' = Some (widen (take (unat m - 1) v)) \<and>
      EfiIniGetStringByOrder Stk f Order (Some Section) (Some Entry) (Some Str) m =
        Some (if length v < unat m then (EFI_SUCCESS, Some Str', m)
              else (EFI_BUFFER_TOO_SMALL, Some Str', of_nat (length v + 1)))"
proof -
  let ?s = "name_of S" and ?e = "name_of E"
  let ?run = "EfiIniGetStringByOrder Stk f Order (Some Section) (Some Entry) (Some Str) m"
  obtain tS tE where n: "ini_names Stk Section Entry = Some (Some (tS, tE))"
    "cstr tS = Some ?s" "cstr tE = Some ?e"
    using ini_names_spec [OF S E stk ne] by blast
  have cpy: "SctStrCpy Str [0] = Some (0 # tl Str)" using room by (cases Str) simp_all
  have long: "any_too_long [Section, Entry] = Some False"
    by (rule any_too_long_spec) (use S E in simp)
  note defs = EfiIniGetStringByOrder_def cpy long n(1)
  show ?thesis
  proof (cases rule: cut_cases [of "unat Order" ?s "Items f"])
    case none
    then have "?run = Some (EFI_NOT_FOUND, Some (0 # tl Str), m)"
      using order_none [OF f n(2) none] by (simp add: defs)
    then show ?thesis using nth_match_cut(1) [OF none] by simp
  next
    case (found p x g r)
    define q where "q = List.find (\<lambda>x. hits ?s ?e (view x)) g"
    have get: "a_get ?s ?e (map view g) = map_option (\<lambda>x. val_of (snd x)) q"
      by (simp add: a_get_def find_map_view q_def option.map_comp comp_def view_def)
    have run: "?run = (case q of None \<Rightarrow> Some (EFI_NOT_FOUND, Some (0 # tl Str), m)
        | Some y \<Rightarrow> return_value Stk (snd y) (0 # tl Str) m)"
      using order_find [OF f n(2,3) found(1)] by (simp add: defs q_def split: option.split)
    show ?thesis
    proof (cases q)
      case None
      then show ?thesis using run get nth_match_cut(2) [OF found(1)] by simp
    next
      case (Some y)
      then have "y \<in> set (Items f)" using found(2) by (auto simp: q_def find_Some_iff)
      then have ok: "item_ok (snd y)" using f by (simp add: file_ok_def chain_ok_def)
      then have "length (val_of (snd y)) \<le> 100" using field_ok_le by (simp add: item_ok_def)
      then have "min (unat m) (length (val_of (snd y)) + 1) \<le> length (0 # tl Str)" using room by simp
      from return_value_spec [OF ok stk m this] show ?thesis
        using run get Some nth_match_cut(2) [OF found(1)] by simp
    qed
  qed
qed

text \<open>Writes to the chain through its cut.\<close>

lemma store_item_append:
  "a \<notin> fst ` set p \<Longrightarrow> store_item a it (p @ q) = p @ store_item a it q"
  "a \<in> fst ` set p \<Longrightarrow> store_item a it (p @ q) = store_item a it p @ q"
proof -
  show "a \<notin> fst ` set p \<Longrightarrow> store_item a it (p @ q) = p @ store_item a it q"
    by (induction p) auto
  show "a \<in> fst ` set p \<Longrightarrow> store_item a it (p @ q) = store_item a it p @ q"
  proof (induction p)
    case (Cons y p)
    then show ?case by (cases "a = fst y"; cases y) auto
  qed simp
qed

lemma link_after_at:
  "distinct (map fst (u @ y # w)) \<Longrightarrow> link_after (fst y) x (u @ y # w) = u @ y # x # w"
  by (induction u) (cases y; auto)+

lemma link_next_at:
  "distinct (map fst (u @ y # w)) \<Longrightarrow> link_next (fst y) x (u @ y # w) = u @ y # x"
  by (induction u) (cases y; auto)+

lemma fresh_store: "fresh n f \<Longrightarrow> fresh (n + 2) (f\<lparr>Items := store_item a it (Items f), Modified := b\<rparr>)"
proof -
  assume n: "fresh n f"
  have "fst ` set (store_item a it (Items f)) = fst ` set (Items f)"
    by (metis list.set_map store_item_fst)
  then have "\<forall>k\<in>fst ` set (store_item a it (Items f)). k < n + 2"
    using n by (auto simp: fresh_def)
  then show ?thesis by (simp add: fresh_def)
qed

lemma EfiIniSetStringByOrder_entries:
  assumes f: "file_ok f" and n: "fresh n f" and pool: "pool_ok Pool"
    and P: "Pool n \<noteq> None" "Pool (Suc n) \<noteq> None" and stk: "stack_ok Stk"
    and S: "cstr Section = Some S" "length S \<le> 100" and E: "cstr Entry = Some E" "length E \<le> 100"
    and V: "cstr String = Some V" "length V \<le> 100"
    and ne: "name_of S \<noteq> []" "name_of E \<noteq> []"
    and l: "length (name_of S) < 100" "length (name_of E) < 100" "length (name_of V) < 100"
  shows "\<exists>f'. EfiIniSetStringByOrder Stk Pool n f Order (Some Section) (Some Entry) (Some String) =
      Some (EFI_SUCCESS, f') \<and> file_ok f' \<and> fresh (n + 2) f' \<and>
    entries f' = a_set_nth (unat Order) (name_of S) (name_of E) (name_of V) (entries f)"
proof -
  let ?s = "name_of S" and ?e = "name_of E" and ?v = "name_of V"
  let ?run = "EfiIniSetStringByOrder Stk Pool n f Order (Some Section) (Some Entry) (Some String)"
  obtain tS tE where nm: "ini_names Stk Section Entry = Some (Some (tS, tE))"
    "cstr tS = Some ?s" "cstr tE = Some ?e"
    using ini_names_spec [OF S E stk ne] by blast
  obtain pV where pV: "to_ascii (Stk L_ptrString) String = Some (Some pV)" "cstr pV = Some (low_bytes V)"
    using to_ascii_spec [OF V stack_ok_length [OF stk]] by blast
  have "length (low_bytes V) < length (Stk L_tmpString)"
    using V(2) length_low_bytes [of V] stack_ok_length [OF stk] by simp
  then obtain tV where tV: "trim_copy (Stk L_tmpString) pV = Some tV" "cstr tV = Some ?v"
    using trim_copy_spec [OF pV(2), of "Stk L_tmpString"] stack_ok_length [OF stk]
    by (auto simp: name_of_def)
  have long: "any_too_long [Section, Entry, String] = Some False"
    by (rule any_too_long_spec) (use S E V in simp)
  have dist: "distinct (map fst (Items f))" using f by (simp add: file_ok_def chain_ok_def)
  note defs = EfiIniSetStringByOrder_def long nm(1) pV(1) tV(1)
  show ?thesis
  proof (cases rule: cut_cases [of "unat Order" ?s "Items f"])
    case none
    have "?run = add_entry Pool n f None tS tE tV"
      using order_none [OF f nm(2) none] by (simp add: defs)
    then show ?thesis
      using add_entry_new [OF f n pool P nm(2,3) tV(2) l] nth_match_cut(1) [OF none]
      by (simp add: a_set_nth_def)
  next
    case (found p x g r)
    define q where "q = List.find (\<lambda>x. hits ?s ?e (view x)) g"
    have run: "?run = (case q of
        Some y \<Rightarrow> map_option (\<lambda>f. (EFI_SUCCESS, f)) (set_value f y tV)
      | None \<Rightarrow> add_entry Pool n f (last_addr (Some (fst x)) g) tS tE tV)"
      using order_find [OF f nm(2,3) found(1)] by (simp add: defs q_def split: option.split)
    have res: "a_set_nth (unat Order) ?s ?e ?v (entries f) =
        map view p @ set_in ?s ?e ?v (map view (x # g)) @ map view r"
      using nth_match_cut(2) [OF found(1)] map_nth_match_cut [OF found(1)] by (simp add: a_set_nth_def)
    show ?thesis
    proof (cases q)
      case None
      then have no: "\<not> list_ex (hits ?s ?e) (map view g)" by (simp add: q_def find_hits_None)
      obtain u y where uy: "x # g = u @ [y]" by (metis append_butlast_last_id list.distinct(1))
      have y: "last_addr (Some (fst x)) g = Some (fst y)"
        using uy by (cases g rule: rev_cases) (auto simp: last_addr_def)
      have its: "Items f = (p @ u) @ y # r"
        using found(2) uy by (metis append.assoc append_Cons append_Nil)
      then have "fst y \<in> fst ` set (Items f)" by simp
      from add_entry_after [OF f n pool P(1) nm(2,3) tV(2) l this]
      obtain it f' where f': "add_entry Pool n f (Some (fst y)) tS tE tV = Some (EFI_SUCCESS, f')"
        "file_ok f'" "fresh (n + 2) f'" "Items f' = link_after (fst y) (n, it) (Items f)"
        "view (n, it) = (?s, ?e, ?v)" by blast
      have "Items f' = (p @ u) @ y # (n, it) # r"
        using f'(4) link_after_at [of "p @ u" y r "(n, it)"] dist its by simp
      then have "entries f' = map view p @ map view (u @ [y]) @ [(?s, ?e, ?v)] @ map view r"
        using f'(5) by (simp add: entries_def)
      then have "entries f' = a_set_nth (unat Order) ?s ?e ?v (entries f)"
        using res no by (simp add: set_in_def uy [symmetric])
      then show ?thesis using run None y f' by simp
    next
      case (Some y)
      then have yg: "y \<in> set g" by (auto simp: q_def find_Some_iff)
      have ex: "list_ex (hits ?s ?e) (map view g)"
        using find_hits_None [of ?s ?e g] Some unfolding q_def by simp
      have "y \<in> set (Items f)" using found(2) yg by auto
      then obtain it b where it: "item_ok it" "view (fst y, it) = new_value ?v (view y)"
        and sv: "set_value f y tV = Some (f\<lparr>Items := store_item (fst y) it (Items f), Modified := b\<rparr>)"
        using set_value_run [OF f _ tV(2) l(3)] by blast
      have dg: "distinct (map fst g)" "fst y \<in> fst ` set g" "fst y \<notin> fst ` set p" "fst y \<noteq> fst x"
        using dist found(2) yg by (auto simp: image_iff) (metis disjoint_iff image_eqI)?
      have "store_item (fst y) it (Items f) = p @ x # store_item (fst y) it g @ r"
        using found(2) dg by (cases x) (simp add: store_item_append)
      moreover have "map view (store_item (fst y) it g) = a_update ?s ?e ?v (map view g)"
        by (rule store_item_view [OF dg(1) _ it(2)]) (use Some q_def in simp)
      ultimately have "map view (store_item (fst y) it (Items f)) =
          a_set_nth (unat Order) ?s ?e ?v (entries f)"
        using res ex by (simp add: set_in_def)
      moreover have "chain_ok (store_item (fst y) it (Items f)) (Tail f)"
        using f it(1) chain_ok_store by (simp add: file_ok_def)
      ultimately show ?thesis
        using run Some sv fresh_store [OF n, where a = "fst y" and it = it and b = b]
        by (simp add: file_ok_def entries_def)
    qed
  qed
qed

text \<open>Removing a section, and counting the sections of a name.\<close>

lemma rm_entries_spec:
  "\<forall>x\<in>set its. item_ok (snd x) \<Longrightarrow> rm_entries its cs =
    Some (dropWhile (\<lambda>y. \<not> head_item_p y) its,
      filter (\<lambda>c. \<forall>x\<in>set (takeWhile (\<lambda>y. \<not> head_item_p y) its). cmtNo c \<noteq> commentNo (snd x)) cs)"
proof (induction its arbitrary: cs)
  case (Cons y its)
  obtain a it where y: "y = (a, it)" by (cases y)
  then have "getNextSection [y] = Some (dropWhile (\<lambda>y. \<not> head_item_p y) [y])"
    using Cons.prems getNextSection_spec [of "[y]"] by simp
  then obtain c where c: "rd (ptrEntry it) 0 = Some c" "c = 0 \<longleftrightarrow> head_item_p y"
    by (auto simp: y bind_eq_Some_conv split: if_splits)
  show ?case
    using Cons c
    by (auto simp: y rmComment_filter simp del: split_paired_All intro!: filter_cong)
qed simp

lemma prev_of_spec:
  "distinct (map fst (p @ x # q)) \<Longrightarrow> prev_of (fst x) prev (p @ x # q) = last_addr prev p"
  by (induction p arbitrary: prev) (cases x; auto simp: last_addr_def)+

lemma EfiIniRmSectionByOrder_entries:
  assumes f: "file_ok f" and stk: "stack_ok Stk" and S: "cstr Section = Some S" "length S \<le> 100"
  shows "\<exists>f'. EfiIniRmSectionByOrder Stk f Order (Some Section) =
      Some (if nth_match (of_section (name_of S)) (unat Order) (sections (entries f)) = None
            then EFI_NOT_FOUND else EFI_SUCCESS, f') \<and>
    file_ok f' \<and> entries f' = a_rm_nth (unat Order) (name_of S) (entries f) \<and>
    set (Items f') \<subseteq> set (Items f)"
proof -
  let ?s = "name_of S" and ?run = "EfiIniRmSectionByOrder Stk f Order (Some Section)"
  obtain pS where pS: "to_ascii (Stk L_ptrSection) Section = Some (Some pS)" "cstr pS = Some (low_bytes S)"
    using to_ascii_spec [OF S stack_ok_length [OF stk]] by blast
  have "length (low_bytes S) < length (Stk L_tmpSection)"
    using S(2) length_low_bytes [of S] stack_ok_length [OF stk] by simp
  then obtain tS where tS: "trim_copy (Stk L_tmpSection) pS = Some tS" "cstr tS = Some ?s"
    using trim_copy_spec [OF pS(2), of "Stk L_tmpSection"] stack_ok_length [OF stk]
    by (auto simp: name_of_def)
  have c: "chain_ok (Items f) (Tail f)" using f by (simp add: file_ok_def)
  then have dist: "distinct (map fst (Items f))" and ok: "\<forall>x\<in>set (Items f). item_ok (snd x)"
    by (simp_all add: chain_ok_def)
  note defs = EfiIniRmSectionByOrder_def pS(1) tS(1)
  show ?thesis
  proof (cases rule: cut_cases [of "unat Order" ?s "Items f"])
    case none
    note nm = nth_match_cut(1) [OF none]
    have "?run = Some (EFI_NOT_FOUND, f)" using order_none [OF f tS(2) none] by (simp add: defs)
    then show ?thesis using f nm map_nth_match_none [OF nm] by (simp add: a_rm_nth_def)
  next
    case (found p x g r)
    have srch: "searchSection (Items f) Order tS = Some (x # g @ r)"
      using order_find(1) [OF f tS(2) tS(2) found(1)] .
    have tw: "takeWhile (\<lambda>y. \<not> head_item_p y) (g @ r) = g"
      by (rule takeWhile_section) (use found in auto)
    then have dw: "dropWhile (\<lambda>y. \<not> head_item_p y) (g @ r) = r"
      by (metis append_eq_append_conv takeWhile_dropWhile_id)
    have "\<forall>y\<in>set (g @ r). item_ok (snd y)" using ok found(2) by auto
    from rm_entries_spec [OF this] obtain cs where
      rm: "rm_entries (g @ r) (rmComment (CommentLines f) (snd x)) = Some (r, cs)"
      unfolding dw by blast
    have prev: "prev_of (fst x) None (Items f) = last_addr None p"
      using prev_of_spec [of p x "g @ r" None] dist found(2) by simp
    have its: "(case last_addr None p of None \<Rightarrow> r | Some q \<Rightarrow> link_next q r (Items f)) = p @ r"
    proof (cases p rule: rev_cases)
      case (snoc u y)
      then show ?thesis
        using link_next_at [of u y "x # g @ r" r] dist found(2) by (simp add: last_addr_def)
    qed (simp add: last_addr_def)
    have run: "?run = Some (EFI_SUCCESS, f\<lparr>Items := p @ r,
        Tail := (if r = [] then last_addr None p else Tail f), CommentLines := cs, Modified := True\<rparr>)"
      by (simp add: defs srch rm Let_def prev its)
    have "chain_ok (p @ r) (if r = [] then last_addr None p else Tail f)"
      using c found(2) by (auto simp: chain_ok_def last_addr_def)
    moreover have "map view (p @ r) = a_rm_nth (unat Order) ?s (entries f)"
      using map_nth_match_cut [OF found(1), of "\<lambda>_. []"] by (simp add: a_rm_nth_def)
    ultimately show ?thesis
      using run nth_match_cut(2) [OF found(1)] found(2) by (auto simp: file_ok_def entries_def)
  qed
qed

lemma order_loop_spec:
  "cstr tS = Some s \<Longrightarrow> \<forall>x\<in>set its. item_ok (snd x) \<Longrightarrow>
    order_loop tS k its = Some (k + of_nat (length (filter (of_section s) (sections (map view its)))))"
proof (induction tS k its rule: order_loop.induct)
  case (2 tS k a it its)
  let ?r = "dropWhile (\<lambda>y. \<not> head_item_p y) its"
  have m: "same tS (ptrSection it) = Some (in_section s (view (a, it)))" (is "_ = Some ?m")
    using same_item(1) [of it tS s] "2.prems" by (simp add: in_section_def view_def)
  have nx: "getNextSection its = Some ?r" using "2.prems" by (simp add: getNextSection_spec)
  have okr: "\<forall>x\<in>set ?r. item_ok (snd x)" using "2.prems"(2) by (auto dest: set_dropWhileD)
  have run: "order_loop tS k ((a, it) # its) = order_loop tS (if ?m then k + 1 else k) ?r"
    using m nx by simp
  show ?case
    unfolding run "2.IH" [OF m nx "2.prems"(1) okr] map_view_sections
    by (simp add: of_section_Cons add.assoc)
qed simp

lemma EfiIniGetOrderNum_entries:
  assumes f: "file_ok f" and stk: "stack_ok Stk" and S: "cstr Section = Some S" "length S \<le> 100"
  shows "EfiIniGetOrderNum Stk f (Some Section) (Some n) =
    Some (EFI_SUCCESS,
      Some (of_nat (length (filter (of_section (name_of S)) (sections (entries f))))))"
proof -
  obtain pS where pS: "to_ascii (Stk L_ptrSection) Section = Some (Some pS)" "cstr pS = Some (low_bytes S)"
    using to_ascii_spec [OF S stack_ok_length [OF stk]] by blast
  have "length (low_bytes S) < length (Stk L_tmpSection)"
    using S(2) length_low_bytes [of S] stack_ok_length [OF stk] by simp
  then obtain tS where tS: "trim_copy (Stk L_tmpSection) pS = Some tS" "cstr tS = Some (name_of S)"
    using trim_copy_spec [OF pS(2), of "Stk L_tmpSection"] stack_ok_length [OF stk]
    by (auto simp: name_of_def)
  have ok: "\<forall>x\<in>set (Items f). item_ok (snd x)" using f by (simp add: file_ok_def chain_ok_def)
  show ?thesis
    using order_loop_spec [OF tS(2) ok, of 0]
    by (simp add: EfiIniGetOrderNum_def pS(1) tS(1) entries_def)
qed

section \<open>The order laws\<close>

fun drop_nth_match :: "('a \<Rightarrow> bool) \<Rightarrow> nat \<Rightarrow> 'a list \<Rightarrow> 'a list" where
  "drop_nth_match P k [] = []"
| "drop_nth_match P k (g # gs) =
     (if P g then (case k of 0 \<Rightarrow> gs | Suc j \<Rightarrow> g # drop_nth_match P j gs)
      else g # drop_nth_match P k gs)"

lemma nth_match_filter:
  "nth_match P k gs = (if k < length (filter P gs) then Some (filter P gs ! k) else None)"
  by (induction P k gs rule: nth_match.induct) (auto split: nat.splits)

lemma concat_drop_nth: "concat (map_nth_match P k (\<lambda>_. []) gs) = concat (drop_nth_match P k gs)"
  by (induction P k gs rule: drop_nth_match.induct) (auto split: nat.splits)

lemma set_drop_nth: "set (drop_nth_match P k gs) \<subseteq> set gs"
  by (induction P k gs rule: drop_nth_match.induct) (auto split: nat.splits)

lemma filter_drop_nth:
  "filter P (drop_nth_match P k gs) = take k (filter P gs) @ drop (Suc k) (filter P gs)"
proof (induction P k gs rule: drop_nth_match.induct)
  case (2 P k g gs)
  then show ?case by (cases k) auto
qed simp

lemma length_drop_nth:
  "length (filter P (drop_nth_match P k gs)) =
    (if k < length (filter P gs) then length (filter P gs) - 1 else length (filter P gs))"
  by (simp add: filter_drop_nth min_def)

text \<open>After a removal the sections of the name behind it move up by one.\<close>

lemma nth_match_drop:
  "nth_match P j (drop_nth_match P k gs) = nth_match P (if j < k then j else Suc j) gs"
  by (auto simp: nth_match_filter filter_drop_nth nth_append min_def)

definition section_ok :: "entry list \<Rightarrow> bool" where
  "section_ok g \<longleftrightarrow> g \<noteq> [] \<and> is_head (hd g) \<and> (\<forall>y\<in>set (tl g). \<not> is_head y)"

lemma sections_ok:
  "xs = [] \<or> is_head (hd xs) \<Longrightarrow> \<forall>g\<in>set (sections xs). section_ok g"
proof (induction xs rule: sections.induct)
  case (2 x xs)
  let ?r = "dropWhile (\<lambda>y. \<not> is_head y) xs"
  have "?r = [] \<or> is_head (hd ?r)" using hd_dropWhile [of "\<lambda>y. \<not> is_head y" xs] by blast
  from "2.IH" [OF this] have IH: "\<forall>g\<in>set (sections ?r). section_ok g" .
  have "section_ok (x # takeWhile (\<lambda>y. \<not> is_head y) xs)"
    using "2.prems" by (auto simp: section_ok_def dest: set_takeWhileD)
  then show ?case using IH by (simp only: sections.simps set_simps ball_simps simp_thms)
qed simp

lemma sections_of_concat: "\<forall>g\<in>set gs. section_ok g \<Longrightarrow> sections (concat gs) = gs"
proof (induction gs)
  case (Cons g gs)
  obtain x ys where g: "g = x # ys" "\<forall>y\<in>set ys. \<not> is_head y"
    using Cons.prems by (cases g) (auto simp: section_ok_def)
  have "concat gs = [] \<or> is_head (hd (concat gs))"
  proof (cases gs)
    case (Cons h hs)
    then show ?thesis using Cons.prems by (cases h) (auto simp: section_ok_def)
  qed simp
  then have tw: "takeWhile (\<lambda>y. \<not> is_head y) (ys @ concat gs) = ys"
    by (rule takeWhile_section [OF g(2)])
  then have "dropWhile (\<lambda>y. \<not> is_head y) (ys @ concat gs) = concat gs"
    by (metis append_eq_append_conv takeWhile_dropWhile_id)
  then show ?case using tw g Cons by simp
qed simp

lemma grouped_starts: "grouped xs \<Longrightarrow> xs = [] \<or> is_head (hd xs)"
  by (cases xs) (auto simp: grouped_def is_head_def split: if_splits)

lemma sections_a_rm_nth:
  assumes "grouped xs"
  shows "sections (a_rm_nth k s xs) = drop_nth_match (of_section s) k (sections xs)"
proof -
  have "\<forall>g\<in>set (sections xs). section_ok g" using sections_ok grouped_starts [OF assms] by blast
  then have "\<forall>g\<in>set (drop_nth_match (of_section s) k (sections xs)). section_ok g"
    using set_drop_nth [of "of_section s" k "sections xs"] by auto
  then show ?thesis unfolding a_rm_nth_def concat_drop_nth by (rule sections_of_concat)
qed

text \<open>Section structure through the operations by order: a file is grouped when it starts with
  a head and each section holds records of its own name.\<close>

definition own_section :: "entry list \<Rightarrow> bool" where
  "own_section g \<longleftrightarrow> section_ok g \<and> (\<forall>y\<in>set g. up (fst y) = up (fst (hd g)))"

lemma grouped_from_entries:
  "\<forall>y\<in>set ys. \<not> is_head y \<and> up (fst y) = u \<Longrightarrow>
    grouped_from (Some u) (ys @ xs) = grouped_from (Some u) xs"
  by (induction ys) (auto simp: is_head_def)

lemma grouped_from_head:
  "xs = [] \<or> is_head (hd xs) \<Longrightarrow> grouped_from c xs = grouped_from c' xs"
  by (cases xs) (auto simp: is_head_def)

lemma grouped_concat: "\<forall>g\<in>set gs. own_section g \<Longrightarrow> grouped_from c (concat gs)"
proof (induction gs arbitrary: c)
  case (Cons g gs)
  obtain x ys where g: "g = x # ys" "is_head x" "\<forall>y\<in>set ys. \<not> is_head y \<and> up (fst y) = up (fst x)"
    using Cons.prems by (cases g) (auto simp: own_section_def section_ok_def)
  then show ?case
    using Cons grouped_from_entries [OF g(3)] by (cases x) (auto simp: is_head_def)
qed simp

lemma grouped_from_own:
  "grouped_from c xs \<Longrightarrow> \<forall>y\<in>set (takeWhile (\<lambda>y. \<not> is_head y) xs). Some (up (fst y)) = c"
  by (induction c xs rule: grouped_from.induct) (auto simp: is_head_def split: if_splits)

lemma grouped_from_dropWhile:
  "grouped_from c xs \<Longrightarrow> grouped_from c (dropWhile (\<lambda>y. \<not> is_head y) xs)"
  by (induction c xs rule: grouped_from.induct) (auto simp: is_head_def split: if_splits)

lemma sections_own:
  "grouped_from c xs \<Longrightarrow> xs = [] \<or> is_head (hd xs) \<Longrightarrow> \<forall>g\<in>set (sections xs). own_section g"
proof (induction xs arbitrary: c rule: sections.induct)
  case (2 x xs)
  let ?t = "takeWhile (\<lambda>y. \<not> is_head y) xs" and ?r = "dropWhile (\<lambda>y. \<not> is_head y) xs"
  have r: "?r = [] \<or> is_head (hd ?r)" using hd_dropWhile [of "\<lambda>y. \<not> is_head y" xs] by blast
  have x: "is_head x" "grouped_from (Some (up (fst x))) xs"
    using "2.prems" by (cases x; auto simp: is_head_def)+
  have "own_section (x # ?t)"
    using grouped_from_own [OF x(2)] x(1)
    by (auto simp: own_section_def section_ok_def dest: set_takeWhileD)
  then show ?case using "2.IH" [OF grouped_from_dropWhile [OF x(2)] r] by simp
qed simp

lemma grouped_a_rm_nth: "grouped xs \<Longrightarrow> grouped (a_rm_nth k s xs)"
proof -
  assume g: "grouped xs"
  then have "\<forall>g\<in>set (sections xs). own_section g"
    using sections_own grouped_starts unfolding grouped_def by blast
  then have "\<forall>g\<in>set (drop_nth_match (of_section s) k (sections xs)). own_section g"
    using set_drop_nth [of "of_section s" k "sections xs"] by auto
  then show ?thesis unfolding a_rm_nth_def concat_drop_nth grouped_def by (rule grouped_concat)
qed

lemma map_nth_match_all:
  "\<forall>g\<in>set gs. Q g \<Longrightarrow> (\<And>g. Q g \<Longrightarrow> P g \<Longrightarrow> Q (F g)) \<Longrightarrow> \<forall>g\<in>set (map_nth_match P k F gs). Q g"
  by (induction P k F gs rule: map_nth_match.induct) (auto split: nat.splits)

lemma a_update_keys:
  "\<forall>y\<in>set (a_update s e v xs). \<exists>x\<in>set xs. fst y = fst x \<and> fst (snd y) = fst (snd x)"
  by (induction xs) (auto simp: new_value_def)

lemma own_section_set_in:
  assumes "own_section g" "of_section s g" "e \<noteq> []"
  shows "own_section (set_in s e v g)"
proof -
  obtain x ys where g: "g = x # ys" "is_head x" "\<forall>y\<in>set ys. \<not> is_head y \<and> up (fst y) = up (fst x)"
    using assms(1) by (cases g) (auto simp: own_section_def section_ok_def)
  have s: "up s = up (fst x)" using assms(2) g(1) by (simp add: of_section_def in_section_def)
  have "\<forall>y\<in>set (a_update s e v ys). \<not> is_head y \<and> up (fst y) = up (fst x)"
    using a_update_keys [of s e v ys] g(3) by (fastforce simp: is_head_def)
  then show ?thesis
    using g s assms(3) by (auto simp: set_in_def own_section_def section_ok_def is_head_def)
qed

lemma grouped_a_set_nth:
  assumes "grouped xs" "e \<noteq> []"
  shows "grouped (a_set_nth k s e v xs)"
proof (cases "nth_match (of_section s) k (sections xs) = None")
  case True
  then show ?thesis
    using assms grouped_append [of e None xs s v] by (simp add: a_set_nth_def grouped_def)
next
  case False
  have "\<forall>g\<in>set (sections xs). own_section g"
    using assms(1) sections_own grouped_starts unfolding grouped_def by blast
  then have "\<forall>g\<in>set (map_nth_match (of_section s) k (set_in s e v) (sections xs)). own_section g"
    by (rule map_nth_match_all) (use own_section_set_in assms(2) in blast)
  from grouped_concat [OF this, of None] show ?thesis
    using False unfolding a_set_nth_def grouped_def by (simp only: if_False)
qed

end
