(* ===== verification/Ini_Parse.thy ===== *)
theory Ini_Parse
  imports Ini_Store
begin

text \<open>
  Reading a profile: \<open>_prosessLine\<close>, \<open>_getcomment\<close>, \<open>_getsection\<close>, \<open>_getentry\<close>, \<open>_additem\<close>
  and the loop of \<open>AtslEfiIniOpen\<close> that feeds them, with the grammar of a line as a function
  on texts, and the refinement of the loop to a fold of that grammar over the lines of the
  file.
\<close>

section \<open>The code\<close>

abbreviation (input) chHASH :: u8 where "chHASH \<equiv> 35"
abbreviation (input) chEQ :: u8 where "chEQ \<equiv> 61"
abbreviation (input) chLB :: u8 where "chLB \<equiv> 91"
abbreviation (input) chRB :: u8 where "chRB \<equiv> 93"

text \<open>\<open>CPool n\<close> is the block the \<open>n\<close>-th allocation returns when it is a comment; its result is
  not tested, so \<open>NULL\<close> is a write through a null pointer.\<close>

type_synonym cpool = "nat \<Rightarrow> COMMENTLINE option"

text \<open>The resources the file operations acquire and release, and the events of their traces: a record is
  its address, a comment its content. \<open>EFI_FILE.Delete\<close> closes the handle, whatever it answers.\<close>

datatype res = RootDir | File | FileInfo | Pages | IniFile | NameCopy | PathCopy
  | Record nat | Remark COMMENTLINE

datatype io = Acquire res | Release res | DeleteFile | ReadFile | WriteFile "u8 list" | FlushFile

fun comment_tail :: "u8 list \<Rightarrow> nat \<Rightarrow> nat option" where
  "comment_tail ptrStr 0 = Some 0"
| "comment_tail ptrStr (Suc k) = do {
     x \<leftarrow> rd ptrStr k;
     if x \<noteq> chLF \<and> x \<noteq> chCR then Some (Suc k) else comment_tail ptrStr k }"

text \<open>\<open>ptrCommentLineCurrent\<close> is the last comment of the list while a file is read.\<close>

definition getcomment ::
    "cpool \<Rightarrow> nat \<Rightarrow> 'd EFI_INI_FILE \<Rightarrow> u8 list \<Rightarrow> u32 \<Rightarrow>
     (u8 list \<times> COMMENTLINE \<times> 'd EFI_INI_FILE) option" where
  "getcomment CPool n ini ptrStr no = do {
     len \<leftarrow> SctAsciiStrLen ptrStr;
     Index \<leftarrow> comment_tail ptrStr (len mod 2 ^ 32);
     ptrStr \<leftarrow> wr ptrStr Index 0;
     new \<leftarrow> CPool n;
     c \<leftarrow> SctAsciiStrnCpy (ptrComment new) ptrStr MAX_LINE_LEN;
     (let new = \<lparr>cmtNo = no, ptrComment = c\<rparr>
      in Some (ptrStr, new, ini\<lparr>CommentLines := CommentLines ini @ [new]\<rparr>)) }"

definition additem :: "'d EFI_INI_FILE \<Rightarrow> item \<Rightarrow> 'd EFI_INI_FILE option" where
  "additem ini x =
     (if Items ini = [] then Some (ini\<lparr>Items := [x], Tail := Some (fst x)\<rparr>)
      else do {
        t \<leftarrow> Tail ini;
        Some (ini\<lparr>Items := link_next t [x] (Items ini), Tail := Some (fst x)\<rparr>) })"

text \<open>Copying a name or a value into a 101-byte array; an empty name becomes \<open>UNKNOWN\<close>.\<close>

definition UNKNOWN :: "u8 list" where
  "UNKNOWN = [85, 78, 75, 78, 79, 87, 78]"

definition copy_value :: "u8 list \<Rightarrow> u8 list \<Rightarrow> u8 list option" where
  "copy_value dst p = do {
     len \<leftarrow> SctAsciiStrLen p;
     if len \<le> MAX_STRING_LEN then SctAsciiStrCpy dst p
     else do { dst \<leftarrow> SctAsciiStrnCpy dst p MAX_STRING_LEN; wr dst MAX_STRING_LEN 0 } }"

definition copy_name :: "u8 list \<Rightarrow> u8 list \<Rightarrow> u8 list option" where
  "copy_name dst p = do {
     len \<leftarrow> SctAsciiStrLen p;
     c \<leftarrow> rd p 0;
     if len \<le> MAX_STRING_LEN
     then (if c = 0 then SctAsciiStrCpy dst (UNKNOWN @ [0]) else SctAsciiStrCpy dst p)
     else do { dst \<leftarrow> SctAsciiStrnCpy dst p MAX_STRING_LEN; wr dst MAX_STRING_LEN 0 } }"

text \<open>The variables of the reading loop: the file, \<open>ptrSection\<close>, \<open>isSectionGot\<close>, \<open>commentNo\<close>,
  the number of allocations made, and the trace of those that returned a block.\<close>

record 'd reader =
  rFile :: "'d EFI_INI_FILE"
  rSection :: "u8 list"
  rGot :: bool
  rNo :: u32
  rPool :: nat
  rTrace :: "io list"

definition getsection :: "pool \<Rightarrow> u8 list \<Rightarrow> 'd reader \<Rightarrow> (u8 list \<times> 'd reader) option" where
  "getsection Pool ptrStr r = do {
     p \<leftarrow> SctAsciiStrChr ptrStr chLB;
     q \<leftarrow> SctAsciiStrChr ptrStr chRB;
     p \<leftarrow> p;
     q \<leftarrow> q;
     ptrStr \<leftarrow> wr ptrStr q 0;
     name \<leftarrow> alltrim (drop (Suc p) ptrStr);
     sect \<leftarrow> copy_name (rSection r) name;
     (case Pool (rPool r) of
        None \<Rightarrow> Some (take (Suc p) ptrStr @ name, r\<lparr>rSection := sect, rPool := Suc (rPool r)\<rparr>)
      | Some new \<Rightarrow> do {
          s \<leftarrow> SctAsciiStrnCpy (ptrSection new) sect MAX_STRING_LEN;
          e \<leftarrow> SctAsciiStrCpy (ptrEntry new) [0];
          v \<leftarrow> SctAsciiStrCpy (ptrValue new) [0];
          f \<leftarrow> additem (rFile r)
                 (rPool r, \<lparr>commentNo = rNo r, ptrSection = s, ptrEntry = e, ptrValue = v\<rparr>);
          Some (take (Suc p) ptrStr @ name,
            r\<lparr>rFile := f, rSection := sect, rNo := rNo r + 1, rPool := Suc (rPool r),
              rTrace := rTrace r @ [Acquire (Record (rPool r))]\<rparr>) }) }"

definition getentry :: "u8 list \<Rightarrow> u8 list \<Rightarrow> u8 list \<Rightarrow> (u8 list \<times> u8 list \<times> u8 list) option" where
  "getentry ptrStr pEntry pValue = do {
     p \<leftarrow> SctAsciiStrChr ptrStr chEQ;
     p \<leftarrow> p;
     ptrStr \<leftarrow> wr ptrStr p 0;
     ptrStr \<leftarrow> alltrim ptrStr;
     pEntry \<leftarrow> copy_name pEntry ptrStr;
     rest \<leftarrow> alltrim (drop (Suc p) ptrStr);
     p2 \<leftarrow> SctAsciiStrChr rest chHASH;
     rest \<leftarrow> (case p2 of
                None \<Rightarrow> Some rest
              | Some k \<Rightarrow> do { rest \<leftarrow> wr rest k 0; alltrim rest });
     pValue \<leftarrow> copy_value pValue rest;
     Some (take (Suc p) ptrStr @ rest, pEntry, pValue) }"

text \<open>The entry branch of \<open>_prosessLine\<close>, then the whole function. \<open>Stk\<close> holds its two arrays.\<close>

definition store_entry :: "pool \<Rightarrow> u8 list \<Rightarrow> u8 list \<Rightarrow> 'd reader \<Rightarrow> 'd reader option" where
  "store_entry Pool pEntry pValue r =
     (if \<not> rGot r then Some r
      else case Pool (rPool r) of
        None \<Rightarrow> Some (r\<lparr>rPool := Suc (rPool r)\<rparr>)
      | Some new \<Rightarrow> do {
          s \<leftarrow> SctAsciiStrnCpy (ptrSection new) (rSection r) MAX_STRING_LEN;
          e \<leftarrow> SctAsciiStrnCpy (ptrEntry new) pEntry MAX_STRING_LEN;
          v \<leftarrow> SctAsciiStrnCpy (ptrValue new) pValue MAX_STRING_LEN;
          f \<leftarrow> additem (rFile r)
                 (rPool r, \<lparr>commentNo = rNo r, ptrSection = s, ptrEntry = e, ptrValue = v\<rparr>);
          Some (r\<lparr>rFile := f, rNo := rNo r + 1, rPool := Suc (rPool r),
            rTrace := rTrace r @ [Acquire (Record (rPool r))]\<rparr>) })"

definition prosessLine ::
    "stack \<Rightarrow> pool \<Rightarrow> cpool \<Rightarrow> u8 list \<Rightarrow> 'd reader \<Rightarrow> (u8 list \<times> 'd reader) option" where
  "prosessLine Stk Pool CPool ptrLine r = do {
     ptrLine \<leftarrow> alltrim ptrLine;
     c \<leftarrow> rd ptrLine 0;
     if c = chHASH then do {
       (ptrLine, new, f) \<leftarrow> getcomment CPool (rPool r) (rFile r) ptrLine (rNo r);
       Some (ptrLine, r\<lparr>rFile := f, rPool := Suc (rPool r),
         rTrace := rTrace r @ [Acquire (Remark new)]\<rparr>) }
     else do {
       q \<leftarrow> (if c = chLB then SctAsciiStrChr ptrLine chRB else Some None);
       if q \<noteq> None then do {
         (ptrLine, r) \<leftarrow> getsection Pool ptrLine r;
         Some (ptrLine, r\<lparr>rGot := True\<rparr>) }
       else do {
         p \<leftarrow> SctAsciiStrChr ptrLine chEQ;
         if p \<noteq> None then do {
           (ptrLine, pEntry, pValue) \<leftarrow> getentry ptrLine (Stk L_ptrEntry) (Stk L_ptrValue);
           r \<leftarrow> store_entry Pool pEntry pValue r;
           Some (ptrLine, r) }
         else Some (ptrLine, r) } } }"

text \<open>The loop of \<open>AtslEfiIniOpen\<close>: characters are gathered in \<open>ptrLine\<close>, whose bound of 512 is
  not tested, up to a line feed; of a Unicode file the low bytes only are read. \<open>Stk k\<close> is the
  stack of the call made at file position \<open>k\<close>.\<close>

function read_loop ::
    "(nat \<Rightarrow> stack) \<Rightarrow> pool \<Rightarrow> cpool \<Rightarrow> u8 list \<Rightarrow> nat \<Rightarrow> nat \<Rightarrow> nat \<Rightarrow> u8 list \<Rightarrow> 'd reader \<Rightarrow>
     (nat \<times> u8 list \<times> 'd reader) option" where
  "read_loop Stk Pool CPool Buffer BufSize Number Index ptrLine r =
     (if Number < BufSize then do {
        c \<leftarrow> rd Buffer Number;
        ptrLine \<leftarrow> wr ptrLine Index c;
        (Index, ptrLine, r) \<leftarrow>
          (if c = chLF then do {
             ptrLine \<leftarrow> wr ptrLine (Suc Index) 0;
             (ptrLine, r) \<leftarrow> prosessLine (Stk Number) Pool CPool ptrLine r;
             Some (0, ptrLine, r) }
           else Some (Suc Index, ptrLine, r));
        read_loop Stk Pool CPool Buffer BufSize
          (if isUnicode (rFile r) then Number + 2 else Suc Number) Index ptrLine r }
      else Some (Index, ptrLine, r))"
  by pat_completeness auto
termination
  by (relation "measure (\<lambda>(Stk, Pool, CPool, B, n, k, i, l, r). n - k)") auto

declare read_loop.simps [simp del]

definition is_bom :: "u8 list \<Rightarrow> nat \<Rightarrow> bool" where
  "is_bom Buffer BufSize \<longleftrightarrow> BufSize \<ge> 2 \<and> Buffer ! 0 = 0xff \<and> Buffer ! 1 = 0xfe"

text \<open>From the test of the file type to the last line.\<close>

definition read_profile ::
    "(nat \<Rightarrow> stack) \<Rightarrow> pool \<Rightarrow> cpool \<Rightarrow> u8 list \<Rightarrow> u8 list \<Rightarrow> nat \<Rightarrow> 'd reader \<Rightarrow> 'd reader option" where
  "read_profile Stk Pool CPool ptrLine Buffer BufSize r = do {
     sec \<leftarrow> wr (rSection r) 0 0;
     (Index, ptrLine, r) \<leftarrow>
       read_loop Stk Pool CPool Buffer BufSize (if is_bom Buffer BufSize then 2 else 0) 0 ptrLine
         (r\<lparr>rFile := (rFile r)\<lparr>isUnicode := is_bom Buffer BufSize \<or> isUnicode (rFile r)\<rparr>,
            rSection := sec, rGot := False, rNo := 1\<rparr>);
     ptrLine \<leftarrow> wr ptrLine Index 0;
     (ptrLine, r) \<leftarrow> prosessLine (Stk BufSize) Pool CPool ptrLine r;
     Some r }"

section \<open>The grammar of a line\<close>

datatype line = CommentL "u8 list" | SectionL "u8 list" | EntryL "u8 list" "u8 list" | BlankL

definition nm :: "u8 list \<Rightarrow> u8 list" where
  "nm s = (if s = [] then UNKNOWN else take 100 s)"

definition before :: "u8 \<Rightarrow> u8 list \<Rightarrow> u8 list" where
  "before c s = takeWhile (\<lambda>x. x \<noteq> c) s"

definition after :: "u8 \<Rightarrow> u8 list \<Rightarrow> u8 list" where
  "after c s = drop (Suc (first_pos c s)) s"

definition classify :: "u8 list \<Rightarrow> line" where
  "classify s = (let t = trim s in
     if t \<noteq> [] \<and> hd t = chHASH then CommentL t
     else if t \<noteq> [] \<and> hd t = chLB \<and> chRB \<in> set t then SectionL (nm (trim (before chRB (tl t))))
     else if chEQ \<in> set t
     then EntryL (nm (trim (before chEQ t))) (take 100 (trim (before chHASH (trim (after chEQ t)))))
     else BlankL)"

text \<open>The document read so far: entries and comments with their numbers, the current section,
  the next number.\<close>

record doc =
  dItems :: "(u32 \<times> entry) list"
  dComments :: "(u32 \<times> u8 list) list"
  dCur :: "u8 list option"
  dNo :: u32

definition start :: doc where
  "start = \<lparr>dItems = [], dComments = [], dCur = None, dNo = 1\<rparr>"

fun add_line :: "doc \<Rightarrow> line \<Rightarrow> doc" where
  "add_line d (CommentL c) = d\<lparr>dComments := dComments d @ [(dNo d, c)]\<rparr>"
| "add_line d (SectionL s) =
     d\<lparr>dItems := dItems d @ [(dNo d, s, [], [])], dCur := Some s, dNo := dNo d + 1\<rparr>"
| "add_line d (EntryL e v) =
     (case dCur d of
        None \<Rightarrow> d
      | Some s \<Rightarrow> d\<lparr>dItems := dItems d @ [(dNo d, s, e, v)], dNo := dNo d + 1\<rparr>)"
| "add_line d BlankL = d"

text \<open>The lines of a text: each with its line feed, and what is left at the end.\<close>

fun split_lines :: "u8 list \<Rightarrow> u8 list \<Rightarrow> u8 list list" where
  "split_lines acc [] = [acc]"
| "split_lines acc (c # cs) =
     (if c = chLF then (acc @ [c]) # split_lines [] cs else split_lines (acc @ [c]) cs)"

definition parse :: "u8 list \<Rightarrow> doc" where
  "parse cs = foldl (\<lambda>d l. add_line d (classify (text_of l))) start (split_lines [] cs)"

text \<open>The lines the reader can take: short enough for its array, names below 100 characters.\<close>

definition line_ok :: "u8 list \<Rightarrow> bool" where
  "line_ok l \<longleftrightarrow> length l < MAX_LINE_LEN \<and>
     (case classify (text_of l) of
        SectionL s \<Rightarrow> length s < MAX_STRING_LEN
      | EntryL e v \<Rightarrow> length e < MAX_STRING_LEN \<and> length v < MAX_STRING_LEN
      | _ \<Rightarrow> True)"

section \<open>The invariant of the reading loop\<close>

definition comments_ok :: "'d EFI_INI_FILE \<Rightarrow> bool" where
  "comments_ok f \<longleftrightarrow>
     (\<forall>c\<in>set (CommentLines f). length (ptrComment c) = MAX_LINE_LEN \<and> cstr (ptrComment c) \<noteq> None)"

definition numbered :: "'d EFI_INI_FILE \<Rightarrow> (u32 \<times> entry) list" where
  "numbered f = map (\<lambda>x. (commentNo (snd x), view x)) (Items f)"

definition remarks :: "'d EFI_INI_FILE \<Rightarrow> (u32 \<times> u8 list) list" where
  "remarks f = map (\<lambda>c. (cmtNo c, text_of (ptrComment c))) (CommentLines f)"

definition same_frame :: "'d EFI_INI_FILE \<Rightarrow> 'd EFI_INI_FILE \<Rightarrow> bool" where
  "same_frame f f' \<longleftrightarrow> DevPath f' = DevPath f \<and> FileName f' = FileName f \<and>
     isUnicode f' = isUnicode f \<and> Modified f' = Modified f"

definition reads :: "'d reader \<Rightarrow> doc \<Rightarrow> bool" where
  "reads r d \<longleftrightarrow> file_ok (rFile r) \<and> fresh (rPool r) (rFile r) \<and> comments_ok (rFile r) \<and>
     numbered (rFile r) = dItems d \<and> remarks (rFile r) = dComments d \<and>
     length (rSection r) = 101 \<and> rGot r = (dCur d \<noteq> None) \<and>
     (\<forall>s. dCur d = Some s \<longrightarrow> cstr (rSection r) = Some s \<and> length s < 100) \<and> rNo r = dNo d"

definition pools_ok :: "pool \<Rightarrow> cpool \<Rightarrow> bool" where
  "pools_ok Pool CPool \<longleftrightarrow> pool_ok Pool \<and>
     (\<forall>n. Pool n \<noteq> None \<and> (\<exists>c. CPool n = Some c \<and> length (ptrComment c) = MAX_LINE_LEN))"

subsection \<open>Helpers\<close>

lemma text_of_cut: "cstr (l @ 0 # r) = Some (text_of l)"
  by (induction l) (auto simp: text_of_def cstr_Cons)

lemma takeWhile_first_pos: "takeWhile (\<lambda>x. x \<noteq> c) s = take (first_pos c s) s"
  unfolding first_pos_def by (rule takeWhile_eq_take)

text \<open>Writing a NUL over the first occurrence of a character.\<close>

lemma cut_at:
  assumes "cstr b = Some s" "c \<in> set s"
  shows "\<exists>b'. wr b (first_pos c s) 0 = Some b' \<and> length b' = length b \<and>
    cstr b' = Some (before c s) \<and> cstr (drop (Suc (first_pos c s)) b') = Some (after c s) \<and>
    (\<forall>k < first_pos c s. cstr (drop k b') = Some (drop k (before c s)))"
proof -
  let ?i = "first_pos c s"
  have i: "?i < length s" using assms(2) by (rule first_pos_lt)
  obtain r where b: "b = s @ 0 # r" and nz: "0 \<notin> set s" using assms(1) by (rule cstrE)
  let ?b = "before c s @ 0 # after c s @ 0 # r"
  have "s = take ?i s @ s ! ?i # drop (Suc ?i) s" using i by (rule id_take_nth_drop)
  then have s: "s = before c s @ s ! ?i # after c s"
    by (simp add: before_def after_def takeWhile_first_pos)
  have l: "length (before c s) = ?i" by (simp add: before_def first_pos_def)
  have "b[?i := 0] = (before c s @ s ! ?i # (after c s @ 0 # r))[length (before c s) := 0]"
    using s by (subst b) (metis append.assoc append_Cons l)
  then have w: "wr b ?i 0 = Some ?b" using i b by (simp add: wr_def)
  have nb: "0 \<notin> set (before c s)" "0 \<notin> set (after c s)"
    using nz by (auto simp: before_def after_def dest: set_takeWhileD in_set_dropD)
  have d: "cstr (drop k ?b) = Some (drop k (before c s))" if "k < ?i" for k
    using that l nb(1) by (intro cstr_drop) simp_all
  have "drop (Suc ?i) ?b = after c s @ 0 # r" using l by simp
  then have "cstr (drop (Suc ?i) ?b) = Some (after c s)" using nb(2) by simp
  moreover have "length ?b = length b" using i by (simp add: b l) (simp add: after_def)
  moreover have "cstr ?b = Some (before c s)" using nb(1) by simp
  ultimately show ?thesis using w d by blast
qed

lemma copy_value_spec:
  assumes "cstr p = Some s" "length dst = 101"
  shows "\<exists>d. copy_value dst p = Some d \<and> length d = 101 \<and> cstr d = Some (take 100 s)"
proof (cases "length s \<le> 100")
  case True
  then show ?thesis
    using assms SctAsciiStrCpy_spec [OF assms(1), of dst] cstr_nz [OF assms(1)]
    by (simp add: copy_value_def SctAsciiStrLen_cstr MAX_STRING_LEN_def)
next
  case False
  let ?d = "take 100 s @ drop 100 dst"
  have dr: "drop 100 dst = dst ! 100 # []" using assms(2) by (simp add: Cons_nth_drop_Suc [symmetric])
  have l: "length (take 100 s) = 100" using False by simp
  have run: "SctAsciiStrnCpy dst p 100 = Some ?d"
    using SctAsciiStrnCpy_spec [OF assms(1)] False assms(2) by simp
  have "wr ?d 100 0 = Some (take 100 s @ [0])"
    using list_update_append_at [of "take 100 s" "dst ! 100" "[]" 0] l by (simp add: wr_def dr)
  moreover have "0 \<notin> set (take 100 s)" using cstr_nz [OF assms(1)] by (meson in_set_takeD)
  ultimately show ?thesis
    using False assms run l by (simp add: copy_value_def SctAsciiStrLen_cstr MAX_STRING_LEN_def)
qed

lemma copy_name_spec:
  assumes "cstr p = Some s" "length dst = 101"
  shows "\<exists>d. copy_name dst p = Some d \<and> length d = 101 \<and> cstr d = Some (nm s)"
proof (cases "s = []")
  case True
  then have "rd p 0 = Some 0" using cstr_rd [OF assms(1), of 0] by simp
  moreover have "cstr (UNKNOWN @ [0]) = Some UNKNOWN" by (simp add: UNKNOWN_def)
  ultimately show ?thesis
    using True assms SctAsciiStrCpy_spec [of "UNKNOWN @ [0]" UNKNOWN dst]
    by (simp add: copy_name_def SctAsciiStrLen_cstr nm_def UNKNOWN_def)
next
  case False
  then have c: "rd p 0 = Some (s ! 0)" "s ! 0 \<noteq> 0"
    using cstr_rd [OF assms(1), of 0] cstr_nz [OF assms(1)] by (cases s; force)+
  then have "copy_name dst p = copy_value dst p"
    using assms(1) by (simp add: copy_name_def copy_value_def SctAsciiStrLen_cstr)
  then show ?thesis using copy_value_spec [OF assms] False by (simp add: nm_def)
qed

lemma comment_tail_end:
  assumes "cstr b = Some s" "s \<noteq> []" "last s \<notin> {chLF, chCR}"
  shows "comment_tail b (length s) = Some (length s)"
proof -
  obtain k where k: "length s = Suc k" using assms(2) by (cases "length s") auto
  then have "rd b k = Some (last s)"
    using cstr_rd_lt [OF assms(1), of k] assms(2) by (simp add: last_conv_nth)
  then show ?thesis using k assms(3) by simp
qed

lemma wr_end: "cstr b = Some s \<Longrightarrow> wr b (length s) 0 = Some b"
  by (auto simp: cstr_Some_iff wr_def)

lemma getcomment_spec:
  assumes s: "cstr b = Some s" "s \<noteq> []" "last s \<notin> {chLF, chCR}" "length s < 512"
    and new: "CPool n = Some new" "length (ptrComment new) = MAX_LINE_LEN"
  shows "\<exists>c. getcomment CPool n f b no =
      Some (b, \<lparr>cmtNo = no, ptrComment = c\<rparr>,
        f\<lparr>CommentLines := CommentLines f @ [\<lparr>cmtNo = no, ptrComment = c\<rparr>]\<rparr>) \<and>
    length c = MAX_LINE_LEN \<and> cstr c = Some s"
proof -
  let ?c = "s @ replicate (512 - length s) 0"
  have "length s mod 2 ^ 32 = length s" using s(4) by simp
  moreover have "SctAsciiStrnCpy (ptrComment new) b 512 = Some ?c"
    using SctAsciiStrnCpy_spec [OF s(1)] new s(4) by (simp add: MAX_LINE_LEN_def)
  moreover obtain k where "512 - length s = Suc k" using s(4) by (cases "512 - length s") auto
  then have "cstr ?c = Some s" using cstr_nz [OF s(1)] by simp
  ultimately show ?thesis
    using new s comment_tail_end [OF s(1-3)] wr_end [OF s(1)]
    by (intro exI [of _ ?c]) (simp add: getcomment_def SctAsciiStrLen_cstr MAX_LINE_LEN_def Let_def)
qed

lemma additem_spec:
  assumes "file_ok f" "fresh n f" "item_ok it"
  shows "\<exists>f'. additem f (n, it) = Some f' \<and> file_ok f' \<and> fresh (Suc n) f' \<and>
    Items f' = Items f @ [(n, it)] \<and> CommentLines f' = CommentLines f \<and> same_frame f f'"
proof -
  have c: "chain_ok (Items f) (Tail f)" using assms(1) by (simp add: file_ok_def)
  have new: "n \<notin> fst ` set (Items f)" using assms(2) by (auto simp: fresh_def)
  let ?f = "f\<lparr>Items := Items f @ [(n, it)], Tail := Some n\<rparr>"
  have "additem f (n, it) = Some ?f"
    using c link_next_last [of "Items f"] by (auto simp: additem_def chain_ok_def)
  moreover have "file_ok ?f" using c new assms(3) by (auto simp: file_ok_def chain_ok_def)
  moreover have "fresh (Suc n) ?f" using assms(2) by (auto simp: fresh_def)
  ultimately show ?thesis by (auto simp: same_frame_def)
qed

subsection \<open>One line\<close>

lemma pools_okD:
  assumes "pools_ok Pool CPool"
  obtains it c where "Pool n = Some it" "length (ptrSection it) = 101" "length (ptrEntry it) = 101"
    "length (ptrValue it) = 101" "CPool n = Some c" "length (ptrComment c) = MAX_LINE_LEN"
  using assms by (fastforce simp: pools_ok_def pool_ok_def)

lemma readsD:
  assumes "reads r d"
  shows "file_ok (rFile r)" "fresh (rPool r) (rFile r)" "length (rSection r) = 101" "rNo r = dNo d"
    "rGot r \<longleftrightarrow> dCur d \<noteq> None"
  using assms by (simp_all add: reads_def)

text \<open>Adding a record to the file and to the document.\<close>

lemma add_record:
  assumes r: "reads r d" and it: "item_ok it" "commentNo it = dNo d" "view (rPool r, it) = x"
  shows "\<exists>f. additem (rFile r) (rPool r, it) = Some f \<and> file_ok f \<and> fresh (Suc (rPool r)) f \<and>
    comments_ok f \<and> numbered f = dItems d @ [(dNo d, x)] \<and> remarks f = dComments d \<and>
    same_frame (rFile r) f"
proof -
  obtain f where f: "additem (rFile r) (rPool r, it) = Some f" "file_ok f" "fresh (Suc (rPool r)) f"
    "Items f = Items (rFile r) @ [(rPool r, it)]" "CommentLines f = CommentLines (rFile r)"
    "same_frame (rFile r) f"
    using additem_spec [OF readsD(1,2) [OF r] it(1)] by blast
  then show ?thesis using r it by (auto simp: reads_def comments_ok_def numbered_def remarks_def)
qed

lemma getsection_spec:
  assumes t: "cstr b = Some t" "t \<noteq> []" "hd t = chLB" "chRB \<in> set t" and b: "length b \<le> 2 ^ 32"
    and r: "reads r d" and pool: "pools_ok Pool CPool"
    and s: "s = nm (trim (before chRB (tl t)))" "length s < 100"
  shows "\<exists>b' r'. getsection Pool b r = Some (b', r') \<and> length b' = length b \<and>
    reads (r'\<lparr>rGot := True\<rparr>) (add_line d (SectionL s)) \<and> same_frame (rFile r) (rFile r')"
proof -
  obtain t' where t': "t = chLB # t'" using t(2,3) by (cases t) auto
  have p: "SctAsciiStrChr b chLB = Some (Some 0)" using SctAsciiStrChr_spec [OF t(1)] t' by simp
  have q: "SctAsciiStrChr b chRB = Some (Some (first_pos chRB t))"
    using SctAsciiStrChr_spec [OF t(1)] t(4) by simp
  obtain b1 where b1: "wr b (first_pos chRB t) 0 = Some b1" "length b1 = length b"
    "cstr b1 = Some (before chRB t)" using cut_at [OF t(1,4)] by blast
  have "cstr (drop 1 b1) = Some (drop 1 (before chRB t))"
    using b1(3) by (rule cstr_drop) (simp add: before_def t')
  then have c: "cstr (drop (Suc 0) b1) = Some (before chRB (tl t))" by (simp add: before_def t')
  have "length (drop (Suc 0) b1) \<le> 2 ^ 32" using b b1(2) by simp
  then obtain name where name: "alltrim (drop (Suc 0) b1) = Some name" "length name = length b - 1"
    "cstr name = Some (trim (before chRB (tl t)))" using alltrim_spec [OF c] b1(2) by auto
  obtain sect where sect: "copy_name (rSection r) name = Some sect" "length sect = 101"
    "cstr sect = Some s" using copy_name_spec [OF name(3) readsD(3) [OF r]] s(1) by blast
  obtain new where new: "Pool (rPool r) = Some new" "length (ptrSection new) = 101"
    "length (ptrEntry new) = 101" "length (ptrValue new) = 101" using pools_okD [OF pool] by blast
  obtain bs be bv where fs: "SctAsciiStrnCpy (ptrSection new) sect MAX_STRING_LEN = Some bs"
    "field_ok bs" "text_of bs = s" "SctAsciiStrCpy (ptrEntry new) [0] = Some be" "field_ok be"
    "text_of be = []" "SctAsciiStrCpy (ptrValue new) [0] = Some bv" "field_ok bv" "text_of bv = []"
    using fill_field [OF sect(3) s(2) new(2)] empty_field [OF new(3)] empty_field [OF new(4)] by blast
  let ?it = "\<lparr>commentNo = rNo r, ptrSection = bs, ptrEntry = be, ptrValue = bv\<rparr>"
  obtain f where f: "additem (rFile r) (rPool r, ?it) = Some f" "file_ok f" "fresh (Suc (rPool r)) f"
    "comments_ok f" "numbered f = dItems d @ [(dNo d, s, [], [])]" "remarks f = dComments d"
    "same_frame (rFile r) f"
    using add_record [OF r, of ?it "(s, [], [])"] fs readsD(4) [OF r]
    by (auto simp: item_ok_def view_def)
  have "length b > 0" using cstr_length [OF t(1)] by linarith
  then have "length (take (Suc 0) b1 @ name) = length b" using name(2) b1(2) by simp
  then show ?thesis
    using p q b1(1) name(1) sect new(1) fs(1,4,7) f readsD(4) [OF r] s(2)
    by (simp add: getsection_def reads_def)
qed

lemma getentry_spec:
  assumes t: "cstr b = Some t" "chEQ \<in> set t" and b: "length b \<le> 2 ^ 32"
    and l: "length pE = 101" "length pV = 101"
  shows "\<exists>b' e v. getentry b pE pV = Some (b', e, v) \<and> length b' = length b \<and>
    length e = 101 \<and> length v = 101 \<and> cstr e = Some (nm (trim (before chEQ t))) \<and>
    cstr v = Some (take 100 (trim (before chHASH (trim (after chEQ t)))))"
proof -
  let ?p = "first_pos chEQ t" and ?a = "trim (after chEQ t)"
  have p: "SctAsciiStrChr b chEQ = Some (Some ?p)" using SctAsciiStrChr_spec [OF t(1)] t(2) by simp
  obtain b1 where b1: "wr b ?p 0 = Some b1" "length b1 = length b"
    "cstr b1 = Some (before chEQ t)" "cstr (drop (Suc ?p) b1) = Some (after chEQ t)"
    using cut_at [OF t] by blast
  have lb: "length (before chEQ t) = ?p" by (simp add: before_def first_pos_def)
  obtain b2 where b2: "alltrim b1 = Some b2" "length b2 = length b"
    "cstr b2 = Some (trim (before chEQ t))" "drop (Suc ?p) b2 = drop (Suc ?p) b1"
    using alltrim_spec [OF b1(3)] b b1(2) lb by auto
  obtain e where e: "copy_name pE b2 = Some e" "length e = 101" "cstr e = Some (nm (trim (before chEQ t)))"
    using copy_name_spec [OF b2(3) l(1)] by blast
  have c2: "cstr (drop (Suc ?p) b2) = Some (after chEQ t)" using b1(4) b2(4) by simp
  have "length (drop (Suc ?p) b2) \<le> 2 ^ 32" using b b2(2) by simp
  then obtain w where w: "alltrim (drop (Suc ?p) b2) = Some w" "length w = length b - Suc ?p"
    "cstr w = Some ?a" using alltrim_spec [OF c2] b2(2) by auto
  have "\<exists>w'. (case (if chHASH \<in> set ?a then Some (first_pos chHASH ?a) else None) of
        None \<Rightarrow> Some w | Some k \<Rightarrow> do { w \<leftarrow> wr w k 0; alltrim w }) = Some w' \<and>
      length w' = length w \<and> cstr w' = Some (trim (before chHASH ?a))"
  proof (cases "chHASH \<in> set ?a")
    case True
    obtain w1 where w1: "wr w (first_pos chHASH ?a) 0 = Some w1" "length w1 = length w"
      "cstr w1 = Some (before chHASH ?a)" using cut_at [OF w(3) True] by blast
    have "length w1 \<le> 2 ^ 32" using b w(2) w1(2) by linarith
    from alltrim_spec [OF w1(3) this] show ?thesis using w1 True by auto
  next
    case False
    then have "before chHASH ?a = ?a" unfolding before_def by (auto simp: takeWhile_eq_all_conv)
    then show ?thesis using False w(3) by simp
  qed
  then obtain w' where w': "(case (if chHASH \<in> set ?a then Some (first_pos chHASH ?a) else None) of
        None \<Rightarrow> Some w | Some k \<Rightarrow> do { w \<leftarrow> wr w k 0; alltrim w }) = Some w'"
      "length w' = length w" "cstr w' = Some (trim (before chHASH ?a))" by blast
  obtain v where v: "copy_value pV w' = Some v" "length v = 101"
    "cstr v = Some (take 100 (trim (before chHASH ?a)))" using copy_value_spec [OF w'(3) l(2)] by blast
  have "?p < length b" using first_pos_lt [OF t(2)] cstr_length [OF t(1)] by simp
  then have "length (take (Suc ?p) b2 @ w') = length b" using w'(2) w(2) b2(2) by simp
  then show ?thesis
    using p b1(1) b2(1) e w(1) w'(1) v SctAsciiStrChr_spec [OF w(3), of chHASH]
    by (simp add: getentry_def)
qed

lemma store_entry_spec:
  assumes r: "reads r d" and pool: "pools_ok Pool CPool"
    and e: "cstr pE = Some e" "length e < 100" and v: "cstr pV = Some v" "length v < 100"
  shows "\<exists>r'. store_entry Pool pE pV r = Some r' \<and> reads r' (add_line d (EntryL e v)) \<and>
    same_frame (rFile r) (rFile r')"
proof (cases "dCur d")
  case None
  then show ?thesis using r readsD(5) [OF r] by (simp add: store_entry_def same_frame_def)
next
  case (Some s)
  then have s: "cstr (rSection r) = Some s" "length s < 100" using r by (auto simp: reads_def)
  obtain new where new: "Pool (rPool r) = Some new" "length (ptrSection new) = 101"
    "length (ptrEntry new) = 101" "length (ptrValue new) = 101" using pools_okD [OF pool] by blast
  obtain bs be bv where fs: "SctAsciiStrnCpy (ptrSection new) (rSection r) MAX_STRING_LEN = Some bs"
    "field_ok bs" "text_of bs = s" "SctAsciiStrnCpy (ptrEntry new) pE MAX_STRING_LEN = Some be"
    "field_ok be" "text_of be = e" "SctAsciiStrnCpy (ptrValue new) pV MAX_STRING_LEN = Some bv"
    "field_ok bv" "text_of bv = v"
    using fill_field [OF s new(2)] fill_field [OF e new(3)] fill_field [OF v new(4)] by blast
  let ?it = "\<lparr>commentNo = rNo r, ptrSection = bs, ptrEntry = be, ptrValue = bv\<rparr>"
  obtain f where f: "additem (rFile r) (rPool r, ?it) = Some f" "file_ok f" "fresh (Suc (rPool r)) f"
    "comments_ok f" "numbered f = dItems d @ [(dNo d, s, e, v)]" "remarks f = dComments d"
    "same_frame (rFile r) f"
    using add_record [OF r, of ?it "(s, e, v)"] fs readsD(4) [OF r] by (auto simp: item_ok_def view_def)
  then show ?thesis
    using r Some new(1) fs(1,4,7) readsD(5) [OF r] s by (simp add: store_entry_def reads_def)
qed

lemma add_comment:
  assumes r: "reads r d" and c: "length b = MAX_LINE_LEN" "cstr b = Some t"
    and f: "f = (rFile r)\<lparr>CommentLines := CommentLines (rFile r) @ [\<lparr>cmtNo = dNo d, ptrComment = b\<rparr>]\<rparr>"
  shows "reads (r\<lparr>rFile := f, rPool := Suc (rPool r), rTrace := tr\<rparr>) (add_line d (CommentL t)) \<and>
    same_frame (rFile r) f"
  using r c text_of_cstr [OF c(2)] unfolding f
  by (auto simp: reads_def file_ok_def fresh_def comments_ok_def numbered_def remarks_def
      same_frame_def)

text \<open>\<open>_prosessLine\<close> adds exactly the line its text stands for.\<close>

lemma prosessLine_spec:
  assumes s: "cstr b = Some s" "length s < 512" "length b \<le> 2 ^ 32"
    and ok: "case classify s of SectionL n \<Rightarrow> length n < 100
      | EntryL e v \<Rightarrow> length e < 100 \<and> length v < 100 | _ \<Rightarrow> True"
    and r: "reads r d" and pool: "pools_ok Pool CPool" and stk: "stack_ok Stk"
  shows "\<exists>b' r'. prosessLine Stk Pool CPool b r = Some (b', r') \<and> length b' = length b \<and>
    reads r' (add_line d (classify s)) \<and> same_frame (rFile r) (rFile r')"
proof -
  obtain b1 where b1: "alltrim b = Some b1" "length b1 = length b" "cstr b1 = Some (trim s)"
    using alltrim_spec [OF s(1,3)] by blast
  define t where "t = trim s"
  have t: "cstr b1 = Some t" and lt: "length t < 512" and b1l: "length b1 \<le> 2 ^ 32"
    using b1 s length_trim [of s] by (simp_all add: t_def)
  have nz: "0 \<notin> set t" using cstr_nz [OF t] .
  have c: "rd b1 0 = Some (if t = [] then 0 else hd t)"
    using cstr_rd [OF t, of 0] by (cases t) auto
  consider (comment) "t \<noteq> []" "hd t = chHASH"
    | (sect) "t \<noteq> []" "hd t = chLB" "chRB \<in> set t"
    | (entry) "\<not> (t \<noteq> [] \<and> hd t = chHASH)" "\<not> (t \<noteq> [] \<and> hd t = chLB \<and> chRB \<in> set t)" "chEQ \<in> set t"
    | (blank) "\<not> (t \<noteq> [] \<and> hd t = chHASH)" "\<not> (t \<noteq> [] \<and> hd t = chLB \<and> chRB \<in> set t)" "chEQ \<notin> set t"
    by blast
  then show ?thesis
  proof cases
    case comment
    have "last t \<notin> {chLF, chCR}"
      using comment(1) trimmed_last unfolding t_def trim_def by blast
    moreover obtain new where "CPool (rPool r) = Some new" "length (ptrComment new) = MAX_LINE_LEN"
      using pools_okD [OF pool] by blast
    ultimately obtain cb where cb: "getcomment CPool (rPool r) (rFile r) b1 (rNo r) =
        Some (b1, \<lparr>cmtNo = rNo r, ptrComment = cb\<rparr>, (rFile r)\<lparr>CommentLines := CommentLines (rFile r) @ [\<lparr>cmtNo = rNo r, ptrComment = cb\<rparr>]\<rparr>)"
        "length cb = MAX_LINE_LEN" "cstr cb = Some t"
      using getcomment_spec [OF t comment(1) _ lt] by blast
    have "classify s = CommentL t" using comment by (simp add: classify_def t_def [symmetric])
    then show ?thesis
      using b1(1,2) c comment cb(1) add_comment [OF r cb(2,3) refl] readsD(4) [OF r]
      by (simp add: prosessLine_def)
  next
    case sect
    have cl: "classify s = SectionL (nm (trim (before chRB (tl t))))"
      using sect by (simp add: classify_def t_def [symmetric])
    then have "length (nm (trim (before chRB (tl t)))) < 100" using ok by simp
    from getsection_spec [OF t sect b1l r pool refl this] show ?thesis
      using b1(1,2) c sect SctAsciiStrChr_spec [OF t, of chRB] cl
      by (auto simp: prosessLine_def)
  next
    case entry
    let ?e = "nm (trim (before chEQ t))"
      and ?v = "take 100 (trim (before chHASH (trim (after chEQ t))))"
    have cl: "classify s = EntryL ?e ?v"
      using entry by (simp add: classify_def t_def [symmetric] Let_def)
    obtain b' e v where ge: "getentry b1 (Stk L_ptrEntry) (Stk L_ptrValue) = Some (b', e, v)"
      "length b' = length b1" "cstr e = Some ?e" "cstr v = Some ?v"
      using getentry_spec [OF t entry(3) b1l] stack_ok_length [OF stk] by blast
    have "length ?e < 100" "length ?v < 100" using ok cl by simp_all
    from store_entry_spec [OF r pool ge(3) this(1) ge(4) this(2)] show ?thesis
      using b1(1,2) c entry ge(1,2) SctAsciiStrChr_spec [OF t] cl
      by (auto simp: prosessLine_def)
  next
    case blank
    then have "classify s = BlankL" by (simp add: classify_def t_def [symmetric] Let_def)
    then show ?thesis
      using b1(1,2) c blank SctAsciiStrChr_spec [OF t] r
      by (auto simp: prosessLine_def same_frame_def)
  qed
qed

section \<open>The reading loop\<close>

fun every2 :: "'a list \<Rightarrow> 'a list" where
  "every2 [] = []"
| "every2 [x] = [x]"
| "every2 (x # y # zs) = x # every2 zs"

definition chars :: "bool \<Rightarrow> u8 list \<Rightarrow> u8 list" where
  "chars u bs = (if u then every2 bs else bs)"

lemma chars_Cons: "chars u (x # bs) = x # chars u (if u then drop 1 bs else bs)"
  by (cases bs) (simp_all add: chars_def)

lemma chars_Nil [simp]: "chars u [] = []"
  by (simp add: chars_def)

lemma split_lines_not_Nil [simp]: "split_lines acc cs \<noteq> []"
  by (induction acc cs rule: split_lines.induct) auto

lemma length_hd_split_lines: "length acc \<le> length (hd (split_lines acc cs))"
  by (induction acc cs rule: split_lines.induct) auto

lemma same_frame_refl [simp]: "same_frame f f"
  by (simp add: same_frame_def)

lemma same_frame_trans: "same_frame f g \<Longrightarrow> same_frame g h \<Longrightarrow> same_frame f h"
  by (simp add: same_frame_def)

definition add_text :: "doc \<Rightarrow> u8 list \<Rightarrow> doc" where
  "add_text d l = add_line d (classify (text_of l))"

lemma parse_add_text: "parse cs = foldl add_text start (split_lines [] cs)"
  by (simp add: parse_def add_text_def [abs_def])

text \<open>A gathered line, terminated in the array, through \<open>_prosessLine\<close>.\<close>

lemma gathered_line:
  assumes line: "length line = MAX_LINE_LEN" "take i line = l" "length l = i" and ok: "line_ok l"
    and r: "reads r d" and pool: "pools_ok Pool CPool" and stk: "stack_ok Stk"
  shows "\<exists>w line' r'. wr line i 0 = Some w \<and> prosessLine Stk Pool CPool w r = Some (line', r') \<and>
    length line' = MAX_LINE_LEN \<and> reads r' (add_text d l) \<and> same_frame (rFile r) (rFile r')"
proof -
  have i: "i < length line" using ok line by (simp add: line_ok_def MAX_LINE_LEN_def)
  let ?w = "l @ 0 # drop (Suc i) line"
  have "line = l @ line ! i # drop (Suc i) line"
    using line(2) id_take_nth_drop [OF i] by simp
  then have w: "wr line i 0 = Some ?w"
    using i list_update_append_at [of l "line ! i" "drop (Suc i) line" 0] line(3) by (simp add: wr_def)
  have c: "cstr ?w = Some (text_of l)" by (rule text_of_cut)
  have lw: "length ?w = 512" using i line(1,3) by (simp add: MAX_LINE_LEN_def)
  have "length (text_of l) \<le> length l" by (simp add: text_of_def length_takeWhile_le)
  then have lt: "length (text_of l) < 512" using ok by (simp add: line_ok_def MAX_LINE_LEN_def)
  have "case classify (text_of l) of SectionL n \<Rightarrow> length n < 100
      | EntryL e v \<Rightarrow> length e < 100 \<and> length v < 100 | _ \<Rightarrow> True"
    using ok by (simp add: line_ok_def MAX_STRING_LEN_def split: line.splits)
  from prosessLine_spec [OF c lt _ this r pool stk] show ?thesis
    using lw w by (auto simp: add_text_def MAX_LINE_LEN_def)
qed

lemma chars_eq_Nil [simp]: "chars u bs = [] \<longleftrightarrow> bs = []"
  by (cases bs) (simp_all add: chars_Cons)

lemma read_loop_spec:
  assumes B: "BufSize \<le> length Buffer" and pool: "pools_ok Pool CPool" and stk: "\<forall>k. stack_ok (Stk k)"
  shows "cs = chars (isUnicode (rFile r)) (drop Number (take BufSize Buffer)) \<Longrightarrow>
    length line = MAX_LINE_LEN \<Longrightarrow> take Index line = acc \<Longrightarrow> length acc = Index \<Longrightarrow> reads r d \<Longrightarrow>
    \<forall>l\<in>set (split_lines acc cs). line_ok l \<Longrightarrow>
    \<exists>line' r'. read_loop Stk Pool CPool Buffer BufSize Number Index line r =
        Some (length (last (split_lines acc cs)), line', r') \<and> length line' = MAX_LINE_LEN \<and>
      take (length (last (split_lines acc cs))) line' = last (split_lines acc cs) \<and>
      reads r' (foldl add_text d (butlast (split_lines acc cs))) \<and> same_frame (rFile r) (rFile r')"
proof (induction cs arbitrary: Number Index line r acc d)
  case Nil
  then have "drop Number (take BufSize Buffer) = []" using chars_eq_Nil by metis
  then have "\<not> Number < BufSize" using B by simp
  then show ?case using Nil by (subst read_loop.simps) simp
next
  case (Cons c cs)
  let ?u = "isUnicode (rFile r)"
  have "drop Number (take BufSize Buffer) \<noteq> []" using Cons.prems(1) chars_eq_Nil by (metis list.distinct(1))
  then have N: "Number < BufSize" using B by simp
  have "drop Number (take BufSize Buffer) = Buffer ! Number # drop (Suc Number) (take BufSize Buffer)"
    using N B by (simp add: Cons_nth_drop_Suc [symmetric])
  then have c: "c = Buffer ! Number"
    and cs: "cs = chars ?u (drop (if ?u then Number + 2 else Suc Number) (take BufSize Buffer))"
    using Cons.prems(1) by (simp_all add: chars_Cons)
  have rd: "rd Buffer Number = Some c" using N B c by (simp add: rd_def)
  have "length (acc @ [c]) \<le> length (hd (split_lines acc (c # cs)))"
    using length_hd_split_lines [of "acc @ [c]" cs] by simp
  moreover have "line_ok (hd (split_lines acc (c # cs)))" using Cons.prems(6) by simp
  ultimately have i: "Suc Index < MAX_LINE_LEN" using Cons.prems(4) by (simp add: line_ok_def)
  let ?line = "line[Index := c]"
  have w: "wr line Index c = Some ?line" using i Cons.prems(2) by (simp add: wr_def)
  have l: "length ?line = MAX_LINE_LEN" using Cons.prems(2) by simp
  have tk: "take (Suc Index) ?line = acc @ [c]"
    using i Cons.prems(2,3) by (simp add: take_Suc_conv_app_nth)
  have la: "length (acc @ [c]) = Suc Index" using Cons.prems(4) by simp
  show ?case
  proof (cases "c = chLF")
    case True
    then have "line_ok (acc @ [c])" using Cons.prems(6) by simp
    then obtain w' line' r' where g: "wr ?line (Suc Index) 0 = Some w'"
      "prosessLine (Stk Number) Pool CPool w' r = Some (line', r')" "length line' = MAX_LINE_LEN"
      "reads r' (add_text d (acc @ [c]))" "same_frame (rFile r) (rFile r')"
      using gathered_line [OF l tk la _ Cons.prems(5) pool] stk by blast
    have u: "isUnicode (rFile r') = ?u" using g(5) by (simp add: same_frame_def)
    obtain line2 r2 where IH: "read_loop Stk Pool CPool Buffer BufSize (if ?u then Number + 2 else Suc Number) 0 line' r' =
        Some (length (last (split_lines [] cs)), line2, r2)" "length line2 = MAX_LINE_LEN"
      "take (length (last (split_lines [] cs))) line2 = last (split_lines [] cs)"
      "reads r2 (foldl add_text (add_text d (acc @ [c])) (butlast (split_lines [] cs)))"
      "same_frame (rFile r') (rFile r2)"
      using Cons.IH [of r' "if ?u then Number + 2 else Suc Number" line' 0 "[]" "add_text d (acc @ [c])"]
        g(3,4) u cs Cons.prems(6) True by auto
    have "same_frame (rFile r) (rFile r2)" using g(5) IH(5) by (rule same_frame_trans)
    then show ?thesis
      using N rd w True g(1,2) IH u by (subst read_loop.simps) simp
  next
    case False
    obtain line2 r2 where IH: "read_loop Stk Pool CPool Buffer BufSize (if ?u then Number + 2 else Suc Number) (Suc Index) ?line r =
        Some (length (last (split_lines (acc @ [c]) cs)), line2, r2)" "length line2 = MAX_LINE_LEN"
      "take (length (last (split_lines (acc @ [c]) cs))) line2 = last (split_lines (acc @ [c]) cs)"
      "reads r2 (foldl add_text d (butlast (split_lines (acc @ [c]) cs)))"
      "same_frame (rFile r) (rFile r2)"
      using Cons.IH [of r "if ?u then Number + 2 else Suc Number" ?line "Suc Index" "acc @ [c]" d]
        l tk la Cons.prems(5,6) cs False by auto
    then show ?thesis using N rd w False by (subst read_loop.simps) simp
  qed
qed

text \<open>The whole of the reading part of \<open>AtslEfiIniOpen\<close>, from an empty file.\<close>

lemma read_profile_spec:
  assumes B: "BufSize \<le> length Buffer" and pool: "pools_ok Pool CPool" and stk: "\<forall>k. stack_ok (Stk k)"
    and line: "length line = MAX_LINE_LEN" and sec: "length (rSection r) = 101"
    and new: "Items (rFile r) = []" "Tail (rFile r) = None" "CommentLines (rFile r) = []"
      "\<not> isUnicode (rFile r)"
    and ok: "\<forall>l\<in>set (split_lines []
        (chars (is_bom Buffer BufSize) (drop (if is_bom Buffer BufSize then 2 else 0) (take BufSize Buffer)))).
      line_ok l"
  shows "\<exists>r'. read_profile Stk Pool CPool line Buffer BufSize r = Some r' \<and>
    reads r' (parse (chars (is_bom Buffer BufSize)
      (drop (if is_bom Buffer BufSize then 2 else 0) (take BufSize Buffer)))) \<and>
    same_frame ((rFile r)\<lparr>isUnicode := is_bom Buffer BufSize\<rparr>) (rFile r')"
proof -
  let ?u = "is_bom Buffer BufSize"
  define n where "n = (if ?u then 2 else 0 :: nat)"
  define cs where "cs = chars ?u (drop n (take BufSize Buffer))"
  obtain x xs where x: "rSection r = x # xs" using sec by (cases "rSection r") auto
  then have w: "wr (rSection r) 0 0 = Some (0 # xs)" by (simp add: wr_def)
  let ?r = "r\<lparr>rFile := (rFile r)\<lparr>isUnicode := ?u\<rparr>, rSection := 0 # xs, rGot := False, rNo := 1\<rparr>"
  have start: "reads ?r start"
    using new sec x by (simp add: reads_def start_def file_ok_def chain_ok_def fresh_def
        comments_ok_def numbered_def remarks_def)
  have u: "isUnicode (rFile ?r) = ?u" by simp
  have okL: "\<forall>l\<in>set (split_lines [] cs). line_ok l" using ok by (simp add: cs_def n_def)
  obtain line' r' where lp: "read_loop Stk Pool CPool Buffer BufSize n 0 line ?r =
      Some (length (last (split_lines [] cs)), line', r')" "length line' = MAX_LINE_LEN"
    "take (length (last (split_lines [] cs))) line' = last (split_lines [] cs)"
    "reads r' (foldl add_text start (butlast (split_lines [] cs)))" "same_frame (rFile ?r) (rFile r')"
    using read_loop_spec [OF B pool stk, of cs ?r n line 0 "[]" start] line start okL
    by (auto simp: cs_def)
  have "line_ok (last (split_lines [] cs))" using okL by simp
  then obtain w' line2 r2 where g: "wr line' (length (last (split_lines [] cs))) 0 = Some w'"
    "prosessLine (Stk BufSize) Pool CPool w' r' = Some (line2, r2)"
    "reads r2 (add_text (foldl add_text start (butlast (split_lines [] cs))) (last (split_lines [] cs)))"
    "same_frame (rFile r') (rFile r2)"
    using gathered_line [OF lp(2,3) refl _ lp(4) pool] stk by blast
  have "parse cs = add_text (foldl add_text start (butlast (split_lines [] cs))) (last (split_lines [] cs))"
    by (metis append_butlast_last_id foldl_Cons foldl_Nil foldl_append parse_add_text split_lines_not_Nil)
  then have "reads r2 (parse cs)" using g(3) by simp
  moreover have "same_frame ((rFile r)\<lparr>isUnicode := ?u\<rparr>) (rFile r2)"
    using same_frame_trans [OF lp(5) g(4)] by simp
  ultimately show ?thesis
    using w new(4) lp(1) g(1,2) by (simp add: read_profile_def n_def cs_def)
qed

end
