(* ===== verification/Ini_Io.thy ===== *)
theory Ini_Io
  imports Ini_Parse
begin

text \<open>
  Opening, creating, flushing and closing an INI file: \<open>AtslEfiIniOpen\<close>, \<open>AtslEfiIniCreate\<close>,
  \<open>AtslEfiIniFlush\<close>, \<open>AtslEfiIniClose\<close>, \<open>EfiIniFlush\<close> and \<open>_freeIniFile\<close> of \<open>TestProfile.c\<close>. The
  firmware (the boot services and the simple file system protocol) is a parameter: a record of
  the answers it gives. Every function returns, with its result, the trace of the resources it
  acquired and released (the records and comments that parsing allocates among them) and of the
  data it wrote.
\<close>

section \<open>The firmware and the trace\<close>

text \<open>\<open>FOpen k\<close> is the answer to the \<open>k\<close>-th \<open>RootDir->Open\<close> of a call; \<open>FWrite k n\<close> the status
  and the number of bytes written by the \<open>k\<close>-th write, of \<open>n\<close> bytes. \<open>PageData\<close> is what the
  pages hold after \<open>Handle->Read\<close>, whose status and size are \<open>FRead\<close>.\<close>

record 'd firmware =
  AllocIni :: bool
  NamePool :: "nat \<Rightarrow> u16 list option"
  DupPath :: "'d \<Rightarrow> 'd option"
  LocateDevicePath :: EFI_STATUS
  HandleProtocol :: EFI_STATUS
  OpenVolume :: EFI_STATUS
  FOpen :: "nat \<Rightarrow> EFI_STATUS"
  FDelete :: EFI_STATUS
  FWrite :: "nat \<Rightarrow> nat \<Rightarrow> EFI_STATUS \<times> nat"
  InfoPool :: bool
  FGetInfo :: EFI_STATUS
  AllocPages :: EFI_STATUS
  FRead :: "EFI_STATUS \<times> nat"
  PageData :: "u8 list"

definition freeIniFile :: "'d EFI_INI_FILE \<Rightarrow> io list" where
  "freeIniFile f =
     (if FileName f \<noteq> None then [Release NameCopy] else []) @
     (if DevPath f \<noteq> None then [Release PathCopy] else []) @
     (let (items, comments, g) = freePointer f in
        map (\<lambda>a. Release (Record a)) items @ map (\<lambda>c. Release (Remark c)) comments) @
     [Release IniFile]"

section \<open>Opening and creating\<close>

text \<open>The part both functions start with: the new record with its copies of the names.\<close>

definition new_ini ::
    "'d firmware \<Rightarrow> 'd \<Rightarrow> u16 list \<Rightarrow> ((EFI_STATUS \<times> io list) + ('d EFI_INI_FILE \<times> io list)) option" where
  "new_ini fw RootDevPath Name =
     (if \<not> AllocIni fw then Some (Inl (EFI_OUT_OF_RESOURCES, []))
      else do {
        name \<leftarrow> SctStrDuplicate (NamePool fw) Name;
        (case name of
           None \<Rightarrow> Some (Inl (EFI_OUT_OF_RESOURCES,
             Acquire IniFile # freeIniFile (initFile :: 'd EFI_INI_FILE)))
         | Some name \<Rightarrow>
             (case DupPath fw RootDevPath of
                None \<Rightarrow> Some (Inl (EFI_OUT_OF_RESOURCES,
                  [Acquire IniFile, Acquire NameCopy] @
                  freeIniFile ((initFile :: 'd EFI_INI_FILE)\<lparr>FileName := Some name\<rparr>)))
              | Some path \<Rightarrow> Some (Inr (initFile\<lparr>FileName := Some name, DevPath := Some path\<rparr>,
                  [Acquire IniFile, Acquire NameCopy, Acquire PathCopy])))) })"

text \<open>The status of finding and opening the volume: the first error, or the last answer.\<close>

definition volume_status :: "'d firmware \<Rightarrow> EFI_STATUS" where
  "volume_status fw =
     (if EFI_ERROR (LocateDevicePath fw) then LocateDevicePath fw
      else if EFI_ERROR (HandleProtocol fw) then HandleProtocol fw
      else OpenVolume fw)"

text \<open>From the open of the profile to \<open>EXIT_CLOSE_ROOT_DIR\<close>: the status, the reader's result and
  the trace up to the closing of the root directory.\<close>

definition read_file ::
    "'d firmware \<Rightarrow> (nat \<Rightarrow> stack) \<Rightarrow> pool \<Rightarrow> cpool \<Rightarrow> u8 list \<Rightarrow> 'd reader \<Rightarrow>
     (EFI_STATUS \<times> 'd EFI_INI_FILE \<times> io list) option" where
  "read_file fw Stk Pool CPool ptrLine r =
     (if EFI_ERROR (FOpen fw 0) then Some (FOpen fw 0, rFile r, [])
      else if \<not> InfoPool fw
      then Some (EFI_OUT_OF_RESOURCES, rFile r, [Acquire File, Release File])
      else if EFI_ERROR (FGetInfo fw)
      then Some (FGetInfo fw, rFile r, [Acquire File, Acquire FileInfo, Release File])
      else if EFI_ERROR (AllocPages fw)
      then Some (AllocPages fw, rFile r,
        [Acquire File, Acquire FileInfo, Release FileInfo, Release File])
      else if EFI_ERROR (fst (FRead fw))
      then Some (fst (FRead fw), rFile r,
        [Acquire File, Acquire FileInfo, Acquire Pages, ReadFile, Release Pages,
         Release FileInfo, Release File])
      else do {
        r \<leftarrow> read_profile Stk Pool CPool ptrLine (PageData fw) (snd (FRead fw)) r;
        Some (EFI_SUCCESS, rFile r,
          [Acquire File, Acquire FileInfo, Acquire Pages, ReadFile] @ rTrace r @
          [Release Pages, Release FileInfo, Release File]) })"

definition AtslEfiIniOpen ::
    "'d firmware \<Rightarrow> (nat \<Rightarrow> stack) \<Rightarrow> pool \<Rightarrow> cpool \<Rightarrow> nat \<Rightarrow> u8 list \<Rightarrow> u8 list \<Rightarrow>
     'd option \<Rightarrow> u16 list option \<Rightarrow> bool \<Rightarrow>
     (EFI_STATUS \<times> 'd EFI_INI_FILE option \<times> io list) option" where
  "AtslEfiIniOpen fw Stk Pool CPool n ptrLine sect RootDevPath Name has_handle =
     (case (RootDevPath, Name, has_handle) of
        (Some RootDevPath, Some Name, True) \<Rightarrow> do {
          len \<leftarrow> SctStrLen Name;
          if len > MAX_STRING_LEN then Some (EFI_INVALID_PARAMETER, None, []) else do {
            new \<leftarrow> new_ini fw RootDevPath Name;
            (case new of
               Inl (st, tr) \<Rightarrow> Some (st, None, tr)
             | Inr (f, tr) \<Rightarrow>
                 if EFI_ERROR (volume_status fw)
                 then Some (volume_status fw, None, tr @ freeIniFile f)
                 else do {
                   (st, f, tr') \<leftarrow> read_file fw Stk Pool CPool ptrLine
                     \<lparr>rFile = f, rSection = sect, rGot = False, rNo = 1, rPool = n, rTrace = []\<rparr>;
                   (if EFI_ERROR st
                    then Some (st, None,
                      tr @ [Acquire RootDir] @ tr' @ [Release RootDir] @ freeIniFile f)
                    else Some (st, Some f, tr @ [Acquire RootDir] @ tr' @ [Release RootDir])) }) } }
      | _ \<Rightarrow> Some (EFI_INVALID_PARAMETER, None, []))"

text \<open>A file that exists is opened by the test of its existence, and that handle is not closed.\<close>

definition AtslEfiIniCreate ::
    "'d firmware \<Rightarrow> 'd option \<Rightarrow> u16 list option \<Rightarrow> bool \<Rightarrow>
     (EFI_STATUS \<times> 'd EFI_INI_FILE option \<times> io list) option" where
  "AtslEfiIniCreate fw RootDevPath Name has_handle =
     (case (RootDevPath, Name, has_handle) of
        (Some RootDevPath, Some Name, True) \<Rightarrow> do {
          len \<leftarrow> SctStrLen Name;
          if len > MAX_STRING_LEN then Some (EFI_INVALID_PARAMETER, None, []) else do {
            new \<leftarrow> new_ini fw RootDevPath Name;
            Some (case new of
               Inl (st, tr) \<Rightarrow> (st, None, tr)
             | Inr (f, tr) \<Rightarrow>
                 if EFI_ERROR (volume_status fw)
                 then (volume_status fw, None, tr @ freeIniFile f)
                 else if FOpen fw 0 \<noteq> EFI_NOT_FOUND
                 then (EFI_ACCESS_DENIED, None,
                   tr @ [Acquire RootDir] @ (if EFI_ERROR (FOpen fw 0) then [] else [Acquire File]) @
                   freeIniFile f @ [Release RootDir])
                 else if EFI_ERROR (FOpen fw 1)
                 then (FOpen fw 1, None, tr @ [Acquire RootDir] @ freeIniFile f @ [Release RootDir])
                 else (case FWrite fw 0 2 of (st, k) \<Rightarrow>
                   if EFI_ERROR st
                   then (st, None, tr @ [Acquire RootDir, Acquire File, WriteFile (take k [0xff, 0xfe])] @
                     freeIniFile (f\<lparr>isUnicode := True\<rparr>) @ [Release File, Release RootDir])
                   else (EFI_SUCCESS, Some (f\<lparr>isUnicode := True\<rparr>),
                     tr @ [Acquire RootDir, Acquire File, WriteFile (take k [0xff, 0xfe]),
                       Release File, Release RootDir]))) } }
      | _ \<Rightarrow> Some (EFI_INVALID_PARAMETER, None, []))"

section \<open>Flushing\<close>

text \<open>The locals of \<open>EfiIniFlush\<close>, the trace, and the number of writes made.\<close>

record out =
  oBuffer :: "u8 list"
  oUnicode :: "u16 list"
  oLine :: "u8 list"
  oSize :: nat
  oNo :: u32
  oFirst :: bool
  oTrace :: "io list"
  oWrites :: nat

definition le16 :: "u16 \<Rightarrow> u8 list" where
  "le16 w = [ucast w, ucast (drop_bit 8 w)]"

text \<open>The bytes handed to \<open>Handle->Write\<close>, which returns the size written in its argument.\<close>

definition write_bytes :: "'d firmware \<Rightarrow> u8 list \<Rightarrow> out \<Rightarrow> EFI_STATUS \<times> nat \<times> out" where
  "write_bytes fw data s =
     (case FWrite fw (oWrites s) (length data) of (st, k) \<Rightarrow>
        (st, k, s\<lparr>oTrace := oTrace s @ [WriteFile (take k data)], oWrites := Suc (oWrites s)\<rparr>))"

text \<open>Writing the buffer of a section: converted, with its terminator, in a Unicode file; with
  whatever \<open>BufferSize\<close> holds in another one.\<close>

definition write_buffer :: "'d firmware \<Rightarrow> bool \<Rightarrow> out \<Rightarrow> (EFI_STATUS \<times> out) option" where
  "write_buffer fw unicode s =
     (if unicode then do {
        len \<leftarrow> SctAsciiStrLen (oBuffer s);
        (u, _) \<leftarrow> SctAsciiToUnicode (Some (oUnicode s)) (Some (oBuffer s)) (len + 1);
        u \<leftarrow> u;
        (case write_bytes fw (concat (map le16 (take (len + 1) u)))
                (s\<lparr>oUnicode := u, oSize := len + 1\<rparr>) of
           (st, k, s) \<Rightarrow> Some (st, s)) }
      else if oSize s \<le> length (oBuffer s)
      then (case write_bytes fw (take (oSize s) (oBuffer s)) s of
              (st, k, s) \<Rightarrow> Some (st, s\<lparr>oSize := k\<rparr>))
      else None)"

definition add_remark :: "COMMENTLINE \<Rightarrow> out \<Rightarrow> out option" where
  "add_remark c s = do {
     l \<leftarrow> SctAsciiStrCpy (oLine s) (ptrComment c);
     l \<leftarrow> SctAsciiStrCat l [chCR, chLF, 0];
     b \<leftarrow> SctAsciiStrCat (oBuffer s) l;
     Some (s\<lparr>oLine := l, oBuffer := b\<rparr>) }"

fun flush_comments :: "INI \<Rightarrow> COMMENTLINE list \<Rightarrow> out \<Rightarrow> out option" where
  "flush_comments it [] s = Some s"
| "flush_comments it (c # cs) s =
     (if cmtNo c = commentNo it
      then do { s \<leftarrow> add_remark c (s\<lparr>oNo := cmtNo c\<rparr>); flush_comments it cs s }
      else flush_comments it cs s)"

fun last_comments :: "COMMENTLINE list \<Rightarrow> out \<Rightarrow> out option" where
  "last_comments [] s = Some s"
| "last_comments (c # cs) s =
     (if cmtNo c \<ge> oNo s then do { s \<leftarrow> add_remark c s; last_comments cs s }
      else last_comments cs s)"

text \<open>The line of a record.\<close>

definition flush_line :: "INI \<Rightarrow> out \<Rightarrow> out option" where
  "flush_line it s = do {
     e0 \<leftarrow> rd (ptrEntry it) 0;
     l \<leftarrow> (if e0 = 0 then do {
             l \<leftarrow> SctAsciiStrCpy (oLine s) [chLB, 0];
             l \<leftarrow> SctAsciiStrCat l (ptrSection it);
             SctAsciiStrCat l [chRB, chCR, chLF, 0] }
           else do {
             l \<leftarrow> SctAsciiStrnCpy (oLine s) (ptrEntry it) MAX_STRING_LEN;
             l \<leftarrow> SctAsciiStrCat l [chEQ, 0];
             l \<leftarrow> SctAsciiStrCat l (ptrValue it);
             SctAsciiStrCat l [chCR, chLF, 0] });
     b \<leftarrow> SctAsciiStrCat (oBuffer s) l;
     Some (s\<lparr>oLine := l, oBuffer := b\<rparr>) }"

text \<open>A new section: the previous one is written first.\<close>

definition flush_head :: "'d firmware \<Rightarrow> bool \<Rightarrow> INI \<Rightarrow> out \<Rightarrow> (EFI_STATUS \<times> out) option" where
  "flush_head fw unicode it s = do {
     e0 \<leftarrow> rd (ptrEntry it) 0;
     if e0 \<noteq> 0 then Some (EFI_SUCCESS, s)
     else if oFirst s then do {
       b \<leftarrow> wr (oBuffer s) 0 0;
       Some (EFI_SUCCESS, s\<lparr>oFirst := False, oBuffer := b\<rparr>) }
     else do {
       (st, s) \<leftarrow> write_buffer fw unicode s;
       if EFI_ERROR st then Some (st, s)
       else do {
         b \<leftarrow> SctAsciiStrCpy (oBuffer s) [chCR, chLF, 0];
         Some (st, s\<lparr>oBuffer := b\<rparr>) } } }"

fun flush_loop ::
    "'d firmware \<Rightarrow> bool \<Rightarrow> COMMENTLINE list \<Rightarrow> item list \<Rightarrow> out \<Rightarrow> (EFI_STATUS \<times> out) option" where
  "flush_loop fw unicode Comments [] s = Some (EFI_SUCCESS, s)"
| "flush_loop fw unicode Comments ((a, it) # its) s = do {
     (st, s) \<leftarrow> flush_head fw unicode it s;
     if EFI_ERROR st then Some (st, s)
     else do {
       s \<leftarrow> flush_comments it Comments s;
       s \<leftarrow> flush_line it s;
       flush_loop fw unicode Comments its s } }"

text \<open>The byte order mark, with the buffer it is put into.\<close>

definition flush_bom :: "'d firmware \<Rightarrow> bool \<Rightarrow> out \<Rightarrow> (EFI_STATUS \<times> out) option" where
  "flush_bom fw unicode s =
     (if \<not> unicode then Some (EFI_SUCCESS, s)
      else do {
        b \<leftarrow> wr (oBuffer s) 0 0xff;
        b \<leftarrow> wr b 1 0xfe;
        (case write_bytes fw (take 2 b) (s\<lparr>oBuffer := b, oSize := 2\<rparr>) of
           (st, k, s) \<Rightarrow> Some (st, s\<lparr>oSize := k\<rparr>)) })"

text \<open>Everything written to the open file.\<close>

definition flush_text ::
    "'d firmware \<Rightarrow> bool \<Rightarrow> item list \<Rightarrow> COMMENTLINE list \<Rightarrow> out \<Rightarrow> (EFI_STATUS \<times> out) option" where
  "flush_text fw unicode its Comments s = do {
     (st, s) \<leftarrow> flush_bom fw unicode s;
     if EFI_ERROR st then Some (st, s) else do {
       (st, s) \<leftarrow> flush_loop fw unicode Comments its s;
       if EFI_ERROR st then Some (st, s) else do {
         (st, s) \<leftarrow> write_buffer fw unicode s;
         if EFI_ERROR st then Some (st, s) else do {
           b \<leftarrow> wr (oBuffer s) 0 0;
           s \<leftarrow> last_comments Comments (s\<lparr>oNo := oNo s + 1, oBuffer := b\<rparr>);
           c \<leftarrow> rd (oBuffer s) 0;
           if c \<noteq> 0 then write_buffer fw unicode s else Some (EFI_SUCCESS, s) } } } }"

definition EfiIniFlush ::
    "'d firmware \<Rightarrow> out \<Rightarrow> 'd EFI_INI_FILE \<Rightarrow> (EFI_STATUS \<times> 'd EFI_INI_FILE \<times> io list) option" where
  "EfiIniFlush fw Stk f =
     (if \<not> Modified f then Some (EFI_SUCCESS, f, [])
      else if EFI_ERROR (volume_status fw) then Some (volume_status fw, f, [])
      else if EFI_ERROR (FOpen fw 0) then Some (FOpen fw 0, f, [Acquire RootDir, Release RootDir])
      else if FDelete fw \<noteq> EFI_SUCCESS
      then Some (EFI_UNSUPPORTED, f, [Acquire RootDir, Acquire File, DeleteFile, Release RootDir])
      else if EFI_ERROR (FOpen fw 1)
      then Some (FOpen fw 1, f, [Acquire RootDir, Acquire File, DeleteFile, Release RootDir])
      else do {
        (st, s) \<leftarrow> flush_text fw (isUnicode f) (Items f) (CommentLines f)
          (Stk\<lparr>oNo := 0, oFirst := True, oWrites := 0,
               oTrace := [Acquire RootDir, Acquire File, DeleteFile, Acquire File]\<rparr>);
        Some (if EFI_ERROR st
              then (st, f, oTrace s @ [Release File, Release RootDir])
              else (EFI_SUCCESS, f\<lparr>Modified := False\<rparr>,
                    oTrace s @ [FlushFile, Release File, Release RootDir])) })"

definition AtslEfiIniFlush ::
    "'d firmware \<Rightarrow> out \<Rightarrow> 'd EFI_INI_FILE \<Rightarrow> (EFI_STATUS \<times> 'd EFI_INI_FILE \<times> io list) option" where
  "AtslEfiIniFlush fw Stk f = EfiIniFlush fw Stk f"

definition AtslEfiIniClose ::
    "'d firmware \<Rightarrow> out \<Rightarrow> 'd EFI_INI_FILE \<Rightarrow> (EFI_STATUS \<times> io list) option" where
  "AtslEfiIniClose fw Stk f = do {
     (st, f, tr) \<leftarrow> EfiIniFlush fw Stk f;
     Some (st, tr @ freeIniFile f) }"

end
