(* ===== verification/Ini_Print.thy ===== *)
theory Ini_Print
  imports Ini_Io
begin

text \<open>
  What \<open>EfiIniFlush\<close> writes for a Unicode file: the text of the records with their comments, in
  one block for every section, and the proof that the code writes exactly that.
\<close>

section \<open>The text of a file\<close>

abbreviation (input) CRLF :: "u8 list" where "CRLF \<equiv> [chCR, chLF]"

text \<open>A record with the comments that carry its number.\<close>

type_synonym noted = "u8 list list \<times> entry"

definition remarks_for :: "COMMENTLINE list \<Rightarrow> INI \<Rightarrow> u8 list list" where
  "remarks_for cs it = map (\<lambda>c. text_of (ptrComment c)) (filter (\<lambda>c. cmtNo c = commentNo it) cs)"

definition attached :: "'d EFI_INI_FILE \<Rightarrow> noted list" where
  "attached f = map (\<lambda>x. (remarks_for (CommentLines f) (snd x), view x)) (Items f)"

definition remark_lines :: "u8 list list \<Rightarrow> u8 list" where
  "remark_lines rs = concat (map (\<lambda>r. r @ CRLF) rs)"

definition entry_line :: "entry \<Rightarrow> u8 list" where
  "entry_line x = (case x of (s, e, v) \<Rightarrow>
     if e = [] then chLB # s @ chRB # CRLF else e @ chEQ # v @ CRLF)"

definition item_text :: "noted \<Rightarrow> u8 list" where
  "item_text x = remark_lines (fst x) @ entry_line (snd x)"

fun blocks :: "u8 list \<Rightarrow> noted list \<Rightarrow> u8 list list" where
  "blocks acc [] = [acc]"
| "blocks acc (x # xs) =
     (if fst (snd (snd x)) = [] then acc # blocks (CRLF @ item_text x) xs
      else blocks (acc @ item_text x) xs)"

text \<open>The number of the last record that has a comment; the comments behind it.\<close>

definition last_no :: "COMMENTLINE list \<Rightarrow> item list \<Rightarrow> u32 \<Rightarrow> u32" where
  "last_no cs its n =
     foldl (\<lambda>n x. if remarks_for cs (snd x) = [] then n else commentNo (snd x)) n its"

definition trailing :: "'d EFI_INI_FILE \<Rightarrow> u8 list list" where
  "trailing f = map (\<lambda>c. text_of (ptrComment c))
     (filter (\<lambda>c. cmtNo c \<ge> last_no (CommentLines f) (Items f) 0 + 1) (CommentLines f))"

definition utf16 :: "u8 list \<Rightarrow> u8 list" where
  "utf16 s = concat (map (\<lambda>c. [c, 0]) s)"

text \<open>The blocks of a file whose first record is a section head.\<close>

definition file_blocks :: "'d EFI_INI_FILE \<Rightarrow> u8 list list" where
  "file_blocks f = blocks (item_text (hd (attached f))) (tl (attached f))"

definition flush_data :: "'d EFI_INI_FILE \<Rightarrow> u8 list list" where
  "flush_data f = [0xff, 0xfe] # map (\<lambda>b. utf16 (b @ [0])) (file_blocks f) @
     (if trailing f = [] then [] else [utf16 (remark_lines (trailing f) @ [0])])"

section \<open>Steps\<close>

definition out_ok :: "out \<Rightarrow> bool" where
  "out_ok s \<longleftrightarrow> length (oBuffer s) = MAX_LINE_LEN * 10 \<and>
     length (oUnicode s) = MAX_LINE_LEN * 10 * 2 \<and> length (oLine s) = MAX_LINE_LEN * 2"

definition holds :: "out \<Rightarrow> u8 list \<Rightarrow> bool" where
  "holds s t \<longleftrightarrow> out_ok s \<and> cstr (oBuffer s) = Some t"

definition same_io :: "out \<Rightarrow> out \<Rightarrow> bool" where
  "same_io s s' \<longleftrightarrow> oFirst s' = oFirst s \<and> oTrace s' = oTrace s \<and> oWrites s' = oWrites s"

lemma same_io_refl [simp]: "same_io s s"
  by (simp add: same_io_def)

lemma same_io_trans: "same_io s t \<Longrightarrow> same_io t u \<Longrightarrow> same_io s u"
  by (simp add: same_io_def)

lemma StrCat_ok:
  assumes "cstr d = Some s" "cstr b = Some t" "length s + length t < length d"
  shows "\<exists>d'. SctAsciiStrCat d b = Some d' \<and> length d' = length d \<and> cstr d' = Some (s @ t)"
  using SctAsciiStrCat_spec [OF assms(1,2)] assms(3) cstr_nz [OF assms(1)] cstr_nz [OF assms(2)]
    cstr_append_0 [of "s @ t"] by simp

lemma StrCpy_ok:
  assumes "cstr b = Some t" "length t < length d"
  shows "\<exists>d'. SctAsciiStrCpy d b = Some d' \<and> length d' = length d \<and> cstr d' = Some t"
  using SctAsciiStrCpy_spec [OF assms(1)] assms(2) cstr_nz [OF assms(1)] by simp

lemma StrnCpy_ok:
  assumes "cstr b = Some t" "length t < n" "n \<le> length d"
  shows "\<exists>d'. SctAsciiStrnCpy d b n = Some d' \<and> length d' = length d \<and> cstr d' = Some t"
proof -
  obtain k where "n - length t = Suc k" using assms(2) by (cases "n - length t") auto
  then show ?thesis using SctAsciiStrnCpy_spec [OF assms(1)] assms cstr_nz [OF assms(1)] by simp
qed

lemma cstr_crlf: "cstr [chCR, chLF, 0] = Some CRLF"
  by (simp add: cstr_Cons)

lemma add_remark_spec:
  assumes s: "holds s t" and c: "length (ptrComment c) = MAX_LINE_LEN" "cstr (ptrComment c) = Some u"
    and len: "length t + length u + 2 < 5120"
  shows "\<exists>s'. add_remark c s = Some s' \<and> holds s' (t @ u @ CRLF) \<and> same_io s s' \<and> oNo s' = oNo s"
proof -
  have u: "length u < 512" using cstr_length [OF c(2)] c(1) by (simp add: MAX_LINE_LEN_def)
  have l: "length (oLine s) = 1024" "length (oBuffer s) = 5120" "cstr (oBuffer s) = Some t"
    using s by (simp_all add: holds_def out_ok_def MAX_LINE_LEN_def)
  obtain l1 where l1: "SctAsciiStrCpy (oLine s) (ptrComment c) = Some l1" "length l1 = 1024" "cstr l1 = Some u"
    using StrCpy_ok [OF c(2), of "oLine s"] u l(1) by auto
  obtain l2 where l2: "SctAsciiStrCat l1 [chCR, chLF, 0] = Some l2" "length l2 = 1024" "cstr l2 = Some (u @ CRLF)"
    using StrCat_ok [OF l1(3) cstr_crlf] u l1(2) by auto
  obtain b where b: "SctAsciiStrCat (oBuffer s) l2 = Some b" "length b = 5120" "cstr b = Some (t @ u @ CRLF)"
    using StrCat_ok [OF l(3) l2(3)] len l(2) by auto
  then show ?thesis
    using l1(1) l2(1,2) s by (simp add: add_remark_def holds_def out_ok_def same_io_def MAX_LINE_LEN_def)
qed

lemma remark_lines_simps [simp]:
  "remark_lines [] = []"
  "remark_lines (r # rs) = r @ CRLF @ remark_lines rs"
  by (simp_all add: remark_lines_def)

definition remarks_ok :: "COMMENTLINE list \<Rightarrow> bool" where
  "remarks_ok cs \<longleftrightarrow> (\<forall>c\<in>set cs. length (ptrComment c) = MAX_LINE_LEN \<and> cstr (ptrComment c) \<noteq> None)"

lemma remarks_ok_Cons [simp]:
  "remarks_ok (c # cs) \<longleftrightarrow> length (ptrComment c) = MAX_LINE_LEN \<and>
     cstr (ptrComment c) = Some (text_of (ptrComment c)) \<and> remarks_ok cs"
  by (auto simp: remarks_ok_def dest: text_of_cstr)

lemma remarks_for_simps [simp]:
  "remarks_for [] it = []"
  "remarks_for (c # cs) it =
     (if cmtNo c = commentNo it then text_of (ptrComment c) # remarks_for cs it else remarks_for cs it)"
  by (simp_all add: remarks_for_def)

lemma flush_comments_spec:
  "remarks_ok cs \<Longrightarrow> holds s t \<Longrightarrow> length t + length (remark_lines (remarks_for cs it)) < 5120 \<Longrightarrow>
    \<exists>s'. flush_comments it cs s = Some s' \<and> holds s' (t @ remark_lines (remarks_for cs it)) \<and>
      same_io s s' \<and> oNo s' = (if remarks_for cs it = [] then oNo s else commentNo it)"
proof (induction cs arbitrary: s t)
  case (Cons c cs)
  let ?u = "text_of (ptrComment c)"
  show ?case
  proof (cases "cmtNo c = commentNo it")
    case True
    let ?s = "s\<lparr>oNo := cmtNo c\<rparr>"
    have "holds ?s t" using Cons.prems(2) by (simp add: holds_def out_ok_def)
    then obtain s1 where s1: "add_remark c ?s = Some s1" "holds s1 (t @ ?u @ CRLF)" "same_io ?s s1"
      "oNo s1 = cmtNo c"
      using add_remark_spec [of ?s t c ?u] Cons.prems(1,3) True by auto
    obtain s2 where s2: "flush_comments it cs s1 = Some s2"
      "holds s2 ((t @ ?u @ CRLF) @ remark_lines (remarks_for cs it))" "same_io s1 s2"
      "oNo s2 = (if remarks_for cs it = [] then oNo s1 else commentNo it)"
      using Cons.IH [OF _ s1(2)] Cons.prems(1,3) True by auto
    have "same_io s s2" using s1(3) s2(3) by (simp add: same_io_def)
    then show ?thesis using s1(1,4) s2 True by simp
  next
    case False
    then show ?thesis using Cons.IH [OF _ Cons.prems(2)] Cons.prems by simp
  qed
qed simp

lemma last_comments_spec:
  "remarks_ok cs \<Longrightarrow> holds s t \<Longrightarrow>
    length t + length (remark_lines (map (\<lambda>c. text_of (ptrComment c)) (filter (\<lambda>c. cmtNo c \<ge> oNo s) cs))) < 5120 \<Longrightarrow>
    \<exists>s'. last_comments cs s = Some s' \<and>
      holds s' (t @ remark_lines (map (\<lambda>c. text_of (ptrComment c)) (filter (\<lambda>c. cmtNo c \<ge> oNo s) cs))) \<and>
      same_io s s'"
proof (induction cs arbitrary: s t)
  case (Cons c cs)
  let ?u = "text_of (ptrComment c)"
  show ?case
  proof (cases "cmtNo c \<ge> oNo s")
    case True
    then obtain s1 where s1: "add_remark c s = Some s1" "holds s1 (t @ ?u @ CRLF)" "same_io s s1" "oNo s1 = oNo s"
      using add_remark_spec [OF Cons.prems(2), of c ?u] Cons.prems(1,3) by auto
    obtain s2 where s2: "last_comments cs s1 = Some s2"
      "holds s2 ((t @ ?u @ CRLF) @ remark_lines (map (\<lambda>c. text_of (ptrComment c)) (filter (\<lambda>c. cmtNo c \<ge> oNo s) cs)))"
      "same_io s1 s2"
      using Cons.IH [OF _ s1(2)] Cons.prems(1,3) True s1(4) by auto
    then show ?thesis using True s1(1) same_io_trans [OF s1(3) s2(3)] by simp
  next
    case False
    then show ?thesis using Cons.IH [OF _ Cons.prems(2)] Cons.prems by simp
  qed
qed simp

lemma flush_line_spec:
  assumes s: "holds s t" and it: "item_ok it" "length (ent_of it) < 100"
    and len: "length t + length (entry_line (view (a, it))) < 5120"
  shows "\<exists>s'. flush_line it s = Some s' \<and> holds s' (t @ entry_line (view (a, it))) \<and> same_io s s' \<and>
    oNo s' = oNo s"
proof -
  have l: "length (oLine s) = 1024" "length (oBuffer s) = 5120" "cstr (oBuffer s) = Some t"
    using s by (simp_all add: holds_def out_ok_def MAX_LINE_LEN_def)
  note f = item_okD [OF it(1)]
  have le: "length (sec_of it) \<le> 100" "length (val_of it) \<le> 100"
    using it(1) field_ok_le by (auto simp: item_ok_def)
  have e0: "rd (ptrEntry it) 0 = Some (if ent_of it = [] then 0 else hd (ent_of it))"
    using cstr_rd [OF f(2), of 0] by (cases "ent_of it") auto
  have nz: "ent_of it \<noteq> [] \<Longrightarrow> hd (ent_of it) \<noteq> 0" using cstr_nz [OF f(2)] by (cases "ent_of it") auto
  have "\<exists>l'. (if ent_of it = [] then do {
             l \<leftarrow> SctAsciiStrCpy (oLine s) [chLB, 0];
             l \<leftarrow> SctAsciiStrCat l (ptrSection it);
             SctAsciiStrCat l [chRB, chCR, chLF, 0] }
           else do {
             l \<leftarrow> SctAsciiStrnCpy (oLine s) (ptrEntry it) MAX_STRING_LEN;
             l \<leftarrow> SctAsciiStrCat l [chEQ, 0];
             l \<leftarrow> SctAsciiStrCat l (ptrValue it);
             SctAsciiStrCat l [chCR, chLF, 0] }) = Some l' \<and> length l' = 1024 \<and>
        cstr l' = Some (entry_line (view (a, it)))"
  proof (cases "ent_of it = []")
    case True
    have c: "cstr [chLB, 0] = Some [chLB]" "cstr [chRB, chCR, chLF, 0] = Some [chRB, chCR, chLF]"
      by (simp_all add: cstr_Cons)
    obtain l1 where l1: "SctAsciiStrCpy (oLine s) [chLB, 0] = Some l1" "length l1 = 1024" "cstr l1 = Some [chLB]"
      using StrCpy_ok [OF c(1), of "oLine s"] l(1) by auto
    obtain l2 where l2: "SctAsciiStrCat l1 (ptrSection it) = Some l2" "length l2 = 1024"
      "cstr l2 = Some (chLB # sec_of it)" using StrCat_ok [OF l1(3) f(1)] l1(2) le by auto
    obtain l3 where "SctAsciiStrCat l2 [chRB, chCR, chLF, 0] = Some l3" "length l3 = 1024"
      "cstr l3 = Some (chLB # sec_of it @ [chRB, chCR, chLF])"
      using StrCat_ok [OF l2(3) c(2)] l2(2) le by auto
    then show ?thesis using True l1(1) l2(1) by (simp add: entry_line_def view_def)
  next
    case False
    have c: "cstr [chEQ, 0] = Some [chEQ]" by (simp add: cstr_Cons)
    obtain l1 where l1: "SctAsciiStrnCpy (oLine s) (ptrEntry it) MAX_STRING_LEN = Some l1" "length l1 = 1024"
      "cstr l1 = Some (ent_of it)"
      using StrnCpy_ok [OF f(2), of MAX_STRING_LEN "oLine s"] l(1) it(2) by (auto simp: MAX_STRING_LEN_def)
    obtain l2 where l2: "SctAsciiStrCat l1 [chEQ, 0] = Some l2" "length l2 = 1024"
      "cstr l2 = Some (ent_of it @ [chEQ])" using StrCat_ok [OF l1(3) c] l1(2) it(2) by auto
    obtain l3 where l3: "SctAsciiStrCat l2 (ptrValue it) = Some l3" "length l3 = 1024"
      "cstr l3 = Some ((ent_of it @ [chEQ]) @ val_of it)"
      using StrCat_ok [OF l2(3) f(3)] l2(2) it(2) le by auto
    obtain l4 where "SctAsciiStrCat l3 [chCR, chLF, 0] = Some l4" "length l4 = 1024"
      "cstr l4 = Some (((ent_of it @ [chEQ]) @ val_of it) @ CRLF)"
      using StrCat_ok [OF l3(3) cstr_crlf] l3(2) it(2) le by auto
    then show ?thesis using False l1(1) l2(1) l3(1) by (simp add: entry_line_def view_def)
  qed
  then obtain l' where l': "(if ent_of it = [] then do {
             l \<leftarrow> SctAsciiStrCpy (oLine s) [chLB, 0];
             l \<leftarrow> SctAsciiStrCat l (ptrSection it);
             SctAsciiStrCat l [chRB, chCR, chLF, 0] }
           else do {
             l \<leftarrow> SctAsciiStrnCpy (oLine s) (ptrEntry it) MAX_STRING_LEN;
             l \<leftarrow> SctAsciiStrCat l [chEQ, 0];
             l \<leftarrow> SctAsciiStrCat l (ptrValue it);
             SctAsciiStrCat l [chCR, chLF, 0] }) = Some l'" "length l' = 1024"
      "cstr l' = Some (entry_line (view (a, it)))" by blast
  obtain b where b: "SctAsciiStrCat (oBuffer s) l' = Some b" "length b = 5120"
    "cstr b = Some (t @ entry_line (view (a, it)))" using StrCat_ok [OF l(3) l'(3)] len l(2) by auto
  show ?thesis
    using e0 nz l'(1,2) b s
    by (cases "ent_of it = []") (simp_all add: flush_line_def holds_def out_ok_def same_io_def MAX_LINE_LEN_def)
qed

section \<open>A firmware that answers every call with success\<close>

definition all_good :: "'d firmware \<Rightarrow> bool" where
  "all_good fw \<longleftrightarrow> AllocIni fw \<and> volume_status fw = EFI_SUCCESS \<and> FOpen fw 0 = EFI_SUCCESS \<and>
     FOpen fw 1 = EFI_SUCCESS \<and> FDelete fw = EFI_SUCCESS \<and> InfoPool fw \<and> FGetInfo fw = EFI_SUCCESS \<and>
     AllocPages fw = EFI_SUCCESS \<and> (\<forall>k n. FWrite fw k n = (EFI_SUCCESS, n))"

lemma all_goodD:
  assumes "all_good fw"
  shows "volume_status fw = EFI_SUCCESS" "FOpen fw 0 = EFI_SUCCESS" "FOpen fw 1 = EFI_SUCCESS"
    "FDelete fw = EFI_SUCCESS" "FWrite fw k n = (EFI_SUCCESS, n)"
  using assms by (simp_all add: all_good_def)

lemma le16_byte: "le16 (ucast (c :: u8)) = [c, 0]"
proof -
  have "drop_bit 8 (ucast c :: u16) = 0" by (rule bit_word_eqI) (auto simp: bit_simps dest: bit_imp_le_length)
  then show ?thesis by (simp add: le16_def)
qed

lemma le16_widen: "concat (map le16 (widen s @ [0])) = utf16 (s @ [0])"
proof -
  have "concat (map le16 (widen s)) = utf16 s"
    by (induction s) (simp_all add: widen_def utf16_def le16_byte)
  moreover have "le16 0 = [0, 0]" by (simp add: le16_def)
  ultimately show ?thesis by (simp add: utf16_def)
qed

lemma write_buffer_spec:
  assumes fw: "all_good fw" and s: "holds s t"
  shows "\<exists>s'. write_buffer fw True s = Some (EFI_SUCCESS, s') \<and> holds s' t \<and>
    oTrace s' = oTrace s @ [WriteFile (utf16 (t @ [0]))] \<and> oFirst s' = oFirst s \<and> oNo s' = oNo s"
proof -
  have l: "cstr (oBuffer s) = Some t" "length (oUnicode s) = 10240" "length (oBuffer s) = 5120"
    using s by (simp_all add: holds_def out_ok_def MAX_LINE_LEN_def)
  then have t: "length t < length (oUnicode s)" using cstr_length [OF l(1)] by simp
  let ?u = "widen t @ 0 # drop (Suc (length t)) (oUnicode s)"
  have u: "SctAsciiToUnicode (Some (oUnicode s)) (Some (oBuffer s)) (length t + 1) =
      Some (Some ?u, of_nat (length t))"
    using SctAsciiToUnicode_spec [OF l(1), of "length t + 1" "oUnicode s"] t by simp
  have tk: "take (length t + 1) ?u = widen t @ [0]" by simp
  have "length ?u = 10240" using t l(2) by simp
  then show ?thesis
    using u l s all_goodD(5) [OF fw] tk le16_widen [of t]
    by (simp add: write_buffer_def SctAsciiStrLen_cstr write_bytes_def holds_def out_ok_def MAX_LINE_LEN_def)
qed

text \<open>The line lengths of an entry keep it inside the buffers.\<close>

definition fits :: "u8 list list \<Rightarrow> bool" where
  "fits bs \<longleftrightarrow> (\<forall>b\<in>set bs. length b < MAX_LINE_LEN * 10)"

lemma blocks_not_Nil [simp]: "blocks acc xs \<noteq> []"
  by (induction acc xs rule: blocks.induct) auto

lemma fits_acc: "fits (blocks acc xs) \<Longrightarrow> length acc < 5120"
proof (induction xs arbitrary: acc)
  case (Cons x xs)
  show ?case
  proof (cases "fst (snd (snd x)) = []")
    case True
    then show ?thesis using Cons.prems by (simp add: fits_def MAX_LINE_LEN_def)
  next
    case False
    then have "fits (blocks (acc @ item_text x) xs)" using Cons.prems by simp
    from Cons.IH [OF this] show ?thesis by simp
  qed
qed (simp add: fits_def MAX_LINE_LEN_def)

definition printable_item :: "INI \<Rightarrow> bool" where
  "printable_item it \<longleftrightarrow> item_ok it \<and> length (ent_of it) < 100"

text \<open>The comments and the line of a record, behind what the buffer holds.\<close>

lemma flush_item_spec:
  assumes s: "holds s t" and cs: "remarks_ok cs" and it: "printable_item it"
    and len: "length (t @ item_text (remarks_for cs it, view (a, it))) < 5120"
  shows "\<exists>s1 s2. flush_comments it cs s = Some s1 \<and> flush_line it s1 = Some s2 \<and>
    holds s2 (t @ item_text (remarks_for cs it, view (a, it))) \<and> same_io s s2 \<and>
    oNo s2 = (if remarks_for cs it = [] then oNo s else commentNo it)"
proof -
  obtain s1 where s1: "flush_comments it cs s = Some s1" "holds s1 (t @ remark_lines (remarks_for cs it))"
    "same_io s s1" "oNo s1 = (if remarks_for cs it = [] then oNo s else commentNo it)"
    using flush_comments_spec [OF cs s, of it] len by (auto simp: item_text_def)
  obtain s2 where s2: "flush_line it s1 = Some s2"
    "holds s2 ((t @ remark_lines (remarks_for cs it)) @ entry_line (view (a, it)))" "same_io s1 s2" "oNo s2 = oNo s1"
    using flush_line_spec [OF s1(2), of it a] it len by (auto simp: item_text_def printable_item_def)
  show ?thesis using s1 s2 same_io_trans [OF s1(3) s2(3)] by (auto simp: item_text_def)
qed

lemma head_cell:
  assumes "item_ok it"
  shows "\<exists>c. rd (ptrEntry it) 0 = Some c \<and> (c = 0 \<longleftrightarrow> ent_of it = [])"
proof (cases "ent_of it")
  case Nil
  then show ?thesis using cstr_rd [OF item_okD(2) [OF assms], of 0] by simp
next
  case (Cons c e)
  then have "c \<noteq> 0" using cstr_nz [OF item_okD(2) [OF assms]] by auto
  then show ?thesis using cstr_rd [OF item_okD(2) [OF assms], of 0] Cons by simp
qed

definition noted_items :: "COMMENTLINE list \<Rightarrow> item list \<Rightarrow> noted list" where
  "noted_items cs its = map (\<lambda>x. (remarks_for cs (snd x), view x)) its"

lemma last_no_simps [simp]:
  "last_no cs [] n = n"
  "last_no cs (x # its) n =
     last_no cs its (if remarks_for cs (snd x) = [] then n else commentNo (snd x))"
  by (simp_all add: last_no_def)

lemma flush_loop_spec:
  assumes fw: "all_good fw" and cs: "remarks_ok cs"
  shows "holds s t \<Longrightarrow> \<not> oFirst s \<Longrightarrow> \<forall>x\<in>set its. printable_item (snd x) \<Longrightarrow>
    fits (blocks t (noted_items cs its)) \<Longrightarrow>
    \<exists>s'. flush_loop fw True cs its s = Some (EFI_SUCCESS, s') \<and>
      holds s' (last (blocks t (noted_items cs its))) \<and> oNo s' = last_no cs its (oNo s) \<and>
      oTrace s' = oTrace s @ map (\<lambda>b. WriteFile (utf16 (b @ [0]))) (butlast (blocks t (noted_items cs its)))"
proof (induction its arbitrary: s t)
  case (Cons x its)
  obtain a it where x: "x = (a, it)" by (cases x)
  have it: "printable_item it" using Cons.prems(3) x by simp
  let ?x = "(remarks_for cs it, view (a, it))"
  have nx: "noted_items cs (x # its) = ?x # noted_items cs its" by (simp add: noted_items_def x)
  have e: "fst (snd (snd ?x)) = ent_of it" by (simp add: view_def)
  obtain c where c: "rd (ptrEntry it) 0 = Some c" "c = 0 \<longleftrightarrow> ent_of it = []"
    using head_cell [of it] it by (auto simp: printable_item_def)
  show ?case
  proof (cases "ent_of it = []")
    case True
    obtain s1 where s1: "write_buffer fw True s = Some (EFI_SUCCESS, s1)" "holds s1 t"
      "oTrace s1 = oTrace s @ [WriteFile (utf16 (t @ [0]))]" "oFirst s1 = oFirst s" "oNo s1 = oNo s"
      using write_buffer_spec [OF fw Cons.prems(1)] by blast
    obtain b where b: "SctAsciiStrCpy (oBuffer s1) [chCR, chLF, 0] = Some b" "length b = length (oBuffer s1)"
      "cstr b = Some CRLF"
      using StrCpy_ok [OF cstr_crlf, of "oBuffer s1"] s1(2) by (auto simp: holds_def out_ok_def MAX_LINE_LEN_def)
    let ?s = "s1\<lparr>oBuffer := b\<rparr>"
    have h: "holds ?s CRLF" using s1(2) b by (simp add: holds_def out_ok_def)
    have head: "flush_head fw True it s = Some (EFI_SUCCESS, ?s)"
      using c True Cons.prems(2) s1(1) b(1) by (simp add: flush_head_def)
    have bl: "blocks t (noted_items cs (x # its)) = t # blocks (CRLF @ item_text ?x) (noted_items cs its)"
      using nx e True by simp
    then have fit: "fits (blocks (CRLF @ item_text ?x) (noted_items cs its))"
      using Cons.prems(4) by (simp add: fits_def)
    from fits_acc [OF this] obtain s2 s3 where s3: "flush_comments it cs ?s = Some s2" "flush_line it s2 = Some s3"
      "holds s3 (CRLF @ item_text ?x)" "same_io ?s s3"
      "oNo s3 = (if remarks_for cs it = [] then oNo ?s else commentNo it)"
      using flush_item_spec [OF h cs it] by blast
    have f: "\<not> oFirst s3" using s3(4) s1(4) Cons.prems(2) by (simp add: same_io_def)
    show ?thesis
      using Cons.IH [OF s3(3) f _ fit] Cons.prems(3) x head s3 s1(3,5) bl
      by (auto simp: same_io_def)
  next
    case False
    have head: "flush_head fw True it s = Some (EFI_SUCCESS, s)" using c False by (simp add: flush_head_def)
    have bl: "blocks t (noted_items cs (x # its)) = blocks (t @ item_text ?x) (noted_items cs its)"
      using nx e False by simp
    then have fit: "fits (blocks (t @ item_text ?x) (noted_items cs its))" using Cons.prems(4) by simp
    from fits_acc [OF this] obtain s2 s3 where s3: "flush_comments it cs s = Some s2" "flush_line it s2 = Some s3"
      "holds s3 (t @ item_text ?x)" "same_io s s3"
      "oNo s3 = (if remarks_for cs it = [] then oNo s else commentNo it)"
      using flush_item_spec [OF Cons.prems(1) cs it] by blast
    have f: "\<not> oFirst s3" using s3(4) Cons.prems(2) by (simp add: same_io_def)
    show ?thesis
      using Cons.IH [OF s3(3) f _ fit] Cons.prems(3) x head s3 bl by (auto simp: same_io_def)
  qed
qed (simp add: noted_items_def)

section \<open>The whole file\<close>

text \<open>What \<open>EfiIniFlush\<close> needs of the file: a Unicode file that starts with a section head, entry
  names below 100 characters, and every section within the 5120 bytes of its buffer.\<close>

definition flushable :: "'d EFI_INI_FILE \<Rightarrow> bool" where
  "flushable f \<longleftrightarrow> isUnicode f \<and> file_ok f \<and> comments_ok f \<and> Items f \<noteq> [] \<and>
     ent_of (snd (hd (Items f))) = [] \<and> (\<forall>x\<in>set (Items f). length (ent_of (snd x)) < MAX_STRING_LEN) \<and>
     fits (file_blocks f) \<and> length (remark_lines (trailing f)) < MAX_LINE_LEN * 10"

lemma attached_noted: "attached f = noted_items (CommentLines f) (Items f)"
  by (simp add: attached_def noted_items_def)

lemma comments_ok_remarks_ok: "comments_ok f = remarks_ok (CommentLines f)"
  by (simp add: comments_ok_def remarks_ok_def)

lemma flush_bom_spec:
  assumes "all_good fw" "out_ok s"
  shows "\<exists>s'. flush_bom fw True s = Some (EFI_SUCCESS, s') \<and> out_ok s' \<and>
    oTrace s' = oTrace s @ [WriteFile [0xff, 0xfe]] \<and> oFirst s' = oFirst s \<and> oNo s' = oNo s"
proof -
  obtain x y r where b: "oBuffer s = x # y # r"
    using assms(2) by (cases "oBuffer s"; cases "tl (oBuffer s)") (auto simp: out_ok_def MAX_LINE_LEN_def)
  then have "wr (oBuffer s) 0 0xff = Some (0xff # y # r)" "wr (0xff # y # r) 1 0xfe = Some (0xff # 0xfe # r)"
    by (simp_all add: wr_def)
  then show ?thesis
    using assms b all_goodD(5) [OF assms(1)] by (simp add: flush_bom_def write_bytes_def out_ok_def)
qed

lemma flush_first:
  assumes fw: "all_good fw" and cs: "remarks_ok cs" and s: "out_ok s" "oFirst s"
    and its: "\<forall>y\<in>set (x # its). printable_item (snd y)" "ent_of (snd x) = []"
    and fit: "fits (blocks (item_text (remarks_for cs (snd x), view x)) (noted_items cs its))"
  shows "\<exists>s'. flush_loop fw True cs (x # its) s = Some (EFI_SUCCESS, s') \<and>
    holds s' (last (blocks (item_text (remarks_for cs (snd x), view x)) (noted_items cs its))) \<and>
    oNo s' = last_no cs (x # its) (oNo s) \<and>
    oTrace s' = oTrace s @ map (\<lambda>b. WriteFile (utf16 (b @ [0])))
      (butlast (blocks (item_text (remarks_for cs (snd x), view x)) (noted_items cs its)))"
proof -
  obtain a it where x: "x = (a, it)" by (cases x)
  have it: "printable_item it" using its(1) x by simp
  have e: "ent_of it = []" using its(2) x by simp
  obtain c where c: "rd (ptrEntry it) 0 = Some c" "c = 0"
    using head_cell [of it] it e by (auto simp: printable_item_def)
  obtain b0 r where b: "oBuffer s = b0 # r" using s(1) by (cases "oBuffer s") (auto simp: out_ok_def MAX_LINE_LEN_def)
  let ?s = "s\<lparr>oFirst := False, oBuffer := 0 # r\<rparr>"
  have head: "flush_head fw True it s = Some (EFI_SUCCESS, ?s)"
    using c s(2) b by (simp add: flush_head_def wr_def)
  have h: "holds ?s []" using s(1) b by (simp add: holds_def out_ok_def)
  have "length ([] @ item_text (remarks_for cs it, view (a, it))) < 5120"
    using fits_acc [OF fit] x by simp
  from flush_item_spec [OF h cs it this] obtain s2 s3 where
    s3: "flush_comments it cs ?s = Some s2" "flush_line it s2 = Some s3"
      "holds s3 (item_text (remarks_for cs it, view (a, it)))" "same_io ?s s3"
      "oNo s3 = (if remarks_for cs it = [] then oNo ?s else commentNo it)" by auto
  have f: "\<not> oFirst s3" using s3(4) by (simp add: same_io_def)
  show ?thesis
    using flush_loop_spec [OF fw cs s3(3) f, of its] its(1) fit x head s3 by (auto simp: same_io_def)
qed

lemma map_butlast_last: "xs \<noteq> [] \<Longrightarrow> map g xs = map g (butlast xs) @ [g (last xs)]"
  by (induction xs) auto

lemma flush_text_spec:
  assumes fw: "all_good fw" and f: "flushable f" and s: "out_ok s" "oFirst s" "oNo s = 0"
  shows "\<exists>s'. flush_text fw True (Items f) (CommentLines f) s = Some (EFI_SUCCESS, s') \<and>
    oTrace s' = oTrace s @ map WriteFile (flush_data f)"
proof -
  let ?cs = "CommentLines f" and ?bs = "file_blocks f"
  have cs: "remarks_ok ?cs" using f by (simp add: flushable_def comments_ok_remarks_ok)
  obtain x its where its: "Items f = x # its" using f by (cases "Items f") (auto simp: flushable_def)
  have pr: "\<forall>y\<in>set (x # its). printable_item (snd y)" "ent_of (snd x) = []"
    using f its by (auto simp: flushable_def file_ok_def chain_ok_def printable_item_def MAX_STRING_LEN_def)
  have bs: "?bs = blocks (item_text (remarks_for ?cs (snd x), view x)) (noted_items ?cs its)"
    by (simp add: file_blocks_def attached_noted its noted_items_def)
  have fit: "fits (blocks (item_text (remarks_for ?cs (snd x), view x)) (noted_items ?cs its))"
    using f by (simp add: flushable_def bs)
  obtain s1 where s1: "flush_bom fw True s = Some (EFI_SUCCESS, s1)" "out_ok s1"
    "oTrace s1 = oTrace s @ [WriteFile [0xff, 0xfe]]" "oFirst s1" "oNo s1 = 0"
    using flush_bom_spec [OF fw s(1)] s(2,3) by auto
  obtain s2 where s2: "flush_loop fw True ?cs (Items f) s1 = Some (EFI_SUCCESS, s2)" "holds s2 (last ?bs)"
    "oNo s2 = last_no ?cs (Items f) 0"
    "oTrace s2 = oTrace s1 @ map (\<lambda>b. WriteFile (utf16 (b @ [0]))) (butlast ?bs)"
    using flush_first [OF fw cs s1(2,4) pr fit] s1(5) unfolding bs its by auto
  obtain s3 where s3: "write_buffer fw True s2 = Some (EFI_SUCCESS, s3)" "holds s3 (last ?bs)"
    "oTrace s3 = oTrace s2 @ [WriteFile (utf16 (last ?bs @ [0]))]" "oNo s3 = oNo s2"
    using write_buffer_spec [OF fw s2(2)] by auto
  obtain b0 r where b: "oBuffer s3 = b0 # r" using s3(2) by (cases "oBuffer s3") (auto simp: holds_def out_ok_def MAX_LINE_LEN_def)
  let ?s = "s3\<lparr>oNo := oNo s3 + 1, oBuffer := 0 # r\<rparr>"
  have h: "holds ?s []" using s3(2) b by (simp add: holds_def out_ok_def)
  have tr: "trailing f = map (\<lambda>c. text_of (ptrComment c)) (filter (\<lambda>c. cmtNo c \<ge> oNo ?s) ?cs)"
    using s3(4) s2(3) by (simp add: trailing_def)
  obtain s4 where s4: "last_comments ?cs ?s = Some s4" "holds s4 (remark_lines (trailing f))" "same_io ?s s4"
    using last_comments_spec [OF cs h] f unfolding tr [symmetric] by (auto simp: flushable_def MAX_LINE_LEN_def)
  have tr4: "oTrace s4 = oTrace s @ [WriteFile [0xff, 0xfe]] @ map (\<lambda>b. WriteFile (utf16 (b @ [0]))) ?bs"
  proof -
    have "?bs \<noteq> []" by (simp add: bs)
    from map_butlast_last [OF this, of "\<lambda>b. WriteFile (utf16 (b @ [0]))"]
    show ?thesis using s4(3) s3(3) s2(4) s1(3) by (simp add: same_io_def)
  qed
  have w: "wr (oBuffer s3) 0 0 = Some (0 # r)" by (simp add: wr_def b)
  have c4: "cstr (oBuffer s4) = Some (remark_lines (trailing f))" using s4(2) by (simp add: holds_def)
  show ?thesis
  proof (cases "trailing f")
    case Nil
    then have "rd (oBuffer s4) 0 = Some 0" using cstr_rd [OF c4, of 0] by simp
    then show ?thesis using s1(1) s2(1) s3(1) s4(1) w tr4 Nil
      by (simp add: flush_text_def flush_data_def comp_def)
  next
    case (Cons u us)
    then have ne: "remark_lines (trailing f) \<noteq> []" by simp
    then obtain c where c: "rd (oBuffer s4) 0 = Some c" "c \<noteq> 0"
      using cstr_rd [OF c4, of 0] cstr_nz [OF c4] by (cases "remark_lines (trailing f)") auto
    obtain s5 where s5: "write_buffer fw True s4 = Some (EFI_SUCCESS, s5)"
      "oTrace s5 = oTrace s4 @ [WriteFile (utf16 (remark_lines (trailing f) @ [0]))]"
      using write_buffer_spec [OF fw s4(2)] by auto
    show ?thesis using s1(1) s2(1) s3(1) s4(1) s5 w tr4 c Cons
      by (simp add: flush_text_def flush_data_def comp_def)
  qed
qed

lemma EfiIniFlush_data:
  assumes fw: "all_good fw" and f: "flushable f" "Modified f" and s: "out_ok Stk"
  shows "EfiIniFlush fw Stk f = Some (EFI_SUCCESS, f\<lparr>Modified := False\<rparr>,
    [Acquire RootDir, Acquire File, DeleteFile, Acquire File] @ map WriteFile (flush_data f) @
    [FlushFile, Release File, Release RootDir])"
proof -
  let ?s = "Stk\<lparr>oNo := 0, oFirst := True, oWrites := 0,
    oTrace := [Acquire RootDir, Acquire File, DeleteFile, Acquire File]\<rparr>"
  obtain s' where "flush_text fw True (Items f) (CommentLines f) ?s = Some (EFI_SUCCESS, s')"
    "oTrace s' = oTrace ?s @ map WriteFile (flush_data f)"
    using flush_text_spec [OF fw f(1), of ?s] s by (auto simp: out_ok_def)
  then show ?thesis
    using f all_goodD [OF fw] by (simp add: EfiIniFlush_def flushable_def)
qed

text \<open>The bytes of the file after a trace.\<close>

fun contents :: "u8 list \<Rightarrow> io list \<Rightarrow> u8 list" where
  "contents c [] = c"
| "contents c (WriteFile d # t) = contents (c @ d) t"
| "contents c (DeleteFile # t) = contents [] t"
| "contents c (x # t) = contents c t"

lemma contents_append [simp]: "contents c (s @ t) = contents (contents c s) t"
  by (induction c s rule: contents.induct) auto

lemma contents_writes [simp]: "contents c (map WriteFile ds) = c @ concat ds"
  by (induction ds arbitrary: c) auto

end
