(* ===== verification/Ini_Handles.thy ===== *)
theory Ini_Handles
  imports Ini_Io
begin

text \<open>
  The resources of the file operations: an automaton that runs over the trace of a call and
  counts what is held, and for every operation what is held when it returns, whatever the
  firmware answers.
\<close>

section \<open>The automaton\<close>

type_synonym held = "res \<Rightarrow> nat"

fun run :: "held \<Rightarrow> io list \<Rightarrow> held option" where
  "run h [] = Some h"
| "run h (Acquire r # t) = run (h(r := Suc (h r))) t"
| "run h (Release r # t) = (if h r = 0 then None else run (h(r := h r - 1)) t)"
| "run h (DeleteFile # t) = (if h File = 0 then None else run (h(File := h File - 1)) t)"
| "run h (ReadFile # t) = (if h File = 0 then None else run h t)"
| "run h (WriteFile d # t) = (if h File = 0 then None else run h t)"
| "run h (FlushFile # t) = (if h File = 0 then None else run h t)"

definition nothing :: held where "nothing = (\<lambda>r. 0)"

text \<open>What an open file owns.\<close>

definition owned :: "'d EFI_INI_FILE \<Rightarrow> held" where
  "owned f r = (case r of
     IniFile \<Rightarrow> 1
   | NameCopy \<Rightarrow> if FileName f = None then 0 else 1
   | PathCopy \<Rightarrow> if DevPath f = None then 0 else 1
   | Record a \<Rightarrow> count_list (map fst (Items f)) a
   | Remark c \<Rightarrow> count_list (CommentLines f) c
   | _ \<Rightarrow> 0)"

lemma run_append [simp]: "run h (s @ t) = Option.bind (run h s) (\<lambda>h. run h t)"
proof (induction s arbitrary: h)
  case (Cons x s)
  then show ?case by (cases x) (simp_all del: fun_upd_apply)
qed simp

lemma run_releases:
  "(\<And>r. count_list rs r \<le> h r) \<Longrightarrow> run h (map Release rs) = Some (\<lambda>r. h r - count_list rs r)"
proof (induction rs arbitrary: h)
  case (Cons x rs)
  have x: "0 < h x" using Cons.prems [of x] by simp
  have "count_list rs r \<le> (h(x := h x - 1)) r" for r using Cons.prems [of r] by (auto split: if_splits)
  from Cons.IH [OF this] have "run h (map Release (x # rs)) = Some (\<lambda>r. (h(x := h x - 1)) r - count_list rs r)"
    using x by (simp del: fun_upd_apply)
  also have "(\<lambda>r. (h(x := h x - 1)) r - count_list rs r) = (\<lambda>r. h r - count_list (x # rs) r)"
    by (rule ext) simp
  finally show ?case .
qed simp

lemma count_list_map_inj: "inj f \<Longrightarrow> count_list (map f xs) (f x) = count_list xs x"
  by (induction xs) (auto dest: injD)

lemma count_list_map_other: "(\<And>x. f x \<noteq> y) \<Longrightarrow> count_list (map f xs) y = 0"
  by (induction xs) auto

lemma freeItems_map: "freeItems its = map fst its"
  by (induction its rule: freeItems.induct) auto

lemma freeComments_id: "freeComments cs = cs"
  by (induction cs) auto

lemma freeIniFile_list:
  "freeIniFile f = map Release ((if FileName f \<noteq> None then [NameCopy] else []) @
     (if DevPath f \<noteq> None then [PathCopy] else []) @ map Record (map fst (Items f)) @
     map Remark (CommentLines f) @ [IniFile])"
  by (simp add: freeIniFile_def freePointer_def freeItems_map freeComments_id comp_def)

lemma owned_count:
  "count_list ((if FileName f \<noteq> None then [NameCopy] else []) @
     (if DevPath f \<noteq> None then [PathCopy] else []) @ map Record (map fst (Items f)) @
     map Remark (CommentLines f) @ [IniFile]) r = owned f r"
proof -
  have "inj Record" "inj Remark" by (auto intro: injI)
  then have "count_list (map Record xs) (Record a) = count_list xs a"
    "count_list (map Remark ys) (Remark c) = count_list ys c" for xs a ys c
    by (simp_all only: count_list_map_inj)
  moreover have "count_list (map Record xs) r = 0" if "\<And>a. r \<noteq> Record a" for xs
    using that by (intro count_list_map_other) auto
  moreover have "count_list (map Remark ys) r = 0" if "\<And>a. r \<noteq> Remark a" for ys
    using that by (intro count_list_map_other) auto
  ultimately show ?thesis by (cases r) (simp_all add: owned_def del: map_map)
qed

lemma owned_update [simp]:
  "owned (f\<lparr>isUnicode := u\<rparr>) = owned f"  "owned (f\<lparr>Modified := m\<rparr>) = owned f"
  by (auto simp: owned_def fun_eq_iff split: res.split)

text \<open>\<open>_freeIniFile\<close> releases exactly what the file owns.\<close>

lemma run_freeIniFile:
  assumes "\<And>r. owned f r \<le> h r"
  shows "run h (freeIniFile f) = Some (\<lambda>r. h r - owned f r)"
  unfolding freeIniFile_list using run_releases [of _ h] assms owned_count [of f] by presburger

section \<open>What parsing allocates\<close>

text \<open>\<open>h\<close> together with what a file owns; and the chain of records while a file is read, in which the
  next block has a new address.\<close>

definition with_owned :: "held \<Rightarrow> 'd EFI_INI_FILE \<Rightarrow> held" where
  "with_owned h f = (\<lambda>r. h r + owned f r)"

definition chained :: "nat \<Rightarrow> 'd EFI_INI_FILE \<Rightarrow> bool" where
  "chained n f \<longleftrightarrow> distinct (map fst (Items f)) \<and> fresh n f \<and>
     Tail f = (if Items f = [] then None else Some (fst (last (Items f))))"

definition grows :: "'d reader \<Rightarrow> 'd reader \<Rightarrow> bool" where
  "grows r r' \<longleftrightarrow> (chained (rPool r) (rFile r) \<longrightarrow> chained (rPool r') (rFile r') \<and>
     DevPath (rFile r') = DevPath (rFile r) \<and> FileName (rFile r') = FileName (rFile r) \<and>
     (\<exists>t. rTrace r' = rTrace r @ t \<and> Acquire FileInfo \<notin> set t \<and>
       (\<forall>h. run (with_owned h (rFile r)) t = Some (with_owned h (rFile r')))))"

lemma grows_refl [intro]: "rFile r' = rFile r \<Longrightarrow> rPool r \<le> rPool r' \<Longrightarrow> rTrace r' = rTrace r \<Longrightarrow> grows r r'"
  by (auto simp: grows_def chained_def fresh_def)

lemma grows_trans [trans]: "grows r s \<Longrightarrow> grows s t \<Longrightarrow> grows r t"
  by (auto simp: grows_def)

lemma run_acquire: "run h [Acquire x] = Some (h(x := Suc (h x)))"
  by simp

text \<open>A record that is chained is the one that was acquired; and so is a comment.\<close>

lemma additem_owned:
  assumes "chained n f" and "additem f (n, it) = Some f'"
  shows "chained (Suc n) f'" and "DevPath f' = DevPath f" and "FileName f' = FileName f"
    and "run (with_owned h f) [Acquire (Record n)] = Some (with_owned h f')"
proof -
  have f': "f' = f\<lparr>Items := Items f @ [(n, it)], Tail := Some n\<rparr>"
    using assms link_next_last [of "Items f" "[(n, it)]"]
    by (cases "Items f = []") (auto simp: additem_def chained_def)
  have "n \<notin> fst ` set (Items f)" using assms(1) by (auto simp: chained_def fresh_def)
  then show "chained (Suc n) f'" using assms(1) by (auto simp: f' chained_def fresh_def)
  show "DevPath f' = DevPath f" "FileName f' = FileName f" by (simp_all add: f')
  show "run (with_owned h f) [Acquire (Record n)] = Some (with_owned h f')"
    unfolding run_acquire by (auto simp: with_owned_def f' owned_def fun_eq_iff split: res.split)
qed

lemma grows_record:
  assumes "additem (rFile r) (rPool r, it) = Some f" and "rFile r' = f" and "rPool r' = Suc (rPool r)"
    and "rTrace r' = rTrace r @ [Acquire (Record (rPool r))]"
  shows "grows r r'"
  using additem_owned [OF _ assms(1)] by (auto simp: grows_def assms(2-4) simp del: run.simps)

lemma grows_remark:
  assumes "getcomment CPool n (rFile r) b no = Some (b', new, f)" and "rFile r' = f"
    and "rPool r \<le> rPool r'" and "rTrace r' = rTrace r @ [Acquire (Remark new)]"
  shows "grows r r'"
proof -
  have f: "f = (rFile r)\<lparr>CommentLines := CommentLines (rFile r) @ [new]\<rparr>"
    using assms(1) by (auto simp: getcomment_def bind_eq_Some_conv Let_def)
  have "run (with_owned h (rFile r)) [Acquire (Remark new)] = Some (with_owned h f)" for h
    unfolding run_acquire by (auto simp: with_owned_def f owned_def fun_eq_iff split: res.split)
  moreover have "chained (rPool r) (rFile r) \<Longrightarrow> chained (rPool r') f"
    using assms(3) by (auto simp: chained_def fresh_def f)
  ultimately show ?thesis by (simp add: grows_def assms(2,4) f del: run.simps)
qed

lemma getsection_grows: "getsection Pool b r = Some (b', r') \<Longrightarrow> grows r r'"
  by (auto simp: getsection_def bind_eq_Some_conv split: option.splits elim!: grows_record)

lemma store_entry_grows: "store_entry Pool e v r = Some r' \<Longrightarrow> grows r r'"
  by (auto simp: store_entry_def bind_eq_Some_conv split: option.splits if_splits elim!: grows_record)

lemma prosessLine_grows:
  assumes "prosessLine Stk Pool CPool b r = Some (b', r')"
  shows "grows r r'"
proof -
  obtain b1 c where b1: "alltrim b = Some b1" "rd b1 0 = Some c"
    using assms by (auto simp: prosessLine_def bind_eq_Some_conv)
  show ?thesis
  proof (cases "c = chHASH")
    case True
    then show ?thesis
      using assms b1 by (auto simp: prosessLine_def bind_eq_Some_conv elim!: grows_remark)
  next
    case False
    then obtain q where q: "(if c = chLB then SctAsciiStrChr b1 chRB else Some None) = Some q"
      using assms b1 by (auto simp: prosessLine_def bind_eq_Some_conv)
    show ?thesis
    proof (cases "q = None")
      case True
      then show ?thesis
        using assms b1 q False by (auto simp: prosessLine_def bind_eq_Some_conv dest: store_entry_grows split: if_splits)
    next
      case sect: False
      then obtain r1 where r1: "getsection Pool b1 r = Some (b', r1)" "r' = r1\<lparr>rGot := True\<rparr>"
        using assms b1 q False by (auto simp: prosessLine_def bind_eq_Some_conv)
      from getsection_grows [OF r1(1)] have "grows r r1" .
      also have "grows r1 r'" using r1(2) by auto
      finally show ?thesis .
    qed
  qed
qed

lemma read_loop_grows:
  "read_loop Stk Pool CPool B n k i b r = Some (i', b', r') \<Longrightarrow> grows r r'"
proof (induction Stk Pool CPool B n k i b r rule: read_loop.induct)
  case (1 Stk Pool CPool B n k i b r)
  show ?case
  proof (cases "k < n")
    case False
    then show ?thesis using "1.prems" by (subst (asm) read_loop.simps) auto
  next
    case True
    then obtain c b1 i2 b2 r2 where s: "rd B k = Some c" "wr b i c = Some b1"
      "(if c = chLF then do {
             b1 \<leftarrow> wr b1 (Suc i) 0;
             (b1, r) \<leftarrow> prosessLine (Stk k) Pool CPool b1 r;
             Some (0, b1, r) }
           else Some (Suc i, b1, r)) = Some (i2, b2, r2)"
      "read_loop Stk Pool CPool B n (if isUnicode (rFile r2) then k + 2 else Suc k) i2 b2 r2 = Some (i', b', r')"
      using "1.prems" by (subst (asm) read_loop.simps) (auto simp: bind_eq_Some_conv)
    have "grows r r2" using s(3) prosessLine_grows by (fastforce simp: bind_eq_Some_conv split: if_splits)
    also have "grows r2 r'" by (rule "1.IH" [OF True s(1,2,3) refl refl s(4)])
    finally show ?thesis .
  qed
qed

lemma read_profile_grows:
  assumes "read_profile Stk Pool CPool line B n r = Some r'"
  shows "grows r r'"
proof -
  obtain sec i b r1 b1 b2 where s: "read_loop Stk Pool CPool B n (if is_bom B n then 2 else 0) 0 line
      (r\<lparr>rFile := (rFile r)\<lparr>isUnicode := is_bom B n \<or> isUnicode (rFile r)\<rparr>,
         rSection := sec, rGot := False, rNo := 1\<rparr>) = Some (i, b, r1)"
    "prosessLine (Stk n) Pool CPool b1 r1 = Some (b2, r')"
    using assms by (auto simp: read_profile_def bind_eq_Some_conv)
  have "grows r (r\<lparr>rFile := (rFile r)\<lparr>isUnicode := is_bom B n \<or> isUnicode (rFile r)\<rparr>,
      rSection := sec, rGot := False, rNo := 1\<rparr>)"
    by (auto simp: grows_def chained_def fresh_def with_owned_def)
  also note read_loop_grows [OF s(1)]
  also note prosessLine_grows [OF s(2)]
  finally show ?thesis .
qed

section \<open>Opening and creating\<close>

lemma owned_initFile: "owned initFile = nothing(IniFile := 1)"
  by (rule ext) (simp add: owned_def initFile_def nothing_def split: res.splits)

definition opened :: held where
  "opened = nothing(IniFile := 1, NameCopy := 1, PathCopy := 1)"

lemma opened_names:
  assumes "owned f = opened"
  shows "FileName f \<noteq> None \<and> DevPath f \<noteq> None"
proof -
  have "owned f NameCopy = 1" "owned f PathCopy = 1" unfolding assms by (simp_all add: opened_def)
  then show ?thesis by (cases "FileName f"; cases "DevPath f"; simp add: owned_def)
qed

lemma new_ini_spec:
  fixes fw :: "'d firmware"
  assumes "new_ini fw p name = Some x"
  shows "case x of
      Inl (st, tr) \<Rightarrow> run nothing tr = Some nothing \<and> EFI_ERROR st \<and>
        Acquire File \<notin> set tr \<and> Acquire FileInfo \<notin> set tr
    | Inr (f, tr) \<Rightarrow> run nothing tr = Some opened \<and> owned f = opened \<and>
        Acquire File \<notin> set tr \<and> Acquire FileInfo \<notin> set tr \<and>
        Items f = [] \<and> Tail f = None \<and> CommentLines f = [] \<and> \<not> isUnicode f \<and> \<not> Modified f"
proof -
  have o1: "owned (initFile :: 'd EFI_INI_FILE) = nothing(IniFile := 1)" by (rule owned_initFile)
  have o2: "owned ((initFile :: 'd EFI_INI_FILE)\<lparr>FileName := Some n\<rparr>) = nothing(IniFile := 1, NameCopy := 1)" for n
    by (rule ext) (simp add: owned_def initFile_def nothing_def split: res.splits)
  have o3: "owned ((initFile :: 'd EFI_INI_FILE)\<lparr>FileName := Some n, DevPath := Some q\<rparr>) = opened" for n q
    by (rule ext) (simp add: owned_def initFile_def nothing_def opened_def split: res.splits)
  have f1: "run (nothing(IniFile := Suc 0)) (freeIniFile (initFile :: 'd EFI_INI_FILE)) = Some nothing"
    by (subst run_freeIniFile) (auto simp: o1 nothing_def)
  have f2: "run (nothing(IniFile := Suc 0, NameCopy := Suc 0))
      (freeIniFile ((initFile :: 'd EFI_INI_FILE)\<lparr>FileName := Some n\<rparr>)) = Some nothing" for n
    by (subst run_freeIniFile) (auto simp: o2 nothing_def)
  have n0: "nothing r = 0" for r by (simp add: nothing_def)
  have r3: "run nothing [Acquire IniFile, Acquire NameCopy, Acquire PathCopy] = Some opened"
    by (simp add: n0 opened_def)
  show ?thesis
  proof (cases "AllocIni fw")
    case False
    then have "x = Inl (EFI_OUT_OF_RESOURCES, [])" using assms by (simp add: new_ini_def)
    then show ?thesis by simp
  next
    case True
    then obtain d where d: "SctStrDuplicate (NamePool fw) name = Some d"
      using assms by (cases "SctStrDuplicate (NamePool fw) name") (auto simp: new_ini_def)
    consider "d = None" | n where "d = Some n" "DupPath fw p = None"
      | n q where "d = Some n" "DupPath fw p = Some q" by (cases d; cases "DupPath fw p") auto
    then show ?thesis
    proof cases
      case 1
      then have "x = Inl (EFI_OUT_OF_RESOURCES, Acquire IniFile # freeIniFile (initFile :: 'd EFI_INI_FILE))"
        using assms True d by (simp add: new_ini_def)
      then show ?thesis using f1 by (auto simp: n0 freeIniFile_list simp del: fun_upd_apply)
    next
      case 2
      then have "x = Inl (EFI_OUT_OF_RESOURCES, [Acquire IniFile, Acquire NameCopy] @
          freeIniFile ((initFile :: 'd EFI_INI_FILE)\<lparr>FileName := Some n\<rparr>))"
        using assms True d by (simp add: new_ini_def)
      then show ?thesis using f2 [of n] by (auto simp: n0 freeIniFile_list)
    next
      case 3
      then have "x = Inr ((initFile :: 'd EFI_INI_FILE)\<lparr>FileName := Some n, DevPath := Some q\<rparr>,
          [Acquire IniFile, Acquire NameCopy, Acquire PathCopy])"
        using assms True d by (simp add: new_ini_def)
      then show ?thesis using r3 o3 by (simp add: initFile_def)
    qed
  qed
qed

text \<open>What is held when \<open>AtslEfiIniOpen\<close> has returned: nothing on failure, except the file
  information that a failing \<open>GetInfo\<close> leaves behind; what the file owns on success.\<close>

definition info_leak :: "'d firmware \<Rightarrow> bool" where
  "info_leak fw \<longleftrightarrow> \<not> EFI_ERROR (volume_status fw) \<and> \<not> EFI_ERROR (FOpen fw 0) \<and> InfoPool fw \<and>
     EFI_ERROR (FGetInfo fw)"

lemma read_file_error:
  "read_file fw Stk Pool CPool line r = Some (st, f, tr) \<Longrightarrow> EFI_ERROR st \<Longrightarrow> f = rFile r"
  by (auto simp: read_file_def bind_eq_Some_conv split: if_splits)

text \<open>A resource that is held while a part of the trace runs.\<close>

lemma run_nested:
  assumes "run (with_owned (h(x := Suc (h x))) f) t = Some (with_owned k g)" and "k x = Suc (h x)"
    and "owned f x = 0" and "owned g x = 0"
  shows "run (with_owned h f) (Acquire x # t @ [Release x]) = Some (with_owned (k(x := h x)) g)"
proof -
  have "(with_owned h f)(x := Suc (with_owned h f x)) = with_owned (h(x := Suc (h x))) f"
    and "(with_owned k g)(x := with_owned k g x - 1) = with_owned (k(x := h x)) g"
    and "with_owned k g x \<noteq> 0"
    using assms(2-4) by (auto simp: with_owned_def fun_eq_iff)
  then show ?thesis using assms(1) by (simp del: fun_upd_apply)
qed

lemma run_inside:
  assumes "run (with_owned (h(x := Suc (h x))) f) t = Some (with_owned (h(x := Suc (h x))) g)"
    and "owned f x = 0" and "owned g x = 0"
  shows "run (with_owned h f) (Acquire x # t @ [Release x]) = Some (with_owned h g)"
  using run_nested [OF assms(1) _ assms(2,3)] by simp

lemma owned_handles [simp]:
  "owned f RootDir = 0" "owned f File = 0" "owned f FileInfo = 0" "owned f Pages = 0"
  by (simp_all add: owned_def)

lemma read_file_grows:
  assumes r: "read_file fw Stk Pool CPool line r = Some (st, f, tr)"
    and l: "chained (rPool r) (rFile r)" "rTrace r = []"
    and h: "h File = 0" "h FileInfo = 0" "h Pages = 0"
  shows "run (with_owned h (rFile r)) tr = Some (with_owned
      (if \<not> EFI_ERROR (FOpen fw 0) \<and> InfoPool fw \<and> EFI_ERROR (FGetInfo fw) then h(FileInfo := 1) else h) f) \<and>
    DevPath f = DevPath (rFile r) \<and> FileName f = FileName (rFile r) \<and>
    (Acquire FileInfo \<in> set tr \<longleftrightarrow> \<not> EFI_ERROR (FOpen fw 0) \<and> InfoPool fw)"
proof (cases "EFI_ERROR (FOpen fw 0)")
  case True
  then show ?thesis using r by (simp add: read_file_def)
next
  case op: False
  have h_file: "run (with_owned h (rFile r)) (Acquire File # t @ [Release File]) = Some (with_owned h g)"
    if "run (with_owned (h(File := 1)) (rFile r)) t = Some (with_owned (h(File := 1)) g)" for t g
    using run_inside [of h File "rFile r" t g] that h by simp
  have h_info: "run (with_owned (h(File := 1)) (rFile r)) (Acquire FileInfo # t @ [Release FileInfo]) =
      Some (with_owned (h(File := 1)) g)"
    if "run (with_owned (h(File := 1, FileInfo := 1)) (rFile r)) t = Some (with_owned (h(File := 1, FileInfo := 1)) g)" for t g
    using run_inside [of "h(File := 1)" FileInfo "rFile r" t g] that h by simp
  have h_pages: "run (with_owned (h(File := 1, FileInfo := 1)) (rFile r)) (Acquire Pages # t @ [Release Pages]) =
      Some (with_owned (h(File := 1, FileInfo := 1)) g)"
    if "run (with_owned (h(File := 1, FileInfo := 1, Pages := 1)) (rFile r)) t =
      Some (with_owned (h(File := 1, FileInfo := 1, Pages := 1)) g)" for t g
    using run_inside [of "h(File := 1, FileInfo := 1)" Pages "rFile r" t g] that h by simp
  have h_read: "run (with_owned (h(File := 1, FileInfo := 1, Pages := 1)) (rFile r)) (ReadFile # t) =
      run (with_owned (h(File := 1, FileInfo := 1, Pages := 1)) (rFile r)) t" for t
    by (simp add: with_owned_def)
  note nest = h_file [OF h_info [OF h_pages [OF trans [OF h_read]]]]
  have leak: "run (with_owned h (rFile r)) [Acquire File, Acquire FileInfo, Release File] =
      Some (with_owned (h(FileInfo := 1)) (rFile r))"
    using h by (auto simp: with_owned_def fun_eq_iff)
  show ?thesis
  proof (cases "EFI_ERROR st")
    case True
    have "run (with_owned h (rFile r)) [Acquire File, Release File] = Some (with_owned h (rFile r))"
      "run (with_owned h (rFile r)) [Acquire File, Acquire FileInfo, Release FileInfo, Release File] =
        Some (with_owned h (rFile r))"
      "run (with_owned h (rFile r)) [Acquire File, Acquire FileInfo, Acquire Pages, ReadFile, Release Pages,
         Release FileInfo, Release File] = Some (with_owned h (rFile r))"
      using h_file [of "[]" "rFile r"] h_file [OF h_info, of "[]" "rFile r"] nest [of "[]" "rFile r"] by simp_all
    then show ?thesis
      using r op True leak by (auto simp: read_file_def bind_eq_Some_conv simp del: run.simps split: if_splits)
  next
    case False
    then have e: "InfoPool fw" "\<not> EFI_ERROR (FGetInfo fw)"
      using r op by (auto simp: read_file_def bind_eq_Some_conv split: if_splits)
    obtain r' where r': "read_profile Stk Pool CPool line (PageData fw) (snd (FRead fw)) r = Some r'"
      "f = rFile r'" "tr = [Acquire File, Acquire FileInfo, Acquire Pages, ReadFile] @ rTrace r' @
        [Release Pages, Release FileInfo, Release File]"
      using r op False by (auto simp: read_file_def bind_eq_Some_conv split: if_splits)
    then have g: "DevPath f = DevPath (rFile r)" "FileName f = FileName (rFile r)"
      "Acquire FileInfo \<notin> set (rTrace r')" "run (with_owned k (rFile r)) (rTrace r') = Some (with_owned k f)" for k
      using read_profile_grows [OF r'(1)] l by (auto simp: grows_def)
    show ?thesis using nest [OF g(4)] g(1,2) e op r'(3) by simp
  qed
qed

lemma open_resources:
  assumes "AtslEfiIniOpen fw Stk Pool CPool n line sect p name hh = Some (st, fo, tr)"
  shows "run nothing tr = Some (case fo of
      None \<Rightarrow> if Acquire FileInfo \<in> set tr \<and> EFI_ERROR (FGetInfo fw) then nothing(FileInfo := 1) else nothing
    | Some f \<Rightarrow> owned f) \<and> (fo = None \<longleftrightarrow> EFI_ERROR st) \<and>
    (\<forall>f. fo = Some f \<longrightarrow> FileName f \<noteq> None \<and> DevPath f \<noteq> None)"
proof (cases "\<exists>q m. p = Some q \<and> name = Some m \<and> hh")
  case False
  then have "st = EFI_INVALID_PARAMETER" "fo = None" "tr = []"
    using assms by (auto simp: AtslEfiIniOpen_def split: option.splits bool.splits)
  then show ?thesis by simp
next
  case True
  then obtain q m where p: "p = Some q" "name = Some m" "hh" by blast
  then obtain len where len: "SctStrLen m = Some len" using assms by (auto simp: AtslEfiIniOpen_def bind_eq_Some_conv)
  show ?thesis
  proof (cases "len > MAX_STRING_LEN")
    case True
    then show ?thesis using assms p len by (auto simp: AtslEfiIniOpen_def)
  next
    case ok: False
    obtain x where x: "new_ini fw q m = Some x"
      using assms p len ok by (auto simp: AtslEfiIniOpen_def bind_eq_Some_conv)
    note sp = new_ini_spec [OF x]
    have n0: "nothing r = 0" for r by (simp add: nothing_def)
    show ?thesis
    proof (cases x)
      case (Inl y)
      then have y: "y = (st, tr)" "fo = None"
        using assms p len ok x by (auto simp: AtslEfiIniOpen_def split: prod.splits)
      have "Acquire FileInfo \<notin> set tr" using sp Inl y by simp
      then show ?thesis using sp Inl y by simp
    next
      case (Inr y)
      then obtain f tr0 where y: "y = (f, tr0)" by (cases y)
      have f: "run nothing tr0 = Some opened" "owned f = opened" using sp Inr y by simp_all
      have tr0: "Acquire FileInfo \<notin> set tr0" using sp Inr y by simp
      have free: "run opened (freeIniFile f) = Some nothing"
        using run_freeIniFile [of f opened] f(2) by (simp add: nothing_def)
      have free': "run (opened(FileInfo := Suc 0)) (freeIniFile f) = Some (nothing(FileInfo := 1))"
        using run_freeIniFile [of f "opened(FileInfo := Suc 0)"] f(2)
        by (auto simp: nothing_def opened_def)
      have no_info: "Acquire FileInfo \<notin> set (freeIniFile f)" by (auto simp: freeIniFile_list)
      show ?thesis
      proof (cases "EFI_ERROR (volume_status fw)")
        case True
        then show ?thesis using assms p len ok x Inr y f free tr0 no_info by (auto simp: AtslEfiIniOpen_def)
      next
        case vol: False
        let ?r = "\<lparr>rFile = f, rSection = sect, rGot = False, rNo = 1, rPool = n, rTrace = []\<rparr>"
        obtain st1 f1 tr1 where rf: "read_file fw Stk Pool CPool line ?r = Some (st1, f1, tr1)"
          using assms p len ok x Inr y vol
          by (cases "read_file fw Stk Pool CPool line ?r") (auto simp: AtslEfiIniOpen_def)
        let ?h = "nothing(RootDir := 1)"
        let ?leak = "\<not> EFI_ERROR (FOpen fw 0) \<and> InfoPool fw \<and> EFI_ERROR (FGetInfo fw)"
        have "chained n f" using sp Inr y by (simp add: chained_def fresh_def)
        then have g: "run (with_owned ?h f) tr1 = Some (with_owned (if ?leak then ?h(FileInfo := 1) else ?h) f1)"
          "DevPath f1 = DevPath f" "FileName f1 = FileName f"
          "Acquire FileInfo \<in> set tr1 \<longleftrightarrow> \<not> EFI_ERROR (FOpen fw 0) \<and> InfoPool fw"
          using read_file_grows [OF rf, of ?h] by (simp_all add: n0)
        have f_nothing: "with_owned nothing g = owned g" for g :: "'a EFI_INI_FILE" by (simp add: with_owned_def n0)
        have "run (with_owned nothing f) (Acquire RootDir # tr1 @ [Release RootDir]) =
            Some (with_owned ((if ?leak then ?h(FileInfo := 1) else ?h)(RootDir := nothing RootDir)) f1)"
          by (rule run_nested) (use g(1) in \<open>simp_all add: n0\<close>)
        moreover have "(if ?leak then ?h(FileInfo := 1) else ?h)(RootDir := nothing RootDir) =
            (if ?leak then nothing(FileInfo := 1) else nothing)"
          by (auto simp: fun_eq_iff n0)
        ultimately have run1: "run opened (Acquire RootDir # tr1 @ [Release RootDir]) =
            Some (with_owned (if ?leak then nothing(FileInfo := 1) else nothing) f1)"
          using f(2) by (simp only: f_nothing)
        show ?thesis
        proof (cases "EFI_ERROR st1")
          case True
          then have ff: "f1 = f" using read_file_error [OF rf] by simp
          then have r: "st = st1" "fo = None"
            "tr = tr0 @ (Acquire RootDir # tr1 @ [Release RootDir]) @ freeIniFile f"
            using assms p len ok x Inr y vol rf True by (auto simp: AtslEfiIniOpen_def)
          have "run (with_owned k f) (freeIniFile f) = Some k" for k
            by (subst run_freeIniFile) (simp_all add: with_owned_def)
          then have "run nothing tr = Some (if ?leak then nothing(FileInfo := 1) else nothing)"
            unfolding r(3) run_append f(1) Option.bind.bind_lunit run1 ff by simp
          moreover have "Acquire FileInfo \<in> set tr \<longleftrightarrow> Acquire FileInfo \<in> set tr1"
            using r(3) tr0 no_info by auto
          ultimately show ?thesis using r(1,2) True g(4) by simp
        next
          case False
          then have r: "st = st1" "fo = Some f1" "tr = tr0 @ (Acquire RootDir # tr1 @ [Release RootDir])"
            using assms p len ok x Inr y vol rf by (auto simp: AtslEfiIniOpen_def)
          have "\<not> ?leak" using rf False by (auto simp: read_file_def bind_eq_Some_conv split: if_splits)
          then have "run nothing tr = Some (owned f1)"
            unfolding r(3) run_append f(1) Option.bind.bind_lunit run1 by (simp only: if_False f_nothing)
          moreover have "FileName f1 \<noteq> None \<and> DevPath f1 \<noteq> None"
            unfolding g(2,3) by (rule opened_names [OF f(2)])
          ultimately show ?thesis using r(1,2) False by simp
        qed
      qed
    qed
  qed
qed

lemma create_resources:
  assumes "AtslEfiIniCreate fw p name hh = Some (st, fo, tr)"
  shows "run nothing tr = Some (case fo of
      None \<Rightarrow> if Acquire File \<in> set tr \<and> FOpen fw 0 \<noteq> EFI_NOT_FOUND then nothing(File := 1) else nothing
    | Some f \<Rightarrow> opened) \<and> (fo = None \<longleftrightarrow> EFI_ERROR st) \<and>
    (\<forall>f. fo = Some f \<longrightarrow> owned f = opened \<and> entries f = [] \<and> file_ok f \<and> isUnicode f)"
proof (cases "\<exists>q m. p = Some q \<and> name = Some m \<and> hh")
  case False
  then have "st = EFI_INVALID_PARAMETER" "fo = None" "tr = []"
    using assms by (auto simp: AtslEfiIniCreate_def split: option.splits bool.splits)
  then show ?thesis by simp
next
  case True
  then obtain q m where p: "p = Some q" "name = Some m" "hh" by blast
  then obtain len where len: "SctStrLen m = Some len" using assms by (auto simp: AtslEfiIniCreate_def bind_eq_Some_conv)
  show ?thesis
  proof (cases "len > MAX_STRING_LEN")
    case True
    then show ?thesis using assms p len by (auto simp: AtslEfiIniCreate_def)
  next
    case ok: False
    obtain x where x: "new_ini fw q m = Some x"
      using assms p len ok by (auto simp: AtslEfiIniCreate_def bind_eq_Some_conv)
    note sp = new_ini_spec [OF x]
    show ?thesis
    proof (cases x)
      case (Inl y)
      then have y: "y = (st, tr)" "fo = None"
        using assms p len ok x by (auto simp: AtslEfiIniCreate_def split: prod.splits)
      have "Acquire File \<notin> set tr" using sp Inl y by simp
      then show ?thesis using sp Inl y by simp
    next
      case (Inr y)
      then obtain f tr0 where y: "y = (f, tr0)" by (cases y)
      have f: "run nothing tr0 = Some opened" "owned f = opened" "Items f = []" "Tail f = None"
        using sp Inr y by simp_all
      have tr0: "Acquire File \<notin> set tr0" using sp Inr y by simp
      have ou: "owned (f\<lparr>isUnicode := True\<rparr>) = opened" using f(2) by simp
      have no: "Acquire File \<notin> set (freeIniFile g)" for g :: "'a EFI_INI_FILE" by (auto simp: freeIniFile_list)
      have free: "run (opened(RootDir := Suc 0)) (freeIniFile f) = Some (nothing(RootDir := 1))"
        "run (opened(RootDir := Suc 0, File := Suc 0)) (freeIniFile f) = Some (nothing(RootDir := 1, File := 1))"
        "run (opened(RootDir := Suc 0, File := Suc 0)) (freeIniFile (f\<lparr>isUnicode := True\<rparr>)) =
          Some (nothing(RootDir := 1, File := 1))"
        "run opened (freeIniFile f) = Some nothing"
        using run_freeIniFile [of f "opened(RootDir := Suc 0)"] run_freeIniFile [of f opened]
          run_freeIniFile [of f "opened(RootDir := Suc 0, File := Suc 0)"]
          run_freeIniFile [of "f\<lparr>isUnicode := True\<rparr>" "opened(RootDir := Suc 0, File := Suc 0)"] f(2) ou
        by (auto simp: nothing_def opened_def fun_eq_iff)
      have h: "opened RootDir = 0" "opened File = 0" "nothing r = 0" for r
        by (simp_all add: opened_def nothing_def)
      have e: "nothing(RootDir := 0) = nothing" "nothing(RootDir := Suc 0, File := 0, RootDir := 0) = nothing"
        "nothing(RootDir := Suc 0, File := Suc 0, RootDir := 0) = nothing(File := Suc 0)"
        "opened(RootDir := Suc 0, File := 0, RootDir := 0) = opened"
        by (auto simp: h fun_eq_iff)
      have runs: "run nothing (tr0 @ freeIniFile f) = Some nothing"
        "run nothing (tr0 @ Acquire RootDir # freeIniFile f @ [Release RootDir]) = Some nothing"
        "run nothing (tr0 @ Acquire RootDir # Acquire File # freeIniFile f @ [Release RootDir]) =
          Some (nothing(File := Suc 0))"
        "run nothing (tr0 @ Acquire RootDir # Acquire File # WriteFile d #
          freeIniFile (f\<lparr>isUnicode := True\<rparr>) @ [Release File, Release RootDir]) = Some nothing"
        "run nothing (tr0 @ [Acquire RootDir, Acquire File, WriteFile d, Release File, Release RootDir]) =
          Some opened" for d
        using f(1) free e by (simp_all add: h)
      have g: "entries (f\<lparr>isUnicode := True\<rparr>) = []" "file_ok (f\<lparr>isUnicode := True\<rparr>)"
        using f(3,4) by (simp_all add: entries_def file_ok_def chain_ok_def)
      obtain st1 k where w: "FWrite fw 0 2 = (st1, k)" by (cases "FWrite fw 0 2")
      show ?thesis
        using assms p len ok x Inr y runs tr0 no w f(2) g
        by (auto simp: AtslEfiIniCreate_def simp del: run_append run.simps split: if_splits)
    qed
  qed
qed

section \<open>Flushing and closing\<close>

text \<open>Every step of a flush only appends writes to the trace.\<close>

definition more_writes :: "out \<Rightarrow> out \<Rightarrow> bool" where
  "more_writes s s' \<longleftrightarrow> (\<exists>ds. oTrace s' = oTrace s @ map WriteFile ds)"

lemma more_writes_refl [intro]: "oTrace s' = oTrace s \<Longrightarrow> more_writes s s'"
  by (simp add: more_writes_def)

lemma more_writes_trans [trans]: "more_writes s t \<Longrightarrow> more_writes t u \<Longrightarrow> more_writes s u"
  unfolding more_writes_def by (metis append.assoc map_append)

lemma write_buffer_writes: "write_buffer fw u s = Some (st, s') \<Longrightarrow> more_writes s s'"
  unfolding more_writes_def
  by (auto simp: write_buffer_def write_bytes_def bind_eq_Some_conv Let_def
      split: if_splits prod.splits intro: exI [of _ "[_]"])

lemma add_remark_writes: "add_remark c s = Some s' \<Longrightarrow> more_writes s s'"
  by (auto simp: add_remark_def bind_eq_Some_conv)

lemma flush_comments_writes: "flush_comments it cs s = Some s' \<Longrightarrow> more_writes s s'"
proof (induction it cs s rule: flush_comments.induct)
  case (2 it c cs s)
  show ?case
  proof (cases "cmtNo c = commentNo it")
    case True
    then obtain s1 where s1: "add_remark c (s\<lparr>oNo := cmtNo c\<rparr>) = Some s1" "flush_comments it cs s1 = Some s'"
      using "2.prems" by (auto simp: bind_eq_Some_conv)
    have "more_writes s s1" using add_remark_writes [OF s1(1)] by (simp add: more_writes_def)
    also have "more_writes s1 s'" using "2.IH"(1) [OF True s1] .
    finally show ?thesis .
  next
    case False
    then show ?thesis using "2.IH"(2) "2.prems" by simp
  qed
qed auto

lemma last_comments_writes: "last_comments cs s = Some s' \<Longrightarrow> more_writes s s'"
proof (induction cs s rule: last_comments.induct)
  case (2 c cs s)
  show ?case
  proof (cases "cmtNo c \<ge> oNo s")
    case True
    then obtain s1 where s1: "add_remark c s = Some s1" "last_comments cs s1 = Some s'"
      using "2.prems" by (auto simp: bind_eq_Some_conv)
    from add_remark_writes [OF s1(1)] "2.IH"(1) [OF True s1] show ?thesis by (rule more_writes_trans)
  next
    case False
    then show ?thesis using "2.IH"(2) "2.prems" by simp
  qed
qed auto

lemma flush_line_writes: "flush_line it s = Some s' \<Longrightarrow> more_writes s s'"
  by (auto simp: flush_line_def bind_eq_Some_conv)

lemma flush_head_writes: "flush_head fw u it s = Some (st, s') \<Longrightarrow> more_writes s s'"
  by (auto simp: flush_head_def bind_eq_Some_conv more_writes_def split: if_splits
      dest!: write_buffer_writes)

lemma flush_loop_writes: "flush_loop fw u cs its s = Some (st, s') \<Longrightarrow> more_writes s s'"
proof (induction its arbitrary: s)
  case (Cons x its)
  obtain a it where x: "x = (a, it)" by (cases x)
  obtain st1 s1 where h: "flush_head fw u it s = Some (st1, s1)"
    using Cons.prems x by (auto simp: bind_eq_Some_conv)
  note w1 = flush_head_writes [OF h]
  show ?case
  proof (cases "EFI_ERROR st1")
    case True
    then show ?thesis using Cons.prems x h w1 by simp
  next
    case False
    then obtain s2 s3 where s: "flush_comments it cs s1 = Some s2" "flush_line it s2 = Some s3"
      "flush_loop fw u cs its s3 = Some (st, s')"
      using Cons.prems x h by (auto simp: bind_eq_Some_conv)
    note w1
    also have "more_writes s1 s2" using s(1) by (rule flush_comments_writes)
    also have "more_writes s2 s3" using s(2) by (rule flush_line_writes)
    also have "more_writes s3 s'" using s(3) by (rule Cons.IH)
    finally show ?thesis .
  qed
qed auto

lemma flush_bom_writes: "flush_bom fw u s = Some (st, s') \<Longrightarrow> more_writes s s'"
  unfolding more_writes_def
  by (auto simp: flush_bom_def write_bytes_def bind_eq_Some_conv split: if_splits prod.splits
      intro: exI [of _ "[_]"] exI [of _ "[]"])

lemma flush_text_writes: "flush_text fw u its cs s = Some (st, s') \<Longrightarrow> more_writes s s'"
proof -
  assume r: "flush_text fw u its cs s = Some (st, s')"
  obtain st1 s1 where s1: "flush_bom fw u s = Some (st1, s1)"
    using r by (auto simp: flush_text_def bind_eq_Some_conv)
  note w = flush_bom_writes [OF s1]
  show ?thesis
  proof (cases "EFI_ERROR st1")
    case True
    then show ?thesis using r s1 w by (simp add: flush_text_def)
  next
    case no1: False
    obtain st2 s2 where s2: "flush_loop fw u cs its s1 = Some (st2, s2)"
      using r s1 no1 by (auto simp: flush_text_def bind_eq_Some_conv)
    have w: "more_writes s s2" using w flush_loop_writes [OF s2] by (rule more_writes_trans)
    show ?thesis
    proof (cases "EFI_ERROR st2")
      case True
      then show ?thesis using r s1 no1 s2 w by (simp add: flush_text_def)
    next
      case no2: False
      obtain st3 s3 where s3: "write_buffer fw u s2 = Some (st3, s3)"
        using r s1 no1 s2 no2 by (auto simp: flush_text_def bind_eq_Some_conv)
      have w: "more_writes s s3" using w write_buffer_writes [OF s3] by (rule more_writes_trans)
      show ?thesis
      proof (cases "EFI_ERROR st3")
        case True
        then show ?thesis using r s1 no1 s2 no2 s3 w by (simp add: flush_text_def)
      next
        case no3: False
        obtain b s4 c where s4: "wr (oBuffer s3) 0 0 = Some b"
          "last_comments cs (s3\<lparr>oNo := oNo s3 + 1, oBuffer := b\<rparr>) = Some s4" "rd (oBuffer s4) 0 = Some c"
          "(if c \<noteq> 0 then write_buffer fw u s4 else Some (EFI_SUCCESS, s4)) = Some (st, s')"
          using r s1 no1 s2 no2 s3 no3 by (auto simp: flush_text_def bind_eq_Some_conv)
        have w4: "more_writes s3 s4" using last_comments_writes [OF s4(2)] by (simp add: more_writes_def)
        have w5: "more_writes s4 s'" using s4(4) write_buffer_writes by (auto split: if_splits)
        show ?thesis using more_writes_trans [OF more_writes_trans [OF w w4] w5] .
      qed
    qed
  qed
qed

lemma run_writes: "0 < h File \<Longrightarrow> run h (map WriteFile ds) = Some h"
  by (induction ds) auto

text \<open>A flush keeps what the file owns, and leaves nothing else held.\<close>

lemma EfiIniFlush_run:
  assumes r: "EfiIniFlush fw Stk f = Some (st, f', tr)" and h: "h File = 0" "h RootDir = 0"
  shows "run h tr = Some h" and "owned f' = owned f"
    and "Items f' = Items f" "CommentLines f' = CommentLines f" "Tail f' = Tail f"
proof -
  have e: "h(RootDir := 0) = h" "h(RootDir := Suc 0, File := 0, RootDir := 0) = h"
    using h by (auto simp: fun_eq_iff)
  have body: "run h (oTrace s @ [Release File, Release RootDir]) = Some h"
    "run h (oTrace s @ [FlushFile, Release File, Release RootDir]) = Some h"
    if ft: "flush_text fw u its cs (Stk\<lparr>oNo := 0, oFirst := True, oWrites := 0,
        oTrace := [Acquire RootDir, Acquire File, DeleteFile, Acquire File]\<rparr>) = Some (st1, s)" for u its cs st1 s
  proof -
    obtain ds where "oTrace s = [Acquire RootDir, Acquire File, DeleteFile, Acquire File] @ map WriteFile ds"
      using flush_text_writes [OF ft] by (auto simp: more_writes_def)
    then show "run h (oTrace s @ [Release File, Release RootDir]) = Some h"
      "run h (oTrace s @ [FlushFile, Release File, Release RootDir]) = Some h"
      using e h run_writes [of "h(RootDir := Suc 0, File := Suc 0)"] by simp_all
  qed
  show "run h tr = Some h"
    using r e h body by (auto simp: EfiIniFlush_def bind_eq_Some_conv split: if_splits simp del: run_append)
  show "owned f' = owned f" "Items f' = Items f" "CommentLines f' = CommentLines f" "Tail f' = Tail f"
    using r by (auto simp: EfiIniFlush_def bind_eq_Some_conv split: if_splits)
qed

lemma AtslEfiIniClose_run:
  assumes "AtslEfiIniClose fw Stk f = Some (st, tr)"
  shows "run (owned f) tr = Some nothing"
proof -
  obtain f' tr1 where r: "EfiIniFlush fw Stk f = Some (st, f', tr1)" "tr = tr1 @ freeIniFile f'"
    using assms by (auto simp: AtslEfiIniClose_def bind_eq_Some_conv)
  have "run (owned f) tr1 = Some (owned f)"
    by (rule EfiIniFlush_run(1) [OF r(1)]) (simp_all add: owned_def)
  then show ?thesis
    using r(2) EfiIniFlush_run(2) [OF r(1)] run_freeIniFile [of f' "owned f"] by (simp add: nothing_def)
qed

end
