(* ===== verification/Ini_Round.thy ===== *)
theory Ini_Round
  imports Ini_Print Ini_Handles
begin

text \<open>
  The composition of flushing and opening: the lines of what \<open>EfiIniFlush\<close> writes, their
  reading by \<open>AtslEfiIniOpen\<close>, and what of a file survives the two. The NUL the flush writes
  behind every section makes the reader skip the line it starts, which is the empty line
  between two sections, or the first of the comments behind the last record.
\<close>

section \<open>Lines\<close>

definition raw :: "u8 list \<Rightarrow> bool" where
  "raw l \<longleftrightarrow> (\<exists>l'. l = l' @ [chLF] \<and> chLF \<notin> set l')"

lemma split_lines_raw:
  "chLF \<notin> set l \<Longrightarrow> split_lines acc (l @ chLF # cs) = (acc @ l @ [chLF]) # split_lines [] cs"
  by (induction l arbitrary: acc) auto

lemma split_lines_concat:
  "\<forall>l\<in>set ls. raw l \<Longrightarrow> split_lines [] (concat ls @ cs) = ls @ split_lines [] cs"
  by (induction ls) (auto simp: raw_def split_lines_raw)

lemma raw_crlf: "chLF \<notin> set c \<Longrightarrow> raw (c @ CRLF)"
  unfolding raw_def by (rule exI [of _ "c @ [chCR]"]) simp

definition item_lines :: "noted \<Rightarrow> u8 list list" where
  "item_lines x = map (\<lambda>r. r @ CRLF) (fst x) @ [entry_line (snd x)]"

lemma concat_item_lines: "concat (item_lines x) = item_text x"
  by (simp add: item_lines_def item_text_def remark_lines_def)

text \<open>The characters of the file behind the byte order mark, and their lines.\<close>

fun stream :: "u8 list list \<Rightarrow> u8 list \<Rightarrow> noted list \<Rightarrow> u8 list" where
  "stream tr acc [] = acc @ 0 # (if tr = [] then [] else remark_lines tr @ [0])"
| "stream tr acc (x # xs) =
     (if fst (snd (snd x)) = [] then acc @ 0 # stream tr (CRLF @ item_text x) xs
      else stream tr (acc @ item_text x) xs)"

fun rest_lines :: "u8 list list \<Rightarrow> noted list \<Rightarrow> u8 list list" where
  "rest_lines [] [] = [[0]]"
| "rest_lines (r # tr) [] = (0 # r @ CRLF) # map (\<lambda>r. r @ CRLF) tr @ [[0]]"
| "rest_lines tr (x # xs) =
     (if fst (snd (snd x)) = [] then (0 # CRLF) # item_lines x @ rest_lines tr xs
      else item_lines x @ rest_lines tr xs)"

lemma stream_blocks:
  "concat (map (\<lambda>b. b @ [0]) (blocks acc xs)) @ (if tr = [] then [] else remark_lines tr @ [0]) =
     stream tr acc xs"
  by (induction xs arbitrary: acc) auto

definition raw_item :: "noted \<Rightarrow> bool" where
  "raw_item x \<longleftrightarrow> (\<forall>l\<in>set (item_lines x). raw l)"

lemma stream_acc: "stream tr (a @ b) xs = a @ stream tr b xs"
  by (induction xs arbitrary: b) auto

lemma split_stream:
  assumes "\<forall>r\<in>set tr. chLF \<notin> set r"
  shows "\<forall>x\<in>set xs. raw_item x \<Longrightarrow> split_lines [] (stream tr [] xs) = rest_lines tr xs"
proof (induction xs)
  case Nil
  show ?case
  proof (cases tr)
    case (Cons r rs)
    have "split_lines [0] ((r @ [chCR]) @ chLF # remark_lines rs @ [0]) =
        (0 # r @ CRLF) # split_lines [] (remark_lines rs @ [0])"
      using assms Cons by (subst split_lines_raw) auto
    moreover have "split_lines [] (concat (map (\<lambda>r. r @ CRLF) rs) @ [0]) = map (\<lambda>r. r @ CRLF) rs @ [[0]]"
      using assms Cons by (subst split_lines_concat) (auto intro: raw_crlf)
    ultimately show ?thesis using Cons by (simp add: remark_lines_def)
  qed simp
next
  case (Cons x xs)
  have r: "\<forall>l\<in>set (item_lines x). raw l" using Cons.prems by (simp add: raw_item_def)
  have s: "stream tr (item_text x) xs = concat (item_lines x) @ stream tr [] xs"
    using stream_acc [of tr "item_text x" "[]" xs] by (simp add: concat_item_lines)
  have i: "split_lines [] (stream tr (item_text x) xs) = item_lines x @ rest_lines tr xs"
    unfolding s using split_lines_concat [OF r] Cons by simp
  have c: "stream tr (CRLF @ item_text x) xs = CRLF @ stream tr (item_text x) xs" by (rule stream_acc)
  show ?case using i c by auto
qed

section \<open>What a line reads as\<close>

text \<open>The texts that survive: trimmed, without line feeds and NULs, and without the characters
  that structure a line.\<close>

definition clean :: "u8 list \<Rightarrow> bool" where
  "clean s \<longleftrightarrow> trim s = s \<and> 0 \<notin> set s \<and> chLF \<notin> set s"

definition clean_remark :: "u8 list \<Rightarrow> bool" where
  "clean_remark r \<longleftrightarrow> clean r \<and> r \<noteq> [] \<and> hd r = chHASH \<and> length r < MAX_LINE_LEN - 3"

definition clean_entry :: "entry \<Rightarrow> bool" where
  "clean_entry x = (case x of (s, e, v) \<Rightarrow>
     if e = [] then clean s \<and> s \<noteq> [] \<and> length s < MAX_STRING_LEN \<and> chRB \<notin> set s \<and> v = []
     else clean e \<and> length e < MAX_STRING_LEN \<and> chEQ \<notin> set e \<and> hd e \<noteq> chHASH \<and>
       \<not> (hd e = chLB \<and> chRB \<in> set (e @ v)) \<and>
       clean v \<and> length v < MAX_STRING_LEN \<and> chHASH \<notin> set v)"

definition clean_item :: "noted \<Rightarrow> bool" where
  "clean_item x \<longleftrightarrow> (\<forall>r\<in>set (fst x). clean_remark r) \<and> clean_entry (snd x)"

definition entry_as_line :: "entry \<Rightarrow> line" where
  "entry_as_line x = (case x of (s, e, v) \<Rightarrow> if e = [] then SectionL s else EntryL e v)"

lemma trim_crlf: "trim (s @ CRLF) = trim s"
proof (cases "\<forall>c\<in>set s. c = chSPACE")
  case True
  then have d: "dropWhile (\<lambda>c. c = chSPACE) (s @ CRLF) = dropWhile (\<lambda>c. c = chSPACE) CRLF"
    by (intro dropWhile_append2) auto
  have d0: "dropWhile (\<lambda>c. c = chSPACE) s = []" using True by simp
  show ?thesis unfolding trim_def trimmed_def d d0 by simp
next
  case False
  then obtain c where "c \<in> set s" "c \<noteq> chSPACE" by blast
  then have "dropWhile (\<lambda>c. c = chSPACE) (s @ CRLF) = dropWhile (\<lambda>c. c = chSPACE) s @ CRLF"
    by (rule dropWhile_append1)
  then show ?thesis by (simp add: trim_def trimmed_def)
qed

lemma text_of_nz: "0 \<notin> set s \<Longrightarrow> text_of s = s"
  unfolding text_of_def by (rule takeWhile_eq_all_conv [THEN iffD2]) auto

lemma clean_hd: "clean s \<Longrightarrow> s \<noteq> [] \<Longrightarrow> hd s \<noteq> chSPACE"
  using trimmed_hd [of "\<lambda>c. c = chSPACE" "\<lambda>c. c \<in> {chLF, chSPACE, chCR}" s]
  by (auto simp: clean_def trim_def)

lemma clean_last: "clean s \<Longrightarrow> s \<noteq> [] \<Longrightarrow> last s \<notin> {chLF, chSPACE, chCR}"
  using trimmed_last [of "\<lambda>c. c = chSPACE" "\<lambda>c. c \<in> {chLF, chSPACE, chCR}" s]
  unfolding clean_def trim_def by metis

lemma trim_id: "s = [] \<or> (hd s \<noteq> chSPACE \<and> last s \<notin> {chLF, chSPACE, chCR}) \<Longrightarrow> trim s = s"
  unfolding trim_def by (rule trimmed_id) auto

lemma before_append: "c \<notin> set s \<Longrightarrow> before c (s @ c # t) = s"
  by (simp add: before_def takeWhile_append)

lemma after_append: "c \<notin> set s \<Longrightarrow> after c (s @ c # t) = t"
  by (induction s) (auto simp: after_def)

lemma before_all: "c \<notin> set s \<Longrightarrow> before c s = s"
  unfolding before_def by (rule takeWhile_eq_all_conv [THEN iffD2]) auto

lemma classify_remark: "clean_remark r \<Longrightarrow> classify (text_of (r @ CRLF)) = CommentL r"
  by (simp add: clean_remark_def clean_def text_of_nz classify_def trim_crlf)

lemma classify_entry:
  assumes "clean_entry x"
  shows "classify (text_of (entry_line x)) = entry_as_line x"
proof -
  obtain s e v where x: "x = (s, e, v)" by (cases x)
  show ?thesis
  proof (cases "e = []")
    case True
    then have s: "clean s" "s \<noteq> []" "length s < 100" "chRB \<notin> set s" "v = []"
      using assms x by (simp_all add: clean_entry_def MAX_STRING_LEN_def)
    have "trim (chLB # s @ [chRB]) = chLB # s @ [chRB]" by (rule trim_id) simp
    moreover have "entry_line x = (chLB # s @ [chRB]) @ CRLF" using x True by (simp add: entry_line_def)
    moreover have "text_of (entry_line x) = entry_line x"
      using s(1) x True by (intro text_of_nz) (auto simp: entry_line_def clean_def)
    ultimately have "trim (text_of (entry_line x)) = chLB # s @ [chRB]" using trim_crlf by metis
    then show ?thesis
      using s x True before_append [OF s(4), of "[]"]
      by (simp add: classify_def entry_as_line_def nm_def clean_def)
  next
    case False
    then have e: "clean e" "length e < 100" "chEQ \<notin> set e" "hd e \<noteq> chHASH"
      "\<not> (hd e = chLB \<and> chRB \<in> set (e @ v))" and v: "clean v" "length v < 100" "chHASH \<notin> set v"
      using assms x by (simp_all add: clean_entry_def MAX_STRING_LEN_def)
    have "trim (e @ chEQ # v) = e @ chEQ # v"
      using clean_hd [OF e(1) False] clean_last [OF v(1)] False by (intro trim_id) (cases v; auto)
    moreover have "entry_line x = (e @ chEQ # v) @ CRLF" using x False by (simp add: entry_line_def)
    moreover have "text_of (entry_line x) = entry_line x"
      using e(1) v(1) x False by (intro text_of_nz) (auto simp: entry_line_def clean_def)
    ultimately have "trim (text_of (entry_line x)) = e @ chEQ # v" using trim_crlf by metis
    then show ?thesis
      using e v x False before_append [OF e(3), of v] after_append [OF e(3), of v] before_all [OF v(3)]
      by (auto simp: classify_def entry_as_line_def nm_def clean_def Let_def)
  qed
qed

lemma line_ok_remark: "clean_remark r \<Longrightarrow> line_ok (r @ CRLF)"
  by (simp add: line_ok_def classify_remark clean_remark_def MAX_LINE_LEN_def)

lemma line_ok_entry:
  assumes "clean_entry x"
  shows "line_ok (entry_line x)"
proof -
  obtain s e v where x: "x = (s, e, v)" by (cases x)
  then show ?thesis
    using assms classify_entry [OF assms]
    by (cases "e = []") (simp_all add: line_ok_def clean_entry_def entry_line_def entry_as_line_def
        MAX_LINE_LEN_def MAX_STRING_LEN_def)
qed

lemma text_of_0 [simp]: "text_of (0 # s) = []"
  by (simp add: text_of_def)

lemma classify_Nil [simp]: "classify [] = BlankL"
  by (simp add: classify_def)

lemma add_text_0 [simp]: "add_text d (0 # s) = d"
  by (simp add: add_text_def)

lemma line_ok_0: "length s < MAX_LINE_LEN - 1 \<Longrightarrow> line_ok (0 # s)"
  by (simp add: line_ok_def MAX_LINE_LEN_def)

section \<open>Reading the lines of a file\<close>

definition put_remarks :: "doc \<Rightarrow> u8 list list \<Rightarrow> doc" where
  "put_remarks d rs = d\<lparr>dComments := dComments d @ map (\<lambda>r. (dNo d, r)) rs\<rparr>"

definition put_item :: "doc \<Rightarrow> noted \<Rightarrow> doc" where
  "put_item d x = add_line (put_remarks d (fst x)) (entry_as_line (snd x))"

lemma put_remarks_Nil [simp]: "put_remarks d [] = d"
  by (simp add: put_remarks_def)

lemma add_remarks:
  "\<forall>r\<in>set rs. clean_remark r \<Longrightarrow> foldl add_text d (map (\<lambda>r. r @ CRLF) rs) = put_remarks d rs"
  by (induction rs arbitrary: d) (simp_all add: add_text_def classify_remark put_remarks_def)

lemma add_item_lines: "clean_item x \<Longrightarrow> foldl add_text d (item_lines x) = put_item d x"
  by (simp add: item_lines_def clean_item_def add_remarks put_item_def add_text_def classify_entry)

lemma add_rest_lines:
  assumes "\<forall>r\<in>set tr. clean_remark r"
  shows "\<forall>x\<in>set xs. clean_item x \<Longrightarrow>
    foldl add_text d (rest_lines tr xs) = put_remarks (foldl put_item d xs) (tl tr)"
proof (induction xs arbitrary: d)
  case Nil
  then show ?case using assms by (cases tr) (simp_all add: add_remarks)
next
  case (Cons x xs)
  then show ?case by (simp add: add_item_lines)
qed

lemma item_lines_ok: "clean_item x \<Longrightarrow> \<forall>l\<in>set (item_lines x). line_ok l"
  by (auto simp: item_lines_def line_ok_remark line_ok_entry clean_item_def)

lemma rest_lines_ok:
  assumes "\<forall>r\<in>set tr. clean_remark r"
  shows "\<forall>x\<in>set xs. clean_item x \<Longrightarrow> \<forall>l\<in>set (rest_lines tr xs). line_ok l"
proof (induction xs)
  case Nil
  then show ?case
  proof (cases tr)
    case (Cons r rs)
    then have "line_ok (0 # r @ CRLF)" "\<forall>r\<in>set rs. line_ok (r @ CRLF)" "line_ok [0]"
      using assms line_ok_remark by (auto simp: clean_remark_def MAX_LINE_LEN_def intro!: line_ok_0)
    then show ?thesis using Cons by simp
  qed (simp add: line_ok_0 MAX_LINE_LEN_def)
next
  case (Cons x xs)
  have i: "\<forall>l\<in>set (item_lines x). line_ok l" by (rule item_lines_ok) (use Cons.prems in simp)
  have "line_ok (0 # CRLF)" by (rule line_ok_0) (simp add: MAX_LINE_LEN_def)
  then show ?case using Cons.IH Cons.prems i by (simp add: ball_Un)
qed

lemma clean_raw_item: "clean_item x \<Longrightarrow> raw_item x"
proof -
  assume x: "clean_item x"
  obtain s e v where e: "snd x = (s, e, v)" by (cases "snd x")
  have "raw (entry_line (snd x))"
  proof (cases "e = []")
    case True
    then show ?thesis
      using x e raw_crlf [of "chLB # s @ [chRB]"]
      by (simp add: clean_item_def clean_entry_def clean_def entry_line_def)
  next
    case False
    then show ?thesis
      using x e raw_crlf [of "e @ chEQ # v"]
      by (simp add: clean_item_def clean_entry_def clean_def entry_line_def)
  qed
  then show ?thesis
    using x by (auto simp: raw_item_def item_lines_def clean_item_def clean_remark_def clean_def intro: raw_crlf)
qed

text \<open>A printed file starts with the head of a section, so there is no line in front of it.\<close>

lemma parse_stream:
  assumes tr: "\<forall>r\<in>set tr. clean_remark r" and xs: "\<forall>x\<in>set (x # xs). clean_item x"
  shows "parse (stream tr (item_text x) xs) = put_remarks (foldl put_item start (x # xs)) (tl tr)"
    and "\<forall>l\<in>set (split_lines [] (stream tr (item_text x) xs)). line_ok l"
proof -
  have r: "\<forall>l\<in>set (item_lines x). raw l" using xs clean_raw_item [of x] by (simp add: raw_item_def)
  have lf: "\<forall>r\<in>set tr. chLF \<notin> set r" using tr by (auto simp: clean_remark_def clean_def)
  have ri: "\<forall>x\<in>set xs. raw_item x" using xs clean_raw_item by simp
  have "stream tr (item_text x) xs = concat (item_lines x) @ stream tr [] xs"
    using stream_acc [of tr "item_text x" "[]" xs] by (simp add: concat_item_lines)
  then have l: "split_lines [] (stream tr (item_text x) xs) = item_lines x @ rest_lines tr xs"
    using split_lines_concat [OF r] split_stream [OF lf ri] by simp
  show "parse (stream tr (item_text x) xs) = put_remarks (foldl put_item start (x # xs)) (tl tr)"
    using xs by (simp add: parse_add_text l add_item_lines add_rest_lines [OF tr])
  have "\<forall>l\<in>set (item_lines x). line_ok l" by (rule item_lines_ok) (use xs in simp)
  then show "\<forall>l\<in>set (split_lines [] (stream tr (item_text x) xs)). line_ok l"
    using rest_lines_ok [OF tr, of xs] xs by (simp add: l ball_Un)
qed

section \<open>Records and their comments after the round trip\<close>

definition doc_noted :: "doc \<Rightarrow> noted list" where
  "doc_noted d = map (\<lambda>(n, x). (map snd (filter (\<lambda>c. fst c = n) (dComments d)), x)) (dItems d)"

text \<open>A record is read back into the section whose head stands before it.\<close>

fun retitle :: "u8 list \<Rightarrow> noted list \<Rightarrow> noted list" where
  "retitle cur [] = []"
| "retitle cur ((rs, s, e, v) # xs) =
     (if e = [] then (rs, s, e, v) # retitle s xs else (rs, cur, e, v) # retitle cur xs)"

definition below :: "nat \<Rightarrow> doc \<Rightarrow> bool" where
  "below k d \<longleftrightarrow> dNo d = of_nat k \<and>
     (\<forall>n\<in>fst ` set (dItems d) \<union> fst ` set (dComments d). \<exists>j<k. n = of_nat j)"

lemma of_nat_u32_eq: "j < 2 ^ 32 \<Longrightarrow> k < 2 ^ 32 \<Longrightarrow> (of_nat j :: u32) = of_nat k \<longleftrightarrow> j = k"
proof
  assume jk: "j < 2 ^ 32" "k < 2 ^ 32" and "(of_nat j :: u32) = of_nat k"
  then have "unat (of_nat j :: u32) = unat (of_nat k :: u32)" by simp
  then show "j = k" using jk by (simp add: unat_of_nat take_bit_nat_eq_self)
qed simp

text \<open>The comments in front of a record get its number, which no other one has.\<close>

lemma below_fresh:
  assumes "below k d" "k < 2 ^ 32" "m \<in> fst ` set (dItems d) \<union> fst ` set (dComments d)"
  shows "m \<noteq> dNo d"
proof -
  obtain j where j: "j < k" "m = of_nat j" using assms(1,3) by (auto simp: below_def)
  then show ?thesis using of_nat_u32_eq [of j k] assms(1,2) by (simp add: below_def)
qed

lemma doc_noted_push:
  assumes b: "below k d" "k < 2 ^ 32"
    and d': "dItems d' = dItems d @ [(dNo d, x)]" "dComments d' = dComments d @ map (\<lambda>r. (dNo d, r)) rs"
      "dNo d' = dNo d + 1"
  shows "doc_noted d' = doc_noted d @ [(rs, x)]" and "below (Suc k) d'"
proof -
  have old: "filter (\<lambda>c. fst c = m) (map (\<lambda>r. (dNo d, r)) rs) = []" if "(m, y) \<in> set (dItems d)" for m y
    using below_fresh [OF b, of m] image_eqI [of m fst, OF _ that] by (auto simp: filter_empty_conv)
  have new: "filter (\<lambda>c. fst c = dNo d) (dComments d) = []"
    using below_fresh [OF b] by (auto simp: filter_empty_conv)
  have nn: "map snd (filter (\<lambda>c. fst c = dNo d) (map (\<lambda>r. (dNo d, r)) rs)) = rs"
    by (induction rs) auto
  have "map (\<lambda>(n, x). (map snd (filter (\<lambda>c. fst c = n) (dComments d')), x)) (dItems d) = doc_noted d"
    unfolding doc_noted_def by (rule map_cong) (auto simp: d' old)
  then show "doc_noted d' = doc_noted d @ [(rs, x)]"
    unfolding doc_noted_def [of d'] d'(1) by (simp add: d'(2) new nn comp_def)
  have "n \<in> fst ` set (dItems d') \<union> fst ` set (dComments d') \<Longrightarrow> \<exists>j<Suc k. n = of_nat j" for n
    using b(1) d'(1,2) unfolding below_def by (auto intro: less_SucI)
  then show "below (Suc k) d'" using b(1) d'(3) by (simp add: below_def)
qed

lemma put_item_noted:
  assumes b: "below k d" "k < 2 ^ 32" and cur: "dCur d = Some c \<or> e = []"
  shows "doc_noted (put_item d (rs, s, e, v)) =
      doc_noted d @ [(rs, if e = [] then s else c, e, if e = [] then [] else v)]"
    and "below (Suc k) (put_item d (rs, s, e, v))"
    and "dCur (put_item d (rs, s, e, v)) = Some (if e = [] then s else c)"
proof -
  let ?d = "put_item d (rs, s, e, v)"
  let ?x = "(if e = [] then s else c, e, if e = [] then [] else v)"
  have d': "dItems ?d = dItems d @ [(dNo d, ?x)]" "dComments ?d = dComments d @ map (\<lambda>r. (dNo d, r)) rs"
    "dNo ?d = dNo d + 1" "dCur ?d = Some (if e = [] then s else c)"
    using cur by (auto simp: put_item_def entry_as_line_def put_remarks_def)
  show "doc_noted ?d = doc_noted d @ [(rs, ?x)]" "below (Suc k) ?d"
    using doc_noted_push [OF b d'(1-3)] by auto
  show "dCur ?d = Some (if e = [] then s else c)" by (rule d'(4))
qed

lemma put_items_noted:
  "below k d \<Longrightarrow> k + length xs < 2 ^ 32 \<Longrightarrow> dCur d = Some c \<Longrightarrow> \<forall>x\<in>set xs. clean_item x \<Longrightarrow>
    doc_noted (foldl put_item d xs) = doc_noted d @ retitle c xs \<and> below (k + length xs) (foldl put_item d xs)"
proof (induction xs arbitrary: k d c)
  case (Cons x xs)
  obtain rs s e v where x: "x = (rs, s, e, v)" by (cases x) auto
  have v: "e = [] \<Longrightarrow> v = []" using Cons.prems(4) x by (simp add: clean_item_def clean_entry_def)
  have k: "k < 2 ^ 32" using Cons.prems(2) by simp
  have cur: "dCur d = Some c \<or> e = []" using Cons.prems(3) by simp
  note p = put_item_noted [OF Cons.prems(1) k cur, of rs s v]
  have k': "Suc k + length xs < 2 ^ 32" using Cons.prems(2) by simp
  show ?case using Cons.IH [OF p(2) k' p(3)] Cons.prems(4) p(1) v x by auto
qed simp

lemma below_start: "below 1 start"
  by (simp add: below_def start_def)

lemma put_all_noted:
  assumes "snd x = (s, [], v)" "\<forall>y\<in>set (x # xs). clean_item y" "length xs + 2 < 2 ^ 32"
  shows "doc_noted (foldl put_item start (x # xs)) = retitle [] (x # xs)"
    and "below (length xs + 2) (foldl put_item start (x # xs))"
proof -
  obtain rs where x: "x = (rs, s, [], v)" using assms(1) by (cases x) auto
  have v: "v = []" using assms(2) x by (simp add: clean_item_def clean_entry_def)
  have "doc_noted start = []" by (simp add: doc_noted_def start_def)
  moreover have b1: "(1::nat) < 2 ^ 32" by simp
  note q = put_item_noted [OF below_start b1, of undefined "[]" rs s v]
  have "below 2 (put_item start (rs, s, [], v))" using q(2) by (simp add: Suc_1 del: One_nat_def)
  ultimately have p: "doc_noted (put_item start x) = [(rs, s, [], [])]" "below 2 (put_item start x)"
    "dCur (put_item start x) = Some s" using x q(1,3) by simp_all
  have "2 + length xs < 2 ^ 32" using assms(3) by simp
  from put_items_noted [OF p(2) this p(3)] show "doc_noted (foldl put_item start (x # xs)) = retitle [] (x # xs)"
    "below (length xs + 2) (foldl put_item start (x # xs))"
    using assms(2) p(1) x v by (auto simp: add.commute)
qed

lemma doc_noted_remarks:
  assumes "below k d" "k < 2 ^ 32"
  shows "doc_noted (put_remarks d rs) = doc_noted d"
proof -
  have "filter (\<lambda>c. fst c = m) (map (\<lambda>r. (dNo d, r)) rs) = []" if "(m, y) \<in> set (dItems d)" for m y
    using below_fresh [OF assms, of m] image_eqI [of m fst, OF _ that] by (auto simp: filter_empty_conv)
  then show ?thesis unfolding doc_noted_def by (intro map_cong) (auto simp: put_remarks_def)
qed

section \<open>Opening what was flushed\<close>

lemma utf16_append [simp]: "utf16 (s @ t) = utf16 s @ utf16 t"
  by (simp add: utf16_def)

lemma utf16_Nil [simp]: "utf16 [] = []"
  by (simp add: utf16_def)

lemma every2_utf16: "every2 (utf16 s) = s"
  by (induction s) (simp_all add: utf16_def)

lemma concat_utf16: "concat (map (\<lambda>b. utf16 (b @ [0])) bs) = utf16 (concat (map (\<lambda>b. b @ [0]) bs))"
  by (induction bs) (simp_all add: utf16_def del: utf16_append)

definition file_text :: "'d EFI_INI_FILE \<Rightarrow> u8 list" where
  "file_text f = stream (trailing f) (item_text (hd (attached f))) (tl (attached f))"

lemma flush_data_text: "concat (flush_data f) = 0xff # 0xfe # utf16 (file_text f)"
proof -
  have "concat (map (\<lambda>b. utf16 (b @ [0])) (file_blocks f) @
      (if trailing f = [] then [] else [utf16 (remark_lines (trailing f) @ [0])])) = utf16 (file_text f)"
    unfolding file_text_def file_blocks_def stream_blocks [symmetric] concat_append concat_utf16
    by simp
  then show ?thesis by (simp add: flush_data_def)
qed

text \<open>The disk holds some bytes: the next read returns all of them.\<close>

definition disk :: "'d firmware \<Rightarrow> u8 list \<Rightarrow> 'd firmware" where
  "disk fw data = fw\<lparr>FRead := (EFI_SUCCESS, length data), PageData := data\<rparr>"

definition open_ok :: "'d firmware \<Rightarrow> 'd \<Rightarrow> u16 list \<Rightarrow> bool" where
  "open_ok fw p name \<longleftrightarrow> (\<exists>t b. cstr name = Some t \<and> length t \<le> MAX_STRING_LEN \<and>
     NamePool fw (2 * length t + 2) = Some b \<and> length b = length t + 1 \<and> DupPath fw p \<noteq> None)"

lemma open_ok_new:
  assumes "open_ok fw p name" "AllocIni fw"
  shows "\<exists>f tr. new_ini fw p name = Some (Inr (f, tr))"
proof -
  obtain t b where t: "cstr name = Some t" "length t \<le> MAX_STRING_LEN"
    "NamePool fw (2 * length t + 2) = Some b" "length b = length t + 1" "DupPath fw p \<noteq> None"
    using assms(1) by (auto simp: open_ok_def)
  have "length t < length name" using cstr_length [OF t(1)] .
  then have "SctStrDuplicate (NamePool fw) name = Some (Some (take (Suc (length t)) name))"
    using t by (simp add: SctStrDuplicate_def SctStrSize_cstr SctCopyMem_spec)
  then show ?thesis using t(5) assms(2) by (auto simp: new_ini_def)
qed

text \<open>The characters of a profile, by the type its first two bytes tell.\<close>

definition profile_text :: "u8 list \<Rightarrow> u8 list" where
  "profile_text data = (if is_bom data (length data) then every2 (drop 2 data) else data)"

lemma profile_text_utf16: "profile_text (0xff # 0xfe # utf16 cs) = cs"
  by (simp add: profile_text_def is_bom_def every2_utf16)

lemma open_spec:
  assumes fw: "all_good fw" "open_ok fw p name" and pool: "pools_ok Pool CPool"
    and stk: "\<forall>k. stack_ok (Stk k)" and l: "length line = MAX_LINE_LEN" "length sect = 101"
    and ok: "\<forall>l\<in>set (split_lines [] (profile_text data)). line_ok l"
  shows "\<exists>f tr k. AtslEfiIniOpen (disk fw data) Stk Pool CPool n line sect (Some p) (Some name) True =
      Some (EFI_SUCCESS, Some f, tr) \<and> file_ok f \<and> comments_ok f \<and> fresh k f \<and>
    numbered f = dItems (parse (profile_text data)) \<and> remarks f = dComments (parse (profile_text data)) \<and>
    isUnicode f = is_bom data (length data) \<and> \<not> Modified f"
proof -
  let ?fw = "disk fw data" and ?u = "is_bom data (length data)"
  have "open_ok ?fw p name" "AllocIni ?fw" using fw by (simp_all add: open_ok_def disk_def all_good_def)
  then obtain f tr where new: "new_ini ?fw p name = Some (Inr (f, tr))" using open_ok_new [of ?fw p name] by auto
  have f: "Items f = []" "Tail f = None" "CommentLines f = []" "\<not> isUnicode f" "\<not> Modified f"
    using new_ini_spec [OF new] by simp_all
  have cs: "chars ?u (drop (if ?u then 2 else 0) (take (length data) data)) = profile_text data"
    by (simp add: chars_def profile_text_def)
  let ?r = "\<lparr>rFile = f, rSection = sect, rGot = False, rNo = 1, rPool = n, rTrace = []\<rparr>"
  obtain r where r: "read_profile Stk Pool CPool line data (length data) ?r = Some r"
    "reads r (parse (profile_text data))" "same_frame (f\<lparr>isUnicode := ?u\<rparr>) (rFile r)"
    using read_profile_spec [OF order_refl pool stk l(1), of ?r data] f l(2) ok unfolding cs by auto
  have "volume_status ?fw = volume_status fw" by (simp add: volume_status_def disk_def)
  then have vs: "volume_status ?fw = EFI_SUCCESS" using all_goodD(1) [OF fw(1)] by simp
  have fs: "FOpen ?fw 0 = EFI_SUCCESS" "InfoPool ?fw" "FGetInfo ?fw = EFI_SUCCESS" "AllocPages ?fw = EFI_SUCCESS"
    "FRead ?fw = (EFI_SUCCESS, length data)" "PageData ?fw = data"
    using fw(1) by (simp_all add: all_good_def disk_def)
  obtain t where t: "cstr name = Some t" "length t \<le> MAX_STRING_LEN" using fw(2) by (auto simp: open_ok_def)
  have "\<exists>tr. AtslEfiIniOpen ?fw Stk Pool CPool n line sect (Some p) (Some name) True =
      Some (EFI_SUCCESS, Some (rFile r), tr)"
    using t new vs fs r(1) by (simp add: AtslEfiIniOpen_def SctStrLen_cstr read_file_def)
  then show ?thesis
    using r(2,3) f(5) by (auto simp: reads_def same_frame_def)
qed

text \<open>Whatever is read, every entry stands behind the head of its section.\<close>

fun cur_after :: "u8 list option \<Rightarrow> entry list \<Rightarrow> u8 list option" where
  "cur_after cur [] = cur"
| "cur_after cur ((s, e, v) # xs) = cur_after (if e = [] then Some (up s) else cur) xs"

lemma grouped_from_snoc:
  "grouped_from cur (xs @ [(s, e, v)]) \<longleftrightarrow>
     grouped_from cur xs \<and> (e = [] \<or> cur_after cur xs = Some (up s))"
  by (induction cur xs rule: grouped_from.induct) auto

lemma cur_after_snoc: "cur_after cur (xs @ [(s, e, v)]) = (if e = [] then Some (up s) else cur_after cur xs)"
  by (induction cur xs rule: cur_after.induct) auto

definition doc_grouped :: "doc \<Rightarrow> bool" where
  "doc_grouped d \<longleftrightarrow> grouped (map snd (dItems d)) \<and>
     cur_after None (map snd (dItems d)) = map_option up (dCur d)"

lemma nm_not_Nil [simp]: "nm s \<noteq> []"
  by (simp add: nm_def UNKNOWN_def)

lemma doc_grouped_add:
  assumes "doc_grouped d"
  shows "doc_grouped (add_line d (classify t))"
proof (cases "classify t")
  case (EntryL e v)
  then have "e \<noteq> []" by (auto simp: classify_def Let_def split: if_splits)
  then show ?thesis
    using assms EntryL by (auto simp: doc_grouped_def grouped_def grouped_from_snoc cur_after_snoc split: option.split)
next
  case (SectionL s)
  then show ?thesis using assms by (simp add: doc_grouped_def grouped_def grouped_from_snoc cur_after_snoc)
qed (use assms in \<open>simp_all add: doc_grouped_def\<close>)

lemma grouped_parse: "grouped (map snd (dItems (parse cs)))"
proof -
  have "doc_grouped (foldl add_text d ls)" if "doc_grouped d" for d ls
    using that by (induction ls arbitrary: d) (simp_all add: add_text_def doc_grouped_add)
  moreover have "doc_grouped start" by (simp add: doc_grouped_def start_def grouped_def)
  ultimately show ?thesis by (simp add: parse_add_text doc_grouped_def)
qed

lemma entries_numbered: "map snd (numbered f) = entries f"
  by (simp add: numbered_def entries_def)

text \<open>What survives of a file: every record with its comments, under the section head before
  it.\<close>

definition survives :: "'d EFI_INI_FILE \<Rightarrow> bool" where
  "survives f \<longleftrightarrow> (\<forall>x\<in>set (attached f). clean_item x) \<and> (\<forall>r\<in>set (trailing f). clean_remark r) \<and>
     length (Items f) + 1 < 2 ^ 32"

lemma map_filter_eq: "map h (filter (\<lambda>x. g x = k) xs) = map snd (filter (\<lambda>c. fst c = k) (map (\<lambda>x. (g x, h x)) xs))"
  by (induction xs) auto

lemma attached_doc:
  assumes "numbered f = dItems d" "remarks f = dComments d"
  shows "attached f = doc_noted d"
proof -
  have "remarks_for (CommentLines f) it = map snd (filter (\<lambda>c. fst c = commentNo it) (remarks f))" for it
    unfolding remarks_for_def remarks_def by (rule map_filter_eq)
  then show ?thesis
    unfolding attached_def doc_noted_def assms(1) [symmetric] assms(2) [symmetric] numbered_def by simp
qed

lemma flush_then_open:
  assumes fw: "all_good fw" "open_ok fw p name" and f: "flushable f" "Modified f" "survives f"
    and out: "out_ok Out" and pool: "pools_ok Pool CPool" and stk: "\<forall>k. stack_ok (Stk k)"
    and l: "length line = MAX_LINE_LEN" "length sect = 101"
  shows "\<exists>f1 tr f2 tr2. EfiIniFlush fw Out f = Some (EFI_SUCCESS, f1, tr) \<and>
    AtslEfiIniOpen (disk fw (contents old tr)) Stk Pool CPool n line sect (Some p) (Some name) True =
      Some (EFI_SUCCESS, Some f2, tr2) \<and> file_ok f2 \<and> comments_ok f2 \<and> isUnicode f2 \<and> \<not> Modified f2 \<and>
    attached f2 = retitle [] (attached f) \<and>
    map snd (remarks f2) = concat (map fst (attached f)) @ tl (trailing f)"
proof -
  let ?tr = "[Acquire RootDir, Acquire File, DeleteFile, Acquire File] @ map WriteFile (flush_data f) @
    [FlushFile, Release File, Release RootDir]"
  have fl: "EfiIniFlush fw Out f = Some (EFI_SUCCESS, f\<lparr>Modified := False\<rparr>, ?tr)"
    by (rule EfiIniFlush_data [OF fw(1) f(1,2) out])
  have data: "profile_text (contents old ?tr) = file_text f" "is_bom (contents old ?tr) (length (contents old ?tr))"
    by (simp_all add: flush_data_text profile_text_utf16 is_bom_def)
  obtain y ys where its: "Items f = y # ys" using f(1) by (cases "Items f") (auto simp: flushable_def)
  obtain x xs where at: "attached f = x # xs" "length xs = length ys" "fst (snd (snd x)) = []"
    using its f(1) by (auto simp: attached_def flushable_def view_def)
  obtain s v where x: "snd x = (s, [], v)" using at(3) by (cases "snd x") auto
  have clean: "\<forall>y\<in>set (x # xs). clean_item y" "\<forall>r\<in>set (trailing f). clean_remark r"
    and len: "length xs + 2 < 2 ^ 32" using f(3) at its by (auto simp: survives_def)
  let ?d = "foldl put_item start (x # xs)"
  have ft: "file_text f = stream (trailing f) (item_text x) xs" by (simp add: file_text_def at(1))
  have d: "parse (file_text f) = put_remarks ?d (tl (trailing f))"
    "\<forall>l\<in>set (split_lines [] (file_text f)). line_ok l"
    unfolding ft by (rule parse_stream [OF clean(2,1)])+
  obtain f2 tr2 where o: "AtslEfiIniOpen (disk fw (contents old ?tr)) Stk Pool CPool n line sect (Some p) (Some name) True =
      Some (EFI_SUCCESS, Some f2, tr2)" "file_ok f2" "comments_ok f2" "numbered f2 = dItems (parse (file_text f))"
    "remarks f2 = dComments (parse (file_text f))" "isUnicode f2" "\<not> Modified f2"
    using open_spec [OF fw pool stk l, of "contents old ?tr"] d(2) unfolding data(1) using data(2) by blast
  have "attached f2 = doc_noted (put_remarks ?d (tl (trailing f)))"
    using attached_doc [OF o(4,5)] d(1) by simp
  also have "\<dots> = doc_noted ?d" by (rule doc_noted_remarks [OF put_all_noted(2) [OF x clean(1) len] len])
  also have "\<dots> = retitle [] (attached f)" using put_all_noted(1) [OF x clean(1) len] at(1) by simp
  finally have "attached f2 = retitle [] (attached f)" .
  moreover have "map snd (remarks f2) = concat (map fst (attached f)) @ tl (trailing f)"
  proof -
    have q: "map snd (dComments (foldl put_item d zs)) = map snd (dComments d) @ concat (map fst zs)" for d zs
    proof (induction zs arbitrary: d)
      case (Cons z zs)
      have "dComments (add_line d' (entry_as_line e)) = dComments d'" for d' e
        by (cases e) (auto simp: entry_as_line_def split: option.split)
      then have "dComments (put_item d z) = dComments d @ map (\<lambda>r. (dNo d, r)) (fst z)"
        by (simp add: put_item_def put_remarks_def)
      then show ?case using Cons by (simp add: comp_def)
    qed simp
    have "dComments start = []" by (simp add: start_def)
    then show ?thesis using o(5) d(1) at(1) q [of start "x # xs"] by (simp add: put_remarks_def comp_def)
  qed
  ultimately show ?thesis using fl o by blast
qed

text \<open>Look-ups do not see the case of a section name, so they do not see the round trip.\<close>

lemma a_get_retitle:
  "grouped_from (Some (up c)) (map snd xs) \<Longrightarrow> a_get s e (map snd (retitle c xs)) = a_get s e (map snd xs)"
proof (induction xs arbitrary: c)
  case (Cons x xs)
  obtain rs s' e' v where x: "x = (rs, s', e', v)" by (cases x) auto
  show ?case
  proof (cases "e' = []")
    case True
    then show ?thesis using Cons.IH [of s'] Cons.prems x by simp
  next
    case False
    then have g: "up c = up s'" "grouped_from (Some (up c)) (map snd xs)" using Cons.prems x by auto
    have "hits s e (c, e', v) = hits s e (s', e', v)" by (simp add: hits_def g(1))
    then show ?thesis using Cons.IH [OF g(2)] x False by simp
  qed
qed simp

lemma map_snd_attached: "map snd (attached f) = entries f"
  by (simp add: attached_def entries_def)

lemma a_get_flush_open:
  assumes "attached f2 = retitle [] (attached f)" "grouped (entries f)"
  shows "a_get s e (entries f2) = a_get s e (entries f)"
proof (cases "attached f")
  case Nil
  then show ?thesis using assms(1) by (simp add: map_snd_attached [symmetric])
next
  case (Cons x xs)
  obtain rs s' e' v where x: "x = (rs, s', e', v)" by (cases x) auto
  have g: "grouped_from None (map snd (x # xs))"
    using assms(2) Cons by (simp add: grouped_def map_snd_attached [symmetric])
  then have "e' = []" using x by (auto split: if_splits)
  then have "grouped_from (Some (up s')) (map snd xs)" using g x by simp
  from a_get_retitle [OF this] show ?thesis
    using assms(1) Cons x \<open>e' = []\<close> by (simp add: map_snd_attached [symmetric] hits_def)
qed

end
