(* ===== verification/Eftp_Packet.thy ===== *)
theory Eftp_Packet
  imports Sct_Number
begin

text \<open>
  The packets of the file transfer protocol, the pool of packet buffers and the private data of a
  session: \<open>EftpPacket.c\<close>, with the types of \<open>EftpCommon.h\<close>, \<open>EftpMain.h\<close>, \<open>EftpOption.h\<close>,
  \<open>EftpRRQ.h\<close>, \<open>EftpWRQ.h\<close> and \<open>Protocol/Eftp.h\<close>. The network stack, the boot services and the
  callbacks of the user are parameters: a record of the answers they give, by the number of the
  call. \<open>None\<close> is an assertion that fails or an access outside the memory of a block.
\<close>

section \<open>Packets\<close>

text \<open>A packet is its four header words and the bytes behind them. The words are what a 16-bit
  load of the little-endian machine reads; on the wire they are in network order.\<close>

record EFI_EFTP_PACKET =
  HdrLength :: u16
  CheckSum :: u16
  OpCode :: u16
  CodeVar :: u16
  Payload :: "u8 list"

definition EFTP_HEADER_LEN :: nat where "EFTP_HEADER_LEN = 8"
definition EFI_EFTP_OPCODE_RRQ :: u16 where "EFI_EFTP_OPCODE_RRQ = 1"
definition EFI_EFTP_OPCODE_WRQ :: u16 where "EFI_EFTP_OPCODE_WRQ = 2"
definition EFI_EFTP_OPCODE_DATA :: u16 where "EFI_EFTP_OPCODE_DATA = 3"
definition EFI_EFTP_OPCODE_ACK :: u16 where "EFI_EFTP_OPCODE_ACK = 4"
definition EFI_EFTP_OPCODE_ERROR :: u16 where "EFI_EFTP_OPCODE_ERROR = 5"
definition EFI_EFTP_OPCODE_OACK :: u16 where "EFI_EFTP_OPCODE_OACK = 6"

definition NTOHS :: "u16 \<Rightarrow> u16" where
  "NTOHS x = push_bit 8 (x AND 0xff) OR drop_bit 8 (x AND 0xff00)"

abbreviation HTONS :: "u16 \<Rightarrow> u16" where "HTONS \<equiv> NTOHS"

text \<open>The words of a packet, as \<open>(UINT16 *) Packet\<close> reads them; a last odd byte is in no word.\<close>

definition le_word :: "u8 \<Rightarrow> u8 \<Rightarrow> u16" where
  "le_word lo hi = ucast lo OR push_bit 8 (ucast hi)"

fun payload_words :: "u8 list \<Rightarrow> u16 list" where
  "payload_words (a # b # d) = le_word a b # payload_words d"
| "payload_words _ = []"

definition packet_words :: "EFI_EFTP_PACKET \<Rightarrow> u16 list" where
  "packet_words pk = [HdrLength pk, CheckSum pk, OpCode pk, CodeVar pk] @ payload_words (Payload pk)"

section \<open>The checksum\<close>

definition cksum_step :: "u16 \<Rightarrow> u32 \<Rightarrow> u32" where
  "cksum_step w s =
     (let s = s + ucast w in
      if s AND 0xFFFF0000 \<noteq> 0 then drop_bit 16 s + (s AND 0x0000ffff) else s)"

text \<open>The loop over the words; \<open>nwords < 0\<close> is never true of an unsigned number.\<close>

fun cksum_loop :: "u16 list \<Rightarrow> nat \<Rightarrow> u32 \<Rightarrow> u32 option" where
  "cksum_loop buf 0 s = Some s"
| "cksum_loop [] (Suc n) s = None"
| "cksum_loop (w # buf) (Suc n) s = cksum_loop buf n (cksum_step w s)"

definition EftpCkSum :: "u16 list \<Rightarrow> nat \<Rightarrow> u16 option" where
  "EftpCkSum buf nwords = do {
     s \<leftarrow> cksum_loop buf nwords 0;
     let s = drop_bit 16 s + (s AND 0xffff);
     let s = s + drop_bit 16 s;
     Some (HTONS (ucast (NOT s))) }"

section \<open>Packet buffers and their pool\<close>

record EFTP_PACKET_BUFFER =
  DataSize :: u32
  PacketSize :: u32
  RefCnt :: u32
  TxEvent :: bool
  DataLength :: u32
  FragmentLength :: u32
  DestinationAddress :: "u8 list option"
  SourceAddress :: "u8 list option"
  Packet :: "EFI_EFTP_PACKET option"

text \<open>The statics of the module, with the memory: \<open>Bufs\<close> maps the address of a buffer to its
  contents, \<open>NewBuf\<close> is the next address the pool allocator returns, and \<open>Calls\<close> counts the
  calls that leave the program.\<close>

record EFTP_POOL =
  Bufs :: "nat \<Rightarrow> EFTP_PACKET_BUFFER option"
  FreeSmall :: "nat list"
  FreeLarge :: "nat list"
  mEftpPacketBufferSize :: u32
  mEftpPacketAllocateNum :: u32
  mEftpPacketBufferUse :: u32
  NewBuf :: nat
  Calls :: nat

text \<open>The environment. \<open>AllocPool\<close> answers the allocations the code tests, \<open>AllocAddress\<close> those of
  the addresses of a packet, which it does not test; \<open>Garbage t i\<close> is the \<open>i\<close>-th byte of the
  block that call \<open>t\<close> allocates.
  The callbacks of the token may be \<open>NULL\<close>; \<open>PacketNeeded\<close> answers with a status, a length and a block.\<close>

record eftp_env =
  AllocPool :: "nat \<Rightarrow> bool"
  AllocAddress :: "nat \<Rightarrow> bool"
  Garbage :: "nat \<Rightarrow> nat \<Rightarrow> u8"
  CreateEvent :: "nat \<Rightarrow> EFI_STATUS"
  Transmit :: "nat \<Rightarrow> EFTP_PACKET_BUFFER \<Rightarrow> EFI_STATUS"
  Receive :: "nat \<Rightarrow> EFI_STATUS"
  MnpConfigure :: "nat \<Rightarrow> EFI_STATUS"
  CheckPacket :: "(nat \<Rightarrow> EFI_EFTP_PACKET \<Rightarrow> EFI_STATUS) option"
  TimeoutCallback :: "(nat \<Rightarrow> EFI_STATUS) option"
  PacketNeeded :: "(nat \<Rightarrow> EFI_STATUS \<times> u16 \<times> u8 list) option"

definition EFTP_BUFFER_DIV :: u32 where "EFTP_BUFFER_DIV = 2 * 1024"
definition EFTP_MAX_BUFFER_SIZE :: u32 where "EFTP_MAX_BUFFER_SIZE = 2 * 1024 * 1024"
definition EFTP_MINI_PACKET_BUFFER_SIZE :: u32 where "EFTP_MINI_PACKET_BUFFER_SIZE = 256"

definition fresh_packet :: "(nat \<Rightarrow> u8) \<Rightarrow> nat \<Rightarrow> EFI_EFTP_PACKET" where
  "fresh_packet g n =
     \<lparr>HdrLength = le_word (g 0) (g 1), CheckSum = le_word (g 2) (g 3),
      OpCode = le_word (g 4) (g 5), CodeVar = le_word (g 6) (g 7),
      Payload = map (\<lambda>i. g (i + EFTP_HEADER_LEN)) [0..<n - EFTP_HEADER_LEN]\<rparr>"

definition EftpAllocNewPacket :: "eftp_env \<Rightarrow> u32 \<Rightarrow> EFTP_POOL \<Rightarrow> nat option \<times> EFTP_POOL" where
  "EftpAllocNewPacket env Size p =
     (let Size = (if 0 < Size \<and> Size < EFTP_MINI_PACKET_BUFFER_SIZE
                  then EFTP_MINI_PACKET_BUFFER_SIZE else Size);
          t = Calls p
      in if \<not> AllocPool env t then (None, p\<lparr>Calls := t + 1\<rparr>)
         else if Size \<noteq> 0 \<and> \<not> AllocPool env (t + 1) then (None, p\<lparr>Calls := t + 2\<rparr>)
         else (Some (NewBuf p), p\<lparr>
           Bufs := (Bufs p)(NewBuf p \<mapsto>
             \<lparr>DataSize = Size, PacketSize = Size, RefCnt = 1, TxEvent = False, DataLength = 0,
              FragmentLength = 0, DestinationAddress = None, SourceAddress = None,
              Packet = (if Size \<noteq> 0 then Some (fresh_packet (Garbage env (t + 1)) (unat Size))
                        else None)\<rparr>),
           NewBuf := NewBuf p + 1,
           mEftpPacketBufferSize := mEftpPacketBufferSize p + Size,
           Calls := t + 2\<rparr>))"

text \<open>The search of a free list for a buffer that is large enough.\<close>

fun find_packet :: "(nat \<Rightarrow> EFTP_PACKET_BUFFER option) \<Rightarrow> u32 \<Rightarrow> nat list \<Rightarrow> nat option option" where
  "find_packet bufs Size [] = Some None"
| "find_packet bufs Size (b # bs) = do {
     buf \<leftarrow> bufs b;
     if DataSize buf \<ge> Size then Some (Some b) else find_packet bufs Size bs }"

definition EftpAllocPacket :: "eftp_env \<Rightarrow> u32 \<Rightarrow> EFTP_POOL \<Rightarrow> (nat option \<times> EFTP_POOL) option" where
  "EftpAllocPacket env Size p =
     (let p = p\<lparr>mEftpPacketAllocateNum := mEftpPacketAllocateNum p + 1\<rparr> in do {
        found \<leftarrow> find_packet (Bufs p) Size
          (if Size < EFTP_BUFFER_DIV then FreeSmall p else FreeLarge p);
        Some (case found of
          None \<Rightarrow> EftpAllocNewPacket env Size p
        | Some b \<Rightarrow> (Some b,
            (if Size < EFTP_BUFFER_DIV then p\<lparr>FreeSmall := remove1 b (FreeSmall p)\<rparr>
             else p\<lparr>FreeLarge := remove1 b (FreeLarge p)\<rparr>)
            \<lparr>mEftpPacketBufferUse := mEftpPacketBufferUse p + 1\<rparr>)) })"

definition EftpFreePacket :: "nat \<Rightarrow> EFTP_POOL \<Rightarrow> EFTP_POOL option" where
  "EftpFreePacket b p = do {
     buf \<leftarrow> Bufs p b;
     if RefCnt buf = 1
     then Some (p\<lparr>mEftpPacketBufferSize := mEftpPacketBufferSize p - DataSize buf,
                  Bufs := (Bufs p)(b := None)\<rparr>)
     else None }"

definition EftpReleasePacket :: "nat \<Rightarrow> EFTP_POOL \<Rightarrow> EFTP_POOL option" where
  "EftpReleasePacket b p = do {
     buf \<leftarrow> Bufs p b;
     if RefCnt buf = 0 then None
     else if RefCnt buf = 1 then
       (let p = p\<lparr>Bufs := (Bufs p)(b \<mapsto> buf\<lparr>TxEvent := False\<rparr>)\<rparr> in
        if mEftpPacketBufferSize p < EFTP_MAX_BUFFER_SIZE
        then Some (if DataSize buf < EFTP_BUFFER_DIV then p\<lparr>FreeSmall := b # FreeSmall p\<rparr>
                   else p\<lparr>FreeLarge := b # FreeLarge p\<rparr>)
        else EftpFreePacket b p)
     else Some (p\<lparr>Bufs := (Bufs p)(b \<mapsto> buf\<lparr>RefCnt := RefCnt buf - 1\<rparr>)\<rparr>) }"

definition EftpHoldPacket :: "nat \<Rightarrow> EFTP_POOL \<Rightarrow> EFTP_POOL option" where
  "EftpHoldPacket b p = do {
     buf \<leftarrow> Bufs p b;
     Some (p\<lparr>Bufs := (Bufs p)(b \<mapsto> buf\<lparr>RefCnt := RefCnt buf + 1\<rparr>)\<rparr>) }"

text \<open>\<open>NetCopyMem (NewBuf->Packet, OldBuf->Packet, OldBuf->PacketSize)\<close>; a buffer of at least the
  header's size is copied as words and bytes.\<close>

definition copy_packet :: "EFI_EFTP_PACKET \<Rightarrow> EFI_EFTP_PACKET \<Rightarrow> nat \<Rightarrow> EFI_EFTP_PACKET option" where
  "copy_packet new old n =
     (if n < EFTP_HEADER_LEN then None else do {
        d \<leftarrow> SctCopyMem (Payload new) (Payload old) (n - EFTP_HEADER_LEN);
        Some (old\<lparr>Payload := d\<rparr>) })"

definition EftpCopyPacket :: "eftp_env \<Rightarrow> nat \<Rightarrow> EFTP_POOL \<Rightarrow> (nat option \<times> EFTP_POOL) option" where
  "EftpCopyPacket env OldBuf p = do {
     old \<leftarrow> Bufs p OldBuf;
     (new, p) \<leftarrow> EftpAllocPacket env (DataSize old) p;
     (case new of
        None \<Rightarrow> Some (None, p)
      | Some b \<Rightarrow> do {
          buf \<leftarrow> Bufs p b;
          dst \<leftarrow> Packet buf;
          src \<leftarrow> Packet old;
          pk \<leftarrow> copy_packet dst src (unat (PacketSize old));
          Some (Some b, p\<lparr>Bufs := (Bufs p)(b \<mapsto>
            buf\<lparr>PacketSize := PacketSize old, DataLength := DataLength old,
                FragmentLength := FragmentLength old, Packet := Some pk\<rparr>)\<rparr>) }) }"

definition EftpInitPacketBuffer :: "EFTP_POOL \<Rightarrow> EFTP_POOL" where
  "EftpInitPacketBuffer p =
     p\<lparr>FreeSmall := [], FreeLarge := [], mEftpPacketBufferUse := 0, mEftpPacketAllocateNum := 0,
       mEftpPacketBufferSize := 0\<rparr>"

fun free_list :: "nat list \<Rightarrow> EFTP_POOL \<Rightarrow> EFTP_POOL option" where
  "free_list [] p = Some p"
| "free_list (b # bs) p = do { p \<leftarrow> EftpFreePacket b p; free_list bs p }"

definition EftpClosePacketBuffer :: "EFTP_POOL \<Rightarrow> EFTP_POOL option" where
  "EftpClosePacketBuffer p = do {
     p \<leftarrow> free_list (FreeSmall p) p;
     p \<leftarrow> free_list (FreeLarge p) (p\<lparr>FreeSmall := []\<rparr>);
     if mEftpPacketBufferSize p = 0
     then Some (p\<lparr>FreeLarge := [], mEftpPacketAllocateNum := 0, mEftpPacketBufferUse := 0\<rparr>)
     else None }"

section \<open>The session\<close>

datatype EFTP_STATE =
    EFTP_INIT | EFTP_TIME_WAIT | EFTP_RRQ_SENT | EFTP_RRQ_ESTABLISHED | EFTP_RRQ_CLOSEING
  | EFTP_WRQ_SENT | EFTP_WRQ_ESTABLISHED | EFTP_WRQ_CLOSEING

datatype EFTP_RRQ_ROLE = EFTP_RRQ_ROLE_INIT | EFTP_RRQ_ROLE_ACTIVE

record EFTP_OPTION =
  OptTimeout :: u16
  BlkSize :: u16
  BlknoLen :: u16
  Tsize :: u64
  Pktdelay :: u16
  NBlkInStream :: u16
  Exist :: u64

record EFI_EFTP_CONFIG_DATA =
  DstMac :: "u8 list"
  SrcMac :: "u8 list"
  TryCount :: u16
  TimeoutValue :: u16

text \<open>The token of the user; \<open>TokenEvent\<close> tells whether it carries an event. A pointer that may be
  \<open>NULL\<close> is an option, and the list of options of the request is a list of pairs of pointers.\<close>

type_synonym option_strings = "(u8 list option \<times> u8 list option) list"

record EFI_EFTP_TOKEN =
  TokenStatus :: EFI_STATUS
  TokenEvent :: bool
  OverrideData :: "(u16 \<times> u16) option"
  Filename :: "u8 list option"
  ModeStr :: "u8 list option"
  OptionCount :: u32
  OptionList :: "option_strings option"
  BufferSize :: u64
  Buffer :: "u8 list option"

record EFTP_RRQ_STATE =
  LostPacketList :: "(u64 \<times> u64) list"
  LostListSize :: u32
  Role :: EFTP_RRQ_ROLE

text \<open>\<open>TimeoutEvent\<close> is \<open>None\<close> for \<open>NULL\<close>, \<open>Some None\<close> for an event that is not armed and
  \<open>Some (Some t)\<close> for one armed with \<open>t\<close> ticks; \<open>RxEvent\<close> tells whether the event of the receive
  token is there. The last group of fields is the environment's: the packets handed to the
  network and not yet returned, whether the receive token is queued, the packets sent, and the
  number of times the event of the user and a recycle event were signalled.\<close>

record EFTP_IO_PRIVATE =
  Token :: EFI_EFTP_TOKEN
  ConfigData :: EFI_EFTP_CONFIG_DATA
  Configured :: bool
  UserEvtFired :: bool
  SynFinished :: bool
  MaxNRetry :: u64
  Opt :: EFTP_OPTION
  State :: EFTP_STATE
  Result :: EFI_STATUS
  RxEvent :: bool
  NRetry :: u64
  Request :: "nat option"
  LastCtrl :: "nat option"
  NextBlkNo :: u64
  Eof :: bool
  LastBlkNo :: u64
  NPendingPacket :: u64
  PendingPacketList :: "nat list"
  TimeoutEvent :: "u64 option option"
  Timeout :: u16
  RrqState :: "EFTP_RRQ_STATE option"
  WrqState :: "nat option option"
  RcvdPkts :: u64
  DroppedPkts :: u64
  Timeouts :: u64
  Pkts :: EFTP_POOL
  InFlight :: "nat list"
  Receiving :: bool
  Wire :: "EFI_EFTP_PACKET list"
  Signals :: nat
  Recycled :: nat

definition EFTP_TIMEWAIT_TIME :: u64 where "EFTP_TIMEWAIT_TIME = 500"
definition EFTP_CLOSEING_TIME :: u64 where "EFTP_CLOSEING_TIME = 2"

text \<open>Setting the timer of an event that is \<open>NULL\<close> is an error the code ignores.\<close>

definition EftpSetTimer :: "u64 \<Rightarrow> u64 \<Rightarrow> EFTP_IO_PRIVATE \<Rightarrow> EFTP_IO_PRIVATE" where
  "EftpSetTimer Sec MSec s =
     s\<lparr>TimeoutEvent := map_option (\<lambda>_. Some (Sec * 10000000 + MSec * 10000)) (TimeoutEvent s)\<rparr>"

text \<open>A call of the environment that only consumes its number.\<close>

definition tick :: "EFTP_IO_PRIVATE \<Rightarrow> EFTP_IO_PRIVATE" where
  "tick s = s\<lparr>Pkts := (Pkts s)\<lparr>Calls := Calls (Pkts s) + 1\<rparr>\<rparr>"

abbreviation now :: "EFTP_IO_PRIVATE \<Rightarrow> nat" where "now s \<equiv> Calls (Pkts s)"

definition release :: "nat \<Rightarrow> EFTP_IO_PRIVATE \<Rightarrow> EFTP_IO_PRIVATE option" where
  "release b s = do { p \<leftarrow> EftpReleasePacket b (Pkts s); Some (s\<lparr>Pkts := p\<rparr>) }"

text \<open>Releasing the packet a field points to, when it is not \<open>NULL\<close>.\<close>

definition release_opt :: "nat option \<Rightarrow> EFTP_IO_PRIVATE \<Rightarrow> EFTP_IO_PRIVATE option" where
  "release_opt b s = (case b of None \<Rightarrow> Some s | Some b \<Rightarrow> release b s)"

definition EntryInList :: "nat list \<Rightarrow> nat \<Rightarrow> bool" where
  "EntryInList Head Entry = (Entry \<in> set Head)"

text \<open>The packet that goes out: the fragment of the buffer.\<close>

definition on_wire :: "EFTP_PACKET_BUFFER \<Rightarrow> EFI_EFTP_PACKET option" where
  "on_wire buf = do {
     pk \<leftarrow> Packet buf;
     Some (pk\<lparr>Payload := take (unat (FragmentLength buf) - EFTP_HEADER_LEN) (Payload pk)\<rparr>) }"

definition EftpSendPacket ::
    "eftp_env \<Rightarrow> nat \<Rightarrow> EFTP_IO_PRIVATE \<Rightarrow> (EFI_STATUS \<times> EFTP_IO_PRIVATE) option" where
  "EftpSendPacket env b s = do {
     p \<leftarrow> EftpHoldPacket b (Pkts s);
     if EntryInList (PendingPacketList s) b then None
     else do {
       let s = s\<lparr>Pkts := p, NPendingPacket := NPendingPacket s + 1,
                 PendingPacketList := PendingPacketList s @ [b]\<rparr>;
       buf \<leftarrow> Bufs p b;
       pk \<leftarrow> on_wire buf;
       let st = Transmit env (now s) buf;
       let s = tick s;
       if EFI_ERROR st
       then (if st = EFI_ACCESS_DENIED then None
             else do {
               s \<leftarrow> release b (s\<lparr>NPendingPacket := NPendingPacket s - 1,
                                 PendingPacketList := remove1 b (PendingPacketList s)\<rparr>);
               Some (st, s\<lparr>Result := EFI_DEVICE_ERROR\<rparr>) })
       else Some (st, s\<lparr>InFlight := InFlight s @ [b], Wire := Wire s @ [pk]\<rparr>) } }"

definition EftpStartRcv :: "eftp_env \<Rightarrow> EFTP_IO_PRIVATE \<Rightarrow> EFI_STATUS \<times> EFTP_IO_PRIVATE" where
  "EftpStartRcv env s =
     (let st = Receive env (now s); s = tick s in
      if EFI_ERROR st \<and> st \<noteq> EFI_ACCESS_DENIED then (st, s\<lparr>Result := EFI_DEVICE_ERROR\<rparr>)
      else (EFI_SUCCESS, s\<lparr>Receiving := True\<rparr>))"

section \<open>Building packets\<close>

definition upd_buf :: "nat \<Rightarrow> (EFTP_PACKET_BUFFER \<Rightarrow> EFTP_PACKET_BUFFER) \<Rightarrow> EFTP_IO_PRIVATE \<Rightarrow>
    EFTP_IO_PRIVATE option" where
  "upd_buf b f s = do {
     buf \<leftarrow> Bufs (Pkts s) b;
     Some (s\<lparr>Pkts := (Pkts s)\<lparr>Bufs := (Bufs (Pkts s))(b \<mapsto> f buf)\<rparr>\<rparr>) }"

definition the_packet :: "nat \<Rightarrow> EFTP_IO_PRIVATE \<Rightarrow> EFI_EFTP_PACKET option" where
  "the_packet b s = do { buf \<leftarrow> Bufs (Pkts s) b; Packet buf }"

definition alloc :: "eftp_env \<Rightarrow> u32 \<Rightarrow> EFTP_IO_PRIVATE \<Rightarrow> (nat option \<times> EFTP_IO_PRIVATE) option" where
  "alloc env Len s = do {
     (b, p) \<leftarrow> EftpAllocPacket env Len (Pkts s);
     Some (b, s\<lparr>Pkts := p\<rparr>) }"

text \<open>\<open>CreateEvent\<close> for the token of a buffer.\<close>

definition create_tx_event ::
    "eftp_env \<Rightarrow> nat \<Rightarrow> EFTP_IO_PRIVATE \<Rightarrow> (EFI_STATUS \<times> EFTP_IO_PRIVATE) option" where
  "create_tx_event env b s =
     (let st = CreateEvent env (now s); s = tick s in
      if EFI_ERROR st then Some (st, s)
      else do { s \<leftarrow> upd_buf b (\<lambda>buf. buf\<lparr>TxEvent := True\<rparr>) s; Some (st, s) })"

text \<open>The four header words. The checksum is computed over the packet as it is at that moment,
  with its checksum field zero.\<close>

definition put_header ::
    "nat \<Rightarrow> u16 \<Rightarrow> u16 \<Rightarrow> nat \<Rightarrow> EFI_EFTP_PACKET \<Rightarrow> EFI_EFTP_PACKET option" where
  "put_header Len Code Var Words pk = do {
     let pk = pk\<lparr>OpCode := HTONS Code, CodeVar := Var, HdrLength := HTONS (of_nat Len), CheckSum := 0\<rparr>;
     c \<leftarrow> EftpCkSum (packet_words pk) Words;
     Some (pk\<lparr>CheckSum := HTONS c\<rparr>) }"

text \<open>The data for the network. The two addresses are allocated and not tested.\<close>

definition fill_tx_data ::
    "eftp_env \<Rightarrow> u32 \<Rightarrow> nat \<Rightarrow> EFTP_IO_PRIVATE \<Rightarrow> EFTP_IO_PRIVATE option" where
  "fill_tx_data env Len b s =
     (if AllocAddress env (now s) \<and> AllocAddress env (now s + 1)
      then upd_buf b (\<lambda>buf. buf\<lparr>PacketSize := Len, DataLength := Len, FragmentLength := Len,
             DestinationAddress := Some (DstMac (ConfigData s)),
             SourceAddress := Some (SrcMac (ConfigData s))\<rparr>) (tick (tick s))
      else None)"

text \<open>\<open>NetAsciiStrCpy (P, Str)\<close> with \<open>P\<close> at an offset of the bytes behind the header, and \<open>P\<close> moved
  behind the terminator.\<close>

definition put_str :: "nat \<Rightarrow> u8 list \<Rightarrow> u8 list \<Rightarrow> (nat \<times> u8 list) option" where
  "put_str P Str d = do {
     rest \<leftarrow> SctAsciiStrCpy (drop P d) Str;
     len \<leftarrow> SctAsciiStrLen Str;
     Some (P + len + 1, take P d @ rest) }"

definition EftpBuildErrorPacket ::
    "eftp_env \<Rightarrow> u16 \<Rightarrow> u8 list \<Rightarrow> EFTP_IO_PRIVATE \<Rightarrow> (nat option \<times> EFTP_IO_PRIVATE) option" where
  "EftpBuildErrorPacket env Code Desc s = do {
     len \<leftarrow> SctAsciiStrLen Desc;
     let Len = of_nat (EFTP_HEADER_LEN + len + 1);
     (b, s) \<leftarrow> alloc env Len s;
     (case b of
        None \<Rightarrow> Some (None, s\<lparr>Result := EFI_OUT_OF_RESOURCES\<rparr>)
      | Some b \<Rightarrow> do {
          pk \<leftarrow> the_packet b s;
          (_, d) \<leftarrow> put_str 0 Desc (Payload pk);
          s \<leftarrow> upd_buf b (\<lambda>buf. buf\<lparr>Packet := Some (pk\<lparr>Payload := d\<rparr>)\<rparr>) s;
          (st, s) \<leftarrow> create_tx_event env b s;
          if EFI_ERROR st then do {
            s \<leftarrow> release b (s\<lparr>Result := EFI_OUT_OF_RESOURCES\<rparr>);
            Some (None, s) }
          else do {
            pk \<leftarrow> put_header (unat Len) EFI_EFTP_OPCODE_ERROR (HTONS Code) (unat Len div 2)
              (pk\<lparr>Payload := d\<rparr>);
            s \<leftarrow> upd_buf b (\<lambda>buf. buf\<lparr>Packet := Some pk\<rparr>) s;
            s \<leftarrow> fill_tx_data env Len b s;
            Some (Some b, s) } }) }"

text \<open>A request: the file name, the mode and the options, behind one another.\<close>

fun options_length :: "option_strings \<Rightarrow> u32 \<Rightarrow> (u32 option) option" where
  "options_length [] Len = Some (Some Len)"
| "options_length ((Some n, Some v) # os) Len = do {
     a \<leftarrow> SctAsciiStrLen n;
     b \<leftarrow> SctAsciiStrLen v;
     options_length os (Len + of_nat a + of_nat b + 2) }"
| "options_length (_ # os) Len = Some None"

fun put_options :: "option_strings \<Rightarrow> nat \<Rightarrow> u8 list \<Rightarrow> u8 list option" where
  "put_options [] P d = Some d"
| "put_options ((Some n, Some v) # os) P d = do {
     (P, d) \<leftarrow> put_str P n d;
     (P, d) \<leftarrow> put_str P v d;
     put_options os P d }"
| "put_options (_ # os) P d = None"

definition put_request :: "u8 list \<Rightarrow> u8 list \<Rightarrow> option_strings \<Rightarrow> u8 list \<Rightarrow> u8 list option" where
  "put_request Name Mode os d = do {
     (P, d) \<leftarrow> put_str 0 Name d;
     (P, d) \<leftarrow> put_str P Mode d;
     put_options os P d }"

text \<open>The string constants of the source.\<close>

definition ascii :: "string \<Rightarrow> u8 list" where "ascii t = map (of_nat \<circ> of_char) t @ [0]"

definition octet :: "u8 list" where "octet = ascii ''octet''"

text \<open>The options that are read: the first \<open>NOption\<close> of the list.\<close>

definition given_options :: "u32 \<Rightarrow> option_strings option \<Rightarrow> option_strings option" where
  "given_options NOption List =
     (case List of
        None \<Rightarrow> Some []
      | Some os \<Rightarrow> if unat NOption \<le> length os then Some (take (unat NOption) os) else None)"

definition EftpBuildRequest ::
    "eftp_env \<Rightarrow> u16 \<Rightarrow> u8 list \<Rightarrow> u8 list option \<Rightarrow> u32 \<Rightarrow> option_strings option \<Rightarrow>
     EFTP_IO_PRIVATE \<Rightarrow> (nat option \<times> EFTP_IO_PRIVATE) option" where
  "EftpBuildRequest env Code Name Mode NOption List s = do {
     let Mode = (case Mode of None \<Rightarrow> octet | Some m \<Rightarrow> m);
     n \<leftarrow> SctAsciiStrLen Name;
     m \<leftarrow> SctAsciiStrLen Mode;
     os \<leftarrow> given_options NOption List;
     Len \<leftarrow> options_length os (of_nat EFTP_HEADER_LEN + of_nat n + of_nat m + 2);
     (case Len of
        None \<Rightarrow> Some (None, s\<lparr>Result := EFI_INVALID_PARAMETER\<rparr>)
      | Some Len \<Rightarrow> do {
          (b, s) \<leftarrow> alloc env Len s;
          (case b of
             None \<Rightarrow> Some (None, s\<lparr>Result := EFI_OUT_OF_RESOURCES\<rparr>)
           | Some b \<Rightarrow> do {
               pk \<leftarrow> the_packet b s;
               d \<leftarrow> put_request Name Mode os (Payload pk);
               s \<leftarrow> upd_buf b (\<lambda>buf. buf\<lparr>Packet := Some (pk\<lparr>Payload := d\<rparr>)\<rparr>) s;
               (st, s) \<leftarrow> create_tx_event env b s;
               if EFI_ERROR st then do {
                 s \<leftarrow> release b (s\<lparr>Result := EFI_OUT_OF_RESOURCES\<rparr>);
                 Some (None, s) }
               else do {
                 pk \<leftarrow> put_header (unat Len) Code 0 (unat Len div 2) (pk\<lparr>Payload := d\<rparr>);
                 s \<leftarrow> upd_buf b (\<lambda>buf. buf\<lparr>Packet := Some pk\<rparr>) s;
                 s \<leftarrow> fill_tx_data env Len b s;
                 Some (Some b, s) } }) }) }"

section \<open>Sending control packets\<close>

text \<open>The end of both senders of control packets: the packet sent becomes the last one.\<close>

definition keep_ctrl :: "nat \<Rightarrow> EFTP_IO_PRIVATE \<Rightarrow> EFTP_IO_PRIVATE option" where
  "keep_ctrl b s = do {
     s \<leftarrow> release_opt (LastCtrl s) s;
     Some (s\<lparr>LastCtrl := Some b\<rparr>) }"

definition EftpSendError ::
    "eftp_env \<Rightarrow> u16 \<Rightarrow> u8 list \<Rightarrow> EFTP_IO_PRIVATE \<Rightarrow> (EFI_STATUS \<times> EFTP_IO_PRIVATE) option" where
  "EftpSendError env Code Desc s = do {
     (b, s) \<leftarrow> EftpBuildErrorPacket env Code Desc s;
     (case b of
        None \<Rightarrow> Some (EFI_OUT_OF_RESOURCES, s)
      | Some b \<Rightarrow> do {
          (st, s) \<leftarrow> EftpSendPacket env b s;
          if EFI_ERROR st then do { s \<leftarrow> release b s; Some (st, s) }
          else do { s \<leftarrow> keep_ctrl b s; Some (EFI_SUCCESS, s) } }) }"

definition EftpResendPacket ::
    "eftp_env \<Rightarrow> nat \<Rightarrow> bool \<Rightarrow> EFTP_IO_PRIVATE \<Rightarrow> (EFI_STATUS \<times> EFTP_IO_PRIVATE) option" where
  "EftpResendPacket env b Copy s =
     (if \<not> Copy then do {
        (st, s) \<leftarrow> EftpSendPacket env b s;
        Some (if EFI_ERROR st then st else EFI_SUCCESS, s) }
      else do {
        (tmp, p) \<leftarrow> EftpCopyPacket env b (Pkts s);
        let s = s\<lparr>Pkts := p\<rparr>;
        (case tmp of
           None \<Rightarrow> Some (EFI_OUT_OF_RESOURCES, s\<lparr>Result := EFI_OUT_OF_RESOURCES\<rparr>)
         | Some tmp \<Rightarrow> do {
             (st, s) \<leftarrow> create_tx_event env tmp s;
             if EFI_ERROR st then do {
               s \<leftarrow> release tmp (s\<lparr>Result := EFI_OUT_OF_RESOURCES\<rparr>);
               Some (EFI_OUT_OF_RESOURCES, s) }
             else do {
               (st, s) \<leftarrow> EftpSendPacket env tmp s;
               s \<leftarrow> release tmp s;
               Some (if EFI_ERROR st then st else EFI_SUCCESS, s) } }) })"

text \<open>What both clients do to send the last packet again: it is copied while it is still pending.\<close>

definition resend_last :: "eftp_env \<Rightarrow> nat option \<Rightarrow> EFTP_IO_PRIVATE \<Rightarrow>
    (EFI_STATUS \<times> EFTP_IO_PRIVATE) option" where
  "resend_last env b s = do {
     b \<leftarrow> b;
     buf \<leftarrow> Bufs (Pkts s) b;
     if RefCnt buf = 0 then None else EftpResendPacket env b (RefCnt buf > 1) s }"

end
