(* ===== verification/Eftp_Pool.thy ===== *)
theory Eftp_Pool
  imports Eftp_Packet "HOL-Library.Multiset"
begin

text \<open>
  The reference counts of the packet buffers. \<open>held p M\<close> relates the pool to the multiset of the
  references the program holds: a buffer is on a free list, or its count is the number of its
  references. Every routine of the pool is characterised by what it does to \<open>M\<close>; a routine that
  returns in such a state touches no buffer that has been freed.
\<close>

section \<open>Total correctness of fallible code\<close>

definition ok :: "'a option \<Rightarrow> ('a \<Rightarrow> bool) \<Rightarrow> bool" where
  "ok m Q = (case m of None \<Rightarrow> False | Some x \<Rightarrow> Q x)"

lemma ok_Some [simp]: "ok (Some x) Q = Q x"
  by (simp add: ok_def)

lemma ok_None [simp]: "\<not> ok None Q"
  by (simp add: ok_def)

lemma ok_bind [simp]: "ok (Option.bind m f) Q = ok m (\<lambda>x. ok (f x) Q)"
  by (cases m) simp_all

lemma ok_mono: "ok m P \<Longrightarrow> (\<And>x. P x \<Longrightarrow> Q x) \<Longrightarrow> ok m Q"
  by (cases m) simp_all

lemma okE: "ok m Q \<Longrightarrow> (\<And>x. m = Some x \<Longrightarrow> Q x \<Longrightarrow> R) \<Longrightarrow> R"
  by (cases m) simp_all

lemma ok_weaken: "(\<And>x. P x \<Longrightarrow> Q x) \<Longrightarrow> ok m P \<Longrightarrow> ok m Q"
  by (rule ok_mono)

section \<open>The pool invariant\<close>

abbreviation free_bufs :: "EFTP_POOL \<Rightarrow> nat list" where
  "free_bufs p \<equiv> FreeSmall p @ FreeLarge p"

definition buf_ok :: "EFTP_PACKET_BUFFER \<Rightarrow> bool" where
  "buf_ok buf \<longleftrightarrow> 256 \<le> unat (DataSize buf) \<and> 8 \<le> unat (PacketSize buf) \<and>
     unat (PacketSize buf) \<le> unat (DataSize buf) \<and> unat (FragmentLength buf) \<le> unat (PacketSize buf) \<and>
     (\<exists>pk. Packet buf = Some pk \<and> length (Payload pk) = unat (DataSize buf) - 8)"

definition counted :: "EFTP_POOL \<Rightarrow> nat multiset \<Rightarrow> nat \<Rightarrow> bool" where
  "counted p M b \<longleftrightarrow>
     (case Bufs p b of
        None \<Rightarrow> b \<notin># M
      | Some buf \<Rightarrow> b \<in># M \<and> unat (RefCnt buf) = count M b)"

definition held :: "EFTP_POOL \<Rightarrow> nat multiset \<Rightarrow> bool" where
  "held p M \<longleftrightarrow> distinct (free_bufs p) \<and>
     (\<forall>b\<in>set (free_bufs p). b \<notin># M \<and> (\<exists>buf. Bufs p b = Some buf \<and> RefCnt buf = 1)) \<and>
     (\<forall>b. b \<notin> set (free_bufs p) \<longrightarrow> counted p M b) \<and>
     (\<forall>b buf. Bufs p b = Some buf \<longrightarrow> b < NewBuf p \<and> buf_ok buf)"

text \<open>What a buffer holds, without its count and its event; a routine keeps it for every buffer
  the caller holds.\<close>

definition buf_contents :: "EFTP_POOL \<Rightarrow> nat \<Rightarrow> EFTP_PACKET_BUFFER option" where
  "buf_contents p b = map_option (\<lambda>buf. buf\<lparr>RefCnt := 0, TxEvent := False\<rparr>) (Bufs p b)"

definition keeps :: "nat multiset \<Rightarrow> EFTP_POOL \<Rightarrow> EFTP_POOL \<Rightarrow> bool" where
  "keeps M p p' \<longleftrightarrow> (\<forall>b\<in>#M. buf_contents p' b = buf_contents p b)"

lemma keeps_refl [simp]: "keeps M p p"
  by (simp add: keeps_def)

lemma keeps_trans: "keeps M p q \<Longrightarrow> keeps M q r \<Longrightarrow> keeps M p r"
  by (simp add: keeps_def)

lemma keeps_subset: "keeps M p q \<Longrightarrow> N \<subseteq># M \<Longrightarrow> keeps N p q"
  by (auto simp: keeps_def dest: mset_subset_eqD)

lemma keepsD: "keeps M p q \<Longrightarrow> b \<in># M \<Longrightarrow> buf_contents q b = buf_contents p b"
  by (simp add: keeps_def)

lemma held_calls [simp]: "held (p\<lparr>Calls := n\<rparr>) M = held p M"
  by (simp add: held_def counted_def)

lemma held_statics [simp]:
  "held (p\<lparr>mEftpPacketAllocateNum := n\<rparr>) M = held p M"
  "held (p\<lparr>mEftpPacketBufferUse := n\<rparr>) M = held p M"
  "held (p\<lparr>mEftpPacketBufferSize := n\<rparr>) M = held p M"
  by (simp_all add: held_def counted_def)

lemma buf_contents_calls [simp]: "buf_contents (p\<lparr>Calls := n\<rparr>) b = buf_contents p b"
  by (simp add: buf_contents_def)

lemma held_counted: "held p M \<Longrightarrow> b \<notin> set (free_bufs p) \<Longrightarrow> counted p M b"
  by (simp add: held_def)

lemma held_free:
  "held p M \<Longrightarrow> b \<in> set (free_bufs p) \<Longrightarrow> b \<notin># M \<and> (\<exists>buf. Bufs p b = Some buf \<and> RefCnt buf = 1)"
  by (simp add: held_def)

lemma held_bound: "held p M \<Longrightarrow> Bufs p b = Some buf \<Longrightarrow> b < NewBuf p \<and> buf_ok buf"
  by (simp add: held_def)

lemma held_distinct: "held p M \<Longrightarrow> distinct (free_bufs p)"
  by (simp add: held_def)

lemma counted_other: "Bufs q b = Bufs p b \<Longrightarrow> count N b = count M b \<Longrightarrow> counted q N b = counted p M b"
  by (auto simp: counted_def split: option.splits simp flip: count_greater_zero_iff)

lemma heldI:
  assumes "distinct (free_bufs p)"
    and "\<And>b. b \<in> set (free_bufs p) \<Longrightarrow> b \<notin># M \<and> (\<exists>buf. Bufs p b = Some buf \<and> RefCnt buf = 1)"
    and "\<And>b. b \<notin> set (free_bufs p) \<Longrightarrow> counted p M b"
    and "\<And>b buf. Bufs p b = Some buf \<Longrightarrow> b < NewBuf p \<and> buf_ok buf"
  shows "held p M"
  using assms by (simp add: held_def)

lemma held_live:
  assumes "held p M" and "b \<in># M"
  shows "\<exists>buf. Bufs p b = Some buf \<and> unat (RefCnt buf) = count M b \<and> buf_ok buf \<and>
    b \<notin> set (free_bufs p)"
proof -
  have "b \<notin> set (free_bufs p)" using assms by (auto simp: held_def)
  then have "counted p M b" using assms by (simp add: held_def)
  then obtain buf where "Bufs p b = Some buf" "unat (RefCnt buf) = count M b"
    using assms(2) by (auto simp: counted_def split: option.splits)
  then show ?thesis using assms(1) \<open>b \<notin> set (free_bufs p)\<close> unfolding held_def by blast
qed

lemma held_liveE:
  assumes "held p M" and "b \<in># M"
  obtains buf where "Bufs p b = Some buf" "unat (RefCnt buf) = count M b" "buf_ok buf"
    "b \<notin> set (FreeSmall p)" "b \<notin> set (FreeLarge p)" "0 < unat (RefCnt buf)"
  using held_live [OF assms] assms(2) by (auto simp: count_greater_zero_iff)

text \<open>Changing one buffer, with its count.\<close>

lemma held_upd:
  assumes "held p M" and "b \<in># M" and "buf_ok buf" and "unat (RefCnt buf) = count N b"
    and "b \<in># N" and "\<And>c. c \<noteq> b \<Longrightarrow> count N c = count M c"
  shows "held (p\<lparr>Bufs := (Bufs p)(b \<mapsto> buf)\<rparr>) N"
proof -
  let ?q = "p\<lparr>Bufs := (Bufs p)(b \<mapsto> buf)\<rparr>"
  have nf: "b \<notin> set (free_bufs p)" using held_live [OF assms(1,2)] by auto
  show ?thesis
  proof (rule heldI)
    show "distinct (free_bufs ?q)" using held_distinct [OF assms(1)] by simp
  next
    fix c assume "c \<in> set (free_bufs ?q)"
    then have c: "c \<in> set (free_bufs p)" "c \<noteq> b" using nf by auto
    have "c \<notin># N" using held_free [OF assms(1) c(1)] assms(6) [OF c(2)]
      by (simp add: not_in_iff)
    then show "c \<notin># N \<and> (\<exists>buf. Bufs ?q c = Some buf \<and> RefCnt buf = 1)"
      using held_free [OF assms(1) c(1)] c(2) by simp
  next
    fix c assume c: "c \<notin> set (free_bufs ?q)"
    show "counted ?q N c"
    proof (cases "c = b")
      case True
      then show ?thesis using assms(4,5) by (simp add: counted_def)
    next
      case False
      then have "counted ?q N c = counted p M c" using assms(6) by (intro counted_other) auto
      then show ?thesis using held_counted [OF assms(1)] c by simp
    qed
  next
    fix c buf' assume "Bufs ?q c = Some buf'"
    then show "c < NewBuf ?q \<and> buf_ok buf'"
      using assms(3) held_bound [OF assms(1)] held_live [OF assms(1,2)]
      by (auto split: if_splits)
  qed
qed

section \<open>The routines of the pool\<close>

lemma EftpHoldPacket_ok:
  assumes "held p M" and "b \<in># M" and "count M b < 2 ^ 32 - 1"
  shows "ok (EftpHoldPacket b p) (\<lambda>p'. held p' (add_mset b M) \<and> keeps M p p' \<and> Calls p' = Calls p)"
proof -
  obtain buf where buf: "Bufs p b = Some buf" "unat (RefCnt buf) = count M b" "buf_ok buf"
    using assms(1,2) by (rule held_liveE)
  have "unat (RefCnt buf + 1) = count (add_mset b M) b"
    using buf(2) assms(3) by (simp add: unat_word_ariths)
  then have "held (p\<lparr>Bufs := (Bufs p)(b \<mapsto> buf\<lparr>RefCnt := RefCnt buf + 1\<rparr>)\<rparr>) (add_mset b M)"
    using buf(3) assms(1,2) by (intro held_upd [OF assms(1,2)]) (auto simp: buf_ok_def)
  moreover have "keeps M p (p\<lparr>Bufs := (Bufs p)(b \<mapsto> buf\<lparr>RefCnt := RefCnt buf + 1\<rparr>)\<rparr>)"
    using buf(1) by (simp add: keeps_def buf_contents_def)
  ultimately show ?thesis by (simp add: EftpHoldPacket_def buf(1))
qed

text \<open>A buffer without references goes to a free list or back to the system.\<close>

lemma held_freed:
  assumes "held p (add_mset b M)" and "b \<notin># M" and "Bufs p b = Some buf" and "RefCnt buf = 1"
  shows "held (p\<lparr>FreeSmall := b # FreeSmall p\<rparr>) M" "held (p\<lparr>FreeLarge := b # FreeLarge p\<rparr>) M"
    "held (p\<lparr>mEftpPacketBufferSize := n, Bufs := (Bufs p)(b := None)\<rparr>) M"
proof -
  have nf: "b \<notin> set (free_bufs p)"
    using held_live [of p "add_mset b M" b] assms(1) by auto
  have c: "counted p M c" if "c \<notin> set (free_bufs p)" "c \<noteq> b" for c
  proof -
    have "counted p M c = counted p (add_mset b M) c" using that by (intro counted_other) auto
    then show ?thesis using held_counted [OF assms(1) that(1)] by simp
  qed
  have f: "c \<notin># M \<and> (\<exists>buf. Bufs p c = Some buf \<and> RefCnt buf = 1)" if "c \<in> set (free_bufs p)" for c
    using held_free [OF assms(1) that] by auto
  note d = held_distinct [OF assms(1)] and bd = held_bound [OF assms(1)]
  show "held (p\<lparr>FreeSmall := b # FreeSmall p\<rparr>) M"
    by (rule heldI) (use d nf c f bd assms(2-4) in \<open>auto simp: counted_def\<close>)
  show "held (p\<lparr>FreeLarge := b # FreeLarge p\<rparr>) M"
    by (rule heldI) (use d nf c f bd assms(2-4) in \<open>auto simp: counted_def\<close>)
  have o: "counted (p\<lparr>mEftpPacketBufferSize := n, Bufs := (Bufs p)(b := None)\<rparr>) M x = counted p M x"
    if "x \<noteq> b" for x
    using that by (intro counted_other) auto
  show "held (p\<lparr>mEftpPacketBufferSize := n, Bufs := (Bufs p)(b := None)\<rparr>) M"
  proof (rule heldI)
    fix x assume x: "x \<notin> set (free_bufs (p\<lparr>mEftpPacketBufferSize := n, Bufs := (Bufs p)(b := None)\<rparr>))"
    show "counted (p\<lparr>mEftpPacketBufferSize := n, Bufs := (Bufs p)(b := None)\<rparr>) M x"
      using x c o [of x] assms(2) by (cases "x = b") (auto simp: counted_def)
  qed (use d nf f bd in \<open>auto split: if_splits\<close>)
qed

lemma EftpReleasePacket_ok:
  assumes "held p (add_mset b M)"
  shows "ok (EftpReleasePacket b p) (\<lambda>p'. held p' M \<and> keeps M p p' \<and> Calls p' = Calls p)"
proof -
  obtain buf where buf: "Bufs p b = Some buf" "unat (RefCnt buf) = Suc (count M b)" "buf_ok buf"
    using assms by (rule held_liveE [of p "add_mset b M" b]) auto
  have nz: "RefCnt buf \<noteq> 0" using buf(2) by auto
  show ?thesis
  proof (cases "RefCnt buf = 1")
    case True
    then have b: "b \<notin># M" using buf(2) by (simp add: not_in_iff)
    let ?p = "p\<lparr>Bufs := (Bufs p)(b \<mapsto> buf\<lparr>TxEvent := False\<rparr>)\<rparr>"
    have h: "held ?p (add_mset b M)"
      using buf assms by (intro held_upd [OF assms]) (auto simp: buf_ok_def)
    have k: "keeps M p ?p" using buf(1) by (simp add: keeps_def buf_contents_def)
    note f = held_freed [OF h b, of "buf\<lparr>TxEvent := False\<rparr>"]
    have n: "buf_contents (p\<lparr>Bufs := (Bufs p)(b := None)\<rparr>) c = buf_contents p c" if "c \<in># M" for c
      using that b by (auto simp: buf_contents_def)
    show ?thesis
      using True buf(1) nz f k n
      by (auto simp: EftpReleasePacket_def EftpFreePacket_def Let_def keeps_def buf_contents_def)
  next
    case False
    then have b: "b \<in># M"
      using buf(2) by (metis One_nat_def count_eq_zero_iff unat_1 word_unat_eq_iff)
    have "unat (RefCnt buf - 1) = count M b"
      using buf(2) nz by (simp add: unat_minus_one)
    then have "held (p\<lparr>Bufs := (Bufs p)(b \<mapsto> buf\<lparr>RefCnt := RefCnt buf - 1\<rparr>)\<rparr>) M"
      using buf(3) b by (intro held_upd [OF assms]) (auto simp: buf_ok_def)
    then show ?thesis
      using False nz buf(1) by (simp add: EftpReleasePacket_def keeps_def buf_contents_def)
  qed
qed

lemma find_packet_ok:
  assumes "\<forall>b\<in>set bs. \<exists>buf. bufs b = Some buf"
  shows "ok (find_packet bufs n bs) (\<lambda>r. case r of None \<Rightarrow> True
    | Some b \<Rightarrow> b \<in> set bs \<and> (\<exists>buf. bufs b = Some buf \<and> n \<le> DataSize buf))"
  using assms
proof (induction bs)
  case (Cons b bs)
  then obtain buf where "bufs b = Some buf" by auto
  then show ?case
    using Cons by (auto intro: ok_mono split: option.splits)
qed simp

text \<open>Taking a buffer from a free list.\<close>

lemma held_taken:
  assumes "held p M" and "b \<in> set (free_bufs p)" and "set fs = set (FreeSmall p) - {b}"
    and "set fl = set (FreeLarge p) - {b}" and "distinct fs" and "distinct fl"
  shows "held (p\<lparr>FreeSmall := fs, FreeLarge := fl\<rparr>) (add_mset b M)"
proof (rule heldI)
  let ?q = "p\<lparr>FreeSmall := fs, FreeLarge := fl\<rparr>"
  note d = held_distinct [OF assms(1)]
  show "distinct (free_bufs ?q)" using d assms(3-6) by auto
  fix x
  show "x \<notin># add_mset b M \<and> (\<exists>buf. Bufs ?q x = Some buf \<and> RefCnt buf = 1)"
    if "x \<in> set (free_bufs ?q)"
    using that assms(3,4) held_free [OF assms(1), of x] by auto
  show "counted ?q (add_mset b M) x" if "x \<notin> set (free_bufs ?q)"
  proof (cases "x = b")
    case True
    have "b \<notin># M" using held_free [OF assms(1,2)] by simp
    then show ?thesis
      using True held_free [OF assms(1,2)] by (auto simp: counted_def not_in_iff)
  next
    case False
    then have "counted ?q (add_mset b M) x = counted p M x" by (intro counted_other) auto
    then show ?thesis using held_counted [OF assms(1), of x] that False assms(3,4) by auto
  qed
  show "x < NewBuf ?q \<and> buf_ok buf" if "Bufs ?q x = Some buf" for buf
    using that held_bound [OF assms(1)] by simp
qed

definition allocated :: "EFTP_POOL \<Rightarrow> nat multiset \<Rightarrow> u32 \<Rightarrow> nat option \<times> EFTP_POOL \<Rightarrow> bool" where
  "allocated p M n r \<longleftrightarrow> keeps M p (snd r) \<and> (case fst r of
     None \<Rightarrow> held (snd r) M
   | Some b \<Rightarrow> b \<notin># M \<and> held (snd r) (add_mset b M) \<and>
       (\<exists>buf. Bufs (snd r) b = Some buf \<and> n \<le> DataSize buf))"

lemma fresh_packet_length [simp]: "length (Payload (fresh_packet g n)) = n - 8"
  by (simp add: fresh_packet_def EFTP_HEADER_LEN_def)

lemma held_new:
  assumes "held p M" and "buf_ok buf" and "RefCnt buf = 1"
  shows "held (p\<lparr>Bufs := (Bufs p)(NewBuf p \<mapsto> buf), NewBuf := NewBuf p + 1\<rparr>) (add_mset (NewBuf p) M)"
    "NewBuf p \<notin># M"
proof -
  let ?b = "NewBuf p" and ?q = "p\<lparr>Bufs := (Bufs p)(NewBuf p \<mapsto> buf), NewBuf := NewBuf p + 1\<rparr>"
  have none: "Bufs p ?b = None" using held_bound [OF assms(1), of ?b] by (cases "Bufs p ?b") auto
  then have nf: "?b \<notin> set (free_bufs p)" using held_free [OF assms(1), of ?b] by auto
  show nM: "?b \<notin># M" using held_counted [OF assms(1) nf] none by (simp add: counted_def)
  show "held ?q (add_mset ?b M)"
  proof (rule heldI)
    show "distinct (free_bufs ?q)" using held_distinct [OF assms(1)] by simp
  next
    fix x assume "x \<in> set (free_bufs ?q)"
    then show "x \<notin># add_mset ?b M \<and> (\<exists>buf. Bufs ?q x = Some buf \<and> RefCnt buf = 1)"
      using held_free [OF assms(1), of x] nf by auto
  next
    fix x assume x: "x \<notin> set (free_bufs ?q)"
    show "counted ?q (add_mset ?b M) x"
    proof (cases "x = ?b")
      case True
      then show ?thesis using nM assms(3) by (auto simp: counted_def not_in_iff)
    next
      case False
      then have "counted ?q (add_mset ?b M) x = counted p M x" by (intro counted_other) auto
      then show ?thesis using held_counted [OF assms(1)] x by simp
    qed
  next
    fix x buf' assume "Bufs ?q x = Some buf'"
    then show "x < NewBuf ?q \<and> buf_ok buf'"
      using held_bound [OF assms(1), of x] assms(2) by (auto split: if_splits)
  qed
qed

lemma EftpAllocNewPacket_ok:
  assumes "held p M" and "0 < n"
  shows "allocated p M n (EftpAllocNewPacket env n p)"
proof -
  define sz where "sz = (if n < EFTP_MINI_PACKET_BUFFER_SIZE then EFTP_MINI_PACKET_BUFFER_SIZE else n)"
  have sz: "256 \<le> unat sz" "n \<le> sz" "sz \<noteq> 0"
    using assms(2) by (auto simp: sz_def EFTP_MINI_PACKET_BUFFER_SIZE_def word_le_nat_alt word_less_nat_alt)
  define buf where "buf = \<lparr>DataSize = sz, PacketSize = sz, RefCnt = 1, TxEvent = False, DataLength = 0,
    FragmentLength = 0, DestinationAddress = None, SourceAddress = None,
    Packet = Some (fresh_packet (Garbage env (Calls p + 1)) (unat sz))\<rparr>"
  have buf: "buf_ok buf" "RefCnt buf = 1" "DataSize buf = sz"
    using sz by (simp_all add: buf_def buf_ok_def)
  have size: "(if 0 < n \<and> n < EFTP_MINI_PACKET_BUFFER_SIZE then EFTP_MINI_PACKET_BUFFER_SIZE else n) = sz"
    using assms(2) by (simp add: sz_def)
  have "EftpAllocNewPacket env n p =
    (if \<not> AllocPool env (Calls p) then (None, p\<lparr>Calls := Calls p + 1\<rparr>)
     else if \<not> AllocPool env (Calls p + 1) then (None, p\<lparr>Calls := Calls p + 2\<rparr>)
     else (Some (NewBuf p), p\<lparr>Bufs := (Bufs p)(NewBuf p \<mapsto> buf), NewBuf := NewBuf p + 1\<rparr>
       \<lparr>mEftpPacketBufferSize := mEftpPacketBufferSize p + sz, Calls := Calls p + 2\<rparr>))"
    using sz(3) by (simp add: EftpAllocNewPacket_def size Let_def buf_def)
  moreover have "keeps M p (p\<lparr>Bufs := (Bufs p)(NewBuf p \<mapsto> buf), NewBuf := NewBuf p + 1\<rparr>
       \<lparr>mEftpPacketBufferSize := mEftpPacketBufferSize p + sz, Calls := Calls p + 2\<rparr>)"
    using held_new(2) [OF assms(1) buf(1,2)] by (auto simp: keeps_def buf_contents_def)
  moreover have "keeps M p (p\<lparr>Calls := k\<rparr>)" for k by (simp add: keeps_def)
  moreover have "held (p\<lparr>Bufs := (Bufs p)(NewBuf p \<mapsto> buf), NewBuf := NewBuf p + 1\<rparr>
       \<lparr>mEftpPacketBufferSize := mEftpPacketBufferSize p + sz, Calls := Calls p + 2\<rparr>) (add_mset (NewBuf p) M)"
    using held_new(1) [OF assms(1) buf(1,2)] by (simp only: held_statics held_calls)
  ultimately show ?thesis
    using assms(1) held_new [OF assms(1) buf(1,2)] buf(3) sz(2) by (simp add: allocated_def)
qed

lemma EftpAllocPacket_ok:
  assumes "held p M" and "0 < n"
  shows "ok (EftpAllocPacket env n p) (allocated p M n)"
proof -
  let ?p = "p\<lparr>mEftpPacketAllocateNum := mEftpPacketAllocateNum p + 1\<rparr>"
  let ?fs = "if n < EFTP_BUFFER_DIV then FreeSmall ?p else FreeLarge ?p"
  have h: "held ?p M" using assms(1) by simp
  have live: "\<forall>b\<in>set ?fs. \<exists>buf. Bufs ?p b = Some buf" using held_free [OF h] by auto
  obtain r where r: "find_packet (Bufs ?p) n ?fs = Some r"
    "case r of None \<Rightarrow> True | Some b \<Rightarrow> b \<in> set ?fs \<and> (\<exists>buf. Bufs ?p b = Some buf \<and> n \<le> DataSize buf)"
    using find_packet_ok [OF live] by (rule okE)
  have eq: "EftpAllocPacket env n p = Some (case r of
      None \<Rightarrow> EftpAllocNewPacket env n ?p
    | Some b \<Rightarrow> (Some b, (if n < EFTP_BUFFER_DIV then ?p\<lparr>FreeSmall := remove1 b (FreeSmall ?p)\<rparr>
        else ?p\<lparr>FreeLarge := remove1 b (FreeLarge ?p)\<rparr>)\<lparr>mEftpPacketBufferUse := mEftpPacketBufferUse ?p + 1\<rparr>))"
    using r(1) by (simp add: EftpAllocPacket_def Let_def del: find_packet.simps)
  show ?thesis
  proof (cases r)
    case None
    have "keeps M p q = keeps M ?p q" for q by (simp add: keeps_def buf_contents_def)
    then show ?thesis
      using EftpAllocNewPacket_ok [OF h assms(2), of env] eq None by (simp add: allocated_def)
  next
    case (Some b)
    let ?q = "?p\<lparr>FreeSmall := (if n < EFTP_BUFFER_DIV then remove1 b (FreeSmall p) else FreeSmall p),
       FreeLarge := (if n < EFTP_BUFFER_DIV then FreeLarge p else remove1 b (FreeLarge p))\<rparr>"
    have b: "b \<in> set (free_bufs ?p)" using r(2) Some by (auto split: if_splits)
    have d: "distinct (FreeSmall p @ FreeLarge p)" using held_distinct [OF h] by simp
    have "held ?q (add_mset b M)"
      using d r(2) Some by (intro held_taken [OF h b]) (auto split: if_splits)
    moreover have "b \<notin># M" using held_free [OF h b] by simp
    moreover have "keeps M p ?q" by (simp add: keeps_def buf_contents_def)
    ultimately show ?thesis
      using r(2) Some eq by (auto simp: allocated_def keeps_def buf_contents_def)
  qed
qed

lemma EftpCopyPacket_ok:
  assumes "held p M" and "b \<in># M"
  shows "ok (EftpCopyPacket env b p) (\<lambda>r. keeps M p (snd r) \<and> (case fst r of
     None \<Rightarrow> held (snd r) M
   | Some c \<Rightarrow> c \<notin># M \<and> held (snd r) (add_mset c M) \<and>
       (\<exists>buf old pk. Bufs (snd r) c = Some buf \<and> buf_contents p b = Some old \<and>
         FragmentLength buf = FragmentLength old \<and> PacketSize buf = PacketSize old \<and>
         Packet buf = Some pk \<and> (\<forall>opk. Packet old = Some opk \<longrightarrow>
           pk\<lparr>Payload := []\<rparr> = opk\<lparr>Payload := []\<rparr> \<and>
           take (unat (PacketSize old) - 8) (Payload pk) = take (unat (PacketSize old) - 8) (Payload opk)))))"
proof -
  obtain old where old: "Bufs p b = Some old" "buf_ok old" using assms by (rule held_liveE)
  then have pos: "0 < DataSize old" by (auto simp: buf_ok_def word_less_nat_alt)
  obtain new q where q: "EftpAllocPacket env (DataSize old) p = Some (new, q)"
    "allocated p M (DataSize old) (new, q)"
    using EftpAllocPacket_ok [OF assms(1) pos, of env] by (rule okE) auto
  show ?thesis
  proof (cases new)
    case None
    then show ?thesis using q old(1) by (simp add: EftpCopyPacket_def allocated_def)
  next
    case (Some c)
    from q(2) Some obtain buf where c: "c \<notin># M" "held q (add_mset c M)" "Bufs q c = Some buf"
      "DataSize old \<le> DataSize buf" "keeps M p q"
      by (auto simp: allocated_def)
    have bok: "buf_ok buf" using held_bound [OF c(2,3)] by simp
    obtain dst src where pk: "Packet buf = Some dst" "Packet old = Some src"
      "length (Payload dst) = unat (DataSize buf) - 8" "length (Payload src) = unat (DataSize old) - 8"
      using bok old(2) by (auto simp: buf_ok_def)
    define d where "d = take (unat (PacketSize old) - 8) (Payload src) @
      drop (unat (PacketSize old) - 8) (Payload dst)"
    have le: "unat (PacketSize old) - 8 \<le> length (Payload dst)" "unat (PacketSize old) - 8 \<le> length (Payload src)"
      "\<not> unat (PacketSize old) < 8"
      using old(2) c(4) pk(3,4) by (auto simp: buf_ok_def word_le_nat_alt)
    have cp: "copy_packet dst src (unat (PacketSize old)) = Some (src\<lparr>Payload := d\<rparr>)"
      using le by (simp add: copy_packet_def EFTP_HEADER_LEN_def SctCopyMem_spec d_def)
    let ?buf = "buf\<lparr>PacketSize := PacketSize old, DataLength := DataLength old,
      FragmentLength := FragmentLength old, Packet := Some (src\<lparr>Payload := d\<rparr>)\<rparr>"
    have "held (q\<lparr>Bufs := (Bufs q)(c \<mapsto> ?buf)\<rparr>) (add_mset c M)"
    proof (rule held_upd [OF c(2)])
      show "buf_ok ?buf"
        using old(2) bok c(4) pk(3) le by (auto simp: buf_ok_def d_def word_le_nat_alt)
      show "unat (RefCnt ?buf) = count (add_mset c M) c"
        using held_live [OF c(2), of c] c(3) by auto
    qed auto
    moreover have "keeps M p (q\<lparr>Bufs := (Bufs q)(c \<mapsto> ?buf)\<rparr>)"
      using c(1,5) by (auto simp: keeps_def buf_contents_def)
    moreover have "take (unat (PacketSize old) - 8) d = take (unat (PacketSize old) - 8) (Payload src)"
      using le by (simp add: d_def)
    ultimately show ?thesis
      using c(1) old(1) pk(2)
      by (simp add: EftpCopyPacket_def q(1) Some c(3) pk(1) cp buf_contents_def)
  qed
qed

end
