(* ===== verification/Eftp_Cksum.thy ===== *)
theory Eftp_Cksum
  imports Eftp_Packet
begin

text \<open>
  The checksum of the packets is the one's complement sum of their words. A packet that is sealed
  with it checks to zero, and a word changed afterwards shows.
\<close>

section \<open>One's complement addition\<close>

definition ones_sum :: "nat \<Rightarrow> nat" where
  "ones_sum n = (if n = 0 then 0 else (n - 1) mod 65535 + 1)"

definition word_sum :: "u16 list \<Rightarrow> nat" where
  "word_sum ws = sum_list (map unat ws)"

lemma word_sum_simps [simp]:
  "word_sum [] = 0" "word_sum (w # ws) = unat w + word_sum ws"
  "word_sum (us @ vs) = word_sum us + word_sum vs"
  by (simp_all add: word_sum_def)

lemma ones_sum_less: "ones_sum n < 65536"
  using mod_less_divisor [of 65535 "n - 1"] by (auto simp: ones_sum_def simp del: mod_less_divisor)

lemma ones_sum_mod: "ones_sum n mod 65535 = n mod 65535"
proof (cases n)
  case (Suc m)
  have "((m mod 65535) + 1) mod 65535 = (m + 1) mod 65535" by (rule mod_add_left_eq)
  then show ?thesis using Suc by (simp add: ones_sum_def)
qed (simp add: ones_sum_def)

lemma ones_sum_eq_0 [simp]: "ones_sum n = 0 \<longleftrightarrow> n = 0"
  by (simp add: ones_sum_def)

lemma ones_sum_unique:
  assumes "a mod 65535 = b mod 65535" "a = 0 \<longleftrightarrow> b = 0" "a < 65536" "b < 65536"
  shows "a = (b::nat)"
proof -
  have "a mod 65535 = (if a = 65535 then 0 else a)" "b mod 65535 = (if b = 65535 then 0 else b)"
    using assms(3,4) by auto
  then show ?thesis using assms(1,2) by (auto split: if_splits)
qed

lemma ones_sum_full: "ones_sum n = 65535 \<longleftrightarrow> 65535 dvd n \<and> n \<noteq> 0"
proof -
  have "ones_sum n = 65535 \<longleftrightarrow> ones_sum n mod 65535 = 0 \<and> ones_sum n \<noteq> 0"
  proof
    assume "ones_sum n mod 65535 = 0 \<and> ones_sum n \<noteq> 0"
    moreover obtain k where "ones_sum n = 65535 * k"
      using calculation by (auto simp flip: dvd_eq_mod_eq_0)
    ultimately show "ones_sum n = 65535" using ones_sum_less [of n] by (cases k) auto
  qed auto
  then show ?thesis using ones_sum_eq_0 [of n] by (simp only: ones_sum_mod dvd_eq_mod_eq_0)
qed

section \<open>The loop\<close>

lemma low_half [simp]: "unat ((t::u32) AND 0xffff) = unat t mod 65536"
proof -
  have "t AND 0xffff = take_bit 16 t" by (simp add: take_bit_eq_mask mask_eq_exp_minus_1)
  then have "unat (t AND 0xffff) = take_bit 16 (unat t)" by (simp only: unsigned_take_bit_eq)
  then show ?thesis by (simp only: take_bit_eq_mod) simp
qed

lemma unat_drop_16: "unat (drop_bit 16 (t::u32)) = unat t div 65536"
proof -
  have "unat (drop_bit 16 t) = drop_bit 16 (unat t)" by (rule unat_drop_bit_eq)
  then show ?thesis by (simp only: drop_bit_eq_div) simp
qed

lemma high_half [simp]: "(t::u32) AND 0xFFFF0000 = 0 \<longleftrightarrow> unat t < 65536"
proof -
  have "(0xFFFF0000 :: u32) = NOT (mask 16)" by (simp add: mask_eq_exp_minus_1)
  moreover have "t AND NOT (mask 16) = push_bit 16 (drop_bit 16 t)"
    by (rule bit_word_eqI) (auto simp: bit_simps add.commute)
  ultimately have "t AND 0xFFFF0000 = push_bit 16 (drop_bit 16 t)" by (simp only:)
  moreover have "drop_bit 16 (push_bit 16 (drop_bit 16 t)) = drop_bit 16 t"
    by (rule bit_word_eqI) (auto simp: bit_simps dest: bit_imp_le_length)
  ultimately have "t AND 0xFFFF0000 = 0 \<longleftrightarrow> drop_bit 16 t = 0" by (metis drop_bit_of_0 push_bit_of_0)
  also have "\<dots> \<longleftrightarrow> unat t div 65536 = 0" by (simp flip: unat_drop_16 add: unat_eq_zero)
  also have "\<dots> \<longleftrightarrow> unat t < 65536" by (simp add: div_eq_0_iff)
  finally show ?thesis .
qed

lemma cksum_step_spec:
  assumes "unat s = ones_sum n"
  shows "unat (cksum_step w s) = ones_sum (n + unat w)"
proof -
  have s: "unat s < 65536" using assms ones_sum_less by simp
  have w: "unat (ucast w :: u32) = unat w" using unsigned_less [of w, where 'a = nat] by (simp add: unsigned_ucast_eq take_bit_nat_eq_self)
  have wl: "unat w < 65536" using unsigned_less [of w, where 'a = nat] by simp
  let ?t = "s + ucast w"
  have t: "unat ?t = unat s + unat w"
    using s wl w by (subst unat_plus_simple [THEN iffD1]) (auto simp: word_le_nat_alt unat_word_ariths)
  have r: "unat (cksum_step w s) = (if unat ?t < 65536 then unat ?t else unat ?t - 65535)"
  proof (cases "unat ?t < 65536")
    case False
    then have "unat ?t div 65536 = 1" "unat ?t mod 65536 = unat ?t - 65536" 
      using t s wl by (auto simp: mod_if le_mod_geq)
    then have "unat (drop_bit 16 ?t + (?t AND 0xffff)) = unat ?t - 65535"
      using False t s wl by (simp add: unat_word_ariths unat_drop_16)
    then show ?thesis using False by (simp add: cksum_step_def Let_def)
  qed (simp add: cksum_step_def Let_def)
  show ?thesis
  proof (rule ones_sum_unique)
    have "unat (cksum_step w s) mod 65535 = unat ?t mod 65535"
      unfolding r using le_mod_geq [of 65535 "unat ?t"] by auto
    also have "\<dots> = (ones_sum n mod 65535 + unat w) mod 65535"
      using t assms by (simp add: mod_add_left_eq)
    also have "\<dots> = ones_sum (n + unat w) mod 65535" by (simp add: ones_sum_mod mod_add_left_eq)
    finally show "unat (cksum_step w s) mod 65535 = ones_sum (n + unat w) mod 65535" .
    show "unat (cksum_step w s) = 0 \<longleftrightarrow> ones_sum (n + unat w) = 0"
      unfolding r using t assms ones_sum_less [of n] by auto
    show "unat (cksum_step w s) < 65536" unfolding r using t s wl by auto
    show "ones_sum (n + unat w) < 65536" by (rule ones_sum_less)
  qed
qed

lemma cksum_loop_spec:
  assumes "k \<le> length ws" and "unat s = ones_sum n"
  shows "\<exists>r. cksum_loop ws k s = Some r \<and> unat r = ones_sum (n + word_sum (take k ws))"
  using assms
proof (induction ws k s arbitrary: n rule: cksum_loop.induct)
  case (3 w ws k s)
  from 3(1) [of "n + unat w"] 3(2,3) cksum_step_spec [of s n w] show ?case by (simp add: ac_simps)
qed simp_all

section \<open>Byte order\<close>

lemma bit_NTOHS: "bit (NTOHS v) n \<longleftrightarrow> (if n < 8 then bit v (n + 8) else n < 16 \<and> bit v (n - 8))"
proof -
  have m: "(0xff00 :: u16) = push_bit 8 (mask 8)" "(0xff :: u16) = mask 8"
    by (simp_all add: mask_eq_exp_minus_1 push_bit_eq_mult)
  show ?thesis
    unfolding NTOHS_def m using bit_imp_le_length [of v "n + 8"] bit_imp_le_length [of v "n - 8"]
    by (auto simp: bit_simps add.commute)
qed

lemma NTOHS_invol [simp]: "NTOHS (NTOHS v) = v"
  by (rule bit_word_eqI) (auto simp: bit_NTOHS)

lemma NTOHS_inject [simp]: "NTOHS v = NTOHS w \<longleftrightarrow> v = w"
  by (metis NTOHS_invol)

lemma NTOHS_0 [simp]: "NTOHS 0 = 0"
  by (simp add: NTOHS_def)

lemma NTOHS_eq_0 [simp]: "NTOHS v = 0 \<longleftrightarrow> v = 0"
  by (metis NTOHS_0 NTOHS_invol)

section \<open>The checksum\<close>

lemma EftpCkSum_spec:
  assumes "k \<le> length ws"
  shows "\<exists>c. EftpCkSum ws k = Some c \<and> unat (NTOHS c) = 65535 - ones_sum (word_sum (take k ws))"
proof -
  obtain r where r: "cksum_loop ws k 0 = Some r" "unat r = ones_sum (word_sum (take k ws))"
    using cksum_loop_spec [OF assms, of 0 0] by (auto simp: ones_sum_def)
  have l: "unat r < 65536" using r(2) ones_sum_less by simp
  have "unat (drop_bit 16 r) = 0" using l by (simp add: unat_drop_16)
  then have d: "drop_bit 16 r = 0" by (simp add: unat_eq_zero)
  have a: "r AND 0xffff = r" using l by (simp add: word_unat_eq_iff)
  have e: "EftpCkSum ws k = Some (NTOHS (ucast (NOT r)))"
    by (simp add: EftpCkSum_def r(1) Let_def d a)
  have "ucast (NOT r) = NOT (ucast r :: u16)"
    by (rule bit_word_eqI) (simp add: bit_simps)
  moreover have "unat (ucast r :: u16) = unat r" using l by (simp add: unsigned_ucast_eq take_bit_nat_eq_self)
  moreover have "unat (NOT x) = 65535 - unat x" for x :: u16
  proof -
    have "NOT x = - 1 - x" by (simp add: not_eq_complement)
    moreover have "unat (- 1 :: u16) = 65535"
      using unsigned_minus_1_eq_mask [where 'a = nat and 'b = 16] by (simp add: mask_eq_exp_minus_1)
    ultimately show ?thesis by (simp add: unat_sub word_order.extremum)
  qed
  ultimately show ?thesis using e r(2) by simp
qed

lemma EftpCkSum_0:
  assumes "k \<le> length ws"
  shows "EftpCkSum ws k = Some 0 \<longleftrightarrow> 65535 dvd word_sum (take k ws) \<and> word_sum (take k ws) \<noteq> 0"
proof -
  obtain c where c: "EftpCkSum ws k = Some c" "unat (NTOHS c) = 65535 - ones_sum (word_sum (take k ws))"
    using EftpCkSum_spec [OF assms] by blast
  have "c = 0 \<longleftrightarrow> unat (NTOHS c) = 0" by (simp add: unat_eq_zero)
  also have "\<dots> \<longleftrightarrow> ones_sum (word_sum (take k ws)) = 65535" using c(2) ones_sum_less [of "word_sum (take k ws)"] by simp linarith
  finally show ?thesis using c(1) by (simp add: ones_sum_full)
qed

section \<open>Sealed packets\<close>

text \<open>The packet the builders send: the header over the data, with its checksum.\<close>

definition checks :: "EFI_EFTP_PACKET \<Rightarrow> bool" where
  "checks pk \<longleftrightarrow> EftpCkSum (packet_words pk) ((8 + length (Payload pk)) div 2) = Some 0"

definition sealed :: "nat \<Rightarrow> u16 \<Rightarrow> u16 \<Rightarrow> u8 list \<Rightarrow> EFI_EFTP_PACKET" where
  "sealed Len Code Var d =
     (let pk = \<lparr>HdrLength = NTOHS (of_nat Len), CheckSum = 0, OpCode = NTOHS Code, CodeVar = Var,
                Payload = d\<rparr>
      in pk\<lparr>CheckSum := NTOHS (the (EftpCkSum (packet_words pk) (Len div 2)))\<rparr>)"

lemma sealed_fields [simp]:
  "HdrLength (sealed Len Code Var d) = NTOHS (of_nat Len)"
  "OpCode (sealed Len Code Var d) = NTOHS Code"
  "CodeVar (sealed Len Code Var d) = Var"
  "Payload (sealed Len Code Var d) = d"
  by (simp_all add: sealed_def Let_def)

lemma length_payload_words [simp]: "length (payload_words d) = length d div 2"
  by (induction d rule: payload_words.induct) auto

lemma length_packet_words [simp]: "length (packet_words pk) = (8 + length (Payload pk)) div 2"
  by (simp add: packet_words_def)

lemma payload_words_take:
  "n \<le> length d \<Longrightarrow> payload_words (take n d) = take (n div 2) (payload_words d)"
proof (induction d arbitrary: n rule: payload_words.induct)
  case (1 a b d)
  consider "n = 0" | "n = 1" | m where "n = Suc (Suc m)" by (metis One_nat_def not0_implies_Suc)
  then show ?case using 1 by cases auto
qed (simp_all add: take_Cons')

text \<open>Only the words of the packet that is sent are summed.\<close>

lemma EftpCkSum_take: "k \<le> length ws \<Longrightarrow> EftpCkSum ws k = EftpCkSum (take k ws) k"
proof -
  have "cksum_loop ws k s = cksum_loop (take k ws) k s" if "k \<le> length ws" for s
    using that by (induction ws k s rule: cksum_loop.induct) auto
  then show "k \<le> length ws \<Longrightarrow> ?thesis" by (simp add: EftpCkSum_def)
qed

lemma packet_words_take:
  assumes "n \<le> length (Payload pk)"
  shows "packet_words (pk\<lparr>Payload := take n (Payload pk)\<rparr>) = take ((8 + n) div 2) (packet_words pk)"
proof -
  have "(8 + n) div 2 = Suc (Suc (Suc (Suc (n div 2))))" by simp
  then show ?thesis using assms by (simp add: packet_words_def payload_words_take del: One_nat_def)
qed

lemma put_header_spec:
  assumes "8 \<le> Len" and "Len \<le> 8 + length (Payload pk)"
  shows "\<exists>pk'. put_header Len Code Var (Len div 2) pk = Some pk' \<and> Payload pk' = Payload pk \<and>
    pk'\<lparr>Payload := take (Len - 8) (Payload pk)\<rparr> = sealed Len Code Var (take (Len - 8) (Payload pk))"
proof -
  let ?pk = "pk\<lparr>OpCode := NTOHS Code, CodeVar := Var, HdrLength := NTOHS (of_nat Len), CheckSum := 0\<rparr>"
  have k: "Len div 2 \<le> length (packet_words ?pk)" using assms by simp
  obtain c where c: "EftpCkSum (packet_words ?pk) (Len div 2) = Some c"
    using EftpCkSum_spec [OF k] by blast
  have "packet_words (?pk\<lparr>Payload := take (Len - 8) (Payload ?pk)\<rparr>) =
      take ((8 + (Len - 8)) div 2) (packet_words ?pk)"
    using assms by (intro packet_words_take) simp
  also have "8 + (Len - 8) = Len" using assms by simp
  finally have t: "packet_words (?pk\<lparr>Payload := take (Len - 8) (Payload ?pk)\<rparr>) =
      take (Len div 2) (packet_words ?pk)" .
  have "EftpCkSum (packet_words (?pk\<lparr>Payload := take (Len - 8) (Payload ?pk)\<rparr>)) (Len div 2) = Some c"
    using EftpCkSum_take [OF k] c by (simp only: t)
  then show ?thesis
    using c by (cases pk) (simp add: put_header_def sealed_def Let_def)
qed

lemma word_sum_sealed:
  "word_sum (packet_words (pk\<lparr>CheckSum := c\<rparr>)) = unat c + word_sum (packet_words (pk\<lparr>CheckSum := 0\<rparr>))"
  "word_sum (packet_words (pk\<lparr>CodeVar := v\<rparr>)) = unat v + word_sum (packet_words (pk\<lparr>CodeVar := 0\<rparr>))"
  by (simp_all add: packet_words_def)

lemma checks_iff:
  "checks pk \<longleftrightarrow> 65535 dvd word_sum (packet_words pk) \<and> word_sum (packet_words pk) \<noteq> 0"
proof -
  have "take (4 + length (Payload pk) div 2) (packet_words pk) = packet_words pk" by simp
  then show ?thesis
    unfolding checks_def using EftpCkSum_0 [of "(8 + length (Payload pk)) div 2" "packet_words pk"] by simp
qed

lemma sealed_sum:
  assumes "Code \<noteq> 0" and "Len = 8 + length d"
  shows "\<exists>k>0. word_sum (packet_words (sealed Len Code Var d)) = 65535 * k"
proof -
  let ?pk = "\<lparr>HdrLength = NTOHS (of_nat Len), CheckSum = 0, OpCode = NTOHS Code, CodeVar = Var, Payload = d\<rparr>"
  have k: "Len div 2 \<le> length (packet_words ?pk)" using assms(2) by simp
  obtain c where c: "EftpCkSum (packet_words ?pk) (Len div 2) = Some c"
    "unat (NTOHS c) = 65535 - ones_sum (word_sum (take (Len div 2) (packet_words ?pk)))"
    using EftpCkSum_spec [OF k] by blast
  let ?S = "word_sum (packet_words ?pk)"
  have "take (Len div 2) (packet_words ?pk) = packet_words ?pk" using assms(2) by simp
  then have c2: "unat (NTOHS c) = 65535 - ones_sum ?S" using c(2) by simp
  have s: "sealed Len Code Var d = ?pk\<lparr>CheckSum := NTOHS c\<rparr>" by (simp add: sealed_def Let_def c(1))
  have sum: "word_sum (packet_words (sealed Len Code Var d)) = 65535 - ones_sum ?S + ?S"
    using word_sum_sealed(1) [of "NTOHS c" ?pk] by (simp add: s c2)
  have S: "0 < ?S"
    using assms(1) unat_gt_0 [of "NTOHS Code"] by (simp add: packet_words_def)
  have "(65535 - ones_sum ?S + ?S) mod 65535 = (65535 - ones_sum ?S + ones_sum ?S) mod 65535"
    by (rule mod_add_cong) (simp_all add: ones_sum_mod)
  also have "\<dots> = 0" using ones_sum_less [of ?S] by simp
  finally obtain k where "65535 - ones_sum ?S + ?S = 65535 * k" by (auto simp: mod_eq_0_iff_dvd)
  then show ?thesis using sum S by (cases k) auto
qed

lemma sealed_checks: "Code \<noteq> 0 \<Longrightarrow> Len = 8 + length d \<Longrightarrow> checks (sealed Len Code Var d)"
  using sealed_sum [of Code Len d Var] by (auto simp: checks_iff)

text \<open>A header word that is set afterwards: only the two representations of zero go unnoticed.\<close>

lemma late_word_checks:
  assumes "Code \<noteq> 0" and "Len = 8 + length d"
  shows "checks ((sealed Len Code 0 d)\<lparr>CodeVar := v\<rparr>) \<longleftrightarrow> v = 0 \<or> v = 0xffff"
proof -
  obtain k where k: "k > 0" "word_sum (packet_words (sealed Len Code 0 d)) = 65535 * k"
    using sealed_sum [OF assms] by blast
  have e: "(sealed Len Code 0 d)\<lparr>CodeVar := 0\<rparr> = sealed Len Code 0 d"
    by (simp add: sealed_def Let_def)
  have "word_sum (packet_words ((sealed Len Code 0 d)\<lparr>CodeVar := v\<rparr>)) = unat v + 65535 * k"
    using k(2) word_sum_sealed(2) [of v "sealed Len Code 0 d"] by (simp only: e)
  then have "checks ((sealed Len Code 0 d)\<lparr>CodeVar := v\<rparr>) \<longleftrightarrow> 65535 dvd unat v"
    using k(1) dvd_add_left_iff [of 65535 "65535 * k" "unat v"] by (simp add: checks_iff)
  also have "\<dots> \<longleftrightarrow> unat v = 0 \<or> unat v = 65535"
  proof
    assume "65535 dvd unat v"
    then obtain j where j: "unat v = 65535 * j" by (rule dvdE)
    then show "unat v = 0 \<or> unat v = 65535"
      using unsigned_less [of v, where 'a = nat] by (cases j) auto
  qed auto
  also have "\<dots> \<longleftrightarrow> v = 0 \<or> v = 0xffff" 
    by (simp add: word_eq_iff_unsigned [where ?'a = nat])
  finally show ?thesis .
qed

end
