(* ===== verification/Eftp_Mem.thy ===== *)
theory Eftp_Mem
  imports Eftp_Pool Eftp_Cksum
begin

text \<open>
  The memory of a session: its references to packet buffers, the packets that are pending, and what
  every routine of \<open>EftpPacket.c\<close> that builds or sends packets does to them. \<open>mem Q s L\<close> says that
  the references are counted, \<open>L\<close> being those in local variables, that the pending list is what
  the network holds, and that every packet that is sent or kept satisfies \<open>Q\<close>.
\<close>

section \<open>The references of a session\<close>

definition opt_ref :: "nat option \<Rightarrow> nat multiset" where
  "opt_ref b = (case b of None \<Rightarrow> {#} | Some b \<Rightarrow> {#b#})"

lemma opt_ref_simps [simp]: "opt_ref None = {#}" "opt_ref (Some b) = {#b#}"
  by (simp_all add: opt_ref_def)

definition last_data :: "EFTP_IO_PRIVATE \<Rightarrow> nat option" where
  "last_data s = (case WrqState s of None \<Rightarrow> None | Some l \<Rightarrow> l)"

definition refs :: "EFTP_IO_PRIVATE \<Rightarrow> nat multiset" where
  "refs s = mset (PendingPacketList s) + opt_ref (Request s) + opt_ref (LastCtrl s) +
     opt_ref (last_data s)"

definition wire_of :: "EFTP_POOL \<Rightarrow> nat \<Rightarrow> EFI_EFTP_PACKET option" where
  "wire_of p b = Option.bind (Bufs p b) on_wire"

definition mem :: "(EFI_EFTP_PACKET \<Rightarrow> bool) \<Rightarrow> EFTP_IO_PRIVATE \<Rightarrow> nat multiset \<Rightarrow> bool" where
  "mem Q s L \<longleftrightarrow> held (Pkts s) (refs s + L) \<and> InFlight s = PendingPacketList s \<and>
     distinct (PendingPacketList s) \<and>
     NPendingPacket s = of_nat (length (PendingPacketList s)) \<and>
     (\<forall>pk\<in>set (Wire s). Q pk) \<and>
     (\<forall>b\<in>#refs s. \<forall>pk. wire_of (Pkts s) b = Some pk \<longrightarrow> Q pk)"

lemma wire_of_buf_contents: "wire_of p b = Option.bind (buf_contents p b) on_wire"
  by (cases "Bufs p b") (simp_all add: wire_of_def buf_contents_def on_wire_def)

lemma keeps_wire: "keeps M p q \<Longrightarrow> b \<in># M \<Longrightarrow> wire_of q b = wire_of p b"
  by (simp add: keeps_def wire_of_buf_contents)

lemma wire_of_calls [simp]: "wire_of (p\<lparr>Calls := n\<rparr>) b = wire_of p b"
  by (simp add: wire_of_def)

text \<open>Fields of the session the memory does not depend on.\<close>

lemma refs_upd [simp]:
  "refs (s\<lparr>Pkts := p\<rparr>) = refs s" "refs (s\<lparr>Result := r\<rparr>) = refs s" "refs (s\<lparr>Wire := w\<rparr>) = refs s"
  "refs (s\<lparr>InFlight := i\<rparr>) = refs s" "refs (s\<lparr>NPendingPacket := n\<rparr>) = refs s"
  "refs (s\<lparr>State := st\<rparr>) = refs s" "refs (s\<lparr>TimeoutEvent := t\<rparr>) = refs s"
  "refs (s\<lparr>Token := tok\<rparr>) = refs s" "refs (s\<lparr>RrqState := rr\<rparr>) = refs s"
  "refs (s\<lparr>NRetry := u\<rparr>) = refs s" "refs (s\<lparr>NextBlkNo := u\<rparr>) = refs s"
  "refs (s\<lparr>LastBlkNo := u\<rparr>) = refs s" "refs (s\<lparr>Eof := e\<rparr>) = refs s"
  "refs (s\<lparr>RcvdPkts := u\<rparr>) = refs s" "refs (s\<lparr>DroppedPkts := u\<rparr>) = refs s"
  "refs (s\<lparr>Timeouts := u\<rparr>) = refs s" "refs (s\<lparr>Receiving := e\<rparr>) = refs s"
  "refs (s\<lparr>Recycled := n'\<rparr>) = refs s" "refs (s\<lparr>Signals := n'\<rparr>) = refs s"
  "refs (s\<lparr>SynFinished := e\<rparr>) = refs s" "refs (s\<lparr>UserEvtFired := e\<rparr>) = refs s"
  "refs (s\<lparr>RxEvent := e\<rparr>) = refs s" "refs (s\<lparr>Opt := o'\<rparr>) = refs s" "refs (s\<lparr>Timeout := v\<rparr>) = refs s"
  "refs (s\<lparr>Configured := e\<rparr>) = refs s" "refs (s\<lparr>MaxNRetry := u\<rparr>) = refs s"
  by (simp_all add: refs_def last_data_def)

lemma mem_upd [simp]:
  "mem Q (s\<lparr>Result := r\<rparr>) L = mem Q s L" "mem Q (s\<lparr>State := st\<rparr>) L = mem Q s L"
  "mem Q (s\<lparr>TimeoutEvent := t\<rparr>) L = mem Q s L" "mem Q (s\<lparr>Token := tok\<rparr>) L = mem Q s L"
  "mem Q (s\<lparr>RrqState := rr\<rparr>) L = mem Q s L" "mem Q (s\<lparr>NRetry := u\<rparr>) L = mem Q s L"
  "mem Q (s\<lparr>NextBlkNo := u\<rparr>) L = mem Q s L" "mem Q (s\<lparr>LastBlkNo := u\<rparr>) L = mem Q s L"
  "mem Q (s\<lparr>Eof := e\<rparr>) L = mem Q s L" "mem Q (s\<lparr>RcvdPkts := u\<rparr>) L = mem Q s L"
  "mem Q (s\<lparr>DroppedPkts := u\<rparr>) L = mem Q s L" "mem Q (s\<lparr>Timeouts := u\<rparr>) L = mem Q s L"
  "mem Q (s\<lparr>Receiving := e\<rparr>) L = mem Q s L" "mem Q (s\<lparr>Recycled := n\<rparr>) L = mem Q s L"
  "mem Q (s\<lparr>Signals := n\<rparr>) L = mem Q s L" "mem Q (s\<lparr>SynFinished := e\<rparr>) L = mem Q s L"
  "mem Q (s\<lparr>UserEvtFired := e\<rparr>) L = mem Q s L" "mem Q (s\<lparr>RxEvent := e\<rparr>) L = mem Q s L"
  "mem Q (s\<lparr>Opt := o'\<rparr>) L = mem Q s L" "mem Q (s\<lparr>Timeout := v\<rparr>) L = mem Q s L"
  "mem Q (s\<lparr>Configured := e\<rparr>) L = mem Q s L" "mem Q (s\<lparr>MaxNRetry := u\<rparr>) L = mem Q s L"
  by (simp_all add: mem_def)

lemma mem_tick [simp]: "mem Q (tick s) L = mem Q s L"
  by (simp add: mem_def tick_def)

lemma mem_held: "mem Q s L \<Longrightarrow> held (Pkts s) (refs s + L)"
  by (simp add: mem_def)

lemma mem_count:
  assumes "mem Q s L"
  shows "count (refs s) b \<le> 4"
proof -
  have "count (mset (PendingPacketList s)) b \<le> 1"
    using assms by (simp add: mem_def distinct_count_atmost_1)
  moreover have o: "count (opt_ref x) b \<le> 1" for x by (cases x) auto
  ultimately show ?thesis
    using o [of "Request s"] o [of "LastCtrl s"] o [of "last_data s"]
    unfolding refs_def count_union by linarith
qed

lemma mem_weaken: "mem Q s L \<Longrightarrow> (\<And>pk. Q pk \<Longrightarrow> R pk) \<Longrightarrow> mem R s L"
  by (auto simp: mem_def)

text \<open>A new pool with the same references.\<close>

lemma mem_pool:
  assumes "mem Q s L" and "held p (refs s + N)" and "keeps (refs s) (Pkts s) p"
  shows "mem Q (s\<lparr>Pkts := p\<rparr>) N"
  using assms by (auto simp: mem_def keeps_wire)

section \<open>What a routine leaves alone\<close>

text \<open>The routines that send packets only touch the pool, the pending packets, the result and the
  last control packet.\<close>

definition touch :: "EFTP_IO_PRIVATE \<Rightarrow> EFTP_IO_PRIVATE \<Rightarrow> bool" where
  "touch s s' \<longleftrightarrow> s' = s\<lparr>Result := Result s', LastCtrl := LastCtrl s', NPendingPacket := NPendingPacket s',
     PendingPacketList := PendingPacketList s', Pkts := Pkts s', InFlight := InFlight s', Wire := Wire s'\<rparr>"

lemma touchI:
  "touch s (s\<lparr>Result := r, LastCtrl := c, NPendingPacket := n, PendingPacketList := l, Pkts := p,
     InFlight := i, Wire := w\<rparr>)"
  by (simp add: touch_def)

lemma touch_refl [simp]: "touch s s"
  by (simp add: touch_def)

lemma touch_upd [simp]:
  "touch s (s'\<lparr>Result := r\<rparr>) = touch s s'" "touch s (s'\<lparr>LastCtrl := c\<rparr>) = touch s s'"
  "touch s (s'\<lparr>NPendingPacket := n\<rparr>) = touch s s'" "touch s (s'\<lparr>PendingPacketList := l\<rparr>) = touch s s'"
  "touch s (s'\<lparr>Pkts := p\<rparr>) = touch s s'" "touch s (s'\<lparr>InFlight := l\<rparr>) = touch s s'"
  "touch s (s'\<lparr>Wire := w\<rparr>) = touch s s'" "touch s (tick s') = touch s s'"
  by (cases s; cases s'; auto simp: touch_def tick_def)+

lemma touch_trans: "touch s s' \<Longrightarrow> touch s' s'' \<Longrightarrow> touch s s''"
  by (cases s; cases s'; cases s''; simp add: touch_def)

lemma touch_sym: "touch s s' \<Longrightarrow> touch s' s"
  by (cases s; cases s'; simp add: touch_def)

lemma touch_fields:
  assumes "touch s s'"
  shows "Token s' = Token s" "ConfigData s' = ConfigData s" "Configured s' = Configured s"
    "UserEvtFired s' = UserEvtFired s" "SynFinished s' = SynFinished s" "MaxNRetry s' = MaxNRetry s"
    "Opt s' = Opt s" "State s' = State s" "RxEvent s' = RxEvent s" "NRetry s' = NRetry s"
    "Request s' = Request s" "NextBlkNo s' = NextBlkNo s" "Eof s' = Eof s" "LastBlkNo s' = LastBlkNo s"
    "TimeoutEvent s' = TimeoutEvent s" "Timeout s' = Timeout s" "RrqState s' = RrqState s"
    "WrqState s' = WrqState s" "Receiving s' = Receiving s" "Signals s' = Signals s"
    "Recycled s' = Recycled s"
  using assms by (cases s; cases s'; simp add: touch_def)+

lemma touch_last_data: "touch s s' \<Longrightarrow> last_data s' = last_data s"
  by (simp add: last_data_def touch_fields)

section \<open>Releasing\<close>

lemma release_ok:
  assumes "held (Pkts s) (add_mset b M)"
  shows "ok (release b s) (\<lambda>s'. \<exists>p. s' = s\<lparr>Pkts := p\<rparr> \<and> held p M \<and> keeps M (Pkts s) p \<and>
    Calls p = Calls (Pkts s))"
  using EftpReleasePacket_ok [OF assms] unfolding release_def by (auto elim!: okE)

text \<open>A local reference is given up.\<close>

lemma release_local:
  assumes "mem Q s (add_mset b L)"
  shows "ok (release b s) (\<lambda>s'. \<exists>p. s' = s\<lparr>Pkts := p\<rparr> \<and> mem Q s' L \<and> keeps (refs s + L) (Pkts s) p)"
proof -
  have "held (Pkts s) (add_mset b (refs s + L))" using mem_held [OF assms] by simp
  from release_ok [OF this] show ?thesis
  proof (rule ok_mono)
    fix s' assume "\<exists>p. s' = s\<lparr>Pkts := p\<rparr> \<and> held p (refs s + L) \<and> keeps (refs s + L) (Pkts s) p \<and>
      Calls p = Calls (Pkts s)"
    then obtain p where p: "s' = s\<lparr>Pkts := p\<rparr>" "held p (refs s + L)" "keeps (refs s + L) (Pkts s) p"
      by blast
    then show "\<exists>p. s' = s\<lparr>Pkts := p\<rparr> \<and> mem Q s' L \<and> keeps (refs s + L) (Pkts s) p"
      using mem_pool [OF assms p(2)] keeps_subset [OF p(3), of "refs s"] by auto
  qed
qed

section \<open>Sending\<close>

definition network_ok :: "eftp_env \<Rightarrow> bool" where
  "network_ok env \<longleftrightarrow> (\<forall>t buf. Transmit env t buf \<noteq> EFI_ACCESS_DENIED) \<and> (\<forall>t. AllocAddress env t)"

lemma wire_of_live:
  assumes "held p M" and "b \<in># M"
  shows "\<exists>pk. wire_of p b = Some pk"
proof -
  obtain buf where "Bufs p b = Some buf" "buf_ok buf" using assms by (rule held_liveE)
  then show ?thesis by (auto simp: wire_of_def on_wire_def buf_ok_def)
qed

lemma EftpSendPacket_ok:
  assumes m: "mem Q s L" and b: "b \<in># refs s + L" "b \<notin> set (PendingPacketList s)" "count L b \<le> 4"
    and env: "network_ok env" and Q: "\<And>pk. wire_of (Pkts s) b = Some pk \<Longrightarrow> Q pk"
  shows "ok (EftpSendPacket env b s) (\<lambda>(st, s'). touch s s' \<and> mem Q s' L \<and> LastCtrl s' = LastCtrl s \<and>
    keeps (refs s + L) (Pkts s) (Pkts s') \<and>
    (if EFI_ERROR st
     then Wire s' = Wire s \<and> Result s' = EFI_DEVICE_ERROR \<and> PendingPacketList s' = PendingPacketList s
     else Wire s' = Wire s @ [the (wire_of (Pkts s) b)] \<and> Result s' = Result s \<and>
       PendingPacketList s' = PendingPacketList s @ [b]))"
proof -
  have h: "held (Pkts s) (refs s + L)" by (rule mem_held [OF m])
  have "count (refs s + L) b < 2 ^ 32 - 1" using mem_count [OF m, of b] b(3) by simp
  then obtain p where p: "EftpHoldPacket b (Pkts s) = Some p" "held p (add_mset b (refs s + L))"
    "keeps (refs s + L) (Pkts s) p" "Calls p = Calls (Pkts s)"
    using EftpHoldPacket_ok [OF h b(1)] by (auto elim: okE)
  obtain pk where pk: "wire_of (Pkts s) b = Some pk" using wire_of_live [OF h b(1)] by blast
  then have pk': "wire_of p b = Some pk" using keeps_wire [OF p(3) b(1)] by simp
  then obtain buf where buf: "Bufs p b = Some buf" "on_wire buf = Some pk"
    by (auto simp: wire_of_def bind_eq_Some_conv)
  define st where "st = Transmit env (Calls (Pkts s)) buf"
  have st: "st \<noteq> EFI_ACCESS_DENIED" using env by (simp add: st_def network_ok_def)
  let ?p = "p\<lparr>Calls := Suc (Calls (Pkts s))\<rparr>"
  let ?s = "s\<lparr>Pkts := ?p, NPendingPacket := NPendingPacket s + 1, PendingPacketList := PendingPacketList s @ [b]\<rparr>"
  have r: "refs ?s = add_mset b (refs s)" by (simp add: refs_def last_data_def)
  have eq: "EftpSendPacket env b s =
    (if EFI_ERROR st then do {
       s' \<leftarrow> release b (?s\<lparr>NPendingPacket := NPendingPacket s, PendingPacketList := PendingPacketList s\<rparr>);
       Some (st, s'\<lparr>Result := EFI_DEVICE_ERROR\<rparr>) }
     else Some (st, ?s\<lparr>InFlight := InFlight s @ [b], Wire := Wire s @ [pk]\<rparr>))"
    using b(2) st p(4)
    by (simp add: EftpSendPacket_def p(1) EntryInList_def Let_def buf tick_def remove1_append flip: st_def)
  show ?thesis
  proof (cases "EFI_ERROR st")
    case True
    let ?t = "?s\<lparr>NPendingPacket := NPendingPacket s, PendingPacketList := PendingPacketList s\<rparr>"
    have "held (Pkts ?t) (add_mset b (refs s + L))" using p(2) by simp
    from release_ok [OF this] obtain q where q: "release b ?t = Some (?t\<lparr>Pkts := q\<rparr>)" "held q (refs s + L)"
      "keeps (refs s + L) ?p q" by (auto elim!: okE)
    have k: "keeps (refs s + L) (Pkts s) q"
      using p(3) q(3) by (auto simp: keeps_def)
    then have "mem Q (s\<lparr>Pkts := q\<rparr>) L"
      using mem_pool [OF m q(2)] keeps_subset [of "refs s + L" "Pkts s" q "refs s"] by simp
    then have "mem Q (?t\<lparr>Pkts := q\<rparr>) L" by (simp add: mem_def refs_def last_data_def)
    then show ?thesis using True eq q(1) k by simp
  next
    case False
    let ?t = "?s\<lparr>InFlight := InFlight s @ [b], Wire := Wire s @ [pk]\<rparr>"
    have rt: "refs ?t = add_mset b (refs s)" by (simp add: refs_def last_data_def)
    have "held (Pkts ?t) (refs ?t + L)" using p(2) rt by simp
    moreover have "\<forall>c\<in>#refs ?t. \<forall>pk. wire_of (Pkts ?t) c = Some pk \<longrightarrow> Q pk"
    proof (intro ballI allI impI)
      fix c pk' assume c: "c \<in># refs ?t" "wire_of (Pkts ?t) c = Some pk'"
      then have "c = b \<or> c \<in># refs s" using rt by simp
      then show "Q pk'"
      proof
        assume "c = b"
        then show ?thesis using c(2) pk' pk Q by simp
      next
        assume "c \<in># refs s"
        then show ?thesis using m c(2) keeps_wire [OF p(3), of c] by (auto simp: mem_def)
      qed
    qed
    ultimately have "mem Q ?t L"
      using m b(2) Q pk by (auto simp: mem_def)
    moreover have "keeps (refs s + L) (Pkts s) ?p" using p(3) by (simp add: keeps_def)
    ultimately show ?thesis using False eq pk by simp
  qed
qed

text \<open>A packet that was sent becomes the last control packet.\<close>

lemma keep_ctrl_ok:
  assumes m: "mem Q s (add_mset b L)" and Q: "\<And>pk. wire_of (Pkts s) b = Some pk \<Longrightarrow> Q pk"
  shows "ok (keep_ctrl b s) (\<lambda>s'. \<exists>p. s' = s\<lparr>Pkts := p, LastCtrl := Some b\<rparr> \<and> mem Q s' L \<and>
    wire_of p b = wire_of (Pkts s) b \<and> keeps (opt_ref (Request s) + opt_ref (last_data s)) (Pkts s) p)"
proof -
  let ?M = "refs (s\<lparr>LastCtrl := Some b\<rparr>) + L"
  have R: "refs s = refs (s\<lparr>LastCtrl := None\<rparr>) + opt_ref (LastCtrl s)"
    "refs (s\<lparr>LastCtrl := Some b\<rparr>) = add_mset b (refs (s\<lparr>LastCtrl := None\<rparr>))"
    "refs (s\<lparr>Pkts := p, LastCtrl := Some b\<rparr>) = refs (s\<lparr>LastCtrl := Some b\<rparr>)" for p
    by (simp_all add: refs_def last_data_def)
  have h: "held (Pkts s) (?M + opt_ref (LastCtrl s))" using mem_held [OF m] R by (simp add: ac_simps)
  have "ok (release_opt (LastCtrl s) s) (\<lambda>s'. \<exists>p. s' = s\<lparr>Pkts := p\<rparr> \<and> held p ?M \<and> keeps ?M (Pkts s) p)"
  proof (cases "LastCtrl s")
    case None
    then show ?thesis using h by (auto simp: release_opt_def intro!: exI [of _ "Pkts s"])
  next
    case (Some c)
    then have "held (Pkts s) (add_mset c ?M)" using h by simp
    from release_ok [OF this] show ?thesis
      using Some by (auto simp: release_opt_def elim!: ok_mono)
  qed
  then obtain p where p: "release_opt (LastCtrl s) s = Some (s\<lparr>Pkts := p\<rparr>)" "held p ?M" "keeps ?M (Pkts s) p"
    by (auto elim!: okE)
  have "\<forall>c\<in>#refs (s\<lparr>LastCtrl := Some b\<rparr>). \<forall>pk. wire_of p c = Some pk \<longrightarrow> Q pk"
  proof (intro ballI allI impI)
    fix c pk assume c: "c \<in># refs (s\<lparr>LastCtrl := Some b\<rparr>)" "wire_of p c = Some pk"
    then have w: "wire_of (Pkts s) c = Some pk" using keeps_wire [OF p(3), of c] by simp
    show "Q pk"
    proof (cases "c = b")
      case False
      then have "c \<in># refs s" using c(1) R by simp
      then show ?thesis using m w by (auto simp: mem_def)
    qed (use w Q in simp)
  qed
  then have "mem Q (s\<lparr>Pkts := p, LastCtrl := Some b\<rparr>) L"
    using m p(2) R by (auto simp: mem_def)
  moreover have "wire_of p b = wire_of (Pkts s) b" using keeps_wire [OF p(3), of b] R by simp
  moreover have "opt_ref (Request s) + opt_ref (last_data s) \<subseteq># ?M"
    by (simp add: refs_def last_data_def)
  then have "keeps (opt_ref (Request s) + opt_ref (last_data s)) (Pkts s) p"
    using keeps_subset [OF p(3)] by blast
  ultimately show ?thesis using p(1)
    by (auto simp: keep_ctrl_def intro!: exI [of _ p])
qed

section \<open>Building packets\<close>

text \<open>A buffer that only a local variable refers to, with its contents, and what stays as it was
  while a packet is built in it.\<close>

definition own :: "(EFI_EFTP_PACKET \<Rightarrow> bool) \<Rightarrow> nat multiset \<Rightarrow> EFTP_IO_PRIVATE \<Rightarrow> nat \<Rightarrow> EFTP_PACKET_BUFFER \<Rightarrow> bool" where
  "own Q L s b buf \<longleftrightarrow> mem Q s (add_mset b L) \<and> b \<notin># refs s + L \<and> Bufs (Pkts s) b = Some buf"

definition quiet :: "nat multiset \<Rightarrow> EFTP_IO_PRIVATE \<Rightarrow> EFTP_IO_PRIVATE \<Rightarrow> bool" where
  "quiet L s s' \<longleftrightarrow> s' = s\<lparr>Pkts := Pkts s'\<rparr> \<and> keeps (refs s + L) (Pkts s) (Pkts s')"

lemma quiet_refl [simp]: "quiet L s s"
  by (simp add: quiet_def)

lemma quiet_refs: "quiet L s t \<Longrightarrow> refs t = refs s"
  by (metis quiet_def refs_upd(1))

lemma quiet_trans:
  assumes "quiet L s t" and "quiet L t u"
  shows "quiet L s u"
proof -
  have "u = s\<lparr>Pkts := Pkts u\<rparr>"
    using assms by (cases s; cases t; cases u; simp add: quiet_def)
  moreover have "keeps (refs s + L) (Pkts t) (Pkts u)"
    using assms quiet_refs [OF assms(1)] by (simp add: quiet_def)
  ultimately show ?thesis
    using assms(1) keeps_trans [of "refs s + L" "Pkts s" "Pkts t" "Pkts u"] by (simp add: quiet_def)
qed

lemma quiet_tick [simp]: "quiet L s (tick s)"
  by (simp add: quiet_def tick_def keeps_def)

lemma own_tick [simp]: "own Q L (tick s) b buf = own Q L s b buf"
  by (simp add: own_def) (simp add: tick_def)

lemma own_buf_ok: "own Q L s b buf \<Longrightarrow> buf_ok buf"
  using held_bound mem_held unfolding own_def by blast

lemma own_count: "own Q L s b buf \<Longrightarrow> unat (RefCnt buf) = 1"
proof -
  assume o: "own Q L s b buf"
  then have "held (Pkts s) (add_mset b (refs s + L))" using mem_held [of Q s "add_mset b L"] by (simp add: own_def)
  then show ?thesis using held_live [of "Pkts s" "add_mset b (refs s + L)" b] o by (auto simp: own_def not_in_iff)
qed

lemma upd_buf_ok:
  assumes "own Q L s b buf" and "buf_ok (f buf)" and "RefCnt (f buf) = RefCnt buf"
  shows "ok (upd_buf b f s) (\<lambda>s'. own Q L s' b (f buf) \<and> quiet L s s')"
proof -
  let ?p = "(Pkts s)\<lparr>Bufs := (Bufs (Pkts s))(b \<mapsto> f buf)\<rparr>"
  have o: "mem Q s (add_mset b L)" "b \<notin># refs s + L" "Bufs (Pkts s) b = Some buf"
    using assms(1) by (simp_all add: own_def)
  have h: "held (Pkts s) (refs s + add_mset b L)" by (rule mem_held [OF o(1)])
  have "held ?p (refs s + add_mset b L)"
    using own_count [OF assms(1)] assms(2,3) o(2)
    by (intro held_upd [OF h]) (auto simp: not_in_iff)
  moreover have k: "keeps (refs s + L) (Pkts s) ?p" using o(2) by (auto simp: keeps_def buf_contents_def)
  moreover have "keeps (refs s) (Pkts s) ?p" using keeps_subset [OF k, of "refs s"] by simp
  ultimately have "mem Q (s\<lparr>Pkts := ?p\<rparr>) (add_mset b L)" using mem_pool [OF o(1)] by blast
  then show ?thesis using o k by (simp add: upd_buf_def own_def quiet_def)
qed

lemma alloc_ok:
  assumes "mem Q s L" and "0 < n"
  shows "ok (alloc env n s) (\<lambda>(r, s'). quiet L s s' \<and> (case r of None \<Rightarrow> mem Q s' L
    | Some b \<Rightarrow> \<exists>buf. own Q L s' b buf \<and> n \<le> DataSize buf))"
proof -
  obtain r p where p: "EftpAllocPacket env n (Pkts s) = Some (r, p)" "allocated (Pkts s) (refs s + L) n (r, p)"
    using EftpAllocPacket_ok [OF mem_held [OF assms(1)] assms(2), of env] by (auto elim!: okE)
  have k: "keeps (refs s + L) (Pkts s) p" using p(2) by (simp add: allocated_def)
  then have k': "keeps (refs s) (Pkts s) p" using keeps_subset [OF k, of "refs s"] by simp
  have q: "quiet L s (s\<lparr>Pkts := p\<rparr>)" using k by (simp add: quiet_def)
  show ?thesis
  proof (cases r)
    case None
    then show ?thesis using p q mem_pool [OF assms(1) _ k'] by (simp add: alloc_def allocated_def)
  next
    case (Some b)
    then have "mem Q (s\<lparr>Pkts := p\<rparr>) (add_mset b L)"
      using p(2) by (intro mem_pool [OF assms(1) _ k']) (simp add: allocated_def)
    then show ?thesis using p q Some by (auto simp: alloc_def allocated_def own_def)
  qed
qed

lemma create_tx_event_ok:
  assumes "own Q L s b buf"
  shows "ok (create_tx_event env b s) (\<lambda>(st, s'). quiet L s s' \<and> (\<exists>e. own Q L s' b (buf\<lparr>TxEvent := e\<rparr>)))"
proof (cases "EFI_ERROR (CreateEvent env (now s))")
  case True
  then show ?thesis
    using assms unfolding create_tx_event_def Let_def by (auto intro!: exI [of _ "TxEvent buf"])
next
  case False
  have "buf_ok (buf\<lparr>TxEvent := True\<rparr>)" using own_buf_ok [OF assms] by (simp add: buf_ok_def)
  then have "ok (upd_buf b (\<lambda>buf. buf\<lparr>TxEvent := True\<rparr>) (tick s))
      (\<lambda>s'. own Q L s' b (buf\<lparr>TxEvent := True\<rparr>) \<and> quiet L (tick s) s')"
    using assms by (intro upd_buf_ok) simp_all
  then have "ok (upd_buf b (\<lambda>buf. buf\<lparr>TxEvent := True\<rparr>) (tick s))
      (\<lambda>s'. own Q L s' b (buf\<lparr>TxEvent := True\<rparr>) \<and> quiet L s s')"
    by (rule ok_mono) (blast intro: quiet_trans [OF quiet_tick])
  then show ?thesis
    using False unfolding create_tx_event_def Let_def by (auto elim!: ok_mono)
qed

lemma fill_tx_data_ok:
  assumes "own Q L s b buf" and "network_ok env" and "8 \<le> unat Len" and "unat Len \<le> unat (DataSize buf)"
  shows "ok (fill_tx_data env Len b s) (\<lambda>s'. quiet L s s' \<and>
    (\<exists>buf'. own Q L s' b buf' \<and> FragmentLength buf' = Len \<and> Packet buf' = Packet buf))"
proof -
  let ?f = "\<lambda>buf. buf\<lparr>PacketSize := Len, DataLength := Len, FragmentLength := Len,
             DestinationAddress := Some (DstMac (ConfigData s)),
             SourceAddress := Some (SrcMac (ConfigData s))\<rparr>"
  have "buf_ok (?f buf)" using own_buf_ok [OF assms(1)] assms(3,4) by (simp add: buf_ok_def)
  then have "ok (upd_buf b ?f (tick (tick s))) (\<lambda>s'. own Q L s' b (?f buf) \<and> quiet L (tick (tick s)) s')"
    using assms(1) by (intro upd_buf_ok) simp_all
  moreover have "quiet L (tick (tick s)) s' \<Longrightarrow> quiet L s s'" for s'
    using quiet_trans [OF quiet_trans [OF quiet_tick quiet_tick]] .
  ultimately show ?thesis
    using assms(2) by (auto simp: fill_tx_data_def network_ok_def elim!: ok_mono)
qed

text \<open>The end of every builder: header, then the data for the network. \<open>g\<close> is what is done to the
  packet after its checksum.\<close>

lemma seal_ok:
  assumes o: "own Q L s b buf" and pk: "length (Payload pk) = unat (DataSize buf) - 8"
    and Len: "8 \<le> unat Len" "unat Len \<le> unat (DataSize buf)" and env: "network_ok env"
    and g: "\<And>pk. Payload (g pk) = Payload pk" "\<And>pk d. g (pk\<lparr>Payload := d\<rparr>) = (g pk)\<lparr>Payload := d\<rparr>"
  shows "ok (do {
      pk \<leftarrow> put_header (unat Len) Code Var (unat Len div 2) pk;
      s \<leftarrow> upd_buf b (\<lambda>buf. buf\<lparr>Packet := Some (g pk)\<rparr>) s;
      fill_tx_data env Len b s })
    (\<lambda>s'. quiet L s s' \<and> mem Q s' (add_mset b L) \<and> b \<notin># refs s + L \<and>
      wire_of (Pkts s') b = Some (g (sealed (unat Len) Code Var (take (unat Len - 8) (Payload pk)))))"
proof -
  have bok: "buf_ok buf" by (rule own_buf_ok [OF o])
  have "unat Len \<le> 8 + length (Payload pk)" using pk Len(2) bok by (simp add: buf_ok_def)
  then obtain h where h: "put_header (unat Len) Code Var (unat Len div 2) pk = Some h" "Payload h = Payload pk"
    "h\<lparr>Payload := take (unat Len - 8) (Payload pk)\<rparr> = sealed (unat Len) Code Var (take (unat Len - 8) (Payload pk))"
    using put_header_spec [OF Len(1), of pk Code Var] by blast
  have ok1: "buf_ok (buf\<lparr>Packet := Some (g h)\<rparr>)" using bok h(2) pk g(1) by (simp add: buf_ok_def)
  obtain t where t: "upd_buf b (\<lambda>buf. buf\<lparr>Packet := Some (g h)\<rparr>) s = Some t"
    "own Q L t b (buf\<lparr>Packet := Some (g h)\<rparr>)" "quiet L s t"
    using upd_buf_ok [OF o, of "\<lambda>buf. buf\<lparr>Packet := Some (g h)\<rparr>"] ok1 by (auto elim: okE)
  have "unat Len \<le> unat (DataSize (buf\<lparr>Packet := Some (g h)\<rparr>))" using Len(2) by simp
  from fill_tx_data_ok [OF t(2) env Len(1) this] obtain u buf' where u: "fill_tx_data env Len b t = Some u"
    "quiet L t u" "own Q L u b buf'" "FragmentLength buf' = Len" "Packet buf' = Some (g h)"
    by (auto elim!: okE)
  have "wire_of (Pkts u) b = Some ((g h)\<lparr>Payload := take (unat Len - 8) (Payload pk)\<rparr>)"
    using u(3-5) h(2) g(1) by (simp add: own_def wire_of_def on_wire_def EFTP_HEADER_LEN_def)
  also have "(g h)\<lparr>Payload := take (unat Len - 8) (Payload pk)\<rparr> =
      g (sealed (unat Len) Code Var (take (unat Len - 8) (Payload pk)))"
    by (simp flip: h(3) g(2))
  finally show ?thesis
    using h(1) t(1,3) u(1-3) quiet_trans [OF t(3) u(2)] quiet_refs by (auto simp: own_def)
qed

end
