(* ===== verification/Eftp_Send.thy ===== *)
theory Eftp_Send
  imports Eftp_Mem
begin

text \<open>
  What the builders and senders of \<open>EftpPacket.c\<close> do: the exact packet that goes out, the references
  that are kept, and the result that is left on each failure.
\<close>

section \<open>Texts\<close>

lemma put_str_spec:
  assumes "cstr Str = Some t" and "P + length t < length d"
  shows "put_str P Str d = Some (P + length t + 1, take P d @ t @ 0 # drop (P + length t + 1) d)"
  using assms
  by (simp add: put_str_def SctAsciiStrCpy_spec SctAsciiStrLen_cstr less_diff_conv2 ac_simps)

fun option_texts :: "option_strings \<Rightarrow> (u8 list \<times> u8 list) list option" where
  "option_texts [] = Some []"
| "option_texts ((Some n, Some v) # os) = do {
     tn \<leftarrow> cstr n;
     tv \<leftarrow> cstr v;
     ts \<leftarrow> option_texts os;
     Some ((tn, tv) # ts) }"
| "option_texts (_ # os) = None"

definition pair_text :: "u8 list \<times> u8 list \<Rightarrow> u8 list" where
  "pair_text nv = fst nv @ 0 # snd nv @ [0]"

definition options_text :: "(u8 list \<times> u8 list) list \<Rightarrow> u8 list" where
  "options_text ts = concat (map pair_text ts)"

lemma options_text_simps [simp]:
  "options_text [] = []" "options_text ((n, v) # ts) = n @ 0 # v @ 0 # options_text ts"
  by (simp_all add: options_text_def pair_text_def)

lemma options_length_spec:
  "option_texts os = Some ts \<Longrightarrow>
     options_length os L = Some (Some (L + of_nat (length (options_text ts))))"
  by (induction os arbitrary: ts L rule: option_texts.induct)
    (auto simp: bind_eq_Some_conv SctAsciiStrLen_cstr algebra_simps)

lemma put_options_spec:
  "option_texts os = Some ts \<Longrightarrow> P + length (options_text ts) \<le> length d \<Longrightarrow>
     put_options os P d = Some (take P d @ options_text ts @ drop (P + length (options_text ts)) d)"
proof (induction os arbitrary: ts P d rule: option_texts.induct)
  case (2 n v os)
  then obtain tn tv r where t: "cstr n = Some tn" "cstr v = Some tv" "option_texts os = Some r"
    "ts = (tn, tv) # r" by (auto simp: bind_eq_Some_conv)
  let ?d = "take P d @ tn @ 0 # drop (P + length tn + 1) d"
  let ?Q = "P + length tn + 1"
  let ?e = "take ?Q ?d @ tv @ 0 # drop (?Q + length tv + 1) ?d"
  let ?R = "?Q + length tv + 1"
  have len: "P + (length tn + length tv + 2 + length (options_text r)) \<le> length d"
    using 2(3) t(4) by simp
  have "put_str P n d = Some (?Q, ?d)" using len t(1) by (intro put_str_spec) auto
  moreover have "put_str ?Q v ?d = Some (?R, ?e)" using len t(2) by (intro put_str_spec) auto
  moreover have "put_options os ?R ?e = Some (take ?R ?e @ options_text r @ drop (?R + length (options_text r)) ?e)"
    using len by (intro 2(1) [OF t(1,2,3)]) (auto simp: t)
  moreover have "take ?Q ?d = take P d @ tn @ [0]" using len by simp
  moreover have "drop ?Q (take P d @ tn @ 0 # drop ?Q d) = drop ?Q d" using len by simp
  ultimately show ?case using len t(4) by (simp add: ac_simps)
qed auto

lemma unat_of_nat_u32: "n < 2 ^ 32 \<Longrightarrow> unat (of_nat n :: u32) = n"
  by (simp add: unat_of_nat take_bit_nat_eq_self)

section \<open>Builders\<close>

text \<open>A builder returns no packet, with the reason in the result, or a packet only the caller
  refers to, which is \<open>W\<close> on the wire.\<close>

definition built ::
    "(EFI_EFTP_PACKET \<Rightarrow> bool) \<Rightarrow> nat multiset \<Rightarrow> EFI_EFTP_PACKET \<Rightarrow> EFTP_IO_PRIVATE \<Rightarrow>
     nat option \<times> EFTP_IO_PRIVATE \<Rightarrow> bool" where
  "built Q L W s r \<longleftrightarrow> quiet L s ((snd r)\<lparr>Result := Result s\<rparr>) \<and> (case fst r of
     None \<Rightarrow> mem Q (snd r) L \<and> Result (snd r) = EFI_OUT_OF_RESOURCES
   | Some b \<Rightarrow> Result (snd r) = Result s \<and> mem Q (snd r) (add_mset b L) \<and> b \<notin># refs s + L \<and>
       wire_of (Pkts (snd r)) b = Some W)"

lemma quiet_Result: "quiet L s s' \<Longrightarrow> Result s' = Result s \<and> quiet L s (s'\<lparr>Result := r, Result := Result s\<rparr>)"
  by (cases s; cases s'; simp add: quiet_def refs_def last_data_def)

lemma quiet_upd_same: "quiet L s s' \<Longrightarrow> quiet L s (s'\<lparr>Result := Result s\<rparr>)"
  by (cases s; cases s'; simp add: quiet_def refs_def last_data_def)

lemma built_None:
  "quiet L s s' \<Longrightarrow> mem Q s' L \<Longrightarrow> built Q L W s (None, s'\<lparr>Result := EFI_OUT_OF_RESOURCES\<rparr>)"
  by (simp add: built_def quiet_upd_same)

lemma built_Some:
  "quiet L s s' \<Longrightarrow> mem Q s' (add_mset b L) \<Longrightarrow> b \<notin># refs s + L \<Longrightarrow>
     wire_of (Pkts s') b = Some W \<Longrightarrow> built Q L W s (Some b, s')"
  using quiet_Result [of L s s'] by (simp add: built_def quiet_upd_same)

text \<open>The buffer is given back when its event cannot be created.\<close>

lemma give_back:
  assumes "own Q L s b buf"
  shows "ok (release b (s\<lparr>Result := r\<rparr>)) (\<lambda>s'. \<exists>t. s' = t\<lparr>Result := r\<rparr> \<and> quiet L s t \<and> mem Q t L)"
proof -
  have m: "mem Q (s\<lparr>Result := r\<rparr>) (add_mset b L)" using assms by (simp add: own_def)
  from release_local [OF m] show ?thesis
  proof (rule ok_mono)
    fix s' assume "\<exists>p. s' = (s\<lparr>Result := r\<rparr>)\<lparr>Pkts := p\<rparr> \<and> mem Q s' L \<and>
      keeps (refs (s\<lparr>Result := r\<rparr>) + L) (Pkts (s\<lparr>Result := r\<rparr>)) p"
    then obtain p where p: "s' = (s\<lparr>Result := r\<rparr>)\<lparr>Pkts := p\<rparr>" "mem Q s' L"
      "keeps (refs s + L) (Pkts s) p" by auto
    have e: "(s\<lparr>Result := r\<rparr>)\<lparr>Pkts := p\<rparr> = (s\<lparr>Pkts := p\<rparr>)\<lparr>Result := r\<rparr>" by simp
    have "mem Q (s\<lparr>Pkts := p\<rparr>) L" using p(1,2) unfolding e by simp
    with p(1,3) e show "\<exists>t. s' = t\<lparr>Result := r\<rparr> \<and> quiet L s t \<and> mem Q t L"
      by (auto simp: quiet_def)
  qed
qed

text \<open>The end of the builders: create the event, seal. \<open>g\<close> is done to the packet after its
  checksum.\<close>

lemma build_tail_ok:
  assumes q: "quiet L s t" and o: "own Q L t b buf" and pk: "Packet buf = Some pk"
    and Len: "8 \<le> unat Len" "unat Len \<le> unat (DataSize buf)" and env: "network_ok env"
    and g: "\<And>pk. Payload (g pk) = Payload pk" "\<And>pk d. g (pk\<lparr>Payload := d\<rparr>) = (g pk)\<lparr>Payload := d\<rparr>"
  shows "ok (do {
      (st, s) \<leftarrow> create_tx_event env b t;
      if EFI_ERROR st then do {
        s \<leftarrow> release b (s\<lparr>Result := EFI_OUT_OF_RESOURCES\<rparr>);
        Some (None, s) }
      else do {
        pk \<leftarrow> put_header (unat Len) Code Var (unat Len div 2) pk;
        s \<leftarrow> upd_buf b (\<lambda>buf. buf\<lparr>Packet := Some (g pk)\<rparr>) s;
        s \<leftarrow> fill_tx_data env Len b s;
        Some (Some b, s) } })
    (built Q L (g (sealed (unat Len) Code Var (take (unat Len - 8) (Payload pk)))) s)"
proof -
  obtain st v e where v: "create_tx_event env b t = Some (st, v)" "quiet L t v"
    "own Q L v b (buf\<lparr>TxEvent := e\<rparr>)"
    using create_tx_event_ok [OF o, of env] by (auto elim!: okE)
  have qv: "quiet L s v" by (rule quiet_trans [OF q v(2)])
  show ?thesis
  proof (cases "EFI_ERROR st")
    case True
    have "ok (release b (v\<lparr>Result := EFI_OUT_OF_RESOURCES\<rparr>)) (\<lambda>s'. built Q L W s (None, s'))" for W
      by (rule ok_mono [OF give_back [OF v(3)]]) (blast intro: built_None quiet_trans [OF qv])
    then show ?thesis using True v(1) by simp
  next
    case False
    have "length (Payload pk) = unat (DataSize (buf\<lparr>TxEvent := e\<rparr>)) - 8"
      "unat Len \<le> unat (DataSize (buf\<lparr>TxEvent := e\<rparr>))"
      using own_buf_ok [OF o] pk Len(2) by (auto simp: buf_ok_def)
    from seal_ok [OF v(3) this(1) Len(1) this(2) env g, of Code Var] show ?thesis
      using False v(1) quiet_refs [OF qv]
      by (auto elim!: ok_mono intro!: built_Some intro: quiet_trans [OF qv])
  qed
qed

text \<open>The builders that write a text behind the header: allocate, write, then the end. \<open>w\<close> is what
  is written.\<close>

lemma build_ok:
  assumes m: "mem Q s L" and Len: "8 \<le> unat Len" and env: "network_ok env"
    and w: "\<And>d. unat Len - 8 \<le> length d \<Longrightarrow>
      \<exists>d'. w d = Some d' \<and> length d' = length d \<and> take (unat Len - 8) d' = text"
  shows "ok (do {
      (b, s) \<leftarrow> alloc env Len s;
      (case b of
        None \<Rightarrow> Some (None, s\<lparr>Result := EFI_OUT_OF_RESOURCES\<rparr>)
      | Some b \<Rightarrow> do {
          pk \<leftarrow> the_packet b s;
          d \<leftarrow> w (Payload pk);
          s \<leftarrow> upd_buf b (\<lambda>buf. buf\<lparr>Packet := Some (pk\<lparr>Payload := d\<rparr>)\<rparr>) s;
          (st, s) \<leftarrow> create_tx_event env b s;
          if EFI_ERROR st then do {
            s \<leftarrow> release b (s\<lparr>Result := EFI_OUT_OF_RESOURCES\<rparr>);
            Some (None, s) }
          else do {
            pk \<leftarrow> put_header (unat Len) Code Var (unat Len div 2) (pk\<lparr>Payload := d\<rparr>);
            s \<leftarrow> upd_buf b (\<lambda>buf. buf\<lparr>Packet := Some pk\<rparr>) s;
            s \<leftarrow> fill_tx_data env Len b s;
            Some (Some b, s) } }) })
    (built Q L (sealed (unat Len) Code Var text) s)"
proof -
  have pos: "0 < Len" using Len by (auto simp: word_less_nat_alt)
  obtain r t where t: "alloc env Len s = Some (r, t)" "quiet L s t"
    "case r of None \<Rightarrow> mem Q t L | Some b \<Rightarrow> \<exists>buf. own Q L t b buf \<and> Len \<le> DataSize buf"
    using alloc_ok [OF m pos, of env] by (auto elim!: okE)
  show ?thesis
  proof (cases r)
    case None
    then show ?thesis using t by (simp add: built_None)
  next
    case (Some b)
    then obtain buf where o: "own Q L t b buf" and size: "unat Len \<le> unat (DataSize buf)"
      using t(3) by (auto simp: word_le_nat_alt)
    obtain pk where pk: "Packet buf = Some pk" "length (Payload pk) = unat (DataSize buf) - 8"
      using own_buf_ok [OF o] by (auto simp: buf_ok_def)
    have p: "the_packet b t = Some pk" using o pk(1) by (simp add: the_packet_def own_def)
    obtain d where d: "w (Payload pk) = Some d" "length d = length (Payload pk)" "take (unat Len - 8) d = text"
      using w [of "Payload pk"] diff_le_mono [OF size, of 8] pk(2) by auto
    let ?buf = "buf\<lparr>Packet := Some (pk\<lparr>Payload := d\<rparr>)\<rparr>"
    have "buf_ok ?buf" using own_buf_ok [OF o] pk d(2) by (simp add: buf_ok_def)
    from upd_buf_ok [OF o, of "\<lambda>buf. buf\<lparr>Packet := Some (pk\<lparr>Payload := d\<rparr>)\<rparr>"] this
    obtain u where u: "upd_buf b (\<lambda>buf. buf\<lparr>Packet := Some (pk\<lparr>Payload := d\<rparr>)\<rparr>) t = Some u"
      "own Q L u b ?buf" "quiet L t u" by (auto elim: okE)
    have "Packet ?buf = Some (pk\<lparr>Payload := d\<rparr>)" "unat Len \<le> unat (DataSize ?buf)" using size by simp_all
    from build_tail_ok [OF quiet_trans [OF t(2) u(3)] u(2) this(1) Len this(2) env, of "\<lambda>pk. pk" Code Var]
    show ?thesis using t(1) Some p d(1,3) u(1) by simp
  qed
qed

lemma EftpBuildErrorPacket_ok:
  assumes m: "mem Q s L" and env: "network_ok env" and D: "cstr Desc = Some t" "length t < 60000"
  shows "ok (EftpBuildErrorPacket env Code Desc s)
    (built Q L (sealed (9 + length t) EFI_EFTP_OPCODE_ERROR (NTOHS Code) (t @ [0])) s)"
proof -
  define Len where "Len = (of_nat (EFTP_HEADER_LEN + length t + 1) :: u32)"
  have n: "1 + (word_of_nat EFTP_HEADER_LEN + word_of_nat (length t)) = Len" by (simp add: Len_def)
  have l: "unat Len = 9 + length t"
    using unat_of_nat_u32 [of "EFTP_HEADER_LEN + length t + 1"] D(2) by (simp add: EFTP_HEADER_LEN_def Len_def)
  have "\<exists>d'. map_option snd (put_str 0 Desc d) = Some d' \<and> length d' = length d \<and>
      take (unat Len - 8) d' = t @ [0]" if "unat Len - 8 \<le> length d" for d
    using put_str_spec [OF D(1), of 0 d] that by (simp add: l)
  from build_ok [OF m _ env this, of EFI_EFTP_OPCODE_ERROR "NTOHS Code"]
  have "ok (do {
      (b, s) \<leftarrow> alloc env Len s;
      (case b of
        None \<Rightarrow> Some (None, s\<lparr>Result := EFI_OUT_OF_RESOURCES\<rparr>)
      | Some b \<Rightarrow> do {
          pk \<leftarrow> the_packet b s;
          d \<leftarrow> map_option snd (put_str 0 Desc (Payload pk));
          s \<leftarrow> upd_buf b (\<lambda>buf. buf\<lparr>Packet := Some (pk\<lparr>Payload := d\<rparr>)\<rparr>) s;
          (st, s) \<leftarrow> create_tx_event env b s;
          if EFI_ERROR st then do {
            s \<leftarrow> release b (s\<lparr>Result := EFI_OUT_OF_RESOURCES\<rparr>);
            Some (None, s) }
          else do {
            pk \<leftarrow> put_header (unat Len) EFI_EFTP_OPCODE_ERROR (NTOHS Code) (unat Len div 2) (pk\<lparr>Payload := d\<rparr>);
            s \<leftarrow> upd_buf b (\<lambda>buf. buf\<lparr>Packet := Some pk\<rparr>) s;
            s \<leftarrow> fill_tx_data env Len b s;
            Some (Some b, s) } }) })
    (built Q L (sealed (unat Len) EFI_EFTP_OPCODE_ERROR (NTOHS Code) (t @ [0])) s)"
    by (simp only: l)
  moreover have "Option.bind (map_option snd m) f = Option.bind m (\<lambda>(_, d). f d)"
    for m :: "(nat \<times> u8 list) option" and f :: "u8 list \<Rightarrow> (nat option \<times> EFTP_IO_PRIVATE) option"
    by (cases m) auto
  ultimately show ?thesis
    using D(1) by (simp add: EftpBuildErrorPacket_def SctAsciiStrLen_cstr Let_def l n del: ok_bind
        cong: option.case_cong if_cong)
qed

text \<open>A request: file name, mode and options as texts.\<close>

definition request_text :: "u8 list \<Rightarrow> u8 list \<Rightarrow> (u8 list \<times> u8 list) list \<Rightarrow> u8 list" where
  "request_text name mode ts = name @ 0 # mode @ 0 # options_text ts"

definition mode_block :: "u8 list option \<Rightarrow> u8 list" where
  "mode_block Mode = (case Mode of None \<Rightarrow> octet | Some m \<Rightarrow> m)"

lemma EftpBuildRequest_ok:
  assumes m: "mem Q s L" and env: "network_ok env" and N: "cstr Name = Some n"
    and M: "cstr (mode_block Mode) = Some md" and O: "given_options NOption List = Some os"
      "option_texts os = Some ts" and size: "length (request_text n md ts) < 60000"
  shows "ok (EftpBuildRequest env Code Name Mode NOption List s)
    (built Q L (sealed (8 + length (request_text n md ts)) Code 0 (request_text n md ts)) s)"
proof -
  define Len where "Len = (of_nat EFTP_HEADER_LEN + of_nat (length n) + of_nat (length md) + 2 +
    of_nat (length (options_text ts)) :: u32)"
  have "Len = of_nat (8 + length (request_text n md ts))"
    by (simp add: Len_def request_text_def EFTP_HEADER_LEN_def)
  then have l: "unat Len = 8 + length (request_text n md ts)"
    using unat_of_nat_u32 [of "8 + length (request_text n md ts)"] size by simp
  let ?w = "put_request Name (mode_block Mode) os"
  have w: "\<exists>d'. ?w d = Some d' \<and> length d' = length d \<and> take (unat Len - 8) d' = request_text n md ts"
    if "unat Len - 8 \<le> length d" for d
  proof -
    have len: "length n + length md + 2 + length (options_text ts) \<le> length d"
      using that l by (simp add: request_text_def)
    let ?P = "length n + 1" and ?Q = "length n + length md + 2"
    let ?d = "n @ 0 # drop ?P d"
    let ?e = "n @ 0 # md @ 0 # drop ?Q d"
    have "put_str 0 Name d = Some (?P, ?d)" using put_str_spec [OF N, of 0 d] len by simp
    moreover have "put_str ?P (mode_block Mode) ?d = Some (?Q, ?e)"
      using put_str_spec [OF M, of ?P ?d] len by (simp add: ac_simps)
    moreover have "put_options os ?Q ?e = Some (request_text n md ts @ drop (?Q + length (options_text ts)) d)"
      using put_options_spec [OF O(2), of ?Q ?e] len by (simp add: request_text_def ac_simps)
    ultimately show ?thesis using len l by (auto simp: put_request_def request_text_def)
  qed
  from build_ok [OF m _ env w, of Code 0] l
  have "ok (do {
      (b, s) \<leftarrow> alloc env Len s;
      (case b of
        None \<Rightarrow> Some (None, s\<lparr>Result := EFI_OUT_OF_RESOURCES\<rparr>)
      | Some b \<Rightarrow> do {
          pk \<leftarrow> the_packet b s;
          d \<leftarrow> ?w (Payload pk);
          s \<leftarrow> upd_buf b (\<lambda>buf. buf\<lparr>Packet := Some (pk\<lparr>Payload := d\<rparr>)\<rparr>) s;
          (st, s) \<leftarrow> create_tx_event env b s;
          if EFI_ERROR st then do {
            s \<leftarrow> release b (s\<lparr>Result := EFI_OUT_OF_RESOURCES\<rparr>);
            Some (None, s) }
          else do {
            pk \<leftarrow> put_header (unat Len) Code 0 (unat Len div 2) (pk\<lparr>Payload := d\<rparr>);
            s \<leftarrow> upd_buf b (\<lambda>buf. buf\<lparr>Packet := Some pk\<rparr>) s;
            s \<leftarrow> fill_tx_data env Len b s;
            Some (Some b, s) } }) })
    (built Q L (sealed (8 + length (request_text n md ts)) Code 0 (request_text n md ts)) s)"
    by simp
  then show ?thesis
    using N M O(1) options_length_spec [OF O(2)]
    by (simp add: EftpBuildRequest_def SctAsciiStrLen_cstr Let_def Len_def
        del: ok_bind flip: mode_block_def cong: option.case_cong if_cong)
qed

section \<open>Senders\<close>

text \<open>After a sender: the packet is on the wire, or the reason is in the result.\<close>

definition no_resources :: "EFI_STATUS \<Rightarrow> bool" where
  "no_resources st \<longleftrightarrow> st = EFI_OUT_OF_RESOURCES \<or> st = EFI_DEVICE_ERROR"

definition sent ::
    "(EFI_EFTP_PACKET \<Rightarrow> bool) \<Rightarrow> nat multiset \<Rightarrow> EFI_EFTP_PACKET \<Rightarrow> EFTP_IO_PRIVATE \<Rightarrow>
     EFI_STATUS \<times> EFTP_IO_PRIVATE \<Rightarrow> bool" where
  "sent Q L W s r \<longleftrightarrow> touch s (snd r) \<and> mem Q (snd r) L \<and>
     (if EFI_ERROR (fst r)
      then Wire (snd r) = Wire s \<and> no_resources (Result (snd r)) \<and> LastCtrl (snd r) = LastCtrl s
      else Wire (snd r) = Wire s @ [W] \<and> Result (snd r) = Result s)"

lemma quiet_touch: "quiet L s t \<Longrightarrow> touch s t"
  by (cases s; cases t; simp add: quiet_def touch_def)

lemma quiet_Result_touch: "quiet L s (t\<lparr>Result := r\<rparr>) \<Longrightarrow> touch s t"
  by (drule quiet_touch) simp

lemma quiet_fields:
  assumes "quiet L s (t\<lparr>Result := r\<rparr>)"
  shows "Wire t = Wire s" "LastCtrl t = LastCtrl s" "PendingPacketList t = PendingPacketList s"
    "refs t = refs s"
  using assms by (cases s; cases t; simp add: quiet_def refs_def last_data_def)+

text \<open>Sending a packet that was just built, then giving the local reference up or keeping it.\<close>

lemma send_built:
  assumes B: "built Q L W s (Some b, t)" and env: "network_ok env" and Q: "Q W" and L: "count L b \<le> 3"
  shows "ok (EftpSendPacket env b t) (\<lambda>(st, u). sent Q (add_mset b L) W s (st, u) \<and>
    LastCtrl u = LastCtrl s \<and> wire_of (Pkts u) b = Some W)"
proof -
  have q: "quiet L s (t\<lparr>Result := Result s\<rparr>)" and m: "mem Q t (add_mset b L)" and r: "Result t = Result s"
    and b: "b \<notin># refs s + L" and w: "wire_of (Pkts t) b = Some W"
    using B by (simp_all add: built_def)
  note f = quiet_fields [OF q]
  have np: "b \<notin> set (PendingPacketList t)" using b f by (simp add: refs_def)
  have "ok (EftpSendPacket env b t) (\<lambda>(st, u). touch t u \<and> mem Q u (add_mset b L) \<and> LastCtrl u = LastCtrl t \<and>
    keeps (refs t + add_mset b L) (Pkts t) (Pkts u) \<and>
    (if EFI_ERROR st
     then Wire u = Wire t \<and> Result u = EFI_DEVICE_ERROR \<and> PendingPacketList u = PendingPacketList t
     else Wire u = Wire t @ [the (wire_of (Pkts t) b)] \<and> Result u = Result t \<and>
       PendingPacketList u = PendingPacketList t @ [b]))"
    using w Q L by (intro EftpSendPacket_ok [OF m _ np _ env]) auto
  then show ?thesis
  proof (rule ok_mono, clarify)
    fix st u
    assume u: "touch t u" "mem Q u (add_mset b L)" "LastCtrl u = LastCtrl t"
      "keeps (refs t + add_mset b L) (Pkts t) (Pkts u)"
      "if EFI_ERROR st
       then Wire u = Wire t \<and> Result u = EFI_DEVICE_ERROR \<and> PendingPacketList u = PendingPacketList t
       else Wire u = Wire t @ [the (wire_of (Pkts t) b)] \<and> Result u = Result t \<and>
         PendingPacketList u = PendingPacketList t @ [b]"
    have "wire_of (Pkts u) b = Some W" using keeps_wire [OF u(4), of b] w by simp
    moreover have "touch s u" using touch_trans [OF quiet_Result_touch [OF q] u(1)] .
    ultimately show "sent Q (add_mset b L) W s (st, u) \<and> LastCtrl u = LastCtrl s \<and> wire_of (Pkts u) b = Some W"
      using u f r w by (auto simp: sent_def no_resources_def split: if_splits)
  qed
qed

lemma release_sent:
  assumes "mem Q s (add_mset b L)"
  shows "ok (release b s) (\<lambda>s'. touch s s' \<and> mem Q s' L \<and> Wire s' = Wire s \<and> Result s' = Result s \<and>
    LastCtrl s' = LastCtrl s)"
  by (rule ok_mono [OF release_local [OF assms]]) auto

lemma keep_ctrl_sent:
  assumes "mem Q s (add_mset b L)" and "wire_of (Pkts s) b = Some W" and "Q W"
  shows "ok (keep_ctrl b s) (\<lambda>s'. touch s s' \<and> mem Q s' L \<and> Wire s' = Wire s \<and> Result s' = Result s \<and>
    LastCtrl s' = Some b)"
  by (rule ok_mono [OF keep_ctrl_ok [OF assms(1)]]) (use assms(2,3) in auto)

text \<open>A control packet: on success it is the last one.\<close>

lemma send_ctrl_ok:
  assumes B: "built Q {#} W s (r, t)" and env: "network_ok env" and Q: "Q W"
  shows "ok (case r of
        None \<Rightarrow> Some (EFI_OUT_OF_RESOURCES, t)
      | Some b \<Rightarrow> do {
          (st, s) \<leftarrow> EftpSendPacket env b t;
          if EFI_ERROR st then do { s \<leftarrow> release b s; Some (st, s) }
          else do { s \<leftarrow> keep_ctrl b s; Some (EFI_SUCCESS, s) } })
    (\<lambda>(st, u). sent Q {#} W s (st, u) \<and> (\<not> EFI_ERROR st \<longrightarrow> LastCtrl u \<noteq> None))"
proof (cases r)
  case None
  then have q: "quiet {#} s (t\<lparr>Result := Result s\<rparr>)" "mem Q t {#}" "Result t = EFI_OUT_OF_RESOURCES"
    using B by (simp_all add: built_def)
  show ?thesis
    using None q quiet_fields [OF q(1)] quiet_Result_touch [OF q(1)] by (simp add: sent_def no_resources_def)
next
  case (Some b)
  from send_built [OF B [unfolded Some] env Q] obtain st u where u: "EftpSendPacket env b t = Some (st, u)"
    "sent Q {#b#} W s (st, u)" "LastCtrl u = LastCtrl s" "wire_of (Pkts u) b = Some W"
    by (auto elim!: okE)
  have m: "mem Q u {#b#}" "touch s u" using u(2) by (simp_all add: sent_def)
  show ?thesis
  proof (cases "EFI_ERROR st")
    case True
    from release_sent [OF m(1)] show ?thesis
      using True Some u m(2) by (auto elim!: ok_mono simp: sent_def intro: touch_trans)
  next
    case False
    from keep_ctrl_sent [OF m(1) u(4) Q] show ?thesis
      using False Some u m(2) by (auto elim!: ok_mono simp: sent_def intro: touch_trans)
  qed
qed

lemma EftpSendError_ok:
  assumes m: "mem Q s {#}" and env: "network_ok env" and D: "cstr Desc = Some t" "length t < 60000"
    and Q: "Q (sealed (9 + length t) EFI_EFTP_OPCODE_ERROR (NTOHS Code) (t @ [0]))"
  shows "ok (EftpSendError env Code Desc s)
    (\<lambda>(st, u). sent Q {#} (sealed (9 + length t) EFI_EFTP_OPCODE_ERROR (NTOHS Code) (t @ [0])) s (st, u) \<and>
      (\<not> EFI_ERROR st \<longrightarrow> LastCtrl u \<noteq> None))"
proof -
  obtain r u where "EftpBuildErrorPacket env Code Desc s = Some (r, u)"
    "built Q {#} (sealed (9 + length t) EFI_EFTP_OPCODE_ERROR (NTOHS Code) (t @ [0])) s (r, u)"
    using EftpBuildErrorPacket_ok [OF m env D, of Code] by (auto elim!: okE)
  from this send_ctrl_ok [of Q _ s r u env, OF this(2) env Q] show ?thesis
    by (simp add: EftpSendError_def del: ok_bind)
qed

section \<open>Sending again\<close>

lemma EftpCopyPacket_mem:
  assumes m: "mem Q s {#}" and b: "b \<in># refs s"
  shows "ok (EftpCopyPacket env b (Pkts s)) (\<lambda>(r, p). quiet {#} s (s\<lparr>Pkts := p\<rparr>) \<and> (case r of
      None \<Rightarrow> mem Q (s\<lparr>Pkts := p\<rparr>) {#}
    | Some c \<Rightarrow> \<exists>buf. own Q {#} (s\<lparr>Pkts := p\<rparr>) c buf \<and> wire_of p c = wire_of (Pkts s) b))"
proof -
  have h: "held (Pkts s) (refs s)" using mem_held [OF m] by simp
  obtain old where old: "Bufs (Pkts s) b = Some old" "buf_ok old" using h b by (rule held_liveE)
  then obtain opk where opk: "Packet old = Some opk" by (auto simp: buf_ok_def)
  show ?thesis
  proof (rule ok_mono [OF EftpCopyPacket_ok [OF h b]], clarify)
    fix r p
    assume k: "keeps (refs s) (Pkts s) (snd (r, p))"
      and c: "case fst (r, p) of None \<Rightarrow> held (snd (r, p)) (refs s)
        | Some c \<Rightarrow> c \<notin># refs s \<and> held (snd (r, p)) (add_mset c (refs s)) \<and>
          (\<exists>buf old pk. Bufs (snd (r, p)) c = Some buf \<and> buf_contents (Pkts s) b = Some old \<and>
             FragmentLength buf = FragmentLength old \<and> PacketSize buf = PacketSize old \<and>
             Packet buf = Some pk \<and> (\<forall>opk. Packet old = Some opk \<longrightarrow>
               pk\<lparr>Payload := []\<rparr> = opk\<lparr>Payload := []\<rparr> \<and>
               take (unat (PacketSize old) - 8) (Payload pk) = take (unat (PacketSize old) - 8) (Payload opk)))"
    have q: "quiet {#} s (s\<lparr>Pkts := p\<rparr>)" using k by (simp add: quiet_def)
    show "quiet {#} s (s\<lparr>Pkts := p\<rparr>) \<and> (case r of None \<Rightarrow> mem Q (s\<lparr>Pkts := p\<rparr>) {#}
      | Some c \<Rightarrow> \<exists>buf. own Q {#} (s\<lparr>Pkts := p\<rparr>) c buf \<and> wire_of p c = wire_of (Pkts s) b)"
    proof (cases r)
      case None
      then show ?thesis using c q k mem_pool [OF m, of p "{#}"] by simp
    next
      case (Some d)
      with c obtain buf pk where d: "d \<notin># refs s" "held p (add_mset d (refs s))" "Bufs p d = Some buf"
        "FragmentLength buf = FragmentLength old" "Packet buf = Some pk"
        "pk\<lparr>Payload := []\<rparr> = opk\<lparr>Payload := []\<rparr>"
        "take (unat (PacketSize old) - 8) (Payload pk) = take (unat (PacketSize old) - 8) (Payload opk)"
        using old(1) opk by (auto simp: buf_contents_def)
      have "unat (FragmentLength old) - 8 \<le> unat (PacketSize old) - 8"
        using old(2) by (auto simp: buf_ok_def intro: diff_le_mono)
      then have t: "take (unat (FragmentLength old) - 8) (Payload pk) = take (unat (FragmentLength old) - 8) (Payload opk)"
        using arg_cong [OF d(7), of "take (unat (FragmentLength old) - 8)"] by (simp add: min_absorb1)
      have "pk\<lparr>Payload := x\<rparr> = opk\<lparr>Payload := x\<rparr>" for x
        using d(6) by (cases pk; cases opk; simp)
      then have "wire_of p d = wire_of (Pkts s) b"
        using old(1) opk d(3-5) t by (simp add: wire_of_def on_wire_def EFTP_HEADER_LEN_def)
      moreover have "mem Q (s\<lparr>Pkts := p\<rparr>) {#d#}" using d(2) k by (intro mem_pool [OF m]) simp_all
      ultimately show ?thesis using Some d(1,3) q by (simp add: own_def)
    qed
  qed
qed

text \<open>The packet that is sent again is the one that was sent, or its copy.\<close>

lemma resend_last_ok:
  assumes m: "mem Q s {#}" and b: "add_mset b (mset (PendingPacketList s)) \<subseteq># refs s" and env: "network_ok env"
  shows "ok (resend_last env (Some b) s) (\<lambda>(st, u).
    sent Q {#} (the (wire_of (Pkts s) b)) s (st, u) \<and> LastCtrl u = LastCtrl s)"
proof -
  have bm: "b \<in># refs s" using b by (meson mset_subset_eqD union_single_eq_member)
  have h: "held (Pkts s) (refs s)" using mem_held [OF m] by simp
  obtain buf where buf: "Bufs (Pkts s) b = Some buf" "unat (RefCnt buf) = count (refs s) b" "0 < unat (RefCnt buf)"
    using h bm by (rule held_liveE)
  obtain W where W: "wire_of (Pkts s) b = Some W" using wire_of_live [OF h bm] by blast
  have QW: "Q W" using m bm W by (auto simp: mem_def)
  have nz: "RefCnt buf \<noteq> 0" using buf(3) by auto
  show ?thesis
  proof (cases "RefCnt buf > 1")
    case False
    then have "unat (RefCnt buf) \<le> 1" by (simp add: word_less_nat_alt)
    moreover have "count (mset (PendingPacketList s)) b + 1 \<le> count (refs s) b"
      using mset_subset_eq_count [OF b, of b] by simp
    ultimately have "count (mset (PendingPacketList s)) b = 0" using buf(2) by linarith
    then have np: "b \<notin> set (PendingPacketList s)" using count_eq_zero_iff by fastforce
    have "ok (EftpSendPacket env b s) (\<lambda>(st, u). sent Q {#} W s (st, u) \<and> LastCtrl u = LastCtrl s)"
    proof (rule ok_mono [OF EftpSendPacket_ok [OF m _ np _ env]])
      show "b \<in># refs s + {#}" "count {#} b \<le> 4" using bm by simp_all
      show "Q pk" if "wire_of (Pkts s) b = Some pk" for pk using that QW W by simp
    qed (auto simp: sent_def no_resources_def W split: if_splits)
    then show ?thesis
      using False nz buf(1) W by (auto simp: resend_last_def EftpResendPacket_def sent_def elim!: ok_mono)
  next
    case True
    obtain r p where c: "EftpCopyPacket env b (Pkts s) = Some (r, p)" "quiet {#} s (s\<lparr>Pkts := p\<rparr>)"
      "case r of None \<Rightarrow> mem Q (s\<lparr>Pkts := p\<rparr>) {#}
       | Some c \<Rightarrow> \<exists>buf. own Q {#} (s\<lparr>Pkts := p\<rparr>) c buf \<and> wire_of p c = wire_of (Pkts s) b"
      using EftpCopyPacket_mem [OF m bm, of env] by (auto elim!: okE)
    show ?thesis
    proof (cases r)
      case None
      then show ?thesis
        using True nz buf(1) W c
        by (simp add: resend_last_def EftpResendPacket_def sent_def no_resources_def)
    next
      case (Some d)
      with c(3) W obtain cb where o: "own Q {#} (s\<lparr>Pkts := p\<rparr>) d cb" "wire_of p d = Some W" by auto
      obtain st v e where v: "create_tx_event env d (s\<lparr>Pkts := p\<rparr>) = Some (st, v)" "quiet {#} (s\<lparr>Pkts := p\<rparr>) v"
        "own Q {#} v d (cb\<lparr>TxEvent := e\<rparr>)"
        using create_tx_event_ok [OF o(1), of env] by (auto elim!: okE)
      have qv: "quiet {#} s v" by (rule quiet_trans [OF c(2) v(2)])
      have ov: "mem Q v {#d#}" "d \<notin># refs v" using v(3) by (simp_all add: own_def)
      have wv: "wire_of (Pkts v) d = Some W"
        using o v(3) by (simp add: own_def wire_of_def on_wire_def)
      have eq: "resend_last env (Some b) s = (if EFI_ERROR st then do {
            s \<leftarrow> release d (v\<lparr>Result := EFI_OUT_OF_RESOURCES\<rparr>);
            Some (EFI_OUT_OF_RESOURCES, s) }
          else do {
            (st, s) \<leftarrow> EftpSendPacket env d v;
            s \<leftarrow> release d s;
            Some (if EFI_ERROR st then st else EFI_SUCCESS, s) })"
        using True nz buf(1) c(1) Some v(1) by (simp add: resend_last_def EftpResendPacket_def)
      show ?thesis
      proof (cases "EFI_ERROR st")
        case True
        have "mem Q (v\<lparr>Result := EFI_OUT_OF_RESOURCES\<rparr>) {#d#}" using ov(1) by simp
        moreover have "Wire v = Wire s" "LastCtrl v = LastCtrl s" "touch s v"
          using quiet_fields [where t = v and r = "Result v"] quiet_touch [OF qv] qv by simp_all
        ultimately have "ok (release d (v\<lparr>Result := EFI_OUT_OF_RESOURCES\<rparr>)) (\<lambda>u. touch s u \<and> mem Q u {#} \<and>
            Wire u = Wire s \<and> Result u = EFI_OUT_OF_RESOURCES \<and> LastCtrl u = LastCtrl s)"
          using touch_trans [of s "v\<lparr>Result := EFI_OUT_OF_RESOURCES\<rparr>"]
          by (intro ok_mono [OF release_sent]) auto
        then show ?thesis
          using True eq by (auto simp: sent_def no_resources_def elim!: ok_mono)
      next
        case False
        have "built Q {#} W s (Some d, v)"
          by (rule built_Some [OF qv ov(1)]) (use ov(2) quiet_refs [OF qv] wv in auto)
        from send_built [OF this env QW] obtain st' u where u: "EftpSendPacket env d v = Some (st', u)"
          "sent Q {#d#} W s (st', u)" "LastCtrl u = LastCtrl s" by (auto elim!: okE)
        have "mem Q u {#d#}" "touch s u" using u(2) by (simp_all add: sent_def)
        from release_sent [OF this(1)] show ?thesis
          using False eq u W \<open>touch s u\<close> by (auto elim!: ok_mono simp: sent_def intro: touch_trans)
      qed
    qed
  qed
qed

lemma EftpStartRcv_ok:
  assumes "EftpStartRcv env s = (st, s')"
  shows "if EFI_ERROR st then s' = (tick s)\<lparr>Result := EFI_DEVICE_ERROR\<rparr>
    else s' = (tick s)\<lparr>Receiving := True\<rparr>"
  using assms by (auto simp: EftpStartRcv_def Let_def split: if_splits)

end
