(* ===== verification/Eftp_Option.thy ===== *)
theory Eftp_Option
  imports Eftp_Packet
begin

text \<open>
  The options of requests and option acknowledgements: \<open>EftpOption.c\<close>, with the string routines of
  \<open>NetLib.c\<close> it uses. A pointer into a packet is the position behind the header.
\<close>

section \<open>Comparing and reading numbers\<close>

definition to_lower :: "u8 \<Rightarrow> int" where
  "to_lower c = (if 0x41 \<le> c \<and> c \<le> 0x5a then 0x61 + sint c - 0x41 else sint c)"

fun case_cmp :: "u8 list \<Rightarrow> u8 list \<Rightarrow> int option" where
  "case_cmp (l # ls) (r # rs) =
     (let Cmp = to_lower l - to_lower r in do {
        l' \<leftarrow> rd ls 0;
        r' \<leftarrow> rd rs 0;
        if Cmp = 0 \<and> l' \<noteq> 0 \<and> r' \<noteq> 0 then case_cmp ls rs
        else if Cmp = 0 \<and> l' \<noteq> r' then Some (if l' \<noteq> 0 then 1 else - 1)
        else Some Cmp })"
| "case_cmp _ _ = None"

definition NetAsciiStrCaseCmp :: "u8 list option \<Rightarrow> u8 list option \<Rightarrow> int option" where
  "NetAsciiStrCaseCmp a b =
     (case a of
        None \<Rightarrow> Some (if b = None then 0 else - 1)
      | Some l \<Rightarrow> (case b of None \<Rightarrow> Some 1 | Some r \<Rightarrow> case_cmp l r))"

definition IS_DIGIT :: "u8 \<Rightarrow> bool" where "IS_DIGIT c = (0x30 \<le> c \<and> c \<le> 0x39)"

fun to_u64_loop :: "u8 list \<Rightarrow> u64 \<Rightarrow> u64 option" where
  "to_u64_loop [] Num = None"
| "to_u64_loop (c # Str) Num =
     (if IS_DIGIT c then to_u64_loop Str (SctMultU64x32 Num 10 + ucast c - 0x30) else Some Num)"

definition NetAsciiStrToU64 :: "u8 list option \<Rightarrow> u64 option" where
  "NetAsciiStrToU64 Str = (case Str of None \<Rightarrow> Some 0 | Some s \<Rightarrow> to_u64_loop s 0)"

fun only_digits :: "u8 list \<Rightarrow> bool option" where
  "only_digits [] = None"
| "only_digits (c # P) = (if c = 0 then Some True else if IS_DIGIT c then only_digits P else Some False)"

text \<open>The number, or \<open>None\<close> inside for \<open>EFI_INVALID_PARAMETER\<close>.\<close>

definition StrToUint64 :: "u8 list \<Rightarrow> u64 option option" where
  "StrToUint64 Str = do {
     c \<leftarrow> rd Str 0;
     if c = 0 then Some None
     else do {
       ok \<leftarrow> only_digits Str;
       if ok then map_option Some (NetAsciiStrToU64 (Some Str)) else Some None } }"

section \<open>The table of the options\<close>

definition EftpInitOption :: "EFTP_OPTION" where
  "EftpInitOption = \<lparr>OptTimeout = 3, BlkSize = 1024, BlknoLen = 2, Tsize = 0, Pktdelay = 0,
     NBlkInStream = 1, Exist = 0\<rparr>"

text \<open>The result is the new option structure, or \<open>None\<close> inside for \<open>EFI_INVALID_PARAMETER\<close>.\<close>

definition ExtractTsize :: "EFTP_OPTION \<Rightarrow> u8 list \<Rightarrow> EFTP_OPTION option option" where
  "ExtractTsize opt Str = do {
     v \<leftarrow> StrToUint64 Str;
     Some (map_option (\<lambda>i. opt\<lparr>Tsize := i\<rparr>) v) }"

definition ExtractTimeout :: "EFTP_OPTION \<Rightarrow> u8 list \<Rightarrow> EFTP_OPTION option option" where
  "ExtractTimeout opt Str = do {
     v \<leftarrow> StrToUint64 Str;
     Some (case v of
       None \<Rightarrow> None
     | Some i \<Rightarrow> if i < 1 \<or> i > 255 then None else Some (opt\<lparr>OptTimeout := ucast i\<rparr>)) }"

definition ExtractBlksize :: "EFTP_OPTION \<Rightarrow> u8 list \<Rightarrow> EFTP_OPTION option option" where
  "ExtractBlksize opt Str = do {
     v \<leftarrow> StrToUint64 Str;
     Some (case v of
       None \<Rightarrow> None
     | Some i \<Rightarrow> if i > 65464 \<or> i < 8 then None else Some (opt\<lparr>BlkSize := ucast i\<rparr>)) }"

type_synonym extractor = "EFTP_OPTION \<Rightarrow> u8 list \<Rightarrow> EFTP_OPTION option option"

text \<open>The table ends with an empty entry; no entry has a function that verifies.\<close>

definition mOptionObjs :: "(u8 list option \<times> extractor option) list" where
  "mOptionObjs =
     [(Some (ascii ''tsize''), Some ExtractTsize), (Some (ascii ''timeout''), Some ExtractTimeout),
      (Some (ascii ''blksize''), Some ExtractBlksize), (None, None)]"

definition EFTP_OPTION_MCAST :: nat where "EFTP_OPTION_MCAST = 3"
definition EFTP_OPTION_MAX :: nat where "EFTP_OPTION_MAX = 7"

definition mUnsupportedOptions :: "u8 list option list" where
  "mUnsupportedOptions =
     [Some (ascii ''restart''), Some (ascii ''session''), Some (ascii ''pktdelay''),
      Some (ascii ''streammulticastbigblk#''), None, None]"

section \<open>Checking the options of the user\<close>

fun is_unsupported :: "u8 list option list \<Rightarrow> u8 list \<Rightarrow> bool option" where
  "is_unsupported [] Str = Some False"
| "is_unsupported (u # us) Str = do {
     c \<leftarrow> NetAsciiStrCaseCmp (Some Str) u;
     if c = 0 then Some True else is_unsupported us Str }"

text \<open>The loop over the table, of which \<open>n\<close> steps are left.\<close>

fun check_objs :: "nat \<Rightarrow> nat \<Rightarrow> u8 list \<Rightarrow> u8 list \<Rightarrow> EFTP_OPTION \<Rightarrow> EFTP_OPTION option option" where
  "check_objs 0 i n v opt = Some (Some opt)"
| "check_objs (Suc k) i n v opt = do {
     (Name, Extract) \<leftarrow> rd mOptionObjs i;
     c \<leftarrow> NetAsciiStrCaseCmp Name (Some n);
     if c \<noteq> 0 \<or> i = EFTP_OPTION_MCAST then check_objs k (Suc i) n v opt
     else do {
       f \<leftarrow> Extract;
       r \<leftarrow> f opt v;
       (case r of None \<Rightarrow> Some None | Some opt \<Rightarrow> check_objs k (Suc i) n v opt) } }"

fun check_list :: "option_strings \<Rightarrow> EFTP_OPTION \<Rightarrow> EFI_STATUS option" where
  "check_list [] opt = Some EFI_SUCCESS"
| "check_list ((Some n, Some v) # os) opt = do {
     u \<leftarrow> is_unsupported mUnsupportedOptions n;
     if u then Some EFI_UNSUPPORTED
     else do {
       r \<leftarrow> check_objs EFTP_OPTION_MAX 0 n v opt;
       (case r of None \<Rightarrow> Some EFI_INVALID_PARAMETER | Some opt \<Rightarrow> check_list os opt) } }"
| "check_list (_ # os) opt = Some EFI_INVALID_PARAMETER"

definition EftpCheckOption :: "option_strings option \<Rightarrow> u32 \<Rightarrow> EFTP_OPTION \<Rightarrow> EFI_STATUS option" where
  "EftpCheckOption List Count Stk =
     (if Count = 0 then Some EFI_SUCCESS
      else do { os \<leftarrow> List; if unat Count \<le> length os then check_list (take (unat Count) os) Stk
                            else None })"

section \<open>Parsing the options of a packet\<close>

text \<open>\<open>while ((P < Last) && *P) P++\<close>\<close>

function skip_str :: "u8 list \<Rightarrow> nat \<Rightarrow> nat \<Rightarrow> nat option" where
  "skip_str d P Last =
     (if P < Last then do {
        c \<leftarrow> rd d P;
        if c \<noteq> 0 then skip_str d (P + 1) Last else Some P }
      else Some P)"
  by pat_completeness auto
termination by (relation "measure (\<lambda>(d, P, Last). Last - P)") auto

declare skip_str.simps [simp del]

lemma skip_str_range: "skip_str d P Last = Some Q \<Longrightarrow> P \<le> Last \<Longrightarrow> P \<le> Q \<and> Q \<le> Last"
proof (induction d P Last rule: skip_str.induct)
  case (1 d P Last)
  then show ?case
    by (subst (asm) (2) skip_str.simps)
      (auto split: if_splits simp: bind_eq_Some_conv dest!: Suc_leD)
qed

text \<open>One pass over the pairs: the status and the positions of the names and the values.\<close>

function option_pairs :: "u8 list \<Rightarrow> nat \<Rightarrow> nat \<Rightarrow> (EFI_STATUS \<times> (nat \<times> nat) list) option" where
  "option_pairs d P Last =
     (if P > Last then Some (EFI_NOT_FOUND, [])
      else if P = Last then Some (EFI_SUCCESS, [])
      else do {
        Q \<leftarrow> skip_str d P Last;
        if Q = Last then Some (EFI_PROTOCOL_ERROR, [])
        else do {
          R \<leftarrow> skip_str d (Q + 1) Last;
          if R = Last then Some (EFI_PROTOCOL_ERROR, [])
          else do {
            (st, ps) \<leftarrow> option_pairs d (R + 1) Last;
            Some (st, (P, Q + 1) # ps) } } })"
  by pat_completeness auto
termination
  by (relation "measure (\<lambda>(d, P, Last). Last - P)")
    (auto dest!: skip_str_range)

declare option_pairs.simps [simp del]

text \<open>Where the pairs begin: behind the file name and the mode of a request, at once in an option
  acknowledgement. \<open>None\<close> inside is \<open>EFI_INVALID_PARAMETER\<close>.\<close>

definition options_start :: "EFI_EFTP_PACKET \<Rightarrow> nat \<Rightarrow> nat option option" where
  "options_start pk Last =
     (let Code = NTOHS (OpCode pk) in
      if Code = EFI_EFTP_OPCODE_RRQ \<or> Code = EFI_EFTP_OPCODE_WRQ then do {
        P \<leftarrow> skip_str (Payload pk) 0 Last;
        if P = Last then Some None
        else do {
          P \<leftarrow> skip_str (Payload pk) (P + 1) Last;
          Some (if P = Last then None else Some (P + 1)) } }
      else if Code = EFI_EFTP_OPCODE_OACK then Some (Some 0)
      else Some None)"

text \<open>The status, the count when it is written, and the list when it is allocated and filled. The
  count is a byte; an entry outside the allocated list is an access outside its memory.\<close>

definition EftpGetOptions ::
    "bool \<Rightarrow> nat \<Rightarrow> EFI_EFTP_PACKET \<Rightarrow> bool \<Rightarrow> (EFI_STATUS \<times> u8 option \<times> (nat \<times> nat) list option) option" where
  "EftpGetOptions ok PacketLen pk wanted =
     (if PacketLen < EFTP_HEADER_LEN then None
      else (let Last = PacketLen - EFTP_HEADER_LEN in do {
        start \<leftarrow> options_start pk Last;
        (case start of
           None \<Rightarrow> Some (EFI_INVALID_PARAMETER, None, None)
         | Some Start \<Rightarrow> do {
             (st, ps) \<leftarrow> option_pairs (Payload pk) Start Last;
             let NOption = (of_nat (length ps) :: u8);
             if NOption = 0 \<or> \<not> wanted then Some (st, Some NOption, None)
             else if \<not> ok then Some (EFI_OUT_OF_RESOURCES, Some NOption, None)
             else if length ps \<le> unat NOption then Some (st, Some NOption, Some ps)
             else None }) }))"

definition EftpParseOptions ::
    "bool \<Rightarrow> u32 \<Rightarrow> EFI_EFTP_PACKET option \<Rightarrow> bool \<Rightarrow> bool \<Rightarrow>
     (EFI_STATUS \<times> u8 option \<times> (nat \<times> nat) list option) option" where
  "EftpParseOptions ok PacketLen pk has_count has_list =
     (case pk of
        None \<Rightarrow> Some (EFI_INVALID_PARAMETER, None, None)
      | Some pk \<Rightarrow>
          if unat PacketLen \<le> EFTP_HEADER_LEN \<or> \<not> has_count \<or> \<not> has_list
          then Some (EFI_INVALID_PARAMETER, None, None)
          else EftpGetOptions ok (unat PacketLen) pk True)"

text \<open>Extracting: the loop over the table stops at the entry that matches.\<close>

fun extract_objs :: "nat \<Rightarrow> nat \<Rightarrow> u8 list \<Rightarrow> u8 list \<Rightarrow> EFTP_OPTION \<Rightarrow> EFTP_OPTION option option" where
  "extract_objs 0 i n v opt = Some (Some opt)"
| "extract_objs (Suc k) i n v opt = do {
     (Name, Extract) \<leftarrow> rd mOptionObjs i;
     c \<leftarrow> NetAsciiStrCaseCmp Name (Some n);
     if c \<noteq> 0 then extract_objs k (Suc i) n v opt
     else do {
       f \<leftarrow> Extract;
       r \<leftarrow> f opt v;
       Some (map_option (\<lambda>opt. opt\<lparr>Exist := Exist opt OR push_bit i 1\<rparr>) r) } }"

fun extract_list :: "u8 list \<Rightarrow> (nat \<times> nat) list \<Rightarrow> EFTP_OPTION \<Rightarrow> (EFI_STATUS \<times> EFTP_OPTION) option" where
  "extract_list d [] opt = Some (EFI_SUCCESS, opt)"
| "extract_list d ((n, v) # ps) opt = do {
     r \<leftarrow> extract_objs EFTP_OPTION_MAX 0 (drop n d) (drop v d) opt;
     (case r of None \<Rightarrow> Some (EFI_INVALID_PARAMETER, opt) | Some opt \<Rightarrow> extract_list d ps opt) }"

definition EftpExtractOptions ::
    "bool \<Rightarrow> EFTP_OPTION \<Rightarrow> EFI_EFTP_PACKET \<Rightarrow> nat \<Rightarrow> (EFI_STATUS \<times> EFTP_OPTION) option" where
  "EftpExtractOptions ok opt pk PacketLen = do {
     (st, n, ps) \<leftarrow> EftpGetOptions ok PacketLen pk True;
     if EFI_ERROR st then Some (EFI_INVALID_PARAMETER, opt)
     else (case ps of
       None \<Rightarrow> Some (EFI_SUCCESS, EftpInitOption)
     | Some ps \<Rightarrow> extract_list (Payload pk) ps EftpInitOption) }"

end
