(* ===== verification/Eftp_Rrq.thy ===== *)
theory Eftp_Rrq
  imports Eftp_Packet
begin

text \<open>
  The download client: \<open>EftpRRQ.c\<close> with the macros of \<open>EftpRRQ.h\<close>. Every callback is a
  function on the session; the routines of the two roles are the branches of \<open>rcv_data\<close>,
  \<open>rcv_error\<close>, \<open>rcv_oack\<close> and \<open>role_timer\<close>. The branches the source compiles out with \<open>#if 0\<close> are
  not modelled, as they are not in the program.
\<close>

section \<open>Shutting down\<close>

definition RRQ_SILENT_SHUTDOWN :: "EFTP_IO_PRIVATE \<Rightarrow> EFTP_IO_PRIVATE" where
  "RRQ_SILENT_SHUTDOWN s = EftpSetTimer 0 EFTP_TIMEWAIT_TIME (s\<lparr>State := EFTP_TIME_WAIT\<rparr>)"

definition RRQ_LOUD_SHUTDOWN :: "EFTP_IO_PRIVATE \<Rightarrow> EFTP_IO_PRIVATE option" where
  "RRQ_LOUD_SHUTDOWN s =
     (if State s = EFTP_TIME_WAIT then None
      else Some (EftpSetTimer EFTP_CLOSEING_TIME 0 (s\<lparr>State := EFTP_RRQ_CLOSEING\<rparr>)))"

definition EftpRrqChangeRole :: "EFTP_RRQ_ROLE \<Rightarrow> EFTP_RRQ_STATE \<Rightarrow> EFTP_RRQ_STATE" where
  "EftpRrqChangeRole Type r = r\<lparr>Role := Type\<rparr>"

definition EftpInitRrqState :: "eftp_env \<Rightarrow> EFTP_IO_PRIVATE \<Rightarrow> EFTP_RRQ_STATE option \<times> EFTP_IO_PRIVATE" where
  "EftpInitRrqState env s =
     (if AllocPool env (now s)
      then (Some (EftpRrqChangeRole EFTP_RRQ_ROLE_INIT
              \<lparr>LostPacketList = [], LostListSize = 0, Role = EFTP_RRQ_ROLE_INIT\<rparr>), tick s)
      else (None, (tick s)\<lparr>Result := EFI_OUT_OF_RESOURCES\<rparr>))"

definition EftpRrqFlushLostBlock :: "EFTP_RRQ_STATE \<Rightarrow> EFTP_RRQ_STATE" where
  "EftpRrqFlushLostBlock r = r\<lparr>LostPacketList := [], LostListSize := 0\<rparr>"

definition release_field_Request :: "EFTP_IO_PRIVATE \<Rightarrow> EFTP_IO_PRIVATE option" where
  "release_field_Request s = do {
     s \<leftarrow> release_opt (Request s) s;
     Some (s\<lparr>Request := None\<rparr>) }"

definition release_field_LastCtrl :: "EFTP_IO_PRIVATE \<Rightarrow> EFTP_IO_PRIVATE option" where
  "release_field_LastCtrl s = do {
     s \<leftarrow> release_opt (LastCtrl s) s;
     Some (s\<lparr>LastCtrl := None\<rparr>) }"

text \<open>The end of both clients: the timer's event is closed, the token gets its status, and the
  event of the user is signalled.\<close>

definition finish_session :: "EFTP_IO_PRIVATE \<Rightarrow> EFTP_IO_PRIVATE option" where
  "finish_session s =
     (let s = s\<lparr>TimeoutEvent := None, Token := (Token s)\<lparr>TokenStatus := Result s\<rparr>\<rparr> in
      if UserEvtFired s \<or> SynFinished s then None
      else
        (let s = (if TokenEvent (Token s)
                  then s\<lparr>UserEvtFired := True, Signals := Signals s + 1\<rparr> else s)
         in Some (s\<lparr>SynFinished := True, State := EFTP_INIT\<rparr>)))"

definition EftpRrqCleanUp :: "EFTP_IO_PRIVATE \<Rightarrow> EFTP_IO_PRIVATE option" where
  "EftpRrqCleanUp s = do {
     r \<leftarrow> RrqState s;
     let r = (if LostPacketList r \<noteq> [] then EftpRrqFlushLostBlock r else r);
     s \<leftarrow> release_field_Request (s\<lparr>RrqState := None\<rparr>);
     s \<leftarrow> release_field_LastCtrl s;
     finish_session s }"

text \<open>A buffer comes back from the network.\<close>

definition recycle :: "nat \<Rightarrow> EFTP_IO_PRIVATE \<Rightarrow> EFTP_IO_PRIVATE option" where
  "recycle b s =
     (if \<not> EntryInList (PendingPacketList s) b then None
      else release b (s\<lparr>NPendingPacket := NPendingPacket s - 1,
                       PendingPacketList := remove1 b (PendingPacketList s)\<rparr>))"

definition EftpRrqTxCallback :: "nat \<Rightarrow> EFTP_IO_PRIVATE \<Rightarrow> EFTP_IO_PRIVATE option" where
  "EftpRrqTxCallback b s =
     (case State s of
        EFTP_RRQ_SENT \<Rightarrow> recycle b s
      | EFTP_RRQ_ESTABLISHED \<Rightarrow> recycle b s
      | EFTP_RRQ_CLOSEING \<Rightarrow> recycle b s
      | EFTP_TIME_WAIT \<Rightarrow> do {
          s \<leftarrow> recycle b s;
          if NPendingPacket s = 0 then EftpRrqCleanUp s else Some s }
      | _ \<Rightarrow> None)"

section \<open>Receiving data\<close>

definition MAX_REAL_FILE_SIZE :: u64 where "MAX_REAL_FILE_SIZE = 10485760"

text \<open>The callback of the user that checks a packet.\<close>

definition check_packet ::
    "eftp_env \<Rightarrow> EFI_EFTP_PACKET \<Rightarrow> EFTP_IO_PRIVATE \<Rightarrow> EFI_STATUS \<times> EFTP_IO_PRIVATE" where
  "check_packet env pk s =
     (case CheckPacket env of
        None \<Rightarrow> (EFI_SUCCESS, s)
      | Some f \<Rightarrow> (f (now s) pk, tick s))"

definition save_data :: "EFI_EFTP_PACKET \<Rightarrow> u64 \<Rightarrow> u64 \<Rightarrow> u16 \<Rightarrow> EFI_EFTP_TOKEN \<Rightarrow> u8 list \<Rightarrow>
    EFI_EFTP_TOKEN option" where
  "save_data pk Start DataLen Blk tok buf = do {
     rest \<leftarrow> (if unat Start \<le> length buf
             then SctCopyMem (drop (unat Start) buf) (Payload pk) (unat DataLen) else None);
     let tok = tok\<lparr>Buffer := Some (take (unat Start) buf @ rest)\<rparr>;
     Some (if DataLen \<le> ucast Blk then tok\<lparr>BufferSize := Start + DataLen\<rparr> else tok) }"

definition EftpRrqSaveBlk ::
    "eftp_env \<Rightarrow> EFI_EFTP_PACKET \<Rightarrow> u64 \<Rightarrow> EFTP_IO_PRIVATE \<Rightarrow> (EFI_STATUS \<times> EFTP_IO_PRIVATE) option" where
  "EftpRrqSaveBlk env pk PacketLen s =
     (case check_packet env pk s of (st, s) \<Rightarrow>
        if EFI_ERROR st then Some (st, s\<lparr>Result := EFI_ABORTED\<rparr>)
        else (case Buffer (Token s) of
          None \<Rightarrow> Some (EFI_SUCCESS, s)
        | Some buf \<Rightarrow>
            (let BlkNo = (ucast (NTOHS (CodeVar pk)) :: u64);
                 DataLen = PacketLen - of_nat EFTP_HEADER_LEN;
                 Start = SctMultU64x32 (BlkNo - 1) (ucast (BlkSize (Opt s)))
             in if Start + DataLen > MAX_REAL_FILE_SIZE
                then Some (EFI_ABORTED, s\<lparr>Token := (Token s)\<lparr>BufferSize := - 1\<rparr>,
                                           Result := EFI_BUFFER_TOO_SMALL\<rparr>)
                else do {
                  tok \<leftarrow> save_data pk Start DataLen (BlkSize (Opt s)) (Token s) buf;
                  Some (EFI_SUCCESS, s\<lparr>Token := tok\<rparr>) })))"

text \<open>An acknowledgement: the block number is stored after the checksum has been computed.\<close>

definition EftpRrqBuildAck ::
    "eftp_env \<Rightarrow> u64 \<Rightarrow> EFTP_IO_PRIVATE \<Rightarrow> (nat option \<times> EFTP_IO_PRIVATE) option" where
  "EftpRrqBuildAck env BlkNo s = do {
     (b, s) \<leftarrow> alloc env (of_nat EFTP_HEADER_LEN) s;
     (case b of
        None \<Rightarrow> Some (None, s\<lparr>Result := EFI_OUT_OF_RESOURCES\<rparr>)
      | Some b \<Rightarrow> do {
          pk \<leftarrow> the_packet b s;
          (st, s) \<leftarrow> create_tx_event env b s;
          if EFI_ERROR st then do {
            s \<leftarrow> release b (s\<lparr>Result := EFI_OUT_OF_RESOURCES\<rparr>);
            Some (None, s) }
          else do {
            pk \<leftarrow> put_header EFTP_HEADER_LEN EFI_EFTP_OPCODE_ACK 0 (EFTP_HEADER_LEN div 2) pk;
            s \<leftarrow> upd_buf b (\<lambda>buf. buf\<lparr>Packet := Some (pk\<lparr>CodeVar := HTONS (ucast BlkNo)\<rparr>)\<rparr>) s;
            s \<leftarrow> fill_tx_data env (of_nat EFTP_HEADER_LEN) b s;
            Some (Some b, s) } }) }"

definition EftpRrqSendAck ::
    "eftp_env \<Rightarrow> u64 \<Rightarrow> EFTP_IO_PRIVATE \<Rightarrow> (EFI_STATUS \<times> EFTP_IO_PRIVATE) option" where
  "EftpRrqSendAck env BlkNo s = do {
     (b, s) \<leftarrow> EftpRrqBuildAck env BlkNo s;
     (case b of
        None \<Rightarrow> Some (EFI_OUT_OF_RESOURCES, s\<lparr>Result := EFI_OUT_OF_RESOURCES\<rparr>)
      | Some b \<Rightarrow> do {
          (st, s) \<leftarrow> EftpSendPacket env b s;
          if EFI_ERROR st then do {
            s \<leftarrow> release b s;
            Some (EFI_DEVICE_ERROR, s\<lparr>Result := EFI_DEVICE_ERROR\<rparr>) }
          else do { s \<leftarrow> keep_ctrl b s; Some (EFI_SUCCESS, s) } }) }"

text \<open>\<open>SendErr\<close> with \<open>SilentShutdown\<close>: the error packet is sent and the session closes loudly, or
  silently when it cannot be sent.\<close>

definition rrq_send_err ::
    "eftp_env \<Rightarrow> u16 \<Rightarrow> u8 list \<Rightarrow> EFTP_IO_PRIVATE \<Rightarrow> (EFI_STATUS \<times> EFTP_IO_PRIVATE) option" where
  "rrq_send_err env Code Desc s = do {
     (st, s) \<leftarrow> EftpSendError env Code Desc s;
     if EFI_ERROR st then Some (EFI_ABORTED, RRQ_SILENT_SHUTDOWN s)
     else do { s \<leftarrow> RRQ_LOUD_SHUTDOWN s; Some (EFI_SUCCESS, s) } }"

definition drop_packet :: "EFTP_IO_PRIVATE \<Rightarrow> EFTP_IO_PRIVATE" where
  "drop_packet s = s\<lparr>DroppedPkts := DroppedPkts s + 1\<rparr>"

definition EFI_EFTP_ERRORCODE_NOT_DEFINED :: u16 where "EFI_EFTP_ERRORCODE_NOT_DEFINED = 0"
definition EFI_EFTP_ERRORCODE_DISK_FULL :: u16 where "EFI_EFTP_ERRORCODE_DISK_FULL = 3"
definition EFI_EFTP_ERRORCODE_TRY_LATTER :: u16 where "EFI_EFTP_ERRORCODE_TRY_LATTER = 9"

definition closing_resend :: "eftp_env \<Rightarrow> EFTP_IO_PRIVATE \<Rightarrow> (EFI_STATUS \<times> EFTP_IO_PRIVATE) option" where
  "closing_resend env s = do {
     (st, s) \<leftarrow> resend_last env (LastCtrl s) s;
     if EFI_ERROR st then Some (EFI_ABORTED, RRQ_SILENT_SHUTDOWN s) else Some (EFI_SUCCESS, s) }"

definition EftpRrqActiveRcvData ::
    "eftp_env \<Rightarrow> EFI_EFTP_PACKET \<Rightarrow> u64 \<Rightarrow> EFTP_IO_PRIVATE \<Rightarrow> (EFI_STATUS \<times> EFTP_IO_PRIVATE) option" where
  "EftpRrqActiveRcvData env pk PacketLen s =
     (if OpCode pk \<noteq> HTONS EFI_EFTP_OPCODE_DATA then Some (EFI_SUCCESS, s)
      else (let BlkNo = (ucast (NTOHS (CodeVar pk)) :: u64) in
        (case State s of
           EFTP_RRQ_ESTABLISHED \<Rightarrow>
             if BlkNo \<noteq> NextBlkNo s then Some (EFI_SUCCESS, drop_packet s)
             else do {
               (st, s) \<leftarrow> EftpRrqSaveBlk env pk PacketLen s;
               if EFI_ERROR st
               then rrq_send_err env EFI_EFTP_ERRORCODE_DISK_FULL
                      (if Result s = EFI_ABORTED then ascii ''User cancelled download''
                       else ascii ''Disk full'') s
               else do {
                 (st, s) \<leftarrow> EftpRrqSendAck env BlkNo s;
                 if EFI_ERROR st then Some (EFI_ABORTED, RRQ_SILENT_SHUTDOWN s)
                 else Some (EFI_SUCCESS, EftpSetTimer (ucast (Timeout s)) 0
                   (s\<lparr>NextBlkNo := NextBlkNo s + 1, LastBlkNo := BlkNo\<rparr>)) } }
         | EFTP_RRQ_CLOSEING \<Rightarrow> closing_resend env s
         | EFTP_TIME_WAIT \<Rightarrow> Some (EFI_ABORTED, s)
         | EFTP_INIT \<Rightarrow> None
         | EFTP_RRQ_SENT \<Rightarrow> None
         | _ \<Rightarrow> Some (EFI_SUCCESS, s))))"

definition EftpRrqInitRcvData ::
    "eftp_env \<Rightarrow> EFI_EFTP_PACKET \<Rightarrow> u64 \<Rightarrow> EFTP_IO_PRIVATE \<Rightarrow> (EFI_STATUS \<times> EFTP_IO_PRIVATE) option" where
  "EftpRrqInitRcvData env pk PacketLen s =
     (if OpCode pk \<noteq> HTONS EFI_EFTP_OPCODE_DATA then Some (EFI_SUCCESS, s)
      else (let BlkNo = (ucast (NTOHS (CodeVar pk)) :: u64) in
        (case State s of
           EFTP_RRQ_SENT \<Rightarrow>
             if BlkNo \<noteq> NextBlkNo s then Some (EFI_SUCCESS, drop_packet s)
             else do {
               r \<leftarrow> RrqState s;
               EftpRrqActiveRcvData env pk PacketLen
                 (s\<lparr>RrqState := Some (EftpRrqChangeRole EFTP_RRQ_ROLE_ACTIVE r),
                    State := EFTP_RRQ_ESTABLISHED\<rparr>) }
         | EFTP_RRQ_CLOSEING \<Rightarrow> closing_resend env s
         | EFTP_TIME_WAIT \<Rightarrow> Some (EFI_ABORTED, s)
         | EFTP_INIT \<Rightarrow> None
         | EFTP_RRQ_ESTABLISHED \<Rightarrow> None
         | _ \<Rightarrow> Some (EFI_SUCCESS, s))))"

section \<open>Receiving errors and option acknowledgements\<close>

definition EftpRrqInitRcvError :: "EFTP_IO_PRIVATE \<Rightarrow> (EFI_STATUS \<times> EFTP_IO_PRIVATE) option" where
  "EftpRrqInitRcvError s =
     (case State s of
        EFTP_RRQ_SENT \<Rightarrow> Some (EFI_ABORTED, RRQ_SILENT_SHUTDOWN (s\<lparr>Result := EFI_TFTP_ERROR\<rparr>))
      | EFTP_RRQ_CLOSEING \<Rightarrow> Some (EFI_ABORTED, RRQ_SILENT_SHUTDOWN (s\<lparr>Result := EFI_TFTP_ERROR\<rparr>))
      | EFTP_TIME_WAIT \<Rightarrow> Some (EFI_ABORTED, s)
      | EFTP_INIT \<Rightarrow> None
      | EFTP_RRQ_ESTABLISHED \<Rightarrow> None
      | _ \<Rightarrow> Some (EFI_SUCCESS, s))"

definition EftpRrqActiveRcvError :: "EFTP_IO_PRIVATE \<Rightarrow> (EFI_STATUS \<times> EFTP_IO_PRIVATE) option" where
  "EftpRrqActiveRcvError s =
     (case State s of
        EFTP_RRQ_ESTABLISHED \<Rightarrow>
          Some (EFI_ABORTED, RRQ_SILENT_SHUTDOWN (s\<lparr>Result := EFI_TFTP_ERROR\<rparr>))
      | EFTP_RRQ_CLOSEING \<Rightarrow> Some (EFI_ABORTED, RRQ_SILENT_SHUTDOWN (s\<lparr>Result := EFI_TFTP_ERROR\<rparr>))
      | EFTP_TIME_WAIT \<Rightarrow> Some (EFI_ABORTED, s)
      | _ \<Rightarrow> None)"

text \<open>In the initial role an option acknowledgement stops the receiving, and nothing else.\<close>

definition EftpRrqInitRcvOack :: "EFTP_IO_PRIVATE \<Rightarrow> (EFI_STATUS \<times> EFTP_IO_PRIVATE) option" where
  "EftpRrqInitRcvOack s = Some (EFI_ABORTED, s)"

text \<open>In the active role it ends the transfer.\<close>

definition EftpRrqActiveRcvOack :: "EFTP_IO_PRIVATE \<Rightarrow> (EFI_STATUS \<times> EFTP_IO_PRIVATE) option" where
  "EftpRrqActiveRcvOack s =
     (case State s of
        EFTP_RRQ_ESTABLISHED \<Rightarrow> do {
          s \<leftarrow> RRQ_LOUD_SHUTDOWN (s\<lparr>Eof := True, Result := EFI_SUCCESS\<rparr>);
          Some (EFI_SUCCESS, s) }
      | EFTP_RRQ_CLOSEING \<Rightarrow> Some (EFI_SUCCESS, s)
      | EFTP_TIME_WAIT \<Rightarrow> Some (EFI_SUCCESS, s)
      | _ \<Rightarrow> None)"

section \<open>The receive callback\<close>

text \<open>The handlers of the current role.\<close>

definition rcv_data ::
    "eftp_env \<Rightarrow> EFI_EFTP_PACKET \<Rightarrow> u64 \<Rightarrow> EFTP_IO_PRIVATE \<Rightarrow> (EFI_STATUS \<times> EFTP_IO_PRIVATE) option" where
  "rcv_data env pk PacketLen s = do {
     r \<leftarrow> RrqState s;
     (case Role r of
        EFTP_RRQ_ROLE_INIT \<Rightarrow> EftpRrqInitRcvData env pk PacketLen s
      | EFTP_RRQ_ROLE_ACTIVE \<Rightarrow> EftpRrqActiveRcvData env pk PacketLen s) }"

definition rcv_error :: "EFTP_IO_PRIVATE \<Rightarrow> (EFI_STATUS \<times> EFTP_IO_PRIVATE) option" where
  "rcv_error s = do {
     r \<leftarrow> RrqState s;
     (case Role r of
        EFTP_RRQ_ROLE_INIT \<Rightarrow> EftpRrqInitRcvError s
      | EFTP_RRQ_ROLE_ACTIVE \<Rightarrow> EftpRrqActiveRcvError s) }"

definition rcv_oack :: "EFTP_IO_PRIVATE \<Rightarrow> (EFI_STATUS \<times> EFTP_IO_PRIVATE) option" where
  "rcv_oack s = do {
     r \<leftarrow> RrqState s;
     (case Role r of
        EFTP_RRQ_ROLE_INIT \<Rightarrow> EftpRrqInitRcvOack s
      | EFTP_RRQ_ROLE_ACTIVE \<Rightarrow> EftpRrqActiveRcvOack s) }"

text \<open>The user's check of an option acknowledgement or an error. \<open>Inl\<close> is the status with which
  the callback goes to its end.\<close>

definition rrq_check ::
    "eftp_env \<Rightarrow> EFI_EFTP_PACKET \<Rightarrow> EFTP_IO_PRIVATE \<Rightarrow> ((EFI_STATUS \<times> EFTP_IO_PRIVATE) + EFTP_IO_PRIVATE) option" where
  "rrq_check env pk s =
     (let Code = NTOHS (OpCode pk) in
      if Code \<noteq> EFI_EFTP_OPCODE_OACK \<and> Code \<noteq> EFI_EFTP_OPCODE_ERROR then Some (Inr s)
      else (case check_packet env pk s of (st, s) \<Rightarrow>
        if \<not> EFI_ERROR st then Some (Inr s)
        else (let s = s\<lparr>Result := EFI_ABORTED\<rparr> in
          if Code = EFI_EFTP_OPCODE_ERROR then Some (Inl (st, RRQ_SILENT_SHUTDOWN s))
          else if State s = EFTP_TIME_WAIT then Some (Inl (st, s))
          else do {
            (_, s) \<leftarrow> rrq_send_err env EFI_EFTP_ERRORCODE_NOT_DEFINED (ascii ''User caceled download'') s;
            Some (Inl (st, s)) })))"

definition rrq_switch ::
    "eftp_env \<Rightarrow> EFI_EFTP_PACKET \<Rightarrow> EFTP_IO_PRIVATE \<Rightarrow> (EFI_STATUS \<times> EFTP_IO_PRIVATE) option" where
  "rrq_switch env pk s =
     (let PacketLen = unat (NTOHS (HdrLength pk)); Code = NTOHS (OpCode pk) in
      if Code = EFI_EFTP_OPCODE_DATA then
        (if PacketLen > EFTP_HEADER_LEN + unat (BlkSize (Opt s)) + unat (BlknoLen (Opt s)) \<or>
            PacketLen < EFTP_HEADER_LEN + unat (BlknoLen (Opt s))
         then Some (EFI_SUCCESS, drop_packet s)
         else do {
           (st, s) \<leftarrow> rcv_data env pk (of_nat PacketLen) s;
           Some (st, if EFI_ERROR st then s else s\<lparr>NRetry := 0\<rparr>) })
      else if Code = EFI_EFTP_OPCODE_ERROR then
        (if PacketLen < EFTP_HEADER_LEN + 1 then Some (EFI_SUCCESS, drop_packet s)
         else do {
           (st, s) \<leftarrow> rcv_error s;
           Some (st, if NTOHS (CodeVar pk) = EFI_EFTP_ERRORCODE_TRY_LATTER
                     then s\<lparr>Result := EFI_NOT_READY\<rparr> else s) })
      else if Code = EFI_EFTP_OPCODE_OACK then
        (if PacketLen < EFTP_HEADER_LEN then Some (EFI_SUCCESS, drop_packet s) else rcv_oack s)
      else Some (EFI_SUCCESS, drop_packet s))"

text \<open>The label \<open>CleanUp\<close>: the received data goes back to the network, and unless the status is
  an error the receiving starts again.\<close>

definition rrq_rx_end :: "eftp_env \<Rightarrow> bool \<Rightarrow> EFI_STATUS \<Rightarrow> EFTP_IO_PRIVATE \<Rightarrow> EFTP_IO_PRIVATE" where
  "rrq_rx_end env RxData st s =
     (let s = (if RxData \<and> RxEvent s then s\<lparr>Recycled := Recycled s + 1\<rparr> else s) in
      if EFI_ERROR st then s
      else (case EftpStartRcv env s of (st, s) \<Rightarrow>
        if EFI_ERROR st then RRQ_SILENT_SHUTDOWN s else s))"

text \<open>\<open>Status\<close> is the status of the receive token; its data are a length and the packet, which
  may be \<open>NULL\<close>.\<close>

definition EftpRrqRxCallback ::
    "eftp_env \<Rightarrow> EFI_STATUS \<Rightarrow> u32 \<Rightarrow> EFI_EFTP_PACKET option \<Rightarrow> EFTP_IO_PRIVATE \<Rightarrow> EFTP_IO_PRIVATE option" where
  "EftpRrqRxCallback env Status Len Pk s =
     (if State s = EFTP_INIT then Some s
      else if EFI_ERROR Status then
        Some (if Status = EFI_TIMEOUT \<or> Status = EFI_ABORTED then rrq_rx_end env False EFI_SUCCESS s
              else rrq_rx_end env False EFI_ABORTED (RRQ_SILENT_SHUTDOWN
                (if State s \<noteq> EFTP_TIME_WAIT \<and> State s \<noteq> EFTP_RRQ_CLOSEING
                 then s\<lparr>Result := (if Status = EFI_DEVICE_ERROR then EFI_DEVICE_ERROR
                                  else EFI_ICMP_ERROR)\<rparr>
                 else s)))
      else (let s = s\<lparr>RcvdPkts := RcvdPkts s + 1\<rparr> in
        if unat Len < EFTP_HEADER_LEN then Some (rrq_rx_end env True EFI_SUCCESS (drop_packet s))
        else (case Pk of
          None \<Rightarrow> Some (rrq_rx_end env True EFI_SUCCESS (drop_packet s))
        | Some pk \<Rightarrow> do {
            checked \<leftarrow> rrq_check env pk s;
            (st, s) \<leftarrow> (case checked of Inl x \<Rightarrow> Some x | Inr s \<Rightarrow> rrq_switch env pk s);
            Some (rrq_rx_end env True st s) })))"

section \<open>The timer\<close>

definition EftpRrqInitTimer :: "eftp_env \<Rightarrow> EFTP_IO_PRIVATE \<Rightarrow> EFTP_IO_PRIVATE option" where
  "EftpRrqInitTimer env s =
     (case State s of
        EFTP_RRQ_SENT \<Rightarrow>
          (let s = s\<lparr>NRetry := NRetry s + 1\<rparr> in
           if NRetry s > MaxNRetry s then Some (RRQ_SILENT_SHUTDOWN (s\<lparr>Result := EFI_TIMEOUT\<rparr>))
           else do {
             (st, s) \<leftarrow> resend_last env (Request s) s;
             Some (if EFI_ERROR st then RRQ_SILENT_SHUTDOWN s
                   else EftpSetTimer (ucast (Timeout s)) 0 s) })
      | EFTP_RRQ_CLOSEING \<Rightarrow> Some (RRQ_SILENT_SHUTDOWN s)
      | EFTP_TIME_WAIT \<Rightarrow> EftpRrqCleanUp s
      | EFTP_INIT \<Rightarrow> None
      | EFTP_RRQ_ESTABLISHED \<Rightarrow> None
      | _ \<Rightarrow> Some s)"

definition EftpRrqActiveTimer :: "eftp_env \<Rightarrow> EFTP_IO_PRIVATE \<Rightarrow> EFTP_IO_PRIVATE option" where
  "EftpRrqActiveTimer env s =
     (case State s of
        EFTP_RRQ_ESTABLISHED \<Rightarrow>
          (let s = s\<lparr>NRetry := NRetry s + 1\<rparr> in
           if NRetry s > MaxNRetry s then do {
             (_, s) \<leftarrow> rrq_send_err env EFI_EFTP_ERRORCODE_NOT_DEFINED (ascii ''Too many timeouts'')
               (s\<lparr>Result := EFI_TIMEOUT\<rparr>);
             Some s }
           else do {
             (st, s) \<leftarrow> resend_last env (LastCtrl s) s;
             Some (if EFI_ERROR st then RRQ_SILENT_SHUTDOWN s
                   else EftpSetTimer (ucast (Timeout s)) 0 s) })
      | EFTP_RRQ_CLOSEING \<Rightarrow> Some (RRQ_SILENT_SHUTDOWN s)
      | EFTP_TIME_WAIT \<Rightarrow> EftpRrqCleanUp s
      | EFTP_INIT \<Rightarrow> None
      | EFTP_RRQ_SENT \<Rightarrow> None
      | _ \<Rightarrow> Some s)"

definition role_timer :: "eftp_env \<Rightarrow> EFTP_IO_PRIVATE \<Rightarrow> EFTP_IO_PRIVATE option" where
  "role_timer env s = do {
     r \<leftarrow> RrqState s;
     (case Role r of
        EFTP_RRQ_ROLE_INIT \<Rightarrow> EftpRrqInitTimer env s
      | EFTP_RRQ_ROLE_ACTIVE \<Rightarrow> EftpRrqActiveTimer env s) }"

text \<open>The callback of the user on a timeout, which may end the session; \<open>Inl\<close> is that end.\<close>

definition EftpRrqTimer :: "eftp_env \<Rightarrow> EFTP_IO_PRIVATE \<Rightarrow> EFTP_IO_PRIVATE option" where
  "EftpRrqTimer env s =
     (if State s = EFTP_RRQ_CLOSEING \<or> State s = EFTP_TIME_WAIT then role_timer env s
      else (let s = s\<lparr>Timeouts := Timeouts s + 1\<rparr> in
        (case TimeoutCallback env of
           None \<Rightarrow> role_timer env s
         | Some f \<Rightarrow>
             (let st = f (now s); s = tick s in
              if EFI_ERROR st then Some (RRQ_SILENT_SHUTDOWN (s\<lparr>Result := EFI_ABORTED\<rparr>))
              else role_timer env s))))"

section \<open>Starting a download\<close>

definition EftpBuildRrq :: "eftp_env \<Rightarrow> u16 \<Rightarrow> EFTP_IO_PRIVATE \<Rightarrow> (EFI_STATUS \<times> EFTP_IO_PRIVATE) option" where
  "EftpBuildRrq env Code s = do {
     name \<leftarrow> Filename (Token s);
     (b, s) \<leftarrow> EftpBuildRequest env Code name (ModeStr (Token s)) (OptionCount (Token s))
       (OptionList (Token s)) s;
     (case b of
        None \<Rightarrow> Some (EFI_OUT_OF_RESOURCES, s)
      | Some b \<Rightarrow> do {
          s \<leftarrow> release_opt (Request s) s;
          Some (EFI_SUCCESS, s\<lparr>Request := Some b\<rparr>) }) }"

definition EftpInitReadHandler ::
    "eftp_env \<Rightarrow> u16 \<Rightarrow> EFTP_IO_PRIVATE \<Rightarrow> (EFI_STATUS \<times> EFTP_IO_PRIVATE) option" where
  "EftpInitReadHandler env Code s =
     (case EftpInitRrqState env s of (r, s) \<Rightarrow>
        let s = s\<lparr>RrqState := r\<rparr> in
        if r = None then Some (EFI_OUT_OF_RESOURCES, s)
        else (let st = CreateEvent env (now s); s = tick s in
          if EFI_ERROR st then Some (st, s)
          else (let s = s\<lparr>RxEvent := True\<rparr>; st = CreateEvent env (now s); s = tick s in
            if EFI_ERROR st then Some (st, s)
            else do {
              (st, s) \<leftarrow> EftpBuildRrq env Code (s\<lparr>TimeoutEvent := Some None, State := EFTP_RRQ_SENT\<rparr>);
              if EFI_ERROR st then Some (st, s)
              else do {
                b \<leftarrow> Request s;
                (st, s) \<leftarrow> EftpSendPacket env b s;
                Some (if EFI_ERROR st then st else EFI_SUCCESS, s) } })))"

end
