(* ===== verification/Eftp_Wrq.thy ===== *)
theory Eftp_Wrq
  imports Eftp_Option Eftp_Rrq
begin

text \<open>
  The upload client: \<open>EftpWRQ.c\<close> with the macros of \<open>EftpWRQ.h\<close>. The blocks that
  \<open>PacketNeeded\<close> allocates and the client frees are the environment's.
\<close>

section \<open>Building data packets\<close>

definition WRQ_SILENT_SHUTDOWN :: "EFTP_IO_PRIVATE \<Rightarrow> EFTP_IO_PRIVATE" where
  "WRQ_SILENT_SHUTDOWN s = EftpSetTimer 0 EFTP_TIMEWAIT_TIME (s\<lparr>State := EFTP_TIME_WAIT\<rparr>)"

definition WRQ_LOUD_SHUTDOWN :: "EFTP_IO_PRIVATE \<Rightarrow> EFTP_IO_PRIVATE option" where
  "WRQ_LOUD_SHUTDOWN s =
     (if State s = EFTP_TIME_WAIT then None
      else Some (EftpSetTimer EFTP_CLOSEING_TIME 0 (s\<lparr>State := EFTP_WRQ_CLOSEING\<rparr>)))"

text \<open>The data of a block: from the buffer of the user, or from its callback. The result is
  the size of the packet and its bytes, or \<open>None\<close> inside when the user cancels.\<close>

definition read_buffer :: "u64 \<Rightarrow> u8 list \<Rightarrow> u8 list \<Rightarrow> EFTP_IO_PRIVATE \<Rightarrow>
    (u32 \<times> u8 list \<times> EFTP_IO_PRIVATE) option" where
  "read_buffer BlkNo buf d s =
     (let Blk = (ucast (BlkSize (Opt s)) :: u64);
          End = SctMultU64x32 BlkNo Blk;
          Start = End - Blk;
          Size = (if End > BufferSize (Token s)
                  then ucast (BufferSize (Token s) - Start + of_nat EFTP_HEADER_LEN)
                  else ucast (BlkSize (Opt s)) + of_nat EFTP_HEADER_LEN) :: u32;
          s = (if End > BufferSize (Token s) then s\<lparr>LastBlkNo := BlkNo, Eof := True\<rparr> else s)
      in if unat Start \<le> length buf then do {
           d \<leftarrow> SctCopyMem d (drop (unat Start) buf) (unat (Size - of_nat EFTP_HEADER_LEN));
           Some (Size, d, s) }
         else None)"

definition read_callback :: "EFI_STATUS \<times> u16 \<times> u8 list \<Rightarrow> u64 \<Rightarrow> u8 list \<Rightarrow> EFTP_IO_PRIVATE \<Rightarrow>
    ((u32 \<times> u8 list) option \<times> EFTP_IO_PRIVATE) option" where
  "read_callback answer BlkNo d s =
     (case answer of (st, DataLen, DataBuf) \<Rightarrow>
        if EFI_ERROR st then Some (None, s\<lparr>Result := EFI_ABORTED\<rparr>)
        else if DataLen > BlkSize (Opt s) then Some (None, s\<lparr>Result := EFI_ABORTED\<rparr>)
        else do {
          let s = (if DataLen < BlkSize (Opt s) then s\<lparr>Eof := True, LastBlkNo := BlkNo\<rparr> else s);
          d \<leftarrow> SctCopyMem d DataBuf (unat DataLen);
          Some (Some (ucast DataLen + of_nat EFTP_HEADER_LEN, d), s) })"

definition EftpWrqReadBlk ::
    "eftp_env \<Rightarrow> nat \<Rightarrow> u64 \<Rightarrow> EFTP_IO_PRIVATE \<Rightarrow> (EFI_STATUS \<times> EFTP_IO_PRIVATE) option" where
  "EftpWrqReadBlk env b BlkNo s = do {
     pk \<leftarrow> the_packet b s;
     (r, s) \<leftarrow> (case Buffer (Token s) of
        Some buf \<Rightarrow> do {
          (Size, d, s) \<leftarrow> read_buffer BlkNo buf (Payload pk) s;
          Some (Some (Size, d), s) }
      | None \<Rightarrow> do {
          f \<leftarrow> PacketNeeded env;
          read_callback (f (now s)) BlkNo (Payload pk) (tick s) });
     (case r of
        None \<Rightarrow> Some (EFI_ABORTED, s)
      | Some (Size, d) \<Rightarrow> do {
          pk \<leftarrow> put_header (unat Size) EFI_EFTP_OPCODE_DATA (HTONS (ucast BlkNo)) (unat Size div 2)
            (pk\<lparr>Payload := d\<rparr>);
          s \<leftarrow> upd_buf b (\<lambda>buf. buf\<lparr>Packet := Some pk\<rparr>) s;
          s \<leftarrow> fill_tx_data env Size b s;
          Some (EFI_SUCCESS, s) }) }"

definition EftpWrqBuildData ::
    "eftp_env \<Rightarrow> u64 \<Rightarrow> EFTP_IO_PRIVATE \<Rightarrow> (nat option \<times> EFTP_IO_PRIVATE) option" where
  "EftpWrqBuildData env BlkNo s = do {
     (b, s) \<leftarrow> alloc env (of_nat EFTP_HEADER_LEN + ucast (BlkSize (Opt s))) s;
     (case b of
        None \<Rightarrow> Some (None, s\<lparr>Result := EFI_OUT_OF_RESOURCES\<rparr>)
      | Some b \<Rightarrow> do {
          (st, s) \<leftarrow> EftpWrqReadBlk env b BlkNo s;
          if EFI_ERROR st then do { s \<leftarrow> release b s; Some (None, s) }
          else do {
            (st, s) \<leftarrow> create_tx_event env b s;
            if EFI_ERROR st then do {
              s \<leftarrow> release b (s\<lparr>Result := EFI_OUT_OF_RESOURCES\<rparr>);
              Some (None, s) }
            else Some (Some b, s) } }) }"

section \<open>Cleaning up and the completion of a transmission\<close>

definition EftpWrqCleanUp :: "EFTP_IO_PRIVATE \<Rightarrow> EFTP_IO_PRIVATE option" where
  "EftpWrqCleanUp s = do {
     last \<leftarrow> WrqState s;
     s \<leftarrow> release_field_Request s;
     s \<leftarrow> release_field_LastCtrl s;
     s \<leftarrow> release_opt last s;
     finish_session (s\<lparr>WrqState := None\<rparr>) }"

definition EftpWrqTxCallback :: "nat \<Rightarrow> EFTP_IO_PRIVATE \<Rightarrow> EFTP_IO_PRIVATE option" where
  "EftpWrqTxCallback b s =
     (case State s of
        EFTP_INIT \<Rightarrow> None
      | EFTP_WRQ_SENT \<Rightarrow> recycle b s
      | EFTP_WRQ_ESTABLISHED \<Rightarrow> recycle b s
      | EFTP_WRQ_CLOSEING \<Rightarrow> recycle b s
      | EFTP_TIME_WAIT \<Rightarrow> do {
          s \<leftarrow> recycle b s;
          if NPendingPacket s = 0 then EftpWrqCleanUp s else Some s }
      | _ \<Rightarrow> Some s)"

section \<open>Receiving\<close>

text \<open>The error packet of the client. The status is the one returned on a failure.\<close>

definition wrq_send_err ::
    "eftp_env \<Rightarrow> u16 \<Rightarrow> u8 list \<Rightarrow> EFTP_IO_PRIVATE \<Rightarrow> (EFI_STATUS \<times> EFTP_IO_PRIVATE) option" where
  "wrq_send_err env Code Desc s = do {
     (st, s) \<leftarrow> EftpSendError env Code Desc s;
     if EFI_ERROR st then Some (EFI_DEVICE_ERROR, WRQ_SILENT_SHUTDOWN s)
     else do { s \<leftarrow> WRQ_LOUD_SHUTDOWN s; Some (EFI_SUCCESS, s) } }"

definition set_last_data :: "nat \<Rightarrow> EFTP_IO_PRIVATE \<Rightarrow> EFTP_IO_PRIVATE option" where
  "set_last_data b s = do {
     last \<leftarrow> WrqState s;
     s \<leftarrow> release_opt last s;
     Some (s\<lparr>WrqState := Some (Some b)\<rparr>) }"

text \<open>The established state: the next block is built and sent.\<close>

definition wrq_next_block ::
    "eftp_env \<Rightarrow> u64 \<Rightarrow> EFTP_IO_PRIVATE \<Rightarrow> (EFI_STATUS \<times> EFTP_IO_PRIVATE) option" where
  "wrq_next_block env AckNo s =
     (if AckNo \<noteq> NextBlkNo s - 1 then Some (EFI_SUCCESS, s)
      else if Eof s then Some (EFI_ABORTED, WRQ_SILENT_SHUTDOWN (s\<lparr>Result := EFI_SUCCESS\<rparr>))
      else do {
        (b, s) \<leftarrow> EftpWrqBuildData env (NextBlkNo s) s;
        (case b of
           None \<Rightarrow>
             if Result s = EFI_ABORTED
             then wrq_send_err env EFI_EFTP_ERRORCODE_NOT_DEFINED (ascii ''User aborted the download'') s
             else Some (EFI_ABORTED, WRQ_SILENT_SHUTDOWN s)
         | Some b \<Rightarrow> do {
             (st, s) \<leftarrow> EftpSendPacket env b s;
             if EFI_ERROR st then do {
               s \<leftarrow> release b s;
               Some (EFI_ABORTED, WRQ_SILENT_SHUTDOWN s) }
             else do {
               s \<leftarrow> set_last_data b s;
               Some (EFI_SUCCESS, EftpSetTimer (ucast (Timeout s)) 0
                 (s\<lparr>NextBlkNo := NextBlkNo s + 1\<rparr>)) } }) })"

definition EftpWrqRcvAck ::
    "eftp_env \<Rightarrow> EFI_EFTP_PACKET \<Rightarrow> EFTP_IO_PRIVATE \<Rightarrow> (EFI_STATUS \<times> EFTP_IO_PRIVATE) option" where
  "EftpWrqRcvAck env pk s =
     (if OpCode pk \<noteq> HTONS EFI_EFTP_OPCODE_ACK then Some (EFI_SUCCESS, s)
      else (let AckNo = (ucast (NTOHS (CodeVar pk)) :: u64) in
        (case State s of
           EFTP_WRQ_SENT \<Rightarrow>
             if AckNo \<noteq> NextBlkNo s - 1 then Some (EFI_SUCCESS, s)
             else wrq_next_block env AckNo (s\<lparr>State := EFTP_WRQ_ESTABLISHED\<rparr>)
         | EFTP_WRQ_ESTABLISHED \<Rightarrow> wrq_next_block env AckNo s
         | EFTP_WRQ_CLOSEING \<Rightarrow> do {
             (st, s) \<leftarrow> resend_last env (LastCtrl s) s;
             if EFI_ERROR st then Some (EFI_DEVICE_ERROR, WRQ_SILENT_SHUTDOWN s)
             else Some (EFI_SUCCESS, s) }
         | EFTP_TIME_WAIT \<Rightarrow> Some (EFI_ABORTED, s)
         | EFTP_INIT \<Rightarrow> None
         | _ \<Rightarrow> Some (EFI_ABORTED, s))))"

definition EftpWrqRcvError :: "EFTP_IO_PRIVATE \<Rightarrow> (EFI_STATUS \<times> EFTP_IO_PRIVATE) option" where
  "EftpWrqRcvError s =
     (case State s of
        EFTP_WRQ_SENT \<Rightarrow> Some (EFI_SUCCESS, WRQ_SILENT_SHUTDOWN (s\<lparr>Result := EFI_TFTP_ERROR\<rparr>))
      | EFTP_WRQ_ESTABLISHED \<Rightarrow>
          Some (EFI_SUCCESS, WRQ_SILENT_SHUTDOWN (s\<lparr>Result := EFI_TFTP_ERROR\<rparr>))
      | EFTP_WRQ_CLOSEING \<Rightarrow> Some (EFI_SUCCESS, WRQ_SILENT_SHUTDOWN (s\<lparr>Result := EFI_TFTP_ERROR\<rparr>))
      | EFTP_INIT \<Rightarrow> None
      | _ \<Rightarrow> Some (EFI_ABORTED, s))"

definition EFI_EFTP_ERRORCODE_ILLEGAL_OPERATION :: u16 where
  "EFI_EFTP_ERRORCODE_ILLEGAL_OPERATION = 4"

definition EftpWrqRcvOack ::
    "eftp_env \<Rightarrow> EFI_EFTP_PACKET \<Rightarrow> nat \<Rightarrow> EFTP_IO_PRIVATE \<Rightarrow> (EFI_STATUS \<times> EFTP_IO_PRIVATE) option" where
  "EftpWrqRcvOack env pk PacketLen s =
     (case State s of
        EFTP_WRQ_SENT \<Rightarrow> do {
          (st, opt) \<leftarrow> EftpExtractOptions (AllocPool env (now s)) (Opt s) pk PacketLen;
          let s = (tick s)\<lparr>Opt := opt\<rparr>;
          if EFI_ERROR st then do {
            (st, s) \<leftarrow> EftpSendError env EFI_EFTP_ERRORCODE_ILLEGAL_OPERATION
              (ascii ''Mal-formed OACK packet'') s;
            if EFI_ERROR st then Some (EFI_DEVICE_ERROR, WRQ_SILENT_SHUTDOWN s)
            else do {
              s \<leftarrow> WRQ_LOUD_SHUTDOWN (s\<lparr>Result := EFI_DEVICE_ERROR\<rparr>);
              Some (EFI_SUCCESS, s) } }
          else EftpWrqRcvAck env
            \<lparr>HdrLength = 0, CheckSum = 0, OpCode = HTONS EFI_EFTP_OPCODE_ACK, CodeVar = 0, Payload = []\<rparr>
            (s\<lparr>Timeout := OptTimeout (Opt s), State := EFTP_WRQ_ESTABLISHED\<rparr>) }
      | EFTP_WRQ_ESTABLISHED \<Rightarrow> Some (EFI_SUCCESS, s)
      | EFTP_WRQ_CLOSEING \<Rightarrow> Some (EFI_SUCCESS, s)
      | EFTP_INIT \<Rightarrow> None
      | _ \<Rightarrow> Some (EFI_ABORTED, s))"

definition wrq_check ::
    "eftp_env \<Rightarrow> EFI_EFTP_PACKET \<Rightarrow> EFTP_IO_PRIVATE \<Rightarrow> ((EFI_STATUS \<times> EFTP_IO_PRIVATE) + EFTP_IO_PRIVATE) option" where
  "wrq_check env pk s =
     (let Code = NTOHS (OpCode pk) in
      if Code \<noteq> EFI_EFTP_OPCODE_OACK \<and> Code \<noteq> EFI_EFTP_OPCODE_ERROR then Some (Inr s)
      else (case check_packet env pk s of (st, s) \<Rightarrow>
        if \<not> EFI_ERROR st then Some (Inr s)
        else (let s = s\<lparr>Result := EFI_ABORTED\<rparr> in
          if Code = EFI_EFTP_OPCODE_ERROR then Some (Inl (st, WRQ_SILENT_SHUTDOWN s))
          else if State s = EFTP_TIME_WAIT then Some (Inl (st, s))
          else do {
            (_, s) \<leftarrow> wrq_send_err env EFI_EFTP_ERRORCODE_NOT_DEFINED (ascii ''User caceled download'') s;
            Some (Inl (st, s)) })))"

definition wrq_switch ::
    "eftp_env \<Rightarrow> EFI_EFTP_PACKET \<Rightarrow> EFTP_IO_PRIVATE \<Rightarrow> (EFI_STATUS \<times> EFTP_IO_PRIVATE) option" where
  "wrq_switch env pk s =
     (let PacketLen = unat (NTOHS (HdrLength pk)); Code = NTOHS (OpCode pk) in
      if Code = EFI_EFTP_OPCODE_ACK then
        (if PacketLen \<noteq> EFTP_HEADER_LEN then Some (EFI_SUCCESS, s)
         else do {
           (st, s) \<leftarrow> EftpWrqRcvAck env pk s;
           Some (st, if EFI_ERROR st then s else s\<lparr>NRetry := 0\<rparr>) })
      else if Code = EFI_EFTP_OPCODE_ERROR then
        (if PacketLen < EFTP_HEADER_LEN + 1 then Some (EFI_SUCCESS, s) else EftpWrqRcvError s)
      else if Code = EFI_EFTP_OPCODE_OACK then
        (if PacketLen < EFTP_HEADER_LEN then Some (EFI_SUCCESS, s)
         else EftpWrqRcvOack env pk PacketLen s)
      else Some (EFI_SUCCESS, s))"

definition wrq_rx_end :: "eftp_env \<Rightarrow> bool \<Rightarrow> EFI_STATUS \<Rightarrow> EFTP_IO_PRIVATE \<Rightarrow> EFTP_IO_PRIVATE" where
  "wrq_rx_end env RxData st s =
     (let s = (if RxData then s\<lparr>Recycled := Recycled s + 1\<rparr> else s) in
      if EFI_ERROR st then s
      else (case EftpStartRcv env s of (st, s) \<Rightarrow>
        if EFI_ERROR st then WRQ_SILENT_SHUTDOWN s else s))"

definition EftpWrqRxCallback ::
    "eftp_env \<Rightarrow> EFI_STATUS \<Rightarrow> u32 \<Rightarrow> EFI_EFTP_PACKET option \<Rightarrow> EFTP_IO_PRIVATE \<Rightarrow> EFTP_IO_PRIVATE option" where
  "EftpWrqRxCallback env Status Len Pk s =
     (if State s = EFTP_INIT then None
      else if EFI_ERROR Status then
        Some (if Status = EFI_TIMEOUT \<or> Status = EFI_ABORTED \<or> Status = EFI_ICMP_ERROR
              then wrq_rx_end env False EFI_SUCCESS s
              else wrq_rx_end env False EFI_DEVICE_ERROR (WRQ_SILENT_SHUTDOWN
                (if State s \<noteq> EFTP_TIME_WAIT \<and> State s \<noteq> EFTP_WRQ_CLOSEING
                 then s\<lparr>Result := (if Status = EFI_DEVICE_ERROR then EFI_DEVICE_ERROR
                                  else EFI_ICMP_ERROR)\<rparr>
                 else s)))
      else if unat Len < EFTP_HEADER_LEN then Some (wrq_rx_end env True EFI_SUCCESS s)
      else (case Pk of
        None \<Rightarrow> Some (wrq_rx_end env True EFI_SUCCESS s)
      | Some pk \<Rightarrow> do {
          checked \<leftarrow> wrq_check env pk s;
          (st, s) \<leftarrow> (case checked of Inl x \<Rightarrow> Some x | Inr s \<Rightarrow> wrq_switch env pk s);
          Some (wrq_rx_end env True st s) }))"

section \<open>The timer\<close>

text \<open>Both retransmissions: too many of them end in \<open>give_up\<close>.\<close>

definition wrq_retry :: "eftp_env \<Rightarrow> nat option \<Rightarrow> (EFTP_IO_PRIVATE \<Rightarrow> EFTP_IO_PRIVATE option) \<Rightarrow>
    EFTP_IO_PRIVATE \<Rightarrow> EFTP_IO_PRIVATE option" where
  "wrq_retry env b give_up s =
     (let s = s\<lparr>NRetry := NRetry s + 1\<rparr> in
      if NRetry s > MaxNRetry s then give_up (s\<lparr>Result := EFI_TIMEOUT\<rparr>)
      else do {
        (st, s) \<leftarrow> resend_last env b s;
        Some (if EFI_ERROR st then WRQ_SILENT_SHUTDOWN s
              else EftpSetTimer (ucast (Timeout s)) 0 s) })"

definition wrq_state_timer :: "eftp_env \<Rightarrow> EFTP_IO_PRIVATE \<Rightarrow> EFTP_IO_PRIVATE option" where
  "wrq_state_timer env s =
     (case State s of
        EFTP_INIT \<Rightarrow> None
      | EFTP_WRQ_SENT \<Rightarrow> wrq_retry env (Request s) (Some \<circ> WRQ_SILENT_SHUTDOWN) s
      | EFTP_WRQ_ESTABLISHED \<Rightarrow> do {
          last \<leftarrow> WrqState s;
          wrq_retry env last (\<lambda>s. do {
            (_, s) \<leftarrow> wrq_send_err env EFI_EFTP_ERRORCODE_NOT_DEFINED (ascii ''Too many timeouts'') s;
            Some s }) s }
      | EFTP_WRQ_CLOSEING \<Rightarrow> Some (WRQ_SILENT_SHUTDOWN s)
      | EFTP_TIME_WAIT \<Rightarrow> EftpWrqCleanUp s
      | _ \<Rightarrow> Some s)"

definition EftpWrqTimer :: "eftp_env \<Rightarrow> EFTP_IO_PRIVATE \<Rightarrow> EFTP_IO_PRIVATE option" where
  "EftpWrqTimer env s =
     (if State s = EFTP_WRQ_CLOSEING \<or> State s = EFTP_TIME_WAIT then wrq_state_timer env s
      else (case TimeoutCallback env of
        None \<Rightarrow> wrq_state_timer env s
      | Some f \<Rightarrow>
          (let st = f (now s); s = tick s in
           if EFI_ERROR st then Some (WRQ_SILENT_SHUTDOWN (s\<lparr>Result := EFI_ABORTED\<rparr>))
           else wrq_state_timer env s)))"

end
