(* ===== verification/Eftp_Main.thy ===== *)
theory Eftp_Main
  imports Eftp_Wrq
begin

text \<open>
  The interface of the protocol: \<open>EftpMain.c\<close>, with the two routines of \<open>EftpWRQ.c\<close> that start an
  upload; and the events that drive a session. Between two events the session is at rest; an
  event runs one callback to its end, as the callbacks do at their task priority.
\<close>

section \<open>Starting an upload\<close>

definition EftpInitWrqState :: "eftp_env \<Rightarrow> EFTP_IO_PRIVATE \<Rightarrow> nat option option \<times> EFTP_IO_PRIVATE" where
  "EftpInitWrqState env s =
     (if AllocPool env (now s) then (Some None, tick s)
      else (None, (tick s)\<lparr>Result := EFI_OUT_OF_RESOURCES\<rparr>))"

definition EftpBuildWrq :: "eftp_env \<Rightarrow> EFTP_IO_PRIVATE \<Rightarrow> (EFI_STATUS \<times> EFTP_IO_PRIVATE) option" where
  "EftpBuildWrq env s = do {
     name \<leftarrow> Filename (Token s);
     (b, s) \<leftarrow> EftpBuildRequest env EFI_EFTP_OPCODE_WRQ name (ModeStr (Token s))
       (OptionCount (Token s)) (OptionList (Token s)) s;
     (case b of
        None \<Rightarrow> Some (EFI_OUT_OF_RESOURCES, s)
      | Some b \<Rightarrow> do {
          s \<leftarrow> release_opt (Request s) s;
          Some (EFI_SUCCESS, s\<lparr>Request := Some b\<rparr>) }) }"

definition EftpInitWriteHandler ::
    "eftp_env \<Rightarrow> EFTP_IO_PRIVATE \<Rightarrow> (EFI_STATUS \<times> EFTP_IO_PRIVATE) option" where
  "EftpInitWriteHandler env s =
     (case EftpInitWrqState env s of (w, s) \<Rightarrow>
        let s = s\<lparr>WrqState := w\<rparr> in
        if w = None then Some (EFI_OUT_OF_RESOURCES, s)
        else (let st = CreateEvent env (now s); s = tick s in
          if EFI_ERROR st then Some (st, s)
          else (let s = s\<lparr>RxEvent := True\<rparr>; st = CreateEvent env (now s); s = tick s in
            if EFI_ERROR st then Some (st, s)
            else do {
              (st, s) \<leftarrow> EftpBuildWrq env (s\<lparr>TimeoutEvent := Some None, State := EFTP_WRQ_SENT\<rparr>);
              if EFI_ERROR st then Some (st, s)
              else do {
                b \<leftarrow> Request s;
                (st, s) \<leftarrow> EftpSendPacket env b s;
                Some (if EFI_ERROR st then st else EFI_SUCCESS, s) } })))"

section \<open>Starting a session\<close>

text \<open>The parameters are checked before the session is touched; \<open>None\<close> inside is that they are
  right. \<open>Stk\<close> is the option structure on the stack.\<close>

definition bad_token ::
    "eftp_env \<Rightarrow> u16 \<Rightarrow> EFTP_OPTION \<Rightarrow> EFI_EFTP_TOKEN option \<Rightarrow> EFTP_IO_PRIVATE \<Rightarrow> EFI_STATUS option option" where
  "bad_token env Code Stk tok s =
     (case tok of
        None \<Rightarrow> Some (Some EFI_INVALID_PARAMETER)
      | Some tok \<Rightarrow>
          if OptionCount tok \<noteq> 0 \<and> OptionList tok = None \<or> Filename tok = None
          then Some (Some EFI_INVALID_PARAMETER)
          else do {
            st \<leftarrow> EftpCheckOption (OptionList tok) (OptionCount tok) Stk;
            Some (if EFI_ERROR st then Some st
              else if Code = EFI_EFTP_OPCODE_RRQ \<and> CheckPacket env = None \<and>
                (Buffer tok = None \<or> BufferSize tok = 0) then Some EFI_INVALID_PARAMETER
              else if Code = EFI_EFTP_OPCODE_WRQ \<and> PacketNeeded env = None \<and>
                (Buffer tok = None \<or> BufferSize tok = 0) then Some EFI_INVALID_PARAMETER
              else if \<not> Configured s then Some EFI_NOT_STARTED
              else if State s \<noteq> EFTP_INIT then Some EFI_ACCESS_DENIED
              else None) })"

definition reset_session :: "EFI_EFTP_TOKEN \<Rightarrow> EFTP_IO_PRIVATE \<Rightarrow> EFTP_IO_PRIVATE" where
  "reset_session tok s =
     (let s = s\<lparr>Opt := EftpInitOption, UserEvtFired := False, SynFinished := False,
                MaxNRetry := ucast (TryCount (ConfigData s)), Timeout := TimeoutValue (ConfigData s),
                Result := EFI_SUCCESS, NRetry := 0, Request := None, LastCtrl := None,
                NextBlkNo := 1, Eof := False, LastBlkNo := 0, RrqState := None, WrqState := None,
                TimeoutEvent := None, RxEvent := False, NPendingPacket := 0,
                PendingPacketList := [], Token := tok\<rparr>;
          s = (case OverrideData tok of
                 None \<Rightarrow> s
               | Some (try, t) \<Rightarrow> s\<lparr>MaxNRetry := ucast try, Timeout := t\<rparr>);
          s = (if MaxNRetry s = 0 then s\<lparr>MaxNRetry := 5\<rparr> else s)
      in if Timeout s = 0 then s\<lparr>Timeout := OptTimeout (Opt s)\<rparr> else s)"

text \<open>The label \<open>CleanUp\<close>.\<close>

definition init_cleanup :: "EFTP_IO_PRIVATE \<Rightarrow> EFTP_IO_PRIVATE option" where
  "init_cleanup s = do {
     s \<leftarrow> release_field_Request ((tick s)\<lparr>RxEvent := False\<rparr>);
     Some (s\<lparr>TimeoutEvent := None, State := EFTP_INIT\<rparr>) }"

text \<open>The status the call returns, or \<open>None\<close> when the token has no event and the call polls the
  network until the session has finished.\<close>

definition EftpInitPrivate ::
    "eftp_env \<Rightarrow> u16 \<Rightarrow> EFTP_OPTION \<Rightarrow> EFI_EFTP_TOKEN option \<Rightarrow> EFTP_IO_PRIVATE \<Rightarrow>
     (EFI_STATUS option \<times> EFTP_IO_PRIVATE) option" where
  "EftpInitPrivate env Code Stk tok s = do {
     bad \<leftarrow> bad_token env Code Stk tok s;
     (case (bad, tok) of
        (None, Some tok) \<Rightarrow>
          (let s = reset_session tok s;
               st1 = MnpConfigure env (now s); st2 = MnpConfigure env (now s + 1) in
           if EFI_ERROR st1 then Some (Some EFI_DEVICE_ERROR, tick s)
           else if EFI_ERROR st2 then Some (Some st2, tick (tick s))
           else do {
             (st, s) \<leftarrow> (if Code = EFI_EFTP_OPCODE_RRQ then EftpInitReadHandler env Code (tick (tick s))
                        else if Code = EFI_EFTP_OPCODE_WRQ then EftpInitWriteHandler env (tick (tick s))
                        else Some (st2, tick (tick s)));
             if EFI_ERROR st then do { s \<leftarrow> init_cleanup s; Some (Some st, s) }
             else (case EftpStartRcv env s of (st, s) \<Rightarrow>
               if EFI_ERROR st then do { s \<leftarrow> init_cleanup s; Some (Some st, s) }
               else (let s = EftpSetTimer (ucast (Timeout s)) 0 s in
                 Some (if TokenEvent (Token s) then Some st else None, s))) })
      | (st, _) \<Rightarrow> Some (st, s)) }"

text \<open>The rest of a call that polled.\<close>

definition poll_end :: "eftp_env \<Rightarrow> EFTP_IO_PRIVATE \<Rightarrow> EFI_STATUS \<times> EFTP_IO_PRIVATE" where
  "poll_end env s =
     (let st = MnpConfigure env (now s); s = tick s in
      if EFI_ERROR st then (EFI_DEVICE_ERROR, s)
      else (TokenStatus (Token s), s\<lparr>RxEvent := False\<rparr>))"

definition EftpReadFile ::
    "eftp_env \<Rightarrow> EFTP_OPTION \<Rightarrow> EFI_EFTP_TOKEN option \<Rightarrow> EFTP_IO_PRIVATE \<Rightarrow>
     (EFI_STATUS option \<times> EFTP_IO_PRIVATE) option" where
  "EftpReadFile env Stk tok s = EftpInitPrivate env EFI_EFTP_OPCODE_RRQ Stk tok s"

definition EftpWriteFile ::
    "eftp_env \<Rightarrow> EFTP_OPTION \<Rightarrow> EFI_EFTP_TOKEN option \<Rightarrow> EFTP_IO_PRIVATE \<Rightarrow>
     (EFI_STATUS option \<times> EFTP_IO_PRIVATE) option" where
  "EftpWriteFile env Stk tok s = EftpInitPrivate env EFI_EFTP_OPCODE_WRQ Stk tok s"

section \<open>Configuring\<close>

definition EftpConfigure ::
    "EFI_EFTP_CONFIG_DATA option \<Rightarrow> EFTP_IO_PRIVATE \<Rightarrow> (EFI_STATUS \<times> EFTP_IO_PRIVATE) option" where
  "EftpConfigure data s =
     (case data of
        None \<Rightarrow>
          (let s = s\<lparr>Configured := False\<rparr> in
           if State s = EFTP_INIT then Some (EFI_SUCCESS, s)
           else (let s = s\<lparr>Result := EFI_ABORTED\<rparr> in do {
             s \<leftarrow> (if RrqState s \<noteq> None then EftpRrqCleanUp s
                  else if WrqState s \<noteq> None then EftpWrqCleanUp s else Some s);
             Some (EFI_SUCCESS, s) }))
      | Some data \<Rightarrow>
          if State s \<noteq> EFTP_INIT then Some (EFI_ACCESS_DENIED, s)
          else Some (EFI_SUCCESS, s\<lparr>ConfigData := data, Configured := True\<rparr>))"

definition EftpGetModeData ::
    "bool \<Rightarrow> EFTP_IO_PRIVATE \<Rightarrow> EFI_STATUS \<times> (EFI_EFTP_CONFIG_DATA \<times> nat \<times> nat) option" where
  "EftpGetModeData ok s =
     (if \<not> ok then (EFI_INVALID_PARAMETER, None)
      else if \<not> Configured s then (EFI_NO_MAPPING, None)
      else (EFI_SUCCESS, Some (ConfigData s, 3, length mUnsupportedOptions)))"

section \<open>The events of a session\<close>

text \<open>The receive token comes back with a status and data, a packet comes back from the network,
  or the timer expires.\<close>

datatype event =
    Rx EFI_STATUS u32 "EFI_EFTP_PACKET option"
  | Tx nat
  | Timer

text \<open>What the environment may do: only what it was asked for. The received data are as long as
  the network says.\<close>

fun enabled :: "EFTP_IO_PRIVATE \<Rightarrow> event \<Rightarrow> bool" where
  "enabled s (Rx st len pk) =
     (Receiving s \<and> (case pk of None \<Rightarrow> True
        | Some pk \<Rightarrow> unat len = EFTP_HEADER_LEN + length (Payload pk)))"
| "enabled s (Tx b) = (b \<in> set (InFlight s))"
| "enabled s Timer = (case TimeoutEvent s of Some (Some t) \<Rightarrow> True | _ \<Rightarrow> False)"

text \<open>The callback of an event of a download.\<close>

fun rrq_step :: "eftp_env \<Rightarrow> event \<Rightarrow> EFTP_IO_PRIVATE \<Rightarrow> EFTP_IO_PRIVATE option" where
  "rrq_step env (Rx st len pk) s = EftpRrqRxCallback env st len pk (s\<lparr>Receiving := False\<rparr>)"
| "rrq_step env (Tx b) s = EftpRrqTxCallback b (s\<lparr>InFlight := remove1 b (InFlight s)\<rparr>)"
| "rrq_step env Timer s = EftpRrqTimer env (s\<lparr>TimeoutEvent := Some None\<rparr>)"

text \<open>And of an upload.\<close>

fun wrq_step :: "eftp_env \<Rightarrow> event \<Rightarrow> EFTP_IO_PRIVATE \<Rightarrow> EFTP_IO_PRIVATE option" where
  "wrq_step env (Rx st len pk) s = EftpWrqRxCallback env st len pk (s\<lparr>Receiving := False\<rparr>)"
| "wrq_step env (Tx b) s = EftpWrqTxCallback b (s\<lparr>InFlight := remove1 b (InFlight s)\<rparr>)"
| "wrq_step env Timer s = EftpWrqTimer env (s\<lparr>TimeoutEvent := Some None\<rparr>)"

text \<open>A history of a session: events the environment may cause (\<open>can\<close>, which is \<open>enabled\<close>
  or narrower), while the session is running, each run to its end.\<close>

inductive history :: "(EFTP_IO_PRIVATE \<Rightarrow> event \<Rightarrow> bool) \<Rightarrow>
    (event \<Rightarrow> EFTP_IO_PRIVATE \<Rightarrow> EFTP_IO_PRIVATE option) \<Rightarrow>
    EFTP_IO_PRIVATE \<Rightarrow> event list \<Rightarrow> EFTP_IO_PRIVATE \<Rightarrow> bool"
  for can :: "EFTP_IO_PRIVATE \<Rightarrow> event \<Rightarrow> bool"
    and step :: "event \<Rightarrow> EFTP_IO_PRIVATE \<Rightarrow> EFTP_IO_PRIVATE option" where
  history_start: "history can step s [] s"
| history_event: "history can step s es t \<Longrightarrow> State t \<noteq> EFTP_INIT \<Longrightarrow> can t e \<Longrightarrow>
    step e t = Some u \<Longrightarrow> history can step s (es @ [e]) u"

inductive_cases history_NilE: "history can step s [] t"

end
