(* ===== verification/Eftp_Session.thy ===== *)
theory Eftp_Session
  imports Eftp_Send Eftp_Main
begin

text \<open>
  What both clients share: giving references up, a packet that comes back from the network, the
  timer, the end of a session; and the locale \<open>timed_session\<close> of the sessions that an invariant
  keeps alive and the timer ends.
\<close>

section \<open>Giving references up\<close>

lemma mem_less:
  assumes "mem Q s L" and "held (Pkts t) (refs t + L)" and "keeps (refs t) (Pkts s) (Pkts t)"
    and "refs t \<subseteq># refs s" and "InFlight t = PendingPacketList t" and "distinct (PendingPacketList t)"
    and "NPendingPacket t = of_nat (length (PendingPacketList t))" and "Wire t = Wire s"
  shows "mem Q t L"
proof -
  have "Q pk" if "b \<in># refs t" "wire_of (Pkts t) b = Some pk" for b pk
  proof -
    have "wire_of (Pkts s) b = Some pk" using keeps_wire [OF assms(3) that(1)] that(2) by simp
    moreover have "b \<in># refs s" using assms(4) that(1) by (rule mset_subset_eqD)
    ultimately show ?thesis using assms(1) by (simp add: mem_def)
  qed
  then show ?thesis using assms by (simp add: mem_def)
qed

lemma release_opt_ok:
  assumes "held (Pkts s) (opt_ref b + R)"
  shows "ok (release_opt b s) (\<lambda>t. \<exists>p. t = s\<lparr>Pkts := p\<rparr> \<and> held p R \<and> keeps R (Pkts s) p)"
proof (cases b)
  case None
  then show ?thesis using assms by (auto simp: release_opt_def intro!: exI [of _ "Pkts s"])
next
  case (Some c)
  then have "held (Pkts s) (add_mset c R)" using assms by simp
  from release_ok [OF this] show ?thesis using Some by (auto simp: release_opt_def elim!: ok_mono)
qed

lemma release_field_Request_ok:
  assumes m: "mem Q s {#}"
  shows "ok (release_field_Request s) (\<lambda>t. \<exists>p. t = s\<lparr>Pkts := p, Request := None\<rparr> \<and> mem Q t {#})"
proof -
  let ?R = "refs (s\<lparr>Request := None\<rparr>)"
  have r: "refs s = opt_ref (Request s) + ?R" "refs (s\<lparr>Pkts := p, Request := None\<rparr>) = ?R" for p
    by (simp_all add: refs_def last_data_def)
  have "held (Pkts s) (opt_ref (Request s) + ?R)" using mem_held [OF m] r(1) by simp
  from release_opt_ok [OF this] obtain p where p: "release_opt (Request s) s = Some (s\<lparr>Pkts := p\<rparr>)"
    "held p ?R" "keeps ?R (Pkts s) p" by (auto elim!: okE)
  have "mem Q (s\<lparr>Pkts := p, Request := None\<rparr>) {#}"
    by (rule mem_less [OF m]) (use m p r in \<open>simp_all add: mem_def\<close>)
  then show ?thesis using p(1) by (auto simp: release_field_Request_def)
qed

lemma release_field_LastCtrl_ok:
  assumes m: "mem Q s {#}"
  shows "ok (release_field_LastCtrl s) (\<lambda>t. \<exists>p. t = s\<lparr>Pkts := p, LastCtrl := None\<rparr> \<and> mem Q t {#})"
proof -
  let ?R = "refs (s\<lparr>LastCtrl := None\<rparr>)"
  have r: "refs s = opt_ref (LastCtrl s) + ?R" "refs (s\<lparr>Pkts := p, LastCtrl := None\<rparr>) = ?R" for p
    by (simp_all add: refs_def last_data_def)
  have "held (Pkts s) (opt_ref (LastCtrl s) + ?R)" using mem_held [OF m] r(1) by simp
  from release_opt_ok [OF this] obtain p where p: "release_opt (LastCtrl s) s = Some (s\<lparr>Pkts := p\<rparr>)"
    "held p ?R" "keeps ?R (Pkts s) p" by (auto elim!: okE)
  have "mem Q (s\<lparr>Pkts := p, LastCtrl := None\<rparr>) {#}"
    by (rule mem_less [OF m]) (use m p r in \<open>simp_all add: mem_def\<close>)
  then show ?thesis using p(1) by (auto simp: release_field_LastCtrl_def)
qed

text \<open>A packet comes back from the network.\<close>

lemma recycle_ok:
  assumes m: "mem Q s {#}" and b: "b \<in> set (InFlight s)"
  shows "ok (recycle b (s\<lparr>InFlight := remove1 b (InFlight s)\<rparr>)) (\<lambda>t. \<exists>p. mem Q t {#} \<and>
    t = s\<lparr>InFlight := remove1 b (InFlight s), NPendingPacket := NPendingPacket s - 1,
          PendingPacketList := remove1 b (PendingPacketList s), Pkts := p\<rparr>)"
proof -
  let ?s = "s\<lparr>InFlight := remove1 b (InFlight s), NPendingPacket := NPendingPacket s - 1,
          PendingPacketList := remove1 b (PendingPacketList s)\<rparr>"
  have i: "InFlight s = PendingPacketList s" using m by (simp add: mem_def)
  have r: "refs s = add_mset b (refs ?s)" "refs (?s\<lparr>Pkts := p\<rparr>) = refs ?s" for p
    using b i by (simp_all add: refs_def last_data_def)
  have "held (Pkts ?s) (add_mset b (refs ?s))" using mem_held [OF m] r(1) by simp
  from release_ok [OF this] obtain p where p: "release b ?s = Some (?s\<lparr>Pkts := p\<rparr>)" "held p (refs ?s)"
    "keeps (refs ?s) (Pkts s) p" by (auto elim!: okE)
  have n: "(of_nat (length (PendingPacketList s) - Suc 0) :: u64) = of_nat (length (PendingPacketList s)) - 1"
    using b i by (cases "PendingPacketList s") simp_all
  have "mem Q (?s\<lparr>Pkts := p\<rparr>) {#}"
    by (rule mem_less [OF m]) (use m p r b n in \<open>simp_all add: mem_def length_remove1\<close>)
  then show ?thesis using p(1) b i by (auto simp: recycle_def EntryInList_def)
qed

section \<open>Texts of the program\<close>

lemma cstr_ascii:
  assumes "CHR 0x00 \<notin> set t"
  shows "cstr (ascii t) = Some (map (of_nat \<circ> of_char) t)"
proof -
  have nz: "(of_nat (of_char c) :: u8) \<noteq> 0" if "CHR 0x00 \<noteq> c" for c
  proof
    assume "(of_nat (of_char c) :: u8) = 0"
    then have d: "256 dvd (of_char c :: nat)" by (simp add: word_of_nat_eq_0_iff)
    have "(of_char c :: nat) < 256" by simp
    then have "(of_char c :: nat) = 0" using d by (metis dvd_imp_le not_gr_zero not_le)
    moreover have "(of_char (CHR 0x00) :: nat) = 0" by simp
    ultimately have "(of_char c :: nat) = of_char (CHR 0x00)" by (simp only:)
    then show False using that of_char_eq_iff by metis
  qed
  have "cstr (map (of_nat \<circ> of_char) t @ [0]) = Some (map (of_nat \<circ> of_char) t :: u8 list)"
    using assms by (induction t) (simp_all add: cstr_Cons nz)
  then show ?thesis by (simp add: ascii_def)
qed

lemma EftpSendError_ascii:
  assumes "mem Q s {#}" and "network_ok env" and "CHR 0x00 \<notin> set t" and "length t < 60000"
    and "\<And>d Code. Q (sealed (9 + length d) EFI_EFTP_OPCODE_ERROR Code (d @ [0]))"
  shows "ok (EftpSendError env Code (ascii t) s) (\<lambda>(st, u). touch s u \<and> mem Q u {#} \<and>
    set (Wire s) \<subseteq> set (Wire u) \<and>
    (if EFI_ERROR st then EFI_ERROR (Result u) \<and> Wire u = Wire s
     else Result u = Result s \<and> LastCtrl u \<noteq> None))"
proof -
  let ?d = "map (of_nat \<circ> of_char) t :: u8 list"
  have "Q (sealed (9 + length ?d) EFI_EFTP_OPCODE_ERROR (NTOHS Code) (?d @ [0]))" by (rule assms(5))
  from EftpSendError_ok [OF assms(1,2) cstr_ascii [OF assms(3)] _ this] assms(4) show ?thesis
    by (auto simp: sent_def no_resources_def elim!: ok_mono split: if_splits)
qed

text \<open>The check of the user leaves the session as it is.\<close>

lemma check_packet_cases:
  "check_packet env pk s = (st, t) \<Longrightarrow> (CheckPacket env = None \<and> st = EFI_SUCCESS \<and> t = s) \<or> t = tick s"
  by (auto simp: check_packet_def split: option.splits)

section \<open>The timer\<close>

definition armed :: "EFTP_IO_PRIVATE \<Rightarrow> bool" where
  "armed s \<longleftrightarrow> (\<exists>t. TimeoutEvent s = Some (Some t))"

lemma armed_enabled [simp]: "enabled s Timer = armed s"
  by (auto simp: armed_def split: option.split)

lemma armed_EftpSetTimer: "TimeoutEvent s \<noteq> None \<Longrightarrow> armed (EftpSetTimer a b s)"
  by (auto simp: armed_def EftpSetTimer_def)

lemma EftpSetTimer_simps [simp]:
  "State (EftpSetTimer a b s) = State s" "Result (EftpSetTimer a b s) = Result s"
  "LastCtrl (EftpSetTimer a b s) = LastCtrl s" "NextBlkNo (EftpSetTimer a b s) = NextBlkNo s"
  "NRetry (EftpSetTimer a b s) = NRetry s" "MaxNRetry (EftpSetTimer a b s) = MaxNRetry s"
  "RrqState (EftpSetTimer a b s) = RrqState s" "WrqState (EftpSetTimer a b s) = WrqState s"
  "Eof (EftpSetTimer a b s) = Eof s" "Wire (EftpSetTimer a b s) = Wire s"
  "Token (EftpSetTimer a b s) = Token s" "refs (EftpSetTimer a b s) = refs s"
  "mem Q (EftpSetTimer a b s) L = mem Q s L"
  by (simp_all add: EftpSetTimer_def)

lemma EftpSetTimer_fields:
  "TimeoutEvent s \<noteq> None \<Longrightarrow> \<exists>t. EftpSetTimer a b s = s\<lparr>TimeoutEvent := Some (Some t)\<rparr>"
  by (auto simp: EftpSetTimer_def)

lemma unat_Suc_u64: "unat x \<le> 65535 \<Longrightarrow> unat (x + 1 :: u64) = Suc (unat x)"
  using unat_of_nat_u64 [of "Suc (unat x)"] by (simp add: add.commute)

section \<open>Sessions\<close>

text \<open>The timer expires \<open>n\<close> times, or until the session has finished.\<close>

primrec expire :: "(event \<Rightarrow> EFTP_IO_PRIVATE \<Rightarrow> EFTP_IO_PRIVATE option) \<Rightarrow> nat \<Rightarrow> EFTP_IO_PRIVATE \<Rightarrow>
    EFTP_IO_PRIVATE option" where
  "expire step 0 s = Some s"
| "expire step (Suc n) s =
     (if State s = EFTP_INIT then Some s else do { t \<leftarrow> step Timer s; expire step n t })"

definition quiet_event :: "event \<Rightarrow> bool" where
  "quiet_event e = (case e of Rx _ _ _ \<Rightarrow> False | _ \<Rightarrow> True)"

text \<open>\<open>running\<close> is the invariant of a session that has not finished, \<open>ended\<close> what it leaves; \<open>can\<close>
  is what the environment may do, and \<open>left\<close> bounds the expirations of the timer to come.\<close>

locale timed_session =
  fixes step :: "event \<Rightarrow> EFTP_IO_PRIVATE \<Rightarrow> EFTP_IO_PRIVATE option"
    and can :: "EFTP_IO_PRIVATE \<Rightarrow> event \<Rightarrow> bool"
    and running :: "EFTP_IO_PRIVATE \<Rightarrow> bool"
    and ended :: "EFTP_IO_PRIVATE \<Rightarrow> bool"
    and left :: "EFTP_IO_PRIVATE \<Rightarrow> nat"
  assumes step_ok: "running s \<Longrightarrow> can s e \<Longrightarrow> ok (step e s) (\<lambda>t. running t \<or> ended t)"
    and running_state: "running s \<Longrightarrow> State s \<noteq> EFTP_INIT"
    and ended_state: "ended s \<Longrightarrow> State s = EFTP_INIT"
    and timer_can: "running s \<Longrightarrow> can s Timer"
    and timer_less: "running s \<Longrightarrow> step Timer s = Some t \<Longrightarrow> left t < left s"
    and tx_le: "running s \<Longrightarrow> can s (Tx b) \<Longrightarrow> step (Tx b) s = Some t \<Longrightarrow> left t \<le> left s"
begin

lemma history_invariant:
  "history can step s es t \<Longrightarrow> running s \<Longrightarrow> running t \<or> ended t"
proof (induction rule: history.induct)
  case (history_event s es t e u)
  then show ?case using step_ok [of t e] ended_state [of t] by (auto elim!: okE)
qed simp

lemma never_stuck:
  assumes "history can step s es t" and "running s" and "State t \<noteq> EFTP_INIT" and "can t e"
  shows "\<exists>u. step e t = Some u"
  using history_invariant [OF assms(1,2)] ended_state [of t] step_ok [of t e] assms(3,4)
  by (auto elim!: okE)

text \<open>Without packets from the peer, every expiration of the timer brings the end nearer.\<close>

lemma silence:
  "history can step s es t \<Longrightarrow> running s \<Longrightarrow> list_all quiet_event es \<Longrightarrow>
     count_list es Timer + left t \<le> left s"
proof (induction rule: history.induct)
  case (history_event s es t e u)
  then have t: "running t" using history_invariant ended_state by blast
  show ?case
  proof (cases e)
    case (Tx b)
    then show ?thesis using history_event tx_le [OF t] by (force simp: count_list_append)
  next
    case Timer
    then show ?thesis using history_event timer_less [OF t] by (force simp: count_list_append)
  qed (use history_event in \<open>simp add: quiet_event_def\<close>)
qed simp

text \<open>And the timer alone does end the session.\<close>

lemma expire_ends: "running s \<or> ended s \<Longrightarrow> left s \<le> n \<Longrightarrow> ok (expire step n s) (\<lambda>t. ended t \<or> running t \<and> left t = 0)"
proof (induction n arbitrary: s)
  case (Suc n)
  show ?case
  proof (cases "State s = EFTP_INIT")
    case False
    then have r: "running s" using Suc(2) ended_state by blast
    obtain t where t: "step Timer s = Some t" "running t \<or> ended t"
      using step_ok [OF r timer_can [OF r]] by (auto elim!: okE)
    then show ?thesis using Suc(1) [of t] Suc(3) timer_less [OF r t(1)] False by simp
  qed (use Suc(2) running_state in auto)
qed auto

lemma running_left: "running s \<Longrightarrow> left s \<noteq> 0"
  using step_ok [OF _ timer_can] timer_less by (fastforce elim!: okE)

lemma timer_ends: "running s \<or> ended s \<Longrightarrow> left s \<le> n \<Longrightarrow> ok (expire step n s) ended"
  by (rule ok_mono [OF expire_ends [of s n]]) (auto dest: running_left)

end

end
