(* ===== verification/Eftp_Read.thy ===== *)
theory Eftp_Read
  imports Eftp_Session
begin

text \<open>
  The download client at work: the invariant of a running session, that every callback runs to its
  end and keeps it, and the measure that every expiration of the timer lowers. What the peer may do
  and what is known of the data are parameters of the locale \<open>rrq_client\<close>.
\<close>

section \<open>Acknowledgements\<close>

definition ack_packet :: "u64 \<Rightarrow> EFI_EFTP_PACKET" where
  "ack_packet BlkNo = (sealed 8 EFI_EFTP_OPCODE_ACK 0 [])\<lparr>CodeVar := HTONS (ucast BlkNo)\<rparr>"

lemma EftpRrqBuildAck_ok:
  assumes m: "mem Q s L" and env: "network_ok env"
  shows "ok (EftpRrqBuildAck env BlkNo s) (built Q L (ack_packet BlkNo) s)"
proof -
  obtain r t where t: "alloc env 8 s = Some (r, t)" "quiet L s t"
    "case r of None \<Rightarrow> mem Q t L | Some b \<Rightarrow> \<exists>buf. own Q L t b buf \<and> 8 \<le> DataSize buf"
    using alloc_ok [OF m, of 8 env] by (auto elim!: okE)
  show ?thesis
  proof (cases r)
    case None
    then show ?thesis using t by (simp add: EftpRrqBuildAck_def built_None EFTP_HEADER_LEN_def)
  next
    case (Some b)
    then obtain buf where o: "own Q L t b buf" and size: "unat (8 :: u32) \<le> unat (DataSize buf)"
      using t(3) by (auto simp: word_le_nat_alt)
    obtain pk where pk: "Packet buf = Some pk" using own_buf_ok [OF o] by (auto simp: buf_ok_def)
    have p: "the_packet b t = Some pk" using o pk by (simp add: the_packet_def own_def)
    have "8 \<le> unat (8 :: u32)" by simp
    from build_tail_ok [OF t(2) o pk this size env, of "\<lambda>pk. pk\<lparr>CodeVar := HTONS (ucast BlkNo)\<rparr>"
        EFI_EFTP_OPCODE_ACK 0]
    show ?thesis
      using t(1) Some p by (simp add: EftpRrqBuildAck_def ack_packet_def EFTP_HEADER_LEN_def del: ok_bind
          cong: if_cong)
  qed
qed

lemma EftpRrqSendAck_ok:
  assumes m: "mem Q s {#}" and env: "network_ok env" and Q: "Q (ack_packet BlkNo)"
  shows "ok (EftpRrqSendAck env BlkNo s) (\<lambda>(st, u). sent Q {#} (ack_packet BlkNo) s (st, u) \<and>
    (\<not> EFI_ERROR st \<longrightarrow> LastCtrl u \<noteq> None))"
proof -
  obtain r t where B: "EftpRrqBuildAck env BlkNo s = Some (r, t)" "built Q {#} (ack_packet BlkNo) s (r, t)"
    using EftpRrqBuildAck_ok [OF m env, of BlkNo] by (auto elim!: okE)
  obtain st u where c: "(case r of
        None \<Rightarrow> Some (EFI_OUT_OF_RESOURCES, t)
      | Some b \<Rightarrow> do {
          (st, s) \<leftarrow> EftpSendPacket env b t;
          if EFI_ERROR st then do { s \<leftarrow> release b s; Some (st, s) }
          else do { s \<leftarrow> keep_ctrl b s; Some (EFI_SUCCESS, s) } }) = Some (st, u)"
    "sent Q {#} (ack_packet BlkNo) s (st, u)" "\<not> EFI_ERROR st \<longrightarrow> LastCtrl u \<noteq> None"
    using send_ctrl_ok [of Q "ack_packet BlkNo" s r t env, OF B(2) env Q] by (auto elim!: okE simp del: ok_bind)
  have "EftpRrqSendAck env BlkNo s = Some (if EFI_ERROR st
      then (case r of None \<Rightarrow> (EFI_OUT_OF_RESOURCES, u\<lparr>Result := EFI_OUT_OF_RESOURCES\<rparr>)
        | Some _ \<Rightarrow> (EFI_DEVICE_ERROR, u\<lparr>Result := EFI_DEVICE_ERROR\<rparr>)) else (EFI_SUCCESS, u))"
    using c(1) B(1)
    by (auto simp: EftpRrqSendAck_def bind_eq_Some_conv split: option.splits if_splits)
  then show ?thesis using c(2,3) by (auto simp: sent_def no_resources_def split: option.split)
qed

section \<open>What the client sends\<close>

text \<open>The request, acknowledgements of the first \<open>n\<close> blocks, and errors.\<close>

definition rrq_out :: "EFI_EFTP_PACKET \<Rightarrow> nat \<Rightarrow> EFI_EFTP_PACKET \<Rightarrow> bool" where
  "rrq_out req n pk \<longleftrightarrow> pk = req \<or> (\<exists>k. 1 \<le> k \<and> k \<le> n \<and> pk = ack_packet (of_nat k)) \<or>
     (\<exists>Code t. pk = sealed (9 + length t) EFI_EFTP_OPCODE_ERROR Code (t @ [0]))"

lemma rrq_out_mono: "rrq_out req n pk \<Longrightarrow> rrq_out req (Suc n) pk"
  by (auto simp: rrq_out_def intro: le_SucI)

lemma rrq_out_new: "rrq_out req n req" "rrq_out req (Suc n) (ack_packet (of_nat (Suc n)))"
  "rrq_out req n (sealed (9 + length t) EFI_EFTP_OPCODE_ERROR Code (t @ [0]))"
  by (auto simp: rrq_out_def)

section \<open>The invariant\<close>

text \<open>The number of expirations of the timer that are left.\<close>

definition rrq_left :: "EFTP_IO_PRIVATE \<Rightarrow> nat" where
  "rrq_left s = (case State s of
     EFTP_RRQ_SENT \<Rightarrow> 3 + (unat (MaxNRetry s) - unat (NRetry s))
   | EFTP_RRQ_ESTABLISHED \<Rightarrow> 3 + (unat (MaxNRetry s) - unat (NRetry s))
   | EFTP_RRQ_CLOSEING \<Rightarrow> 2
   | EFTP_TIME_WAIT \<Rightarrow> 1
   | _ \<Rightarrow> 0)"

lemma rrq_left_cong:
  "State t = State s \<Longrightarrow> MaxNRetry t = MaxNRetry s \<Longrightarrow> NRetry t = NRetry s \<Longrightarrow> rrq_left t = rrq_left s"
  by (simp only: rrq_left_def)

text \<open>What the data in the buffer of the user must be after a block.\<close>

definition splice_at :: "u8 list \<Rightarrow> nat \<Rightarrow> u8 list \<Rightarrow> u8 list" where
  "splice_at buf start d = take start buf @ d @ drop (start + length d) buf"

text \<open>The client under what the network and the peer promise. \<open>can\<close> are the events they may cause;
  \<open>dat n\<close> is known of the buffer of the user after \<open>n\<close> blocks, \<open>siz n\<close> of the size in the token,
  and \<open>fin n\<close> of a transfer that ends well.\<close>

locale rrq_client =
  fixes env :: eftp_env
    and can :: "EFTP_IO_PRIVATE \<Rightarrow> event \<Rightarrow> bool"
    and req :: EFI_EFTP_PACKET
    and sig :: nat
    and dat :: "nat \<Rightarrow> u8 list option \<Rightarrow> bool"
    and siz :: "nat \<Rightarrow> u8 list option \<Rightarrow> u64 \<Rightarrow> bool"
    and fin :: "nat \<Rightarrow> bool"
  assumes network: "network_ok env"
    and can_enabled: "can s e \<Longrightarrow> enabled s e"
    and can_timer: "armed s \<Longrightarrow> can s Timer"
    and can_length: "can s (Rx st len (Some pk)) \<Longrightarrow> unat (NTOHS (HdrLength pk)) \<le> 8 + length (Payload pk)"
    and dat_none: "dat n None \<Longrightarrow> dat (Suc n) None"
    and siz_none: "siz n None sz"
    and dat_room: "dat n (Some buf) \<Longrightarrow> 10485760 \<le> length buf"
    and dat_save: "can s (Rx st len (Some pk)) \<Longrightarrow> OpCode pk = HTONS EFI_EFTP_OPCODE_DATA \<Longrightarrow>
      unat (NTOHS (CodeVar pk)) = Suc n \<Longrightarrow> unat (NTOHS (HdrLength pk)) = 8 + k \<Longrightarrow> 2 \<le> k \<Longrightarrow> k \<le> 1026 \<Longrightarrow>
      n * 1024 + k \<le> 10485760 \<Longrightarrow> dat n (Some buf) \<Longrightarrow> siz n (Some buf) sz \<Longrightarrow>
      dat (Suc n) (Some (splice_at buf (n * 1024) (take k (Payload pk)))) \<and>
      siz (Suc n) (Some (splice_at buf (n * 1024) (take k (Payload pk))))
        (if k \<le> 1024 then of_nat (n * 1024 + k) else sz)"
    and fin_oack: "can s (Rx st len (Some pk)) \<Longrightarrow> OpCode pk = HTONS EFI_EFTP_OPCODE_OACK \<Longrightarrow>
      \<forall>pk\<in>set (Wire s). rrq_out req n pk \<Longrightarrow> fin n"
begin

text \<open>What holds in every state of a session, and while it runs.\<close>

definition base :: "nat \<Rightarrow> EFTP_IO_PRIVATE \<Rightarrow> bool" where
  "base n s \<longleftrightarrow> mem (rrq_out req n) s {#} \<and> dat n (Buffer (Token s)) \<and>
     (\<not> EFI_ERROR (Result s) \<longrightarrow> siz n (Buffer (Token s)) (BufferSize (Token s))) \<and>
     Opt s = EftpInitOption \<and> WrqState s = None \<and> TimeoutEvent s \<noteq> None \<and> Request s \<noteq> None \<and>
     \<not> UserEvtFired s \<and> \<not> SynFinished s \<and> RrqState s \<noteq> None \<and> Signals s = sig \<and>
     unat (MaxNRetry s) \<le> 65535"

definition ended_well :: "nat \<Rightarrow> EFTP_IO_PRIVATE \<Rightarrow> bool" where
  "ended_well n s \<longleftrightarrow> (\<not> EFI_ERROR (Result s) \<longrightarrow> fin n)"

definition phase :: "nat \<Rightarrow> EFTP_IO_PRIVATE \<Rightarrow> bool" where
  "phase n s \<longleftrightarrow> (case State s of
     EFTP_RRQ_SENT \<Rightarrow> map_option Role (RrqState s) = Some EFTP_RRQ_ROLE_INIT \<and> n = 0 \<and>
       NextBlkNo s = 1 \<and> Result s = EFI_SUCCESS \<and> unat (NRetry s) \<le> unat (MaxNRetry s)
   | EFTP_RRQ_ESTABLISHED \<Rightarrow> map_option Role (RrqState s) = Some EFTP_RRQ_ROLE_ACTIVE \<and> n \<le> 65535 \<and>
       NextBlkNo s = of_nat (Suc n) \<and> Result s = EFI_SUCCESS \<and> unat (NRetry s) \<le> unat (MaxNRetry s) \<and>
       LastCtrl s \<noteq> None
   | EFTP_RRQ_CLOSEING \<Rightarrow> LastCtrl s \<noteq> None \<and> ended_well n s
   | EFTP_TIME_WAIT \<Rightarrow> ended_well n s
   | _ \<Rightarrow> False)"

definition finished :: "nat \<Rightarrow> EFTP_IO_PRIVATE \<Rightarrow> bool" where
  "finished n s \<longleftrightarrow> State s = EFTP_INIT \<and> mem (rrq_out req n) s {#} \<and>
     refs s = mset (InFlight s) \<and> dat n (Buffer (Token s)) \<and> ended_well n s \<and>
     (\<not> EFI_ERROR (Result s) \<longrightarrow> siz n (Buffer (Token s)) (BufferSize (Token s))) \<and>
     TokenStatus (Token s) = Result s \<and> RrqState s = None \<and> TimeoutEvent s = None \<and> SynFinished s \<and>
     Signals s = sig + (if TokenEvent (Token s) then 1 else 0)"

definition running :: "nat \<Rightarrow> EFTP_IO_PRIVATE \<Rightarrow> bool" where
  "running n s \<longleftrightarrow> base n s \<and> phase n s"

definition inv :: "nat \<Rightarrow> EFTP_IO_PRIVATE \<Rightarrow> bool" where
  "inv n s \<longleftrightarrow> running n s \<and> armed s \<or> finished n s"

lemma base_upd [simp]:
  "base n (s\<lparr>State := x\<rparr>) = base n s" "base n (s\<lparr>NRetry := u\<rparr>) = base n s"
  "base n (s\<lparr>NextBlkNo := u\<rparr>) = base n s" "base n (s\<lparr>LastBlkNo := u\<rparr>) = base n s"
  "base n (s\<lparr>Eof := b\<rparr>) = base n s" "base n (s\<lparr>RcvdPkts := u\<rparr>) = base n s"
  "base n (s\<lparr>DroppedPkts := u\<rparr>) = base n s" "base n (s\<lparr>Timeouts := u\<rparr>) = base n s"
  "base n (s\<lparr>Receiving := b\<rparr>) = base n s" "base n (s\<lparr>Recycled := m\<rparr>) = base n s"
  by (auto simp: base_def)

lemma base_tick [simp]: "base n (tick s) = base n s"
  by (simp add: base_def) (simp add: tick_def)

lemma base_error: "base n s \<Longrightarrow> EFI_ERROR st \<Longrightarrow> base n (s\<lparr>Result := st\<rparr>)"
  by (simp add: base_def)

lemma base_touch:
  assumes "base n s" and "touch s t" and "mem (rrq_out req n) t {#}"
    and "Result t = Result s \<or> EFI_ERROR (Result t)"
  shows "base n t"
  using assms by (auto simp: base_def touch_fields)

lemma base_timer: "base n s \<Longrightarrow> base n (s\<lparr>TimeoutEvent := Some t\<rparr>)"
  by (simp add: base_def)

lemma base_EftpSetTimer: "base n s \<Longrightarrow> base n (EftpSetTimer a b s) \<and> armed (EftpSetTimer a b s)"
  using EftpSetTimer_fields [of s a b] base_timer [of n s] by (auto simp: base_def armed_EftpSetTimer)

text \<open>Both shutdowns leave the session running, with the timer armed.\<close>

lemma silent_ok:
  assumes "base n s" and "ended_well n s"
  shows "running n (RRQ_SILENT_SHUTDOWN s)" "armed (RRQ_SILENT_SHUTDOWN s)"
    "State (RRQ_SILENT_SHUTDOWN s) = EFTP_TIME_WAIT"
  using assms base_EftpSetTimer [of n "s\<lparr>State := EFTP_TIME_WAIT\<rparr>"]
  by (simp_all add: RRQ_SILENT_SHUTDOWN_def running_def phase_def ended_well_def)

lemma loud_ok:
  assumes "base n s" and "ended_well n s" and "State s \<noteq> EFTP_TIME_WAIT" and "LastCtrl s \<noteq> None"
  shows "ok (RRQ_LOUD_SHUTDOWN s) (\<lambda>t. running n t \<and> armed t \<and> State t = EFTP_RRQ_CLOSEING)"
  using assms base_EftpSetTimer [of n "s\<lparr>State := EFTP_RRQ_CLOSEING\<rparr>"]
  by (simp add: RRQ_LOUD_SHUTDOWN_def running_def phase_def ended_well_def)

lemma send_err_ok:
  assumes b: "base n s" and e: "EFI_ERROR (Result s)" and st: "State s \<noteq> EFTP_TIME_WAIT"
    and t: "CHR 0x00 \<notin> set t" "length t < 60000"
  shows "ok (rrq_send_err env Code (ascii t) s) (\<lambda>(st, u). running n u \<and> armed u \<and>
    State u \<in> {EFTP_RRQ_CLOSEING, EFTP_TIME_WAIT})"
proof -
  have m: "mem (rrq_out req n) s {#}" using b by (simp add: base_def)
  obtain st u where u: "EftpSendError env Code (ascii t) s = Some (st, u)" "touch s u"
    "mem (rrq_out req n) u {#}" "if EFI_ERROR st then EFI_ERROR (Result u) \<and> Wire u = Wire s
     else Result u = Result s \<and> LastCtrl u \<noteq> None"
    using EftpSendError_ascii [OF m network t rrq_out_new(3), of Code] by (auto elim!: okE)
  have w: "base n u" "ended_well n u"
    using base_touch [OF b u(2,3)] u(4) e by (auto simp: ended_well_def split: if_splits)
  show ?thesis
  proof (cases "EFI_ERROR st")
    case True
    then show ?thesis using u(1) silent_ok [OF w] by (simp add: rrq_send_err_def)
  next
    case False
    then have "State u \<noteq> EFTP_TIME_WAIT" "LastCtrl u \<noteq> None" using u(2,4) st by (simp_all add: touch_fields)
    from loud_ok [OF w this] show ?thesis using False u(1) by (auto simp: rrq_send_err_def elim!: ok_mono)
  qed
qed

text \<open>The last control packet, or the request, is sent again.\<close>

lemma resend_ok:
  assumes b: "base n s" and c: "c = Request s \<or> c = LastCtrl s" "c \<noteq> None"
  shows "ok (resend_last env c s) (\<lambda>(st, u). base n u \<and> touch s u \<and> LastCtrl u = LastCtrl s \<and>
    (if EFI_ERROR st then EFI_ERROR (Result u) else Result u = Result s))"
proof -
  have m: "mem (rrq_out req n) s {#}" using b by (simp add: base_def)
  obtain d where d: "c = Some d" using c(2) by auto
  have r: "add_mset d (mset (PendingPacketList s)) \<subseteq># refs s"
    using c(1)
  proof
    assume "c = Request s"
    then show ?thesis using d by (simp flip: \<open>c = Request s\<close> add: refs_def)
  next
    assume "c = LastCtrl s"
    then show ?thesis using d by (simp flip: \<open>c = LastCtrl s\<close> add: refs_def)
  qed
  show ?thesis
    using b unfolding d
    by (intro ok_mono [OF resend_last_ok [OF m r network]])
      (auto simp: sent_def no_resources_def intro: base_touch split: if_splits)
qed

lemma closing_ok:
  assumes r: "running n s" and st: "State s = EFTP_RRQ_CLOSEING"
  shows "ok (closing_resend env s) (\<lambda>(st, u). running n u \<and> (armed s \<longrightarrow> armed u))"
proof -
  have b: "base n s" "LastCtrl s \<noteq> None" "ended_well n s"
    using r st by (simp_all add: running_def phase_def)
  obtain st' u where u: "resend_last env (LastCtrl s) s = Some (st', u)" "base n u" "touch s u"
    "LastCtrl u = LastCtrl s" "if EFI_ERROR st' then EFI_ERROR (Result u) else Result u = Result s"
    using resend_ok [OF b(1), of "LastCtrl s"] b(2) by (auto elim!: okE)
  then show ?thesis
    using silent_ok [OF u(2)] b st
    by (auto simp: closing_resend_def running_def phase_def ended_well_def touch_fields armed_def)
qed

section \<open>Saving a block\<close>

lemma check_packet_fields:
  assumes "check_packet env pk s = (st, t)"
  shows "base n t = base n s" "touch s t" "Wire t = Wire s" "mem Q t L = mem Q s L" "LastCtrl t = LastCtrl s"
    "Result t = Result s" "State t = State s"
  using check_packet_cases [OF assms] by auto (simp_all add: tick_def)

lemma EftpRrqSaveBlk_ok:
  assumes C: "can u (Rx stt len (Some pk))" and D: "OpCode pk = HTONS EFI_EFTP_OPCODE_DATA"
    and b: "base n s" "Result s = EFI_SUCCESS" and n: "unat (NTOHS (CodeVar pk)) = Suc n"
    and k: "unat (NTOHS (HdrLength pk)) = 8 + k" "2 \<le> k" "k \<le> 1026"
  shows "ok (EftpRrqSaveBlk env pk (of_nat (8 + k)) s) (\<lambda>(st, t).
    (\<exists>v. touch s v \<and> LastCtrl v = LastCtrl s \<and> t = v\<lparr>Token := Token t, Result := Result t\<rparr>) \<and>
    (if EFI_ERROR st then base n t \<and> EFI_ERROR (Result t)
     else base (Suc n) t \<and> Result t = EFI_SUCCESS))"
proof -
  obtain st v where v: "check_packet env pk s = (st, v)" by (cases "check_packet env pk s")
  note f = check_packet_fields [OF v]
  have bv: "base n v" using b f(1) by simp
  then have m: "mem (rrq_out req (Suc n)) v {#}"
    using mem_weaken [of "rrq_out req n" v "{#}", OF _ rrq_out_mono] by (simp add: base_def)
  have o: "BlkSize (Opt v) = 1024" using bv by (simp add: base_def EftpInitOption_def)
  have "unat (NTOHS (CodeVar pk)) < 65536" using unsigned_less [of "NTOHS (CodeVar pk)", where 'a = nat] by simp
  then have n': "n < 65535" using n by simp
  have B: "(ucast (NTOHS (CodeVar pk)) :: u64) = of_nat (Suc n)"
    by (simp flip: n)
  have start: "SctMultU64x32 (ucast (NTOHS (CodeVar pk)) - 1) (ucast (BlkSize (Opt v))) = of_nat (n * 1024)"
    by (simp add: SctMultU64x32_def B o)
  show ?thesis
  proof (cases "EFI_ERROR st")
    case True
    then show ?thesis
      using v f(2,5) bv base_error [OF bv, of EFI_ABORTED]
      by (simp add: EftpRrqSaveBlk_def) (intro exI [of _ v], simp)
  next
    case False
    show ?thesis
    proof (cases "Buffer (Token v)")
      case None
      then have "base (Suc n) v"
        using bv m dat_none siz_none by (auto simp: base_def)
      then show ?thesis
        using v f(2,5,6) False b(2) None by (simp add: EftpRrqSaveBlk_def) (intro exI [of _ v], simp)
    next
      case (Some buf)
      define start where "start = n * 1024"
      have s: "SctMultU64x32 (ucast (NTOHS (CodeVar pk)) - 1) (ucast (BlkSize (Opt v))) = of_nat start"
        using start by (simp add: start_def)
      have l: "unat (of_nat start + of_nat k :: u64) = start + k" "unat (of_nat start :: u64) = start"
        "unat (of_nat k :: u64) = k"
        using n' k(3) unat_of_nat_u64 [of "start + k"] unat_of_nat_u64 [of start] unat_of_nat_u64 [of k]
        by (simp_all add: start_def)
      have too: "of_nat start + of_nat k > MAX_REAL_FILE_SIZE \<longleftrightarrow> start + k > 10485760"
        by (simp add: word_less_nat_alt l MAX_REAL_FILE_SIZE_def)
      show ?thesis
      proof (cases "start + k > 10485760")
        case True
        have "base n (v\<lparr>Token := (Token v)\<lparr>BufferSize := - 1\<rparr>, Result := EFI_BUFFER_TOO_SMALL\<rparr>)"
          using bv by (simp add: base_def)
        then show ?thesis
          using True v f(2,5) \<open>\<not> EFI_ERROR st\<close> Some s too
          by (simp add: EftpRrqSaveBlk_def EFTP_HEADER_LEN_def) (intro exI [of _ v], simp)
      next
        case False
        let ?buf = "splice_at buf start (take k (Payload pk))"
        let ?sz = "if k \<le> 1024 then of_nat (start + k) else BufferSize (Token v)"
        define tok where "tok = (Token v)\<lparr>Buffer := Some ?buf, BufferSize := ?sz\<rparr>"
        have d: "dat n (Some buf)" "siz n (Some buf) (BufferSize (Token v))"
          using bv f(6) b(2) Some by (simp_all add: base_def)
        have lk: "k \<le> length (Payload pk)" using can_length [OF C] k(1) by simp
        have lb: "start + k \<le> length buf" using dat_room [OF d(1)] False by simp
        have "dat (Suc n) (Some ?buf) \<and> siz (Suc n) (Some ?buf) ?sz"
          unfolding start_def by (rule dat_save [OF C D n k _ d]) (use False in \<open>simp add: start_def\<close>)
        then have bt: "base (Suc n) (v\<lparr>Token := tok\<rparr>)" using bv m by (simp add: base_def tok_def)
        have "of_nat k \<le> (1024 :: u64) \<longleftrightarrow> k \<le> 1024" by (simp add: word_le_nat_alt l)
        moreover have "k \<le> length buf - start" using lb by simp
        ultimately have "save_data pk (of_nat start) (of_nat k) 1024 (Token v) buf = Some tok"
          using lk lb by (simp add: tok_def add.commute [of k start] save_data_def l SctCopyMem_spec splice_at_def min_absorb2)
        then have "EftpRrqSaveBlk env pk (of_nat (8 + k)) s = Some (EFI_SUCCESS, v\<lparr>Token := tok\<rparr>)"
          using False v \<open>\<not> EFI_ERROR st\<close> Some s too o by (simp add: EftpRrqSaveBlk_def EFTP_HEADER_LEN_def)
        moreover have "v\<lparr>Token := tok\<rparr> = v\<lparr>Token := tok, Result := EFI_SUCCESS\<rparr>"
          using f(6) b(2) by (cases v) simp
        ultimately show ?thesis using f(2,5,6) b(2) bt by auto
      qed
    qed
  qed
qed

section \<open>The handlers of the roles\<close>

text \<open>The block that is expected: it is saved and acknowledged.\<close>

lemma accept_ok:
  assumes C: "can u (Rx stt len (Some pk))" and D: "OpCode pk = HTONS EFI_EFTP_OPCODE_DATA"
    and b: "base n s" "Result s = EFI_SUCCESS" and n: "unat (NTOHS (CodeVar pk)) = Suc n"
    and k: "unat (NTOHS (HdrLength pk)) = 8 + k" "2 \<le> k" "k \<le> 1026"
    and s: "State s = EFTP_RRQ_ESTABLISHED" "map_option Role (RrqState s) = Some EFTP_RRQ_ROLE_ACTIVE"
      "NextBlkNo s = of_nat (Suc n)" "unat (NRetry s) \<le> unat (MaxNRetry s)"
  shows "ok (EftpRrqActiveRcvData env pk (of_nat (8 + k)) s) (\<lambda>(st, t). \<exists>m. running m t \<and> armed t)"
proof -
  have B: "(ucast (NTOHS (CodeVar pk)) :: u64) = of_nat (Suc n)" by (simp flip: n)
  have n': "Suc n \<le> 65535" using n unsigned_less [of "NTOHS (CodeVar pk)", where 'a = nat] by simp
  obtain st t v where t: "EftpRrqSaveBlk env pk (of_nat (8 + k)) s = Some (st, t)" "touch s v"
    "LastCtrl v = LastCtrl s" "t = v\<lparr>Token := Token t, Result := Result t\<rparr>"
    "if EFI_ERROR st then base n t \<and> EFI_ERROR (Result t) else base (Suc n) t \<and> Result t = EFI_SUCCESS"
    using EftpRrqSaveBlk_ok [OF C D b n k] by (auto elim!: okE)
  have f: "State t = EFTP_RRQ_ESTABLISHED" "RrqState t = RrqState s" "NextBlkNo t = of_nat (Suc n)"
    "NRetry t = NRetry s" "MaxNRetry t = MaxNRetry s"
    by (subst t(4), use t(2) s in \<open>simp add: touch_fields\<close>)+
  show ?thesis
  proof (cases "EFI_ERROR st")
    case True
    define d where "d = (if Result t = EFI_ABORTED then ''User cancelled download'' else ''Disk full'')"
    have a: "(if Result t = EFI_ABORTED then ascii ''User cancelled download'' else ascii ''Disk full'') = ascii d"
      by (simp add: d_def)
    have "CHR 0x00 \<notin> set d" "length d < 60000" by (simp_all add: d_def)
    from send_err_ok [OF _ _ _ this, of n t EFI_EFTP_ERRORCODE_DISK_FULL] show ?thesis
      using True t(1,5) f(1) s(1,3) D B
      by (auto simp: EftpRrqActiveRcvData_def a elim!: ok_mono)
  next
    case False
    then have bt: "base (Suc n) t" "Result t = EFI_SUCCESS" using t(5) by simp_all
    then have m: "mem (rrq_out req (Suc n)) t {#}" by (simp add: base_def)
    obtain st' w where w: "EftpRrqSendAck env (of_nat (Suc n)) t = Some (st', w)"
      "sent (rrq_out req (Suc n)) {#} (ack_packet (of_nat (Suc n))) t (st', w)" "\<not> EFI_ERROR st' \<longrightarrow> LastCtrl w \<noteq> None"
      using EftpRrqSendAck_ok [OF m network rrq_out_new(2)] by (auto elim!: okE)
    have tw: "touch t w" "mem (rrq_out req (Suc n)) w {#}" using w(2) by (simp_all add: sent_def)
    have bw: "base (Suc n) w"
      using w(2) by (intro base_touch [OF bt(1) tw]) (auto simp: sent_def no_resources_def split: if_splits)
    have eq: "EftpRrqActiveRcvData env pk (of_nat (8 + k)) s =
      Some (if EFI_ERROR st' then (EFI_ABORTED, RRQ_SILENT_SHUTDOWN w)
        else (EFI_SUCCESS, EftpSetTimer (ucast (Timeout w)) 0
          (w\<lparr>NextBlkNo := NextBlkNo w + 1, LastBlkNo := of_nat (Suc n)\<rparr>)))"
      using False t(1) w(1) s(1,3) D B by (simp add: EftpRrqActiveRcvData_def)
    show ?thesis
    proof (cases "EFI_ERROR st'")
      case True
      then have "ended_well (Suc n) w" using w(2) by (auto simp: ended_well_def sent_def no_resources_def)
      then show ?thesis using True eq silent_ok [OF bw] by auto
    next
      case False
      let ?w = "w\<lparr>NextBlkNo := NextBlkNo w + 1, LastBlkNo := of_nat (Suc n)\<rparr>"
      have r: "Result w = EFI_SUCCESS" using False w(2) bt(2) by (simp add: sent_def)
      have "running (Suc n) (EftpSetTimer (ucast (Timeout w)) 0 ?w)"
        using base_EftpSetTimer [of "Suc n" ?w] bw False w(3) f s(2,4) n' r touch_fields [OF tw(1)]
        by (simp add: running_def phase_def)
      then show ?thesis using False eq base_EftpSetTimer [of "Suc n" ?w] bw by auto
    qed
  qed
qed

definition kept :: "EFTP_IO_PRIVATE \<Rightarrow> EFTP_IO_PRIVATE \<Rightarrow> bool" where
  "kept s t \<longleftrightarrow> (\<exists>m. running m t) \<and> (armed s \<longrightarrow> armed t)"

lemma kept_armed: "running m t \<Longrightarrow> armed t \<Longrightarrow> kept s t"
  by (auto simp: kept_def)

lemma running_upd [simp]:
  "running n (s\<lparr>RcvdPkts := u\<rparr>) = running n s" "running n (s\<lparr>DroppedPkts := u\<rparr>) = running n s"
  "running n (s\<lparr>Timeouts := u\<rparr>) = running n s" "running n (s\<lparr>Receiving := e\<rparr>) = running n s"
  "running n (s\<lparr>Recycled := i\<rparr>) = running n s" "running n (drop_packet s) = running n s"
  by (cases "State s"; simp add: running_def phase_def ended_well_def drop_packet_def)+

lemma running_tick [simp]: "running n (tick s) = running n s"
proof -
  have "phase n (tick s) = phase n s"
    by (cases "State s") (simp_all add: tick_def phase_def ended_well_def)
  then show ?thesis by (simp add: running_def)
qed

lemma armed_upd [simp]:
  "armed (s\<lparr>RcvdPkts := u\<rparr>) = armed s" "armed (s\<lparr>DroppedPkts := u\<rparr>) = armed s"
  "armed (s\<lparr>Timeouts := u\<rparr>) = armed s" "armed (s\<lparr>Receiving := e\<rparr>) = armed s"
  "armed (s\<lparr>Recycled := i\<rparr>) = armed s" "armed (s\<lparr>Result := r\<rparr>) = armed s"
  "armed (s\<lparr>NRetry := u\<rparr>) = armed s" "armed (drop_packet s) = armed s" "armed (tick s) = armed s"
  by (simp_all add: armed_def drop_packet_def tick_def)

lemma runningE:
  assumes "running n s"
  obtains (sent) r where "State s = EFTP_RRQ_SENT" "RrqState s = Some r" "Role r = EFTP_RRQ_ROLE_INIT"
      "n = 0" "NextBlkNo s = 1" "Result s = EFI_SUCCESS" "unat (NRetry s) \<le> unat (MaxNRetry s)"
  | (established) r where "State s = EFTP_RRQ_ESTABLISHED" "RrqState s = Some r" "Role r = EFTP_RRQ_ROLE_ACTIVE"
      "n \<le> 65535" "NextBlkNo s = of_nat (Suc n)" "Result s = EFI_SUCCESS"
      "unat (NRetry s) \<le> unat (MaxNRetry s)" "LastCtrl s \<noteq> None"
  | (closing) r where "State s = EFTP_RRQ_CLOSEING" "RrqState s = Some r" "LastCtrl s \<noteq> None" "ended_well n s"
  | (time_wait) r where "State s = EFTP_TIME_WAIT" "RrqState s = Some r" "ended_well n s"
proof -
  obtain r where "RrqState s = Some r" using assms by (auto simp: running_def base_def)
  then show ?thesis using assms that by (auto simp: running_def phase_def split: EFTP_STATE.splits)
qed

lemma expected_block:
  assumes "ucast (NTOHS v) = (of_nat (Suc n) :: u64)" and "n \<le> 65535"
  shows "unat (NTOHS v) = Suc n"
proof -
  have "unat (NTOHS v) < 2 ^ 64" using unsigned_less [of "NTOHS v", where 'a = nat] by simp
  from unat_of_nat_u64 [OF this] have "unat (ucast (NTOHS v) :: u64) = unat (NTOHS v)" by simp
  moreover have "unat (of_nat (Suc n) :: u64) = Suc n"
    by (rule unat_of_nat_u64) (use assms(2) in simp)
  ultimately show ?thesis using arg_cong [OF assms(1), of unat] by (simp only:)
qed

lemma rcv_data_ok:
  assumes C: "can u (Rx stt len (Some pk))" and D: "OpCode pk = HTONS EFI_EFTP_OPCODE_DATA"
    and r: "running n s" and k: "unat (NTOHS (HdrLength pk)) = 8 + k" "2 \<le> k" "k \<le> 1026"
  shows "ok (rcv_data env pk (of_nat (8 + k)) s) (\<lambda>(st, t). kept s t)"
proof -
  have b: "base n s" using r by (simp add: running_def)
  have kd: "kept s (drop_packet s)" "kept s s" using r by (auto simp: kept_def)
  show ?thesis
    using r
  proof (cases rule: runningE)
    case (sent r)
    show ?thesis
    proof (cases "ucast (NTOHS (CodeVar pk)) = NextBlkNo s")
      case True
      let ?s = "s\<lparr>RrqState := Some (EftpRrqChangeRole EFTP_RRQ_ROLE_ACTIVE r), State := EFTP_RRQ_ESTABLISHED\<rparr>"
      have n: "unat (NTOHS (CodeVar pk)) = Suc n" by (rule expected_block) (use True sent in auto)
      have "base n ?s" using b sent by (simp add: base_def)
      from accept_ok [OF C D this _ n k] show ?thesis
        using True sent D b
        by (auto simp: rcv_data_def EftpRrqInitRcvData_def EftpRrqChangeRole_def elim!: ok_mono intro: kept_armed)
    qed (use sent D kd in \<open>simp add: rcv_data_def EftpRrqInitRcvData_def\<close>)
  next
    case (established r)
    show ?thesis
    proof (cases "ucast (NTOHS (CodeVar pk)) = NextBlkNo s")
      case True
      then have n: "unat (NTOHS (CodeVar pk)) = Suc n" using established by (intro expected_block) auto
      show ?thesis
        using accept_ok [OF C D b _ n k] established
        by (auto simp: rcv_data_def elim!: ok_mono intro: kept_armed)
    next
      case False
      then show ?thesis using established D kd by (simp add: rcv_data_def EftpRrqActiveRcvData_def)
    qed
  next
    case (closing r)
    then have "rcv_data env pk (of_nat (8 + k)) s = closing_resend env s"
      using D by (cases "Role r") (simp_all add: rcv_data_def EftpRrqInitRcvData_def EftpRrqActiveRcvData_def)
    then show ?thesis
      using closing_ok [OF r closing(1)] by (auto simp: kept_def elim!: ok_mono)
  next
    case (time_wait r)
    then show ?thesis
      using kd D by (cases "Role r") (simp_all add: rcv_data_def EftpRrqInitRcvData_def EftpRrqActiveRcvData_def)
  qed
qed

text \<open>An error of the peer ends the session.\<close>

lemma rcv_error_ok:
  assumes r: "running n s"
  shows "ok (rcv_error s) (\<lambda>(st, t). running n t \<and> (armed s \<longrightarrow> armed t) \<and> State t = EFTP_TIME_WAIT)"
proof -
  have b: "base n (s\<lparr>Result := EFI_TFTP_ERROR\<rparr>)" using r base_error by (simp add: running_def)
  have "ended_well n (s\<lparr>Result := EFI_TFTP_ERROR\<rparr>)" by (simp add: ended_well_def)
  note q = silent_ok [OF b this]
  show ?thesis
    using r
  proof (cases rule: runningE)
    case (closing r)
    then show ?thesis
      using q by (cases "Role r") (simp_all add: rcv_error_def EftpRrqInitRcvError_def EftpRrqActiveRcvError_def)
  next
    case (time_wait r)
    then show ?thesis
      using assms by (cases "Role r") (simp_all add: rcv_error_def EftpRrqInitRcvError_def EftpRrqActiveRcvError_def)
  qed (use q in \<open>simp_all add: rcv_error_def EftpRrqInitRcvError_def EftpRrqActiveRcvError_def\<close>)
qed

text \<open>An option acknowledgement ends the transfer.\<close>

lemma rcv_oack_ok:
  assumes r: "running n s" and f: "fin n"
  shows "ok (rcv_oack s) (\<lambda>(st, t). kept s t)"
  using r
proof (cases rule: runningE)
  case (established r)
  have "base n (s\<lparr>Eof := True, Result := EFI_SUCCESS\<rparr>)"
    using assms established(6) by (simp add: running_def) (simp add: base_def)
  from loud_ok [OF this] show ?thesis
    using f established
    by (auto simp: rcv_oack_def EftpRrqActiveRcvOack_def ended_well_def elim!: ok_mono intro: kept_armed)
next
  case (closing r)
  then show ?thesis
    using assms by (cases "Role r") (auto simp: rcv_oack_def EftpRrqInitRcvOack_def EftpRrqActiveRcvOack_def kept_def)
next
  case (time_wait r)
  then show ?thesis
    using assms by (cases "Role r") (auto simp: rcv_oack_def EftpRrqInitRcvOack_def EftpRrqActiveRcvOack_def kept_def)
qed (use assms in \<open>auto simp: rcv_oack_def EftpRrqInitRcvOack_def kept_def\<close>)

section \<open>The receive callback\<close>

lemma running_fresh_retry: "running n s \<Longrightarrow> running n (s\<lparr>NRetry := 0\<rparr>)"
  by (cases "State s") (auto simp: running_def phase_def ended_well_def)

lemma kept_fresh_retry: "kept s t \<Longrightarrow> kept s (t\<lparr>NRetry := 0\<rparr>)"
  by (auto simp: kept_def dest: running_fresh_retry)

lemma running_error:
  assumes "running n s" and "State s = EFTP_TIME_WAIT" and "EFI_ERROR st"
  shows "running n (s\<lparr>Result := st\<rparr>)"
  using assms base_error by (simp add: running_def phase_def ended_well_def)

lemma kept_error:
  "running n t \<Longrightarrow> armed s \<longrightarrow> armed t \<Longrightarrow> State t = EFTP_TIME_WAIT \<Longrightarrow> EFI_ERROR st \<Longrightarrow>
     kept s (t\<lparr>Result := st\<rparr>)"
  unfolding kept_def using running_error [of n t st] by auto

lemma tick_Wire: "Wire (tick s) = Wire s"
  by (simp add: tick_def)

lemma rrq_check_ok:
  assumes r: "running n s"
  shows "ok (rrq_check env pk s) (\<lambda>x. case x of Inl (st, t) \<Rightarrow> kept s t
    | Inr t \<Rightarrow> running n t \<and> (armed s \<longrightarrow> armed t) \<and> Wire t = Wire s)"
proof -
  obtain st t where t: "check_packet env pk s = (st, t)" by (cases "check_packet env pk s")
  have c: "t = s \<or> t = tick s" using check_packet_cases [OF t] by auto
  then have rt: "running n t" "armed s \<longrightarrow> armed t" "Wire t = Wire s"
    using r tick_Wire by auto
  let ?t = "t\<lparr>Result := EFI_ABORTED\<rparr>"
  have b: "base n ?t" "ended_well n ?t" "EFI_ERROR (Result ?t)"
    using rt(1) base_error by (simp_all add: running_def ended_well_def)
  have kt: "State t = EFTP_TIME_WAIT \<Longrightarrow> kept s ?t"
    using kept_error [OF rt(1,2)] by simp
  have "State ?t \<noteq> EFTP_TIME_WAIT \<Longrightarrow>
      ok (rrq_send_err env EFI_EFTP_ERRORCODE_NOT_DEFINED (ascii ''User caceled download'') ?t) (\<lambda>(st, u). kept s u)"
    by (rule ok_mono [OF send_err_ok [OF b(1,3)]]) (auto intro: kept_armed)
  then show ?thesis
    using t r rt silent_ok [OF b(1,2)] kt
    by (auto simp: rrq_check_def Let_def elim!: ok_mono intro: kept_armed)
qed

lemma rrq_switch_ok:
  assumes C: "can u (Rx stt len (Some pk))" and w: "Wire s = Wire u" and r: "running n s"
  shows "ok (rrq_switch env pk s) (\<lambda>(st, t). kept s t)"
proof -
  have kd: "kept s (drop_packet s)" "kept s s" using r by (auto simp: kept_def)
  have o: "Opt s = EftpInitOption" using r by (simp add: running_def base_def)
  let ?P = "unat (NTOHS (HdrLength pk))" and ?C = "NTOHS (OpCode pk)"
  have op: "OpCode pk = NTOHS ?C" by (simp add: NTOHS_invol)
  consider (data) k where "?C = EFI_EFTP_OPCODE_DATA" "?P = 8 + k" "2 \<le> k" "k \<le> 1026"
    | (bad_data) "?C = EFI_EFTP_OPCODE_DATA" "?P > 1034 \<or> ?P < 10"
    | (error) "?C = EFI_EFTP_OPCODE_ERROR" | (oack) "?C = EFI_EFTP_OPCODE_OACK"
    | (other) "?C \<noteq> EFI_EFTP_OPCODE_DATA" "?C \<noteq> EFI_EFTP_OPCODE_ERROR" "?C \<noteq> EFI_EFTP_OPCODE_OACK"
  proof (cases "?C = EFI_EFTP_OPCODE_DATA \<and> 10 \<le> ?P \<and> ?P \<le> 1034")
    case True
    then have "?P = 8 + (?P - 8)" "2 \<le> ?P - 8" "?P - 8 \<le> 1026" by auto
    then show ?thesis using True data by blast
  qed (use bad_data error oack other in \<open>auto simp: not_le\<close>)
  then show ?thesis
  proof cases
    case data
    have D: "OpCode pk = HTONS EFI_EFTP_OPCODE_DATA" using op data(1) by simp
    have e: "rrq_switch env pk s = do {
        (st, s) \<leftarrow> rcv_data env pk (of_nat (8 + k)) s;
        Some (st, if EFI_ERROR st then s else s\<lparr>NRetry := 0\<rparr>) }"
      using data o by (simp add: rrq_switch_def EFTP_HEADER_LEN_def EftpInitOption_def)
    show ?thesis
      unfolding e using rcv_data_ok [OF C D r data(2-4)] by (auto simp: kept_fresh_retry elim!: ok_mono)
  next
    case bad_data
    then show ?thesis using kd o by (auto simp: rrq_switch_def EFTP_HEADER_LEN_def EftpInitOption_def)
  next
    case error
    then have ne: "?C \<noteq> EFI_EFTP_OPCODE_DATA" by (simp add: EFI_EFTP_OPCODE_ERROR_def EFI_EFTP_OPCODE_DATA_def)
    have "ok (rcv_error s) (\<lambda>(st, t). kept s t \<and> kept s (t\<lparr>Result := EFI_NOT_READY\<rparr>))"
      by (rule ok_mono [OF rcv_error_ok [OF r]]) (auto simp: kept_error, auto simp: kept_def)
    then show ?thesis using error ne kd by (auto simp: rrq_switch_def elim!: ok_mono)
  next
    case oack
    then have ne: "?C \<noteq> EFI_EFTP_OPCODE_DATA" "?C \<noteq> EFI_EFTP_OPCODE_ERROR"
      by (simp_all add: EFI_EFTP_OPCODE_OACK_def EFI_EFTP_OPCODE_ERROR_def EFI_EFTP_OPCODE_DATA_def)
    have "OpCode pk = HTONS EFI_EFTP_OPCODE_OACK" using op oack by simp
    moreover have "\<forall>pk\<in>set (Wire u). rrq_out req n pk" using r w by (simp add: running_def base_def mem_def)
    ultimately have "fin n" using fin_oack [OF C] by blast
    then show ?thesis using rcv_oack_ok [OF r] oack ne kd by (auto simp: rrq_switch_def)
  next
    case other
    then show ?thesis using kd by (simp add: rrq_switch_def)
  qed
qed

lemma rrq_rx_end_ok:
  assumes "running n s"
  shows "kept s (rrq_rx_end env b st s)"
proof -
  define t where "t = (if b \<and> RxEvent s then s\<lparr>Recycled := Recycled s + 1\<rparr> else s)"
  have t: "running n t" "armed t = armed s" using assms by (simp_all add: t_def)
  obtain st' v where v: "EftpStartRcv env t = (st', v)" by (cases "EftpStartRcv env t")
  have e: "rrq_rx_end env b st s = (if EFI_ERROR st then t else if EFI_ERROR st' then RRQ_SILENT_SHUTDOWN v else v)"
    by (simp add: rrq_rx_end_def v flip: t_def)
  show ?thesis
  proof (cases "EFI_ERROR st'")
    case True
    then have "v = (tick t)\<lparr>Result := EFI_DEVICE_ERROR\<rparr>" using EftpStartRcv_ok [OF v] by simp
    then have "base n v" "ended_well n v"
      using t(1) base_error [of n "tick t"] by (simp_all add: running_def ended_well_def)
    from silent_ok [OF this] show ?thesis using t e True by (auto simp: kept_def)
  next
    case False
    then have "v = (tick t)\<lparr>Receiving := True\<rparr>" using EftpStartRcv_ok [OF v] by simp
    then show ?thesis using t e False by (auto simp: kept_def)
  qed
qed

lemma kept_trans: "kept s t \<Longrightarrow> (\<And>n. running n t \<Longrightarrow> kept t u) \<Longrightarrow> kept s u"
  by (auto simp: kept_def)

lemma EftpRrqRxCallback_ok:
  assumes C: "can u (Rx st len pk)" and w: "Wire s = Wire u" and r: "running n s"
  shows "ok (EftpRrqRxCallback env st len pk s) (kept s)"
proof (cases "EFI_ERROR st")
  case True
  let ?v = "if State s \<noteq> EFTP_TIME_WAIT \<and> State s \<noteq> EFTP_RRQ_CLOSEING
    then s\<lparr>Result := (if st = EFI_DEVICE_ERROR then EFI_DEVICE_ERROR else EFI_ICMP_ERROR)\<rparr> else s"
  have "base n ?v" "ended_well n ?v"
    using r base_error by (auto simp: running_def phase_def ended_well_def)
  note q = silent_ok [OF this]
  have "kept s (rrq_rx_end env False EFI_ABORTED (RRQ_SILENT_SHUTDOWN ?v))"
    using rrq_rx_end_ok [OF q(1)] q(2) by (auto simp: kept_def)
  moreover have "State s \<noteq> EFTP_INIT" using r by (auto simp: running_def phase_def)
  ultimately show ?thesis
    using True rrq_rx_end_ok [OF r] by (simp add: EftpRrqRxCallback_def)
next
  case False
  define v where "v = s\<lparr>RcvdPkts := RcvdPkts s + 1\<rparr>"
  have v: "running n v" "armed v = armed s" "Wire v = Wire u" using r w by (simp_all add: v_def)
  have ni: "State s \<noteq> EFTP_INIT" using r by (auto simp: running_def phase_def)
  have d: "kept s (rrq_rx_end env True EFI_SUCCESS (drop_packet v))"
    using rrq_rx_end_ok [of n "drop_packet v"] v by (auto simp: kept_def)
  show ?thesis
  proof (cases pk)
    case None
    then show ?thesis using False ni d by (simp add: EftpRrqRxCallback_def Let_def flip: v_def)
  next
    case (Some p)
    have sw: "ok (rrq_switch env p t) (\<lambda>(st, x). kept s (rrq_rx_end env True st x))"
      if "running n t" "armed s \<longrightarrow> armed t" "Wire t = Wire v" for t
      using that v rrq_switch_ok [OF C [unfolded Some], of t n] rrq_rx_end_ok
      by (auto simp: kept_def elim!: ok_mono)
    have "ok (rrq_check env p v) (\<lambda>x. ok (case x of Inl y \<Rightarrow> Some y | Inr t \<Rightarrow> rrq_switch env p t)
        (\<lambda>(st, x). kept s (rrq_rx_end env True st x)))"
      using sw v(2) rrq_rx_end_ok
      by (intro ok_mono [OF rrq_check_ok [OF v(1)]]) (auto simp: kept_def split: sum.splits)
    then show ?thesis
      using False ni d Some by (auto simp: EftpRrqRxCallback_def Let_def case_prod_beta elim!: ok_mono simp flip: v_def)
  qed
qed

section \<open>Cleaning up\<close>

lemma EftpRrqCleanUp_ok:
  assumes b: "base n s" and e: "ended_well n s"
  shows "ok (EftpRrqCleanUp s) (finished n)"
proof -
  obtain r where r: "RrqState s = Some r" using b by (auto simp: base_def)
  have m: "mem (rrq_out req n) (s\<lparr>RrqState := None\<rparr>) {#}" using b by (simp add: base_def)
  obtain p where p: "release_field_Request (s\<lparr>RrqState := None\<rparr>) = Some (s\<lparr>RrqState := None, Pkts := p, Request := None\<rparr>)"
    "mem (rrq_out req n) (s\<lparr>RrqState := None, Pkts := p, Request := None\<rparr>) {#}"
    using release_field_Request_ok [OF m] by (auto elim!: okE)
  obtain q where q: "release_field_LastCtrl (s\<lparr>RrqState := None, Pkts := p, Request := None\<rparr>) =
      Some (s\<lparr>RrqState := None, Request := None, Pkts := q, LastCtrl := None\<rparr>)"
    "mem (rrq_out req n) (s\<lparr>RrqState := None, Request := None, Pkts := q, LastCtrl := None\<rparr>) {#}"
    using release_field_LastCtrl_ok [OF p(2)] by (auto elim!: okE)
  let ?s = "s\<lparr>RrqState := None, Request := None, Pkts := q, LastCtrl := None\<rparr>"
  have w: "WrqState s = None" "\<not> UserEvtFired s" "\<not> SynFinished s" "Signals s = sig"
    using b by (simp_all add: base_def)
  have i: "InFlight s = PendingPacketList s" using q(2) by (simp add: mem_def)
  have "ok (finish_session ?s) (finished n)"
    using q(2) w i b e
    by (simp add: finish_session_def finished_def ended_well_def base_def refs_def last_data_def Let_def)
  then show ?thesis using r p(1) q(1) by (simp add: EftpRrqCleanUp_def)
qed

lemma finished_left [simp]: "finished n s \<Longrightarrow> rrq_left s = 0"
  by (simp add: finished_def rrq_left_def)

lemma EftpRrqTxCallback_ok:
  assumes r: "running n s" and b: "b \<in> set (InFlight s)"
  shows "ok (EftpRrqTxCallback b (s\<lparr>InFlight := remove1 b (InFlight s)\<rparr>)) (\<lambda>t.
    running n t \<and> (armed s \<longrightarrow> armed t) \<and> rrq_left t = rrq_left s \<or> finished n t)"
proof -
  have m: "mem (rrq_out req n) s {#}" using r by (simp add: running_def base_def)
  let ?s = "s\<lparr>InFlight := remove1 b (InFlight s)\<rparr>"
  obtain p where p: "recycle b ?s = Some (?s\<lparr>NPendingPacket := NPendingPacket s - 1,
      PendingPacketList := remove1 b (PendingPacketList s), Pkts := p\<rparr>)"
    "mem (rrq_out req n) (?s\<lparr>NPendingPacket := NPendingPacket s - 1,
      PendingPacketList := remove1 b (PendingPacketList s), Pkts := p\<rparr>) {#}"
    using recycle_ok [OF m b] by (auto elim!: okE)
  define t where "t = ?s\<lparr>NPendingPacket := NPendingPacket s - 1,
      PendingPacketList := remove1 b (PendingPacketList s), Pkts := p\<rparr>"
  have rb: "recycle b ?s = Some t" using p(1) by (simp add: t_def)
  have bt: "base n t" using r p(2) by (simp add: running_def base_def t_def)
  have ph: "phase n t" using r by (cases "State s") (auto simp: running_def phase_def ended_well_def t_def)
  have f: "State t = State s" "armed t = armed s" by (simp_all add: t_def armed_def)
  have l: "rrq_left t = rrq_left s" by (rule rrq_left_cong) (simp_all add: t_def)
  have rt: "running n t" using bt ph by (simp add: running_def)
  have c: "State s = EFTP_TIME_WAIT \<Longrightarrow> ok (EftpRrqCleanUp t) (finished n)"
    using EftpRrqCleanUp_ok [OF bt] ph f(1) by (simp add: phase_def)
  show ?thesis
    using r by (cases rule: runningE) (use rb rt f l c in \<open>auto simp: EftpRrqTxCallback_def elim!: ok_mono\<close>)
qed

section \<open>The timer\<close>

text \<open>The timer has expired and is not armed.\<close>

lemma running_timer: "running n s \<Longrightarrow> running n (s\<lparr>TimeoutEvent := Some t\<rparr>)"
  by (cases "State s") (auto simp: running_def phase_def ended_well_def base_timer)

definition timed :: "nat \<Rightarrow> EFTP_IO_PRIVATE \<Rightarrow> EFTP_IO_PRIVATE \<Rightarrow> bool" where
  "timed n s t \<longleftrightarrow> running n t \<and> armed t \<and> rrq_left t < rrq_left s \<or> finished n t"

lemma timed_finished: "finished n t \<Longrightarrow> timed n s t"
  by (simp add: timed_def)

lemma timed_silent:
  assumes "base n t" and "ended_well n t" and "State s \<noteq> EFTP_TIME_WAIT" and "running n s"
  shows "timed n s (RRQ_SILENT_SHUTDOWN t)"
proof -
  have "1 < rrq_left s" using assms(4) by (cases rule: runningE) (use assms(3) in \<open>simp_all add: rrq_left_def\<close>)
  then show ?thesis using silent_ok [OF assms(1,2)] by (simp add: timed_def rrq_left_def)
qed

text \<open>The request or the last control packet is sent again, unless the retries are used up.\<close>

lemma retry_ok:
  assumes r: "running n s" and st: "State s = EFTP_RRQ_SENT \<or> State s = EFTP_RRQ_ESTABLISHED"
    and c: "c = Request s \<or> c = LastCtrl s" "c \<noteq> None" and N: "NRetry s + 1 \<le> MaxNRetry s"
  shows "ok (do {
      (st, s) \<leftarrow> resend_last env c (s\<lparr>NRetry := NRetry s + 1\<rparr>);
      Some (if EFI_ERROR st then RRQ_SILENT_SHUTDOWN s else EftpSetTimer (ucast (Timeout s)) 0 s) })
    (timed n s)"
proof -
  let ?s = "s\<lparr>NRetry := NRetry s + 1\<rparr>"
  have b: "base n ?s" using r by (simp add: running_def)
  have mx: "unat (MaxNRetry s) \<le> 65535" using r by (simp add: running_def base_def)
  have nr: "unat (NRetry s) \<le> unat (MaxNRetry s)" using r st by (auto simp: running_def phase_def)
  then have N': "unat (NRetry s + 1) = Suc (unat (NRetry s))" "Suc (unat (NRetry s)) \<le> unat (MaxNRetry s)"
    using N mx unat_Suc_u64 [of "NRetry s"] by (simp_all add: word_le_nat_alt)
  obtain st' u where u: "resend_last env c ?s = Some (st', u)" "base n u" "touch ?s u" "LastCtrl u = LastCtrl s"
    "if EFI_ERROR st' then EFI_ERROR (Result u) else Result u = Result s"
    using resend_ok [OF b, of c] c by (auto elim!: okE)
  show ?thesis
  proof (cases "EFI_ERROR st'")
    case True
    then have "ended_well n u" using u(5) by (simp add: ended_well_def)
    then have "timed n s (RRQ_SILENT_SHUTDOWN u)" using st by (intro timed_silent [OF u(2) _ _ r]) auto
    then show ?thesis using True u(1) by simp
  next
    case False
    have f: "State u = State s" "RrqState u = RrqState s" "NextBlkNo u = NextBlkNo s"
      "NRetry u = NRetry s + 1" "MaxNRetry u = MaxNRetry s"
      using touch_fields [OF u(3)] by simp_all
    have e: "LastCtrl u = LastCtrl s" "Result u = Result s" using u(4,5) False by simp_all
    let ?u = "EftpSetTimer (ucast (Timeout u)) 0 u"
    have "base n ?u" "armed ?u" using base_EftpSetTimer [OF u(2)] by simp_all
    moreover have "phase n s" using r by (simp add: running_def)
    then have "phase n ?u" using st N' by (elim disjE) (simp_all add: phase_def f e)
    moreover have "rrq_left ?u < rrq_left s" using st N' by (elim disjE) (simp_all add: rrq_left_def f)
    ultimately show ?thesis using False u(1) by (simp add: timed_def running_def)
  qed
qed

lemma role_timer_ok:
  assumes r: "running n s"
  shows "ok (role_timer env s) (timed n s)"
proof -
  have b: "base n s" using r by (simp add: running_def)
  have to: "base n (s\<lparr>NRetry := u, Result := EFI_TIMEOUT\<rparr>)" "ended_well n (s\<lparr>NRetry := u, Result := EFI_TIMEOUT\<rparr>)" for u
    using b base_error by (simp_all add: ended_well_def)
  show ?thesis
    using r
  proof (cases rule: runningE)
    case (sent r)
    have "Request s \<noteq> None" using b by (simp add: base_def)
    from retry_ok [OF assms _ _ this] show ?thesis
      using sent timed_silent [OF to _ assms] by (auto simp: role_timer_def EftpRrqInitTimer_def not_less Let_def)
  next
    case (established r)
    have "ok (rrq_send_err env EFI_EFTP_ERRORCODE_NOT_DEFINED (ascii ''Too many timeouts'')
        (s\<lparr>NRetry := u, Result := EFI_TIMEOUT\<rparr>)) (\<lambda>x. timed n s (snd x))" for u
      using established
      by (intro ok_mono [OF send_err_ok [OF to(1)]]) (auto simp: timed_def rrq_left_def)
    then show ?thesis
      using established retry_ok [OF assms, of "LastCtrl s"]
      by (auto simp: role_timer_def EftpRrqActiveTimer_def not_less Let_def case_prod_beta elim!: ok_mono)
  next
    case (closing r)
    then show ?thesis
      using timed_silent [OF b closing(4) _ assms]
      by (cases "Role r") (simp_all add: role_timer_def EftpRrqInitTimer_def EftpRrqActiveTimer_def)
  next
    case (time_wait r)
    then show ?thesis
      using EftpRrqCleanUp_ok [OF b time_wait(3)]
      by (cases "Role r")
        (auto simp: role_timer_def EftpRrqInitTimer_def EftpRrqActiveTimer_def timed_finished elim!: ok_mono)
  qed
qed

lemma EftpRrqTimer_ok:
  assumes r: "running n s"
  shows "ok (EftpRrqTimer env s) (timed n s)"
proof -
  define v where "v = s\<lparr>Timeouts := Timeouts s + 1\<rparr>"
  have v: "running n v" "State v = State s" "State (tick v) = State s" using r by (simp_all add: v_def tick_def)
  have lt: "rrq_left v = rrq_left s" "rrq_left (tick v) = rrq_left s"
    by (rule rrq_left_cong; simp add: v_def tick_def)+
  have same: "timed n w t = timed n s t" if "rrq_left w = rrq_left s" for w t using that by (simp add: timed_def)
  have "base n ((tick v)\<lparr>Result := EFI_ABORTED\<rparr>)" "ended_well n ((tick v)\<lparr>Result := EFI_ABORTED\<rparr>)"
    using v(1) base_error [of n "tick v"] by (simp_all add: running_def ended_well_def)
  note q = timed_silent [OF this _ r]
  show ?thesis
    using role_timer_ok [OF r] role_timer_ok [OF v(1)] role_timer_ok [of n "tick v"] v lt q same [of v] same [of "tick v"]
    by (auto simp: EftpRrqTimer_def Let_def split: option.split simp flip: v_def elim!: ok_mono)
qed

section \<open>The session\<close>

definition live :: "EFTP_IO_PRIVATE \<Rightarrow> bool" where
  "live s \<longleftrightarrow> (\<exists>n. running n s \<and> armed s)"

definition over :: "EFTP_IO_PRIVATE \<Rightarrow> bool" where
  "over s \<longleftrightarrow> (\<exists>n. finished n s)"

lemma rx_live:
  assumes "live s" and "can s (Rx st len pk)"
  shows "ok (rrq_step env (Rx st len pk) s) live"
proof -
  obtain n where n: "running n s" "armed s" using assms(1) by (auto simp: live_def)
  have "ok (EftpRrqRxCallback env st len pk (s\<lparr>Receiving := False\<rparr>)) (kept (s\<lparr>Receiving := False\<rparr>))"
    using n(1) by (intro EftpRrqRxCallback_ok [OF assms(2), where n = n]) simp_all
  then show ?thesis using n(2) by (auto simp: kept_def live_def elim!: ok_mono)
qed

lemma tx_live:
  assumes "live s" and "can s (Tx b)"
  shows "ok (rrq_step env (Tx b) s) (\<lambda>t. (live t \<or> over t) \<and> rrq_left t \<le> rrq_left s)"
proof -
  obtain n where n: "running n s" "armed s" using assms(1) by (auto simp: live_def)
  have "b \<in> set (InFlight s)" using can_enabled [OF assms(2)] by simp
  from EftpRrqTxCallback_ok [OF n(1) this] show ?thesis
    using n(2) by (auto simp: live_def over_def elim!: ok_mono)
qed

lemma timer_live:
  assumes "live s"
  shows "ok (rrq_step env Timer s) (\<lambda>t. (live t \<or> over t) \<and> rrq_left t < rrq_left s)"
proof -
  obtain n where n: "running n s" using assms by (auto simp: live_def)
  let ?s = "s\<lparr>TimeoutEvent := Some None\<rparr>"
  have l: "rrq_left ?s = rrq_left s" by (rule rrq_left_cong) simp_all
  have "0 < rrq_left s" using n by (cases rule: runningE) (simp_all add: rrq_left_def)
  moreover have "ok (EftpRrqTimer env ?s) (timed n ?s)" by (rule EftpRrqTimer_ok [OF running_timer [OF n]])
  ultimately show ?thesis using l by (auto simp: timed_def live_def over_def elim!: ok_mono)
qed

lemma step_live:
  assumes "live s" and "can s e"
  shows "ok (rrq_step env e s) (\<lambda>t. live t \<or> over t)"
proof (cases e)
  case (Rx st len pk)
  show ?thesis unfolding Rx by (rule ok_mono [OF rx_live]) (use assms Rx in simp_all)
next
  case (Tx b)
  show ?thesis unfolding Tx by (rule ok_mono [OF tx_live]) (use assms Tx in simp_all)
next
  case Timer
  show ?thesis unfolding Timer by (rule ok_mono [OF timer_live]) (use assms in simp_all)
qed

lemma live_State: "live s \<Longrightarrow> State s \<noteq> EFTP_INIT"
  by (auto simp: live_def running_def phase_def)

sublocale session: timed_session "rrq_step env" can live over rrq_left
proof
  fix s t assume "live s" "rrq_step env Timer s = Some t"
  then show "rrq_left t < rrq_left s" using timer_live [of s] by (simp only: ok_Some)
next
  fix s b t assume "live s" "can s (Tx b)" "rrq_step env (Tx b) s = Some t"
  then show "rrq_left t \<le> rrq_left s" using tx_live [of s b] by (simp only: ok_Some)
qed (use step_live live_State can_timer in \<open>auto simp: live_def over_def finished_def\<close>)

end

end
