(* ===== verification/Eftp_Start.thy ===== *)
theory Eftp_Start
  imports Eftp_Read
begin

text \<open>
  The start of a session: what \<open>EftpInitPrivate\<close> leaves. A call that returns an error leaves the
  session idle and no packet buffer in use; one that does not leaves a session as the invariant of
  the client describes it, with the request on the wire.
\<close>

section \<open>The request of a token\<close>

definition token_text :: "EFI_EFTP_TOKEN \<Rightarrow> u8 list option" where
  "token_text tok = do {
     name \<leftarrow> Filename tok;
     n \<leftarrow> cstr name;
     md \<leftarrow> cstr (mode_block (ModeStr tok));
     os \<leftarrow> given_options (OptionCount tok) (OptionList tok);
     ts \<leftarrow> option_texts os;
     Some (request_text n md ts) }"

text \<open>A packet buffer that was built for the request becomes the request.\<close>

lemma mem_request:
  assumes m: "mem Q s {#b#}" and r: "Request s = None" and w: "wire_of (Pkts s) b = Some W" and Q: "Q W"
  shows "mem Q (s\<lparr>Request := Some b\<rparr>) {#}"
proof -
  have "refs (s\<lparr>Request := Some b\<rparr>) = add_mset b (refs s)"
    using r by (simp add: refs_def last_data_def)
  then show ?thesis using m w Q by (auto simp: mem_def)
qed

lemma built_same:
  assumes "built Q L W s (Some b, t)"
  shows "t = s\<lparr>Pkts := Pkts t\<rparr>"
proof -
  have "t\<lparr>Result := Result s\<rparr> = s\<lparr>Pkts := Pkts t\<rparr>" "Result t = Result s"
    using assms by (simp_all add: built_def quiet_def)
  then show ?thesis by (cases s, cases t) simp
qed

text \<open>What both handlers do: the request is built, kept and sent.\<close>

lemma send_request_ok:
  assumes m: "mem Q s {#}" and r: "Request s = None" and env: "network_ok env" and W: "Q W"
    and B: "built Q {#} W s (Some b, t)"
  shows "ok (EftpSendPacket env b (t\<lparr>Request := Some b\<rparr>)) (\<lambda>(st, u). mem Q u {#} \<and>
    touch (s\<lparr>Request := Some b\<rparr>) u \<and> LastCtrl u = LastCtrl s \<and>
    (\<not> EFI_ERROR st \<longrightarrow> Result u = Result s \<and> Wire u = Wire s @ [W]))"
proof -
  have t: "mem Q t {#b#}" "b \<notin># refs s" "wire_of (Pkts t) b = Some W"
    using B by (simp_all add: built_def)
  note same = built_same [OF B]
  have f: "Result t = Result s" "Wire t = Wire s" "LastCtrl t = LastCtrl s" "Request t = None"
    "PendingPacketList t = PendingPacketList s"
    using r by (subst same, simp)+
  let ?t = "t\<lparr>Request := Some b\<rparr>"
  have m': "mem Q ?t {#}" by (rule mem_request [OF t(1) f(4) t(3) W])
  have b: "b \<in># refs ?t + {#}" "b \<notin> set (PendingPacketList ?t)"
    using t(2) f(5) by (auto simp: refs_def)
  have tt: "touch (s\<lparr>Request := Some b\<rparr>) ?t" by (subst same) (simp add: touch_def)
  have q: "Q pk" if "wire_of (Pkts ?t) b = Some pk" for pk
    using that t(3) W by simp
  show ?thesis
    using t(3) f touch_trans [OF tt]
    by (intro ok_mono [OF EftpSendPacket_ok [OF m' b _ env q]]) auto
qed

lemma EftpBuildRrq_ok:
  assumes m: "mem Q s {#}" and r: "Request s = None" and env: "network_ok env"
    and x: "token_text (Token s) = Some x" "length x < 60000"
  shows "ok (EftpBuildRrq env Code s) (\<lambda>(st, t). if EFI_ERROR st
      then mem Q t {#} \<and> LastCtrl t = LastCtrl s \<and> WrqState t = WrqState s
      else \<exists>b v. t = v\<lparr>Request := Some b\<rparr> \<and> built Q {#} (sealed (8 + length x) Code 0 x) s (Some b, v))"
proof -
  obtain name n md os ts where tx: "Filename (Token s) = Some name" "cstr name = Some n"
    "cstr (mode_block (ModeStr (Token s))) = Some md"
    "given_options (OptionCount (Token s)) (OptionList (Token s)) = Some os"
    "option_texts os = Some ts" "x = request_text n md ts"
    using x(1) by (auto simp: token_text_def bind_eq_Some_conv)
  obtain c v where v: "EftpBuildRequest env Code name (ModeStr (Token s)) (OptionCount (Token s))
      (OptionList (Token s)) s = Some (c, v)" "built Q {#} (sealed (8 + length x) Code 0 x) s (c, v)"
    using EftpBuildRequest_ok [OF m env tx(2,3,4,5), of Code] x(2) tx(6) by (auto elim!: okE)
  show ?thesis
  proof (cases c)
    case None
    then have q: "quiet {#} s (v\<lparr>Result := Result s\<rparr>)" "mem Q v {#}" using v(2) by (simp_all add: built_def)
    have "touch s v" using quiet_touch [OF q(1)] by simp
    moreover have "LastCtrl (v\<lparr>Result := Result s\<rparr>) = LastCtrl s"
      using q(1) by (simp add: quiet_def)
    ultimately show ?thesis using None q(2) v(1) tx(1) by (simp add: EftpBuildRrq_def touch_fields)
  next
    case (Some b)
    have "Request v = None" using r by (subst built_same [OF v(2) [unfolded Some]]) simp
    then show ?thesis using Some v tx(1) by (auto simp: EftpBuildRrq_def release_opt_def)
  qed
qed

text \<open>Then it is sent.\<close>

definition request_sent :: "(EFI_EFTP_PACKET \<Rightarrow> bool) \<Rightarrow> EFI_EFTP_PACKET \<Rightarrow> EFTP_IO_PRIVATE \<Rightarrow>
    EFI_STATUS \<times> EFTP_IO_PRIVATE \<Rightarrow> bool" where
  "request_sent Q W u r \<longleftrightarrow> (case r of (st, t) \<Rightarrow> mem Q t {#} \<and> LastCtrl t = LastCtrl u \<and>
     WrqState t = WrqState u \<and> (\<not> EFI_ERROR st \<longrightarrow> Result t = Result u \<and> Wire t = Wire u @ [W] \<and>
       (\<exists>b. touch (u\<lparr>Request := Some b\<rparr>) t)))"

lemma request_sent_ok:
  assumes m: "mem Q u {#}" and r: "Request u = None" and env: "network_ok env"
    and x: "token_text (Token u) = Some x" "length x < 60000" and W: "Q (sealed (8 + length x) Code 0 x)"
  shows "ok (do {
      (st, s) \<leftarrow> EftpBuildRrq env Code u;
      if EFI_ERROR st then Some (st, s)
      else do {
        b \<leftarrow> Request s;
        (st, s) \<leftarrow> EftpSendPacket env b s;
        Some (if EFI_ERROR st then st else EFI_SUCCESS, s) } })
    (request_sent Q (sealed (8 + length x) Code 0 x) u)"
proof -
  obtain st t where t: "EftpBuildRrq env Code u = Some (st, t)"
    "if EFI_ERROR st then mem Q t {#} \<and> LastCtrl t = LastCtrl u \<and> WrqState t = WrqState u
      else \<exists>b v. t = v\<lparr>Request := Some b\<rparr> \<and> built Q {#} (sealed (8 + length x) Code 0 x) u (Some b, v)"
    using EftpBuildRrq_ok [OF m r env x, of Code] by (auto elim!: okE)
  show ?thesis
  proof (cases "EFI_ERROR st")
    case True
    then show ?thesis using t by (simp add: request_sent_def)
  next
    case False
    then obtain b v where v: "t = v\<lparr>Request := Some b\<rparr>" "built Q {#} (sealed (8 + length x) Code 0 x) u (Some b, v)"
      using t(2) by auto
    obtain st' w where w: "EftpSendPacket env b t = Some (st', w)" "mem Q w {#}" "touch (u\<lparr>Request := Some b\<rparr>) w"
      "LastCtrl w = LastCtrl u" "\<not> EFI_ERROR st' \<Longrightarrow> Result w = Result u \<and> Wire w = Wire u @ [sealed (8 + length x) Code 0 x]"
      using send_request_ok [OF m r env W v(2)] unfolding v(1) by (auto elim!: okE)
    have "WrqState w = WrqState u" using touch_fields(18) [OF w(3)] by simp
    then show ?thesis using False t(1) v(1) w by (auto simp: request_sent_def)
  qed
qed

lemma EftpBuildWrq_eq: "EftpBuildWrq env s = EftpBuildRrq env EFI_EFTP_OPCODE_WRQ s"
  by (simp add: EftpBuildWrq_def EftpBuildRrq_def)

lemma tick_fields: "LastCtrl (tick z) = LastCtrl z" "WrqState (tick z) = WrqState z" "Request (tick z) = Request z"
  "Token (tick z) = Token z" "Result (tick z) = Result z" "Wire (tick z) = Wire z" "State (tick z) = State z"
  by (simp_all add: tick_def)

section \<open>The handlers\<close>

lemma EftpInitReadHandler_ok:
  assumes m: "mem Q s {#}" and r: "Request s = None" and env: "network_ok env"
    and x: "token_text (Token s) = Some x" "length x < 60000" and W: "Q (sealed (8 + length x) Code 0 x)"
  shows "ok (EftpInitReadHandler env Code s) (\<lambda>(st, t). mem Q t {#} \<and>
    LastCtrl t = LastCtrl s \<and> WrqState t = WrqState s \<and>
    (\<not> EFI_ERROR st \<longrightarrow> (\<exists>rr b. Role rr = EFTP_RRQ_ROLE_INIT \<and> Result t = Result s \<and>
       Wire t = Wire s @ [sealed (8 + length x) Code 0 x] \<and>
       touch (s\<lparr>RrqState := Some rr, RxEvent := True, TimeoutEvent := Some None, State := EFTP_RRQ_SENT,
         Request := Some b\<rparr>) t)))"
proof -
  define rr where "rr = EftpRrqChangeRole EFTP_RRQ_ROLE_INIT
      \<lparr>LostPacketList = [], LostListSize = 0, Role = EFTP_RRQ_ROLE_INIT\<rparr>"
  let ?C = "tick ((tick s)\<lparr>RrqState := Some rr\<rparr>)"
  define u where "u = (tick (?C\<lparr>RxEvent := True\<rparr>))\<lparr>TimeoutEvent := Some None, State := EFTP_RRQ_SENT\<rparr>"
  have u: "mem Q u {#}" "Request u = None" "Token u = Token s" "Result u = Result s" "Wire u = Wire s"
      "LastCtrl u = LastCtrl s" "WrqState u = WrqState s"
    using m r by (simp_all add: u_def tick_def mem_def refs_def last_data_def)
  have tu: "touch (s\<lparr>RrqState := Some rr, RxEvent := True, TimeoutEvent := Some None, State := EFTP_RRQ_SENT,
         Request := Some b\<rparr>) (u\<lparr>Request := Some b\<rparr>)" for b
    by (simp add: touch_def u_def tick_def)
  have role: "Role rr = EFTP_RRQ_ROLE_INIT" by (simp add: rr_def EftpRrqChangeRole_def)
  let ?B = "do {
       (st, s) \<leftarrow> EftpBuildRrq env Code u;
       if EFI_ERROR st then Some (st, s)
       else do {
         b \<leftarrow> Request s;
         (st, s) \<leftarrow> EftpSendPacket env b s;
         Some (if EFI_ERROR st then st else EFI_SUCCESS, s) } }"
  have rest: "ok ?B (request_sent Q (sealed (8 + length x) Code 0 x) u)"
    using x u(3) W by (intro request_sent_ok [OF u(1,2) env]) simp_all
  have eq: "EftpInitReadHandler env Code s =
    (if \<not> AllocPool env (now s) then Some (EFI_OUT_OF_RESOURCES, (tick s)\<lparr>Result := EFI_OUT_OF_RESOURCES, RrqState := None\<rparr>)
     else if EFI_ERROR (CreateEvent env (now (tick s))) then Some (CreateEvent env (now (tick s)), ?C)
     else if EFI_ERROR (CreateEvent env (now ?C)) then Some (CreateEvent env (now ?C), tick (?C\<lparr>RxEvent := True\<rparr>))
     else ?B)"
    by (simp add: EftpInitReadHandler_def EftpInitRrqState_def Let_def u_def [symmetric] flip: rr_def)
  show ?thesis
    unfolding eq using m role u
    by (auto simp: tick_fields request_sent_def simp del: ok_bind intro!: ok_mono [OF rest] dest!: touch_trans [OF tu]) blast
qed

lemma EftpInitWriteHandler_ok:
  assumes m: "mem Q s {#}" and r: "Request s = None" "WrqState s = None" and env: "network_ok env"
    and x: "token_text (Token s) = Some x" "length x < 60000" and W: "Q (sealed (8 + length x) EFI_EFTP_OPCODE_WRQ 0 x)"
  shows "ok (EftpInitWriteHandler env s) (\<lambda>(st, t). mem Q t {#} \<and>
    LastCtrl t = LastCtrl s \<and> last_data t = None \<and>
    (\<not> EFI_ERROR st \<longrightarrow> (\<exists>b. Result t = Result s \<and>
       Wire t = Wire s @ [sealed (8 + length x) EFI_EFTP_OPCODE_WRQ 0 x] \<and>
       touch (s\<lparr>WrqState := Some None, RxEvent := True, TimeoutEvent := Some None, State := EFTP_WRQ_SENT,
         Request := Some b\<rparr>) t)))"
proof -
  let ?C = "tick ((tick s)\<lparr>WrqState := Some None\<rparr>)"
  define u where "u = (tick (?C\<lparr>RxEvent := True\<rparr>))\<lparr>TimeoutEvent := Some None, State := EFTP_WRQ_SENT\<rparr>"
  have mW: "mem Q ((tick s)\<lparr>WrqState := w\<rparr>) {#}" if "w = None \<or> w = Some None" for w
    using m r(2) that by (auto simp: mem_def refs_def last_data_def tick_def)
  then have mC: "mem Q ?C {#}" by simp
  have u: "mem Q u {#}" "Request u = None" "Token u = Token s" "Result u = Result s" "Wire u = Wire s"
      "LastCtrl u = LastCtrl s" "WrqState u = Some None"
    using mC r by (simp_all add: u_def) (simp_all add: tick_def)
  have tu: "touch (s\<lparr>WrqState := Some None, RxEvent := True, TimeoutEvent := Some None, State := EFTP_WRQ_SENT,
         Request := Some b\<rparr>) (u\<lparr>Request := Some b\<rparr>)" for b
    by (simp add: touch_def u_def tick_def)
  let ?B = "do {
       (st, s) \<leftarrow> EftpBuildRrq env EFI_EFTP_OPCODE_WRQ u;
       if EFI_ERROR st then Some (st, s)
       else do {
         b \<leftarrow> Request s;
         (st, s) \<leftarrow> EftpSendPacket env b s;
         Some (if EFI_ERROR st then st else EFI_SUCCESS, s) } }"
  have rest: "ok ?B (request_sent Q (sealed (8 + length x) EFI_EFTP_OPCODE_WRQ 0 x) u)"
    using x u(3) W by (intro request_sent_ok [OF u(1,2) env]) simp_all
  have eq: "EftpInitWriteHandler env s =
    (if \<not> AllocPool env (now s) then Some (EFI_OUT_OF_RESOURCES, (tick s)\<lparr>Result := EFI_OUT_OF_RESOURCES, WrqState := None\<rparr>)
     else if EFI_ERROR (CreateEvent env (now (tick s))) then Some (CreateEvent env (now (tick s)), ?C)
     else if EFI_ERROR (CreateEvent env (now ?C)) then Some (CreateEvent env (now ?C), tick (?C\<lparr>RxEvent := True\<rparr>))
     else ?B)"
    by (simp add: EftpInitWriteHandler_def EftpInitWrqState_def Let_def u_def [symmetric] EftpBuildWrq_eq)
  have e1: "mem Q ((tick s)\<lparr>Result := EFI_OUT_OF_RESOURCES, WrqState := None\<rparr>) {#}"
    using mW [of None] m r(2) by (simp add: mem_def refs_def last_data_def tick_def)
  show ?thesis
    unfolding eq using e1 mC u
    by (auto simp: tick_fields request_sent_def last_data_def simp del: ok_bind intro!: ok_mono [OF rest] dest!: touch_trans [OF tu])
qed

section \<open>The start of a session\<close>

text \<open>An idle session: configured, no packet buffer in use.\<close>

definition idle :: "EFTP_IO_PRIVATE \<Rightarrow> bool" where
  "idle s \<longleftrightarrow> State s = EFTP_INIT \<and> Configured s \<and> InFlight s = [] \<and> Wire s = [] \<and> held (Pkts s) {#}"

lemma reset_session_simps [simp]:
  "Token (reset_session tok s) = tok" "State (reset_session tok s) = State s"
  "Opt (reset_session tok s) = EftpInitOption" "Result (reset_session tok s) = EFI_SUCCESS"
  "Request (reset_session tok s) = None" "LastCtrl (reset_session tok s) = None"
  "WrqState (reset_session tok s) = None" "RrqState (reset_session tok s) = None"
  "NextBlkNo (reset_session tok s) = 1" "NRetry (reset_session tok s) = 0"
  "InFlight (reset_session tok s) = InFlight s" "Wire (reset_session tok s) = Wire s"
  "Pkts (reset_session tok s) = Pkts s" "PendingPacketList (reset_session tok s) = []"
  "NPendingPacket (reset_session tok s) = 0" "Signals (reset_session tok s) = Signals s"
  "\<not> UserEvtFired (reset_session tok s)" "\<not> SynFinished (reset_session tok s)"
  "Eof (reset_session tok s) = False" "LastBlkNo (reset_session tok s) = 0"
  by (simp_all add: reset_session_def Let_def split: option.split)

lemma MaxNRetry_reset: "unat (MaxNRetry (reset_session tok s)) \<le> 65535"
proof -
  have "unat (ucast v :: u64) \<le> 65535" for v :: u16
    using unat_of_nat_u64 [of "unat v"] unsigned_less [of v, where 'a = nat] by simp
  then show ?thesis by (auto simp: reset_session_def Let_def split: option.split)
qed

lemma mem_reset: "idle s \<Longrightarrow> mem Q (reset_session tok s) {#}"
  by (simp add: idle_def mem_def refs_def last_data_def)

lemma init_cleanup_ok:
  assumes m: "mem Q s {#}" and l: "LastCtrl s = None" "last_data s = None"
  shows "ok (init_cleanup s) (\<lambda>t. State t = EFTP_INIT \<and> held (Pkts t) (mset (InFlight t)))"
proof -
  have m': "mem Q ((tick s)\<lparr>RxEvent := False\<rparr>) {#}" using m by simp
  obtain p where p: "release_field_Request ((tick s)\<lparr>RxEvent := False\<rparr>) =
      Some ((tick s)\<lparr>RxEvent := False, Pkts := p, Request := None\<rparr>)"
    "mem Q ((tick s)\<lparr>RxEvent := False, Pkts := p, Request := None\<rparr>) {#}"
    using release_field_Request_ok [OF m'] by (auto elim!: okE)
  then have "held p (mset (InFlight s))"
    using l by (simp add: mem_def refs_def last_data_def tick_def)
  then show ?thesis using p(1) by (simp add: init_cleanup_def tick_def)
qed

text \<open>What both starts share: \<open>R\<close> is what a session that has been started satisfies.\<close>

definition not_started :: "EFI_STATUS option \<Rightarrow> EFTP_IO_PRIVATE \<Rightarrow> bool" where
  "not_started st t \<longleftrightarrow> (\<exists>e. st = Some e \<and> EFI_ERROR e) \<and> held (Pkts t) (mset (InFlight t))"

lemma EftpInitPrivate_ok:
  assumes i: "idle s" and bad: "bad_token env Code Stk (Some tok) s = Some None"
    and t: "(if Code = EFI_EFTP_OPCODE_RRQ then EftpInitReadHandler env Code (tick (tick (reset_session tok s)))
       else EftpInitWriteHandler env (tick (tick (reset_session tok s)))) = Some (st, t)"
    and Code: "Code = EFI_EFTP_OPCODE_RRQ \<or> Code = EFI_EFTP_OPCODE_WRQ"
    and m: "mem Q t {#}" "LastCtrl t = None" "last_data t = None"
    and R: "\<not> EFI_ERROR st \<Longrightarrow> R (EftpSetTimer (ucast (Timeout t)) 0 ((tick t)\<lparr>Receiving := True\<rparr>))"
    and RS: "\<And>u. R u \<Longrightarrow> State u \<noteq> EFTP_INIT"
  shows "ok (EftpInitPrivate env Code Stk (Some tok) s) (\<lambda>(st, u).
    if State u = EFTP_INIT then not_started st u else R u)"
    (is "ok _ ?P")
proof -
  define v where "v = tick (tick (reset_session tok s))"
  obtain st' w where w: "EftpStartRcv env t = (st', w)" by (cases "EftpStartRcv env t")
  note w' = EftpStartRcv_ok [OF w]
  have eq: "EftpInitPrivate env Code Stk (Some tok) s =
    (if EFI_ERROR (MnpConfigure env (now s)) then Some (Some EFI_DEVICE_ERROR, tick (reset_session tok s))
     else if EFI_ERROR (MnpConfigure env (Suc (now s))) then Some (Some (MnpConfigure env (Suc (now s))), v)
     else if EFI_ERROR st then do { s \<leftarrow> init_cleanup t; Some (Some st, s) }
     else if EFI_ERROR st' then do { s \<leftarrow> init_cleanup w; Some (Some st', s) }
     else (let w = EftpSetTimer (ucast (Timeout w)) 0 w in
       Some (if TokenEvent (Token w) then Some st' else None, w)))"
    using bad t w Code by (auto simp: EftpInitPrivate_def Let_def EFI_EFTP_OPCODE_RRQ_def EFI_EFTP_OPCODE_WRQ_def simp flip: v_def)
  have clean: "ok (do { s \<leftarrow> init_cleanup y; Some (Some e, s) }) ?P"
    if "EFI_ERROR e" "mem Q y {#}" "LastCtrl y = None" "last_data y = None" for e y
    using ok_mono [OF init_cleanup_ok [OF that(2,3,4)]] that(1) by (auto simp: not_started_def)
  have early: "?P (Some e, tick (reset_session tok s))" "?P (Some e, v)" if "EFI_ERROR e" for e
    using that i by (simp_all add: v_def tick_def not_started_def idle_def)
  show ?thesis
  proof (cases "EFI_ERROR (MnpConfigure env (now s)) \<or> EFI_ERROR (MnpConfigure env (Suc (now s)))")
    case True
    then show ?thesis unfolding eq using early by auto
  next
    case False
    consider "EFI_ERROR st" | "\<not> EFI_ERROR st" "EFI_ERROR st'" | "\<not> EFI_ERROR st" "\<not> EFI_ERROR st'" by blast
    then show ?thesis
    proof cases
      case 1
      from clean [OF this m] show ?thesis unfolding eq using False 1 by simp
    next
      case 2
      then have "w = (tick t)\<lparr>Result := EFI_DEVICE_ERROR\<rparr>" using w' by simp
      then have "mem Q w {#}" "LastCtrl w = None" "last_data w = None"
        using m by (simp_all add: tick_def mem_def refs_def last_data_def)
      from clean [OF 2(2) this] show ?thesis unfolding eq using False 2 by simp
    next
      case 3
      then have r: "R (EftpSetTimer (ucast (Timeout w)) 0 w)" using R w' by (simp add: tick_def)
      show ?thesis unfolding eq using False 3 r RS [OF r] by (simp add: Let_def)
    qed
  qed
qed

lemma mem_start: "idle s \<Longrightarrow> mem Q (tick (tick (reset_session tok s))) {#}"
  using mem_reset by simp

context rrq_client begin

text \<open>The session a download begins with: the parameters were right.\<close>

lemma start_ok:
  assumes i: "idle s" and bad: "bad_token env EFI_EFTP_OPCODE_RRQ Stk (Some tok) s = Some None"
    and x: "token_text tok = Some x" "length x < 60000"
    and req: "req = sealed (8 + length x) EFI_EFTP_OPCODE_RRQ 0 x"
    and d: "dat 0 (Buffer tok)" "siz 0 (Buffer tok) (BufferSize tok)" and sig: "Signals s = sig"
  shows "ok (EftpReadFile env Stk (Some tok) s) (\<lambda>(st, t).
    if State t = EFTP_INIT then not_started st t
    else running 0 t \<and> armed t \<and> Wire t = [req] \<and> State t = EFTP_RRQ_SENT \<and>
      MaxNRetry t = MaxNRetry (reset_session tok s) \<and> NRetry t = 0)"
proof -
  define v where "v = tick (tick (reset_session tok s))"
  have mv: "mem (rrq_out req 0) v {#}" unfolding v_def by (rule mem_start [OF i])
  have v: "Request v = None" "Token v = tok" "LastCtrl v = None" "WrqState v = None"
    "Result v = EFI_SUCCESS" "Wire v = []"
    using i by (simp_all add: v_def tick_def idle_def)
  have W: "rrq_out req 0 (sealed (8 + length x) EFI_EFTP_OPCODE_RRQ 0 x)" by (simp add: req rrq_out_def)
  obtain st t where t: "EftpInitReadHandler env EFI_EFTP_OPCODE_RRQ v = Some (st, t)"
    "mem (rrq_out req 0) t {#}" "LastCtrl t = None" "WrqState t = None"
    "\<not> EFI_ERROR st \<longrightarrow> (\<exists>rr b. Role rr = EFTP_RRQ_ROLE_INIT \<and> Result t = EFI_SUCCESS \<and> Wire t = [req] \<and>
       touch (v\<lparr>RrqState := Some rr, RxEvent := True, TimeoutEvent := Some None, State := EFTP_RRQ_SENT,
         Request := Some b\<rparr>) t)"
    using EftpInitReadHandler_ok [OF mv v(1) network, of x EFI_EFTP_OPCODE_RRQ] x W v
    by (auto simp: req elim!: okE)
  show ?thesis
    unfolding EftpReadFile_def
  proof (rule EftpInitPrivate_ok [OF i bad _ _ t(2,3)])
    assume good: "\<not> EFI_ERROR st"
    let ?w = "EftpSetTimer (ucast (Timeout t)) 0 ((tick t)\<lparr>Receiving := True\<rparr>)"
    obtain rr b where to: "Role rr = EFTP_RRQ_ROLE_INIT" "Result t = EFI_SUCCESS" "Wire t = [req]"
       "touch (v\<lparr>RrqState := Some rr, RxEvent := True, TimeoutEvent := Some None, State := EFTP_RRQ_SENT,
         Request := Some b\<rparr>) t" using t(5) good by blast
    note f = touch_fields [OF to(4)]
    have "base 0 t"
      using t(2,4) f d sig MaxNRetry_reset [of tok s]
      by (simp add: base_def v_def) (simp add: tick_def)
    then have "base 0 ((tick t)\<lparr>Receiving := True\<rparr>)" "phase 0 t"
      using f to by (simp_all add: phase_def v_def) (simp_all add: tick_def)
    moreover have "phase 0 ?w" using \<open>phase 0 t\<close> f(8) by (simp add: phase_def) (simp add: tick_def)
    ultimately have "running 0 ?w" "armed ?w"
      using base_EftpSetTimer [of 0 "(tick t)\<lparr>Receiving := True\<rparr>"] by (simp_all add: running_def)
    moreover have "Wire ?w = [req]" "State ?w = EFTP_RRQ_SENT" using to(3) f(8) by (simp_all add: tick_fields)
    moreover have "MaxNRetry ?w = MaxNRetry (reset_session tok s)" "NRetry ?w = 0"
      using f(6,10) by (simp_all add: v_def) (simp_all add: tick_def)
    ultimately show "running 0 ?w \<and> armed ?w \<and> Wire ?w = [req] \<and> State ?w = EFTP_RRQ_SENT \<and>
      MaxNRetry ?w = MaxNRetry (reset_session tok s) \<and> NRetry ?w = 0" by blast
  qed (use t(1,4) in \<open>simp_all add: v_def last_data_def\<close>)
qed

text \<open>What is known after any history of such a session.\<close>

lemma live_facts:
  assumes "live t \<or> over t"
  shows "\<exists>n. (\<forall>pk\<in>set (Wire t). rrq_out req n pk) \<and> dat n (Buffer (Token t)) \<and>
    held (Pkts t) (refs t) \<and> InFlight t = PendingPacketList t \<and> distinct (InFlight t) \<and>
    rrq_left t \<le> 3 + unat (MaxNRetry t) \<and>
    (if State t = EFTP_INIT
     then refs t = mset (InFlight t) \<and> TokenStatus (Token t) = Result t \<and> TimeoutEvent t = None \<and>
       Signals t = sig + (if TokenEvent (Token t) then 1 else 0) \<and>
       (\<not> EFI_ERROR (Result t) \<longrightarrow> fin n \<and> siz n (Buffer (Token t)) (BufferSize (Token t)))
     else armed t \<and> Signals t = sig)"
  using assms
proof
  assume "live t"
  then obtain n where n: "running n t" "armed t" by (auto simp: live_def)
  moreover have "rrq_left t \<le> 3 + unat (MaxNRetry t)"
    by (cases "State t") (simp_all add: rrq_left_def)
  ultimately show ?thesis
    using live_State [OF \<open>live t\<close>] by (intro exI [of _ n]) (simp add: running_def base_def mem_def)
next
  assume "over t"
  then obtain n where "finished n t" by (auto simp: over_def)
  then show ?thesis
    by (intro exI [of _ n]) (auto simp: finished_def mem_def ended_well_def rrq_left_def)
qed

lemmas session_facts = live_facts [OF session.history_invariant]

end

end
