(* ===== verification/Eftp_Download.thy ===== *)
theory Eftp_Download
  imports Eftp_Start
begin

text \<open>
  Downloads: the client interpreted for a peer that may send anything, and for one that sends a
  file. What follows from a packet on the wire, and what a whole session leaves.
\<close>

section \<open>Networks that keep their promises\<close>

definition tame :: "eftp_env \<Rightarrow> eftp_env" where
  "tame env = env\<lparr>Transmit := (\<lambda>t buf. if Transmit env t buf = EFI_ACCESS_DENIED then EFI_DEVICE_ERROR
     else Transmit env t buf), AllocAddress := (\<lambda>_. True)\<rparr>"

lemma tame_ok: "network_ok (tame env)"
  by (simp add: tame_def network_ok_def)

lemma tame_same: "network_ok env \<Longrightarrow> tame env = env"
  by (cases env) (auto simp: tame_def network_ok_def fun_eq_iff)

section \<open>Any peer\<close>

text \<open>The length in the header of a packet does not exceed the data that came with it. The buffer
  of the user has the size the client takes for granted.\<close>

definition any_peer :: "EFTP_IO_PRIVATE \<Rightarrow> event \<Rightarrow> bool" where
  "any_peer s e \<longleftrightarrow> enabled s e \<and> (case e of
     Rx _ _ (Some pk) \<Rightarrow> unat (NTOHS (HdrLength pk)) \<le> 8 + length (Payload pk)
   | _ \<Rightarrow> True)"

definition room :: "u8 list option \<Rightarrow> bool" where
  "room b \<longleftrightarrow> (case b of None \<Rightarrow> True | Some buf \<Rightarrow> 10485760 \<le> length buf)"

definition read_request :: "u8 list \<Rightarrow> EFI_EFTP_PACKET" where
  "read_request x = sealed (8 + length x) EFI_EFTP_OPCODE_RRQ 0 x"

lemma length_splice_at [simp]:
  "start + length d \<le> length buf \<Longrightarrow> length (splice_at buf start d) = length buf"
  by (simp add: splice_at_def)

interpretation download: rrq_client "tame env" any_peer "read_request x" sig "\<lambda>_. room" "\<lambda>_ _ _. True" "\<lambda>_. True"
  for env x sig
  by unfold_locales (auto simp: tame_ok any_peer_def room_def simp del: enabled.simps)

section \<open>A peer that sends a file\<close>

definition file_block :: "u8 list \<Rightarrow> nat \<Rightarrow> u8 list" where
  "file_block file n = take 1024 (drop ((n - 1) * 1024) file)"

definition blocks :: "u8 list \<Rightarrow> nat" where
  "blocks file = (length file + 1023) div 1024"

text \<open>A data packet carries the block of its number; the option acknowledgement that ends the
  transfer is sent when the last block has been acknowledged, whose number has 16 bits.\<close>

definition sender :: "u8 list \<Rightarrow> EFTP_IO_PRIVATE \<Rightarrow> event \<Rightarrow> bool" where
  "sender file s e \<longleftrightarrow> any_peer s e \<and> (case e of
     Rx _ _ (Some pk) \<Rightarrow>
       (OpCode pk = HTONS EFI_EFTP_OPCODE_DATA \<longrightarrow>
          (let d = file_block file (unat (NTOHS (CodeVar pk))) in d \<noteq> [] \<and>
             unat (NTOHS (HdrLength pk)) = 8 + length d \<and> take (length d) (Payload pk) = d)) \<and>
       (OpCode pk = HTONS EFI_EFTP_OPCODE_OACK \<longrightarrow>
          unat (of_nat (blocks file) :: u16) = blocks file \<and> ack_packet (of_nat (blocks file)) \<in> set (Wire s))
   | _ \<Rightarrow> True)"

text \<open>What is known of the buffer and the size after \<open>n\<close> blocks.\<close>

definition has_blocks :: "u8 list \<Rightarrow> nat \<Rightarrow> u8 list option \<Rightarrow> bool" where
  "has_blocks file n b \<longleftrightarrow> room b \<and> (case b of None \<Rightarrow> True
     | Some buf \<Rightarrow> take (min (n * 1024) (length file)) buf = take (n * 1024) file)"

definition has_size :: "u8 list \<Rightarrow> nat \<Rightarrow> u8 list option \<Rightarrow> u64 \<Rightarrow> bool" where
  "has_size file n b sz \<longleftrightarrow> b = None \<or> n = 0 \<or> sz = of_nat (min (n * 1024) (length file))"

lemma has_blocks_save:
  assumes d: "file_block file (Suc n) = d" "d \<noteq> []" and b: "has_blocks file n (Some buf)"
    and l: "n * 1024 + length d \<le> 10485760"
  shows "has_blocks file (Suc n) (Some (splice_at buf (n * 1024) d))"
    "has_size file (Suc n) (Some c) (of_nat (n * 1024 + length d))" "length d \<le> 1024"
proof -
  have n: "n * 1024 < length file" using d by (auto simp: file_block_def)
  then have ld: "length d = min 1024 (length file - n * 1024)" using d(1) by (auto simp: file_block_def)
  then have m: "min (Suc n * 1024) (length file) = n * 1024 + length d" using n by auto
  have buf: "10485760 \<le> length buf" "take (n * 1024) buf = take (n * 1024) file"
    using b n by (simp_all add: has_blocks_def room_def)
  have "take (Suc n * 1024) file = take (n * 1024) file @ d"
    using d(1) by (simp add: file_block_def take_add add.commute [of 1024])
  moreover have "take (n * 1024 + length d) (splice_at buf (n * 1024) d) = take (n * 1024) buf @ d"
    using buf(1) l by (simp add: splice_at_def)
  ultimately show "has_blocks file (Suc n) (Some (splice_at buf (n * 1024) d))"
    unfolding has_blocks_def using m buf l by (simp add: room_def)
  show "has_size file (Suc n) (Some c) (of_nat (n * 1024 + length d))" using m by (simp add: has_size_def)
  show "length d \<le> 1024" using ld by simp
qed

lemma has_blocks_le:
  assumes "has_blocks file n (Some buf)" and "k \<le> n"
  shows "take (min (k * 1024) (length file)) buf = take (k * 1024) file"
proof -
  have "take (min (k * 1024) (length file)) (take (min (n * 1024) (length file)) buf) =
      take (min (k * 1024) (length file)) (take (n * 1024) file)"
    using assms(1) by (simp add: has_blocks_def)
  moreover have "min (min (k * 1024) (length file)) (min (n * 1024) (length file)) = min (k * 1024) (length file)"
    using mult_le_mono1 [OF assms(2), of 1024] by (simp add: min_def)
  moreover have "min (min (k * 1024) (length file)) (n * 1024) = min (k * 1024) (length file)"
    using mult_le_mono1 [OF assms(2), of 1024] by (simp add: min_def)
  ultimately have "take (min (k * 1024) (length file)) buf = take (min (k * 1024) (length file)) file"
    by (simp only: take_take)
  then show ?thesis by (simp add: min_def)
qed

lemma ack_packet_of_nat:
  assumes "ack_packet (of_nat j) = ack_packet (of_nat k)" and "k < 65536"
  shows "k \<le> j"
proof -
  have "(ucast (of_nat j :: u64) :: u16) = ucast (of_nat k :: u64)"
    using arg_cong [OF assms(1), of CodeVar] by (simp add: ack_packet_def)
  then have "unat (ucast (of_nat j :: u64) :: u16) = unat (ucast (of_nat k :: u64) :: u16)" by (simp only:)
  then have "j mod 65536 = k"
    using assms(2) by (simp add: unsigned_ucast_eq take_bit_eq_mod unat_of_nat mod_mod_cancel)
  then show ?thesis by auto
qed

lemma ack_sent:
  assumes "rrq_out (read_request x) n (ack_packet (of_nat k))" and "k < 65536"
  shows "k \<le> n"
proof -
  have "OpCode (ack_packet b) \<noteq> OpCode (read_request x)"
    "OpCode (ack_packet b) \<noteq> OpCode (sealed Len EFI_EFTP_OPCODE_ERROR Code d)" for b Len Code d
    by (simp_all add: ack_packet_def read_request_def EFI_EFTP_OPCODE_ACK_def EFI_EFTP_OPCODE_RRQ_def
      EFI_EFTP_OPCODE_ERROR_def)
  then obtain j where "j \<le> n" "ack_packet (of_nat k) = ack_packet (of_nat j)"
    using assms(1) unfolding rrq_out_def by metis
  then show ?thesis using ack_packet_of_nat [of j k] assms(2) by simp
qed

interpretation file_download: rrq_client "tame env" "sender doc" "read_request x" sig "has_blocks doc"
    "has_size doc" "\<lambda>n. length doc \<le> n * 1024"
  for env doc x sig
proof (unfold_locales, goal_cases)
  case (8 s st len pk n k buf sz)
  then have d: "file_block doc (Suc n) \<noteq> []" "k = length (file_block doc (Suc n))"
    "take k (Payload pk) = file_block doc (Suc n)"
    by (auto simp: sender_def Let_def)
  then show ?case
    using has_blocks_save [OF refl d(1), of buf] 8 by simp
next
  case (9 s st len pk n)
  then have b: "unat (of_nat (blocks doc) :: u16) = blocks doc" "ack_packet (of_nat (blocks doc)) \<in> set (Wire s)"
    by (auto simp: sender_def)
  from b(1) have "blocks doc < 65536"
    using unsigned_less [of "of_nat (blocks doc) :: u16", where 'a = nat] by simp
  then have "blocks doc \<le> n" using b(2) ack_sent 9(3) by blast
  then show ?case by (simp add: blocks_def)
qed (auto simp: tame_ok sender_def any_peer_def has_blocks_def has_size_def room_def simp del: enabled.simps)

end
