(* ===== verification/Eftp_Example.thy ===== *)
theory Eftp_Example
  imports Eftp_Download
begin

text \<open>
  A download from end to end, evaluated: the file is one block of five bytes. The properties of
  sessions are applied to it.
\<close>

section \<open>Running events\<close>

primrec eftp_run :: "(EFTP_IO_PRIVATE \<Rightarrow> event \<Rightarrow> bool) \<Rightarrow> (event \<Rightarrow> EFTP_IO_PRIVATE \<Rightarrow> EFTP_IO_PRIVATE option) \<Rightarrow>
    event list \<Rightarrow> EFTP_IO_PRIVATE \<Rightarrow> EFTP_IO_PRIVATE option" where
  "eftp_run can step [] s = Some s"
| "eftp_run can step (e # es) s = (if State s \<noteq> EFTP_INIT \<and> can s e
     then do { t \<leftarrow> step e s; eftp_run can step es t } else None)"

lemma eftp_run_history: "eftp_run can step es s = Some t \<Longrightarrow> history can step r ds s \<Longrightarrow> history can step r (ds @ es) t"
proof (induction es arbitrary: s ds)
  case (Cons e es)
  then obtain u where u: "State s \<noteq> EFTP_INIT" "can s e" "step e s = Some u" "eftp_run can step es u = Some t"
    by (auto simp: bind_eq_Some_conv split: if_splits)
  from Cons(1) [OF u(4) history_event [OF Cons(3) u(1,2,3)]] show ?case by simp
qed simp

section \<open>The example\<close>

definition ex_env :: eftp_env where
  "ex_env = \<lparr>AllocPool = \<lambda>_. True, AllocAddress = \<lambda>_. True, Garbage = \<lambda>_ _. 0,
     CreateEvent = \<lambda>_. EFI_SUCCESS, Transmit = \<lambda>_ _. EFI_SUCCESS, Receive = \<lambda>_. EFI_SUCCESS,
     MnpConfigure = \<lambda>_. EFI_SUCCESS, CheckPacket = None, TimeoutCallback = None, PacketNeeded = None\<rparr>"

definition ex_pool :: EFTP_POOL where
  "ex_pool = \<lparr>Bufs = \<lambda>_. None, FreeSmall = [], FreeLarge = [], mEftpPacketBufferSize = 0,
     mEftpPacketAllocateNum = 0, mEftpPacketBufferUse = 0, NewBuf = 0, Calls = 0\<rparr>"

definition ex_token :: "u8 list \<Rightarrow> EFI_EFTP_TOKEN" where
  "ex_token buf = \<lparr>TokenStatus = EFI_NOT_READY, TokenEvent = True, OverrideData = None,
     Filename = Some [102, 0], ModeStr = None, OptionCount = 0, OptionList = None,
     BufferSize = 10485760, Buffer = Some buf\<rparr>"

definition ex_config :: EFI_EFTP_CONFIG_DATA where
  "ex_config = \<lparr>DstMac = [], SrcMac = [], TryCount = 2, TimeoutValue = 1\<rparr>"

definition ex_idle :: EFTP_IO_PRIVATE where
  "ex_idle = \<lparr>Token = ex_token [], ConfigData = ex_config, Configured = True, UserEvtFired = False,
     SynFinished = False, MaxNRetry = 0, Opt = EftpInitOption, State = EFTP_INIT, Result = EFI_SUCCESS,
     RxEvent = False, NRetry = 0, Request = None, LastCtrl = None, NextBlkNo = 0, Eof = False,
     LastBlkNo = 0, NPendingPacket = 0, PendingPacketList = [], TimeoutEvent = None, Timeout = 0,
     RrqState = None, WrqState = None, RcvdPkts = 0, DroppedPkts = 0, Timeouts = 0, Pkts = ex_pool,
     InFlight = [], Receiving = False, Wire = [], Signals = 0, Recycled = 0\<rparr>"

definition ex_file :: "u8 list" where "ex_file = [104, 101, 108, 108, 111]"

lemma length_ex_file: "length ex_file = 5"
  by (simp add: ex_file_def)

definition ex_data :: EFI_EFTP_PACKET where
  "ex_data = \<lparr>HdrLength = NTOHS 13, CheckSum = 0, OpCode = NTOHS EFI_EFTP_OPCODE_DATA, CodeVar = NTOHS 1,
     Payload = ex_file\<rparr>"

definition ex_oack :: EFI_EFTP_PACKET where
  "ex_oack = \<lparr>HdrLength = NTOHS 8, CheckSum = 0, OpCode = NTOHS EFI_EFTP_OPCODE_OACK, CodeVar = 0, Payload = []\<rparr>"

definition ex_events :: "event list" where
  "ex_events = [Tx 0, Rx EFI_SUCCESS 13 (Some ex_data), Tx 1, Rx EFI_SUCCESS 8 (Some ex_oack), Timer, Timer]"

definition ex_run :: "(EFTP_IO_PRIVATE \<Rightarrow> event \<Rightarrow> bool) \<Rightarrow> event list \<Rightarrow> u8 list \<Rightarrow> EFTP_IO_PRIVATE option" where
  "ex_run can es buf = do {
     (st, s) \<leftarrow> EftpReadFile ex_env EftpInitOption (Some (ex_token buf)) ex_idle;
     if State s \<noteq> EFTP_INIT then eftp_run can (rrq_step ex_env) es s else None }"

text \<open>The buffer of the user, and its first bytes.\<close>

definition ex_buffer :: "u8 list" where
  "ex_buffer = 0 # 0 # 0 # 0 # 0 # replicate 10485755 0"

lemma room_ex_buffer: "room (Buffer (ex_token ex_buffer))"
  by (simp add: room_def ex_token_def ex_buffer_def)

lemma idle_ex: "idle ex_idle"
  by (simp add: idle_def ex_idle_def ex_pool_def held_def counted_def)

lemma network_ok_ex: "network_ok ex_env"
  by (simp add: network_ok_def ex_env_def)

lemma text_ex: "token_text (ex_token b) = Some [102, 0, 111, 99, 116, 101, 116, 0]"
  by code_simp

text \<open>The whole download; and a timeout behind the request.\<close>

lemma ex_run_symbolic: "case ex_run (sender ex_file) ex_events (a # b # c # d # e # rest) of
    None \<Rightarrow> False
  | Some t \<Rightarrow> State t = EFTP_INIT \<and> \<not> EFI_ERROR (TokenStatus (Token t)) \<and>
      \<not> Option.is_none (Buffer (Token t)) \<and> ack_packet 1 \<in> set (Wire t)"
  by code_simp

lemma ex_run_timer: "case ex_run any_peer [Tx 0, Timer] (a # b # c # d # e # rest) of
    None \<Rightarrow> False
  | Some t \<Rightarrow> State t = EFTP_RRQ_SENT \<and> any_peer t Timer"
  by code_simp

lemma ex_download:
  obtains t buf where "ex_run (sender ex_file) ex_events ex_buffer = Some t" "State t = EFTP_INIT"
    "\<not> EFI_ERROR (TokenStatus (Token t))" "Buffer (Token t) = Some buf" "ack_packet (of_nat 1) \<in> set (Wire t)"
  using ex_run_symbolic [of 0 0 0 0 0 "replicate 10485755 0"]
  by (auto simp: Option.is_none_def simp flip: ex_buffer_def split: option.splits)

lemma ex_timer:
  obtains t where "ex_run any_peer [Tx 0, Timer] ex_buffer = Some t" "State t \<noteq> EFTP_INIT" "any_peer t Timer"
  using ex_run_timer [of 0 0 0 0 0 "replicate 10485755 0"]
  by (auto simp flip: ex_buffer_def split: option.splits)

lemma ex_runE:
  assumes "ex_run can es buf = Some t"
  obtains st s where "EftpReadFile ex_env EftpInitOption (Some (ex_token buf)) ex_idle = Some (st, s)"
    "State s \<noteq> EFTP_INIT" "history can (rrq_step ex_env) s es t"
  using assms eftp_run_history [of can "rrq_step ex_env" es _ t _ "[]", OF _ history_start]
  by (auto simp: ex_run_def bind_eq_Some_conv split: if_splits)

lemma sender_any: "sender doc s e \<Longrightarrow> any_peer s e"
  by (simp add: sender_def)

lemma history_weaken: "history can step s es t \<Longrightarrow> (\<And>s e. can s e \<Longrightarrow> can' s e) \<Longrightarrow> history can' step s es t"
  by (induction rule: history.induct) (auto intro: history.intros)

end
