(* ===== verification/Eftp_Round.thy ===== *)
theory Eftp_Round
  imports Eftp_Send Eftp_Option
begin

text \<open>
  Requests read back: the pairs \<open>EftpParseOptions\<close> finds in a request are the options it was built
  from.
\<close>

section \<open>Skipping a string\<close>

lemma skip_str_text:
  assumes "0 \<notin> set t" and "length p + length t < Last"
  shows "skip_str (p @ t @ 0 # r) (length p) Last = Some (length p + length t)"
  using assms
proof (induction t arbitrary: p)
  case Nil
  then show ?case by (subst skip_str.simps) (simp add: rd_def nth_append)
next
  case (Cons c t)
  then have "skip_str ((p @ [c]) @ t @ 0 # r) (length (p @ [c])) Last = Some (length (p @ [c]) + length t)"
    by (intro Cons(1)) auto
  then show ?case using Cons(2,3) by (subst skip_str.simps) (auto simp: rd_def nth_append)
qed

lemma skip_str_at:
  "d = p @ t @ 0 # r \<Longrightarrow> 0 \<notin> set t \<Longrightarrow> n = length p \<Longrightarrow> n + length t < Last \<Longrightarrow>
     skip_str d n Last = Some (n + length t)"
  using skip_str_text [of t p Last r] by simp

section \<open>The pairs of a text\<close>

text \<open>The strings at the positions of the pairs.\<close>

definition pair_strings :: "u8 list \<Rightarrow> (nat \<times> nat) list \<Rightarrow> (u8 list \<times> u8 list) option list" where
  "pair_strings d ps = map (\<lambda>(n, v). do { a \<leftarrow> cstr (drop n d); b \<leftarrow> cstr (drop v d); Some (a, b) }) ps"

definition clean_texts :: "(u8 list \<times> u8 list) list \<Rightarrow> bool" where
  "clean_texts ts \<longleftrightarrow> (\<forall>(n, v) \<in> set ts. 0 \<notin> set n \<and> 0 \<notin> set v)"

lemma cstr_text: "0 \<notin> set t \<Longrightarrow> cstr (t @ 0 # r) = Some t"
  by (induction t) (auto simp: cstr_Cons)

lemma option_pairs_text:
  assumes "clean_texts ts" and "d = p @ options_text ts"
  shows "\<exists>ps. option_pairs d (length p) (length d) = Some (EFI_SUCCESS, ps) \<and>
    pair_strings d ps = map Some ts"
  using assms
proof (induction ts arbitrary: p)
  case Nil
  then show ?case by (subst option_pairs.simps) (simp add: pair_strings_def)
next
  case (Cons nv ts)
  obtain n v where nv: "nv = (n, v)" by (cases nv)
  have z: "0 \<notin> set n" "0 \<notin> set v" "clean_texts ts" using Cons(2) nv by (auto simp: clean_texts_def)
  have d: "d = p @ n @ 0 # v @ 0 # options_text ts" "d = (p @ n @ [0]) @ v @ 0 # options_text ts"
    "d = (p @ n @ 0 # v @ [0]) @ options_text ts"
    using Cons(3) nv by simp_all
  have Q: "skip_str d (length p) (length d) = Some (length p + length n)"
    using z(1) d(1) by (intro skip_str_at [of d p n "v @ 0 # options_text ts"]) simp_all
  have R: "skip_str d (length p + length n + 1) (length d) = Some (length p + length n + 1 + length v)"
    by (rule skip_str_at [OF d(2) z(2)]) (simp_all add: d(1))
  obtain ps where ps: "option_pairs d (length (p @ n @ 0 # v @ [0])) (length d) = Some (EFI_SUCCESS, ps)"
    "pair_strings d ps = map Some ts"
    using Cons(1) [OF z(3) d(3)] by blast
  have s: "cstr (drop (length p) d) = Some n" "cstr (drop (length p + length n + 1) d) = Some v"
    using cstr_text z(1,2) by (simp_all add: d(1))
  have "option_pairs d (length p) (length d) = Some (EFI_SUCCESS, (length p, length p + length n + 1) # ps)"
    using ps(1) Q R by (subst option_pairs.simps) (auto simp: d(1) add.assoc)
  moreover have "pair_strings d ((length p, length p + length n + 1) # ps) = map Some (nv # ts)"
    using ps(2) s nv by (simp add: pair_strings_def)
  ultimately show ?case by blast
qed

section \<open>Requests\<close>

lemma parse_request:
  assumes c: "0 \<notin> set n" "0 \<notin> set m" "clean_texts ts" and l: "ts \<noteq> []" "length ts < 256"
    and pk: "Payload pk = request_text n m ts" "OpCode pk = HTONS Code" "Code = EFI_EFTP_OPCODE_RRQ \<or> Code = EFI_EFTP_OPCODE_WRQ"
    and len: "unat L = 8 + length (request_text n m ts)"
  shows "\<exists>ps. EftpParseOptions True L (Some pk) True True = Some (EFI_SUCCESS, Some (of_nat (length ts)), Some ps) \<and>
    pair_strings (Payload pk) ps = map Some ts"
proof -
  let ?d = "request_text n m ts"
  have d: "?d = [] @ n @ 0 # m @ 0 # options_text ts" "?d = (n @ [0]) @ m @ 0 # options_text ts"
    "?d = (n @ 0 # m @ [0]) @ options_text ts" by (simp_all add: request_text_def)
  have P: "skip_str ?d 0 (length ?d) = Some (length n)" "length n \<noteq> length ?d"
    using skip_str_at [OF d(1) c(1), of 0 "length ?d"] by (simp_all add: request_text_def)
  have Q: "skip_str ?d (length n + 1) (length ?d) = Some (length n + 1 + length m)" "length n + 1 + length m \<noteq> length ?d"
    using skip_str_at [OF d(2) c(2), of "length n + 1" "length ?d"] by (simp_all add: request_text_def)
  obtain ps where ps: "option_pairs ?d (length (n @ 0 # m @ [0])) (length ?d) = Some (EFI_SUCCESS, ps)"
    "pair_strings ?d ps = map Some ts"
    using option_pairs_text [OF c(3) d(3)] by blast
  have "length ps = length ts" using arg_cong [OF ps(2), of length] by (simp add: pair_strings_def)
  moreover have u: "unat (of_nat (length ts) :: u8) = length ts" using l(2) by (simp add: unat_of_nat)
  moreover have "(of_nat (length ts) :: u8) \<noteq> 0" using u l(1) by (metis length_0_conv unsigned_0)
  ultimately have "EftpParseOptions True L (Some pk) True True = Some (EFI_SUCCESS, Some (of_nat (length ts)), Some ps)"
    using P Q ps(1) pk len
    by (auto simp: EftpParseOptions_def EftpGetOptions_def options_start_def EFTP_HEADER_LEN_def Let_def request_text_def)
  then show ?thesis using ps(2) pk(1) by auto
qed

lemma cstr_clean: "cstr b = Some t \<Longrightarrow> 0 \<notin> set t"
  by (auto simp: cstr_def dest: set_takeWhileD split: if_splits)

lemma option_texts_clean: "option_texts os = Some ts \<Longrightarrow> clean_texts ts"
proof (induction os arbitrary: ts rule: option_texts.induct)
  case (2 n v os)
  then obtain a b r where t: "cstr n = Some a" "cstr v = Some b" "option_texts os = Some r" "ts = (a, b) # r"
    by (auto simp: bind_eq_Some_conv)
  then have "clean_texts r" using 2(1) by blast
  then show ?case using t cstr_clean by (auto simp: clean_texts_def)
qed (auto simp: clean_texts_def)

end
