(* ===== verification/Eftp_Props.thy ===== *)
theory Eftp_Props
  imports Eftp_Example Eftp_Round
begin

text \<open>
  The properties of downloads, from the call of \<open>EftpReadFile\<close> to the end of the session.
\<close>

section \<open>Sessions\<close>

text \<open>A call of \<open>EftpReadFile\<close> on an idle session that starts a download, and the events that follow.\<close>

definition rrq_session :: "eftp_env \<Rightarrow> (EFTP_IO_PRIVATE \<Rightarrow> event \<Rightarrow> bool) \<Rightarrow> EFTP_OPTION \<Rightarrow> EFI_EFTP_TOKEN \<Rightarrow>
    EFTP_IO_PRIVATE \<Rightarrow> event list \<Rightarrow> EFTP_IO_PRIVATE \<Rightarrow> bool" where
  "rrq_session env can Stk tok s es t \<longleftrightarrow> idle s \<and> network_ok env \<and> room (Buffer tok) \<and>
     (case token_text tok of None \<Rightarrow> False | Some x \<Rightarrow> length x < 60000) \<and>
     (\<exists>st s1. EftpReadFile env Stk (Some tok) s = Some (st, s1) \<and> State s1 \<noteq> EFTP_INIT \<and>
        history can (rrq_step env) s1 es t)"

lemma EftpReadFile_bad:
  assumes "EftpReadFile env Stk (Some tok) s = Some (st, t)" and "State t \<noteq> State s"
  shows "bad_token env EFI_EFTP_OPCODE_RRQ Stk (Some tok) s = Some None"
  using assms by (cases "bad_token env EFI_EFTP_OPCODE_RRQ Stk (Some tok) s")
    (auto simp: EftpReadFile_def EftpInitPrivate_def split: option.splits)

lemma rrq_session_parts:
  assumes "rrq_session env can Stk tok s es t"
  obtains st s1 x where "tame env = env" "idle s" "room (Buffer tok)" "token_text tok = Some x"
    "length x < 60000" "EftpReadFile env Stk (Some tok) s = Some (st, s1)" "State s1 \<noteq> EFTP_INIT"
    "bad_token env EFI_EFTP_OPCODE_RRQ Stk (Some tok) s = Some None" "history can (rrq_step env) s1 es t"
proof -
  obtain st s1 x where a: "idle s" "network_ok env" "room (Buffer tok)" "token_text tok = Some x"
    "length x < 60000" "EftpReadFile env Stk (Some tok) s = Some (st, s1)" "State s1 \<noteq> EFTP_INIT"
    "history can (rrq_step env) s1 es t"
    using assms by (auto simp: rrq_session_def split: option.splits)
  show ?thesis
  proof (rule that)
    show "tame env = env" by (rule tame_same [OF a(2)])
    show "bad_token env EFI_EFTP_OPCODE_RRQ Stk (Some tok) s = Some None"
      using EftpReadFile_bad [OF a(6)] a(1,7) by (simp add: idle_def)
  qed (rule a)+
qed

lemma rrq_session_start:
  assumes "rrq_session env can Stk tok s es t"
  obtains x s1 where "tame env = env" "download.live x (Signals s) s1" "history can (rrq_step env) s1 es t"
    "rrq_left s1 = 3 + unat (MaxNRetry (reset_session tok s))"
  using assms
proof (rule rrq_session_parts)
  fix st s1 x assume a: "tame env = env" "idle s" "room (Buffer tok)" "token_text tok = Some x"
    "length x < 60000" "EftpReadFile env Stk (Some tok) s = Some (st, s1)" "State s1 \<noteq> EFTP_INIT"
    "bad_token env EFI_EFTP_OPCODE_RRQ Stk (Some tok) s = Some None" "history can (rrq_step env) s1 es t"
  from download.start_ok [of s env, unfolded a(1), OF a(2,8,4,5) read_request_def a(3) TrueI refl] a(6,7)
  have r: "download.running x (Signals s) 0 s1 \<and> armed s1 \<and> State s1 = EFTP_RRQ_SENT \<and>
    MaxNRetry s1 = MaxNRetry (reset_session tok s) \<and> NRetry s1 = 0" by simp
  show ?thesis
  proof (rule that)
    show "download.live x (Signals s) s1" using r by (auto simp: download.live_def)
  qed (use a r in \<open>simp_all add: rrq_left_def\<close>)
qed

lemma rrq_session_file:
  assumes "rrq_session env (sender doc) Stk tok s es t"
  obtains x n where "\<forall>pk\<in>set (Wire t). rrq_out (read_request x) n pk" "has_blocks doc n (Buffer (Token t))"
    "State t = EFTP_INIT \<Longrightarrow> \<not> EFI_ERROR (TokenStatus (Token t)) \<Longrightarrow>
      length doc \<le> n * 1024 \<and> has_size doc n (Buffer (Token t)) (BufferSize (Token t))"
  using assms
proof (rule rrq_session_parts)
  fix st s1 x assume a: "tame env = env" "idle s" "room (Buffer tok)" "token_text tok = Some x"
    "length x < 60000" "EftpReadFile env Stk (Some tok) s = Some (st, s1)" "State s1 \<noteq> EFTP_INIT"
    "bad_token env EFI_EFTP_OPCODE_RRQ Stk (Some tok) s = Some None"
    "history (sender doc) (rrq_step env) s1 es t"
  have d: "has_blocks doc 0 (Buffer tok)" "has_size doc 0 (Buffer tok) (BufferSize tok)"
    using a(3) by (simp_all add: has_blocks_def has_size_def split: option.split)
  from file_download.start_ok [of s env, unfolded a(1), OF a(2,8,4,5) read_request_def d refl] a(6,7)
  have "file_download.live x (Signals s) doc s1" by (auto simp: file_download.live_def)
  from file_download.session_facts [where env = env, unfolded a(1), OF a(9) this] that [of x] show ?thesis
    by auto
qed

lemma rrq_session_any:
  assumes "rrq_session env (sender doc) Stk tok s es t"
  shows "rrq_session env any_peer Stk tok s es t"
proof -
  have "history any_peer step a es b" if "history (sender doc) step a es b" for step a es b
    using that sender_any by (rule history_weaken)
  then show ?thesis using assms unfolding rrq_session_def by blast
qed

lemma ex_session:
  "ex_run can es ex_buffer = Some t \<Longrightarrow> rrq_session ex_env can EftpInitOption (ex_token ex_buffer) ex_idle es t"
  using idle_ex network_ok_ex room_ex_buffer text_ex [of ex_buffer]
  by (auto simp: rrq_session_def elim!: ex_runE)

section \<open>Properties\<close>

text \<open>C2: While a download runs, no assertion of its client fails and no memory is touched that is not the
  program's, in whatever order packets, completions and the timer come, and whatever the packets hold.
  Assumed are: a request below 60000 bytes, a length in the header of a packet that is covered by the data received (the client does not
  compare them), a user's buffer of at least the 10485760 bytes the client takes for granted, a network
  that does not refuse a transmission with \<open>EFI_ACCESS_DENIED\<close>, and memory for the addresses of
  packets. Events after the end of the session are not covered: a late completion then fails an assertion.\<close>

theorem rrq_never_stuck:
  assumes "rrq_session env any_peer Stk tok s es t" and "State t \<noteq> EFTP_INIT" and "any_peer t e"
  shows "\<exists>u. rrq_step env e t = Some u"
  using assms(1)
proof (rule rrq_session_start)
  fix x s1 assume a: "tame env = env" "download.live x (Signals s) s1" "history any_peer (rrq_step env) s1 es t"
  from download.session.never_stuck [of env, unfolded a(1), OF a(3,2) assms(2,3)] show ?thesis .
qed

theorem rrq_never_stuck_witness:
  "\<exists>t u. ex_run any_peer [Tx 0, Timer] ex_buffer = Some t \<and> rrq_step ex_env Timer t = Some u"
proof (rule ex_timer)
  fix t assume t: "ex_run any_peer [Tx 0, Timer] ex_buffer = Some t" "State t \<noteq> EFTP_INIT" "any_peer t Timer"
  from rrq_never_stuck [OF ex_session [OF t(1)] t(2,3)] t(1) show ?thesis by blast
qed

text \<open>C10: A block that has been acknowledged on the wire is in the buffer of the user.\<close>

theorem rrq_acknowledged_blocks:
  assumes "rrq_session env (sender doc) Stk tok s es t" and "ack_packet (of_nat k) \<in> set (Wire t)"
    and "k < 65536" and "Buffer (Token t) = Some buf"
  shows "take (min (k * 1024) (length doc)) buf = take (k * 1024) doc"
  using assms(1)
proof (rule rrq_session_file)
  fix x n assume a: "\<forall>pk\<in>set (Wire t). rrq_out (read_request x) n pk" "has_blocks doc n (Buffer (Token t))"
  then have "k \<le> n" using assms(2,3) ack_sent by blast
  then show ?thesis using has_blocks_le a(2) assms(4) by simp
qed

theorem rrq_acknowledged_blocks_witness:
  "\<exists>t buf. ex_run (sender ex_file) ex_events ex_buffer = Some t \<and> ack_packet (of_nat 1) \<in> set (Wire t) \<and>
    Buffer (Token t) = Some buf \<and> take 5 buf = ex_file"
proof (rule ex_download)
  fix t buf assume t: "ex_run (sender ex_file) ex_events ex_buffer = Some t" "Buffer (Token t) = Some buf"
    "ack_packet (of_nat 1) \<in> set (Wire t)"
  have "take (min (1 * 1024) (length ex_file)) buf = take (1 * 1024) ex_file"
    by (rule rrq_acknowledged_blocks [OF ex_session [OF t(1)] t(3) _ t(2)]) simp
  then have "take 5 buf = ex_file" by (simp add: length_ex_file)
  then show ?thesis using t by blast
qed

text \<open>C1: A download that ends without an error has the whole file in the buffer of the user, and
  its size in the token.\<close>

theorem rrq_whole_file:
  assumes "rrq_session env (sender doc) Stk tok s es t" and "State t = EFTP_INIT"
    and "\<not> EFI_ERROR (TokenStatus (Token t))" and "Buffer (Token t) = Some buf" and "doc \<noteq> []"
  shows "take (length doc) buf = doc \<and> BufferSize (Token t) = of_nat (length doc)"
  using assms(1)
proof (rule rrq_session_file)
  fix x n assume "has_blocks doc n (Buffer (Token t))"
    "State t = EFTP_INIT \<Longrightarrow> \<not> EFI_ERROR (TokenStatus (Token t)) \<Longrightarrow>
      length doc \<le> n * 1024 \<and> has_size doc n (Buffer (Token t)) (BufferSize (Token t))"
  then show ?thesis using assms(2-5) by (auto simp: has_blocks_def has_size_def)
qed

theorem rrq_whole_file_witness:
  "\<exists>t buf. ex_run (sender ex_file) ex_events ex_buffer = Some t \<and> Buffer (Token t) = Some buf \<and>
    take 5 buf = ex_file \<and> BufferSize (Token t) = 5"
proof (rule ex_download)
  fix t buf assume t: "ex_run (sender ex_file) ex_events ex_buffer = Some t" "State t = EFTP_INIT"
    "\<not> EFI_ERROR (TokenStatus (Token t))" "Buffer (Token t) = Some buf"
  have "take (length ex_file) buf = ex_file \<and> BufferSize (Token t) = of_nat (length ex_file)"
    by (rule rrq_whole_file [OF ex_session [OF t(1)] t(2-4)]) (simp add: ex_file_def)
  then have "take 5 buf = ex_file \<and> BufferSize (Token t) = 5" by (simp add: length_ex_file)
  then show ?thesis using t by blast
qed

text \<open>C11: A download ends: \<open>MaxNRetry + 3\<close> expirations of the timer without a packet from the peer
  are enough, whatever has happened before. The event of the user is then signalled, once, and the
  token has the result of the session.\<close>

theorem rrq_ends:
  assumes "rrq_session env any_peer Stk tok s es t"
  shows "ok (expire (rrq_step env) (3 + unat (MaxNRetry t)) t) (\<lambda>u. State u = EFTP_INIT \<and>
    TokenStatus (Token u) = Result u \<and> TimeoutEvent u = None \<and>
    Signals u = Signals s + (if TokenEvent (Token u) then 1 else 0))"
  using assms
proof (rule rrq_session_start)
  fix x s1 assume a: "tame env = env" "download.live x (Signals s) s1" "history any_peer (rrq_step env) s1 es t"
  have h: "download.live x (Signals s) t \<or> download.over x (Signals s) t"
    by (rule download.session.history_invariant [of env, unfolded a(1), OF a(3,2)])
  have "rrq_left t \<le> 3 + unat (MaxNRetry t)" using download.live_facts [OF h] by blast
  from download.session.timer_ends [where env = env, unfolded a(1), OF h this] show ?thesis
    by (rule ok_mono) (auto simp: download.over_def download.finished_def)
qed

theorem rrq_ends_witness:
  "\<exists>t u. ex_run any_peer [Tx 0, Timer] ex_buffer = Some t \<and>
    expire (rrq_step ex_env) (3 + unat (MaxNRetry t)) t = Some u \<and> State u = EFTP_INIT"
proof (rule ex_timer)
  fix t assume t: "ex_run any_peer [Tx 0, Timer] ex_buffer = Some t"
  from rrq_ends [OF ex_session [OF t]] t show ?thesis by (auto elim!: okE)
qed

text \<open>C21: Without a packet from the peer the timer expires at most \<open>MaxNRetry + 3\<close> times in a
  session.\<close>

theorem rrq_silence:
  assumes "rrq_session env any_peer Stk tok s es t" and "list_all quiet_event es"
  shows "count_list es Timer \<le> 3 + unat (MaxNRetry (reset_session tok s))"
  using assms(1)
proof (rule rrq_session_start)
  fix x s1 assume a: "tame env = env" "download.live x (Signals s) s1" "history any_peer (rrq_step env) s1 es t"
    "rrq_left s1 = 3 + unat (MaxNRetry (reset_session tok s))"
  from download.session.silence [of env, unfolded a(1), OF a(3,2) assms(2)] a(4) show ?thesis by simp
qed

theorem rrq_silence_witness:
  "\<exists>t. ex_run any_peer [Tx 0, Timer] ex_buffer = Some t \<and>
    count_list [Tx 0, Timer] Timer \<le> 3 + unat (MaxNRetry (reset_session (ex_token ex_buffer) ex_idle))"
proof (rule ex_timer)
  fix t assume t: "ex_run any_peer [Tx 0, Timer] ex_buffer = Some t"
  have "list_all quiet_event [Tx 0, Timer]" by (simp add: quiet_event_def)
  from rrq_silence [OF ex_session [OF t] this] t show ?thesis by blast
qed

text \<open>C12: When a download has ended, every packet buffer of the pool is free or still with the
  network: none is leaked.\<close>

theorem rrq_no_leak:
  assumes "rrq_session env any_peer Stk tok s es t" and "State t = EFTP_INIT"
  shows "held (Pkts t) (mset (InFlight t)) \<and> Request t = None \<and> LastCtrl t = None"
  using assms(1)
proof (rule rrq_session_start)
  fix x s1 assume a: "tame env = env" "download.live x (Signals s) s1" "history any_peer (rrq_step env) s1 es t"
  from download.session_facts [of env, unfolded a(1), OF a(3,2)] assms(2)
  have "held (Pkts t) (refs t)" "InFlight t = PendingPacketList t" "refs t = mset (InFlight t)"
    by auto
  then show ?thesis by (auto simp: refs_def opt_ref_def split: option.splits)
qed

theorem rrq_no_leak_witness:
  "\<exists>t. ex_run (sender ex_file) ex_events ex_buffer = Some t \<and> held (Pkts t) (mset (InFlight t)) \<and> Request t = None"
proof (rule ex_download)
  fix t assume t: "ex_run (sender ex_file) ex_events ex_buffer = Some t" "State t = EFTP_INIT"
  from rrq_no_leak [OF rrq_session_any [OF ex_session [OF t(1)]] t(2)] t(1) show ?thesis by blast
qed

text \<open>C22: For a token without options, or with options that \<open>EftpCheckOption\<close> refuses, the call of
  \<open>EftpReadFile\<close> on an idle session returns. Either it returns an error, the session is idle and
  every packet buffer is free or with the network; or the request of the token, and nothing else, is
  on the wire and the timer is armed. The request is below 60000 bytes, the buffer of the user has
  10485760 bytes and the network is as for the other properties. With any other options the check
  reads behind its table of options, so nothing is claimed.\<close>

theorem rrq_start:
  assumes "idle s" and "network_ok env" and "room (Buffer tok)" and "token_text tok = Some x"
    and "length x < 60000"
    and "OptionCount tok = 0 \<or> (\<exists>c. EftpCheckOption (OptionList tok) (OptionCount tok) Stk = Some c \<and> EFI_ERROR c)"
  shows "ok (EftpReadFile env Stk (Some tok) s) (\<lambda>(st, t).
    if State t = EFTP_INIT then (\<exists>e. st = Some e \<and> EFI_ERROR e) \<and> held (Pkts t) (mset (InFlight t))
    else State t = EFTP_RRQ_SENT \<and> Wire t = [read_request x] \<and> armed t)"
proof -
  have e: "tame env = env" by (rule tame_same [OF assms(2)])
  obtain c where c: "EftpCheckOption (OptionList tok) (OptionCount tok) Stk = Some c"
    using assms(6) by (auto simp: EftpCheckOption_def)
  have "OptionCount tok = 0 \<or> OptionList tok \<noteq> None" using c by (auto simp: EftpCheckOption_def bind_eq_Some_conv split: if_splits)
  then obtain b where b: "bad_token env EFI_EFTP_OPCODE_RRQ Stk (Some tok) s = Some b"
    using c by (cases "Filename tok") (auto simp: bad_token_def)
  show ?thesis
  proof (cases b)
    case None
    from download.start_ok [of s env, unfolded e, OF assms(1) b [unfolded None] assms(4,5) read_request_def
      assms(3) TrueI refl] show ?thesis by (rule ok_mono) (auto simp: not_started_def)
  next
    case (Some st)
    then have "EFI_ERROR st"
      using b c by (auto simp: bad_token_def split: if_splits)
    then show ?thesis
      using b Some assms(1) by (simp add: EftpReadFile_def EftpInitPrivate_def idle_def)
  qed
qed

theorem rrq_start_witness:
  "\<exists>st t. EftpReadFile ex_env EftpInitOption (Some (ex_token ex_buffer)) ex_idle = Some (st, t) \<and>
    (State t = EFTP_INIT \<or> Wire t = [read_request [102, 0, 111, 99, 116, 101, 116, 0]])"
proof -
  have "OptionCount (ex_token ex_buffer) = 0" by (simp add: ex_token_def)
  from rrq_start [OF idle_ex network_ok_ex room_ex_buffer text_ex _ disjI1 [OF this], of EftpInitOption] show ?thesis
    by (auto elim!: okE split: if_splits)
qed

text \<open>C23: A receiver verifies the checksum of everything a download sends, except acknowledgements:
  of those only the ones whose block number is 0 or 0xffff, as the block number is stored after the
  checksum has been computed.\<close>

theorem rrq_checksums:
  assumes "rrq_session env any_peer Stk tok s es t" and "pk \<in> set (Wire t)"
  shows "checks pk \<longleftrightarrow> OpCode pk \<noteq> HTONS EFI_EFTP_OPCODE_ACK \<or> CodeVar pk = 0 \<or> CodeVar pk = 0xffff"
  using assms(1)
proof (rule rrq_session_start)
  fix x s1 assume a: "tame env = env" "download.live x (Signals s) s1" "history any_peer (rrq_step env) s1 es t"
  from download.session_facts [of env, unfolded a(1), OF a(3,2)] assms(2)
  obtain n where "rrq_out (read_request x) n pk" by auto
  then consider "pk = read_request x" | k where "pk = ack_packet (of_nat k)"
    | Code d where "pk = sealed (9 + length d) EFI_EFTP_OPCODE_ERROR Code (d @ [0])"
    by (auto simp: rrq_out_def)
  then show ?thesis
  proof cases
    case 1
    then show ?thesis
      by (simp add: read_request_def sealed_checks EFI_EFTP_OPCODE_RRQ_def EFI_EFTP_OPCODE_ACK_def)
  next
    case (2 k)
    then show ?thesis
      using late_word_checks [of EFI_EFTP_OPCODE_ACK 8 "[]"] by (simp add: ack_packet_def EFI_EFTP_OPCODE_ACK_def)
  next
    case (3 Code d)
    then show ?thesis
      by (simp add: sealed_checks EFI_EFTP_OPCODE_ERROR_def EFI_EFTP_OPCODE_ACK_def)
  qed
qed

theorem rrq_checksums_witness:
  "\<exists>t. ex_run (sender ex_file) ex_events ex_buffer = Some t \<and> ack_packet (of_nat 1) \<in> set (Wire t) \<and>
    \<not> checks (ack_packet (of_nat 1))"
proof (rule ex_download)
  fix t assume t: "ex_run (sender ex_file) ex_events ex_buffer = Some t" "ack_packet (of_nat 1) \<in> set (Wire t)"
  have "CodeVar (ack_packet 1) = 0x100" "OpCode (ack_packet 1) = HTONS EFI_EFTP_OPCODE_ACK"
    by code_simp+
  then have "\<not> checks (ack_packet (of_nat 1))"
    using rrq_checksums [OF rrq_session_any [OF ex_session [OF t(1)]] t(2)] by simp
  then show ?thesis using t by blast
qed

text \<open>C24: The options a request is built from are the options \<open>EftpParseOptions\<close> reads from it, and
  the receiver verifies its checksum.\<close>

theorem eftp_options_roundtrip:
  assumes "mem (\<lambda>_. True) s {#}" and "network_ok env" and "Code = EFI_EFTP_OPCODE_RRQ \<or> Code = EFI_EFTP_OPCODE_WRQ"
    and "cstr Name = Some n" and "cstr (mode_block Mode) = Some m" and "given_options NOption List = Some os"
    and "option_texts os = Some ts" and "ts \<noteq> []" and "length ts < 256"
    and "length (request_text n m ts) < 60000"
  shows "ok (EftpBuildRequest env Code Name Mode NOption List s) (\<lambda>(b, t).
    case b of None \<Rightarrow> Result t = EFI_OUT_OF_RESOURCES
    | Some b \<Rightarrow> (\<exists>pk ps. wire_of (Pkts t) b = Some pk \<and> checks pk \<and>
        EftpParseOptions True (of_nat (8 + length (request_text n m ts))) (Some pk) True True =
          Some (EFI_SUCCESS, Some (of_nat (length ts)), Some ps) \<and>
        pair_strings (Payload pk) ps = map Some ts))"
proof -
  let ?d = "request_text n m ts" and ?L = "of_nat (8 + length (request_text n m ts)) :: u32"
  let ?pk = "sealed (8 + length ?d) Code 0 ?d"
  have L: "unat ?L = 8 + length ?d" by (rule unat_of_nat_u32) (use assms(10) in simp)
  have "Code \<noteq> 0" using assms(3) by (auto simp: EFI_EFTP_OPCODE_RRQ_def EFI_EFTP_OPCODE_WRQ_def)
  then have "checks ?pk" by (simp add: sealed_checks)
  moreover have "\<exists>ps. EftpParseOptions True ?L (Some ?pk) True True = Some (EFI_SUCCESS, Some (of_nat (length ts)), Some ps) \<and>
    pair_strings (Payload ?pk) ps = map Some ts"
    using cstr_clean [OF assms(4)] cstr_clean [OF assms(5)] option_texts_clean [OF assms(7)] assms(3,8,9) L
    by (intro parse_request) simp_all
  ultimately show ?thesis
    by (intro ok_mono [OF EftpBuildRequest_ok [OF assms(1,2,4,5,6,7,10)]]) (auto simp: built_def split: option.splits)
qed

theorem eftp_options_roundtrip_witness:
  "\<exists>b t. EftpBuildRequest ex_env EFI_EFTP_OPCODE_RRQ [102, 0] None 1 (Some [(Some [98, 0], Some [57, 0])]) ex_idle = Some (b, t)"
proof -
  have "mem (\<lambda>_. True) ex_idle {#}"
    using idle_ex by (simp add: idle_def mem_def refs_def last_data_def ex_idle_def)
  moreover have "cstr [102, 0 :: u8] = Some [102]" "cstr (mode_block None) = Some [111, 99, 116, 101, 116]"
    "given_options 1 (Some [(Some [98, 0], Some [57, 0])]) = Some [(Some [98, 0], Some [57, 0])]"
    "option_texts [(Some [98, 0], Some [57, 0])] = Some [([98], [57])]"
    by code_simp+
  ultimately show ?thesis
    using eftp_options_roundtrip [OF _ network_ok_ex, of ex_idle EFI_EFTP_OPCODE_RRQ "[102, 0]" "[102]" None
      "[111, 99, 116, 101, 116]" 1 "Some [(Some [98, 0], Some [57, 0])]" "[(Some [98, 0], Some [57, 0])]" "[([98], [57])]"]
    by (auto simp: request_text_def elim!: okE)
qed

end
