(* ===== verification/Eftp_Blocks.thy ===== *)
theory Eftp_Blocks
  imports Eftp_Session
begin

text \<open>
  The data packets of an upload: what \<open>EftpWrqBuildData\<close> builds from the buffer of the user or from
  its callback, and how the last data packet is kept for retransmission.
\<close>

section \<open>The data of a block\<close>

definition block_data :: "EFI_EFTP_TOKEN \<Rightarrow> nat \<Rightarrow> u8 list \<Rightarrow> bool" where
  "block_data tok k d \<longleftrightarrow> (case Buffer tok of
     Some buf \<Rightarrow> d = take 1024 (drop ((k - 1) * 1024) (take (unat (BufferSize tok)) buf))
   | None \<Rightarrow> length d \<le> 1024)"

definition data_packet :: "nat \<Rightarrow> u8 list \<Rightarrow> EFI_EFTP_PACKET" where
  "data_packet k d = sealed (8 + length d) EFI_EFTP_OPCODE_DATA (HTONS (ucast (of_nat k :: u64))) d"

text \<open>The buffer is as large as the token says; the callback returns a block of the length it says.\<close>

definition fair :: "eftp_env \<Rightarrow> EFI_EFTP_TOKEN \<Rightarrow> bool" where
  "fair env tok \<longleftrightarrow> (case Buffer tok of
     Some buf \<Rightarrow> unat (BufferSize tok) \<le> length buf
   | None \<Rightarrow> (case PacketNeeded env of None \<Rightarrow> False
       | Some f \<Rightarrow> \<forall>t. case f t of (st, len, d) \<Rightarrow> unat len \<le> length d))"

text \<open>Block \<open>k\<close> begins inside the file.\<close>

definition within :: "EFI_EFTP_TOKEN \<Rightarrow> nat \<Rightarrow> bool" where
  "within tok k \<longleftrightarrow> (case Buffer tok of None \<Rightarrow> True | Some buf \<Rightarrow> (k - 1) * 1024 \<le> unat (BufferSize tok))"

lemma read_buffer_ok:
  assumes B: "Buffer (Token s) = Some buf" and o: "BlkSize (Opt s) = 1024" and f: "fair env (Token s)"
    and k: "1 \<le> k" "k \<le> 65537" "within (Token s) k" and d: "1024 \<le> length d"
  shows "ok (read_buffer (of_nat k) buf d s) (\<lambda>(Size, d', t). \<exists>c. block_data (Token s) k c \<and>
    length c \<le> 1024 \<and> unat Size = 8 + length c \<and> length d' = length d \<and> take (length c) d' = c \<and>
    t = s\<lparr>Eof := Eof t, LastBlkNo := LastBlkNo t\<rparr> \<and> Eof t = (Eof s \<or> unat (BufferSize (Token s)) < k * 1024))"
proof -
  let ?N = "unat (BufferSize (Token s))"
  have N: "?N \<le> length buf" "(k - 1) * 1024 \<le> ?N" using f k(3) B by (simp_all add: fair_def within_def)
  define E where "E = (of_nat (k * 1024) :: u64)"
  define S where "S = (of_nat ((k - 1) * 1024) :: u64)"
  have e: "SctMultU64x32 (of_nat k) 1024 = E" by (simp add: SctMultU64x32_def E_def)
  have ue: "unat E = k * 1024" unfolding E_def using k(2) by (intro unat_of_nat_u64) simp
  have st: "E - 1024 = S" using k(1) by (cases k) (simp_all add: E_def S_def)
  have ust: "unat S = (k - 1) * 1024" unfolding S_def using k(2) by (intro unat_of_nat_u64) simp
  have gt: "E > BufferSize (Token s) \<longleftrightarrow> ?N < k * 1024" by (simp only: word_less_nat_alt ue)
  define r where "r = ?N - (k - 1) * 1024"
  have sz: "unat (ucast (BufferSize (Token s) - S + 8) :: u32) = 8 + r" if "?N < k * 1024"
  proof -
    have "r < 1024" using that k(1) by (cases k) (auto simp: r_def)
    moreover have "BufferSize (Token s) - S + 8 = of_nat (r + 8)"
      using N(2) by (simp add: r_def S_def)
    ultimately show ?thesis
      by (simp add: unsigned_ucast_eq take_bit_eq_mod unat_of_nat del: of_nat_add of_nat_numeral)
  qed
  define c where "c = take 1024 (drop ((k - 1) * 1024) (take ?N buf))"
  have c: "block_data (Token s) k c" "length c \<le> 1024" using B by (simp_all add: block_data_def c_def)
  have copy: "SctCopyMem d (drop ((k - 1) * 1024) buf) (length c) = Some (c @ drop (length c) d)"
  proof -
    have cc: "c = take (min 1024 (?N - (k - 1) * 1024)) (drop ((k - 1) * 1024) buf)"
      by (simp add: c_def drop_take min.commute)
    have "take (length (take j xs)) xs = take j xs" for j and xs :: "u8 list" by (simp add: min_def)
    from this [of "min 1024 (?N - (k - 1) * 1024)" "drop ((k - 1) * 1024) buf"] 
    have pre: "take (length c) (drop ((k - 1) * 1024) buf) = c" by (simp only: flip: cc)
    have "length c \<le> length (drop ((k - 1) * 1024) buf)" by (simp add: c_def)
    then show ?thesis using pre c(2) d by (simp add: SctCopyMem_spec)
  qed
  define Size where "Size = (if ?N < k * 1024 then ucast (BufferSize (Token s) - S + 8) else 1032 :: u32)"
  have lc: "unat Size = 8 + length c" using sz N k(1) by (cases k) (auto simp: Size_def c_def r_def)
  have s8: "unat (Size - 8) = length c"
    using lc unat_sub [of 8 Size] by (simp add: word_le_nat_alt)
  have "read_buffer (of_nat k) buf d s = Some (Size, c @ drop (length c) d,
      if ?N < k * 1024 then s\<lparr>LastBlkNo := of_nat k, Eof := True\<rparr> else s)"
    using N(1,2) copy s8
    by (cases "?N < k * 1024") (simp_all add: read_buffer_def Let_def o e st gt ust EFTP_HEADER_LEN_def Size_def)
  then show ?thesis using c lc d by (auto intro!: exI [of _ c])
qed

lemma read_callback_ok:
  assumes B: "Buffer (Token s) = None" and o: "BlkSize (Opt s) = 1024" and l: "unat len \<le> length data"
    and d: "1024 \<le> length d"
  shows "ok (read_callback (st, len, data) (of_nat k) d s) (\<lambda>(r, t).
    case r of None \<Rightarrow> t = s\<lparr>Result := EFI_ABORTED\<rparr>
    | Some (Size, d') \<Rightarrow> \<exists>c. block_data (Token s) k c \<and> length c \<le> 1024 \<and> unat Size = 8 + length c \<and>
        length d' = length d \<and> take (length c) d' = c \<and>
        t = s\<lparr>Eof := Eof t, LastBlkNo := LastBlkNo t\<rparr>)"
proof (cases "EFI_ERROR st \<or> len > 1024")
  case True
  then show ?thesis using o by (auto simp: read_callback_def)
next
  case False
  then have n: "unat len \<le> 1024" by (simp add: word_le_nat_alt not_less)
  define c where "c = take (unat len) data"
  have c: "length c = unat len" "block_data (Token s) k c" using l B n by (simp_all add: c_def block_data_def)
  have "unat (ucast len :: u32) = unat len"
    using unat_of_nat_u32 [of "unat len"] n by simp
  then have "unat (ucast len + 8 :: u32) = 8 + unat len"
    using n by (simp add: unat_word_ariths)
  then show ?thesis
    using False o n l d c
    by (auto simp: read_callback_def Let_def SctCopyMem_spec EFTP_HEADER_LEN_def c_def add.commute intro!: exI [of _ c])
qed

section \<open>Building a data packet\<close>

text \<open>The session with the end of the file another one has seen.\<close>

definition eof_of :: "EFTP_IO_PRIVATE \<Rightarrow> EFTP_IO_PRIVATE \<Rightarrow> EFTP_IO_PRIVATE" where
  "eof_of t s = s\<lparr>Eof := Eof t, LastBlkNo := LastBlkNo t\<rparr>"

lemma eof_of_mem [simp]:
  "mem Q (eof_of t s) L = mem Q s L" "refs (eof_of t s) = refs s" "Pkts (eof_of t s) = Pkts s"
  "own Q L (eof_of t s) b buf = own Q L s b buf"
  by (simp_all add: eof_of_def own_def)

definition eof_ok :: "EFI_EFTP_TOKEN \<Rightarrow> nat \<Rightarrow> EFTP_IO_PRIVATE \<Rightarrow> EFTP_IO_PRIVATE \<Rightarrow> bool" where
  "eof_ok tok k s t \<longleftrightarrow> (Buffer tok \<noteq> None \<longrightarrow> Eof t = (Eof s \<or> unat (BufferSize tok) < k * 1024))"

lemma quiet_eof:
  assumes "quiet L v u" and "v = eof_of v s \<or> v = eof_of v (tick s)"
  shows "quiet L (eof_of u s) u" "Eof u = Eof v"
proof -
  have e: "Eof u = Eof v" "LastBlkNo u = LastBlkNo v"
    using assms(1) by (cases u; cases v; simp add: quiet_def)+
  then have "eof_of u s = eof_of v s" by (simp add: eof_of_def)
  moreover have "quiet L (eof_of v s) v"
    using assms(2)
  proof
    assume "v = eof_of v (tick s)"
    moreover have "eof_of v (tick s) = tick (eof_of v s)" by (simp add: eof_of_def tick_def)
    ultimately show ?thesis using quiet_tick [of L "eof_of v s"] by simp
  qed (metis quiet_refl)
  ultimately show "quiet L (eof_of u s) u" using quiet_trans [OF _ assms(1)] by simp
  show "Eof u = Eof v" by (rule e)
qed

lemma EftpWrqReadBlk_ok:
  assumes ow: "own Q L s b buf" and size: "1032 \<le> unat (DataSize buf)" and env: "network_ok env"
    and o: "BlkSize (Opt s) = 1024" and f: "fair env (Token s)" and k: "1 \<le> k" "k \<le> 65537" "within (Token s) k"
  shows "ok (EftpWrqReadBlk env b (of_nat k) s) (\<lambda>(st, t).
    if EFI_ERROR st then \<exists>u. t = u\<lparr>Result := EFI_ABORTED\<rparr> \<and> quiet L s u \<and> (\<exists>buf. own Q L u b buf)
    else \<exists>d. block_data (Token s) k d \<and> eof_ok (Token s) k s t \<and> quiet L (eof_of t s) t \<and>
      mem Q t (add_mset b L) \<and> wire_of (Pkts t) b = Some (data_packet k d))"
proof -
  obtain pk where pk: "Packet buf = Some pk" "length (Payload pk) = unat (DataSize buf) - 8"
    using own_buf_ok [OF ow] by (auto simp: buf_ok_def)
  have p: "the_packet b s = Some pk" using ow pk(1) by (simp add: the_packet_def own_def)
  have d: "1024 \<le> length (Payload pk)" using pk(2) size by simp
  have rest: "ok (do {
        pk \<leftarrow> put_header (unat Size) EFI_EFTP_OPCODE_DATA (HTONS (ucast (of_nat k :: u64))) (unat Size div 2)
            (pk\<lparr>Payload := d'\<rparr>);
        s \<leftarrow> upd_buf b (\<lambda>buf. buf\<lparr>Packet := Some pk\<rparr>) v;
        s \<leftarrow> fill_tx_data env Size b s;
        Some (EFI_SUCCESS, s) })
     (\<lambda>(st, t). st = EFI_SUCCESS \<and> quiet L v t \<and> mem Q t (add_mset b L) \<and>
        wire_of (Pkts t) b = Some (data_packet k c))"
    if "own Q L v b buf" "unat Size = 8 + length c" "length c \<le> 1024" "length d' = length (Payload pk)"
      "take (length c) d' = c" for Size :: u32 and d' v c
  proof -
    have "ok (do {
      pk \<leftarrow> put_header (unat Size) EFI_EFTP_OPCODE_DATA (HTONS (ucast (of_nat k :: u64))) (unat Size div 2) (pk\<lparr>Payload := d'\<rparr>);
      s \<leftarrow> upd_buf b (\<lambda>buf. buf\<lparr>Packet := Some pk\<rparr>) v;
      fill_tx_data env Size b s })
    (\<lambda>s'. quiet L v s' \<and> mem Q s' (add_mset b L) \<and> b \<notin># refs v + L \<and>
      wire_of (Pkts s') b = Some (sealed (unat Size) EFI_EFTP_OPCODE_DATA (HTONS (ucast (of_nat k :: u64)))
        (take (unat Size - 8) (Payload (pk\<lparr>Payload := d'\<rparr>)))))"
      by (rule seal_ok [OF that(1), where g = "\<lambda>x. x"]) (use that pk(2) size env in simp_all)
    then show ?thesis using that by (auto simp: data_packet_def elim!: ok_mono)
  qed
  show ?thesis
  proof (cases "Buffer (Token s)")
    case None
    then obtain g where g: "PacketNeeded env = Some g" "\<And>t. case g t of (st, len, d) \<Rightarrow> unat len \<le> length d"
      using f by (auto simp: fair_def split: option.splits)
    obtain st len data where r: "g (now s) = (st, len, data)" by (cases "g (now s)")
    then have l: "unat len \<le> length data" using g(2) [of "now s"] by simp
    have tk: "Buffer (Token (tick s)) = None" "BlkSize (Opt (tick s)) = 1024" "Token (tick s) = Token s"
      using None o by (simp_all add: tick_def)
    obtain y v where v: "read_callback (st, len, data) (of_nat k) (Payload pk) (tick s) = Some (y, v)"
      "case y of None \<Rightarrow> v = (tick s)\<lparr>Result := EFI_ABORTED\<rparr>
      | Some (Size, d') \<Rightarrow> \<exists>c. block_data (Token s) k c \<and> length c \<le> 1024 \<and> unat Size = 8 + length c \<and>
        length d' = length (Payload pk) \<and> take (length c) d' = c \<and> v = eof_of v (tick s)"
      using read_callback_ok [OF tk(1,2) l d, of st k] unfolding tk(3) eof_of_def by (rule okE) blast
    show ?thesis
    proof (cases y)
      case None
      then show ?thesis
        using v p g(1) r \<open>Buffer (Token s) = None\<close> ow by (auto simp: EftpWrqReadBlk_def intro!: exI [of _ "tick s"])
    next
      case (Some z)
      then obtain Size d' c where z: "y = Some (Size, d')" "block_data (Token s) k c" "length c \<le> 1024"
        "unat Size = 8 + length c" "length d' = length (Payload pk)" "take (length c) d' = c" "v = eof_of v (tick s)"
        using v(2) by (cases z) auto
      have "own Q L v b buf" using ow by (subst z(7)) simp
      from rest [OF this z(4,3,5,6)] show ?thesis
        using v(1) p g(1) r \<open>Buffer (Token s) = None\<close> z(1,2) quiet_eof(1) [OF _ disjI2 [OF z(7)]]
        by (auto simp: EftpWrqReadBlk_def eof_ok_def case_prod_beta simp del: ok_bind elim!: ok_mono)
    qed
  next
    case (Some bf)
    obtain Size d' v c where v: "read_buffer (of_nat k) bf (Payload pk) s = Some (Size, d', v)"
      "block_data (Token s) k c" "length c \<le> 1024" "unat Size = 8 + length c" "length d' = length (Payload pk)"
      "take (length c) d' = c" "v = eof_of v s" "Eof v = (Eof s \<or> unat (BufferSize (Token s)) < k * 1024)"
      using read_buffer_ok [OF Some o f k d] unfolding eof_of_def [symmetric] by (elim okE) auto
    have "own Q L v b buf" using ow by (subst v(7)) simp
    have fin: "quiet L (eof_of t s) t \<and> eof_ok (Token s) k s t" if "quiet L v t" for t
      using quiet_eof [OF that disjI1 [OF v(7)]] v(8) by (simp add: eof_ok_def)
    from rest [OF \<open>own Q L v b buf\<close> v(4,3,5,6)] show ?thesis
      using v(1,2) p Some fin
      by (auto simp: EftpWrqReadBlk_def case_prod_beta simp del: ok_bind elim!: ok_mono)
  qed
qed

definition data_built :: "(EFI_EFTP_PACKET \<Rightarrow> bool) \<Rightarrow> EFI_EFTP_TOKEN \<Rightarrow> nat \<Rightarrow> EFTP_IO_PRIVATE \<Rightarrow>
    nat option \<times> EFTP_IO_PRIVATE \<Rightarrow> bool" where
  "data_built Q tok k s r \<longleftrightarrow> (case r of
     (None, t) \<Rightarrow> quiet {#} (eof_of t s) (t\<lparr>Result := Result s\<rparr>) \<and> mem Q t {#} \<and> EFI_ERROR (Result t)
   | (Some b, t) \<Rightarrow> \<exists>d. block_data tok k d \<and> eof_ok tok k s t \<and>
       built Q {#} (data_packet k d) (eof_of t s) (Some b, t))"

lemma quiet_eof_of:
  assumes "quiet L s t" and "quiet L (eof_of u t) u"
  shows "quiet L (eof_of u s) u"
proof -
  have "quiet L (eof_of u s) (eof_of u t)"
    using assms(1) by (cases s; cases t; simp add: quiet_def eof_of_def refs_def last_data_def)
  from quiet_trans [OF this assms(2)] show ?thesis .
qed

lemma eof_of_Result [simp]: "eof_of (u\<lparr>Result := r\<rparr>) s = eof_of u s"
  by (simp add: eof_of_def)

lemma give_back_data:
  assumes o: "own Q {#} t b buf" and q: "quiet {#} (eof_of t s) t" and r: "EFI_ERROR r"
  shows "ok (do { s \<leftarrow> release b (t\<lparr>Result := r\<rparr>); Some (None, s) }) (data_built Q tok k s)"
proof -
  have *: "data_built Q tok k s (None, u\<lparr>Result := r\<rparr>)" if u: "quiet {#} t u" "mem Q u {#}" for u
  proof -
    have "eof_of u s = eof_of t s" using u(1) by (cases u; cases t; simp add: quiet_def eof_of_def)
    then have "quiet {#} (eof_of u s) u" using quiet_trans [OF q u(1)] by simp
    moreover have "Result (eof_of u s) = Result s" by (simp add: eof_of_def)
    ultimately show ?thesis using u(2) r quiet_upd_same [of "{#}" "eof_of u s" u] by (simp add: data_built_def)
  qed
  then have "data_built Q tok k s (None, v)" if "\<exists>u. v = u\<lparr>Result := r\<rparr> \<and> quiet {#} t u \<and> mem Q u {#}" for v
    using that by blast
  from ok_mono [OF give_back [OF o] this] show ?thesis by simp
qed

lemma own_of_mem:
  assumes "mem Q t (add_mset b {#})" and "b \<notin># refs t"
  shows "\<exists>buf. own Q {#} t b buf"
proof -
  have "b \<in># refs t + {#b#}" by simp
  with mem_held [OF assms(1)] obtain buf where "Bufs (Pkts t) b = Some buf" by (rule held_liveE)
  then show ?thesis using assms by (auto simp: own_def)
qed

lemma EftpWrqBuildData_ok:
  assumes m: "mem Q s {#}" and env: "network_ok env" and o: "BlkSize (Opt s) = 1024"
    and f: "fair env (Token s)" and k: "1 \<le> k" "k \<le> 65537" "within (Token s) k"
  shows "ok (EftpWrqBuildData env (of_nat k) s) (data_built Q (Token s) k s)"
proof -
  have 1032: "of_nat EFTP_HEADER_LEN + ucast (BlkSize (Opt s)) = (1032 :: u32)" "(0 :: u32) < 1032"
    by (simp_all add: o EFTP_HEADER_LEN_def)
  obtain r t where t: "alloc env 1032 s = Some (r, t)" "quiet {#} s t"
    "case r of None \<Rightarrow> mem Q t {#} | Some b \<Rightarrow> \<exists>buf. own Q {#} t b buf \<and> 1032 \<le> DataSize buf"
    using alloc_ok [OF m 1032(2), of env] by (auto elim!: okE)
  have eq: "EftpWrqBuildData env (of_nat k) s = (case r of
        None \<Rightarrow> Some (None, t\<lparr>Result := EFI_OUT_OF_RESOURCES\<rparr>)
      | Some b \<Rightarrow> do {
          (st, s) \<leftarrow> EftpWrqReadBlk env b (of_nat k) t;
          if EFI_ERROR st then do { s \<leftarrow> release b s; Some (None, s) }
          else do {
            (st, s) \<leftarrow> create_tx_event env b s;
            if EFI_ERROR st then do {
              s \<leftarrow> release b (s\<lparr>Result := EFI_OUT_OF_RESOURCES\<rparr>);
              Some (None, s) }
            else Some (Some b, s) } })"
    using t(1) unfolding EftpWrqBuildData_def 1032(1) by (simp cong: option.case_cong)
  have qt: "quiet {#} (eof_of t s) t" and tf: "Token t = Token s" "Opt t = Opt s" "Result t = Result s" "refs t = refs s"
    "eof_of t s = s" "Eof t = Eof s"
    using t(2) by (cases s; cases t; simp add: quiet_def eof_of_def refs_def last_data_def)+
  show ?thesis
  proof (cases r)
    case None
    show ?thesis using t(3) None tf(3) qt quiet_upd_same [OF t(2)] unfolding eq by (simp add: data_built_def tf(5))
  next
    case (Some b)
    then obtain buf where ow: "own Q {#} t b buf" "1032 \<le> unat (DataSize buf)"
      using t(3) by (auto simp: word_le_nat_alt)
    have pre: "BlkSize (Opt t) = 1024" "fair env (Token t)" "within (Token t) k" using o f k tf by simp_all
    obtain st u where u: "EftpWrqReadBlk env b (of_nat k) t = Some (st, u)"
      "if EFI_ERROR st then \<exists>v. u = v\<lparr>Result := EFI_ABORTED\<rparr> \<and> quiet {#} t v \<and> (\<exists>buf. own Q {#} v b buf)
       else \<exists>d. block_data (Token s) k d \<and> eof_ok (Token s) k t u \<and> quiet {#} (eof_of u t) u \<and>
         mem Q u (add_mset b {#}) \<and> wire_of (Pkts u) b = Some (data_packet k d)"
      using EftpWrqReadBlk_ok [OF ow env pre(1,2) k(1,2) pre(3)] unfolding tf(1) by (elim okE) auto
    show ?thesis
    proof (cases "EFI_ERROR st")
      case True
      then obtain v buf where v: "u = v\<lparr>Result := EFI_ABORTED\<rparr>" "quiet {#} t v" "own Q {#} v b buf"
        using u(2) by auto
      have "eof_of v s = s" using quiet_trans [OF t(2) v(2)] by (cases v; cases s; simp add: quiet_def eof_of_def)
      then have "quiet {#} (eof_of v s) v" using quiet_trans [OF t(2) v(2)] by simp
      from give_back_data [OF v(3) this, of EFI_ABORTED] show ?thesis
        using True u(1) v(1) Some unfolding eq by simp
    next
      case False
      then obtain d where d: "block_data (Token s) k d" "eof_ok (Token s) k t u" "quiet {#} (eof_of u t) u"
        "mem Q u (add_mset b {#})" "wire_of (Pkts u) b = Some (data_packet k d)" using u(2) by auto
      have q: "quiet {#} (eof_of u s) u" by (rule quiet_eof_of [OF t(2) d(3)])
      have nb: "b \<notin># refs u" using quiet_refs [OF q] ow(1) tf(4) by (simp add: own_def)
      obtain buf' where ow': "own Q {#} u b buf'" using own_of_mem [OF d(4) nb] by blast
      obtain st' w e where w: "create_tx_event env b u = Some (st', w)" "quiet {#} u w" "own Q {#} w b (buf'\<lparr>TxEvent := e\<rparr>)"
        using create_tx_event_ok [OF ow', of env] by (auto elim!: okE)
      have ew: "eof_of w s = eof_of u s" "Eof w = Eof u"
        using w(2) by (cases w; cases u; simp add: quiet_def eof_of_def)+
      have qw: "quiet {#} (eof_of w s) w" using quiet_trans [OF q w(2)] ew by simp
      show ?thesis
      proof (cases "EFI_ERROR st'")
        case True
        then show ?thesis
          using \<open>\<not> EFI_ERROR st\<close> u(1) w(1) Some give_back_data [OF w(3) qw, of EFI_OUT_OF_RESOURCES]
          unfolding eq by simp
      next
        case no: False
        have "wire_of (Pkts w) b = Some (data_packet k d)"
          using d(5) ow' w(3) by (simp add: own_def wire_of_def on_wire_def)
        then have "built Q {#} (data_packet k d) (eof_of w s) (Some b, w)"
          using w(3) quiet_refs [OF qw] by (intro built_Some [OF qw]) (simp_all add: own_def)
        moreover have "eof_ok (Token s) k s w" using d(2) ew(2) tf(6) by (simp add: eof_ok_def)
        ultimately show ?thesis
          using no False u(1) w(1) Some d(1) unfolding eq by (auto simp: data_built_def)
      qed
    qed
  qed
qed

end
