(* ===== verification/Eftp_Upload.thy ===== *)
theory Eftp_Upload
  imports Eftp_Blocks Eftp_Start
begin

text \<open>
  The upload client keeps its invariant under every event: the locale \<open>wrq_client\<close>. What the
  network and the peer promise are its parameters, as for downloads.
\<close>

section \<open>What the client sends\<close>

text \<open>The request, blocks of the file, and errors.\<close>

definition wrq_out :: "EFI_EFTP_PACKET \<Rightarrow> EFI_EFTP_TOKEN \<Rightarrow> EFI_EFTP_PACKET \<Rightarrow> bool" where
  "wrq_out req tok pk \<longleftrightarrow> pk = req \<or> (\<exists>k d. 1 \<le> k \<and> k \<le> 65536 \<and> block_data tok k d \<and> pk = data_packet k d) \<or>
     (\<exists>Code t. pk = sealed (9 + length t) EFI_EFTP_OPCODE_ERROR Code (t @ [0]))"

lemma wrq_out_new: "wrq_out req tok req"
  "block_data tok (Suc n) d \<Longrightarrow> n \<le> 65535 \<Longrightarrow> wrq_out req tok (data_packet (Suc n) d)"
  "wrq_out req tok (sealed (9 + length t) EFI_EFTP_OPCODE_ERROR Code (t @ [0]))"
  by (auto simp: wrq_out_def)

text \<open>All blocks up to \<open>n\<close> have been sent; and the file ends with block \<open>n\<close>.\<close>

definition all_sent :: "EFI_EFTP_TOKEN \<Rightarrow> nat \<Rightarrow> EFI_EFTP_PACKET list \<Rightarrow> bool" where
  "all_sent tok n w \<longleftrightarrow> (\<forall>k\<in>{1..n}. \<exists>d. block_data tok k d \<and> data_packet k d \<in> set w)"

lemma all_sent_0 [simp]: "all_sent tok 0 w"
  by (simp add: all_sent_def)

lemma all_sent_more: "all_sent tok n w \<Longrightarrow> set w \<subseteq> set w' \<Longrightarrow> all_sent tok n w'"
  by (fastforce simp: all_sent_def)

lemma all_sent_Suc:
  "all_sent tok n w \<Longrightarrow> block_data tok (Suc n) d \<Longrightarrow> data_packet (Suc n) d \<in> set w \<Longrightarrow> all_sent tok (Suc n) w"
  unfolding all_sent_def by (metis atLeastAtMost_iff le_SucE)

definition past_end :: "EFI_EFTP_TOKEN \<Rightarrow> nat \<Rightarrow> bool" where
  "past_end tok n \<longleftrightarrow> (case Buffer tok of None \<Rightarrow> True | Some buf \<Rightarrow> unat (BufferSize tok) < n * 1024)"

text \<open>The number of expirations of the timer that are left.\<close>

definition wrq_left :: "EFTP_IO_PRIVATE \<Rightarrow> nat" where
  "wrq_left s = (case State s of
     EFTP_WRQ_SENT \<Rightarrow> 3 + (unat (MaxNRetry s) - unat (NRetry s))
   | EFTP_WRQ_ESTABLISHED \<Rightarrow> 3 + (unat (MaxNRetry s) - unat (NRetry s))
   | EFTP_WRQ_CLOSEING \<Rightarrow> 2
   | EFTP_TIME_WAIT \<Rightarrow> 1
   | _ \<Rightarrow> 0)"

lemma wrq_left_cong:
  "State t = State s \<Longrightarrow> MaxNRetry t = MaxNRetry s \<Longrightarrow> NRetry t = NRetry s \<Longrightarrow> wrq_left t = wrq_left s"
  by (simp only: wrq_left_def)

text \<open>An option acknowledgement with options the request could have had: none.\<close>

definition plain_oack :: "EFI_EFTP_PACKET \<Rightarrow> bool" where
  "plain_oack pk \<longleftrightarrow> (\<forall>a. case EftpExtractOptions a EftpInitOption pk (unat (NTOHS (HdrLength pk))) of
     None \<Rightarrow> False | Some (st, opt) \<Rightarrow> EFI_ERROR st \<or> opt = EftpInitOption)"

section \<open>The last data packet\<close>

lemma set_last_data_ok:
  assumes m: "mem Q s (add_mset b L)" and Q: "\<And>pk. wire_of (Pkts s) b = Some pk \<Longrightarrow> Q pk"
    and l: "WrqState s = Some l"
  shows "ok (set_last_data b s) (\<lambda>s'. \<exists>p. s' = s\<lparr>Pkts := p, WrqState := Some (Some b)\<rparr> \<and> mem Q s' L)"
proof -
  let ?M = "refs (s\<lparr>WrqState := Some (Some b)\<rparr>) + L"
  have R: "refs s = refs (s\<lparr>WrqState := None\<rparr>) + opt_ref l"
    "refs (s\<lparr>WrqState := Some (Some b)\<rparr>) = add_mset b (refs (s\<lparr>WrqState := None\<rparr>))"
    "refs (s\<lparr>Pkts := p, WrqState := Some (Some b)\<rparr>) = refs (s\<lparr>WrqState := Some (Some b)\<rparr>)" for p
    using l by (simp_all add: refs_def last_data_def)
  have "held (Pkts s) (opt_ref l + ?M)" using mem_held [OF m] R by (simp add: ac_simps)
  from release_opt_ok [OF this] obtain p where p: "release_opt l s = Some (s\<lparr>Pkts := p\<rparr>)" "held p ?M"
    "keeps ?M (Pkts s) p" by (auto elim!: okE)
  have "\<forall>c\<in>#refs (s\<lparr>WrqState := Some (Some b)\<rparr>). \<forall>pk. wire_of p c = Some pk \<longrightarrow> Q pk"
  proof (intro ballI allI impI)
    fix c pk assume c: "c \<in># refs (s\<lparr>WrqState := Some (Some b)\<rparr>)" "wire_of p c = Some pk"
    then have w: "wire_of (Pkts s) c = Some pk" using keeps_wire [OF p(3), of c] by simp
    show "Q pk"
    proof (cases "c = b")
      case False
      then have "c \<in># refs s" using c(1) R by simp
      then show ?thesis using m w by (auto simp: mem_def)
    qed (use w Q in simp)
  qed
  then have "mem Q (s\<lparr>Pkts := p, WrqState := Some (Some b)\<rparr>) L"
    using m p(2) R by (auto simp: mem_def)
  then show ?thesis using p(1) l by (auto simp: set_last_data_def)
qed

lemma EftpSetTimer_Opt [simp]: "Opt (EftpSetTimer a b s) = Opt s"
  by (simp add: EftpSetTimer_def)

section \<open>The client\<close>

locale wrq_client =
  fixes env :: eftp_env
    and can :: "EFTP_IO_PRIVATE \<Rightarrow> event \<Rightarrow> bool"
    and req :: EFI_EFTP_PACKET
    and sig :: nat
    and tok :: EFI_EFTP_TOKEN
  assumes network: "network_ok env"
    and can_enabled: "can s e \<Longrightarrow> enabled s e"
    and can_timer: "armed s \<Longrightarrow> can s Timer"
    and can_oack: "can s (Rx st len (Some pk)) \<Longrightarrow> OpCode pk = HTONS EFI_EFTP_OPCODE_OACK \<Longrightarrow> plain_oack pk"
begin

definition base :: "nat \<Rightarrow> EFTP_IO_PRIVATE \<Rightarrow> bool" where
  "base n s \<longleftrightarrow> mem (wrq_out req tok) s {#} \<and> Token s = tok \<and> fair env tok \<and> all_sent tok n (Wire s) \<and>
     WrqState s \<noteq> None \<and> TimeoutEvent s \<noteq> None \<and> Request s \<noteq> None \<and> \<not> UserEvtFired s \<and>
     \<not> SynFinished s \<and> Signals s = sig \<and> unat (MaxNRetry s) \<le> 65535"

definition ended_well :: "nat \<Rightarrow> EFTP_IO_PRIVATE \<Rightarrow> bool" where
  "ended_well n s \<longleftrightarrow> (\<not> EFI_ERROR (Result s) \<longrightarrow> past_end tok n)"

definition trying :: "EFTP_IO_PRIVATE \<Rightarrow> bool" where
  "trying s \<longleftrightarrow> Opt s = EftpInitOption \<and> Result s = EFI_SUCCESS \<and> unat (NRetry s) \<le> unat (MaxNRetry s)"

definition upto_here :: "nat \<Rightarrow> EFTP_IO_PRIVATE \<Rightarrow> bool" where
  "upto_here n s \<longleftrightarrow> NextBlkNo s = of_nat (Suc n) \<and> n \<le> 65536 \<and>
     (if Eof s then past_end tok n else within tok (Suc n))"

definition phase :: "nat \<Rightarrow> EFTP_IO_PRIVATE \<Rightarrow> bool" where
  "phase n s \<longleftrightarrow> (case State s of
     EFTP_WRQ_SENT \<Rightarrow> n = 0 \<and> trying s \<and> upto_here n s
   | EFTP_WRQ_ESTABLISHED \<Rightarrow> trying s \<and> upto_here n s \<and> last_data s \<noteq> None
   | EFTP_WRQ_CLOSEING \<Rightarrow> LastCtrl s \<noteq> None \<and> ended_well n s
   | EFTP_TIME_WAIT \<Rightarrow> ended_well n s
   | _ \<Rightarrow> False)"

definition running :: "nat \<Rightarrow> EFTP_IO_PRIVATE \<Rightarrow> bool" where
  "running n s \<longleftrightarrow> base n s \<and> phase n s"

definition finished :: "nat \<Rightarrow> EFTP_IO_PRIVATE \<Rightarrow> bool" where
  "finished n s \<longleftrightarrow> State s = EFTP_INIT \<and> mem (wrq_out req tok) s {#} \<and> refs s = mset (InFlight s) \<and>
     all_sent tok n (Wire s) \<and> ended_well n s \<and> Token s = tok\<lparr>TokenStatus := Result s\<rparr> \<and>
     WrqState s = None \<and> TimeoutEvent s = None \<and> SynFinished s \<and>
     Signals s = sig + (if TokenEvent tok then 1 else 0)"

lemma base_upd [simp]:
  "base n (s\<lparr>State := x\<rparr>) = base n s" "base n (s\<lparr>NRetry := u\<rparr>) = base n s"
  "base n (s\<lparr>NextBlkNo := u\<rparr>) = base n s" "base n (s\<lparr>LastBlkNo := u\<rparr>) = base n s"
  "base n (s\<lparr>Eof := b\<rparr>) = base n s" "base n (s\<lparr>Receiving := b\<rparr>) = base n s"
  "base n (s\<lparr>Recycled := m\<rparr>) = base n s" "base n (s\<lparr>Result := r\<rparr>) = base n s"
  "base n (s\<lparr>Timeout := v\<rparr>) = base n s" "base n (s\<lparr>Opt := z\<rparr>) = base n s"
  "base n (eof_of t s) = base n s"
  by (auto simp: base_def eof_of_def)

lemma base_tick [simp]: "base n (tick s) = base n s"
  by (simp add: base_def) (simp add: tick_def)

lemma base_touch:
  assumes "base n s" and "touch s t" and "mem (wrq_out req tok) t {#}" and "set (Wire s) \<subseteq> set (Wire t)"
  shows "base n t"
proof -
  have "all_sent tok n (Wire t)" using assms(1,4) all_sent_more by (auto simp: base_def)
  then show ?thesis using assms(1-3) by (simp add: base_def touch_fields)
qed

lemma base_timer: "base n s \<Longrightarrow> base n (s\<lparr>TimeoutEvent := Some t\<rparr>)"
  by (simp add: base_def)

lemma base_EftpSetTimer: "base n s \<Longrightarrow> base n (EftpSetTimer a b s) \<and> armed (EftpSetTimer a b s)"
  using EftpSetTimer_fields [of s a b] base_timer [of n s] by (auto simp: base_def armed_EftpSetTimer)

lemma silent_ok:
  assumes "base n s" and "ended_well n s"
  shows "running n (WRQ_SILENT_SHUTDOWN s)" "armed (WRQ_SILENT_SHUTDOWN s)"
    "State (WRQ_SILENT_SHUTDOWN s) = EFTP_TIME_WAIT"
  using assms base_EftpSetTimer [of n "s\<lparr>State := EFTP_TIME_WAIT\<rparr>"]
  by (simp_all add: WRQ_SILENT_SHUTDOWN_def running_def phase_def ended_well_def)

lemma loud_ok:
  assumes "base n s" and "ended_well n s" and "State s \<noteq> EFTP_TIME_WAIT" and "LastCtrl s \<noteq> None"
  shows "ok (WRQ_LOUD_SHUTDOWN s) (\<lambda>t. running n t \<and> armed t \<and> State t = EFTP_WRQ_CLOSEING)"
  using assms base_EftpSetTimer [of n "s\<lparr>State := EFTP_WRQ_CLOSEING\<rparr>"]
  by (simp add: WRQ_LOUD_SHUTDOWN_def running_def phase_def ended_well_def)

lemma error_sent:
  assumes b: "base n s" and t: "CHR 0x00 \<notin> set t" "length t < 60000"
  shows "ok (EftpSendError env Code (ascii t) s) (\<lambda>(st, u). base n u \<and> State u = State s \<and>
    (if EFI_ERROR st then EFI_ERROR (Result u) else Result u = Result s \<and> LastCtrl u \<noteq> None))"
proof -
  have m: "mem (wrq_out req tok) s {#}" using b by (simp add: base_def)
  show ?thesis
    by (rule ok_mono [OF EftpSendError_ascii [OF m network t wrq_out_new(3), of Code]])
      (auto simp: touch_fields intro: base_touch [OF b])
qed

lemma send_err_ok:
  assumes b: "base n s" and e: "EFI_ERROR (Result s)" and st: "State s \<noteq> EFTP_TIME_WAIT"
    and t: "CHR 0x00 \<notin> set t" "length t < 60000"
  shows "ok (wrq_send_err env Code (ascii t) s) (\<lambda>(st, u). running n u \<and> armed u \<and>
    State u \<in> {EFTP_WRQ_CLOSEING, EFTP_TIME_WAIT})"
proof -
  obtain st u where u: "EftpSendError env Code (ascii t) s = Some (st, u)" "base n u" "State u = State s"
    "if EFI_ERROR st then EFI_ERROR (Result u) else Result u = Result s \<and> LastCtrl u \<noteq> None"
    using error_sent [OF b t, of Code] by (auto elim!: okE)
  have w: "ended_well n u" using u(4) e by (auto simp: ended_well_def split: if_splits)
  show ?thesis
  proof (cases "EFI_ERROR st")
    case True
    then show ?thesis using u(1) silent_ok [OF u(2) w] by (simp add: wrq_send_err_def)
  next
    case False
    then have "State u \<noteq> EFTP_TIME_WAIT" "LastCtrl u \<noteq> None" using u(3,4) st by simp_all
    from loud_ok [OF u(2) w this] show ?thesis using False u(1) by (auto simp: wrq_send_err_def elim!: ok_mono)
  qed
qed

text \<open>The request, the last data packet or the last control packet is sent again.\<close>

lemma resend_ok:
  assumes b: "base n s" and c: "c = Request s \<or> c = LastCtrl s \<or> c = last_data s" "c \<noteq> None"
  shows "ok (resend_last env c s) (\<lambda>(st, u). base n u \<and> touch s u \<and> LastCtrl u = LastCtrl s \<and>
    (if EFI_ERROR st then EFI_ERROR (Result u) else Result u = Result s))"
proof -
  have m: "mem (wrq_out req tok) s {#}" using b by (simp add: base_def)
  obtain d where d: "c = Some d" using c(2) by auto
  have r: "add_mset d (mset (PendingPacketList s)) \<subseteq># refs s"
    using c(1)
  proof (elim disjE)
    assume "c = Request s"
    then show ?thesis using d by (simp flip: \<open>c = Request s\<close> add: refs_def)
  next
    assume "c = LastCtrl s"
    then show ?thesis using d by (simp flip: \<open>c = LastCtrl s\<close> add: refs_def)
  next
    assume "c = last_data s"
    then show ?thesis using d by (simp flip: \<open>c = last_data s\<close> add: refs_def)
  qed
  show ?thesis
    using b unfolding d
    by (intro ok_mono [OF resend_last_ok [OF m r network]])
      (auto simp: sent_def no_resources_def intro!: base_touch [OF b] split: if_splits)
qed

definition kept :: "EFTP_IO_PRIVATE \<Rightarrow> EFTP_IO_PRIVATE \<Rightarrow> bool" where
  "kept s t \<longleftrightarrow> (\<exists>m. running m t) \<and> (armed s \<longrightarrow> armed t)"

lemma kept_armed: "running m t \<Longrightarrow> armed t \<Longrightarrow> kept s t"
  by (auto simp: kept_def)

lemma kept_refl: "running m s \<Longrightarrow> kept s s"
  by (auto simp: kept_def)

text \<open>The next block is built and sent.\<close>

lemma same_WrqState: "WrqState u = l \<Longrightarrow> u\<lparr>Pkts := p, WrqState := l\<rparr> = u\<lparr>Pkts := p\<rparr>" for u :: EFTP_IO_PRIVATE
  by (cases u) auto

lemma data_sent:
  assumes b: "base n s" and B: "built (wrq_out req tok) {#} (data_packet (Suc n) d) (eof_of t s) (Some c, t)"
    and d: "block_data tok (Suc n) d" and n: "n \<le> 65535"
  shows "ok (do {
      (st, s) \<leftarrow> EftpSendPacket env c t;
      if EFI_ERROR st then do {
        s \<leftarrow> release c s;
        Some (st, s) }
      else do {
        s \<leftarrow> set_last_data c s;
        Some (st, s) } })
    (\<lambda>(st, v). if EFI_ERROR st then base n v \<and> EFI_ERROR (Result v)
      else base (Suc n) v \<and> touch (eof_of t s) (v\<lparr>WrqState := WrqState s\<rparr>) \<and>
        WrqState v = Some (Some c) \<and> Result v = Result s)"
proof -
  let ?s = "eof_of t s"
  have bs: "base n ?s" using b by simp
  have Q: "wrq_out req tok (data_packet (Suc n) d)" by (rule wrq_out_new(2) [OF d n])
  obtain st u where u: "EftpSendPacket env c t = Some (st, u)"
    "sent (wrq_out req tok) {#c#} (data_packet (Suc n) d) ?s (st, u)"
    "wire_of (Pkts u) c = Some (data_packet (Suc n) d)"
    using send_built [OF B network Q] by (auto elim!: okE)
  have tu: "touch ?s u" "mem (wrq_out req tok) u {#c#}" using u(2) by (simp_all add: sent_def)
  show ?thesis
  proof (cases "EFI_ERROR st")
    case True
    then have w: "Wire u = Wire ?s" "EFI_ERROR (Result u)" using u(2) by (auto simp: sent_def no_resources_def)
    have "ok (release c u) (\<lambda>v. base n v \<and> EFI_ERROR (Result v))"
    proof (rule ok_mono [OF release_sent [OF tu(2)]], clarify)
      fix v assume v: "touch u v" "mem (wrq_out req tok) v {#}" "Wire v = Wire u" "Result v = Result u"
      have "base n v" by (rule base_touch [OF bs touch_trans [OF tu(1) v(1)] v(2)]) (simp add: v(3) w(1))
      then show "base n v \<and> EFI_ERROR (Result v)" using w(2) v(4) by simp
    qed
    then show ?thesis using u(1) True by simp
  next
    case False
    then have w: "Wire u = Wire s @ [data_packet (Suc n) d]" "Result u = Result s"
      using u(2) by (simp_all add: sent_def eof_of_def)
    obtain l where l: "WrqState u = Some l" "WrqState s = Some l"
      using b touch_fields(18) [OF tu(1)] by (auto simp: base_def eof_of_def)
    have "wrq_out req tok pk" if "wire_of (Pkts u) c = Some pk" for pk using that u(3) Q by simp
    from set_last_data_ok [OF tu(2) this l(1)] obtain p where p:
      "set_last_data c u = Some (u\<lparr>Pkts := p, WrqState := Some (Some c)\<rparr>)"
      "mem (wrq_out req tok) (u\<lparr>Pkts := p, WrqState := Some (Some c)\<rparr>) {#}" by (auto elim!: okE)
    let ?v = "u\<lparr>Pkts := p, WrqState := Some (Some c)\<rparr>"
    have "all_sent tok n (Wire u)"
      by (rule all_sent_more [of tok n "Wire s"]) (use b w(1) in \<open>auto simp: base_def\<close>)
    then have "all_sent tok (Suc n) (Wire u)" using all_sent_Suc [OF _ d] w(1) by simp
    then have "base (Suc n) ?v" using p(2) bs touch_fields [OF tu(1)] by (simp add: base_def)
    moreover have "touch ?s (?v\<lparr>WrqState := WrqState s\<rparr>)"
    proof -
      have "?v\<lparr>WrqState := WrqState s\<rparr> = u\<lparr>Pkts := p, WrqState := WrqState s\<rparr>" by simp
      also have "\<dots> = u\<lparr>Pkts := p\<rparr>" by (rule same_WrqState) (simp only: l)
      finally show ?thesis using tu(1) by (simp only: touch_upd)
    qed
    ultimately show ?thesis using u(1) False p(1) w(2) by simp
  qed
qed

lemma next_block_ok:
  assumes b: "base n s" and tr: "trying s" and up: "upto_here n s"
    and st: "State s = EFTP_WRQ_ESTABLISHED" and A: "unat AckNo \<le> 65535"
    and ld: "last_data s \<noteq> None \<or> AckNo = NextBlkNo s - 1"
  shows "ok (wrq_next_block env AckNo s) (\<lambda>(st, t). kept s t)"
proof -
  consider (other) "AckNo \<noteq> NextBlkNo s - 1" | (eof) "AckNo = NextBlkNo s - 1" "Eof s"
    | (go) "AckNo = NextBlkNo s - 1" "\<not> Eof s" by blast
  then show ?thesis
  proof cases
    case other
    then have "running n s" using assms by (auto simp: running_def phase_def)
    then show ?thesis using other kept_refl by (simp add: wrq_next_block_def)
  next
    case eof
    have "ended_well n (s\<lparr>Result := EFI_SUCCESS\<rparr>)" using up eof by (simp add: ended_well_def upto_here_def)
    then show ?thesis
      using eof silent_ok [of n "s\<lparr>Result := EFI_SUCCESS\<rparr>"] b by (auto simp: wrq_next_block_def kept_armed)
  next
    case go
    have n: "NextBlkNo s = of_nat (Suc n)" "n \<le> 65536" "within tok (Suc n)"
      using up go by (simp_all add: upto_here_def)
    then have An: "AckNo = of_nat n" using go(1) by simp
    have "unat (of_nat n :: u64) = n" using n(2) by (intro unat_of_nat_u64) simp
    then have n': "n \<le> 65535" using A An by simp
    have m: "mem (wrq_out req tok) s {#}" "fair env (Token s)" "within (Token s) (Suc n)" "BlkSize (Opt s) = 1024"
      "Token s = tok"
      using b n(3) tr by (simp_all add: base_def trying_def EftpInitOption_def)
    obtain r t where t: "EftpWrqBuildData env (of_nat (Suc n)) s = Some (r, t)"
      "data_built (wrq_out req tok) (Token s) (Suc n) s (r, t)"
      using EftpWrqBuildData_ok [OF m(1) network m(4,2) _ _ m(3)] n' by (auto elim!: okE)
    show ?thesis
    proof (cases r)
      case None
      then have q: "quiet {#} (eof_of t s) (t\<lparr>Result := Result s\<rparr>)" "mem (wrq_out req tok) t {#}" "EFI_ERROR (Result t)"
        using t(2) by (simp_all add: data_built_def)
      have "touch (eof_of t s) t" "Wire t = Wire (eof_of t s)"
        using quiet_Result_touch [OF q(1)] quiet_fields [OF q(1)] by simp_all
      then have bt: "base n t" "State t = State s"
        using base_touch [of n "eof_of t s" t] b q(2) touch_fields(8) [of "eof_of t s" t] by (simp_all add: eof_of_def)
      have w: "ended_well n t" using q(3) by (simp add: ended_well_def)
      have "ok (wrq_send_err env EFI_EFTP_ERRORCODE_NOT_DEFINED (ascii ''User aborted the download'') t) (\<lambda>(st, t). kept s t)"
        using st bt(2) by (intro ok_mono [OF send_err_ok [OF bt(1) q(3)]]) (auto intro: kept_armed)
      then show ?thesis
        using None t(1) go n(1) silent_ok [OF bt(1) w] by (auto simp: wrq_next_block_def intro: kept_armed)
    next
      case (Some c)
      then obtain d where d: "block_data tok (Suc n) d" "eof_ok tok (Suc n) s t"
        "built (wrq_out req tok) {#} (data_packet (Suc n) d) (eof_of t s) (Some c, t)"
        using t(2) m(5) by (auto simp: data_built_def)
      obtain x where x: "do {
          (st, s) \<leftarrow> EftpSendPacket env c t;
          if EFI_ERROR st then do {
            s \<leftarrow> release c s;
            Some (st, s) }
          else do {
            s \<leftarrow> set_last_data c s;
            Some (st, s) } } = Some x"
        "case x of (st, v) \<Rightarrow> if EFI_ERROR st then base n v \<and> EFI_ERROR (Result v)
         else base (Suc n) v \<and> touch (eof_of t s) (v\<lparr>WrqState := WrqState s\<rparr>) \<and>
           WrqState v = Some (Some c) \<and> Result v = Result s"
        using data_sent [OF b d(3,1) n'] by (rule okE)
      obtain st' v where xv: "x = (st', v)" by (cases x)
      note v = x [unfolded xv prod.case]
      have eq: "wrq_next_block env AckNo s = (if EFI_ERROR st' then Some (EFI_ABORTED, WRQ_SILENT_SHUTDOWN v)
        else Some (EFI_SUCCESS, EftpSetTimer (ucast (Timeout v)) 0 (v\<lparr>NextBlkNo := NextBlkNo v + 1\<rparr>)))"
        using go t(1) Some v(1) n(1) by (auto simp: wrq_next_block_def bind_eq_Some_conv split: if_splits)
      show ?thesis
      proof (cases "EFI_ERROR st'")
        case True
        then have "base n v" "ended_well n v" using v(2) by (simp_all add: ended_well_def)
        from silent_ok [OF this] show ?thesis using True unfolding eq by (auto intro: kept_armed)
      next
        case False
        then have w: "base (Suc n) v" "touch (eof_of t s) (v\<lparr>WrqState := WrqState s\<rparr>)"
          "WrqState v = Some (Some c)" "Result v = Result s" using v(2) by simp_all
        let ?v = "v\<lparr>NextBlkNo := NextBlkNo v + 1\<rparr>"
        have f: "NextBlkNo v = NextBlkNo s" "Eof v = Eof t" "Opt v = Opt s" "State v = State s" "NRetry v = NRetry s"
          "MaxNRetry v = MaxNRetry s"
          using touch_fields [OF w(2)] by (simp_all add: eof_of_def)
        have "if Eof v then past_end tok (Suc n) else within tok (Suc (Suc n))"
          using d(2) go(2) f(2) by (auto simp: eof_ok_def past_end_def within_def split: option.splits)
        then have "upto_here (Suc n) ?v" using f(1) n(1) n' by (simp add: upto_here_def)
        moreover have "trying ?v" using tr f w(4) by (simp add: trying_def)
        ultimately have "running (Suc n) (EftpSetTimer (ucast (Timeout v)) 0 ?v)"
          using base_EftpSetTimer [of "Suc n" ?v] w(1,3) f(4) st
          by (simp add: running_def phase_def trying_def upto_here_def last_data_def)
        then show ?thesis using False base_EftpSetTimer [of "Suc n" ?v] w(1) unfolding eq by (auto intro: kept_armed)
      qed
    qed
  qed
qed

section \<open>Receiving\<close>

lemma kept_weaken: "kept s t \<Longrightarrow> armed s' \<longrightarrow> armed s \<Longrightarrow> kept s' t"
  by (auto simp: kept_def)

lemma ack_number: "unat (ucast (v :: u16) :: u64) \<le> 65535"
  using unat_of_nat_u64 [of "unat v"] unsigned_less [of v, where 'a = nat] by simp

lemma rcv_ack_ok:
  assumes r: "running n s" and D: "OpCode pk = HTONS EFI_EFTP_OPCODE_ACK"
  shows "ok (EftpWrqRcvAck env pk s) (\<lambda>(st, t). kept s t)"
proof -
  define A where "A = (ucast (NTOHS (CodeVar pk)) :: u64)"
  have A: "unat A \<le> 65535" by (simp add: A_def ack_number)
  have b: "base n s" using r by (simp add: running_def)
  consider "State s = EFTP_WRQ_SENT" | "State s = EFTP_WRQ_ESTABLISHED" | "State s = EFTP_WRQ_CLOSEING"
    | "State s = EFTP_TIME_WAIT" using r by (auto simp: running_def phase_def split: EFTP_STATE.splits)
  then show ?thesis
  proof cases
    case 1
    have "ok (wrq_next_block env A (s\<lparr>State := EFTP_WRQ_ESTABLISHED\<rparr>)) (\<lambda>(st, t). kept (s\<lparr>State := EFTP_WRQ_ESTABLISHED\<rparr>) t)"
      if "A = NextBlkNo s - 1"
      using r 1 that A
      by (intro next_block_ok [of n]) (auto simp: running_def phase_def trying_def upto_here_def)
    then show ?thesis
      using D 1 kept_refl [OF r] by (auto simp: EftpWrqRcvAck_def A_def Let_def kept_def armed_def elim!: ok_mono)
  next
    case 2
    have "ok (wrq_next_block env A s) (\<lambda>(st, t). kept s t)"
      using r 2 A by (intro next_block_ok [of n]) (auto simp: running_def phase_def)
    then show ?thesis using D 2 by (simp add: EftpWrqRcvAck_def A_def)
  next
    case 3
    have "LastCtrl s \<noteq> None" "ended_well n s" using r 3 by (simp_all add: running_def phase_def)
    then obtain st u where u: "resend_last env (LastCtrl s) s = Some (st, u)" "base n u" "touch s u"
      "LastCtrl u = LastCtrl s" "if EFI_ERROR st then EFI_ERROR (Result u) else Result u = Result s"
      using resend_ok [OF b, of "LastCtrl s"] by (auto elim!: okE)
    have "ended_well n u" using u(5) \<open>ended_well n s\<close> by (auto simp: ended_well_def split: if_splits)
    note q = silent_ok [OF u(2) this]
    have "kept s u" if "\<not> EFI_ERROR st"
      using u 3 \<open>LastCtrl s \<noteq> None\<close> \<open>ended_well n u\<close>
      by (auto simp: kept_def running_def phase_def touch_fields armed_def)
    then show ?thesis using D 3 u(1) q by (auto simp: EftpWrqRcvAck_def intro: kept_armed)
  next
    case 4
    then show ?thesis using D kept_refl [OF r] by (simp add: EftpWrqRcvAck_def)
  qed
qed

lemma rcv_error_ok:
  assumes r: "running n s"
  shows "ok (EftpWrqRcvError s) (\<lambda>(st, t). kept s t)"
proof -
  have "base n (s\<lparr>Result := EFI_TFTP_ERROR\<rparr>)" "ended_well n (s\<lparr>Result := EFI_TFTP_ERROR\<rparr>)"
    using r by (simp_all add: running_def ended_well_def)
  note q = kept_armed [OF silent_ok(1,2) [OF this]]
  show ?thesis
    using r q kept_refl [OF r]
    by (auto simp: EftpWrqRcvError_def running_def phase_def split: EFTP_STATE.splits)
qed

lemma rcv_oack_ok:
  assumes r: "running n s" and P: "plain_oack pk"
  shows "ok (EftpWrqRcvOack env pk (unat (NTOHS (HdrLength pk))) s) (\<lambda>(st, t). kept s t)"
proof (cases "State s = EFTP_WRQ_SENT")
  case True
  have b: "base n s" using r by (simp add: running_def)
  have o: "Opt s = EftpInitOption" using r True by (simp add: running_def phase_def trying_def)
  obtain st opt where e: "EftpExtractOptions (AllocPool env (now s)) (Opt s) pk (unat (NTOHS (HdrLength pk))) = Some (st, opt)"
    "EFI_ERROR st \<or> opt = EftpInitOption"
    using spec [OF P [unfolded plain_oack_def], of "AllocPool env (now s)"] o that
    by (cases "EftpExtractOptions (AllocPool env (now s)) EftpInitOption pk (unat (NTOHS (HdrLength pk)))") auto
  define t where "t = (tick s)\<lparr>Opt := opt\<rparr>"
  have t: "base n t" "State t = EFTP_WRQ_SENT" "armed t = armed s" using b True by (simp_all add: t_def) (simp_all add: tick_def armed_def)
  have ot: "Opt t = opt" by (simp add: t_def)
  show ?thesis
  proof (cases "EFI_ERROR st")
    case err: True
    obtain st' u where u: "EftpSendError env EFI_EFTP_ERRORCODE_ILLEGAL_OPERATION (ascii ''Mal-formed OACK packet'') t = Some (st', u)"
      "base n u" "State u = EFTP_WRQ_SENT" "if EFI_ERROR st' then EFI_ERROR (Result u) else LastCtrl u \<noteq> None"
      using error_sent [OF t(1), of "''Mal-formed OACK packet''" EFI_EFTP_ERRORCODE_ILLEGAL_OPERATION] t(2) by (auto elim!: okE split: if_splits)
    have "base n (u\<lparr>Result := EFI_DEVICE_ERROR\<rparr>)" "ended_well n (u\<lparr>Result := EFI_DEVICE_ERROR\<rparr>)"
      using u(2) by (simp_all add: ended_well_def)
    note l = loud_ok [OF this]
    have "kept s (WRQ_SILENT_SHUTDOWN u)" if "EFI_ERROR st'"
    proof -
      have "ended_well n u" using u(4) that by (simp add: ended_well_def)
      from kept_armed [OF silent_ok(1,2) [OF u(2) this]] show ?thesis .
    qed
    then show ?thesis
      using True e(1) err u l
      by (auto simp: EftpWrqRcvOack_def Let_def simp flip: t_def elim!: ok_mono intro: kept_armed)
  next
    case False
    then have o': "opt = EftpInitOption" using e(2) by simp
    let ?ack = "\<lparr>HdrLength = 0, CheckSum = 0, OpCode = HTONS EFI_EFTP_OPCODE_ACK, CodeVar = 0, Payload = []\<rparr>"
    let ?t = "t\<lparr>Timeout := OptTimeout opt, State := EFTP_WRQ_ESTABLISHED\<rparr>"
    have "trying s" "upto_here 0 s" using r True by (auto simp: running_def phase_def)
    moreover have "base 0 t" using t(1) r True by (simp add: running_def phase_def)
    ultimately have "trying ?t" "upto_here 0 ?t" "base 0 ?t" "NextBlkNo ?t = 1"
      using o' by (simp_all add: trying_def upto_here_def t_def) (simp_all add: tick_def)
    then have "ok (wrq_next_block env 0 ?t) (\<lambda>(st, u). kept ?t u)"
      by (intro next_block_ok [of 0]) simp_all
    then have "ok (EftpWrqRcvAck env ?ack ?t) (\<lambda>(st, u). kept ?t u)" by (simp add: EftpWrqRcvAck_def)
    moreover have "armed ?t = armed s" using t(3) by (simp add: armed_def)
    ultimately show ?thesis
      using True e(1) False
      by (auto simp: EftpWrqRcvOack_def Let_def kept_def ot simp flip: t_def elim!: ok_mono)
  qed
next
  case False
  then show ?thesis
    using r kept_refl [OF r]
    by (auto simp: EftpWrqRcvOack_def running_def phase_def split: EFTP_STATE.splits)
qed

section \<open>The receive callback\<close>

lemma running_upd [simp]:
  "running n (s\<lparr>Receiving := e\<rparr>) = running n s" "running n (s\<lparr>Recycled := i\<rparr>) = running n s"
  "running n (s\<lparr>TimeoutEvent := Some v\<rparr>) = running n (s\<lparr>TimeoutEvent := Some w\<rparr>)"
  by (cases "State s"; simp add: running_def phase_def ended_well_def trying_def upto_here_def last_data_def base_def)+

lemma running_tick [simp]: "running n (tick s) = running n s"
proof -
  have "phase n (tick s) = phase n s"
    by (cases "State s") (simp_all add: tick_def phase_def ended_well_def trying_def upto_here_def last_data_def)
  then show ?thesis by (simp add: running_def)
qed

lemma armed_upd [simp]:
  "armed (s\<lparr>Receiving := e\<rparr>) = armed s" "armed (s\<lparr>Recycled := i\<rparr>) = armed s"
  "armed (s\<lparr>Result := r\<rparr>) = armed s" "armed (s\<lparr>NRetry := u\<rparr>) = armed s" "armed (tick s) = armed s"
  by (simp_all add: armed_def tick_def)

lemma kept_fresh_retry: "kept s t \<Longrightarrow> kept s (t\<lparr>NRetry := 0\<rparr>)"
proof -
  have "running n (t\<lparr>NRetry := 0\<rparr>)" if "running n t" for n
    using that by (cases "State t") (auto simp: running_def phase_def ended_well_def trying_def upto_here_def last_data_def)
  then show "kept s t \<Longrightarrow> kept s (t\<lparr>NRetry := 0\<rparr>)" by (auto simp: kept_def)
qed

lemma kept_error:
  assumes "running n t" and "armed s \<longrightarrow> armed t" and "State t = EFTP_TIME_WAIT" and "EFI_ERROR st"
  shows "kept s (t\<lparr>Result := st\<rparr>)"
proof -
  have "running n (t\<lparr>Result := st\<rparr>)" using assms by (simp add: running_def phase_def ended_well_def)
  then show ?thesis using assms(2) by (auto simp: kept_def)
qed

lemma wrq_check_ok:
  assumes r: "running n s"
  shows "ok (wrq_check env pk s) (\<lambda>x. case x of Inl (st, t) \<Rightarrow> kept s t
    | Inr t \<Rightarrow> running n t \<and> (armed s \<longrightarrow> armed t))"
proof -
  obtain st t where t: "check_packet env pk s = (st, t)" by (cases "check_packet env pk s")
  have "t = s \<or> t = tick s" using check_packet_cases [OF t] by auto
  then have rt: "running n t" "armed s \<longrightarrow> armed t" using r by auto
  let ?t = "t\<lparr>Result := EFI_ABORTED\<rparr>"
  have b: "base n ?t" "ended_well n ?t" "EFI_ERROR (Result ?t)"
    using rt(1) by (simp_all add: running_def ended_well_def)
  have kt: "State t = EFTP_TIME_WAIT \<Longrightarrow> kept s ?t"
    using kept_error [OF rt(1,2)] by simp
  have "State ?t \<noteq> EFTP_TIME_WAIT \<Longrightarrow>
      ok (wrq_send_err env EFI_EFTP_ERRORCODE_NOT_DEFINED (ascii ''User caceled download'') ?t) (\<lambda>(st, u). kept s u)"
    by (rule ok_mono [OF send_err_ok [OF b(1,3)]]) (auto intro: kept_armed)
  then show ?thesis
    using t r rt silent_ok [OF b(1,2)] kt
    by (auto simp: wrq_check_def Let_def elim!: ok_mono intro: kept_armed)
qed

lemma wrq_switch_ok:
  assumes C: "can u (Rx stt len (Some pk))" and r: "running n s"
  shows "ok (wrq_switch env pk s) (\<lambda>(st, t). kept s t)"
proof -
  let ?C = "NTOHS (OpCode pk)"
  have op: "OpCode pk = NTOHS ?C" by simp
  consider (ack) "?C = EFI_EFTP_OPCODE_ACK" | (error) "?C = EFI_EFTP_OPCODE_ERROR" | (oack) "?C = EFI_EFTP_OPCODE_OACK"
    | (other) "?C \<noteq> EFI_EFTP_OPCODE_ACK" "?C \<noteq> EFI_EFTP_OPCODE_ERROR" "?C \<noteq> EFI_EFTP_OPCODE_OACK" by blast
  then show ?thesis
  proof cases
    case ack
    then have "OpCode pk = HTONS EFI_EFTP_OPCODE_ACK" using op by simp
    from rcv_ack_ok [OF r this] show ?thesis
      using ack kept_refl [OF r] by (auto simp: wrq_switch_def kept_fresh_retry elim!: ok_mono)
  next
    case error
    then have "?C \<noteq> EFI_EFTP_OPCODE_ACK" by (simp add: EFI_EFTP_OPCODE_ERROR_def EFI_EFTP_OPCODE_ACK_def)
    then show ?thesis using error rcv_error_ok [OF r] kept_refl [OF r] by (auto simp: wrq_switch_def)
  next
    case oack
    then have ne: "?C \<noteq> EFI_EFTP_OPCODE_ACK" "?C \<noteq> EFI_EFTP_OPCODE_ERROR"
      by (simp_all add: EFI_EFTP_OPCODE_OACK_def EFI_EFTP_OPCODE_ERROR_def EFI_EFTP_OPCODE_ACK_def)
    have "plain_oack pk" using can_oack [OF C] op oack by simp
    then show ?thesis using rcv_oack_ok [OF r] oack ne kept_refl [OF r] by (auto simp: wrq_switch_def Let_def)
  next
    case other
    then show ?thesis using kept_refl [OF r] by (simp add: wrq_switch_def)
  qed
qed

lemma wrq_rx_end_ok:
  assumes "running n s"
  shows "kept s (wrq_rx_end env b st s)"
proof -
  define t where "t = (if b then s\<lparr>Recycled := Recycled s + 1\<rparr> else s)"
  have t: "running n t" "armed t = armed s" using assms by (simp_all add: t_def)
  obtain st' v where v: "EftpStartRcv env t = (st', v)" by (cases "EftpStartRcv env t")
  have e: "wrq_rx_end env b st s = (if EFI_ERROR st then t else if EFI_ERROR st' then WRQ_SILENT_SHUTDOWN v else v)"
    by (simp add: wrq_rx_end_def v flip: t_def)
  show ?thesis
  proof (cases "EFI_ERROR st'")
    case True
    then have "v = (tick t)\<lparr>Result := EFI_DEVICE_ERROR\<rparr>" using EftpStartRcv_ok [OF v] by simp
    then have "base n v" "ended_well n v" using t(1) by (simp_all add: running_def ended_well_def)
    from silent_ok [OF this] show ?thesis using t e True by (auto simp: kept_def)
  next
    case False
    then have "v = (tick t)\<lparr>Receiving := True\<rparr>" using EftpStartRcv_ok [OF v] by simp
    then show ?thesis using t e False by (auto simp: kept_def)
  qed
qed

lemma EftpWrqRxCallback_ok:
  assumes C: "can u (Rx st len pk)" and r: "running n s"
  shows "ok (EftpWrqRxCallback env st len pk s) (kept s)"
proof (cases "EFI_ERROR st")
  case True
  let ?v = "if State s \<noteq> EFTP_TIME_WAIT \<and> State s \<noteq> EFTP_WRQ_CLOSEING
    then s\<lparr>Result := (if st = EFI_DEVICE_ERROR then EFI_DEVICE_ERROR else EFI_ICMP_ERROR)\<rparr> else s"
  have "base n ?v" "ended_well n ?v"
    using r by (auto simp: running_def phase_def ended_well_def split: EFTP_STATE.splits)
  note q = silent_ok [OF this]
  have "kept s (wrq_rx_end env False EFI_DEVICE_ERROR (WRQ_SILENT_SHUTDOWN ?v))"
    using wrq_rx_end_ok [OF q(1)] q(2) by (auto simp: kept_def)
  moreover have "State s \<noteq> EFTP_INIT" using r by (auto simp: running_def phase_def)
  ultimately show ?thesis
    using True wrq_rx_end_ok [OF r] by (simp add: EftpWrqRxCallback_def)
next
  case False
  have ni: "State s \<noteq> EFTP_INIT" using r by (auto simp: running_def phase_def)
  show ?thesis
  proof (cases pk)
    case None
    then show ?thesis using False ni wrq_rx_end_ok [OF r] by (simp add: EftpWrqRxCallback_def)
  next
    case (Some p)
    have sw: "ok (wrq_switch env p t) (\<lambda>(st, x). kept s (wrq_rx_end env True st x))"
      if "running m t" "armed s \<longrightarrow> armed t" for t m
      using that wrq_switch_ok [OF C [unfolded Some], of m t] wrq_rx_end_ok
      by (auto simp: kept_def elim!: ok_mono)
    have "ok (wrq_check env p s) (\<lambda>x. ok (case x of Inl y \<Rightarrow> Some y | Inr t \<Rightarrow> wrq_switch env p t)
        (\<lambda>(st, x). kept s (wrq_rx_end env True st x)))"
      using sw wrq_rx_end_ok
      by (intro ok_mono [OF wrq_check_ok [OF r]]) (auto simp: kept_def split: sum.splits)
    then show ?thesis
      using False ni Some wrq_rx_end_ok [OF r] by (auto simp: EftpWrqRxCallback_def case_prod_beta elim!: ok_mono)
  qed
qed

section \<open>Cleaning up\<close>

lemma EftpWrqCleanUp_ok:
  assumes b: "base n s" and e: "ended_well n s"
  shows "ok (EftpWrqCleanUp s) (finished n)"
proof -
  obtain l where l: "WrqState s = Some l" using b by (auto simp: base_def)
  have m: "mem (wrq_out req tok) s {#}" using b by (simp add: base_def)
  obtain p where p: "release_field_Request s = Some (s\<lparr>Pkts := p, Request := None\<rparr>)"
    "mem (wrq_out req tok) (s\<lparr>Pkts := p, Request := None\<rparr>) {#}"
    using release_field_Request_ok [OF m] by (auto elim!: okE)
  obtain q where q: "release_field_LastCtrl (s\<lparr>Pkts := p, Request := None\<rparr>) =
      Some (s\<lparr>Request := None, Pkts := q, LastCtrl := None\<rparr>)"
    "mem (wrq_out req tok) (s\<lparr>Request := None, Pkts := q, LastCtrl := None\<rparr>) {#}"
    using release_field_LastCtrl_ok [OF p(2)] by (auto elim!: okE)
  let ?s = "s\<lparr>Request := None, Pkts := q, LastCtrl := None\<rparr>"
  let ?R = "refs (?s\<lparr>WrqState := None\<rparr>)"
  have r: "refs ?s = opt_ref l + ?R" "refs (?s\<lparr>Pkts := x, WrqState := None\<rparr>) = ?R" for x
    using l by (simp_all add: refs_def last_data_def)
  have "held (Pkts ?s) (opt_ref l + ?R)" using mem_held [OF q(2)] r(1) by simp
  from release_opt_ok [OF this] obtain x where x: "release_opt l ?s = Some (?s\<lparr>Pkts := x\<rparr>)"
    "held x ?R" "keeps ?R (Pkts ?s) x" by (auto elim!: okE)
  let ?t = "?s\<lparr>Pkts := x, WrqState := None\<rparr>"
  have mt: "mem (wrq_out req tok) ?t {#}"
    by (rule mem_less [OF q(2)]) (use q(2) x r in \<open>simp_all add: mem_def\<close>)
  have "InFlight s = PendingPacketList s" using q(2) by (simp add: mem_def)
  then have "ok (finish_session ?t) (finished n)"
    using mt b e
    by (simp add: finish_session_def finished_def ended_well_def base_def refs_def last_data_def Let_def)
  then show ?thesis using l p(1) q(1) x(1) by (simp add: EftpWrqCleanUp_def)
qed

lemma finished_left [simp]: "finished n s \<Longrightarrow> wrq_left s = 0"
  by (simp add: finished_def wrq_left_def)

lemma EftpWrqTxCallback_ok:
  assumes r: "running n s" and b: "b \<in> set (InFlight s)"
  shows "ok (EftpWrqTxCallback b (s\<lparr>InFlight := remove1 b (InFlight s)\<rparr>)) (\<lambda>t.
    running n t \<and> (armed s \<longrightarrow> armed t) \<and> wrq_left t = wrq_left s \<or> finished n t)"
proof -
  have m: "mem (wrq_out req tok) s {#}" using r by (simp add: running_def base_def)
  let ?s = "s\<lparr>InFlight := remove1 b (InFlight s)\<rparr>"
  obtain p where p: "recycle b ?s = Some (?s\<lparr>NPendingPacket := NPendingPacket s - 1,
      PendingPacketList := remove1 b (PendingPacketList s), Pkts := p\<rparr>)"
    "mem (wrq_out req tok) (?s\<lparr>NPendingPacket := NPendingPacket s - 1,
      PendingPacketList := remove1 b (PendingPacketList s), Pkts := p\<rparr>) {#}"
    using recycle_ok [OF m b] by (auto elim!: okE)
  define t where "t = ?s\<lparr>NPendingPacket := NPendingPacket s - 1,
      PendingPacketList := remove1 b (PendingPacketList s), Pkts := p\<rparr>"
  have rb: "recycle b ?s = Some t" using p(1) by (simp add: t_def)
  have bt: "base n t" using r p(2) by (simp add: running_def base_def t_def)
  have ph: "phase n t"
    using r by (cases "State s") (auto simp: running_def phase_def ended_well_def trying_def upto_here_def last_data_def t_def)
  have f: "State t = State s" "armed t = armed s" by (simp_all add: t_def armed_def)
  have l: "wrq_left t = wrq_left s" by (rule wrq_left_cong) (simp_all add: t_def)
  have rt: "running n t" using bt ph by (simp add: running_def)
  have c: "State s = EFTP_TIME_WAIT \<Longrightarrow> ok (EftpWrqCleanUp t) (finished n)"
    using EftpWrqCleanUp_ok [OF bt] ph f(1) by (simp add: phase_def)
  have "phase n s" using r by (simp add: running_def)
  then show ?thesis
    using rb rt f l c
    by (cases "State s") (auto simp: EftpWrqTxCallback_def phase_def elim!: ok_mono)
qed

section \<open>The timer\<close>

definition timed :: "nat \<Rightarrow> EFTP_IO_PRIVATE \<Rightarrow> EFTP_IO_PRIVATE \<Rightarrow> bool" where
  "timed n s t \<longleftrightarrow> running n t \<and> armed t \<and> wrq_left t < wrq_left s \<or> finished n t"

lemma timed_finished: "finished n t \<Longrightarrow> timed n s t"
  by (simp add: timed_def)

lemma timed_silent:
  assumes "base n t" and "ended_well n t" and "State s \<noteq> EFTP_TIME_WAIT" and "running n s"
  shows "timed n s (WRQ_SILENT_SHUTDOWN t)"
proof -
  have "1 < wrq_left s"
    using assms(3,4) by (cases "State s") (simp_all add: running_def phase_def wrq_left_def)
  then show ?thesis using silent_ok [OF assms(1,2)] by (simp add: timed_def wrq_left_def)
qed

lemma retry_ok:
  assumes r: "running n s" and st: "State s = EFTP_WRQ_SENT \<or> State s = EFTP_WRQ_ESTABLISHED"
    and c: "c = Request s \<or> c = LastCtrl s \<or> c = last_data s" "c \<noteq> None"
    and g: "\<And>u. ok (give_up (s\<lparr>NRetry := u, Result := EFI_TIMEOUT\<rparr>)) (timed n s)"
  shows "ok (wrq_retry env c give_up s) (timed n s)"
proof (cases "NRetry s + 1 > MaxNRetry s")
  case True
  then show ?thesis using g by (simp add: wrq_retry_def Let_def)
next
  case False
  let ?s = "s\<lparr>NRetry := NRetry s + 1\<rparr>"
  have b: "base n ?s" using r by (simp add: running_def)
  have mx: "unat (MaxNRetry s) \<le> 65535" using r by (simp add: running_def base_def)
  have nr: "unat (NRetry s) \<le> unat (MaxNRetry s)" using r st by (auto simp: running_def phase_def trying_def)
  then have N': "unat (NRetry s + 1) = Suc (unat (NRetry s))" "Suc (unat (NRetry s)) \<le> unat (MaxNRetry s)"
    using False mx unat_Suc_u64 [of "NRetry s"] by (simp_all add: word_less_nat_alt)
  have "c = Request ?s \<or> c = LastCtrl ?s \<or> c = last_data ?s" using c(1) by (simp add: last_data_def)
  then obtain st' u where u: "resend_last env c ?s = Some (st', u)" "base n u" "touch ?s u" "LastCtrl u = LastCtrl s"
    "if EFI_ERROR st' then EFI_ERROR (Result u) else Result u = Result s"
    using resend_ok [OF b, of c] c(2) by (auto elim!: okE)
  show ?thesis
  proof (cases "EFI_ERROR st'")
    case True
    then have "ended_well n u" using u(5) by (simp add: ended_well_def)
    then have "timed n s (WRQ_SILENT_SHUTDOWN u)" using st by (intro timed_silent [OF u(2) _ _ r]) auto
    then show ?thesis using True u(1) False by (simp add: wrq_retry_def)
  next
    case good: False
    have f: "State u = State s" "NextBlkNo u = NextBlkNo s" "Opt u = Opt s" "Eof u = Eof s" "WrqState u = WrqState s"
      "NRetry u = NRetry s + 1" "MaxNRetry u = MaxNRetry s"
      using touch_fields [OF u(3)] by simp_all
    have e: "Result u = Result s" using u(5) good by simp
    let ?u = "EftpSetTimer (ucast (Timeout u)) 0 u"
    have "base n ?u" "armed ?u" using base_EftpSetTimer [OF u(2)] by simp_all
    moreover have "phase n s" using r by (simp add: running_def)
    then have "phase n ?u"
      using st N' by (elim disjE) (auto simp: phase_def f e trying_def upto_here_def last_data_def)
    moreover have "wrq_left ?u < wrq_left s" using st N' by (elim disjE) (simp_all add: wrq_left_def f)
    ultimately show ?thesis using good u(1) False by (simp add: timed_def running_def wrq_retry_def)
  qed
qed

lemma wrq_state_timer_ok:
  assumes r: "running n s"
  shows "ok (wrq_state_timer env s) (timed n s)"
proof -
  have b: "base n s" using r by (simp add: running_def)
  have to: "base n (s\<lparr>NRetry := u, Result := EFI_TIMEOUT\<rparr>)" "ended_well n (s\<lparr>NRetry := u, Result := EFI_TIMEOUT\<rparr>)" for u
    using b by (simp_all add: ended_well_def)
  consider "State s = EFTP_WRQ_SENT" | "State s = EFTP_WRQ_ESTABLISHED" | "State s = EFTP_WRQ_CLOSEING"
    | "State s = EFTP_TIME_WAIT" using r by (auto simp: running_def phase_def split: EFTP_STATE.splits)
  then show ?thesis
  proof cases
    case 1
    have "Request s \<noteq> None" using b by (simp add: base_def)
    then have "ok (wrq_retry env (Request s) (Some \<circ> WRQ_SILENT_SHUTDOWN) s) (timed n s)"
      using 1 timed_silent [OF to _ r] by (intro retry_ok [OF r]) auto
    then show ?thesis using 1 by (simp add: wrq_state_timer_def)
  next
    case 2
    obtain l where l: "WrqState s = Some l" using b by (auto simp: base_def)
    then have ld: "l = last_data s" "l \<noteq> None" using r 2 by (simp_all add: last_data_def running_def phase_def)
    have "ok (wrq_send_err env EFI_EFTP_ERRORCODE_NOT_DEFINED (ascii ''Too many timeouts'')
        (s\<lparr>NRetry := u, Result := EFI_TIMEOUT\<rparr>)) (\<lambda>x. timed n s (snd x))" for u
      using 2 by (intro ok_mono [OF send_err_ok [OF to(1)]]) (auto simp: timed_def wrq_left_def)
    then have "ok (wrq_retry env l (\<lambda>s. do {
            (_, s) \<leftarrow> wrq_send_err env EFI_EFTP_ERRORCODE_NOT_DEFINED (ascii ''Too many timeouts'') s;
            Some s }) s) (timed n s)"
      using 2 ld by (intro retry_ok [OF r]) (auto simp: case_prod_beta elim!: ok_mono)
    then show ?thesis using 2 l by (simp add: wrq_state_timer_def)
  next
    case 3
    then show ?thesis
      using r timed_silent [OF b _ _ r] by (simp add: wrq_state_timer_def running_def phase_def)
  next
    case 4
    then have "ended_well n s" using r by (simp add: running_def phase_def)
    from EftpWrqCleanUp_ok [OF b this] show ?thesis
      using 4 by (auto simp: wrq_state_timer_def timed_finished elim!: ok_mono)
  qed
qed

lemma EftpWrqTimer_ok:
  assumes r: "running n s"
  shows "ok (EftpWrqTimer env s) (timed n s)"
proof -
  have lt: "wrq_left (tick s) = wrq_left s" by (rule wrq_left_cong) (simp_all add: tick_def)
  have same: "timed n (tick s) t = timed n s t" for t using lt by (simp add: timed_def)
  have st: "State (tick s) = State s" by (simp add: tick_def)
  have "base n ((tick s)\<lparr>Result := EFI_ABORTED\<rparr>)" "ended_well n ((tick s)\<lparr>Result := EFI_ABORTED\<rparr>)"
    using r by (simp_all add: running_def ended_well_def)
  note q = timed_silent [OF this _ r]
  show ?thesis
    using wrq_state_timer_ok [OF r] wrq_state_timer_ok [of n "tick s"] r q same st
    by (auto simp: EftpWrqTimer_def Let_def split: option.split elim!: ok_mono)
qed

section \<open>The session\<close>

definition live :: "EFTP_IO_PRIVATE \<Rightarrow> bool" where
  "live s \<longleftrightarrow> (\<exists>n. running n s \<and> armed s)"

definition over :: "EFTP_IO_PRIVATE \<Rightarrow> bool" where
  "over s \<longleftrightarrow> (\<exists>n. finished n s)"

lemma rx_live:
  assumes "live s" and "can s (Rx st len pk)"
  shows "ok (wrq_step env (Rx st len pk) s) live"
proof -
  obtain n where n: "running n s" "armed s" using assms(1) by (auto simp: live_def)
  have "ok (EftpWrqRxCallback env st len pk (s\<lparr>Receiving := False\<rparr>)) (kept (s\<lparr>Receiving := False\<rparr>))"
    using n(1) by (intro EftpWrqRxCallback_ok [OF assms(2), where n = n]) simp
  then show ?thesis using n(2) by (auto simp: kept_def live_def elim!: ok_mono)
qed

lemma tx_live:
  assumes "live s" and "can s (Tx b)"
  shows "ok (wrq_step env (Tx b) s) (\<lambda>t. (live t \<or> over t) \<and> wrq_left t \<le> wrq_left s)"
proof -
  obtain n where n: "running n s" "armed s" using assms(1) by (auto simp: live_def)
  have "b \<in> set (InFlight s)" using can_enabled [OF assms(2)] by simp
  from EftpWrqTxCallback_ok [OF n(1) this] show ?thesis
    using n(2) by (auto simp: live_def over_def elim!: ok_mono)
qed

lemma running_timer: "running n s \<Longrightarrow> running n (s\<lparr>TimeoutEvent := Some t\<rparr>)"
  by (cases "State s") (auto simp: running_def phase_def ended_well_def trying_def upto_here_def last_data_def base_timer)

lemma timer_live:
  assumes "live s"
  shows "ok (wrq_step env Timer s) (\<lambda>t. (live t \<or> over t) \<and> wrq_left t < wrq_left s)"
proof -
  obtain n where n: "running n s" using assms by (auto simp: live_def)
  let ?s = "s\<lparr>TimeoutEvent := Some None\<rparr>"
  have l: "wrq_left ?s = wrq_left s" by (rule wrq_left_cong) simp_all
  have "0 < wrq_left s" using n by (cases "State s") (simp_all add: running_def phase_def wrq_left_def)
  moreover have "ok (EftpWrqTimer env ?s) (timed n ?s)" by (rule EftpWrqTimer_ok [OF running_timer [OF n]])
  ultimately show ?thesis using l by (auto simp: timed_def live_def over_def elim!: ok_mono)
qed

lemma step_live:
  assumes "live s" and "can s e"
  shows "ok (wrq_step env e s) (\<lambda>t. live t \<or> over t)"
proof (cases e)
  case (Rx st len pk)
  show ?thesis unfolding Rx by (rule ok_mono [OF rx_live]) (use assms Rx in simp_all)
next
  case (Tx b)
  show ?thesis unfolding Tx by (rule ok_mono [OF tx_live]) (use assms Tx in simp_all)
next
  case Timer
  show ?thesis unfolding Timer by (rule ok_mono [OF timer_live]) (use assms in simp_all)
qed

lemma live_State: "live s \<Longrightarrow> State s \<noteq> EFTP_INIT"
  by (auto simp: live_def running_def phase_def)

sublocale session: timed_session "wrq_step env" can live over wrq_left
proof
  fix s t assume "live s" "wrq_step env Timer s = Some t"
  then show "wrq_left t < wrq_left s" using timer_live [of s] by (simp only: ok_Some)
next
  fix s b t assume "live s" "can s (Tx b)" "wrq_step env (Tx b) s = Some t"
  then show "wrq_left t \<le> wrq_left s" using tx_live [of s b] by (simp only: ok_Some)
qed (use step_live live_State can_timer in \<open>auto simp: live_def over_def finished_def\<close>)

lemma live_facts:
  assumes "live t \<or> over t"
  shows "\<exists>n. (\<forall>pk\<in>set (Wire t). wrq_out req tok pk) \<and> all_sent tok n (Wire t) \<and>
    held (Pkts t) (refs t) \<and> InFlight t = PendingPacketList t \<and> distinct (InFlight t) \<and>
    wrq_left t \<le> 3 + unat (MaxNRetry t) \<and>
    (if State t = EFTP_INIT
     then refs t = mset (InFlight t) \<and> Token t = tok\<lparr>TokenStatus := Result t\<rparr> \<and> TimeoutEvent t = None \<and>
       Signals t = sig + (if TokenEvent tok then 1 else 0) \<and> (\<not> EFI_ERROR (Result t) \<longrightarrow> past_end tok n)
     else armed t \<and> Signals t = sig)"
  using assms
proof
  assume "live t"
  then obtain n where n: "running n t" "armed t" by (auto simp: live_def)
  moreover have "wrq_left t \<le> 3 + unat (MaxNRetry t)"
    by (cases "State t") (simp_all add: wrq_left_def)
  ultimately show ?thesis
    using live_State [OF \<open>live t\<close>] by (intro exI [of _ n]) (simp add: running_def base_def mem_def)
next
  assume "over t"
  then obtain n where "finished n t" by (auto simp: over_def)
  then show ?thesis
    by (intro exI [of _ n]) (auto simp: finished_def mem_def ended_well_def wrq_left_def)
qed

lemmas session_facts = live_facts [OF session.history_invariant]

section \<open>The start\<close>

lemma start_ok:
  assumes i: "idle s" and bad: "bad_token env EFI_EFTP_OPCODE_WRQ Stk (Some tok) s = Some None"
    and x: "token_text tok = Some x" "length x < 60000"
    and req: "req = sealed (8 + length x) EFI_EFTP_OPCODE_WRQ 0 x"
    and d: "fair env tok" and sig: "Signals s = sig"
  shows "ok (EftpWriteFile env Stk (Some tok) s) (\<lambda>(st, t).
    if State t = EFTP_INIT then not_started st t
    else running 0 t \<and> armed t \<and> Wire t = [req] \<and> State t = EFTP_WRQ_SENT \<and>
      MaxNRetry t = MaxNRetry (reset_session tok s) \<and> NRetry t = 0)"
proof -
  define v where "v = tick (tick (reset_session tok s))"
  have mv: "mem (wrq_out req tok) v {#}" unfolding v_def by (rule mem_start [OF i])
  have v: "Request v = None" "Token v = tok" "LastCtrl v = None" "WrqState v = None"
    "Result v = EFI_SUCCESS" "Wire v = []"
    using i by (simp_all add: v_def tick_def idle_def)
  have W: "wrq_out req tok (sealed (8 + length x) EFI_EFTP_OPCODE_WRQ 0 x)" by (simp add: req wrq_out_def)
  obtain st t where t: "EftpInitWriteHandler env v = Some (st, t)"
    "mem (wrq_out req tok) t {#}" "LastCtrl t = None" "last_data t = None"
    "\<not> EFI_ERROR st \<longrightarrow> (\<exists>b. Result t = EFI_SUCCESS \<and> Wire t = [req] \<and>
       touch (v\<lparr>WrqState := Some None, RxEvent := True, TimeoutEvent := Some None, State := EFTP_WRQ_SENT,
         Request := Some b\<rparr>) t)"
    using EftpInitWriteHandler_ok [OF mv v(1,4) network, of x] x W v
    by (auto simp: req elim!: okE)
  show ?thesis
    unfolding EftpWriteFile_def
  proof (rule EftpInitPrivate_ok [OF i bad _ _ t(2,3,4)])
    assume good: "\<not> EFI_ERROR st"
    let ?w = "EftpSetTimer (ucast (Timeout t)) 0 ((tick t)\<lparr>Receiving := True\<rparr>)"
    obtain b where to: "Result t = EFI_SUCCESS" "Wire t = [req]"
       "touch (v\<lparr>WrqState := Some None, RxEvent := True, TimeoutEvent := Some None, State := EFTP_WRQ_SENT,
         Request := Some b\<rparr>) t" using t(5) good by blast
    note f = touch_fields [OF to(3)]
    have "base 0 t"
      using t(2) f d sig MaxNRetry_reset [of tok s]
      by (simp add: base_def v_def) (simp add: tick_def)
    then have "base 0 ((tick t)\<lparr>Receiving := True\<rparr>)" "phase 0 t"
      using f to
      by (simp_all add: phase_def trying_def upto_here_def within_def v_def split: option.split) (simp_all add: tick_def)
    moreover have "phase 0 ?w"
      using \<open>phase 0 t\<close> f(8)
      by (simp add: phase_def trying_def upto_here_def) (simp add: tick_def trying_def upto_here_def)
    ultimately have "running 0 ?w" "armed ?w"
      using base_EftpSetTimer [of 0 "(tick t)\<lparr>Receiving := True\<rparr>"] by (simp_all add: running_def)
    moreover have "Wire ?w = [req]" "State ?w = EFTP_WRQ_SENT" using to(2) f(8) by (simp_all add: tick_fields)
    moreover have "MaxNRetry ?w = MaxNRetry (reset_session tok s)" "NRetry ?w = 0"
      using f(6,10) by (simp_all add: v_def) (simp_all add: tick_def)
    ultimately show "running 0 ?w \<and> armed ?w \<and> Wire ?w = [req] \<and> State ?w = EFTP_WRQ_SENT \<and>
      MaxNRetry ?w = MaxNRetry (reset_session tok s) \<and> NRetry ?w = 0" by blast
  qed (use t(1) in \<open>simp_all add: v_def EFI_EFTP_OPCODE_RRQ_def EFI_EFTP_OPCODE_WRQ_def\<close>)
qed

end

end
