(* ===== verification/Eftp_Put.thy ===== *)
theory Eftp_Put
  imports Eftp_Upload Eftp_Example
begin

text \<open>
  Uploads: the client interpreted for a peer that may send anything it can have been asked for, and
  what a whole session leaves on the wire.
\<close>

section \<open>The interpretation\<close>

text \<open>An option acknowledgement that the client accepts leaves the options as they are, as the request named
  none. One that names an option the client does not know is excluded: \<open>EftpExtractOptions\<close> would read
  behind its table.\<close>

definition any_sink :: "EFTP_IO_PRIVATE \<Rightarrow> event \<Rightarrow> bool" where
  "any_sink s e \<longleftrightarrow> enabled s e \<and> (case e of
     Rx _ _ (Some pk) \<Rightarrow> OpCode pk = HTONS EFI_EFTP_OPCODE_OACK \<longrightarrow> plain_oack pk
   | _ \<Rightarrow> True)"

definition write_request :: "u8 list \<Rightarrow> EFI_EFTP_PACKET" where
  "write_request x = sealed (8 + length x) EFI_EFTP_OPCODE_WRQ 0 x"

interpretation upload: wrq_client "tame env" any_sink "write_request x" sig tok
  for env x sig tok
  by unfold_locales (auto simp: tame_ok any_sink_def simp del: enabled.simps)

lemma plain_oack_empty:
  assumes "OpCode pk = HTONS EFI_EFTP_OPCODE_OACK" and "unat (NTOHS (HdrLength pk)) = 8"
  shows "plain_oack pk"
proof -
  have "options_start pk 0 = Some (Some 0)"
    using assms(1) by (simp add: options_start_def EFI_EFTP_OPCODE_OACK_def EFI_EFTP_OPCODE_RRQ_def EFI_EFTP_OPCODE_WRQ_def)
  moreover have "option_pairs (Payload pk) 0 0 = Some (EFI_SUCCESS, [])" by (subst option_pairs.simps) simp
  ultimately show ?thesis
    using assms(2) by (simp add: plain_oack_def EftpExtractOptions_def EftpGetOptions_def EFTP_HEADER_LEN_def)
qed

section \<open>The blocks of the file\<close>

lemma concat_blocks: "concat (map (file_block doc) [1..<Suc n]) = take (n * 1024) doc"
  by (induction n) (simp_all add: file_block_def take_add add.commute [of 1024])

lemma all_sent_file:
  assumes "all_sent tok n w" and "Buffer tok = Some buf" and "past_end tok n" and "unat (BufferSize tok) \<le> length buf"
    and "doc = take (unat (BufferSize tok)) buf"
  shows "\<forall>k\<in>{1..length doc div 1024 + 1}. data_packet k (file_block doc k) \<in> set w"
proof
  fix k assume "k \<in> {1..length doc div 1024 + 1}"
  moreover have "length doc div 1024 + 1 \<le> n"
    using assms(2-5) by (simp add: past_end_def Suc_le_eq less_mult_imp_div_less)
  ultimately have "k \<in> {1..n}" by simp
  then obtain d where "block_data tok k d" "data_packet k d \<in> set w"
    using assms(1) unfolding all_sent_def by blast
  then show "data_packet k (file_block doc k) \<in> set w"
    using assms(2,5) by (simp add: block_data_def file_block_def)
qed

section \<open>Sessions\<close>

lemma wrq_out_fields:
  assumes "wrq_out (write_request x) tok pk"
  shows "checks pk \<and> (OpCode pk = HTONS EFI_EFTP_OPCODE_WRQ \<and> Payload pk = x \<or>
    OpCode pk = HTONS EFI_EFTP_OPCODE_ERROR \<or>
    OpCode pk = HTONS EFI_EFTP_OPCODE_DATA \<and> (\<exists>k\<ge>1. CodeVar pk = HTONS (of_nat k) \<and> block_data tok k (Payload pk)))"
proof -
  have "ucast (of_nat k :: u64) = (of_nat k :: u16)" for k
    by (rule bit_word_eqI) (simp add: bit_simps)
  then show ?thesis
    using assms
    by (auto simp: wrq_out_def write_request_def data_packet_def sealed_checks EFI_EFTP_OPCODE_WRQ_def
      EFI_EFTP_OPCODE_DATA_def EFI_EFTP_OPCODE_ERROR_def)
qed

definition wrq_session :: "eftp_env \<Rightarrow> (EFTP_IO_PRIVATE \<Rightarrow> event \<Rightarrow> bool) \<Rightarrow> EFTP_OPTION \<Rightarrow> EFI_EFTP_TOKEN \<Rightarrow>
    EFTP_IO_PRIVATE \<Rightarrow> event list \<Rightarrow> EFTP_IO_PRIVATE \<Rightarrow> bool" where
  "wrq_session env can Stk tok s es t \<longleftrightarrow> idle s \<and> network_ok env \<and> fair env tok \<and>
     (case token_text tok of None \<Rightarrow> False | Some x \<Rightarrow> length x < 60000) \<and>
     (\<exists>st s1. EftpWriteFile env Stk (Some tok) s = Some (st, s1) \<and> State s1 \<noteq> EFTP_INIT \<and>
        history can (wrq_step env) s1 es t)"

lemma EftpWriteFile_bad:
  assumes "EftpWriteFile env Stk (Some tok) s = Some (st, t)" and "State t \<noteq> State s"
  shows "bad_token env EFI_EFTP_OPCODE_WRQ Stk (Some tok) s = Some None"
  using assms by (cases "bad_token env EFI_EFTP_OPCODE_WRQ Stk (Some tok) s")
    (auto simp: EftpWriteFile_def EftpInitPrivate_def split: option.splits)

lemma wrq_session_start:
  assumes "wrq_session env can Stk tok s es t"
  obtains x s1 where "tame env = env" "wrq_client.live env (write_request x) (Signals s) tok s1"
    "history can (wrq_step env) s1 es t" "fair env tok" "token_text tok = Some x"
proof -
  obtain st s1 x where a: "idle s" "network_ok env" "fair env tok" "token_text tok = Some x"
    "length x < 60000" "EftpWriteFile env Stk (Some tok) s = Some (st, s1)" "State s1 \<noteq> EFTP_INIT"
    "history can (wrq_step env) s1 es t"
    using assms by (auto simp: wrq_session_def split: option.splits)
  have e: "tame env = env" by (rule tame_same [OF a(2)])
  have "bad_token env EFI_EFTP_OPCODE_WRQ Stk (Some tok) s = Some None"
    using EftpWriteFile_bad [OF a(6)] a(1,7) by (simp add: idle_def)
  from upload.start_ok [where env = env, OF a(1) _ a(4,5) write_request_def _ refl, unfolded e, OF this a(3)] a(6,7)
  have "wrq_client.live env (write_request x) (Signals s) tok s1"
    unfolding upload.live_def [where env = env, unfolded e] by auto
  from that [OF e this a(8,3,4)] show ?thesis .
qed

section \<open>An upload, evaluated\<close>

definition put_token :: EFI_EFTP_TOKEN where
  "put_token = (ex_token ex_file)\<lparr>BufferSize := 5\<rparr>"

definition put_ack :: "u16 \<Rightarrow> event" where
  "put_ack k = Rx EFI_SUCCESS 8 (Some \<lparr>HdrLength = NTOHS 8, CheckSum = 0, OpCode = NTOHS EFI_EFTP_OPCODE_ACK,
     CodeVar = NTOHS k, Payload = []\<rparr>)"

definition put_events :: "event list" where
  "put_events = [Tx 0, put_ack 0, Tx 1, put_ack 1, Timer]"

definition put_run :: "event list \<Rightarrow> EFTP_IO_PRIVATE option" where
  "put_run es = do {
     (st, s) \<leftarrow> EftpWriteFile ex_env EftpInitOption (Some put_token) ex_idle;
     if State s \<noteq> EFTP_INIT then eftp_run any_sink (wrq_step ex_env) es s else None }"

lemma put_run_done: "case put_run put_events of
    None \<Rightarrow> False
  | Some t \<Rightarrow> State t = EFTP_INIT \<and> \<not> EFI_ERROR (TokenStatus (Token t)) \<and>
      data_packet 1 (file_block ex_file 1) \<in> set (Wire t)"
  by code_simp

lemma put_run_timer: "case put_run [Tx 0, Timer] of
    None \<Rightarrow> False
  | Some t \<Rightarrow> State t = EFTP_WRQ_SENT \<and> any_sink t Timer"
  by code_simp

lemma put_done:
  obtains t where "put_run put_events = Some t" "State t = EFTP_INIT" "\<not> EFI_ERROR (TokenStatus (Token t))"
    "data_packet 1 (file_block ex_file 1) \<in> set (Wire t)"
  using put_run_done by (auto split: option.splits)

lemma put_timer:
  obtains t where "put_run [Tx 0, Timer] = Some t" "State t \<noteq> EFTP_INIT" "any_sink t Timer"
  using put_run_timer by (auto split: option.splits)

lemma put_text: "token_text put_token = Some [102, 0, 111, 99, 116, 101, 116, 0]"
  by code_simp

lemma put_fair: "fair ex_env put_token"
  by (simp add: fair_def put_token_def ex_token_def length_ex_file)

lemma put_session:
  assumes "put_run es = Some t"
  shows "wrq_session ex_env any_sink EftpInitOption put_token ex_idle es t"
proof -
  obtain st s where "EftpWriteFile ex_env EftpInitOption (Some put_token) ex_idle = Some (st, s)"
    "State s \<noteq> EFTP_INIT" "eftp_run any_sink (wrq_step ex_env) es s = Some t"
    using assms by (auto simp: put_run_def bind_eq_Some_conv split: if_splits)
  moreover from eftp_run_history [OF this(3) history_start]
  have "history any_sink (wrq_step ex_env) s es t" by simp
  ultimately show ?thesis
    using idle_ex network_ok_ex put_text put_fair by (auto simp: wrq_session_def)
qed

section \<open>Properties\<close>



text \<open>C3: An upload that ends without an error has sent every block of the file of the user, under its
  number, and the blocks make up the file; the last one is shorter than 1024 bytes.\<close>

theorem wrq_whole_file:
  assumes "wrq_session env any_sink Stk tok s es t" and "State t = EFTP_INIT"
    and "\<not> EFI_ERROR (TokenStatus (Token t))" and "Buffer tok = Some buf"
    and "doc = take (unat (BufferSize tok)) buf" and "n = length doc div 1024 + 1"
  shows "(\<forall>k\<in>{1..n}. data_packet k (file_block doc k) \<in> set (Wire t)) \<and>
    concat (map (file_block doc) [1..<Suc n]) = doc \<and> length (file_block doc n) < 1024"
  using assms(1)
proof (rule wrq_session_start)
  fix x s1 assume a: "tame env = env" "wrq_client.live env (write_request x) (Signals s) tok s1"
    "history any_sink (wrq_step env) s1 es t"
    "fair env tok"
  from upload.session_facts [where env = env, unfolded a(1), OF a(3,2)] assms(2,3)
  obtain m where m: "all_sent tok m (Wire t)" "past_end tok m" by auto
  have "unat (BufferSize tok) \<le> length buf" using a(4) assms(4) by (simp add: fair_def)
  from all_sent_file [OF m(1) assms(4) m(2) this assms(5)]
  have sent: "\<forall>k\<in>{1..n}. data_packet k (file_block doc k) \<in> set (Wire t)" by (simp only: assms(6))
  have size: "length doc \<le> n * 1024" "length doc - (n - 1) * 1024 < 1024"
    using div_mult_mod_eq [of "length doc" 1024] mod_less_divisor [of 1024 "length doc"] unfolding assms(6) by simp_all
  have "concat (map (file_block doc) [1..<Suc n]) = doc" using size(1) by (simp only: concat_blocks take_all)
  moreover have "length (file_block doc n) < 1024" using size(2) by (simp add: file_block_def)
  ultimately show ?thesis using sent by blast
qed

theorem wrq_whole_file_witness:
  "\<exists>t. put_run put_events = Some t \<and> data_packet 1 ex_file \<in> set (Wire t)"
proof (rule put_done)
  fix t assume t: "put_run put_events = Some t" "State t = EFTP_INIT" "\<not> EFI_ERROR (TokenStatus (Token t))"
  have e: "Buffer put_token = Some ex_file" "ex_file = take (unat (BufferSize put_token)) ex_file"
    "1 = length ex_file div 1024 + 1"
    by (simp_all add: put_token_def ex_token_def length_ex_file)
  have "file_block ex_file 1 = ex_file" by (simp add: file_block_def length_ex_file)
  then show ?thesis using wrq_whole_file [OF put_session [OF t(1)] t(2,3) e] t(1) by auto
qed

text \<open>C14: Everything an upload sends is the request, a block of the file under its number, or an
  error; and a receiver verifies its checksum.\<close>

theorem wrq_wire:
  assumes "wrq_session env any_sink Stk tok s es t" and "pk \<in> set (Wire t)"
  shows "checks pk \<and> (OpCode pk = HTONS EFI_EFTP_OPCODE_WRQ \<and> Some (Payload pk) = token_text tok \<or>
    OpCode pk = HTONS EFI_EFTP_OPCODE_ERROR \<or>
    OpCode pk = HTONS EFI_EFTP_OPCODE_DATA \<and> (\<exists>k\<ge>1. CodeVar pk = HTONS (of_nat k) \<and> block_data tok k (Payload pk)))"
  using assms(1)
proof (rule wrq_session_start)
  fix x s1 assume a: "tame env = env" "wrq_client.live env (write_request x) (Signals s) tok s1"
    "history any_sink (wrq_step env) s1 es t" "token_text tok = Some x"
  from upload.session_facts [where env = env, unfolded a(1), OF a(3,2)] assms(2)
  have "wrq_out (write_request x) tok pk" by auto
  then show ?thesis using wrq_out_fields a(4) by simp
qed

theorem wrq_wire_witness:
  "\<exists>t. put_run put_events = Some t \<and> data_packet 1 (file_block ex_file 1) \<in> set (Wire t) \<and>
    checks (data_packet 1 (file_block ex_file 1))"
proof (rule put_done)
  fix t assume t: "put_run put_events = Some t" "data_packet 1 (file_block ex_file 1) \<in> set (Wire t)"
  from wrq_wire [OF put_session [OF t(1)] t(2)] t show ?thesis by blast
qed

text \<open>C25: An upload ends: \<open>MaxNRetry + 3\<close> expirations of the timer without a packet from the peer
  are enough, whatever has happened before. The event of the user is then signalled, once, and the
  token has the result of the session.\<close>

theorem wrq_ends:
  assumes "wrq_session env any_sink Stk tok s es t"
  shows "ok (expire (wrq_step env) (3 + unat (MaxNRetry t)) t) (\<lambda>u. State u = EFTP_INIT \<and>
    Token u = tok\<lparr>TokenStatus := Result u\<rparr> \<and> TimeoutEvent u = None \<and>
    Signals u = Signals s + (if TokenEvent tok then 1 else 0))"
  using assms
proof (rule wrq_session_start)
  fix x s1 assume a: "tame env = env" "wrq_client.live env (write_request x) (Signals s) tok s1"
    "history any_sink (wrq_step env) s1 es t"
  have h: "wrq_client.live env (write_request x) (Signals s) tok t \<or> upload.over x (Signals s) tok t"
    by (rule upload.session.history_invariant [where env = env, unfolded a(1), OF a(3,2)])
  have "wrq_left t \<le> 3 + unat (MaxNRetry t)" 
    using upload.session_facts [where env = env, unfolded a(1), OF a(3,2)] by blast
  from upload.session.timer_ends [where env = env, unfolded a(1), OF h this] show ?thesis
    by (rule ok_mono) (auto simp: upload.over_def upload.finished_def)
qed

theorem wrq_ends_witness:
  "\<exists>t u. put_run [Tx 0, Timer] = Some t \<and>
    expire (wrq_step ex_env) (3 + unat (MaxNRetry t)) t = Some u \<and> State u = EFTP_INIT"
proof (rule put_timer)
  fix t assume t: "put_run [Tx 0, Timer] = Some t"
  from wrq_ends [OF put_session [OF t]] t show ?thesis by (auto elim!: okE)
qed

text \<open>C26: When an upload has ended, every packet buffer of the pool is free or still with the
  network: none is leaked, also not the last data packet.\<close>

theorem wrq_no_leak:
  assumes "wrq_session env any_sink Stk tok s es t" and "State t = EFTP_INIT"
  shows "held (Pkts t) (mset (InFlight t)) \<and> Request t = None \<and> LastCtrl t = None \<and> last_data t = None"
  using assms(1)
proof (rule wrq_session_start)
  fix x s1 assume a: "tame env = env" "wrq_client.live env (write_request x) (Signals s) tok s1"
    "history any_sink (wrq_step env) s1 es t"
  from upload.session_facts [where env = env, unfolded a(1), OF a(3,2)] assms(2)
  have "held (Pkts t) (refs t)" "InFlight t = PendingPacketList t" "refs t = mset (InFlight t)"
    by auto
  then show ?thesis by (auto simp: refs_def opt_ref_def split: option.splits)
qed

theorem wrq_no_leak_witness:
  "\<exists>t. put_run put_events = Some t \<and> held (Pkts t) (mset (InFlight t)) \<and> last_data t = None"
proof (rule put_done)
  fix t assume t: "put_run put_events = Some t" "State t = EFTP_INIT"
  from wrq_no_leak [OF put_session [OF t(1)] t(2)] t(1) show ?thesis by blast
qed

end
