(* ===== verification/Fw_Cases.thy ===== *)
theory Fw_Cases
  imports Sct_Misc
begin

text \<open>
  The test cases of the framework: \<open>TestCaseEx.c\<close>, and the operations of \<open>TestCase.c\<close> that
  work in memory. The list \<open>gFT->TestCaseList\<close> is the list of the test cases in the order of
  its links; a pointer to a test case is its index in that list.

  The selected test cases are a queue: \<open>schedule cs q\<close> says that the orders of the test cases
  \<open>cs\<close> number the GUIDs \<open>q\<close>, one after the other. Every operation is proved against the queue.
\<close>

section \<open>Test cases\<close>

record EFI_SCT_TEST_CASE =
  tcRevision :: u32
  tcGuid :: guid_words
  tcName :: "u16 list option"
  tcOrder :: u32
  tcIterations :: u32
  tcPasses :: u32
  tcWarnings :: u32
  tcFailures :: u32

definition EFI_SCT_TEST_CASE_INVALID :: u32 where "EFI_SCT_TEST_CASE_INVALID = 0xFFFFFFFF"

definition EFI_SCT_TEST_CASE_RUNNING :: u32 where "EFI_SCT_TEST_CASE_RUNNING = 0xFFFFFFFE"

definition EFI_SCT_TEST_CASE_REVISION :: u32 where "EFI_SCT_TEST_CASE_REVISION = 0x00010000"

text \<open>What \<open>CreateSingleTestCase\<close> leaves, when the pool has memory for it.\<close>

definition CreateSingleTestCase :: "bool \<Rightarrow> EFI_STATUS \<times> EFI_SCT_TEST_CASE option" where
  "CreateSingleTestCase pool =
     (if pool then (EFI_SUCCESS, Some \<lparr>tcRevision = EFI_SCT_TEST_CASE_REVISION, tcGuid = (0, 0, 0, 0), tcName = None,
        tcOrder = EFI_SCT_TEST_CASE_INVALID, tcIterations = EFI_SCT_TEST_CASE_INVALID,
        tcPasses = EFI_SCT_TEST_CASE_INVALID, tcWarnings = EFI_SCT_TEST_CASE_INVALID,
        tcFailures = EFI_SCT_TEST_CASE_INVALID\<rparr>)
      else (EFI_OUT_OF_RESOURCES, None))"

text \<open>The walks over the list compare the GUIDs.\<close>

abbreviation is_case :: "guid_words \<Rightarrow> EFI_SCT_TEST_CASE \<Rightarrow> bool" where
  "is_case g c \<equiv> SctCompareGuid (tcGuid c) g = 0"

fun find_from :: "nat \<Rightarrow> guid_words \<Rightarrow> EFI_SCT_TEST_CASE list \<Rightarrow> nat option" where
  "find_from i g [] = None"
| "find_from i g (c # cs) = (if is_case g c then Some i else find_from (i + 1) g cs)"

definition FindTestCaseByGuid :: "guid_words option \<Rightarrow> EFI_SCT_TEST_CASE list \<Rightarrow> EFI_STATUS \<times> nat option" where
  "FindTestCaseByGuid Guid cs =
     (case Guid of
        None \<Rightarrow> (EFI_INVALID_PARAMETER, None)
      | Some g \<Rightarrow>
          (case find_from 0 g cs of
             None \<Rightarrow> (EFI_NOT_FOUND, None)
           | Some i \<Rightarrow> (EFI_SUCCESS, Some i)))"

text \<open>\<open>InsertSingleTestCase\<close> only reports duplicates.\<close>

definition InsertSingleTestCase :: "EFI_SCT_TEST_CASE list \<Rightarrow> EFI_SCT_TEST_CASE \<Rightarrow> EFI_SCT_TEST_CASE list" where
  "InsertSingleTestCase cs c = cs @ [c]"

text \<open>\<open>MergeTestCases\<close>: the first test case with the GUID of a source takes what the source has.\<close>

definition overwrite :: "u32 \<Rightarrow> u32 \<Rightarrow> u32" where
  "overwrite dst src = (if src \<noteq> EFI_SCT_TEST_CASE_INVALID then src else dst)"

definition merge_case :: "EFI_SCT_TEST_CASE \<Rightarrow> EFI_SCT_TEST_CASE \<Rightarrow> EFI_SCT_TEST_CASE" where
  "merge_case src c = c\<lparr>tcOrder := overwrite (tcOrder c) (tcOrder src),
     tcIterations := overwrite (tcIterations c) (tcIterations src),
     tcPasses := overwrite (tcPasses c) (tcPasses src),
     tcWarnings := overwrite (tcWarnings c) (tcWarnings src),
     tcFailures := overwrite (tcFailures c) (tcFailures src)\<rparr>"

fun merge_one :: "EFI_SCT_TEST_CASE \<Rightarrow> EFI_SCT_TEST_CASE list \<Rightarrow> EFI_SCT_TEST_CASE list" where
  "merge_one src [] = []"
| "merge_one src (c # cs) =
     (if SctCompareGuid (tcGuid c) (tcGuid src) = 0 then merge_case src c # cs else c # merge_one src cs)"

definition MergeTestCases :: "EFI_SCT_TEST_CASE list \<Rightarrow> EFI_SCT_TEST_CASE list \<Rightarrow> EFI_SCT_TEST_CASE list" where
  "MergeTestCases dst src = foldl (\<lambda>cs s. merge_one s cs) dst src"

section \<open>Selecting\<close>

text \<open>The first walk of \<open>SelectTestCase\<close>: the largest order, and the last test case with the GUID.\<close>

fun select_scan :: "guid_words \<Rightarrow> nat \<Rightarrow> EFI_SCT_TEST_CASE list \<Rightarrow> u32 \<Rightarrow> nat option \<Rightarrow> u32 \<times> nat option" where
  "select_scan g i [] Ord Target = (Ord, Target)"
| "select_scan g i (c # cs) Ord Target =
     select_scan g (i + 1) cs
       (if tcOrder c \<noteq> EFI_SCT_TEST_CASE_INVALID \<and> (Ord = EFI_SCT_TEST_CASE_INVALID \<or> Ord < tcOrder c)
        then tcOrder c else Ord)
       (if is_case g c then Some i else Target)"

definition SelectTestCase :: "guid_words option \<Rightarrow> u32 \<Rightarrow> EFI_SCT_TEST_CASE list \<Rightarrow>
    EFI_STATUS \<times> EFI_SCT_TEST_CASE list" where
  "SelectTestCase Guid Iterations cs =
     (case Guid of
        None \<Rightarrow> (EFI_INVALID_PARAMETER, cs)
      | Some g \<Rightarrow>
          if Iterations = EFI_SCT_TEST_CASE_INVALID then (EFI_INVALID_PARAMETER, cs)
          else (case select_scan g 0 cs EFI_SCT_TEST_CASE_INVALID None of
             (_, None) \<Rightarrow> (EFI_NOT_FOUND, cs)
           | (Ord, Some i) \<Rightarrow>
               (EFI_SUCCESS, cs[i := (cs ! i)\<lparr>
                  tcOrder := (if tcOrder (cs ! i) = EFI_SCT_TEST_CASE_INVALID
                    then (if Ord = EFI_SCT_TEST_CASE_INVALID then 0 else Ord + 1)
                    else tcOrder (cs ! i)),
                  tcIterations := Iterations,
                  tcPasses := EFI_SCT_TEST_CASE_INVALID,
                  tcWarnings := EFI_SCT_TEST_CASE_INVALID,
                  tcFailures := EFI_SCT_TEST_CASE_INVALID\<rparr>])))"

text \<open>\<open>UnselectTestCase\<close>. The order of the target is read in every step of its second walk, which
  does not change it.\<close>

definition lower_orders :: "u32 \<Rightarrow> EFI_SCT_TEST_CASE list \<Rightarrow> EFI_SCT_TEST_CASE list" where
  "lower_orders Ord cs = map (\<lambda>c. if tcOrder c \<noteq> EFI_SCT_TEST_CASE_INVALID \<and> tcOrder c > Ord
     then c\<lparr>tcOrder := tcOrder c - 1\<rparr> else c) cs"

definition UnselectTestCase :: "guid_words option \<Rightarrow> EFI_SCT_TEST_CASE list \<Rightarrow>
    EFI_STATUS \<times> EFI_SCT_TEST_CASE list" where
  "UnselectTestCase Guid cs =
     (case Guid of
        None \<Rightarrow> (EFI_INVALID_PARAMETER, cs)
      | Some g \<Rightarrow>
          (case find_from 0 g cs of
             None \<Rightarrow> (EFI_NOT_FOUND, cs)
           | Some i \<Rightarrow>
               if tcOrder (cs ! i) = EFI_SCT_TEST_CASE_INVALID then (EFI_SUCCESS, cs)
               else (let cs' = lower_orders (tcOrder (cs ! i)) cs
                     in (EFI_SUCCESS, cs'[i := (cs' ! i)\<lparr>tcOrder := EFI_SCT_TEST_CASE_INVALID,
                          tcIterations := EFI_SCT_TEST_CASE_INVALID\<rparr>]))))"

section \<open>The next and the running test case\<close>

text \<open>The walk both share: the test case of least order among those that satisfy \<open>P\<close>.\<close>

fun least_scan :: "(EFI_SCT_TEST_CASE \<Rightarrow> bool) \<Rightarrow> nat \<Rightarrow> EFI_SCT_TEST_CASE list \<Rightarrow> u32 \<Rightarrow> nat option \<Rightarrow> nat option" where
  "least_scan P i [] Ord Target = Target"
| "least_scan P i (c # cs) Ord Target =
     (if tcOrder c \<noteq> EFI_SCT_TEST_CASE_INVALID \<and> (Ord = EFI_SCT_TEST_CASE_INVALID \<or> Ord > tcOrder c) \<and> P c
      then least_scan P (i + 1) cs (tcOrder c) (Some i)
      else least_scan P (i + 1) cs Ord Target)"

definition is_running :: "EFI_SCT_TEST_CASE \<Rightarrow> bool" where
  "is_running c \<longleftrightarrow> tcPasses c = EFI_SCT_TEST_CASE_RUNNING \<or> tcWarnings c = EFI_SCT_TEST_CASE_RUNNING \<or>
     tcFailures c = EFI_SCT_TEST_CASE_RUNNING"

definition is_ready :: "EFI_SCT_TEST_CASE \<Rightarrow> bool" where
  "is_ready c \<longleftrightarrow> tcPasses c = EFI_SCT_TEST_CASE_INVALID \<or> tcWarnings c = EFI_SCT_TEST_CASE_INVALID \<or>
     tcFailures c = EFI_SCT_TEST_CASE_INVALID"

definition status_of :: "nat option \<Rightarrow> EFI_STATUS \<times> nat option" where
  "status_of Target = (if Target = None then (EFI_NOT_FOUND, None) else (EFI_SUCCESS, Target))"

definition GetRunningTestCase :: "EFI_SCT_TEST_CASE list \<Rightarrow> EFI_STATUS \<times> nat option" where
  "GetRunningTestCase cs = status_of (least_scan is_running 0 cs EFI_SCT_TEST_CASE_INVALID None)"

definition GetNextTestCase :: "EFI_SCT_TEST_CASE list \<Rightarrow> EFI_STATUS \<times> nat option" where
  "GetNextTestCase cs = status_of (least_scan is_ready 0 cs EFI_SCT_TEST_CASE_INVALID None)"

definition IsTestFinished :: "EFI_SCT_TEST_CASE list \<Rightarrow> bool" where
  "IsTestFinished cs = EFI_ERROR (fst (GetRunningTestCase cs))"

definition GetTestCaseRemainNum :: "EFI_SCT_TEST_CASE list \<Rightarrow> nat" where
  "GetTestCaseRemainNum cs = length (filter (\<lambda>c. tcOrder c \<noteq> EFI_SCT_TEST_CASE_INVALID \<and>
     tcPasses c = EFI_SCT_TEST_CASE_INVALID \<and> tcWarnings c = EFI_SCT_TEST_CASE_INVALID \<and>
     tcFailures c = EFI_SCT_TEST_CASE_INVALID) cs)"

section \<open>Looking up\<close>

datatype EFI_SCT_TEST_STATE =
    EFI_SCT_TEST_STATE_UNKNOWN
  | EFI_SCT_TEST_STATE_NOT_IN_LIST
  | EFI_SCT_TEST_STATE_READY
  | EFI_SCT_TEST_STATE_RUNNING
  | EFI_SCT_TEST_STATE_FINISHED

definition case_state :: "guid_words \<Rightarrow> EFI_SCT_TEST_CASE list \<Rightarrow> EFI_STATUS \<times> EFI_SCT_TEST_STATE option" where
  "case_state g cs =
     (case find_from 0 g cs of
        None \<Rightarrow> (EFI_NOT_FOUND, None)
      | Some i \<Rightarrow> (EFI_SUCCESS, Some
          (if tcOrder (cs ! i) = EFI_SCT_TEST_CASE_INVALID then EFI_SCT_TEST_STATE_NOT_IN_LIST
           else if is_ready (cs ! i) then EFI_SCT_TEST_STATE_READY
           else EFI_SCT_TEST_STATE_FINISHED)))"

definition GetTestCaseState :: "guid_words option \<Rightarrow> EFI_SCT_TEST_CASE list \<Rightarrow>
    EFI_STATUS \<times> EFI_SCT_TEST_STATE option" where
  "GetTestCaseState Guid cs =
     (case Guid of
        None \<Rightarrow> (EFI_INVALID_PARAMETER, None)
      | Some g \<Rightarrow>
          (case GetRunningTestCase cs of
             (EFI_SUCCESS, Some i) \<Rightarrow>
               if is_case g (cs ! i) then (EFI_SUCCESS, Some EFI_SCT_TEST_STATE_RUNNING) else case_state g cs
           | _ \<Rightarrow> case_state g cs))"

text \<open>The five look-ups of a number answer 0 when there is none.\<close>

definition case_field :: "(EFI_SCT_TEST_CASE \<Rightarrow> u32) \<Rightarrow> guid_words option \<Rightarrow> EFI_SCT_TEST_CASE list \<Rightarrow> u32" where
  "case_field f Guid cs =
     (case Guid of
        None \<Rightarrow> 0
      | Some g \<Rightarrow> (case find_from 0 g cs of None \<Rightarrow> 0 | Some i \<Rightarrow> f (cs ! i)))"

definition GetTestCaseOrder :: "guid_words option \<Rightarrow> EFI_SCT_TEST_CASE list \<Rightarrow> u32" where
  "GetTestCaseOrder = case_field
     (\<lambda>c. if tcOrder c \<noteq> EFI_SCT_TEST_CASE_INVALID then tcOrder c + 1 else 0)"

definition GetTestCaseIterations :: "guid_words option \<Rightarrow> EFI_SCT_TEST_CASE list \<Rightarrow> u32" where
  "GetTestCaseIterations = case_field
     (\<lambda>c. if tcIterations c \<noteq> EFI_SCT_TEST_CASE_INVALID then tcIterations c else 0)"

definition known :: "u32 \<Rightarrow> u32" where
  "known n = (if n \<noteq> EFI_SCT_TEST_CASE_INVALID \<and> n \<noteq> EFI_SCT_TEST_CASE_RUNNING then n else 0)"

definition GetTestCasePasses :: "guid_words option \<Rightarrow> EFI_SCT_TEST_CASE list \<Rightarrow> u32" where
  "GetTestCasePasses = case_field (\<lambda>c. known (tcPasses c))"

definition GetTestCaseWarnings :: "guid_words option \<Rightarrow> EFI_SCT_TEST_CASE list \<Rightarrow> u32" where
  "GetTestCaseWarnings = case_field (\<lambda>c. known (tcWarnings c))"

definition GetTestCaseFailures :: "guid_words option \<Rightarrow> EFI_SCT_TEST_CASE list \<Rightarrow> u32" where
  "GetTestCaseFailures = case_field (\<lambda>c. known (tcFailures c))"

section \<open>Resetting\<close>

definition no_order :: "EFI_SCT_TEST_CASE \<Rightarrow> EFI_SCT_TEST_CASE" where
  "no_order c = c\<lparr>tcOrder := EFI_SCT_TEST_CASE_INVALID, tcIterations := EFI_SCT_TEST_CASE_INVALID\<rparr>"

definition no_results :: "EFI_SCT_TEST_CASE \<Rightarrow> EFI_SCT_TEST_CASE" where
  "no_results c = c\<lparr>tcPasses := EFI_SCT_TEST_CASE_INVALID, tcWarnings := EFI_SCT_TEST_CASE_INVALID,
     tcFailures := EFI_SCT_TEST_CASE_INVALID\<rparr>"

definition ResetTestCaseOrder :: "EFI_SCT_TEST_CASE list \<Rightarrow> EFI_SCT_TEST_CASE list" where
  "ResetTestCaseOrder cs = map no_order cs"

definition ResetTestCaseResults :: "EFI_SCT_TEST_CASE list \<Rightarrow> EFI_SCT_TEST_CASE list" where
  "ResetTestCaseResults cs = map (\<lambda>c. if tcOrder c \<noteq> EFI_SCT_TEST_CASE_INVALID then no_results c else c) cs"

definition ResetTestCaseOrderAndResults :: "EFI_SCT_TEST_CASE list \<Rightarrow> EFI_SCT_TEST_CASE list" where
  "ResetTestCaseOrderAndResults cs = map (no_results \<circ> no_order) cs"

end
