(* ===== verification/Fw_Queue.thy ===== *)
theory Fw_Queue
  imports Fw_Cases
begin

text \<open>
  The selected test cases as a queue of GUIDs: \<open>schedule cs q\<close>, and what the operations of
  \<open>Fw_Cases\<close> do to the queue.
\<close>

section \<open>The orders of a queue\<close>

definition place :: "'a list \<Rightarrow> 'a \<Rightarrow> nat" where
  "place q g = length (takeWhile (\<lambda>x. x \<noteq> g) q)"

lemma place_less: "g \<in> set q \<Longrightarrow> place q g < length q"
  unfolding place_def by (induction q) auto

lemma nth_place: "g \<in> set q \<Longrightarrow> q ! place q g = g"
  unfolding place_def by (induction q) auto

lemma place_nth: "distinct q \<Longrightarrow> i < length q \<Longrightarrow> place q (q ! i) = i"
  using place_less [of "q ! i" q] nth_place [of "q ! i" q] by (simp add: nth_eq_iff_index_eq)

lemma place_inj: "g \<in> set q \<Longrightarrow> h \<in> set q \<Longrightarrow> place q g = place q h \<longleftrightarrow> g = h"
  by (metis nth_place)

lemma place_append: "g \<in> set q \<Longrightarrow> place (q @ r) g = place q g"
  unfolding place_def by (induction q) auto

lemma place_snoc: "g \<notin> set q \<Longrightarrow> place (q @ [g]) g = length q"
  unfolding place_def by (induction q) auto

lemma place_remove1:
  assumes "distinct q" and "g \<in> set q" and "h \<in> set q" and "h \<noteq> g"
  shows "place (remove1 g q) h = (if place q g < place q h then place q h - 1 else place q h)"
  using assms
proof (induction q)
  case (Cons a q)
  then show ?case by (cases "g = a"; cases "h = a") (auto simp: place_def)
qed simp

text \<open>The order of a GUID: its place in the queue.\<close>

definition order_in :: "guid_words list \<Rightarrow> guid_words \<Rightarrow> u32" where
  "order_in q g = (if g \<in> set q then of_nat (place q g) else EFI_SCT_TEST_CASE_INVALID)"

definition selected :: "EFI_SCT_TEST_CASE \<Rightarrow> bool" where
  "selected c \<longleftrightarrow> tcOrder c \<noteq> EFI_SCT_TEST_CASE_INVALID"

definition schedule :: "EFI_SCT_TEST_CASE list \<Rightarrow> guid_words list \<Rightarrow> bool" where
  "schedule cs q \<longleftrightarrow> distinct (map tcGuid cs) \<and> distinct q \<and> set q \<subseteq> set (map tcGuid cs) \<and>
     length cs < 2 ^ 32 - 2 \<and> (\<forall>c\<in>set cs. tcOrder c = order_in q (tcGuid c))"

lemma schedule_length: "schedule cs q \<Longrightarrow> length q < 2 ^ 32 - 2"
proof -
  assume s: "schedule cs q"
  then have "card (set q) \<le> card (set (map tcGuid cs))" by (intro card_mono) (auto simp: schedule_def)
  also have "\<dots> \<le> length cs" using card_length [of "map tcGuid cs"] by simp
  finally show ?thesis using s by (simp add: schedule_def distinct_card)
qed

lemma unat_of_nat_u32': "n < 2 ^ 32 \<Longrightarrow> unat (of_nat n :: u32) = n"
  by (simp add: unat_of_nat take_bit_nat_eq_self)

lemma of_nat_valid: "n < 2 ^ 32 - 2 \<Longrightarrow> (of_nat n :: u32) \<noteq> EFI_SCT_TEST_CASE_INVALID"
proof
  assume n: "n < 2 ^ 32 - 2" and "(of_nat n :: u32) = EFI_SCT_TEST_CASE_INVALID"
  then have "unat (of_nat n :: u32) = 0xFFFFFFFF" by (simp add: EFI_SCT_TEST_CASE_INVALID_def)
  then show False using n unat_of_nat_u32' [of n] by simp
qed

lemma of_nat_less_u32: "m < 2 ^ 32 \<Longrightarrow> n < 2 ^ 32 \<Longrightarrow> (of_nat m :: u32) < of_nat n \<longleftrightarrow> m < n"
  by (simp add: word_less_nat_alt unat_of_nat_u32')

lemma of_nat_le_u32: "m < 2 ^ 32 \<Longrightarrow> n < 2 ^ 32 \<Longrightarrow> (of_nat m :: u32) \<le> of_nat n \<longleftrightarrow> m \<le> n"
  by (simp add: word_le_nat_alt unat_of_nat_u32')

lemma order_in_selected:
  assumes "length q < 2 ^ 32 - 2"
  shows "order_in q g \<noteq> EFI_SCT_TEST_CASE_INVALID \<longleftrightarrow> g \<in> set q"
  using assms place_less [of g q] of_nat_valid [of "place q g"] by (auto simp: order_in_def)

lemma order_in_less:
  assumes "length q < 2 ^ 32 - 2" and "g \<in> set q" and "h \<in> set q"
  shows "order_in q g < order_in q h \<longleftrightarrow> place q g < place q h"
    and "order_in q g \<le> order_in q h \<longleftrightarrow> place q g \<le> place q h"
  using assms place_less [of g q] place_less [of h q]
  by (simp_all add: order_in_def of_nat_less_u32 of_nat_le_u32)

lemma schedule_selected: "schedule cs q \<Longrightarrow> c \<in> set cs \<Longrightarrow> selected c \<longleftrightarrow> tcGuid c \<in> set q"
  using order_in_selected [OF schedule_length, of cs q "tcGuid c"] by (simp add: selected_def schedule_def)

section \<open>Finding a test case\<close>

lemma find_from_None: "find_from i g cs = None \<longleftrightarrow> g \<notin> tcGuid ` set cs"
  by (induction cs arbitrary: i) (auto simp: SctCompareGuid_0)

lemma find_from_Some: "find_from i g cs = Some j \<Longrightarrow> \<exists>k. j = i + k \<and> k < length cs \<and> tcGuid (cs ! k) = g"
proof (induction cs arbitrary: i)
  case (Cons c cs)
  show ?case
  proof (cases "tcGuid c = g")
    case False
    with Cons show ?thesis by (fastforce simp: SctCompareGuid_0)
  qed (use Cons in \<open>auto simp: SctCompareGuid_0\<close>)
qed simp

lemma find_from_0:
  assumes "distinct (map tcGuid cs)"
  shows "find_from 0 g cs = Some j \<longleftrightarrow> j < length cs \<and> tcGuid (cs ! j) = g"
proof
  assume "find_from 0 g cs = Some j"
  then show "j < length cs \<and> tcGuid (cs ! j) = g" using find_from_Some by fastforce
next
  assume j: "j < length cs \<and> tcGuid (cs ! j) = g"
  then have "find_from 0 g cs \<noteq> None" by (auto simp: find_from_None)
  then obtain k where k: "find_from 0 g cs = Some k" by auto
  then have "k < length cs" "tcGuid (cs ! k) = g" using find_from_Some by fastforce+
  then have "k = j" using j assms by (auto simp: distinct_conv_nth)
  then show "find_from 0 g cs = Some j" using k by simp
qed

lemma update_one:
  assumes "distinct (map tcGuid cs)" and "j < length cs" and "tcGuid (cs ! j) = g"
  shows "cs[j := f (cs ! j)] = map (\<lambda>c. if tcGuid c = g then f c else c) cs"
proof (rule nth_equalityI)
  fix i assume i: "i < length (cs[j := f (cs ! j)])"
  have "tcGuid (cs ! i) = g \<longleftrightarrow> i = j" using assms i by (auto simp: distinct_conv_nth)
  then show "cs[j := f (cs ! j)] ! i = map (\<lambda>c. if tcGuid c = g then f c else c) cs ! i"
    using i by simp
qed simp

section \<open>Selecting\<close>

lemma select_scan_target:
  "distinct (map tcGuid cs) \<Longrightarrow>
    snd (select_scan g i cs Ord Target) = (case find_from i g cs of None \<Rightarrow> Target | Some j \<Rightarrow> Some j)"
proof (induction cs arbitrary: i Ord Target)
  case (Cons c cs)
  have "find_from (Suc i) g cs = None" if "tcGuid c = g" using Cons.prems that by (auto simp: find_from_None)
  then show ?case using Cons by (auto simp: SctCompareGuid_0)
qed simp

lemma select_scan_max:
  "select_scan g i cs Ord Target = (Ord', Target') \<Longrightarrow>
    (\<forall>c\<in>set cs. selected c \<longrightarrow> Ord' \<noteq> EFI_SCT_TEST_CASE_INVALID \<and> tcOrder c \<le> Ord') \<and>
    (Ord \<noteq> EFI_SCT_TEST_CASE_INVALID \<longrightarrow> Ord' \<noteq> EFI_SCT_TEST_CASE_INVALID \<and> Ord \<le> Ord') \<and>
    (Ord' = Ord \<or> (\<exists>c\<in>set cs. selected c \<and> tcOrder c = Ord'))"
proof (induction cs arbitrary: i Ord Target)
  case (Cons c cs)
  let ?O = "if tcOrder c \<noteq> EFI_SCT_TEST_CASE_INVALID \<and> (Ord = EFI_SCT_TEST_CASE_INVALID \<or> Ord < tcOrder c)
    then tcOrder c else Ord"
  from Cons(2) have "select_scan g (i + 1) cs ?O (if is_case g c then Some i else Target) = (Ord', Target')" by simp
  from Cons(1) [OF this] show ?case
    by (cases "tcOrder c \<noteq> EFI_SCT_TEST_CASE_INVALID \<and> (Ord = EFI_SCT_TEST_CASE_INVALID \<or> Ord < tcOrder c)")
      (auto simp: selected_def intro: order.trans)
qed simp

lemma schedule_case: "schedule cs q \<Longrightarrow> g \<in> set q \<Longrightarrow> \<exists>c\<in>set cs. tcGuid c = g"
  by (auto simp: schedule_def)

text \<open>The largest order is the last place of the queue.\<close>

lemma select_scan_schedule:
  assumes s: "schedule cs q" and scan: "select_scan g 0 cs EFI_SCT_TEST_CASE_INVALID None = (Ord, Target)"
  shows "(if Ord = EFI_SCT_TEST_CASE_INVALID then 0 else Ord + 1) = of_nat (length q)"
proof -
  note m = select_scan_max [OF scan]
  show ?thesis
  proof (cases "q = []")
    case True
    then have "\<forall>c\<in>set cs. \<not> selected c" using schedule_selected [OF s] by simp
    then show ?thesis using m True by auto
  next
    case False
    then obtain l where l: "l \<in> set cs" "tcGuid l = last q" using schedule_case [OF s, of "last q"] by auto
    then have "selected l" using schedule_selected [OF s] False by simp
    then have O: "Ord \<noteq> EFI_SCT_TEST_CASE_INVALID" "tcOrder l \<le> Ord" using m l(1) by auto
    then obtain c where c: "c \<in> set cs" "selected c" "tcOrder c = Ord" using m by auto
    have in_q: "tcGuid c \<in> set q" "last q \<in> set q" using schedule_selected [OF s c(1)] c(2) False by simp_all
    have ord: "tcOrder c = order_in q (tcGuid c)" "tcOrder l = order_in q (last q)"
      using s c(1) l by (auto simp: schedule_def)
    have "place q (last q) = length q - 1"
      using place_nth [of q "length q - 1"] s False by (simp add: schedule_def last_conv_nth)
    moreover have "place q (last q) \<le> place q (tcGuid c)"
      using O(2) c(3) ord order_in_less(2) [OF schedule_length [OF s] in_q(2,1)] by simp
    ultimately have "place q (tcGuid c) = length q - 1" using place_less [OF in_q(1)] by simp
    then have "Ord = of_nat (length q - 1)" using c(3) ord(1) in_q(1) by (simp add: order_in_def)
    then have "Ord + 1 = of_nat (Suc (length q - 1))" by simp
    then show ?thesis using O(1) False by (simp del: of_nat_Suc)
  qed
qed

lemma schedule_map:
  assumes "schedule cs q" and "\<And>c. tcGuid (f c) = tcGuid c" and "distinct q'" and "set q' \<subseteq> set (map tcGuid cs)"
    and "\<And>c. c \<in> set cs \<Longrightarrow> tcOrder (f c) = order_in q' (tcGuid c)"
  shows "schedule (map f cs) q'"
proof -
  have "map tcGuid (map f cs) = map tcGuid cs" using assms(2) by simp
  then show ?thesis using assms by (auto simp: schedule_def simp del: map_map)
qed

definition selected_case :: "guid_words list \<Rightarrow> u32 \<Rightarrow> EFI_SCT_TEST_CASE \<Rightarrow> EFI_SCT_TEST_CASE" where
  "selected_case q n c = no_results (c\<lparr>tcOrder := order_in q (tcGuid c), tcIterations := n\<rparr>)"

lemma SelectTestCase_queue:
  assumes s: "schedule cs q" and g: "g \<in> tcGuid ` set cs" and n: "n \<noteq> EFI_SCT_TEST_CASE_INVALID"
    and q': "q' = (if g \<in> set q then q else q @ [g])"
    and f: "f = (\<lambda>c. if tcGuid c = g then selected_case q' n c else c)"
  shows "SelectTestCase (Some g) n cs = (EFI_SUCCESS, map f cs)" and "schedule (map f cs) q'"
proof -
  have d: "distinct (map tcGuid cs)" using s by (simp add: schedule_def)
  obtain Ord Target where scan: "select_scan g 0 cs EFI_SCT_TEST_CASE_INVALID None = (Ord, Target)"
    by (cases "select_scan g 0 cs EFI_SCT_TEST_CASE_INVALID None")
  have "find_from 0 g cs \<noteq> None" using g by (simp add: find_from_None)
  then obtain j where j: "find_from 0 g cs = Some j" by auto
  then have T: "Target = Some j" using select_scan_target [OF d, of g 0 EFI_SCT_TEST_CASE_INVALID None] scan by simp
  have jc: "j < length cs" "tcGuid (cs ! j) = g" using j find_from_0 [OF d] by simp_all
  have o: "tcOrder (cs ! j) = order_in q g" using s jc by (auto simp: schedule_def)
  note len = schedule_length [OF s]
  have new: "(if tcOrder (cs ! j) = EFI_SCT_TEST_CASE_INVALID
      then (if Ord = EFI_SCT_TEST_CASE_INVALID then 0 else Ord + 1) else tcOrder (cs ! j)) = order_in q' g"
    using select_scan_schedule [OF s scan] o order_in_selected [OF len, of g]
    by (auto simp: q' order_in_def place_append place_snoc)
  have "SelectTestCase (Some g) n cs = (EFI_SUCCESS, cs[j := selected_case q' n (cs ! j)])"
    unfolding SelectTestCase_def using n scan T new jc(2)
    by (simp add: selected_case_def no_results_def)
  then show "SelectTestCase (Some g) n cs = (EFI_SUCCESS, map f cs)"
    using update_one [OF d jc, of "selected_case q' n"] by (simp add: f)
  show "schedule (map f cs) q'"
  proof (rule schedule_map [OF s])
    show "distinct q'" "set q' \<subseteq> set (map tcGuid cs)" using s g by (auto simp: q' schedule_def)
    fix c assume "c \<in> set cs"
    then show "tcOrder (f c) = order_in q' (tcGuid c)"
      using s by (auto simp: f selected_case_def no_results_def schedule_def q' order_in_def place_append)
  qed (simp add: f selected_case_def no_results_def)
qed

section \<open>Unselecting\<close>

definition unselected_case :: "guid_words list \<Rightarrow> guid_words \<Rightarrow> EFI_SCT_TEST_CASE \<Rightarrow> EFI_SCT_TEST_CASE" where
  "unselected_case q g c = (if tcGuid c = g then no_order c else c\<lparr>tcOrder := order_in (remove1 g q) (tcGuid c)\<rparr>)"

lemma order_in_remove1:
  assumes "distinct q" and "length q < 2 ^ 32 - 2" and "g \<in> set q" and "h \<noteq> g"
  shows "order_in (remove1 g q) h = (if order_in q h \<noteq> EFI_SCT_TEST_CASE_INVALID \<and> order_in q h > order_in q g
    then order_in q h - 1 else order_in q h)"
proof (cases "h \<in> set q")
  case True
  have "place (remove1 g q) h = (if place q g < place q h then place q h - 1 else place q h)"
    by (rule place_remove1) (use assms True in auto)
  moreover have "order_in q h \<noteq> EFI_SCT_TEST_CASE_INVALID" using order_in_selected [OF assms(2)] True by simp
  moreover have "order_in q g < order_in q h \<longleftrightarrow> place q g < place q h"
    by (rule order_in_less(1) [OF assms(2,3) True])
  moreover have "(of_nat (place q h - 1) :: u32) = of_nat (place q h) - 1" if "place q g < place q h"
    using that by (cases "place q h") simp_all
  ultimately show ?thesis using True assms(4) by (auto simp: order_in_def in_set_remove1)
next
  case False
  then have "h \<notin> set (remove1 g q)" using assms(4) by (simp add: in_set_remove1)
  then show ?thesis using False by (simp add: order_in_def)
qed

lemma UnselectTestCase_queue:
  assumes s: "schedule cs q" and g: "g \<in> tcGuid ` set cs"
  shows "UnselectTestCase (Some g) cs = (EFI_SUCCESS, if g \<in> set q then map (unselected_case q g) cs else cs)"
    and "schedule (if g \<in> set q then map (unselected_case q g) cs else cs) (remove1 g q)"
proof -
  have d: "distinct (map tcGuid cs)" "distinct q" using s by (simp_all add: schedule_def)
  note len = schedule_length [OF s]
  have "find_from 0 g cs \<noteq> None" using g by (simp add: find_from_None)
  then obtain j where j: "find_from 0 g cs = Some j" by auto
  have jc: "j < length cs" "tcGuid (cs ! j) = g" using j find_from_0 [OF d(1)] by simp_all
  have o: "tcOrder (cs ! j) = order_in q g" using s jc by (auto simp: schedule_def)
  have sel: "tcOrder (cs ! j) = EFI_SCT_TEST_CASE_INVALID \<longleftrightarrow> g \<notin> set q"
    using order_in_selected [OF len, of g] unfolding o by blast
  let ?l = "lower_orders (tcOrder (cs ! j)) cs"
  have m: "map tcGuid ?l = map tcGuid cs" by (simp add: lower_orders_def)
  have dl: "distinct (map tcGuid ?l)" "j < length ?l" "tcGuid (?l ! j) = g"
    using d(1) jc unfolding m by (simp_all add: lower_orders_def)
  have "?l[j := no_order (?l ! j)] = map (unselected_case q g) cs" if "g \<in> set q"
  proof -
    have "?l[j := no_order (?l ! j)] = map (\<lambda>c. if tcGuid c = g then no_order c else c) ?l"
      by (rule update_one [OF dl])
    also have "\<dots> = map (unselected_case q g) cs"
      unfolding lower_orders_def map_map
    proof (rule map_cong [OF refl])
      fix c assume "c \<in> set cs"
      then have "tcOrder c = order_in q (tcGuid c)" using s by (simp add: schedule_def)
      then show "((\<lambda>c. if tcGuid c = g then no_order c else c) \<circ> (\<lambda>c. if tcOrder c \<noteq> EFI_SCT_TEST_CASE_INVALID \<and>
          tcOrder c > tcOrder (cs ! j) then c\<lparr>tcOrder := tcOrder c - 1\<rparr> else c)) c = unselected_case q g c"
        using o order_in_remove1 [OF d(2) len that, of "tcGuid c"]
        by (auto simp: unselected_case_def no_order_def)
    qed
    finally show ?thesis .
  qed
  then show "UnselectTestCase (Some g) cs = (EFI_SUCCESS, if g \<in> set q then map (unselected_case q g) cs else cs)"
    using j sel by (auto simp: UnselectTestCase_def Let_def no_order_def)
  show "schedule (if g \<in> set q then map (unselected_case q g) cs else cs) (remove1 g q)"
  proof (cases "g \<in> set q")
    case True
    have "schedule (map (unselected_case q g) cs) (remove1 g q)"
    proof (rule schedule_map [OF s])
      show "distinct (remove1 g q)" "set (remove1 g q) \<subseteq> set (map tcGuid cs)"
        using s set_remove1_subset [of g q] by (auto simp: schedule_def)
    qed (use d in \<open>auto simp: unselected_case_def no_order_def order_in_def\<close>)
    then show ?thesis using True by simp
  qed (use s in \<open>simp add: remove1_idem\<close>)
qed

section \<open>The next test case\<close>

definition scan_inv :: "(EFI_SCT_TEST_CASE \<Rightarrow> bool) \<Rightarrow> EFI_SCT_TEST_CASE list \<Rightarrow> u32 \<Rightarrow> nat option \<Rightarrow> bool" where
  "scan_inv P pre Ord Target \<longleftrightarrow> (case Target of
     None \<Rightarrow> Ord = EFI_SCT_TEST_CASE_INVALID \<and> (\<forall>c\<in>set pre. \<not> (selected c \<and> P c))
   | Some j \<Rightarrow> j < length pre \<and> Ord = tcOrder (pre ! j) \<and> selected (pre ! j) \<and> P (pre ! j) \<and>
       (\<forall>c\<in>set pre. selected c \<and> P c \<longrightarrow> Ord \<le> tcOrder c))"

lemma least_scan_inv:
  "scan_inv P pre Ord Target \<Longrightarrow> i = length pre \<Longrightarrow>
    \<exists>Ord'. scan_inv P (pre @ cs) Ord' (least_scan P i cs Ord Target)"
proof (induction cs arbitrary: pre i Ord Target)
  case (Cons c cs)
  let ?b = "tcOrder c \<noteq> EFI_SCT_TEST_CASE_INVALID \<and> (Ord = EFI_SCT_TEST_CASE_INVALID \<or> Ord > tcOrder c) \<and> P c"
  have "scan_inv P (pre @ [c]) (if ?b then tcOrder c else Ord) (if ?b then Some i else Target)"
    using Cons.prems by (cases Target) (auto simp: scan_inv_def selected_def nth_append)
  from Cons.IH [OF this, of "i + 1"] show ?case using Cons.prems(2) by (cases ?b) auto
qed auto

lemma least_scan_cases:
  obtains (none) "least_scan P 0 cs EFI_SCT_TEST_CASE_INVALID None = None" "\<forall>c\<in>set cs. \<not> (selected c \<and> P c)"
  | (least) j where "least_scan P 0 cs EFI_SCT_TEST_CASE_INVALID None = Some j" "j < length cs" "selected (cs ! j)"
      "P (cs ! j)" "\<forall>c\<in>set cs. selected c \<and> P c \<longrightarrow> tcOrder (cs ! j) \<le> tcOrder c"
proof -
  have "scan_inv P [] EFI_SCT_TEST_CASE_INVALID None" by (simp add: scan_inv_def)
  from least_scan_inv [OF this, of 0 cs] that show ?thesis
    by (cases "least_scan P 0 cs EFI_SCT_TEST_CASE_INVALID None") (auto simp: scan_inv_def)
qed

text \<open>The GUIDs of the queue whose test cases satisfy \<open>P\<close>, in order.\<close>

definition pending :: "(EFI_SCT_TEST_CASE \<Rightarrow> bool) \<Rightarrow> EFI_SCT_TEST_CASE list \<Rightarrow> guid_words list \<Rightarrow> guid_words list" where
  "pending P cs q = filter (\<lambda>g. \<exists>c\<in>set cs. tcGuid c = g \<and> P c) q"

lemma hd_place: "filter F q = g # r \<Longrightarrow> h \<in> set q \<Longrightarrow> F h \<Longrightarrow> place q g \<le> place q h"
proof (induction q)
  case (Cons a q)
  then show ?case by (cases "F a") (auto simp: place_def)
qed simp

lemma least_scan_pending:
  assumes s: "schedule cs q"
  shows "case pending P cs q of
      [] \<Rightarrow> least_scan P 0 cs EFI_SCT_TEST_CASE_INVALID None = None
    | g # _ \<Rightarrow> \<exists>j. least_scan P 0 cs EFI_SCT_TEST_CASE_INVALID None = Some j \<and> j < length cs \<and>
        tcGuid (cs ! j) = g \<and> P (cs ! j)"
proof (cases rule: least_scan_cases [of P cs])
  case none
  have "pending P cs q = []"
    using none(2) schedule_selected [OF s] by (fastforce simp: pending_def filter_empty_conv)
  then show ?thesis using none by simp
next
  case (least j)
  let ?c = "cs ! j"
  let ?F = "\<lambda>g. \<exists>c\<in>set cs. tcGuid c = g \<and> P c"
  have c: "?c \<in> set cs" using least(2) by simp
  have cq: "tcGuid ?c \<in> set q" "?F (tcGuid ?c)" using schedule_selected [OF s c] least(3,4) c by auto
  then have "tcGuid ?c \<in> set (pending P cs q)" by (simp add: pending_def)
  then obtain g r where g: "pending P cs q = g # r" by (cases "pending P cs q") auto
  then have gq: "g \<in> set q" "?F g" by (auto simp: pending_def filter_eq_Cons_iff)
  then obtain c' where c': "c' \<in> set cs" "tcGuid c' = g" "P c'" by auto
  then have "selected c'" using schedule_selected [OF s c'(1)] gq by simp
  then have "tcOrder ?c \<le> tcOrder c'" using least(5) c' by simp
  then have "order_in q (tcGuid ?c) \<le> order_in q g" using s c c' by (auto simp: schedule_def)
  then have "place q (tcGuid ?c) \<le> place q g"
    using order_in_less(2) [OF schedule_length [OF s] cq(1) gq(1)] by simp
  moreover have "place q g \<le> place q (tcGuid ?c)" using hd_place [OF g [unfolded pending_def] cq] .
  ultimately have "tcGuid ?c = g" using place_inj [OF cq(1) gq(1)] by simp
  then show ?thesis using g least by simp
qed

end
