(* ===== verification/Fw_Text.thy ===== *)
theory Fw_Text
  imports Sct_Hex Sct_Misc
begin

text \<open>
  The conversions of \<open>SctMisc.c\<close> the files of the framework are written with: numbers as
  \<open>0x\<close> and hexadecimal digits, GUIDs as the 36 characters of their registry format.
\<close>

section \<open>Numbers\<close>

text \<open>\<open>SctSPrint\<close> with \<open>0x%x\<close> and no limit: the digits are made by \<open>SctValueToHexStr\<close> in the scratch
  buffer of the printer and copied.\<close>

definition SctShortToHexStr :: "u32 \<Rightarrow> u16 list \<Rightarrow> (EFI_STATUS \<times> u16 list) option" where
  "SctShortToHexStr Value Buffer = do {
     d \<leftarrow> SctValueToHexStr (replicate 100 0) (ucast Value);
     t \<leftarrow> cstr d;
     b \<leftarrow> write_cells Buffer ([48, 120] @ t @ [0]);
     Some (EFI_SUCCESS, b) }"

definition SctHexStrToShort :: "u16 list \<Rightarrow> (EFI_STATUS \<times> u32) option" where
  "SctHexStrToShort Buffer = do {
     v \<leftarrow> SctXtoi Buffer;
     Some (EFI_SUCCESS, ucast v) }"

section \<open>GUIDs\<close>

text \<open>The fields of the structure in its 16 bytes, low bytes first.\<close>

fun Data1 :: "guid_words \<Rightarrow> u32" where "Data1 (w0, w1, w2, w3) = w0"
fun Data2 :: "guid_words \<Rightarrow> u16" where "Data2 (w0, w1, w2, w3) = ucast w1"
fun Data3 :: "guid_words \<Rightarrow> u16" where "Data3 (w0, w1, w2, w3) = ucast (drop_bit 16 w1)"

fun Data4 :: "guid_words \<Rightarrow> u8 list" where
  "Data4 (w0, w1, w2, w3) =
     [ucast w2, ucast (drop_bit 8 w2), ucast (drop_bit 16 w2), ucast (drop_bit 24 w2),
      ucast w3, ucast (drop_bit 8 w3), ucast (drop_bit 16 w3), ucast (drop_bit 24 w3)]"

definition word_of_bytes :: "u8 \<Rightarrow> u8 \<Rightarrow> u8 \<Rightarrow> u8 \<Rightarrow> u32" where
  "word_of_bytes a b c d = ucast a OR push_bit 8 (ucast b) OR push_bit 16 (ucast c) OR push_bit 24 (ucast d)"

definition make_guid :: "u32 \<Rightarrow> u16 \<Rightarrow> u16 \<Rightarrow> u8 list \<Rightarrow> guid_words" where
  "make_guid d1 d2 d3 d4 = (d1, ucast d2 OR push_bit 16 (ucast d3),
     word_of_bytes (d4 ! 0) (d4 ! 1) (d4 ! 2) (d4 ! 3), word_of_bytes (d4 ! 4) (d4 ! 5) (d4 ! 6) (d4 ! 7))"

lemma make_guid_fields: "make_guid (Data1 g) (Data2 g) (Data3 g) (Data4 g) = g"
proof (cases g rule: prod_cases4)
  case (fields w0 w1 w2 w3)
  have "ucast (ucast w :: u16) OR push_bit 16 (ucast (ucast (drop_bit 16 w) :: u16)) = w" for w :: u32
    by (rule bit_word_eqI) (auto simp: bit_simps)
  moreover have "word_of_bytes (ucast w) (ucast (drop_bit 8 w)) (ucast (drop_bit 16 w)) (ucast (drop_bit 24 w)) = w"
    for w :: u32
  proof (rule bit_word_eqI)
    fix n assume "n < LENGTH(32)"
    then consider "n < 8" | "8 \<le> n" "n < 16" | "16 \<le> n" "n < 24" | "24 \<le> n" "n < 32" by fastforce
    then show "bit (word_of_bytes (ucast w) (ucast (drop_bit 8 w)) (ucast (drop_bit 16 w)) (ucast (drop_bit 24 w))) n = bit w n"
      unfolding word_of_bytes_def by cases (auto simp: bit_simps)
  qed
  ultimately show ?thesis by (simp add: fields make_guid_def)
qed

text \<open>The loop that prints a field of \<open>Len\<close> digits, for the field widened to 32 bits; \<open>Mask\<close> is
  \<open>0xf0000000\<close>, \<open>0xf000\<close> or \<open>0xf0\<close>.\<close>

definition hex_char :: "u16 \<Rightarrow> u16" where
  "hex_char n = (if n < 0x0A then n + 48 else 65 + (n - 0x0A))"

definition hex_field :: "u32 \<Rightarrow> nat \<Rightarrow> u32 \<Rightarrow> u16 list" where
  "hex_field Mask Len v =
     map (\<lambda>i. hex_char (ucast (drop_bit (4 * (Len - i - 1)) (v AND drop_bit (4 * i) Mask)))) [0..<Len]"

definition guid_text :: "guid_words \<Rightarrow> u16 list" where
  "guid_text g =
     hex_field 0xf0000000 8 (Data1 g) @ [45] @ hex_field 0xf000 4 (ucast (Data2 g)) @ [45] @
     hex_field 0xf000 4 (ucast (Data3 g)) @ [45] @
     concat (map (\<lambda>b. hex_field 0xf0 2 (ucast b)) (take 2 (Data4 g))) @ [45] @
     concat (map (\<lambda>b. hex_field 0xf0 2 (ucast b)) (drop 2 (Data4 g)))"

definition SctGuidToStr :: "guid_words option \<Rightarrow> u16 list option \<Rightarrow> (EFI_STATUS \<times> u16 list option) option" where
  "SctGuidToStr Guid Buffer =
     (case (Guid, Buffer) of
        (Some g, Some b) \<Rightarrow> do {
          b \<leftarrow> write_cells b (guid_text g @ [0]);
          Some (EFI_SUCCESS, Some b) }
      | _ \<Rightarrow> Some (EFI_INVALID_PARAMETER, Buffer))"

fun SctHexStrnToInt :: "u16 list \<Rightarrow> nat \<Rightarrow> u64 \<Rightarrow> u64 option" where
  "SctHexStrnToInt s 0 Value = Some Value"
| "SctHexStrnToInt [] (Suc n) Value = None"
| "SctHexStrnToInt (c # s) (Suc n) Value =
     (if 48 \<le> c \<and> c \<le> 57 then SctHexStrnToInt s n (push_bit 4 Value + ucast (c - 48))
      else if 65 \<le> c \<and> c \<le> 70 then SctHexStrnToInt s n (push_bit 4 Value + ucast (c - 65 + 10))
      else if 97 \<le> c \<and> c \<le> 102 then SctHexStrnToInt s n (push_bit 4 Value + ucast (c - 97 + 10))
      else Some 0)"

definition SctStrToGuid :: "u16 list \<Rightarrow> (EFI_STATUS \<times> guid_words) option" where
  "SctStrToGuid b = do {
     d1 \<leftarrow> SctHexStrnToInt b 8 0;
     d2 \<leftarrow> SctHexStrnToInt (drop 9 b) 4 0;
     d3 \<leftarrow> SctHexStrnToInt (drop 14 b) 4 0;
     b0 \<leftarrow> SctHexStrnToInt (drop 19 b) 2 0;
     b1 \<leftarrow> SctHexStrnToInt (drop 21 b) 2 0;
     b2 \<leftarrow> SctHexStrnToInt (drop 24 b) 2 0;
     b3 \<leftarrow> SctHexStrnToInt (drop 26 b) 2 0;
     b4 \<leftarrow> SctHexStrnToInt (drop 28 b) 2 0;
     b5 \<leftarrow> SctHexStrnToInt (drop 30 b) 2 0;
     b6 \<leftarrow> SctHexStrnToInt (drop 32 b) 2 0;
     b7 \<leftarrow> SctHexStrnToInt (drop 34 b) 2 0;
     Some (EFI_SUCCESS, make_guid (ucast d1) (ucast d2) (ucast d3)
       (map ucast [b0, b1, b2, b3, b4, b5, b6, b7])) }"

section \<open>Reading back what was printed\<close>

fun nibbles :: "nat \<Rightarrow> u32 \<Rightarrow> u16 list" where
  "nibbles 0 v = []"
| "nibbles (Suc n) v = nibbles n (drop_bit 4 v) @ [ucast (take_bit 4 v)]"

lemma length_nibbles [simp]: "length (nibbles n v) = n"
  by (induction n arbitrary: v) auto

lemma nth_nibbles: "i < n \<Longrightarrow> nibbles n v ! i = ucast (take_bit 4 (drop_bit (4 * (n - i - 1)) v))"
proof (induction n arbitrary: v)
  case (Suc n)
  then show ?case by (cases "i = n") (auto simp: nth_append Suc_diff_Suc algebra_simps)
qed simp

lemma hex_field_nibbles:
  assumes "Mask = push_bit (4 * (Len - 1)) 15" and "Len \<le> 8"
  shows "hex_field Mask Len v = map hex_char (nibbles Len v)"
proof (rule nth_equalityI)
  fix i assume "i < length (hex_field Mask Len v)"
  then have i: "i < Len" by (simp add: hex_field_def)
  have "drop_bit (4 * (Len - i - 1)) (v AND drop_bit (4 * i) Mask) = take_bit 4 (drop_bit (4 * (Len - i - 1)) v)"
  proof (rule bit_word_eqI)
    fix k assume k: "k < LENGTH(32)"
    have m: "bit (15 :: u32) j \<longleftrightarrow> j < 4" for j
    proof -
      have "(15 :: u32) = mask 4" by (simp add: mask_eq_exp_minus_1)
      then show ?thesis by (simp only: bit_mask_iff) auto
    qed
    have "4 * i + (4 * (Len - i - 1) + k) = 4 * (Len - 1) + k" using i by simp
    then have "bit (drop_bit (4 * i) Mask) (4 * (Len - i - 1) + k) \<longleftrightarrow> 4 * (Len - 1) + k < 32 \<and> k < 4"
      unfolding assms(1) by (simp only: bit_drop_bit_eq o_apply bit_push_bit_iff m) auto
    then show "bit (drop_bit (4 * (Len - i - 1)) (v AND drop_bit (4 * i) Mask)) k =
        bit (take_bit 4 (drop_bit (4 * (Len - i - 1)) v)) k"
      using i assms(2) by (auto simp: bit_drop_bit_eq bit_and_iff bit_take_bit_iff ac_simps simp del: drop_bit_push_bit)
  qed
  then show "hex_field Mask Len v ! i = map hex_char (nibbles Len v) ! i"
    using i by (simp add: hex_field_def nth_nibbles)
qed (simp add: hex_field_def)

lemma hex_char_cases:
  assumes "n < 16"
  shows "48 \<le> hex_char n \<and> hex_char n \<le> 57 \<and> hex_char n - 48 = n \<or>
    \<not> hex_char n \<le> 57 \<and> 65 \<le> hex_char n \<and> hex_char n \<le> 70 \<and> hex_char n - 65 + 10 = n"
proof -
  have n: "unat n < 16" using assms by (simp add: word_less_nat_alt)
  show ?thesis
  proof (cases "n < 0x0A")
    case True
    then have "unat (n + 48) = unat n + 48" using n by (simp add: unat_word_ariths)
    then show ?thesis using True by (simp add: hex_char_def word_le_nat_alt word_less_nat_alt)
  next
    case False
    then have "unat (n - 0x0A) = unat n - 10" by (simp add: unat_sub not_less)
    then have "unat (65 + (n - 0x0A)) = 55 + unat n" using False n
      by (simp add: unat_word_ariths word_less_nat_alt)
    then show ?thesis using False n by (simp add: hex_char_def word_le_nat_alt word_less_nat_alt)
  qed
qed

lemma read_digits:
  "\<forall>n\<in>set ns. n < 16 \<Longrightarrow>
    SctHexStrnToInt (map hex_char ns @ r) (length ns) Value = Some (foldl (\<lambda>a x. push_bit 4 a + ucast x) Value ns)"
proof (induction ns arbitrary: Value)
  case (Cons n ns)
  then show ?case using hex_char_cases [of n] by auto
qed simp

lemma nibbles_small: "n \<in> set (nibbles k v) \<Longrightarrow> n < 16"
proof (induction k arbitrary: v)
  case (Suc k)
  have "unat (take_bit 4 v) < 16" using take_bit_nat_less_exp [of 4 "unat v"] by (simp only: unsigned_take_bit_eq) simp
  then have "unat (ucast (take_bit 4 v) :: u16) < 16" by (simp only: unsigned_ucast_eq take_bit_eq_mod) simp
  then have "(ucast (take_bit 4 v) :: u16) < 16" by (simp add: word_less_nat_alt)
  then show ?case using Suc by auto
qed simp

lemma foldl_nibbles:
  "k \<le> 8 \<Longrightarrow> foldl (\<lambda>a x. push_bit 4 a + ucast x) (0 :: u64) (nibbles k v) = ucast (take_bit (4 * k) v)"
proof (induction k arbitrary: v)
  case (Suc k)
  have s: "push_bit 4 (ucast (take_bit (4 * k) (drop_bit 4 v)) :: u64) + ucast (ucast (take_bit 4 v) :: u16) =
      push_bit 4 (ucast (take_bit (4 * k) (drop_bit 4 v))) OR ucast (ucast (take_bit 4 v) :: u16)"
    by (rule disjunctive_add) (auto simp: bit_simps)
  also have "\<dots> = ucast (take_bit (4 * Suc k) v)"
    by (rule bit_word_eqI) (auto simp: bit_simps dest: bit_imp_le_length)
  finally show ?case using Suc by simp
qed simp

lemma read_field:
  assumes "Mask = push_bit (4 * (Len - 1)) 15" and "Len \<le> 8"
  shows "SctHexStrnToInt (hex_field Mask Len v @ r) Len 0 = Some (ucast (take_bit (4 * Len) v))"
  using read_digits [of "nibbles Len v" r 0] nibbles_small foldl_nibbles [OF assms(2), of v]
  by (auto simp: hex_field_nibbles [OF assms])

lemma length_hex_field [simp]: "length (hex_field Mask Len v) = Len"
  by (simp add: hex_field_def)

lemma read_fields:
  "SctHexStrnToInt (hex_field 0xf0000000 8 v @ r) 8 0 = Some (ucast v)"
  "SctHexStrnToInt (hex_field 0xf000 4 (ucast (x :: u16)) @ r) 4 0 = Some (ucast x)"
  "SctHexStrnToInt (hex_field 0xf0 2 (ucast (y :: u8)) @ r) 2 0 = Some (ucast y)"
proof -
  have "take_bit 16 (ucast x :: u32) = ucast x" "take_bit 8 (ucast y :: u32) = ucast y" "take_bit 32 v = v"
    by (rule bit_word_eqI; auto simp: bit_simps dest: bit_imp_le_length)+
  moreover have "(ucast (ucast x :: u32) :: u64) = ucast x" "(ucast (ucast y :: u32) :: u64) = ucast y"
    by (rule bit_word_eqI; auto simp: bit_simps dest: bit_imp_le_length)+
  ultimately show "SctHexStrnToInt (hex_field 0xf0000000 8 v @ r) 8 0 = Some (ucast v)"
    "SctHexStrnToInt (hex_field 0xf000 4 (ucast (x :: u16)) @ r) 4 0 = Some (ucast x)"
    "SctHexStrnToInt (hex_field 0xf0 2 (ucast (y :: u8)) @ r) 2 0 = Some (ucast y)"
    using read_field [of "0xf0000000" 8 v r] read_field [of "0xf000" 4 "ucast x" r] read_field [of "0xf0" 2 "ucast y" r]
    by simp_all
qed

lemma guid_text_parts:
  "guid_text g = hex_field 0xf0000000 8 (Data1 g) @ 45 # hex_field 0xf000 4 (ucast (Data2 g)) @ 45 #
     hex_field 0xf000 4 (ucast (Data3 g)) @ 45 # hex_field 0xf0 2 (ucast (Data4 g ! 0)) @
     hex_field 0xf0 2 (ucast (Data4 g ! 1)) @ 45 # hex_field 0xf0 2 (ucast (Data4 g ! 2)) @
     hex_field 0xf0 2 (ucast (Data4 g ! 3)) @ hex_field 0xf0 2 (ucast (Data4 g ! 4)) @
     hex_field 0xf0 2 (ucast (Data4 g ! 5)) @ hex_field 0xf0 2 (ucast (Data4 g ! 6)) @
     hex_field 0xf0 2 (ucast (Data4 g ! 7))"
  by (cases g rule: prod_cases4) (simp add: guid_text_def numeral_2_eq_2)

lemma length_guid_text: "length (guid_text g) = 36"
  by (simp add: guid_text_parts)

lemma ucast_back:
  "(ucast (ucast (x :: u16) :: u64) :: u16) = x" "(ucast (ucast (y :: u8) :: u64) :: u8) = y"
  "(ucast (ucast (z :: u32) :: u64) :: u32) = z"
  by (rule bit_word_eqI; simp add: bit_simps)+

lemma SctStrToGuid_text: "SctStrToGuid (guid_text g @ r) = Some (EFI_SUCCESS, g)"
proof -
  have "Data4 g = [Data4 g ! 0, Data4 g ! 1, Data4 g ! 2, Data4 g ! 3, Data4 g ! 4, Data4 g ! 5, Data4 g ! 6, Data4 g ! 7]"
    by (cases g rule: prod_cases4) simp
  then have "make_guid (Data1 g) (Data2 g) (Data3 g) [Data4 g ! 0, Data4 g ! 1, Data4 g ! 2, Data4 g ! 3,
      Data4 g ! 4, Data4 g ! 5, Data4 g ! 6, Data4 g ! 7] = g"
    using make_guid_fields [of g] by simp
  then show ?thesis
    unfolding guid_text_parts SctStrToGuid_def by (simp add: read_fields ucast_back)
qed

text \<open>A number: its text has at most ten characters, digits behind \<open>0x\<close>, and is read back.\<close>

lemma SctShortToHexStr_text:
  assumes "11 \<le> length Buffer"
  obtains b s where "SctShortToHexStr v Buffer = Some (EFI_SUCCESS, b)" "cstr b = Some (48 # 120 # s)"
    "all_digits 16 s" "value_of 16 s = unat v" "s \<noteq> []" "length s \<le> 8"
    "SctHexStrToShort b = Some (EFI_SUCCESS, v)" "length b = length Buffer"
proof -
  obtain d s where d: "SctValueToHexStr (replicate 100 0) (ucast v) = Some d" "cstr d = Some s" "all_digits 16 s"
    "value_of 16 s = unat (ucast v :: u64)" "s \<noteq> []" "length s \<le> 8"
  proof -
    obtain d s where d: "SctValueToHexStr (replicate 100 0) (ucast v) = Some d" "cstr d = Some s" "all_digits 16 s"
      "value_of 16 s = unat (ucast v :: u64)" "length s \<le> 16" "s \<noteq> []"
      using SctValueToHexStr_spec [of "replicate 100 0" "ucast v"] by auto
    let ?t = "map ucast (rev (SctValueToHexStr_digits (ucast v))) :: u16 list"
    have "unat (ucast v :: u64) < 16 ^ 8"
      using unsigned_less [of v, where 'a = nat] by (simp add: unsigned_ucast_eq take_bit_nat_eq_self)
    then have t: "length ?t \<le> 8" by (simp add: length_SctValueToHexStr_digits)
    have nz: "0 \<notin> set ?t" by (rule all_digits_nz) (use SctValueToHexStr_digits_value in blast)
    have "s = [48] \<or> s = ?t"
      using d(1,2) nz by (auto simp: SctValueToHexStr_def write_cells_spec split: if_splits)
    then have "length s \<le> 8" using t by auto
    then show ?thesis using that d by blast
  qed
  let ?b = "48 # 120 # s @ 0 # drop (Suc (Suc (Suc (length s)))) Buffer"
  have z: "0 \<notin> set s" using d(2) by (rule cstr_nz)
  have w: "SctShortToHexStr v Buffer = Some (EFI_SUCCESS, ?b)"
    using d(1,2,6) assms by (simp add: SctShortToHexStr_def write_cells_spec)
  moreover have c: "cstr ?b = Some (48 # 120 # s)" using z by simp
  moreover have u: "unat (ucast v :: u64) = unat v"
    using unsigned_less [of v, where 'a = nat] by (simp add: unsigned_ucast_eq take_bit_nat_eq_self)
  moreover have "SctHexStrToShort ?b = Some (EFI_SUCCESS, v)"
  proof -
    have "num_of 16 (digits_of hex_val s) = unat v"
      using d(3,4) digits_of_all [of s hex_val] u by (simp add: value_of_def all_digits_def)
    then show ?thesis using SctXtoi_cstr [OF c] by (simp add: SctHexStrToShort_def xtoi_body_def ucast_back)
  qed
  ultimately show ?thesis using that d assms by simp
qed

end
