(* ===== verification/Fw_Nodes.thy ===== *)
theory Fw_Nodes
  imports Fw_Queue Fw_Text
begin

text \<open>
  The tree of test nodes (\<open>TestNode.c\<close>) that is built from the categories and the test files, and
  the order of the test cases that is built from the tree (\<open>BuildTestCaseOrder\<close>). The comparison
  of names, \<open>SctStriCmp\<close>, calls the Unicode collation protocol of the firmware: it is the parameter
  \<open>stri\<close>. Allocation number \<open>n\<close> succeeds when \<open>pool n\<close>. A pointer into the tree is the path of
  indices that leads to the node.
\<close>

section \<open>Test files and categories\<close>

datatype EFI_SCT_TEST_FILE_TYPE =
    EFI_SCT_TEST_FILE_TYPE_UNKNOWN
  | EFI_SCT_TEST_FILE_TYPE_BLACK_BOX
  | EFI_SCT_TEST_FILE_TYPE_WHITE_BOX
  | EFI_SCT_TEST_FILE_TYPE_APPLICATION
  | EFI_SCT_TEST_FILE_TYPE_SCRIPT
  | EFI_SCT_TEST_FILE_TYPE_IHV_BLACK_BOX
  | EFI_SCT_TEST_FILE_TYPE_SUPPORT

text \<open>The entries of the three kinds of test protocols have the same fields.\<close>

record TEST_ENTRY =
  enEntryId :: guid_words
  enName :: "u16 list"
  enDescription :: "u16 list"
  enResetRequired :: bool

record EFI_SCT_TEST_FILE =
  tfType :: EFI_SCT_TEST_FILE_TYPE
  tfCategoryGuid :: guid_words
  tfEntryList :: "TEST_ENTRY list"

definition test_type :: "EFI_SCT_TEST_FILE_TYPE \<Rightarrow> bool" where
  "test_type ty \<longleftrightarrow> ty \<in> {EFI_SCT_TEST_FILE_TYPE_IHV_BLACK_BOX, EFI_SCT_TEST_FILE_TYPE_BLACK_BOX,
     EFI_SCT_TEST_FILE_TYPE_WHITE_BOX, EFI_SCT_TEST_FILE_TYPE_APPLICATION, EFI_SCT_TEST_FILE_TYPE_SCRIPT}"

record EFI_SCT_CATEGORY_DATA =
  caIndex :: u64
  caCategoryGuid :: guid_words
  caInterfaceGuid :: guid_words
  caName :: "u16 list"
  caDescription :: "u16 list"

definition FindCategoryByGuid :: "guid_words \<Rightarrow> EFI_SCT_CATEGORY_DATA list \<Rightarrow> EFI_SCT_CATEGORY_DATA option" where
  "FindCategoryByGuid g cats = find (\<lambda>c. SctCompareGuid g (caCategoryGuid c) = 0) cats"

text \<open>\<open>FindTestFileByCaseGuid\<close>: the file and the entry.\<close>

fun FindTestFileByCaseGuid :: "guid_words \<Rightarrow> EFI_SCT_TEST_FILE list \<Rightarrow>
    EFI_STATUS \<times> (EFI_SCT_TEST_FILE \<times> TEST_ENTRY) option" where
  "FindTestFileByCaseGuid g [] = (EFI_NOT_FOUND, None)"
| "FindTestFileByCaseGuid g (f # fs) =
     (if test_type (tfType f)
      then (case find (\<lambda>e. SctCompareGuid g (enEntryId e) = 0) (tfEntryList f) of
              Some e \<Rightarrow> (EFI_SUCCESS, Some (f, e))
            | None \<Rightarrow> FindTestFileByCaseGuid g fs)
      else (EFI_UNSUPPORTED, None))"

text \<open>\<open>SctStrDuplicate\<close>, for a text and an allocation that succeeds or fails.\<close>

definition duplicate :: "(nat \<Rightarrow> bool) \<Rightarrow> nat \<Rightarrow> u16 list \<Rightarrow> u16 list option" where
  "duplicate pool n s = (if pool n then Some s else None)"

text \<open>\<open>CreateTestCases\<close>: a test case for every entry of every file.\<close>

fun create_entries :: "(nat \<Rightarrow> bool) \<Rightarrow> nat \<Rightarrow> TEST_ENTRY list \<Rightarrow> EFI_SCT_TEST_CASE list \<Rightarrow>
    EFI_STATUS \<times> nat \<times> EFI_SCT_TEST_CASE list" where
  "create_entries pool n [] cs = (EFI_SUCCESS, n, cs)"
| "create_entries pool n (e # es) cs =
     (case CreateSingleTestCase (pool n) of
        (st, None) \<Rightarrow> (st, n + 1, cs)
      | (_, Some c) \<Rightarrow> create_entries pool (n + 2) es
          (InsertSingleTestCase cs (c\<lparr>tcGuid := enEntryId e, tcName := duplicate pool (n + 1) (enName e)\<rparr>)))"

fun CreateTestCases :: "(nat \<Rightarrow> bool) \<Rightarrow> nat \<Rightarrow> EFI_SCT_TEST_FILE list \<Rightarrow> EFI_SCT_TEST_CASE list \<Rightarrow>
    EFI_STATUS \<times> nat \<times> EFI_SCT_TEST_CASE list" where
  "CreateTestCases pool n [] cs = (EFI_SUCCESS, n, cs)"
| "CreateTestCases pool n (f # fs) cs =
     (if test_type (tfType f)
      then (case create_entries pool n (tfEntryList f) cs of
              (st, n, cs) \<Rightarrow> if EFI_ERROR st then (st, n, cs) else CreateTestCases pool n fs cs)
      else (EFI_UNSUPPORTED, n, cs))"

section \<open>Test nodes\<close>

datatype EFI_SCT_TEST_NODE_TYPE =
    EFI_SCT_TEST_NODE_TYPE_UNKNOWN
  | EFI_SCT_TEST_NODE_TYPE_CATEGORY
  | EFI_SCT_TEST_NODE_TYPE_CASE

datatype EFI_SCT_TEST_NODE =
  Node (ndIndex: u64) (ndName: "u16 list option") (ndDescription: "u16 list option")
    (ndType: EFI_SCT_TEST_NODE_TYPE) (ndGuid: guid_words) (ndChild: "EFI_SCT_TEST_NODE list")

type_synonym collation = "u16 list option \<Rightarrow> u16 list \<Rightarrow> int"

text \<open>\<open>AddTestNode\<close> puts a node in front of the first one with a larger index, or the same index
  and a larger name. Three allocations: the node and its two texts, of which only the first is
  tested. The result has the place of the new node.\<close>

definition behind :: "collation \<Rightarrow> u64 \<Rightarrow> u16 list \<Rightarrow> EFI_SCT_TEST_NODE \<Rightarrow> bool" where
  "behind stri Index Name Last \<longleftrightarrow>
     ndIndex Last > Index \<or> ndIndex Last = Index \<and> stri (ndName Last) Name > 0"

definition AddTestNode :: "collation \<Rightarrow> (nat \<Rightarrow> bool) \<Rightarrow> nat \<Rightarrow> u64 \<Rightarrow> u16 list \<Rightarrow> u16 list \<Rightarrow>
    EFI_SCT_TEST_NODE_TYPE \<Rightarrow> guid_words \<Rightarrow> EFI_SCT_TEST_NODE list \<Rightarrow> nat \<times> nat option \<times> EFI_SCT_TEST_NODE list" where
  "AddTestNode stri pool n Index Name Description Type Guid ns =
     (if \<not> pool n then (n + 1, None, ns)
      else (let node = Node Index (duplicate pool (n + 1) Name) (duplicate pool (n + 2) Description)
                  Type Guid [];
                pre = takeWhile (\<lambda>l. \<not> behind stri Index Name l) ns;
                post = dropWhile (\<lambda>l. \<not> behind stri Index Name l) ns
            in (n + 3, Some (length pre), pre @ [node] @ post)))"

fun FindTestNodeByName :: "collation \<Rightarrow> u16 list \<Rightarrow> EFI_SCT_TEST_NODE list \<Rightarrow> nat \<Rightarrow> nat option" where
  "FindTestNodeByName stri Name [] i = None"
| "FindTestNodeByName stri Name (l # ls) i =
     (if stri (ndName l) Name = 0 then Some i else FindTestNodeByName stri Name ls (i + 1))"

text \<open>A path leads to a node; the list of its children is read and replaced.\<close>

fun child_at :: "nat list \<Rightarrow> EFI_SCT_TEST_NODE list \<Rightarrow> EFI_SCT_TEST_NODE list" where
  "child_at [] ns = ns"
| "child_at (i # is) ns = child_at is (ndChild (ns ! i))"

definition with_child :: "EFI_SCT_TEST_NODE list \<Rightarrow> EFI_SCT_TEST_NODE \<Rightarrow> EFI_SCT_TEST_NODE" where
  "with_child ch l = Node (ndIndex l) (ndName l) (ndDescription l) (ndType l) (ndGuid l) ch"

fun update_at :: "nat list \<Rightarrow> EFI_SCT_TEST_NODE list \<Rightarrow> EFI_SCT_TEST_NODE list \<Rightarrow> EFI_SCT_TEST_NODE list" where
  "update_at [] ch ns = ch"
| "update_at (i # is) ch ns = ns[i := with_child (update_at is ch (ndChild (ns ! i))) (ns ! i)]"

text \<open>
  The walk of \<open>AddRootTestNode\<close> over the name of a category. \<open>s\<close> is the text from \<open>End\<close> on. When a
  token is empty the pointer \<open>Token\<close> is not moved, so \<open>stuck\<close> stays true and every later token is
  empty as well. \<open>path\<close> leads to the list \<open>SubList\<close>; the result is the path of the root node, empty
  when there is none.
\<close>

definition separator :: "u16 \<Rightarrow> bool" where
  "separator c \<longleftrightarrow> c = 92 \<or> c = 47"

lemma length_dropWhile_less: "x \<in> set s \<Longrightarrow> length (dropWhile P s) - Suc 0 < length s"
  using length_dropWhile_le [of P s] by (cases s) auto

function root_walk :: "collation \<Rightarrow> (nat \<Rightarrow> bool) \<Rightarrow> u64 \<Rightarrow> u16 list \<Rightarrow> guid_words \<Rightarrow>
    nat \<Rightarrow> u16 list \<Rightarrow> bool \<Rightarrow> nat list \<Rightarrow> EFI_SCT_TEST_NODE list \<Rightarrow> nat \<times> nat list \<times> EFI_SCT_TEST_NODE list" where
  "root_walk stri pool Index Description Guid n s stuck path ns =
     (let Token = takeWhile (\<lambda>c. \<not> separator c) s;
          rest = dropWhile (\<lambda>c. \<not> separator c) s;
          IsEnd = (rest = [])
      in if stuck \<or> Token = [] then
           (if IsEnd then (n, path, ns) else root_walk stri pool Index Description Guid n (tl rest) True path ns)
         else
           (case FindTestNodeByName stri Token (child_at path ns) 0 of
              Some i \<Rightarrow>
                (if IsEnd then (n, path @ [i], ns)
                 else root_walk stri pool Index Description Guid n (tl rest) False (path @ [i]) ns)
            | None \<Rightarrow>
                (case AddTestNode stri pool n Index Token (if IsEnd then Description else [])
                    EFI_SCT_TEST_NODE_TYPE_CATEGORY (if IsEnd then Guid else (0, 0, 0, 0)) (child_at path ns) of
                   (n, None, _) \<Rightarrow> (n, path, ns)
                 | (n, Some i, SubList) \<Rightarrow>
                     (if IsEnd then (n, path @ [i], update_at path SubList ns)
                      else root_walk stri pool Index Description Guid n (tl rest) False (path @ [i])
                        (update_at path SubList ns)))))"
  by pat_completeness auto
termination
  by (relation "measure (\<lambda>(stri, pool, Index, Description, Guid, n, s, stuck, path, ns). length s)")
    (auto simp: Let_def intro: length_dropWhile_less)

declare root_walk.simps [simp del]

text \<open>\<open>None\<close>: the copy of the name is not tested before it is read.\<close>

definition AddRootTestNode :: "collation \<Rightarrow> (nat \<Rightarrow> bool) \<Rightarrow> nat \<Rightarrow> u64 \<Rightarrow> u16 list \<Rightarrow> u16 list \<Rightarrow> guid_words \<Rightarrow>
    EFI_SCT_TEST_NODE list \<Rightarrow> (nat \<times> nat list \<times> EFI_SCT_TEST_NODE list) option" where
  "AddRootTestNode stri pool n Index Name Description Guid ns =
     (if pool n then Some (root_walk stri pool Index Description Guid (n + 1) Name False [] ns) else None)"

text \<open>The loop of \<open>InsertEntryListToTestNode\<close> over the entries; the cases of the switch differ in the
  types of the entries only. The index of a test case is the largest one.\<close>

fun insert_entries :: "collation \<Rightarrow> (nat \<Rightarrow> bool) \<Rightarrow> nat \<Rightarrow> TEST_ENTRY list \<Rightarrow> EFI_SCT_TEST_NODE list \<Rightarrow>
    nat \<times> EFI_SCT_TEST_NODE list" where
  "insert_entries stri pool n [] ns = (n, ns)"
| "insert_entries stri pool n (e # es) ns =
     (case AddTestNode stri pool n (-1) (enName e) (enDescription e) EFI_SCT_TEST_NODE_TYPE_CASE (enEntryId e) ns of
        (n, None, _) \<Rightarrow> (n, ns)
      | (n, Some _, ns) \<Rightarrow> insert_entries stri pool n es ns)"

definition InsertEntryListToTestNode :: "collation \<Rightarrow> (nat \<Rightarrow> bool) \<Rightarrow> nat \<Rightarrow> EFI_SCT_TEST_FILE_TYPE \<Rightarrow>
    TEST_ENTRY list \<Rightarrow> nat list \<Rightarrow> EFI_SCT_TEST_NODE list \<Rightarrow> EFI_STATUS \<times> nat \<times> EFI_SCT_TEST_NODE list" where
  "InsertEntryListToTestNode stri pool n Type es RootNode ns =
     (if es = [] \<or> RootNode = [] then (EFI_INVALID_PARAMETER, n, ns)
      else if \<not> test_type Type then (EFI_UNSUPPORTED, n, ns)
      else (case insert_entries stri pool n es (child_at RootNode ns) of
              (n, ch) \<Rightarrow> (EFI_SUCCESS, n, update_at RootNode ch ns)))"

text \<open>The texts \<open>CategoryName\<close> and \<open>CategoryDescription\<close> are the allocations \<open>n\<close> and \<open>n + 1\<close>.\<close>

definition category_of :: "EFI_SCT_CATEGORY_DATA list \<Rightarrow> guid_words \<Rightarrow> u64 \<times> u16 list \<times> u16 list" where
  "category_of cats g =
     (case FindCategoryByGuid g cats of
        None \<Rightarrow> (-1, [85, 110, 107, 110, 111, 119, 110, 92] @ guid_text g, [])
      | Some c \<Rightarrow> (caIndex c, caName c, caDescription c))"

fun CreateTestNodes :: "collation \<Rightarrow> (nat \<Rightarrow> bool) \<Rightarrow> EFI_SCT_CATEGORY_DATA list \<Rightarrow> nat \<Rightarrow>
    EFI_SCT_TEST_FILE list \<Rightarrow> EFI_SCT_TEST_NODE list \<Rightarrow> (EFI_STATUS \<times> nat \<times> EFI_SCT_TEST_NODE list) option" where
  "CreateTestNodes stri pool cats n [] ns = Some (EFI_SUCCESS, n, ns)"
| "CreateTestNodes stri pool cats n (f # fs) ns =
     (if \<not> test_type (tfType f) then Some (EFI_UNSUPPORTED, n, ns)
      else if tfEntryList f = [] then CreateTestNodes stri pool cats n fs ns
      else if \<not> pool n \<or> \<not> pool (n + 1) then CreateTestNodes stri pool cats (n + 2) fs ns
      else (case category_of cats (tfCategoryGuid f) of (Index, Name, Description) \<Rightarrow>
        (case AddRootTestNode stri pool (n + 2) Index Name Description (tfCategoryGuid f) ns of
           None \<Rightarrow> None
         | Some (n, RootNode, ns) \<Rightarrow>
             (case InsertEntryListToTestNode stri pool n (tfType f) (tfEntryList f) RootNode ns of
                (_, n, ns) \<Rightarrow> CreateTestNodes stri pool cats n fs ns))))"

section \<open>The order of the test cases\<close>

fun BuildTestCaseOrderFromNode :: "EFI_SCT_TEST_NODE list \<Rightarrow> u32 \<times> EFI_SCT_TEST_CASE list \<Rightarrow> u32 \<times> EFI_SCT_TEST_CASE list" where
  "BuildTestCaseOrderFromNode [] s = s"
| "BuildTestCaseOrderFromNode (Node x nm d t g ch # ns) s =
     BuildTestCaseOrderFromNode ns
       (if ch = [] then
          (case s of (Ord, cs) \<Rightarrow>
             (case FindTestCaseByGuid (Some g) cs of
                (_, None) \<Rightarrow> (Ord, cs)
              | (_, Some i) \<Rightarrow> (Ord + 1, cs[i := (cs ! i)\<lparr>tcOrder := Ord, tcIterations := 1\<rparr>])))
        else BuildTestCaseOrderFromNode ch s)"

definition BuildTestCaseOrder :: "EFI_SCT_TEST_NODE list \<Rightarrow> EFI_SCT_TEST_CASE list \<Rightarrow> EFI_STATUS \<times> EFI_SCT_TEST_CASE list" where
  "BuildTestCaseOrder ns cs = (EFI_SUCCESS, snd (BuildTestCaseOrderFromNode ns (0, cs)))"

text \<open>
  \<open>DoPreOperationAll\<close> (\<open>Operation.c\<close>): the test cases of the files take over what the old list knows
  of them, their orders are reset, and the tree is built and numbers them again.
\<close>

definition DoPreOperationAll :: "collation \<Rightarrow> (nat \<Rightarrow> bool) \<Rightarrow> EFI_SCT_CATEGORY_DATA list \<Rightarrow> EFI_SCT_TEST_FILE list \<Rightarrow>
    nat \<Rightarrow> EFI_SCT_TEST_CASE list \<Rightarrow> EFI_SCT_TEST_NODE list \<Rightarrow>
    (EFI_STATUS \<times> nat \<times> EFI_SCT_TEST_CASE list \<times> EFI_SCT_TEST_NODE list) option" where
  "DoPreOperationAll stri pool cats fs n TestCaseList TestNodeList =
     (case CreateTestCases pool n fs [] of (st, n, cs) \<Rightarrow>
        if EFI_ERROR st then Some (st, n, TestCaseList, TestNodeList)
        else (let cs = ResetTestCaseOrder (MergeTestCases cs TestCaseList) in
          (case CreateTestNodes stri pool cats n fs TestNodeList of
             None \<Rightarrow> None
           | Some (st, n, ns) \<Rightarrow>
               if EFI_ERROR st then Some (st, n, cs, ns)
               else (case BuildTestCaseOrder ns cs of (st, cs) \<Rightarrow> Some (st, n, cs, ns)))))"

end
