(* ===== verification/Fw_Tree.thy ===== *)
theory Fw_Tree
  imports Fw_Nodes "HOL-Library.Multiset" "HOL-Library.Product_Lexorder"
begin

text \<open>
  What the tree of test nodes is: \<open>graft\<close> says how the entries of one test file enter it, without
  paths, and \<open>CreateTestNodes\<close> is proved to graft the files one after the other when the pool has
  memory. The invariants of the tree are proved of \<open>graft\<close>.
\<close>

section \<open>Paths\<close>

fun valid_path :: "nat list \<Rightarrow> EFI_SCT_TEST_NODE list \<Rightarrow> bool" where
  "valid_path [] ns \<longleftrightarrow> True"
| "valid_path (i # is) ns \<longleftrightarrow> i < length ns \<and> valid_path is (ndChild (ns ! i))"

lemma with_child_sel [simp]:
  "ndIndex (with_child ch l) = ndIndex l" "ndName (with_child ch l) = ndName l"
  "ndType (with_child ch l) = ndType l" "ndGuid (with_child ch l) = ndGuid l" "ndChild (with_child ch l) = ch"
  "with_child a (with_child b l) = with_child a l" "with_child (ndChild l) l = l"
  by (simp_all add: with_child_def)

lemma child_at_snoc: "child_at (p @ [i]) ns = ndChild (child_at p ns ! i)"
  by (induction p arbitrary: ns) auto

lemma valid_path_snoc: "valid_path (p @ [i]) ns \<longleftrightarrow> valid_path p ns \<and> i < length (child_at p ns)"
  by (induction p arbitrary: ns) auto

lemma update_at_snoc:
  "update_at (p @ [i]) ch ns = update_at p ((child_at p ns)[i := with_child ch (child_at p ns ! i)]) ns"
  by (induction p arbitrary: ns) auto

lemma child_update_at [simp]: "valid_path p ns \<Longrightarrow> child_at p (update_at p ch ns) = ch"
  by (induction p arbitrary: ns) auto

lemma valid_update_at [simp]: "valid_path p ns \<Longrightarrow> valid_path p (update_at p ch ns)"
  by (induction p arbitrary: ns) auto

lemma update_update_at [simp]: "valid_path p ns \<Longrightarrow> update_at p a (update_at p b ns) = update_at p a ns"
  by (induction p arbitrary: ns) auto

section \<open>Grafting\<close>

definition add_node :: "collation \<Rightarrow> EFI_SCT_TEST_NODE \<Rightarrow> EFI_SCT_TEST_NODE list \<Rightarrow> EFI_SCT_TEST_NODE list" where
  "add_node stri l ns =
     (let B = behind stri (ndIndex l) (the (ndName l))
      in takeWhile (\<lambda>l. \<not> B l) ns @ [l] @ dropWhile (\<lambda>l. \<not> B l) ns)"

definition case_node :: "TEST_ENTRY \<Rightarrow> EFI_SCT_TEST_NODE" where
  "case_node e = Node (-1) (Some (enName e)) (Some (enDescription e)) EFI_SCT_TEST_NODE_TYPE_CASE (enEntryId e) []"

definition add_cases :: "collation \<Rightarrow> TEST_ENTRY list \<Rightarrow> EFI_SCT_TEST_NODE list \<Rightarrow> EFI_SCT_TEST_NODE list" where
  "add_cases stri es ns = foldl (\<lambda>ns e. add_node stri (case_node e) ns) ns es"

text \<open>The tokens of a name up to the first empty one, and whether the text ends with the token.\<close>

function tokens :: "u16 list \<Rightarrow> (u16 list \<times> bool) list" where
  "tokens s =
     (let Token = takeWhile (\<lambda>c. \<not> separator c) s;
          rest = dropWhile (\<lambda>c. \<not> separator c) s
      in if Token = [] then []
         else if rest = [] then [(Token, True)] else (Token, False) # tokens (tl rest))"
  by pat_completeness auto
termination
  by (relation "measure length") (auto intro: length_dropWhile_less)

declare tokens.simps [simp del]

fun graft :: "collation \<Rightarrow> u64 \<Rightarrow> u16 list \<Rightarrow> guid_words \<Rightarrow> (u16 list \<times> bool) list \<Rightarrow> TEST_ENTRY list \<Rightarrow>
    EFI_SCT_TEST_NODE list \<Rightarrow> EFI_SCT_TEST_NODE list" where
  "graft stri x d g [] es ns = add_cases stri es ns"
| "graft stri x d g ((t, IsEnd) # ts) es ns =
     (case FindTestNodeByName stri t ns 0 of
        Some i \<Rightarrow> ns[i := with_child (graft stri x d g ts es (ndChild (ns ! i))) (ns ! i)]
      | None \<Rightarrow> add_node stri (Node x (Some t) (Some (if IsEnd then d else [])) EFI_SCT_TEST_NODE_TYPE_CATEGORY
          (if IsEnd then g else (0, 0, 0, 0)) (graft stri x d g ts es [])) ns)"

lemma FindTestNodeByName_Some:
  "FindTestNodeByName stri t ns k = Some i \<Longrightarrow>
    k \<le> i \<and> i - k < length ns \<and> stri (ndName (ns ! (i - k))) t = 0"
proof (induction ns arbitrary: k)
  case (Cons l ls)
  show ?case
  proof (cases "stri (ndName l) t = 0")
    case False
    then show ?thesis using Cons.IH [of "k + 1"] Cons.prems by (auto simp: nth_Cons')
  qed (use Cons.prems in auto)
qed simp

abbreviation full :: "nat \<Rightarrow> bool" where "full \<equiv> (\<lambda>_. True)"

lemma AddTestNode_full:
  "AddTestNode stri full n x t d ty g ns =
     (n + 3, Some (length (takeWhile (\<lambda>l. \<not> behind stri x t l) ns)),
      add_node stri (Node x (Some t) (Some d) ty g []) ns)"
  by (simp add: AddTestNode_def duplicate_def add_node_def Let_def)

lemma add_node_child:
  assumes "i = length (takeWhile (\<lambda>l. \<not> behind stri (ndIndex l0) (the (ndName l0)) l) ns)"
  shows "i < length (add_node stri l0 ns)" and "add_node stri l0 ns ! i = l0"
    and "(add_node stri l0 ns)[i := with_child ch l0] = add_node stri (with_child ch l0) ns"
  using assms by (simp_all add: add_node_def Let_def)

lemma insert_entries_full: "\<exists>n'. insert_entries stri full n es ns = (n', add_cases stri es ns)"
  by (induction es arbitrary: n ns) (auto simp: AddTestNode_full add_cases_def case_node_def)

lemma root_walk_stuck: "root_walk stri pool x d g n s True path ns = (n, path, ns)"
proof (induction "length s" arbitrary: s rule: less_induct)
  case less
  let ?r = "dropWhile (\<lambda>c. \<not> separator c) s"
  have "root_walk stri pool x d g n (tl ?r) True path ns = (n, path, ns)" if "?r \<noteq> []"
    by (rule less) (use that in \<open>auto intro: length_dropWhile_less\<close>)
  then show ?case by (subst root_walk.simps) (simp add: Let_def)
qed

lemma root_walk_graft:
  "valid_path path ns \<Longrightarrow> root_walk stri full x d g n s False path ns = (n', path', ns') \<Longrightarrow>
    valid_path path' ns' \<and> (tokens s \<noteq> [] \<or> path \<noteq> [] \<longrightarrow> path' \<noteq> []) \<and>
    update_at path' (add_cases stri es (child_at path' ns')) ns' =
      update_at path (graft stri x d g (tokens s) es (child_at path ns)) ns"
proof (induction "length s" arbitrary: s n path ns rule: less_induct)
  case less
  let ?P = "\<lambda>c. \<not> separator c"
  let ?t = "takeWhile ?P s" and ?r = "dropWhile ?P s" and ?S = "child_at path ns"
  note step = less.prems(2) [unfolded root_walk.simps [of stri full x d g n s]]
  show ?case
  proof (cases "?t = []")
    case True
    then have "n' = n \<and> path' = path \<and> ns' = ns" using step by (simp add: Let_def root_walk_stuck split: if_splits)
    moreover have "tokens s = []" using True by (subst tokens.simps) (simp add: Let_def)
    ultimately show ?thesis using less.prems(1) by simp
  next
    case False
    have tok: "tokens s = (?t, ?r = []) # (if ?r = [] then [] else tokens (tl ?r))"
      using False by (subst tokens.simps) (simp add: Let_def)
    have short: "length (tl ?r) < length s" if "?r \<noteq> []" using that by (auto intro: length_dropWhile_less)
    show ?thesis
    proof (cases "FindTestNodeByName stri ?t ?S 0")
      case (Some i)
      have i: "i < length ?S" using FindTestNodeByName_Some [OF Some] by simp
      then have v: "valid_path (path @ [i]) ns" using less.prems(1) by (simp add: valid_path_snoc)
      show ?thesis
      proof (cases "?r = []")
        case True
        then have "n' = n \<and> path' = path @ [i] \<and> ns' = ns" using step False Some by simp
        then show ?thesis using v tok True Some by (simp add: update_at_snoc child_at_snoc)
      next
        case r: False
        have "root_walk stri full x d g n (tl ?r) False (path @ [i]) ns = (n', path', ns')"
          using step False Some r by (simp del: dropWhile_eq_Nil_conv)
        from less.hyps [OF short [OF r] v this] show ?thesis
          using tok r Some by (simp add: update_at_snoc child_at_snoc del: dropWhile_eq_Nil_conv)
      qed
    next
      case None
      define D G where "D = (if ?r = [] then d else [])" and "G = (if ?r = [] then g else (0, 0, 0, 0))"
      let ?l = "Node x (Some ?t) (Some D) EFI_SCT_TEST_NODE_TYPE_CATEGORY G []"
      define i where "i = length (takeWhile (\<lambda>l. \<not> behind stri x ?t l) ?S)"
      have l: "i < length (add_node stri ?l ?S)" "add_node stri ?l ?S ! i = ?l"
        "(add_node stri ?l ?S)[i := with_child ch ?l] = add_node stri (with_child ch ?l) ?S" for ch
        using add_node_child(1,2) [of i stri ?l ?S] add_node_child(3) [of i stri ?l ?S ch] by (simp_all add: i_def)
      let ?ns = "update_at path (add_node stri ?l ?S) ns"
      have v: "valid_path (path @ [i]) ?ns" using less.prems(1) l(1) by (simp add: valid_path_snoc)
      have c: "child_at (path @ [i]) ?ns = []" using less.prems(1) l(2) by (simp add: child_at_snoc)
      have u: "update_at (path @ [i]) ch ?ns = update_at path (add_node stri (with_child ch ?l) ?S) ns" for ch
        using less.prems(1) l(2,3) by (simp add: update_at_snoc)
      show ?thesis
      proof (cases "?r = []")
        case True
        then have "n' = n + 3 \<and> path' = path @ [i] \<and> ns' = ?ns"
          using step False None by (simp add: Let_def AddTestNode_full i_def D_def G_def)
        then show ?thesis using v c u tok True None by (simp add: with_child_def D_def G_def)
      next
        case r: False
        have "root_walk stri full x d g (n + 3) (tl ?r) False (path @ [i]) ?ns = (n', path', ns')"
          using step False None r by (simp add: Let_def AddTestNode_full i_def D_def G_def del: dropWhile_eq_Nil_conv)
        from less.hyps [OF short [OF r] v this] show ?thesis
          unfolding u c using tok r None by (simp add: with_child_def D_def G_def del: dropWhile_eq_Nil_conv)
      qed
    qed
  qed
qed

section \<open>The files\<close>

definition graft_file :: "collation \<Rightarrow> EFI_SCT_CATEGORY_DATA list \<Rightarrow> EFI_SCT_TEST_FILE \<Rightarrow> EFI_SCT_TEST_NODE list \<Rightarrow>
    EFI_SCT_TEST_NODE list" where
  "graft_file stri cats f ns =
     (if tfEntryList f = [] then ns
      else (case category_of cats (tfCategoryGuid f) of (x, t, d) \<Rightarrow>
        graft stri x d (tfCategoryGuid f) (tokens t) (tfEntryList f) ns))"

definition named :: "EFI_SCT_CATEGORY_DATA list \<Rightarrow> bool" where
  "named cats \<longleftrightarrow> (\<forall>c\<in>set cats. caName c \<noteq> [] \<and> \<not> separator (hd (caName c)))"

lemma tokens_nonempty: "t \<noteq> [] \<Longrightarrow> \<not> separator (hd t) \<Longrightarrow> tokens t \<noteq> []"
  by (subst tokens.simps) (cases t; simp add: Let_def)

lemma category_tokens: "named cats \<Longrightarrow> category_of cats g = (x, t, d) \<Longrightarrow> tokens t \<noteq> []"
  by (rule tokens_nonempty)
    (auto simp: category_of_def named_def separator_def FindCategoryByGuid_def find_Some_iff split: option.splits)

lemma CreateTestNodes_graft:
  "named cats \<Longrightarrow> list_all (\<lambda>f. test_type (tfType f)) fs \<Longrightarrow>
    \<exists>n'. CreateTestNodes stri full cats n fs ns =
      Some (EFI_SUCCESS, n', foldl (\<lambda>ns f. graft_file stri cats f ns) ns fs)"
proof (induction fs arbitrary: n ns)
  case (Cons f fs)
  note IH = Cons.IH [OF Cons.prems(1)]
  have ty: "test_type (tfType f)" "list_all (\<lambda>f. test_type (tfType f)) fs" using Cons.prems(2) by simp_all
  show ?case
  proof (cases "tfEntryList f = []")
    case True
    then show ?thesis using ty IH by (simp add: graft_file_def)
  next
    case False
    obtain x t d where c: "category_of cats (tfCategoryGuid f) = (x, t, d)" by (cases "category_of cats (tfCategoryGuid f)")
    have t: "tokens t \<noteq> []" by (rule category_tokens [OF Cons.prems(1) c])
    obtain n1 root ns1 where w: "root_walk stri full x d (tfCategoryGuid f) (n + 2 + 1) t False [] ns = (n1, root, ns1)"
      by (cases "root_walk stri full x d (tfCategoryGuid f) (n + 2 + 1) t False [] ns")
    note g = root_walk_graft [OF _ w, of "tfEntryList f", simplified, rule_format]
    obtain n2 where i: "insert_entries stri full n1 (tfEntryList f) (child_at root ns1) =
        (n2, add_cases stri (tfEntryList f) (child_at root ns1))" using insert_entries_full by blast
    have "CreateTestNodes stri full cats n (f # fs) ns = CreateTestNodes stri full cats n2 fs (graft_file stri cats f ns)"
      using ty False c w g t i by (simp add: AddRootTestNode_def InsertEntryListToTestNode_def graft_file_def)
    then show ?thesis using IH [OF ty(2), of n2 "graft_file stri cats f ns"] by simp
  qed
qed simp

end
