(* ===== verification/Fw_Load.thy ===== *)
theory Fw_Load
  imports Fw_Tree
begin

text \<open>
  Invariants of the tree of test nodes, and what the operation ALL leaves: every test case of the
  files is selected once, and the queue is the order of the leaves of the tree.
\<close>

section \<open>Test cases and leaves of a tree\<close>

fun cases_of :: "EFI_SCT_TEST_NODE \<Rightarrow> (u16 list option \<times> guid_words) list" where
  "cases_of (Node x nm d t g ch) = (if t = EFI_SCT_TEST_NODE_TYPE_CASE then [(nm, g)] else []) @ concat (map cases_of ch)"

fun leaves_of :: "EFI_SCT_TEST_NODE \<Rightarrow> guid_words list" where
  "leaves_of (Node x nm d t g ch) = (if ch = [] then [g] else concat (map leaves_of ch))"

definition tree_cases :: "EFI_SCT_TEST_NODE list \<Rightarrow> (u16 list option \<times> guid_words) list" where
  "tree_cases ns = concat (map cases_of ns)"

definition leaves :: "EFI_SCT_TEST_NODE list \<Rightarrow> guid_words list" where
  "leaves ns = concat (map leaves_of ns)"

lemma leaves_simps [simp]:
  "leaves [] = []" "leaves (Node x nm d t g ch # ns) = (if ch = [] then [g] else leaves ch) @ leaves ns"
  by (simp_all add: leaves_def)

text \<open>Every leaf is a test case, and no test case has children.\<close>

fun leaf_case :: "EFI_SCT_TEST_NODE \<Rightarrow> bool" where
  "leaf_case (Node x nm d t g ch) \<longleftrightarrow> (ch = [] \<longrightarrow> t = EFI_SCT_TEST_NODE_TYPE_CASE) \<and> list_all leaf_case ch"

fun case_leaf :: "EFI_SCT_TEST_NODE \<Rightarrow> bool" where
  "case_leaf (Node x nm d t g ch) \<longleftrightarrow> (t = EFI_SCT_TEST_NODE_TYPE_CASE \<longrightarrow> ch = []) \<and> list_all case_leaf ch"

text \<open>Siblings are sorted by index and name.\<close>

definition rank :: "(u16 list \<Rightarrow> 'k) \<Rightarrow> EFI_SCT_TEST_NODE \<Rightarrow> u64 \<times> 'k" where
  "rank key l = (ndIndex l, key (the (ndName l)))"

fun sorted_node :: "(u16 list \<Rightarrow> 'k::linorder) \<Rightarrow> EFI_SCT_TEST_NODE \<Rightarrow> bool" where
  "sorted_node key (Node x nm d t g ch) \<longleftrightarrow>
     nm \<noteq> None \<and> sorted (map (rank key) ch) \<and> list_all (sorted_node key) ch"

definition sorted_tree :: "(u16 list \<Rightarrow> 'k::linorder) \<Rightarrow> EFI_SCT_TEST_NODE list \<Rightarrow> bool" where
  "sorted_tree key ns \<longleftrightarrow> sorted (map (rank key) ns) \<and> list_all (sorted_node key) ns"

text \<open>The collation compares names by a key in some linear order, as a lexical comparison does by the list
  of the weights of the characters.\<close>

definition collates :: "collation \<Rightarrow> (u16 list \<Rightarrow> 'k::linorder) \<Rightarrow> bool" where
  "collates stri key \<longleftrightarrow> (\<forall>a b. stri (Some a) b > 0 \<longleftrightarrow> key a > key b)"

section \<open>What grafting keeps\<close>

lemma add_node_perm: "mset (add_node stri l ns) = add_mset l (mset ns)"
proof -
  let ?B = "\<lambda>x. \<not> behind stri (ndIndex l) (the (ndName l)) x"
  have "mset ns = mset (takeWhile ?B ns) + mset (dropWhile ?B ns)"
    by (metis mset_append takeWhile_dropWhile_id)
  then show ?thesis by (simp add: add_node_def Let_def)
qed

lemma set_add_node [simp]: "set (add_node stri l ns) = insert l (set ns)"
  using add_node_perm by (metis set_mset_add_mset_insert set_mset_mset)

lemma mset_concat_map: "mset xs = mset ys \<Longrightarrow> mset (concat (map F xs)) = mset (concat (map F ys))"
  by (simp add: mset_concat) (metis mset_map sum_mset_sum_list)

lemma cases_add_node: "mset (tree_cases (add_node stri l ns)) = mset (cases_of l) + mset (tree_cases ns)"
  using mset_concat_map [of "add_node stri l ns" "l # ns" cases_of] add_node_perm by (simp add: tree_cases_def)

lemma cases_with_child:
  assumes "i < length ns"
  shows "mset (tree_cases (ns[i := with_child ch (ns ! i)])) + mset (tree_cases (ndChild (ns ! i))) =
    mset (tree_cases ns) + mset (tree_cases ch)"
proof -
  have split: "ns = take i ns @ ns ! i # drop (Suc i) ns" using assms by (rule id_take_nth_drop)
  obtain x nm d t g c where l: "ns ! i = Node x nm d t g c" by (cases "ns ! i")
  have "tree_cases ns = tree_cases (take i ns) @ cases_of (ns ! i) @ tree_cases (drop (Suc i) ns)"
    by (subst split) (simp add: tree_cases_def)
  then show ?thesis
    unfolding upd_conv_take_nth_drop [OF assms] by (simp add: tree_cases_def l with_child_def)
qed

definition entry_case :: "TEST_ENTRY \<Rightarrow> u16 list option \<times> guid_words" where
  "entry_case e = (Some (enName e), enEntryId e)"

lemma add_cases_Cons [simp]: "add_cases stri (e # es) ns = add_cases stri es (add_node stri (case_node e) ns)"
  and add_cases_Nil [simp]: "add_cases stri [] ns = ns"
  by (simp_all add: add_cases_def)

lemma cases_add_cases: "mset (tree_cases (add_cases stri es ns)) = mset (map entry_case es) + mset (tree_cases ns)"
  by (induction es arbitrary: ns) (auto simp: cases_add_node case_node_def entry_case_def)

lemma cases_graft: "mset (tree_cases (graft stri x d g ts es ns)) = mset (map entry_case es) + mset (tree_cases ns)"
proof (induction stri x d g ts es ns rule: graft.induct)
  case (2 stri x d g t IsEnd ts es ns)
  show ?case
  proof (cases "FindTestNodeByName stri t ns 0")
    case None
    then show ?thesis using 2(1) [OF None] by (simp add: cases_add_node) (simp add: tree_cases_def)
  next
    case (Some i)
    have i: "i < length ns" using FindTestNodeByName_Some [OF Some] by simp
    let ?c = "mset (tree_cases (ndChild (ns ! i)))" and ?e = "image_mset entry_case (mset es)"
    let ?g = "graft stri x d g ts es (ndChild (ns ! i))"
    have "mset (tree_cases (ns[i := with_child ?g (ns ! i)])) + ?c = (?e + mset (tree_cases ns)) + ?c"
      using 2(2) [OF Some] cases_with_child [OF i, of ?g] by (simp add: ac_simps)
    then show ?thesis using Some by simp
  qed
qed (simp add: cases_add_cases)

lemma child_all: "list_all P ns \<Longrightarrow> i < length ns \<Longrightarrow> P (ns ! i)"
  by (simp add: list_all_length)

lemma leaf_case_add: "list_all leaf_case ns \<Longrightarrow> list_all leaf_case (add_cases stri es ns) \<and>
    (es \<noteq> [] \<or> ns \<noteq> [] \<longrightarrow> add_cases stri es ns \<noteq> [])"
proof (induction es arbitrary: ns)
  case (Cons e es)
  have "list_all leaf_case (add_node stri (case_node e) ns)" using Cons.prems by (auto simp: list_all_iff case_node_def)
  moreover have "add_node stri (case_node e) ns \<noteq> []" by (simp add: add_node_def Let_def)
  ultimately show ?case using Cons.IH [of "add_node stri (case_node e) ns"] by simp
qed simp

lemma leaf_case_node: "leaf_case l \<Longrightarrow> list_all leaf_case (ndChild l)"
  and leaf_case_with: "list_all leaf_case ch \<Longrightarrow> ch \<noteq> [] \<Longrightarrow> leaf_case (with_child ch l)"
  by (cases l, auto simp: with_child_def)+

lemma list_all_update: "list_all P ns \<Longrightarrow> P l \<Longrightarrow> list_all P (ns[i := l])"
  unfolding list_all_iff using set_update_subset_insert [of ns i l] by blast

lemma leaf_case_graft: "list_all leaf_case ns \<Longrightarrow> es \<noteq> [] \<Longrightarrow>
    list_all leaf_case (graft stri x d g ts es ns) \<and> graft stri x d g ts es ns \<noteq> []"
proof (induction stri x d g ts es ns rule: graft.induct)
  case (1 stri x d g es ns)
  then show ?case using leaf_case_add [of ns stri es] by simp
next
  case (2 stri x d g t IsEnd ts es ns)
  show ?case
  proof (cases "FindTestNodeByName stri t ns 0")
    case None
    have "leaf_case (Node x (Some t) (Some d') EFI_SCT_TEST_NODE_TYPE_CATEGORY g' (graft stri x d g ts es []))" for d' g'
      using 2(1) [OF None] 2(4) by simp
    then show ?thesis using None 2(3) by (auto simp: list_all_iff add_node_def Let_def dest: set_takeWhileD set_dropWhileD)
  next
    case (Some i)
    have i: "i < length ns" using FindTestNodeByName_Some [OF Some] by simp
    have "list_all leaf_case (ndChild (ns ! i))" using leaf_case_node [OF child_all [OF 2(3) i]] .
    from leaf_case_with [of _ "ns ! i"] 2(2) [OF Some this 2(4)]
    have "leaf_case (with_child (graft stri x d g ts es (ndChild (ns ! i))) (ns ! i))" by blast
    then show ?thesis using Some i list_all_update [OF 2(3)] by auto
  qed
qed

lemma case_leaf_add: "list_all case_leaf ns \<Longrightarrow> list_all case_leaf (add_cases stri es ns)"
proof (induction es arbitrary: ns)
  case (Cons e es)
  have "list_all case_leaf (add_node stri (case_node e) ns)" using Cons.prems by (auto simp: list_all_iff case_node_def)
  then show ?case using Cons.IH by simp
qed simp

lemma case_leaf_node: "case_leaf l \<Longrightarrow> list_all case_leaf (ndChild l)"
  and case_leaf_with: "list_all case_leaf ch \<Longrightarrow> ndType l \<noteq> EFI_SCT_TEST_NODE_TYPE_CASE \<Longrightarrow> case_leaf (with_child ch l)"
  by (cases l, auto simp: with_child_def)+

lemma cases_node: "ndType l = EFI_SCT_TEST_NODE_TYPE_CASE \<Longrightarrow> l \<in> set ns \<Longrightarrow> (ndName l, ndGuid l) \<in> set (tree_cases ns)"
  by (cases l) (force simp: tree_cases_def)

lemma cases_child: "l \<in> set ns \<Longrightarrow> set (tree_cases (ndChild l)) \<subseteq> set (tree_cases ns)"
proof -
  assume "l \<in> set ns"
  then have "set (cases_of l) \<subseteq> set (tree_cases ns)" by (auto simp: tree_cases_def)
  moreover have "set (tree_cases (ndChild l)) \<subseteq> set (cases_of l)" by (cases l) (auto simp: tree_cases_def)
  ultimately show ?thesis by blast
qed

definition apart :: "collation \<Rightarrow> (u16 list \<times> bool) list \<Rightarrow> (u16 list option \<times> guid_words) set \<Rightarrow> bool" where
  "apart stri ts C \<longleftrightarrow> (\<forall>t\<in>fst ` set ts. \<forall>c\<in>C. stri (fst c) t \<noteq> 0)"

lemma case_leaf_graft: "list_all case_leaf ns \<Longrightarrow> apart stri ts (set (tree_cases ns)) \<Longrightarrow>
    list_all case_leaf (graft stri x d g ts es ns)"
proof (induction stri x d g ts es ns rule: graft.induct)
  case (2 stri x d g t IsEnd ts es ns)
  show ?case
  proof (cases "FindTestNodeByName stri t ns 0")
    case None
    have "list_all case_leaf (graft stri x d g ts es [])"
      using 2(1) [OF None] by (simp add: apart_def tree_cases_def)
    then show ?thesis using None 2(3) by (simp add: list_all_iff)
  next
    case (Some i)
    have i: "i < length ns" "stri (ndName (ns ! i)) t = 0" using FindTestNodeByName_Some [OF Some] by simp_all
    then have m: "ns ! i \<in> set ns" by simp
    have "apart stri ts (set (tree_cases (ndChild (ns ! i))))" using 2(4) cases_child [OF m] by (auto simp: apart_def)
    from 2(2) [OF Some case_leaf_node [OF child_all [OF 2(3) i(1)]] this]
    have c: "list_all case_leaf (graft stri x d g ts es (ndChild (ns ! i)))" .
    have "ndType (ns ! i) \<noteq> EFI_SCT_TEST_NODE_TYPE_CASE"
      using cases_node [OF _ m] 2(4) i(2) by (fastforce simp: apart_def)
    from case_leaf_with [OF c this] show ?thesis using Some list_all_update [OF 2(3)] by simp
  qed
qed (simp add: case_leaf_add)

section \<open>The order of siblings\<close>

lemma sorted_takeWhile_insert:
  fixes f :: "'a \<Rightarrow> 'b :: linorder"
  assumes "sorted (map f xs)" and "\<And>x. x \<in> set xs \<Longrightarrow> B x \<longleftrightarrow> f a < f x"
  shows "sorted (map f (takeWhile (\<lambda>x. \<not> B x) xs @ [a] @ dropWhile (\<lambda>x. \<not> B x) xs))"
  using assms
proof (induction xs)
  case (Cons y ys)
  then show ?case
    by (cases "B y") (fastforce simp: not_less dest: set_takeWhileD set_dropWhileD)+
qed simp

lemma sorted_add_node:
  assumes c: "collates stri key" and s: "sorted_tree key ns" and l: "sorted_node key l"
  shows "sorted_tree key (add_node stri l ns)"
proof -
  obtain nm where nm: "ndName l = Some nm" using l by (cases l) auto
  have "behind stri (ndIndex l) (the (ndName l)) y \<longleftrightarrow> rank key l < rank key y" if "y \<in> set ns" for y
  proof -
    have "sorted_node key y" using s that by (simp add: sorted_tree_def list_all_iff)
    then obtain b where "ndName y = Some b" by (cases y) auto
    then show ?thesis using c nm by (auto simp: behind_def rank_def collates_def)
  qed
  then have "sorted (map (rank key) (add_node stri l ns))"
    unfolding add_node_def Let_def by (intro sorted_takeWhile_insert) (use s in \<open>simp_all add: sorted_tree_def\<close>)
  then show ?thesis using s l by (simp add: sorted_tree_def list_all_iff)
qed

lemma sorted_add_cases: "collates stri key \<Longrightarrow> sorted_tree key ns \<Longrightarrow> sorted_tree key (add_cases stri es ns)"
  by (induction es arbitrary: ns) (simp_all add: sorted_add_node case_node_def)

lemma sorted_tree_child: "sorted_node key l \<Longrightarrow> sorted_tree key (ndChild l)"
  and sorted_with_child: "sorted_node key l \<Longrightarrow> sorted_tree key ch \<Longrightarrow> sorted_node key (with_child ch l)"
  by (cases l; simp add: sorted_tree_def with_child_def)+

lemma sorted_graft: "collates stri key \<Longrightarrow> sorted_tree key ns \<Longrightarrow> sorted_tree key (graft stri x d g ts es ns)"
proof (induction stri x d g ts es ns rule: graft.induct)
  case (2 stri x d g t IsEnd ts es ns)
  show ?case
  proof (cases "FindTestNodeByName stri t ns 0")
    case None
    have "sorted_tree key (graft stri x d g ts es [])" by (rule 2(1) [OF None 2(3)]) (simp add: sorted_tree_def)
    then have n: "sorted_node key (Node x (Some t) (Some d') EFI_SCT_TEST_NODE_TYPE_CATEGORY g' (graft stri x d g ts es []))"
      for d' g' by (simp add: sorted_tree_def)
    show ?thesis using None sorted_add_node [OF 2(3,4) n] by simp
  next
    case (Some i)
    have i: "i < length ns" using FindTestNodeByName_Some [OF Some] by simp
    have n: "sorted_node key (ns ! i)" using 2(4) i by (simp add: sorted_tree_def list_all_length)
    let ?l = "with_child (graft stri x d g ts es (ndChild (ns ! i))) (ns ! i)"
    have l: "sorted_node key ?l" by (rule sorted_with_child [OF n 2(2) [OF Some 2(3) sorted_tree_child [OF n]]])
    have "map (rank key) (ns[i := ?l]) = map (rank key) ns"
      using i by (simp add: map_update rank_def list_update_same_conv)
    moreover have "list_all (sorted_node key) (ns[i := ?l])"
      by (rule list_all_update) (use 2(4) l in \<open>simp_all add: sorted_tree_def\<close>)
    ultimately show ?thesis using Some 2(4) by (simp add: sorted_tree_def)
  qed
qed (simp add: sorted_add_cases)

section \<open>The files\<close>

definition test_entries :: "EFI_SCT_TEST_FILE list \<Rightarrow> TEST_ENTRY list" where
  "test_entries fs = concat (map tfEntryList fs)"

definition graft_files :: "collation \<Rightarrow> EFI_SCT_CATEGORY_DATA list \<Rightarrow> EFI_SCT_TEST_FILE list \<Rightarrow> EFI_SCT_TEST_NODE list" where
  "graft_files stri cats fs = foldl (\<lambda>ns f. graft_file stri cats f ns) [] fs"

text \<open>No test case has the name of a part of a category.\<close>

definition names_apart :: "collation \<Rightarrow> EFI_SCT_CATEGORY_DATA list \<Rightarrow> EFI_SCT_TEST_FILE list \<Rightarrow> bool" where
  "names_apart stri cats fs \<longleftrightarrow> (\<forall>f\<in>set fs. \<forall>e\<in>set (test_entries fs).
     \<forall>t\<in>fst ` set (tokens (fst (snd (category_of cats (tfCategoryGuid f))))). stri (Some (enName e)) t \<noteq> 0)"

lemma graft_files_snoc: "graft_files stri cats (fs @ [f]) = graft_file stri cats f (graft_files stri cats fs)"
  by (simp add: graft_files_def)

lemma cases_graft_file: "mset (tree_cases (graft_file stri cats f ns)) = mset (map entry_case (tfEntryList f)) + mset (tree_cases ns)"
  by (simp add: graft_file_def cases_graft split: prod.splits)

lemma cases_graft_files: "mset (tree_cases (graft_files stri cats fs)) = mset (map entry_case (test_entries fs))"
  by (induction fs rule: rev_induct)
    (simp_all add: graft_files_snoc cases_graft_file test_entries_def, simp add: graft_files_def tree_cases_def)

lemma leaf_case_files: "list_all leaf_case (graft_files stri cats fs)"
proof (induction fs rule: rev_induct)
  case (snoc f fs)
  then show ?case using leaf_case_graft by (simp add: graft_files_snoc graft_file_def split: prod.splits)
qed (simp add: graft_files_def)

lemma sorted_files: "collates stri key \<Longrightarrow> sorted_tree key (graft_files stri cats fs)"
proof (induction fs rule: rev_induct)
  case (snoc f fs)
  then show ?case by (simp add: sorted_graft graft_files_snoc graft_file_def split: prod.splits)
qed (simp add: graft_files_def sorted_tree_def)

lemma case_leaf_files: "names_apart stri cats fs \<Longrightarrow> list_all case_leaf (graft_files stri cats fs)"
proof (induction fs rule: rev_induct)
  case (snoc f fs)
  have IH: "list_all case_leaf (graft_files stri cats fs)"
    using snoc.prems by (intro snoc.IH) (auto simp: names_apart_def test_entries_def)
  have c: "set (tree_cases (graft_files stri cats fs)) = entry_case ` set (test_entries fs)"
    using arg_cong [OF cases_graft_files [of stri cats fs], of set_mset] by simp
  have "apart stri (tokens (fst (snd (category_of cats (tfCategoryGuid f))))) (set (tree_cases (graft_files stri cats fs)))"
    unfolding apart_def c using snoc.prems by (auto simp: names_apart_def test_entries_def entry_case_def)
  note g = case_leaf_graft [OF IH this, of _ _ "tfCategoryGuid f" "tfEntryList f"]
  show ?case
    by (cases "category_of cats (tfCategoryGuid f)") (use g IH in \<open>simp add: graft_files_snoc graft_file_def\<close>)
qed (simp add: graft_files_def)

lemma leaves_cases: "leaf_case l \<Longrightarrow> mset (leaves_of l) \<subseteq># mset (map snd (cases_of l))"
  and leaves_cases_eq: "leaf_case l \<Longrightarrow> case_leaf l \<Longrightarrow> mset (leaves_of l) = mset (map snd (cases_of l))"
proof (induction l)
  case (Node x nm d t g ch)
  {
    case 1
    have "mset (concat (map leaves_of c)) \<subseteq># mset (map snd (concat (map cases_of c)))" if "set c \<subseteq> set ch" for c
      using that Node(1) 1 by (induction c) (auto simp: list_all_iff intro!: subset_mset.add_mono)
    from this [OF subset_refl] show ?case using 1 by (auto intro: subset_mset.trans [OF _ multi_psub_of_add_self [THEN subset_mset.less_imp_le]])
  next
    case 2
    have "mset (concat (map leaves_of c)) = mset (map snd (concat (map cases_of c)))" if "set c \<subseteq> set ch" for c
      using that Node(2) 2 by (induction c) (auto simp: list_all_iff)
    then show ?case using 2 by auto
  }
qed

section \<open>Numbering the leaves\<close>

definition ordered_case :: "guid_words list \<Rightarrow> EFI_SCT_TEST_CASE \<Rightarrow> EFI_SCT_TEST_CASE" where
  "ordered_case q c = (if tcGuid c \<in> set q then c\<lparr>tcOrder := order_in q (tcGuid c), tcIterations := 1\<rparr> else no_order c)"

lemma number_leaves:
  assumes d: "distinct (map tcGuid cs)"
  shows "distinct (p @ filter (\<lambda>g. g \<in> tcGuid ` set cs) (leaves ns)) \<Longrightarrow>
    BuildTestCaseOrderFromNode ns (of_nat (length p), map (ordered_case p) cs) =
      (of_nat (length (p @ filter (\<lambda>g. g \<in> tcGuid ` set cs) (leaves ns))),
       map (ordered_case (p @ filter (\<lambda>g. g \<in> tcGuid ` set cs) (leaves ns))) cs)"
proof (induction "size_list size ns" arbitrary: ns p rule: less_induct)
  case less
  let ?F = "\<lambda>ns. filter (\<lambda>g. g \<in> tcGuid ` set cs) (leaves ns)"
  show ?case
  proof (cases ns)
    case Nil
    then show ?thesis by simp
  next
    case (Cons l ms)
    obtain x nm dd t g ch where l: "l = Node x nm dd t g ch" by (cases l)
    have sz: "size_list size ms < size_list size ns" "size_list size ch < size_list size ns" by (simp_all add: Cons l)
    have G: "map tcGuid (map (ordered_case p) cs) = map tcGuid cs" by (simp add: ordered_case_def no_order_def)
    have one: "BuildTestCaseOrderFromNode ns (of_nat (length p), map (ordered_case p) cs) =
      BuildTestCaseOrderFromNode ms (of_nat (length (p @ ?F [l])), map (ordered_case (p @ ?F [l])) cs)"
    proof (cases "ch = []")
      case False
      have "distinct (p @ ?F ch)" using less.prems False by (auto simp: Cons l)
      from less.hyps [OF sz(2) this] show ?thesis using False by (simp add: Cons l)
    next
      case leaf: True
      show ?thesis
      proof (cases "g \<in> tcGuid ` set cs")
        case False
        then have "find_from 0 g (map (ordered_case p) cs) = None"
          unfolding find_from_None using G by (metis list.set_map)
        then show ?thesis using False leaf by (simp add: Cons l FindTestCaseByGuid_def)
      next
        case True
        then have "find_from 0 g (map (ordered_case p) cs) \<noteq> None"
          unfolding find_from_None using G by (metis list.set_map)
        then obtain j where j: "find_from 0 g (map (ordered_case p) cs) = Some j" by auto
        have D: "distinct (map tcGuid (map (ordered_case p) cs))" using d unfolding G .
        note jc = find_from_0 [OF D, THEN iffD1, OF j]
        have p: "g \<notin> set p" using less.prems True leaf by (simp add: Cons l)
        have "(map (ordered_case p) cs)[j := (map (ordered_case p) cs ! j)\<lparr>tcOrder := of_nat (length p), tcIterations := 1\<rparr>] =
            map (ordered_case (p @ [g])) cs"
          unfolding update_one [OF D conjunct1 [OF jc] conjunct2 [OF jc], of "\<lambda>c. c\<lparr>tcOrder := of_nat (length p), tcIterations := 1\<rparr>"]
          using p by (auto simp: ordered_case_def no_order_def order_in_def place_append place_snoc)
        then show ?thesis using j leaf True by (simp add: Cons l FindTestCaseByGuid_def add.commute)
      qed
    qed
    have "distinct ((p @ ?F [l]) @ ?F ms)" using less.prems by (simp add: Cons l)
    from less.hyps [OF sz(1) this] one show ?thesis by (simp add: Cons l)
  qed
qed

lemma BuildTestCaseOrder_schedule:
  assumes "distinct (map tcGuid cs)" and "length cs < 2 ^ 32 - 2" and "distinct q"
    and q: "q = filter (\<lambda>g. g \<in> tcGuid ` set cs) (leaves ns)"
  shows "BuildTestCaseOrder ns (ResetTestCaseOrder cs) = (EFI_SUCCESS, map (ordered_case q) cs)"
    and "schedule (map (ordered_case q) cs) q"
proof -
  have "ResetTestCaseOrder cs = map (ordered_case []) cs" by (simp add: ResetTestCaseOrder_def ordered_case_def)
  then show "BuildTestCaseOrder ns (ResetTestCaseOrder cs) = (EFI_SUCCESS, map (ordered_case q) cs)"
    using number_leaves [OF assms(1), of "[]" ns] assms(3) q by (simp add: BuildTestCaseOrder_def)
  have "tcGuid \<circ> ordered_case q = tcGuid" by (auto simp: ordered_case_def no_order_def)
  then show "schedule (map (ordered_case q) cs) q"
    using assms by (auto simp: schedule_def ordered_case_def no_order_def order_in_def)
qed

section \<open>Creating and merging the test cases\<close>

definition new_case :: "TEST_ENTRY \<Rightarrow> EFI_SCT_TEST_CASE" where
  "new_case e = \<lparr>tcRevision = EFI_SCT_TEST_CASE_REVISION, tcGuid = enEntryId e, tcName = Some (enName e), tcOrder = EFI_SCT_TEST_CASE_INVALID,
     tcIterations = EFI_SCT_TEST_CASE_INVALID, tcPasses = EFI_SCT_TEST_CASE_INVALID,
     tcWarnings = EFI_SCT_TEST_CASE_INVALID, tcFailures = EFI_SCT_TEST_CASE_INVALID\<rparr>"

lemma create_entries_full: "\<exists>n'. create_entries full n es cs = (EFI_SUCCESS, n', cs @ map new_case es)"
proof (induction es arbitrary: n cs)
  case (Cons e es)
  then show ?case using Cons [of "n + 2" "cs @ [new_case e]"]
    by (simp add: CreateSingleTestCase_def InsertSingleTestCase_def duplicate_def new_case_def)
qed simp

lemma CreateTestCases_full:
  "list_all (\<lambda>f. test_type (tfType f)) fs \<Longrightarrow>
    \<exists>n'. CreateTestCases full n fs cs = (EFI_SUCCESS, n', cs @ map new_case (test_entries fs))"
proof (induction fs arbitrary: n cs)
  case (Cons f fs)
  obtain n1 where "create_entries full n (tfEntryList f) cs = (EFI_SUCCESS, n1, cs @ map new_case (tfEntryList f))"
    using create_entries_full by blast
  then show ?case using Cons.IH [of n1 "cs @ map new_case (tfEntryList f)"] Cons.prems by (simp add: test_entries_def)
qed (simp add: test_entries_def)

definition merged :: "EFI_SCT_TEST_CASE list \<Rightarrow> EFI_SCT_TEST_CASE \<Rightarrow> EFI_SCT_TEST_CASE" where
  "merged old c = (case find (\<lambda>x. tcGuid x = tcGuid c) old of None \<Rightarrow> c | Some x \<Rightarrow> merge_case x c)"

lemma merge_case_guid [simp]: "tcGuid (merge_case x c) = tcGuid c" "tcGuid (merged old c) = tcGuid c"
  by (simp_all add: merge_case_def merged_def split: option.split)

lemma merge_one_map: "distinct (map tcGuid cs) \<Longrightarrow>
    merge_one x cs = map (\<lambda>c. if tcGuid c = tcGuid x then merge_case x c else c) cs"
proof (induction cs)
  case (Cons c cs)
  have "map (\<lambda>c. if tcGuid c = tcGuid x then merge_case x c else c) cs = cs" if "tcGuid c = tcGuid x"
    using Cons.prems that by (intro map_idI) (simp add: image_iff, metis)
  then show ?case using Cons by (auto simp: SctCompareGuid_0)
qed simp

lemma find_snoc: "find P (xs @ [x]) = (case find P xs of None \<Rightarrow> if P x then Some x else None | Some y \<Rightarrow> Some y)"
  by (induction xs) auto

lemma MergeTestCases_map:
  assumes d: "distinct (map tcGuid cs)"
  shows "distinct (map tcGuid old) \<Longrightarrow> MergeTestCases cs old = map (merged old) cs"
proof (induction old rule: rev_induct)
  case (snoc x old)
  have n: "find (\<lambda>y. tcGuid y = tcGuid x) old = None" using snoc.prems by (simp add: find_None_iff image_iff) metis
  have "map tcGuid (map (merged old) cs) = map tcGuid cs" by simp
  then have "distinct (map tcGuid (map (merged old) cs))" using d by argo
  from merge_one_map [OF this, of x]
  have "merge_one x (map (merged old) cs) = map (merged (old @ [x])) cs"
    using n by (auto simp: merged_def find_snoc split: option.splits)
  then show ?case using snoc by (simp add: MergeTestCases_def)
qed (auto simp: MergeTestCases_def merged_def intro!: map_idI [symmetric])

definition results :: "EFI_SCT_TEST_CASE \<Rightarrow> u32 \<times> u32 \<times> u32" where
  "results c = (tcPasses c, tcWarnings c, tcFailures c)"

text \<open>The results that a list of test cases knows for a GUID.\<close>

definition results_in :: "EFI_SCT_TEST_CASE list \<Rightarrow> guid_words \<Rightarrow> u32 \<times> u32 \<times> u32" where
  "results_in old g = (case find (\<lambda>x. tcGuid x = g) old of
     None \<Rightarrow> (EFI_SCT_TEST_CASE_INVALID, EFI_SCT_TEST_CASE_INVALID, EFI_SCT_TEST_CASE_INVALID)
   | Some x \<Rightarrow> results x)"

lemma results_new: "results (ordered_case q (merged old (new_case e))) = results_in old (enEntryId e)"
  by (simp add: results_def results_in_def merged_def merge_case_def overwrite_def new_case_def ordered_case_def
      no_order_def split: option.split)

lemma DoPreOperationAll_full:
  assumes names: "named cats" and ty: "list_all (\<lambda>f. test_type (tfType f)) fs"
    and new: "distinct (map enEntryId (test_entries fs))" and old: "distinct (map tcGuid old)"
    and len: "length (test_entries fs) < 2 ^ 32 - 2"
    and ns: "ns = graft_files stri cats fs"
    and cs: "cs = map (ordered_case (leaves ns) \<circ> merged old \<circ> new_case) (test_entries fs)"
  shows "\<exists>n'. DoPreOperationAll stri full cats fs n old [] = Some (EFI_SUCCESS, n', cs, ns)"
    and "schedule cs (leaves ns)" and "mset (leaves ns) \<subseteq># mset (map enEntryId (test_entries fs))"
    and "names_apart stri cats fs \<Longrightarrow> mset (leaves ns) = mset (map enEntryId (test_entries fs))"
proof -
  let ?E = "mset (map enEntryId (test_entries fs))"
  have c: "mset (map snd (tree_cases ns)) = ?E"
    using arg_cong [OF cases_graft_files [of stri cats fs], of "image_mset snd"]
    by (simp add: ns entry_case_def image_mset.compositionality o_def)
  have lc: "list_all leaf_case ns" by (simp add: ns leaf_case_files)
  have "mset (leaves ns) \<subseteq># mset (map snd (tree_cases ns))"
    using lc by (induction ns) (auto simp: leaves_def tree_cases_def intro!: subset_mset.add_mono dest: leaves_cases)
  then show sub: "mset (leaves ns) \<subseteq># ?E" unfolding c .
  show "mset (leaves ns) = ?E" if "names_apart stri cats fs"
  proof -
    have "list_all case_leaf ns" using case_leaf_files [OF that] by (simp add: ns)
    then have "mset (leaves ns) = mset (map snd (tree_cases ns))"
      using lc by (induction ns) (auto simp: leaves_def tree_cases_def dest: leaves_cases_eq)
    then show ?thesis unfolding c .
  qed
  let ?cs = "map (merged old) (map new_case (test_entries fs))"
  have G: "map tcGuid ?cs = map enEntryId (test_entries fs)" "map tcGuid (map new_case (test_entries fs)) = map enEntryId (test_entries fs)"
    by (simp_all add: new_case_def)
  have D: "distinct (map tcGuid ?cs)" using new unfolding G .
  have L: "length ?cs < 2 ^ 32 - 2" using len by simp
  have "set (leaves ns) \<subseteq> set (map enEntryId (test_entries fs))" using set_mset_mono [OF sub] by simp
  then have F: "leaves ns = filter (\<lambda>g. g \<in> tcGuid ` set ?cs) (leaves ns)"
    unfolding set_map [symmetric] G by (intro filter_True [symmetric]) blast
  obtain C where "?E = mset (leaves ns) + C" using sub by (auto simp: subset_mset.le_iff_add)
  moreover obtain ys where "mset ys = C" using ex_mset by blast
  ultimately have "?E = mset (leaves ns @ ys)" by simp
  then have "distinct (leaves ns @ ys)" using mset_eq_imp_distinct_iff new by blast
  then have DL: "distinct (leaves ns)" by simp
  note b = BuildTestCaseOrder_schedule [OF D L DL F]
  show "schedule cs (leaves ns)" using b(2) by (simp add: cs o_def)
  obtain n1 where n1: "CreateTestCases full n fs [] = (EFI_SUCCESS, n1, map new_case (test_entries fs))"
    using CreateTestCases_full [OF ty, of n "[]"] by auto
  obtain n2 where n2: "CreateTestNodes stri full cats n1 fs [] = Some (EFI_SUCCESS, n2, ns)"
    using CreateTestNodes_graft [OF names ty, of stri n1 "[]"] by (auto simp: ns graft_files_def)
  have "MergeTestCases (map new_case (test_entries fs)) old = ?cs"
    using MergeTestCases_map [OF _ old, of "map new_case (test_entries fs)"] new unfolding G by simp
  then show "\<exists>n'. DoPreOperationAll stri full cats fs n old [] = Some (EFI_SUCCESS, n', cs, ns)"
    using n1 n2 b(1) by (simp add: DoPreOperationAll_def cs o_def Let_def)
qed

end
