(* ===== verification/Fw_Props.thy ===== *)
theory Fw_Props
  imports Fw_Load "HOL-Library.List_Lexorder"
begin

text \<open>
  The properties of the test cases of the framework: selecting, unselecting and finding the next
  one against a queue of GUIDs; what the operation ALL selects; the tree of test nodes; GUIDs as text.
\<close>

section \<open>Selected test cases\<close>

definition ex_case :: "u32 \<Rightarrow> u32 \<Rightarrow> EFI_SCT_TEST_CASE" where
  "ex_case n x = \<lparr>tcRevision = EFI_SCT_TEST_CASE_REVISION, tcGuid = (n, 0, 0, 0), tcName = None, tcOrder = x,
     tcIterations = (if x = EFI_SCT_TEST_CASE_INVALID then x else 1), tcPasses = EFI_SCT_TEST_CASE_INVALID,
     tcWarnings = EFI_SCT_TEST_CASE_INVALID, tcFailures = EFI_SCT_TEST_CASE_INVALID\<rparr>"

text \<open>Three test cases; the third and the first are selected.\<close>

definition ex_cases :: "EFI_SCT_TEST_CASE list" where
  "ex_cases = [ex_case 1 1, ex_case 2 EFI_SCT_TEST_CASE_INVALID, ex_case 3 0]"

definition ex_queue :: "guid_words list" where
  "ex_queue = [(3, 0, 0, 0), (1, 0, 0, 0)]"

lemma ex_schedule: "schedule ex_cases ex_queue"
  by (simp add: schedule_def ex_cases_def ex_case_def ex_queue_def order_in_def place_def)

text \<open>C9: Selecting a test case puts its GUID at the end of the queue of the selected ones, once: when it
  is in the queue already the queue does not change. The test case gets the number of iterations and no
  results, the others are as before. A GUID that no test case has changes nothing.\<close>

theorem fw_select:
  assumes "schedule cs q" and "n \<noteq> EFI_SCT_TEST_CASE_INVALID"
  shows "if g \<in> tcGuid ` set cs
    then \<exists>cs'. SelectTestCase (Some g) n cs = (EFI_SUCCESS, cs') \<and>
      schedule cs' (if g \<in> set q then q else q @ [g]) \<and> map tcGuid cs' = map tcGuid cs \<and>
      (\<forall>i<length cs. if tcGuid (cs ! i) = g then tcIterations (cs' ! i) = n \<and>
         results (cs' ! i) = (EFI_SCT_TEST_CASE_INVALID, EFI_SCT_TEST_CASE_INVALID, EFI_SCT_TEST_CASE_INVALID)
       else cs' ! i = cs ! i)
    else SelectTestCase (Some g) n cs = (EFI_NOT_FOUND, cs)"
proof (cases "g \<in> tcGuid ` set cs")
  case True
  let ?q = "if g \<in> set q then q else q @ [g]"
  let ?f = "\<lambda>c. if tcGuid c = g then selected_case ?q n c else c"
  have "map tcGuid (map ?f cs) = map tcGuid cs" by (simp add: selected_case_def no_results_def)
  with SelectTestCase_queue [OF assms(1) True assms(2) refl refl] True show ?thesis
    by (simp add: selected_case_def no_results_def results_def del: map_map)
next
  case False
  have "find_from 0 g cs = None" using False by (simp add: find_from_None)
  moreover have "distinct (map tcGuid cs)" using assms(1) by (simp add: schedule_def)
  ultimately have "snd (select_scan g 0 cs EFI_SCT_TEST_CASE_INVALID None) = None"
    by (simp add: select_scan_target)
  then show ?thesis using False assms(2)
    by (cases "select_scan g 0 cs EFI_SCT_TEST_CASE_INVALID None") (simp add: SelectTestCase_def)
qed

theorem fw_select_witness:
  "\<exists>cs'. SelectTestCase (Some (2, 0, 0, 0)) 5 ex_cases = (EFI_SUCCESS, cs') \<and>
    schedule cs' (ex_queue @ [(2, 0, 0, 0)])"
  using fw_select [OF ex_schedule, of 5 "(2, 0, 0, 0)"]
  by (auto simp: ex_cases_def ex_case_def ex_queue_def EFI_SCT_TEST_CASE_INVALID_def split: if_splits)

text \<open>C18: Unselecting a test case takes its GUID out of the queue: the orders of those behind it close the
  gap. Every test case keeps its results, and the others keep their iterations.\<close>

theorem fw_unselect:
  assumes "schedule cs q"
  shows "if g \<in> tcGuid ` set cs
    then \<exists>cs'. UnselectTestCase (Some g) cs = (EFI_SUCCESS, cs') \<and> schedule cs' (remove1 g q) \<and>
      map tcGuid cs' = map tcGuid cs \<and> map results cs' = map results cs \<and>
      (\<forall>i<length cs. tcGuid (cs ! i) \<noteq> g \<longrightarrow> tcIterations (cs' ! i) = tcIterations (cs ! i))
    else UnselectTestCase (Some g) cs = (EFI_NOT_FOUND, cs)"
proof (cases "g \<in> tcGuid ` set cs")
  case True
  have "map tcGuid (map (unselected_case q g) cs) = map tcGuid cs"
    "map results (map (unselected_case q g) cs) = map results cs"
    by (simp_all add: unselected_case_def no_order_def results_def)
  with UnselectTestCase_queue [OF assms True] True show ?thesis
    by (auto simp: unselected_case_def no_order_def simp del: map_map)
next
  case False
  then have "find_from 0 g cs = None" by (simp add: find_from_None)
  then show ?thesis using False by (simp add: UnselectTestCase_def)
qed

theorem fw_unselect_witness:
  "\<exists>cs'. UnselectTestCase (Some (3, 0, 0, 0)) ex_cases = (EFI_SUCCESS, cs') \<and> schedule cs' [(1, 0, 0, 0)]"
  using fw_unselect [OF ex_schedule, of "(3, 0, 0, 0)"]
  by (auto simp: ex_cases_def ex_case_def ex_queue_def split: if_splits)

text \<open>C19: The next test case is the first one of the queue that lacks results, the running test case the
  first one that is marked as running; when there is none the search answers \<open>EFI_NOT_FOUND\<close>.\<close>

theorem fw_next:
  assumes "schedule cs q"
  shows "(case pending is_ready cs q of
      [] \<Rightarrow> GetNextTestCase cs = (EFI_NOT_FOUND, None)
    | g # _ \<Rightarrow> \<exists>j<length cs. GetNextTestCase cs = (EFI_SUCCESS, Some j) \<and> tcGuid (cs ! j) = g \<and> is_ready (cs ! j)) \<and>
    (case pending is_running cs q of
      [] \<Rightarrow> GetRunningTestCase cs = (EFI_NOT_FOUND, None)
    | g # _ \<Rightarrow> \<exists>j<length cs. GetRunningTestCase cs = (EFI_SUCCESS, Some j) \<and> tcGuid (cs ! j) = g \<and> is_running (cs ! j))"
  using least_scan_pending [OF assms, of is_ready] least_scan_pending [OF assms, of is_running]
  by (cases "pending is_ready cs q"; cases "pending is_running cs q")
    (auto simp: GetNextTestCase_def GetRunningTestCase_def status_of_def)

theorem fw_next_witness:
  "\<exists>j<length ex_cases. GetNextTestCase ex_cases = (EFI_SUCCESS, Some j) \<and> tcGuid (ex_cases ! j) = (3, 0, 0, 0)"
proof -
  have "pending is_ready ex_cases ex_queue = ex_queue"
    by (simp add: pending_def ex_cases_def ex_case_def ex_queue_def is_ready_def)
  then show ?thesis using fw_next [OF ex_schedule] by (auto simp: ex_queue_def)
qed

section \<open>The operation ALL\<close>

definition ex_entry :: "u32 \<Rightarrow> u16 \<Rightarrow> TEST_ENTRY" where
  "ex_entry n c = \<lparr>enEntryId = (n, 0, 0, 0), enName = [c], enDescription = [], enResetRequired = False\<rparr>"

text \<open>Two files; the second has no category.\<close>

definition ex_files :: "EFI_SCT_TEST_FILE list" where
  "ex_files =
     [\<lparr>tfType = EFI_SCT_TEST_FILE_TYPE_BLACK_BOX, tfCategoryGuid = (8, 0, 0, 0), tfEntryList = [ex_entry 2 121, ex_entry 1 120]\<rparr>,
      \<lparr>tfType = EFI_SCT_TEST_FILE_TYPE_WHITE_BOX, tfCategoryGuid = (9, 0, 0, 0), tfEntryList = [ex_entry 3 122]\<rparr>]"

definition ex_cats :: "EFI_SCT_CATEGORY_DATA list" where
  "ex_cats =
     [\<lparr>caIndex = 4, caCategoryGuid = (8, 0, 0, 0), caInterfaceGuid = (8, 0, 0, 0), caName = [66, 92, 67], caDescription = []\<rparr>]"

text \<open>A lexical comparison in which the case of the letters from \<open>a\<close> to \<open>z\<close> does not count.\<close>

definition ex_key :: "u16 list \<Rightarrow> u16 list" where
  "ex_key s = map (\<lambda>c. if 97 \<le> c \<and> c \<le> 122 then c - 32 else c) s"

definition ex_stri :: collation where
  "ex_stri a b = (if ex_key b < ex_key (the a) then 1 else if ex_key (the a) = ex_key b then 0 else -1)"

lemma ex_names: "names_apart ex_stri ex_cats ex_files" by code_simp

lemma ex_named: "named ex_cats" by (simp add: named_def ex_cats_def separator_def)

lemma ex_types: "list_all (\<lambda>f. test_type (tfType f)) ex_files" by (simp add: ex_files_def test_type_def)

lemma ex_distinct: "distinct (map enEntryId (test_entries ex_files))" "length (test_entries ex_files) = 3"
  by (simp_all add: test_entries_def ex_files_def ex_entry_def)

lemma ex_collates: "collates ex_stri ex_key" by (simp add: collates_def ex_stri_def)

text \<open>C8: The operation ALL selects the test cases of the files: its result has one test case for every
  entry, with the results the old list knew for its GUID; their orders are the order of the leaves of the
  tree, among which every entry occurs once when no test case has the name of a part of a category.\<close>

theorem fw_all:
  assumes "named cats" and "list_all (\<lambda>f. test_type (tfType f)) fs" and "distinct (map enEntryId (test_entries fs))"
    and "distinct (map tcGuid old)" and "length (test_entries fs) < 2 ^ 32 - 2"
  shows "\<exists>n' cs ns. DoPreOperationAll stri (\<lambda>_. True) cats fs n old [] = Some (EFI_SUCCESS, n', cs, ns) \<and>
    map tcGuid cs = map enEntryId (test_entries fs) \<and> (\<forall>c\<in>set cs. results c = results_in old (tcGuid c)) \<and>
    schedule cs (leaves ns) \<and>
    (names_apart stri cats fs \<longrightarrow> mset (leaves ns) = mset (map enEntryId (test_entries fs)))"
proof -
  define ns where "ns = graft_files stri cats fs"
  define cs where "cs = map (ordered_case (leaves ns) \<circ> merged old \<circ> new_case) (test_entries fs)"
  note a = DoPreOperationAll_full [OF assms ns_def cs_def]
  have g: "tcGuid (ordered_case q (merged old (new_case e))) = enEntryId e" for q e
    by (simp add: ordered_case_def no_order_def new_case_def)
  have "map tcGuid cs = map enEntryId (test_entries fs)" "\<forall>c\<in>set cs. results c = results_in old (tcGuid c)"
    by (simp_all add: cs_def g results_new)
  then show ?thesis using a by blast
qed

theorem fw_all_witness:
  "\<exists>n' cs ns. DoPreOperationAll ex_stri (\<lambda>_. True) ex_cats ex_files 0 ex_cases [] = Some (EFI_SUCCESS, n', cs, ns) \<and>
    schedule cs (leaves ns) \<and> mset (leaves ns) = {#(2, 0, 0, 0), (1, 0, 0, 0), (3, 0, 0, 0)#}"
proof -
  have "distinct (map tcGuid ex_cases)" using ex_schedule by (simp add: schedule_def)
  from fw_all [OF ex_named ex_types ex_distinct(1) this, of ex_stri 0] show ?thesis
    using ex_names ex_distinct(2) by (auto simp: test_entries_def ex_files_def ex_entry_def)
qed

text \<open>C20: In the tree that is built from the files, siblings are sorted by index and, for the same index, by
  name; every leaf is a test case; and the test cases of the tree are the entries of the files. Memory is
  available, the name of no category is empty or begins with a separator, and the collation compares names
  by a key in some linear order, as lexical comparisons do.\<close>

theorem fw_tree:
  assumes "named cats" and "list_all (\<lambda>f. test_type (tfType f)) fs" and "collates stri key"
  shows "\<exists>n' ns. CreateTestNodes stri (\<lambda>_. True) cats n fs [] = Some (EFI_SUCCESS, n', ns) \<and>
    sorted_tree key ns \<and> list_all leaf_case ns \<and> mset (tree_cases ns) = mset (map entry_case (test_entries fs))"
  using CreateTestNodes_graft [OF assms(1,2), of stri n "[]"] sorted_files [OF assms(3)] leaf_case_files cases_graft_files
  unfolding graft_files_def by blast

theorem fw_tree_witness:
  "\<exists>n' ns. CreateTestNodes ex_stri (\<lambda>_. True) ex_cats 0 ex_files [] = Some (EFI_SUCCESS, n', ns) \<and>
    sorted_tree ex_key ns \<and> list_all leaf_case ns"
  using fw_tree [OF ex_named ex_types ex_collates, of 0] by blast

section \<open>GUIDs\<close>

text \<open>A GUID that is printed into a buffer of 37 characters or more is read back as the same GUID; the
  text has 36 characters, and the buffer behind it is as before.\<close>

theorem guid_text_roundtrip:
  assumes "37 \<le> length Buffer"
  shows "\<exists>b. SctGuidToStr (Some g) (Some Buffer) = Some (EFI_SUCCESS, Some b) \<and>
    length (guid_text g) = 36 \<and> b = guid_text g @ 0 # drop 37 Buffer \<and> SctStrToGuid b = Some (EFI_SUCCESS, g)"
  using assms by (simp add: SctGuidToStr_def write_cells_spec length_guid_text SctStrToGuid_text)

theorem guid_text_roundtrip_witness:
  "\<exists>b. SctGuidToStr (Some (0x1234ABCD, 5, 6, 7)) (Some (replicate 40 0)) = Some (EFI_SUCCESS, Some b) \<and>
    SctStrToGuid b = Some (EFI_SUCCESS, (0x1234ABCD, 5, 6, 7))"
  using guid_text_roundtrip [of "replicate 40 0" "(0x1234ABCD, 5, 6, 7)"] by auto

end
