(* ===== verification/Fw_Files.thy ===== *)
theory Fw_Files
  imports Fw_Cases Fw_Text Ini_Order Ini_Round
begin

text \<open>
  The test cases in a file: the second half of \<open>TestCase.c\<close>, over the INI files of the test profile
  library. Every test case is one section \<open>Test Case\<close>; its order among the sections of that name is
  the argument \<open>Order\<close>. \<open>n\<close> numbers the calls: \<open>Stk n\<close> and \<open>Buf n\<close> are the uninitialised stack and the
  uninitialised local buffer of a call, \<open>Pool\<close> and \<open>pool\<close> the allocations from \<open>n\<close> on.
\<close>

section \<open>Texts and numbers\<close>

definition wide :: "string \<Rightarrow> u16 list" where
  "wide t = map (of_nat \<circ> of_char) t @ [0]"

definition EFI_SCT_SECTION_TEST_CASE :: "u16 list" where
  "EFI_SCT_SECTION_TEST_CASE = wide ''Test Case''"

definition EFI_SCT_MAX_BUFFER_SIZE :: u32 where "EFI_SCT_MAX_BUFFER_SIZE = 512"

definition TestCaseGetOrderNum :: "stack \<Rightarrow> 'd EFI_INI_FILE \<Rightarrow> u32 \<Rightarrow> (EFI_STATUS \<times> u32 option) option" where
  "TestCaseGetOrderNum Stk f OrderNum = EfiIniGetOrderNum Stk f (Some EFI_SCT_SECTION_TEST_CASE) (Some OrderNum)"

definition TestCaseGetString :: "stack \<Rightarrow> 'd EFI_INI_FILE \<Rightarrow> u32 \<Rightarrow> u16 list \<Rightarrow> u16 list \<Rightarrow>
    (EFI_STATUS \<times> u16 list) option" where
  "TestCaseGetString Stk f Order Key Buffer = do {
     (st, b, BufferSize) \<leftarrow> EfiIniGetStringByOrder Stk f Order (Some EFI_SCT_SECTION_TEST_CASE) (Some Key)
       (Some Buffer) EFI_SCT_MAX_BUFFER_SIZE;
     b \<leftarrow> b;
     Some (st, b) }"

definition TestCaseSetString :: "stack \<Rightarrow> pool \<Rightarrow> nat \<Rightarrow> 'd EFI_INI_FILE \<Rightarrow> u32 \<Rightarrow> u16 list \<Rightarrow> u16 list option \<Rightarrow>
    (EFI_STATUS \<times> 'd EFI_INI_FILE) option" where
  "TestCaseSetString Stk Pool n f Order Key Buffer =
     EfiIniSetStringByOrder Stk Pool n f Order (Some EFI_SCT_SECTION_TEST_CASE) (Some Key) Buffer"

section \<open>Saving\<close>

text \<open>The state: the number of calls, the file, and the buffer of \<open>SaveSingleTestCase\<close>.\<close>

type_synonym 'd saving = "nat \<times> 'd EFI_INI_FILE \<times> u16 list"

definition save_text :: "(nat \<Rightarrow> stack) \<Rightarrow> pool \<Rightarrow> u32 \<Rightarrow> string \<Rightarrow> u16 list option \<Rightarrow> 'd saving \<Rightarrow> 'd saving option" where
  "save_text Stk Pool Order Key t = (\<lambda>(n, f, b). do {
     (st, f) \<leftarrow> TestCaseSetString (Stk n) Pool n f Order (wide Key) t;
     Some (n + 2, f, b) })"

definition save_number :: "(nat \<Rightarrow> stack) \<Rightarrow> pool \<Rightarrow> u32 \<Rightarrow> string \<Rightarrow> u32 \<Rightarrow> 'd saving \<Rightarrow> 'd saving option" where
  "save_number Stk Pool Order Key v = (\<lambda>(n, f, b). do {
     (st, b) \<leftarrow> SctShortToHexStr v b;
     if EFI_ERROR st then Some (n, f, b) else save_text Stk Pool Order Key (Some b) (n, f, b) })"

definition save_guid :: "(nat \<Rightarrow> stack) \<Rightarrow> pool \<Rightarrow> u32 \<Rightarrow> string \<Rightarrow> guid_words \<Rightarrow> 'd saving \<Rightarrow> 'd saving option" where
  "save_guid Stk Pool Order Key g = (\<lambda>(n, f, b). do {
     (st, b) \<leftarrow> SctGuidToStr (Some g) (Some b);
     b \<leftarrow> b;
     if EFI_ERROR st then Some (n, f, b) else save_text Stk Pool Order Key (Some b) (n, f, b) })"

text \<open>\<open>SaveSingleTestSequence\<close>, and \<open>SaveSingleTestCase\<close>, which has three more fields behind the same ones.
  The name is not tested: a name \<open>NULL\<close> is refused by the file, and the key is then missing.\<close>

definition SaveSingleTestSequence :: "(nat \<Rightarrow> stack) \<Rightarrow> pool \<Rightarrow> u32 \<Rightarrow> EFI_SCT_TEST_CASE \<Rightarrow> 'd saving \<Rightarrow> 'd saving option" where
  "SaveSingleTestSequence Stk Pool Order c s = do {
     s \<leftarrow> save_number Stk Pool Order ''Revision'' (tcRevision c) s;
     s \<leftarrow> save_guid Stk Pool Order ''Guid'' (tcGuid c) s;
     s \<leftarrow> save_text Stk Pool Order ''Name'' (map_option (\<lambda>t. t @ [0]) (tcName c)) s;
     s \<leftarrow> save_number Stk Pool Order ''Order'' (tcOrder c) s;
     save_number Stk Pool Order ''Iterations'' (tcIterations c) s }"

definition SaveSingleTestCase :: "(nat \<Rightarrow> stack) \<Rightarrow> pool \<Rightarrow> u32 \<Rightarrow> EFI_SCT_TEST_CASE \<Rightarrow> 'd saving \<Rightarrow> 'd saving option" where
  "SaveSingleTestCase Stk Pool Order c s = do {
     s \<leftarrow> SaveSingleTestSequence Stk Pool Order c s;
     s \<leftarrow> save_number Stk Pool Order ''Passes'' (tcPasses c) s;
     s \<leftarrow> save_number Stk Pool Order ''Warnings'' (tcWarnings c) s;
     save_number Stk Pool Order ''Failures'' (tcFailures c) s }"

text \<open>The loop of \<open>SaveTestCases\<close> and \<open>SaveTestSequence\<close> over the list; saving one never fails, so the
  index always moves.\<close>

fun save_loop :: "(u32 \<Rightarrow> EFI_SCT_TEST_CASE \<Rightarrow> 'd saving \<Rightarrow> 'd saving option) \<Rightarrow> (nat \<Rightarrow> u16 list) \<Rightarrow> u32 \<Rightarrow>
    EFI_SCT_TEST_CASE list \<Rightarrow> nat \<times> 'd EFI_INI_FILE \<Rightarrow> (nat \<times> 'd EFI_INI_FILE) option" where
  "save_loop save Buf Index [] s = Some s"
| "save_loop save Buf Index (c # cs) (n, f) = do {
     (n, f, b) \<leftarrow> save Index c (n, f, Buf n);
     save_loop save Buf (Index + 1) cs (n, f) }"

text \<open>What the file calls are given: the answers of the firmware to the \<open>k\<close>-th of them, the locals of
  the flush, and the line and section buffers of the reader.\<close>

record 'd files =
  fiFirmware :: "nat \<Rightarrow> 'd firmware"
  fiOut :: out
  fiCPool :: cpool
  fiLine :: "u8 list"
  fiSect :: "u8 list"
  fiPath :: 'd
  fiName :: "u16 list"

definition open_file :: "'d files \<Rightarrow> nat \<Rightarrow> (nat \<Rightarrow> stack) \<Rightarrow> pool \<Rightarrow> nat \<Rightarrow>
    (EFI_STATUS \<times> 'd EFI_INI_FILE option \<times> io list) option" where
  "open_file F k Stk Pool n =
     AtslEfiIniOpen (fiFirmware F k) Stk Pool (fiCPool F) n (fiLine F) (fiSect F) (Some (fiPath F)) (Some (fiName F)) True"

text \<open>Opening, or creating what does not exist.\<close>

definition open_or_create :: "'d files \<Rightarrow> (nat \<Rightarrow> stack) \<Rightarrow> pool \<Rightarrow> nat \<Rightarrow>
    (EFI_STATUS \<times> 'd EFI_INI_FILE option \<times> io list) option" where
  "open_or_create F Stk Pool n = do {
     (st, h, tr) \<leftarrow> open_file F 0 Stk Pool n;
     if st = EFI_NOT_FOUND then do {
       (st, h, tr') \<leftarrow> AtslEfiIniCreate (fiFirmware F 1) (Some (fiPath F)) (Some (fiName F)) True;
       Some (st, h, tr @ tr') }
     else Some (st, h, tr) }"

text \<open>\<open>gFT->TestCaseIniFile\<close> is \<open>h\<close>: the file stays open from one call to the next.\<close>

definition SaveTestCases :: "'d files \<Rightarrow> (nat \<Rightarrow> stack) \<Rightarrow> pool \<Rightarrow> (nat \<Rightarrow> u16 list) \<Rightarrow> nat \<Rightarrow> 'd EFI_INI_FILE option \<Rightarrow>
    EFI_SCT_TEST_CASE list \<Rightarrow> (EFI_STATUS \<times> nat \<times> 'd EFI_INI_FILE option \<times> io list) option" where
  "SaveTestCases F Stk Pool Buf n h TestCaseList = do {
     (st, h, tr) \<leftarrow> (case h of None \<Rightarrow> open_or_create F Stk Pool n | Some f \<Rightarrow> Some (EFI_SUCCESS, Some f, []));
     (if EFI_ERROR st then Some (st, n, None, tr)
      else do {
        f \<leftarrow> h;
        (st, f) \<leftarrow> EfiIniRmSection (Stk n) f (Some EFI_SCT_SECTION_TEST_CASE);
        if EFI_ERROR st \<and> st \<noteq> EFI_NOT_FOUND then do {
          (st', tr') \<leftarrow> AtslEfiIniClose (fiFirmware F 2) (fiOut F) f;
          Some (st, n, Some f, tr @ tr') }
        else do {
          (n, f) \<leftarrow> save_loop (SaveSingleTestCase Stk Pool) Buf 0 TestCaseList (n, f);
          (st, f, tr') \<leftarrow> AtslEfiIniFlush (fiFirmware F 2) (fiOut F) f;
          Some (EFI_SUCCESS, n, Some f, tr @ tr') } }) }"

definition SaveTestSequence :: "'d files \<Rightarrow> (nat \<Rightarrow> stack) \<Rightarrow> pool \<Rightarrow> (nat \<Rightarrow> u16 list) \<Rightarrow> nat \<Rightarrow>
    EFI_SCT_TEST_CASE list \<Rightarrow> (EFI_STATUS \<times> nat \<times> io list) option" where
  "SaveTestSequence F Stk Pool Buf n TestCaseList = do {
     (st, h, tr) \<leftarrow> open_or_create F Stk Pool n;
     (if EFI_ERROR st then Some (st, n, tr)
      else do {
        f \<leftarrow> h;
        (st, f) \<leftarrow> EfiIniRmSection (Stk n) f (Some EFI_SCT_SECTION_TEST_CASE);
        if EFI_ERROR st \<and> st \<noteq> EFI_NOT_FOUND then do {
          (st', tr') \<leftarrow> AtslEfiIniClose (fiFirmware F 2) (fiOut F) f;
          Some (st, n, tr @ tr') }
        else do {
          (n, f) \<leftarrow> save_loop (SaveSingleTestSequence Stk Pool) Buf 0 TestCaseList (n, f);
          (st, tr') \<leftarrow> AtslEfiIniClose (fiFirmware F 2) (fiOut F) f;
          Some (EFI_SUCCESS, n, tr @ tr') } }) }"

section \<open>Loading\<close>

text \<open>A step of loading answers a status, when it stops, or goes on with a value. A test case that is
  not returned is freed.\<close>

definition attempt :: "(EFI_STATUS + 'a) option \<Rightarrow> ('a \<Rightarrow> (EFI_STATUS + 'b) option) \<Rightarrow> (EFI_STATUS + 'b) option" where
  "attempt m k = (case m of None \<Rightarrow> None | Some (Inl st) \<Rightarrow> Some (Inl st) | Some (Inr x) \<Rightarrow> k x)"

definition load_text :: "stack \<Rightarrow> 'd EFI_INI_FILE \<Rightarrow> u32 \<Rightarrow> string \<Rightarrow> u16 list \<Rightarrow> (EFI_STATUS + u16 list) option" where
  "load_text Stk f Order Key Buffer = do {
     (st, b) \<leftarrow> TestCaseGetString Stk f Order (wide Key) Buffer;
     Some (if EFI_ERROR st then Inl st else Inr b) }"

definition load_number :: "stack \<Rightarrow> 'd EFI_INI_FILE \<Rightarrow> u32 \<Rightarrow> string \<Rightarrow> u16 list \<Rightarrow> (EFI_STATUS + u32 \<times> u16 list) option" where
  "load_number Stk f Order Key Buffer =
     attempt (load_text Stk f Order Key Buffer) (\<lambda>b. do {
       (st, v) \<leftarrow> SctHexStrToShort b;
       Some (if EFI_ERROR st then Inl st else Inr (v, b)) })"

text \<open>The part \<open>LoadSingleTestSequence\<close> and \<open>LoadSingleTestCase\<close> share, up to the iterations.\<close>

definition load_sequence :: "(nat \<Rightarrow> stack) \<Rightarrow> (nat \<Rightarrow> bool) \<Rightarrow> nat \<Rightarrow> 'd EFI_INI_FILE \<Rightarrow> u32 \<Rightarrow> u16 list \<Rightarrow>
    (EFI_STATUS + EFI_SCT_TEST_CASE \<times> u16 list) option" where
  "load_sequence Stk pool n f Order b =
     (case CreateSingleTestCase (pool n) of
        (st, None) \<Rightarrow> Some (Inl st)
      | (_, Some c) \<Rightarrow>
          attempt (load_text (Stk n) f Order ''Revision'' b) (\<lambda>b. do {
          (st, Revision) \<leftarrow> SctHexStrToShort b;
          if EFI_ERROR st \<or> Revision \<noteq> tcRevision c then Some (Inl EFI_UNSUPPORTED) else
          attempt (load_text (Stk (n + 1)) f Order ''Guid'' b) (\<lambda>b. do {
          (st, g) \<leftarrow> SctStrToGuid b;
          if EFI_ERROR st then Some (Inl st) else
          attempt (load_text (Stk (n + 2)) f Order ''Name'' b) (\<lambda>b. do {
          t \<leftarrow> cstr b;
          attempt (load_number (Stk (n + 3)) f Order ''Order'' b) (\<lambda>(ord, b).
          attempt (load_number (Stk (n + 4)) f Order ''Iterations'' b) (\<lambda>(it, b).
          Some (Inr (c\<lparr>tcGuid := g, tcName := (if pool (n + 1) then Some t else None),
            tcOrder := ord, tcIterations := it\<rparr>, b)))) }) }) }))"

definition check_name :: "EFI_SCT_TEST_CASE \<Rightarrow> (EFI_STATUS + EFI_SCT_TEST_CASE) option" where
  "check_name c = Some (if tcName c = None then Inl EFI_OUT_OF_RESOURCES else Inr c)"

definition LoadSingleTestSequence :: "(nat \<Rightarrow> stack) \<Rightarrow> (nat \<Rightarrow> bool) \<Rightarrow> nat \<Rightarrow> 'd EFI_INI_FILE \<Rightarrow> u32 \<Rightarrow> u16 list \<Rightarrow>
    (EFI_STATUS + EFI_SCT_TEST_CASE) option" where
  "LoadSingleTestSequence Stk pool n f Order Buffer =
     attempt (load_sequence Stk pool n f Order Buffer) (\<lambda>(c, b). check_name c)"

definition LoadSingleTestCase :: "(nat \<Rightarrow> stack) \<Rightarrow> (nat \<Rightarrow> bool) \<Rightarrow> nat \<Rightarrow> 'd EFI_INI_FILE \<Rightarrow> u32 \<Rightarrow> u16 list \<Rightarrow>
    (EFI_STATUS + EFI_SCT_TEST_CASE) option" where
  "LoadSingleTestCase Stk pool n f Order Buffer =
     attempt (load_sequence Stk pool n f Order Buffer) (\<lambda>(c, b).
     attempt (load_number (Stk (n + 5)) f Order ''Passes'' b) (\<lambda>(p, b).
     attempt (load_number (Stk (n + 6)) f Order ''Warnings'' b) (\<lambda>(w, b).
     attempt (load_number (Stk (n + 7)) f Order ''Failures'' b) (\<lambda>(e, b).
     check_name (c\<lparr>tcPasses := p, tcWarnings := w, tcFailures := e\<rparr>)))))"

fun load_loop :: "(nat \<Rightarrow> u32 \<Rightarrow> u16 list \<Rightarrow> (EFI_STATUS + EFI_SCT_TEST_CASE) option) \<Rightarrow> (nat \<Rightarrow> u16 list) \<Rightarrow>
    nat \<Rightarrow> u32 \<Rightarrow> nat \<Rightarrow> EFI_SCT_TEST_CASE list \<Rightarrow> (nat \<times> EFI_SCT_TEST_CASE list) option" where
  "load_loop load Buf 0 Index n cs = Some (n, cs)"
| "load_loop load Buf (Suc m) Index n cs = do {
     r \<leftarrow> load n Index (Buf n);
     load_loop load Buf m (Index + 1) (n + 8) (case r of Inl st \<Rightarrow> cs | Inr c \<Rightarrow> cs @ [c]) }"

text \<open>The number of test cases, the loop, and the closing of the file.\<close>

definition load_file :: "'d files \<Rightarrow> (nat \<Rightarrow> stack) \<Rightarrow> (nat \<Rightarrow> u16 list) \<Rightarrow>
    (nat \<Rightarrow> u32 \<Rightarrow> u16 list \<Rightarrow> (EFI_STATUS + EFI_SCT_TEST_CASE) option) \<Rightarrow>
    nat \<Rightarrow> 'd EFI_INI_FILE \<Rightarrow> EFI_SCT_TEST_CASE list \<Rightarrow> (EFI_STATUS \<times> EFI_SCT_TEST_CASE list \<times> io list) option" where
  "load_file F Stk Buf load n f TestCaseList = do {
     (st, num) \<leftarrow> TestCaseGetOrderNum (Stk n) f 0;
     if EFI_ERROR st then do {
       (st', tr) \<leftarrow> AtslEfiIniClose (fiFirmware F 1) (fiOut F) f;
       Some (st, TestCaseList, tr) }
     else do {
       num \<leftarrow> num;
       (n, cs) \<leftarrow> load_loop load Buf (unat num) 0 n TestCaseList;
       (st', tr) \<leftarrow> AtslEfiIniClose (fiFirmware F 1) (fiOut F) f;
       Some (EFI_SUCCESS, cs, tr) } }"

definition LoadTestCases :: "'d files \<Rightarrow> (nat \<Rightarrow> stack) \<Rightarrow> pool \<Rightarrow> (nat \<Rightarrow> bool) \<Rightarrow> (nat \<Rightarrow> u16 list) \<Rightarrow> nat \<Rightarrow>
    EFI_SCT_TEST_CASE list \<Rightarrow> (EFI_STATUS \<times> EFI_SCT_TEST_CASE list \<times> io list) option" where
  "LoadTestCases F Stk Pool pool Buf n TestCaseList = do {
     (st, h, tr) \<leftarrow> open_file F 0 Stk Pool n;
     if EFI_ERROR st \<and> st \<noteq> EFI_NOT_FOUND then Some (st, TestCaseList, tr)
     else if st = EFI_NOT_FOUND then Some (EFI_SUCCESS, TestCaseList, tr)
     else do {
       f \<leftarrow> h;
       (st, cs, tr') \<leftarrow> load_file F Stk Buf (\<lambda>n. LoadSingleTestCase Stk pool n f) n f TestCaseList;
       Some (st, cs, tr @ tr') } }"

definition LoadTestSequence :: "'d files \<Rightarrow> (nat \<Rightarrow> stack) \<Rightarrow> pool \<Rightarrow> (nat \<Rightarrow> bool) \<Rightarrow> (nat \<Rightarrow> u16 list) \<Rightarrow> nat \<Rightarrow>
    EFI_SCT_TEST_CASE list \<Rightarrow> (EFI_STATUS \<times> EFI_SCT_TEST_CASE list \<times> io list) option" where
  "LoadTestSequence F Stk Pool pool Buf n TestCaseList = do {
     (st, h, tr) \<leftarrow> open_file F 0 Stk Pool n;
     if EFI_ERROR st then Some (st, TestCaseList, tr)
     else do {
       f \<leftarrow> h;
       (st, seq, tr') \<leftarrow> load_file F Stk Buf (\<lambda>n. LoadSingleTestSequence Stk pool n f) n f [];
       Some (st, if EFI_ERROR st then TestCaseList else MergeTestCases TestCaseList seq, tr @ tr') } }"

end
