(* ===== verification/Fw_Saved.thy ===== *)
theory Fw_Saved
  imports Fw_Files
begin

text \<open>
  Test cases come back from a file: what saving writes into the sections, what loading reads from
  them, and the way through the flushed file.
\<close>

section \<open>What a set leaves alone\<close>

definition same_file :: "'d EFI_INI_FILE \<Rightarrow> 'd EFI_INI_FILE \<Rightarrow> bool" where
  "same_file f f' \<longleftrightarrow> isUnicode f' = isUnicode f \<and> CommentLines f' = CommentLines f \<and>
     FileName f' = FileName f \<and> DevPath f' = DevPath f"

lemma same_file_refl [simp]: "same_file f f"
  by (simp add: same_file_def)

lemma same_file_trans: "same_file f g \<Longrightarrow> same_file g h \<Longrightarrow> same_file f h"
  by (simp add: same_file_def)

lemma set_value_same: "set_value f x t = Some f' \<Longrightarrow> same_file f f' \<and> (f' = f \<or> Modified f')"
  by (auto simp: set_value_def same_file_def bind_eq_Some_conv split: if_splits)

lemma add_entry_same: "add_entry Pool n f p s e t = Some (st, f') \<Longrightarrow> same_file f f' \<and> (f' = f \<or> Modified f')"
  by (auto simp: add_entry_def same_file_def bind_eq_Some_conv split: option.splits)

lemma case_sum_Some: "case_sum f g x = Some y \<longleftrightarrow> (\<exists>l. x = Inl l \<and> f l = Some y) \<or> (\<exists>r. x = Inr r \<and> g r = Some y)"
  by (cases x) auto

lemma SetStringByOrder_same:
  "EfiIniSetStringByOrder Stk Pool n f Order Section Entry String = Some (st, f') \<Longrightarrow>
    same_file f f' \<and> (f' = f \<or> Modified f')"
  by (auto simp: EfiIniSetStringByOrder_def bind_eq_Some_conv case_sum_Some
      split: option.split_asm if_split_asm prod.split_asm)
    (use set_value_same add_entry_same in blast)+

section \<open>Sections at the end of a file\<close>

definition sect_of :: "u8 list \<Rightarrow> (u8 list \<times> u8 list) list \<Rightarrow> entry list" where
  "sect_of s kvs = (if kvs = [] then [] else (s, [], []) # map (Pair s) kvs)"

definition keyed :: "(u8 list \<times> u8 list) list \<Rightarrow> bool" where
  "keyed kvs \<longleftrightarrow> (\<forall>x\<in>set kvs. fst x \<noteq> [])"

lemma sections_snoc:
  assumes "is_head h" and "\<forall>y\<in>set ys. \<not> is_head y"
  shows "sections (xs @ h # ys) = sections xs @ [h # ys]"
proof (induction xs rule: sections.induct)
  case 1
  have "takeWhile (\<lambda>y. \<not> is_head y) ys = ys" "dropWhile (\<lambda>y. \<not> is_head y) ys = []" using assms(2) by simp_all
  then show ?case by (simp only: append_Nil sections.simps)
next
  case (2 x xs)
  show ?case
  proof (cases "\<forall>y\<in>set xs. \<not> is_head y")
    case True
    then have tw: "takeWhile (\<lambda>y. \<not> is_head y) (xs @ h # ys) = xs" "dropWhile (\<lambda>y. \<not> is_head y) (xs @ h # ys) = h # ys"
      "takeWhile (\<lambda>y. \<not> is_head y) xs = xs" "dropWhile (\<lambda>y. \<not> is_head y) xs = []"
      using assms(1) by (simp_all add: takeWhile_append dropWhile_append)
    have "takeWhile (\<lambda>y. \<not> is_head y) ys = ys" "dropWhile (\<lambda>y. \<not> is_head y) ys = []" using assms(2) by simp_all
    then have "sections (h # ys) = [h # ys]" by (simp only: sections.simps)
    then show ?thesis by (simp only: append_Cons append_Nil sections.simps tw)
  next
    case False
    then obtain y where "y \<in> set xs" "is_head y" by blast
    then have "takeWhile (\<lambda>y. \<not> is_head y) (xs @ h # ys) = takeWhile (\<lambda>y. \<not> is_head y) xs"
      "dropWhile (\<lambda>y. \<not> is_head y) (xs @ h # ys) = dropWhile (\<lambda>y. \<not> is_head y) xs @ h # ys"
      by (auto intro: takeWhile_append1 dropWhile_append1)
    then show ?thesis using 2 by simp
  qed
qed

lemma nth_match_last:
  "length (filter P gs) = k \<Longrightarrow> P g \<Longrightarrow> nth_match P k (gs @ [g]) = Some g"
  unfolding nth_match_filter by (auto simp del: nth_append_length)

lemma map_nth_match_last:
  "length (filter P gs) = k \<Longrightarrow> P g \<Longrightarrow> map_nth_match P k F (gs @ [g]) = gs @ [F g]"
  by (induction P k F gs rule: map_nth_match.induct) (auto split: nat.splits)

lemma in_section_same [simp]: "in_section s (s, e, v)"
  by (simp add: in_section_def)

lemma a_set_nth_last:
  assumes "length (filter (of_section s) (sections xs)) = k" and "keyed kvs" and "e \<noteq> []"
    and "up e \<notin> up ` fst ` set kvs"
  shows "a_set_nth k s e v (xs @ sect_of s kvs) = xs @ sect_of s (kvs @ [(e, v)])"
proof (cases "kvs = []")
  case True
  have "nth_match (of_section s) k (sections xs) = None" using assms(1) by (simp add: nth_match_filter)
  then show ?thesis using True by (simp add: a_set_nth_def sect_of_def)
next
  case False
  let ?h = "(s, [], []) :: entry" and ?es = "map (Pair s) kvs"
  have sec: "sections (xs @ ?h # ?es) = sections xs @ [?h # ?es]"
    by (rule sections_snoc) (use assms(2) in \<open>auto simp: is_head_def keyed_def\<close>)
  have own: "of_section s (?h # ?es)" by (simp add: of_section_Cons)
  have "\<not> list_ex (hits s e) ?es" using assms(4) by (force simp: list_ex_iff hits_def)
  then have "set_in s e v (?h # ?es) = ?h # ?es @ [(s, e, v)]" by (simp add: set_in_def)
  then show ?thesis
    using False nth_match_last [OF assms(1) own] map_nth_match_last [OF assms(1) own]
    by (simp add: a_set_nth_def sect_of_def sec)
qed

section \<open>One key\<close>

definition key :: "string \<Rightarrow> u8 list" where
  "key t = name_of (map (of_nat \<circ> of_char) t)"

definition S_NAME :: "u8 list" where
  "S_NAME = key ''Test Case''"

definition case_keys :: "string list" where
  "case_keys = [''Revision'', ''Guid'', ''Name'', ''Order'', ''Iterations'', ''Passes'', ''Warnings'', ''Failures'']"

definition good_key :: "string \<Rightarrow> bool" where
  "good_key t \<longleftrightarrow> cstr (wide t) = Some (map (of_nat \<circ> of_char) t) \<and> length t < 100 \<and> key t \<noteq> [] \<and>
     clean (key t) \<and> chEQ \<notin> set (key t) \<and> hd (key t) \<noteq> chHASH \<and> hd (key t) \<noteq> chLB \<and> chRB \<notin> set (key t)"

lemma key_facts:
  "list_all good_key (''Test Case'' # case_keys)"
  "distinct (map (up \<circ> key) case_keys)"
  by code_simp+

lemma good_keys: "good_key ''Test Case''" "k \<in> set case_keys \<Longrightarrow> good_key k"
  using key_facts(1) by (simp_all add: list_all_iff)

lemma key_length: "length (key t) \<le> length t"
  using length_name_of [of "map (of_nat \<circ> of_char) t"] by (simp add: key_def)

lemma up_inj: "k \<in> set case_keys \<Longrightarrow> k' \<in> set case_keys \<Longrightarrow> up (key k) = up (key k') \<longleftrightarrow> k = k'"
  using key_facts(2) by (auto simp: distinct_map inj_on_def)

section \<open>Saving a text\<close>

text \<open>The file being saved: the entries before, and the keys of the last section.\<close>

definition saving :: "entry list \<Rightarrow> 'd EFI_INI_FILE \<Rightarrow> (u8 list \<times> u8 list) list \<Rightarrow> 'd saving \<Rightarrow> bool" where
  "saving xs f0 kvs s \<longleftrightarrow> (case s of (n, f, b) \<Rightarrow> file_ok f \<and> fresh n f \<and> same_file f0 f \<and>
     entries f = xs @ sect_of S_NAME kvs \<and> (kvs \<noteq> [] \<longrightarrow> Modified f) \<and> length b = 512)"

definition memory :: "(nat \<Rightarrow> stack) \<Rightarrow> pool \<Rightarrow> bool" where
  "memory Stk Pool \<longleftrightarrow> (\<forall>k. stack_ok (Stk k)) \<and> pool_ok Pool \<and> (\<forall>k. Pool k \<noteq> None)"

text \<open>Texts that come back from a file.\<close>

definition plain :: "u16 list \<Rightarrow> bool" where
  "plain t \<longleftrightarrow> (let v = map ucast t in t = widen v \<and> clean v \<and> length v < 100 \<and> chHASH \<notin> set v)"

lemma plain_name: "plain t \<Longrightarrow> widen (name_of t) = t \<and> clean (name_of t) \<and> length (name_of t) < 100 \<and> chHASH \<notin> set (name_of t)"
proof -
  assume p: "plain t"
  let ?v = "map ucast t :: u8 list"
  have v: "t = widen ?v" "clean ?v" "length ?v < 100" "chHASH \<notin> set ?v" using p by (simp_all add: plain_def Let_def)
  then have "low_bytes t = ?v" by (metis clean_def low_bytes_widen)
  then have "name_of t = ?v" using v(2) by (simp add: name_of_def clean_def)
  then show ?thesis using v by simp
qed

lemma plain_length: "plain t \<Longrightarrow> length t < 100"
  by (simp add: plain_def Let_def)

lemma save_text_step:
  assumes s: "saving xs f0 kvs (n, f, b)" and m: "memory Stk Pool"
    and own: "length (filter (of_section S_NAME) (sections xs)) = unat Order"
    and k: "k \<in> set case_keys" "up (key k) \<notin> up ` fst ` set kvs" "keyed kvs" and t: "cstr t' = Some t" "plain t"
  shows "\<exists>s'. save_text Stk Pool Order k (Some t') (n, f, b) = Some s' \<and> saving xs f0 (kvs @ [(key k, name_of t)]) s'"
proof -
  define T where "T = ''Test Case''"
  have g: "good_key T" "good_key k" using good_keys(1) good_keys(2) [OF k(1)] by (simp_all add: T_def)
  note g = g [unfolded good_key_def]
  have S: "cstr EFI_SCT_SECTION_TEST_CASE = Some (map (of_nat \<circ> of_char) T)"
    using g(1) by (simp add: EFI_SCT_SECTION_TEST_CASE_def T_def)
  have l: "length (key T) < 100" "length (key k) < 100" using g key_length [of T] key_length [of k] by auto
  have f: "file_ok f" "fresh n f" "entries f = xs @ sect_of S_NAME kvs" "same_file f0 f" "length b = 512"
    using s by (simp_all add: saving_def)
  have M: "stack_ok (Stk n)" "pool_ok Pool" "Pool n \<noteq> None" "Pool (Suc n) \<noteq> None" using m by (simp_all add: memory_def)
  have "\<exists>f'. EfiIniSetStringByOrder (Stk n) Pool n f Order (Some EFI_SCT_SECTION_TEST_CASE) (Some (wide k)) (Some t') =
      Some (EFI_SUCCESS, f') \<and> file_ok f' \<and> fresh (n + 2) f' \<and>
    entries f' = a_set_nth (unat Order) (name_of (map (of_nat \<circ> of_char) T)) (name_of (map (of_nat \<circ> of_char) k))
      (name_of t) (entries f)"
    by (rule EfiIniSetStringByOrder_entries [OF f(1,2) M(2,3,4,1) S _ conjunct1 [OF g(2)] _ t(1)])
      (use g l plain_name [OF t(2)] plain_length [OF t(2)] in \<open>auto simp: key_def\<close>)
  then obtain f' where f': "EfiIniSetStringByOrder (Stk n) Pool n f Order (Some EFI_SCT_SECTION_TEST_CASE) (Some (wide k))
      (Some t') = Some (EFI_SUCCESS, f')" "file_ok f'" "fresh (n + 2) f'"
    "entries f' = a_set_nth (unat Order) S_NAME (key k) (name_of t) (xs @ sect_of S_NAME kvs)"
    unfolding f(3) key_def S_NAME_def T_def by blast
  have e: "entries f' = xs @ sect_of S_NAME (kvs @ [(key k, name_of t)])"
    unfolding f'(4) by (rule a_set_nth_last [OF own k(3) _ k(2)]) (use g in simp)
  note same = SetStringByOrder_same [OF f'(1)]
  have "f' \<noteq> f" using e f(3) by (auto simp: sect_of_def split: if_splits)
  then show ?thesis
    using f' e same_file_trans [OF f(4) conjunct1 [OF same]] same f(5)
    by (simp add: save_text_def TestCaseSetString_def saving_def)
qed

section \<open>Numbers and GUIDs come back\<close>

lemma ucast_mid:
  fixes c :: u16
  assumes "32 < c" "c < 128" "c \<noteq> 35"
  shows "(ucast (ucast c :: u8) :: u16) = c" and "(ucast c :: u8) \<notin> {0, chLF, chCR, chSPACE, chHASH}"
proof -
  have u: "32 < unat c" "unat c < 128" "unat c \<noteq> 35"
    using assms unfolding word_less_nat_alt word_unat_eq_iff by simp_all
  have b: "unat (ucast c :: u8) = unat c" using u by (simp add: unsigned_ucast_eq take_bit_nat_eq_self)
  show "(ucast (ucast c :: u8) :: u16) = c"
    by (rule word_unat_eq_iff [THEN iffD2])
      (use u b in \<open>simp add: unsigned_ucast_eq unsigned_take_bit_eq take_bit_nat_eq_self\<close>)
  have "unat (ucast c :: u8) \<notin> {0, 10, 13, 32, 35}" using u unfolding b by auto
  then show "(ucast c :: u8) \<notin> {0, chLF, chCR, chSPACE, chHASH}" by auto
qed

definition mid :: "u16 list \<Rightarrow> bool" where
  "mid t \<longleftrightarrow> (\<forall>c\<in>set t. 32 < c \<and> c < 128 \<and> c \<noteq> 35)"

lemma mid_plain:
  assumes "mid t" and "length t < 100"
  shows "plain t"
proof -
  let ?v = "map ucast t :: u8 list"
  have c: "(ucast (ucast c :: u8) :: u16) = c" "(ucast c :: u8) \<notin> {0, chLF, chCR, chSPACE, chHASH}" if "c \<in> set t" for c
    using ucast_mid [of c] assms(1) that by (auto simp: mid_def)
  have "?v = [] \<or> hd ?v \<in> set ?v \<and> last ?v \<in> set ?v" by (cases ?v) auto
  then have "trim ?v = ?v" using c(2) by (intro trim_id) fastforce
  moreover have "widen ?v = t" using c(1) by (simp add: widen_def map_idI)
  ultimately show ?thesis using c(2) assms(2) by (force simp: plain_def clean_def Let_def)
qed

lemma range_mid:
  fixes c :: u16
  assumes "45 \<le> c" "c \<le> 122"
  shows "32 < c \<and> c < 128 \<and> c \<noteq> 35"
  using assms by (auto simp: word_le_nat_alt word_less_nat_alt)

lemma digits_mid: "all_digits 16 s \<Longrightarrow> mid s"
  unfolding mid_def
proof (rule ballI, rule range_mid)
  fix c assume "all_digits 16 s" "c \<in> set s"
  then have "hex_val c \<noteq> None" by (simp add: all_digits_def)
  then show "45 \<le> c" "c \<le> 122" by (auto simp: hex_val_def word_le_nat_alt split: if_splits)
qed

lemma hex_field_mid:
  assumes "Mask = push_bit (4 * (Len - 1)) 15" and "Len \<le> 8"
  shows "mid (hex_field Mask Len v)"
  unfolding mid_def hex_field_nibbles [OF assms]
proof (rule ballI, rule range_mid)
  fix c assume "c \<in> set (map hex_char (nibbles Len v))"
  then obtain n where "n < 16" "c = hex_char n" using nibbles_small by auto
  then have "48 \<le> c \<and> c \<le> 57 \<or> 65 \<le> c \<and> c \<le> 70" using hex_char_cases [of n] by auto
  then show "45 \<le> c" "c \<le> 122" by (auto simp: word_le_nat_alt)
qed

lemma mid_append: "mid (s @ t) \<longleftrightarrow> mid s \<and> mid t" and mid_Cons: "mid (c # t) \<longleftrightarrow> (32 < c \<and> c < 128 \<and> c \<noteq> 35) \<and> mid t"
  by (auto simp: mid_def)

lemma guid_mid: "mid (guid_text g)"
proof -
  have "mid (hex_field 0xf0000000 8 a)" "mid (hex_field 0xf000 4 b)" "mid (hex_field 0xf0 2 c)" for a b c
    by (rule hex_field_mid; simp)+
  then show ?thesis by (simp add: guid_text_parts mid_append mid_Cons)
qed

definition reads_number :: "u32 \<Rightarrow> u16 list \<Rightarrow> bool" where
  "reads_number v t \<longleftrightarrow> plain t \<and> (\<forall>b. cstr b = Some t \<longrightarrow> SctHexStrToShort b = Some (EFI_SUCCESS, v))"

definition reads_guid :: "guid_words \<Rightarrow> u16 list \<Rightarrow> bool" where
  "reads_guid g t \<longleftrightarrow> plain t \<and> (\<forall>b. cstr b = Some t \<longrightarrow> SctStrToGuid b = Some (EFI_SUCCESS, g))"

lemma SctShortToHexStr_reads:
  assumes "11 \<le> length b"
  obtains b' t where "SctShortToHexStr v b = Some (EFI_SUCCESS, b')" "cstr b' = Some t" "reads_number v t" "length b' = length b"
proof -
  obtain b' s where b: "SctShortToHexStr v b = Some (EFI_SUCCESS, b')" "cstr b' = Some (48 # 120 # s)" "all_digits 16 s"
    "length s \<le> 8" "SctHexStrToShort b' = Some (EFI_SUCCESS, v)" "length b' = length b"
    using SctShortToHexStr_text [OF assms, of v] by blast
  have "mid (48 # 120 # s)" using digits_mid [OF b(3)] by (simp add: mid_Cons)
  then have "plain (48 # 120 # s)" using b(4) by (intro mid_plain) simp_all
  moreover have "SctHexStrToShort c = Some (EFI_SUCCESS, v)" if "cstr c = Some (48 # 120 # s)" for c
    using SctXtoi_cstr [OF that] SctXtoi_cstr [OF b(2)] b(5) by (simp add: SctHexStrToShort_def)
  ultimately show ?thesis using that b by (simp add: reads_number_def)
qed

lemma guid_text_reads: "reads_guid g (guid_text g)"
  using mid_plain [OF guid_mid, of g] SctStrToGuid_text [of g]
  by (auto simp: reads_guid_def length_guid_text cstr_Some_iff)

lemma SctGuidToStr_reads:
  assumes "37 \<le> length b"
  obtains b' where "SctGuidToStr (Some g) (Some b) = Some (EFI_SUCCESS, Some b')" "cstr b' = Some (guid_text g)"
    "length b' = length b"
proof -
  let ?b = "guid_text g @ 0 # drop 37 b"
  have "SctGuidToStr (Some g) (Some b) = Some (EFI_SUCCESS, Some ?b)"
    using assms by (simp add: SctGuidToStr_def write_cells_spec length_guid_text)
  moreover have "0 \<notin> set (guid_text g)" using guid_mid [of g] by (auto simp: mid_def)
  ultimately show ?thesis using that [of ?b] assms by (simp add: length_guid_text)
qed

section \<open>A saved test case\<close>

lemma saving_buffer: "saving xs f0 kvs (n, f, b) \<Longrightarrow> length b' = length b \<Longrightarrow> saving xs f0 kvs (n, f, b')"
  by (simp add: saving_def)

lemma saving_length: "saving xs f0 kvs (n, f, b) \<Longrightarrow> length b = 512"
  by (simp add: saving_def)

text \<open>The keys that the section has so far.\<close>

definition upto :: "nat \<Rightarrow> (u8 list \<times> u8 list) list \<Rightarrow> bool" where
  "upto j kvs \<longleftrightarrow> map fst kvs = map key (take j case_keys)"

lemma upto_next:
  assumes "upto j kvs" and "j < 8"
  shows "case_keys ! j \<in> set case_keys" and "up (key (case_keys ! j)) \<notin> up ` fst ` set kvs" and "keyed kvs"
    and "upto (Suc j) (kvs @ [(key (case_keys ! j), v)])"
proof -
  have l: "length case_keys = 8" by (simp add: case_keys_def)
  show j: "case_keys ! j \<in> set case_keys" using assms(2) l by simp
  have set: "fst ` set kvs = key ` set (take j case_keys)" using assms(1) by (metis list.set_map upto_def)
  have d: "distinct case_keys" by (simp add: case_keys_def)
  have nin: "case_keys ! j \<notin> set (take j case_keys)"
    using d l assms(2) by (auto simp: in_set_conv_nth nth_eq_iff_index_eq)
  show "up (key (case_keys ! j)) \<notin> up ` fst ` set kvs"
  proof
    assume "up (key (case_keys ! j)) \<in> up ` fst ` set kvs"
    then obtain k where "k \<in> set (take j case_keys)" "up (key (case_keys ! j)) = up (key k)" unfolding set by blast
    then show False using up_inj [OF j, of k] nin by (metis in_set_takeD)
  qed
  show "keyed kvs"
  proof -
    have "key k \<noteq> []" if "k \<in> set (take j case_keys)" for k
      using good_keys(2) [OF in_set_takeD [OF that]] by (simp add: good_key_def)
    then have "[] \<notin> fst ` set kvs" unfolding set by fastforce
    then show ?thesis by (force simp: keyed_def)
  qed
  show "upto (Suc j) (kvs @ [(key (case_keys ! j), v)])"
    using assms l by (simp add: upto_def take_Suc_conv_app_nth)
qed

lemma save_text_at:
  assumes m: "memory Stk Pool" and own: "length (filter (of_section S_NAME) (sections xs)) = unat Order"
    and s0: "saving xs f0 kvs s" and j: "upto j kvs" "j < 8" and t: "cstr t' = Some t" "plain t"
  shows "\<exists>s'. save_text Stk Pool Order (case_keys ! j) (Some t') s = Some s' \<and>
    saving xs f0 (kvs @ [(key (case_keys ! j), name_of t)]) s' \<and> upto (Suc j) (kvs @ [(key (case_keys ! j), name_of t)])"
  using save_text_step [OF _ m own upto_next(1,2,3) [OF j] t, of f0] upto_next(4) [OF j] s0
  by (cases s) blast

lemma save_number_at:
  assumes m: "memory Stk Pool" and own: "length (filter (of_section S_NAME) (sections xs)) = unat Order"
    and s0: "saving xs f0 kvs s" and j: "upto j kvs" "j < 8"
  shows "\<exists>s' t. save_number Stk Pool Order (case_keys ! j) v s = Some s' \<and> reads_number v t \<and>
    saving xs f0 (kvs @ [(key (case_keys ! j), name_of t)]) s' \<and> upto (Suc j) (kvs @ [(key (case_keys ! j), name_of t)])"
proof -
  obtain n f b where s: "s = (n, f, b)" by (cases s)
  obtain b' t where b: "SctShortToHexStr v b = Some (EFI_SUCCESS, b')" "cstr b' = Some t" "reads_number v t" "length b' = length b"
    using SctShortToHexStr_reads [of b v] saving_length [OF s0 [unfolded s]] by auto
  have "plain t" using b(3) by (simp add: reads_number_def)
  from save_text_at [OF m own saving_buffer [OF s0 [unfolded s] b(4)] j b(2) this] show ?thesis
    using b(1,3) s by (auto simp: save_number_def)
qed

lemma save_guid_at:
  assumes m: "memory Stk Pool" and own: "length (filter (of_section S_NAME) (sections xs)) = unat Order"
    and s0: "saving xs f0 kvs s" and j: "upto j kvs" "j < 8"
  shows "\<exists>s'. save_guid Stk Pool Order (case_keys ! j) g s = Some s' \<and>
    saving xs f0 (kvs @ [(key (case_keys ! j), name_of (guid_text g))]) s' \<and>
    upto (Suc j) (kvs @ [(key (case_keys ! j), name_of (guid_text g))])"
proof -
  obtain n f b where s: "s = (n, f, b)" by (cases s)
  obtain b' where b: "SctGuidToStr (Some g) (Some b) = Some (EFI_SUCCESS, Some b')" "cstr b' = Some (guid_text g)" "length b' = length b"
    using SctGuidToStr_reads [of b g] saving_length [OF s0 [unfolded s]] by auto
  have "plain (guid_text g)" using guid_text_reads by (simp add: reads_guid_def)
  from save_text_at [OF m own saving_buffer [OF s0 [unfolded s] b(3)] j b(2) this] show ?thesis
    using b(1) s by (auto simp: save_guid_def)
qed

text \<open>What the section of a sequence holds, and that of a test case, which goes on with the results.\<close>

definition saved_seq :: "EFI_SCT_TEST_CASE \<Rightarrow> (u8 list \<times> u8 list) list \<Rightarrow> bool" where
  "saved_seq c kvs \<longleftrightarrow> (\<exists>r t0 x i. tcName c = Some t0 \<and> plain t0 \<and>
     reads_number (tcRevision c) r \<and> reads_number (tcOrder c) x \<and> reads_number (tcIterations c) i \<and>
     kvs = zip (map key (take 5 case_keys)) (map name_of [r, guid_text (tcGuid c), t0, x, i]))"

definition saved_as :: "EFI_SCT_TEST_CASE \<Rightarrow> (u8 list \<times> u8 list) list \<Rightarrow> bool" where
  "saved_as c kvs \<longleftrightarrow> (\<exists>ks p w e. saved_seq c ks \<and>
     reads_number (tcPasses c) p \<and> reads_number (tcWarnings c) w \<and> reads_number (tcFailures c) e \<and>
     kvs = ks @ zip (map key (drop 5 case_keys)) (map name_of [p, w, e]))"

definition nameable :: "EFI_SCT_TEST_CASE \<Rightarrow> bool" where
  "nameable c \<longleftrightarrow> (\<exists>t. tcName c = Some t \<and> plain t)"

lemma case_keys_nth:
  "case_keys ! 0 = ''Revision''" "case_keys ! Suc 0 = ''Guid''" "case_keys ! 2 = ''Name''" "case_keys ! 3 = ''Order''"
  "case_keys ! 4 = ''Iterations''" "case_keys ! 5 = ''Passes''" "case_keys ! 6 = ''Warnings''" "case_keys ! 7 = ''Failures''"
  by (simp_all add: case_keys_def)

lemma SaveSingleTestSequence_saved:
  assumes m: "memory Stk Pool" and own: "length (filter (of_section S_NAME) (sections xs)) = unat Order"
    and s: "saving xs f0 [] s" and c: "nameable c"
  shows "\<exists>s' kvs. SaveSingleTestSequence Stk Pool Order c s = Some s' \<and> saved_seq c kvs \<and> saving xs f0 kvs s' \<and> upto 5 kvs"
proof -
  note number = save_number_at [OF m own] and texts = save_text_at [OF m own] and guid = save_guid_at [OF m own]
  note k = case_keys_nth
  obtain t0 where t0: "tcName c = Some t0" "plain t0" using c by (auto simp: nameable_def)
  have u: "upto 0 []" by (simp add: upto_def)
  have c0: "cstr (t0 @ [0]) = Some t0"
  proof -
    have "0 \<notin> set (widen (name_of t0))" by (rule widen_nz [OF name_of_nz])
    then show ?thesis using plain_name [OF t0(2)] by simp
  qed
  obtain s1 r where 1: "save_number Stk Pool Order ''Revision'' (tcRevision c) s = Some s1" "reads_number (tcRevision c) r"
    "saving xs f0 [(key ''Revision'', name_of r)] s1" "upto 1 [(key ''Revision'', name_of r)]"
    using number [OF s u, of "tcRevision c"] k by auto
  obtain s2 where 2: "save_guid Stk Pool Order ''Guid'' (tcGuid c) s1 = Some s2"
    "saving xs f0 [(key ''Revision'', name_of r), (key ''Guid'', name_of (guid_text (tcGuid c)))] s2"
    "upto 2 [(key ''Revision'', name_of r), (key ''Guid'', name_of (guid_text (tcGuid c)))]"
    using guid [OF 1(3,4), of "tcGuid c"] k by (auto simp: numeral_2_eq_2)
  let ?k3 = "[(key ''Revision'', name_of r), (key ''Guid'', name_of (guid_text (tcGuid c))), (key ''Name'', name_of t0)]"
  obtain s3 where 3: "save_text Stk Pool Order ''Name'' (Some (t0 @ [0])) s2 = Some s3" "saving xs f0 ?k3 s3" "upto 3 ?k3"
    using texts [OF 2(2,3) _ c0 t0(2)] k by (auto simp: numeral_3_eq_3 numeral_2_eq_2)
  obtain s4 x where 4: "save_number Stk Pool Order ''Order'' (tcOrder c) s3 = Some s4" "reads_number (tcOrder c) x"
    "saving xs f0 (?k3 @ [(key ''Order'', name_of x)]) s4" "upto 4 (?k3 @ [(key ''Order'', name_of x)])"
    using number [OF 3(2,3), of "tcOrder c"] k by auto
  let ?k4 = "?k3 @ [(key ''Order'', name_of x)]"
  obtain s5 i where 5: "save_number Stk Pool Order ''Iterations'' (tcIterations c) s4 = Some s5" "reads_number (tcIterations c) i"
    "saving xs f0 (?k4 @ [(key ''Iterations'', name_of i)]) s5" "upto 5 (?k4 @ [(key ''Iterations'', name_of i)])"
    using number [OF 4(3,4), of "tcIterations c"] k by auto
  have "SaveSingleTestSequence Stk Pool Order c s = Some s5"
    using 1(1) 2(1) 3(1) 4(1) 5(1) t0(1) by (simp add: SaveSingleTestSequence_def)
  moreover have "?k4 @ [(key ''Iterations'', name_of i)] =
      zip (map key (take 5 case_keys)) (map name_of [r, guid_text (tcGuid c), t0, x, i])" by (simp add: case_keys_def)
  then have "saved_seq c (?k4 @ [(key ''Iterations'', name_of i)])"
    unfolding saved_seq_def using t0 1(2) 4(2) 5(2) by blast
  ultimately show ?thesis using 5(3,4) by blast
qed

lemma SaveSingleTestCase_saved:
  assumes m: "memory Stk Pool" and own: "length (filter (of_section S_NAME) (sections xs)) = unat Order"
    and s: "saving xs f0 [] s" and c: "nameable c"
  shows "\<exists>s' kvs. SaveSingleTestCase Stk Pool Order c s = Some s' \<and> saved_as c kvs \<and> saving xs f0 kvs s'"
proof -
  note number = save_number_at [OF m own] and k = case_keys_nth
  obtain s5 ks where 5: "SaveSingleTestSequence Stk Pool Order c s = Some s5" "saved_seq c ks" "saving xs f0 ks s5" "upto 5 ks"
    using SaveSingleTestSequence_saved [OF m own s c] by blast
  obtain s6 p where 6: "save_number Stk Pool Order ''Passes'' (tcPasses c) s5 = Some s6" "reads_number (tcPasses c) p"
    "saving xs f0 (ks @ [(key ''Passes'', name_of p)]) s6" "upto 6 (ks @ [(key ''Passes'', name_of p)])"
    using number [OF 5(3,4), of "tcPasses c"] k by auto
  let ?k6 = "ks @ [(key ''Passes'', name_of p)]"
  obtain s7 w where 7: "save_number Stk Pool Order ''Warnings'' (tcWarnings c) s6 = Some s7" "reads_number (tcWarnings c) w"
    "saving xs f0 (?k6 @ [(key ''Warnings'', name_of w)]) s7" "upto 7 (?k6 @ [(key ''Warnings'', name_of w)])"
    using number [OF 6(3,4), of "tcWarnings c"] k by auto
  let ?k7 = "?k6 @ [(key ''Warnings'', name_of w)]"
  obtain s8 e where 8: "save_number Stk Pool Order ''Failures'' (tcFailures c) s7 = Some s8" "reads_number (tcFailures c) e"
    "saving xs f0 (?k7 @ [(key ''Failures'', name_of e)]) s8"
    using number [OF 7(3,4), of "tcFailures c"] k by auto
  have "SaveSingleTestCase Stk Pool Order c s = Some s8"
    using 5(1) 6(1) 7(1) 8(1) by (simp add: SaveSingleTestCase_def)
  moreover have "?k7 @ [(key ''Failures'', name_of e)] = ks @ zip (map key (drop 5 case_keys)) (map name_of [p, w, e])"
    by (simp add: case_keys_def)
  then have "saved_as c (?k7 @ [(key ''Failures'', name_of e)])"
    unfolding saved_as_def using 5(2) 6(2) 7(2) 8(2) by blast
  ultimately show ?thesis using 8(3) by blast
qed

section \<open>What a section may hold\<close>

definition storable :: "u8 list \<times> u8 list \<Rightarrow> bool" where
  "storable x \<longleftrightarrow> (\<exists>k t. x = (key k, name_of t) \<and> k \<in> set case_keys \<and> plain t)"

lemma storable_key: "storable (e, v) \<Longrightarrow> e \<noteq> []"
  using good_keys(2) by (auto simp: storable_def good_key_def)

lemma storable_keyed: "list_all storable kvs \<Longrightarrow> keyed kvs"
  using storable_key by (fastforce simp: list_all_iff keyed_def)

lemma good_values:
  "reads_number n t \<Longrightarrow> plain t" "reads_guid g t \<Longrightarrow> plain t"
  by (simp_all add: reads_number_def reads_guid_def)

lemma storable_zip:
  assumes "set ks \<subseteq> set case_keys" and "list_all plain ts"
  shows "list_all storable (zip (map key ks) (map name_of ts))"
proof -
  have "storable (e, v)" if "(e, v) \<in> set (zip (map key ks) (map name_of ts))" for e v
  proof -
    have "e \<in> key ` set ks" "v \<in> name_of ` set ts"
      using set_zip_leftD [OF that] set_zip_rightD [OF that] by (simp_all only: list.set_map)
    then show ?thesis using assms by (auto simp: storable_def list_all_iff)
  qed
  then have "storable x" if "x \<in> set (zip (map key ks) (map name_of ts))" for x using that by (cases x) blast
  then show ?thesis by (simp only: list_all_iff) blast
qed

lemma saved_seq_storable:
  assumes "saved_seq c kvs"
  shows "list_all storable kvs \<and> length kvs = 5"
proof -
  obtain r t0 x i where v: "plain t0" "reads_number (tcRevision c) r" "reads_number (tcOrder c) x" "reads_number (tcIterations c) i"
    and kvs: "kvs = zip (map key (take 5 case_keys)) (map name_of [r, guid_text (tcGuid c), t0, x, i])"
    using assms unfolding saved_seq_def by blast
  have "list_all plain [r, guid_text (tcGuid c), t0, x, i]"
    using v(1) v(2-4) [THEN good_values(1)] good_values(2) [OF guid_text_reads] by simp
  then show ?thesis unfolding kvs
    using storable_zip [OF set_take_subset, of "[r, guid_text (tcGuid c), t0, x, i]" 5] by (simp add: case_keys_def)
qed

lemma saved_as_storable:
  assumes "saved_as c kvs"
  shows "list_all storable kvs \<and> length kvs = 8"
proof -
  obtain ks p w e where v: "saved_seq c ks" "reads_number (tcPasses c) p" "reads_number (tcWarnings c) w" "reads_number (tcFailures c) e"
    and kvs: "kvs = ks @ zip (map key (drop 5 case_keys)) (map name_of [p, w, e])"
    using assms unfolding saved_as_def by blast
  have "list_all plain [p, w, e]" using v(2-4) [THEN good_values(1)] by simp
  then show ?thesis unfolding kvs
    using saved_seq_storable [OF v(1)] storable_zip [OF set_drop_subset, of "[p, w, e]" 5] by (simp add: case_keys_def)
qed

lemma count_sections:
  assumes "keyed kvs" and "kvs \<noteq> []"
  shows "sections (xs @ sect_of s kvs) = sections xs @ [sect_of s kvs]" and "of_section s (sect_of s kvs)"
proof -
  show "sections (xs @ sect_of s kvs) = sections xs @ [sect_of s kvs]"
    using sections_snoc [of "(s, [], [])" "map (Pair s) kvs" xs] assms by (auto simp: sect_of_def is_head_def keyed_def)
  show "of_section s (sect_of s kvs)" using assms by (simp add: sect_of_def of_section_Cons)
qed

end
