(* ===== verification/Fw_Round.thy ===== *)
theory Fw_Round
  imports Fw_Saved
begin

text \<open>
  Loading: what \<open>LoadSingleTestCase\<close> and \<open>LoadSingleTestSequence\<close> read from a section that was saved, the
  loops over all sections, and saving followed by loading over the flushed file. What the two formats
  share is the locale \<open>section_format\<close>.
\<close>

section \<open>Reading a text\<close>

lemma SctAsciiToUnicode_loop_length:
  "SctAsciiToUnicode_loop d s n = Some (d', c) \<Longrightarrow> length d' = length d"
  by (induction d s n arbitrary: d' c rule: SctAsciiToUnicode_loop.induct) (auto split: if_splits simp: Let_def)

lemma SctAsciiToUnicode_length:
  "SctAsciiToUnicode (Some d) s n = Some (r, c) \<Longrightarrow> \<forall>d'. r = Some d' \<longrightarrow> length d' = length d"
  by (auto simp: SctAsciiToUnicode_def dest: SctAsciiToUnicode_loop_length split: option.splits)

lemma SctStrCpy_length: "SctStrCpy d s = Some d' \<Longrightarrow> length d' = length d"
  by (induction d s arbitrary: d' rule: SctStrCpy.induct) (auto split: if_splits)

lemma return_value_length:
  "return_value Stk it Str m = Some (st, Some Str', m') \<Longrightarrow> length Str' = length Str"
  by (auto simp: return_value_def bind_eq_Some_conv dest: SctAsciiToUnicode_length split: if_splits)

lemma GetStringByOrder_length:
  "EfiIniGetStringByOrder Stk f Order (Some S) (Some E) (Some Str) m = Some (st, Some Str', m') \<Longrightarrow>
    length Str' = length Str"
  by (auto simp: EfiIniGetStringByOrder_def bind_eq_Some_conv case_sum_Some dest!: SctStrCpy_length return_value_length
      split: if_split_asm option.split_asm prod.split_asm)

text \<open>What \<open>Order\<close> is bound to: the section and its keys.\<close>

definition holding :: "'d EFI_INI_FILE \<Rightarrow> u32 \<Rightarrow> (u8 list \<times> u8 list) list \<Rightarrow> bool" where
  "holding f Order kvs \<longleftrightarrow>
     nth_match (of_section S_NAME) (unat Order) (sections (entries f)) = Some (sect_of S_NAME kvs)"

lemma load_text_reads:
  assumes f: "file_ok f" and stk: "stack_ok Stk" and k: "k \<in> set case_keys" and b: "length b = 512"
    and h: "holding f Order kvs" "a_get S_NAME (key k) (map (Pair S_NAME) kvs) = Some v" "kvs \<noteq> []" and v: "length v < 100"
  shows "\<exists>b'. load_text Stk f Order k b = Some (Inr b') \<and> cstr b' = Some (widen v) \<and> length b' = 512"
proof -
  define T where "T = ''Test Case''"
  have g: "good_key T" "good_key k" using good_keys(1) good_keys(2) [OF k] by (simp_all add: T_def)
  note g = g [unfolded good_key_def]
  have S: "cstr EFI_SCT_SECTION_TEST_CASE = Some (map (of_nat \<circ> of_char) T)"
    using g(1) by (simp add: EFI_SCT_SECTION_TEST_CASE_def T_def)
  have sk: "S_NAME = key T" by (simp add: S_NAME_def T_def)
  have ne: "name_of (map (of_nat \<circ> of_char) T) \<noteq> []" "name_of (map (of_nat \<circ> of_char) k) \<noteq> []"
    using g by (simp_all add: key_def)
  have "Option.bind (nth_match (of_section (key T)) (unat Order) (sections (entries f)))
      (\<lambda>g. a_get (key T) (key k) (tl g)) = Some v"
    using h by (simp add: holding_def sect_of_def sk)
  moreover have "length (map (of_nat \<circ> of_char) T) \<le> 100" "length (map (of_nat \<circ> of_char) k) \<le> 100" using g by simp_all
  ultimately obtain b' where r: "cstr b' = Some (widen (take (unat EFI_SCT_MAX_BUFFER_SIZE - 1) v))"
    "EfiIniGetStringByOrder Stk f Order (Some EFI_SCT_SECTION_TEST_CASE) (Some (wide k)) (Some b) EFI_SCT_MAX_BUFFER_SIZE =
      Some (if length v < unat EFI_SCT_MAX_BUFFER_SIZE then (EFI_SUCCESS, Some b', EFI_SCT_MAX_BUFFER_SIZE)
              else (EFI_BUFFER_TOO_SMALL, Some b', of_nat (length v + 1)))"
    using EfiIniGetStringByOrder_entries [OF f S _ conjunct1 [OF g(2)] _ ne stk, of EFI_SCT_MAX_BUFFER_SIZE b Order] b
    by (auto simp: key_def EFI_SCT_MAX_BUFFER_SIZE_def)
  have u: "unat EFI_SCT_MAX_BUFFER_SIZE = 512" by (simp add: EFI_SCT_MAX_BUFFER_SIZE_def)
  have r2: "EfiIniGetStringByOrder Stk f Order (Some EFI_SCT_SECTION_TEST_CASE) (Some (wide k)) (Some b) EFI_SCT_MAX_BUFFER_SIZE =
      Some (EFI_SUCCESS, Some b', EFI_SCT_MAX_BUFFER_SIZE)" using r(2) v u by simp
  have "take 511 v = v" using v by simp
  then show ?thesis
    using r(1) u r2 GetStringByOrder_length [OF r2] b by (simp add: load_text_def TestCaseGetString_def)
qed

section \<open>Reading a test case\<close>

lemma load_plain:
  assumes f: "file_ok f" and stk: "stack_ok Stk" and k: "k \<in> set case_keys" and b: "length b = 512"
    and h: "holding f Order kvs" "a_get S_NAME (key k) (map (Pair S_NAME) kvs) = Some (name_of t)" "kvs \<noteq> []" and t: "plain t"
  shows "\<exists>b'. load_text Stk f Order k b = Some (Inr b') \<and> cstr b' = Some t \<and> length b' = 512"
  using load_text_reads [OF f stk k b h] plain_name [OF t] by simp

lemma load_number_reads:
  assumes f: "file_ok f" and stk: "stack_ok Stk" and k: "k \<in> set case_keys" and b: "length b = 512"
    and h: "holding f Order kvs" "a_get S_NAME (key k) (map (Pair S_NAME) kvs) = Some (name_of t)" "kvs \<noteq> []" 
    and t: "reads_number v t"
  shows "\<exists>b'. load_number Stk f Order k b = Some (Inr (v, b')) \<and> length b' = 512"
  using load_plain [OF f stk k b h good_values(1) [OF t]] t by (auto simp: load_number_def attempt_def reads_number_def)

lemma a_get_zip:
  "length vs = length ks \<Longrightarrow> j < length ks \<Longrightarrow> distinct (map (up \<circ> key) ks) \<Longrightarrow>
    a_get s (key (ks ! j)) (map (Pair s) (zip (map key ks) vs)) = Some (vs ! j)"
proof (induction ks arbitrary: vs j)
  case Nil
  then show ?case by simp
next
  case (Cons k ks)
  obtain w ws where vs: "vs = w # ws" using Cons.prems(1) by (cases vs) auto
  show ?case
  proof (cases j)
    case 0
    then show ?thesis by (simp add: vs a_get_simps hits_def)
  next
    case (Suc i)
    then have "up (key k) \<noteq> up (key (ks ! i))" using Cons.prems(2,3) by (auto simp: image_iff)
    then show ?thesis using Cons.IH [of ws i] Cons.prems Suc by (simp add: vs a_get_simps hits_def)
  qed
qed

text \<open>The texts under the first keys.\<close>

definition texts_in :: "(u8 list \<times> u8 list) list \<Rightarrow> u16 list list \<Rightarrow> bool" where
  "texts_in kvs vs \<longleftrightarrow> length vs \<le> 8 \<and> kvs = zip (map key (take (length vs) case_keys)) (map name_of vs)"

lemma a_get_texts:
  assumes "texts_in kvs vs" and "j < length vs"
  shows "a_get S_NAME (key (case_keys ! j)) (map (Pair S_NAME) kvs) = Some (name_of (vs ! j))" and "kvs \<noteq> []"
    and "case_keys ! j \<in> set case_keys"
proof -
  let ?ks = "take (length vs) case_keys"
  have l: "length case_keys = 8" "length ?ks = length vs" using assms(1) by (simp_all add: case_keys_def texts_in_def)
  have "distinct (map (up \<circ> key) ?ks)" using key_facts(2) distinct_take [of "map (up \<circ> key) case_keys"] by (simp add: take_map)
  from a_get_zip [OF _ _ this, of "map name_of vs" j S_NAME] assms l(2)
  show "a_get S_NAME (key (case_keys ! j)) (map (Pair S_NAME) kvs) = Some (name_of (vs ! j))"
    by (simp add: texts_in_def)
  show "kvs \<noteq> []" using assms l by (auto simp: texts_in_def)
  show "case_keys ! j \<in> set case_keys" using assms l by (simp add: texts_in_def)
qed

lemma load_sequence_saved:
  assumes f: "file_ok f" and stk: "\<forall>k. stack_ok (Stk k)" and pool: "\<forall>k. pool k" and b: "length b = 512"
    and h: "holding f Order kvs" and kvs: "texts_in kvs ([r, guid_text g, t0, x, i] @ vs)" and t0: "plain t0"
    and nums: "reads_number EFI_SCT_TEST_CASE_REVISION r" "reads_number xn x" "reads_number n_it i"
  shows "\<exists>b'. load_sequence Stk pool n f Order b = Some (Inr (\<lparr>tcRevision = EFI_SCT_TEST_CASE_REVISION, tcGuid = g,
      tcName = Some t0, tcOrder = xn, tcIterations = n_it, tcPasses = EFI_SCT_TEST_CASE_INVALID,
      tcWarnings = EFI_SCT_TEST_CASE_INVALID, tcFailures = EFI_SCT_TEST_CASE_INVALID\<rparr>, b')) \<and> length b' = 512"
proof -
  define us where "us = [r, guid_text g, t0, x, i] @ vs"
  note at = a_get_texts [OF kvs [folded us_def]]
  have text_at: "\<exists>b'. load_text (Stk k) f Order (case_keys ! j) b = Some (Inr b') \<and> cstr b' = Some (us ! j) \<and> length b' = 512"
    if "j < length us" "plain (us ! j)" "length b = 512" for j k b
    by (rule load_plain [OF f _ at(3) [OF that(1)] that(3) h at(1,2) [OF that(1)] that(2)]) (use stk in simp)
  have number_at: "\<exists>b'. load_number (Stk k) f Order (case_keys ! j) b = Some (Inr (u, b')) \<and> length b' = 512"
    if "j < length us" "reads_number u (us ! j)" "length b = 512" for j k b u
    by (rule load_number_reads [OF f _ at(3) [OF that(1)] that(3) h at(1,2) [OF that(1)] that(2)]) (use stk in simp)
  note K = case_keys_nth
  obtain b0 where 0: "load_text (Stk n) f Order ''Revision'' b = Some (Inr b0)" "cstr b0 = Some r" "length b0 = 512"
    using text_at [of 0 b n] b nums(1) K by (auto simp: us_def good_values)
  obtain b1 where 1: "load_text (Stk (n + 1)) f Order ''Guid'' b0 = Some (Inr b1)" "cstr b1 = Some (guid_text g)" "length b1 = 512"
    using text_at [of 1 b0 "n + 1"] 0(3) good_values(2) [OF guid_text_reads, of g] K by (auto simp: us_def)
  obtain b2 where 2: "load_text (Stk (n + 2)) f Order ''Name'' b1 = Some (Inr b2)" "cstr b2 = Some t0" "length b2 = 512"
    using text_at [of 2 b1 "n + 2"] 1(3) t0 K by (auto simp: us_def)
  obtain b3 where 3: "load_number (Stk (n + 3)) f Order ''Order'' b2 = Some (Inr (xn, b3))" "length b3 = 512"
    using number_at [of 3 xn b2 "n + 3"] 2(3) nums(2) K by (auto simp: us_def)
  obtain b4 where 4: "load_number (Stk (n + 4)) f Order ''Iterations'' b3 = Some (Inr (n_it, b4))" "length b4 = 512"
    using number_at [of 4 n_it b3 "n + 4"] 3(2) nums(3) K by (auto simp: us_def)
  have rev: "SctHexStrToShort b0 = Some (EFI_SUCCESS, EFI_SCT_TEST_CASE_REVISION)"
    using nums(1) 0(2) by (simp add: reads_number_def)
  have guid: "SctStrToGuid b1 = Some (EFI_SUCCESS, g)" using guid_text_reads 1(2) by (simp add: reads_guid_def)
  show ?thesis
    using 0(1) 1(1) 2(1,2) 3(1) 4 rev guid pool
    by (simp add: load_sequence_def CreateSingleTestCase_def attempt_def)
qed

text \<open>A sequence has no results.\<close>

lemma LoadSingleTestSequence_saved:
  assumes f: "file_ok f" and stk: "\<forall>k. stack_ok (Stk k)" and pool: "\<forall>k. pool k" and b: "length b = 512"
    and h: "holding f Order kvs" and c: "saved_seq c kvs" "tcRevision c = EFI_SCT_TEST_CASE_REVISION"
  shows "LoadSingleTestSequence Stk pool n f Order b = Some (Inr (no_results c))"
proof -
  obtain r t0 x i where v: "tcName c = Some t0" "plain t0" "reads_number (tcRevision c) r" "reads_number (tcOrder c) x"
    "reads_number (tcIterations c) i" and kvs: "kvs = zip (map key (take 5 case_keys)) (map name_of [r, guid_text (tcGuid c), t0, x, i])"
    using c(1) unfolding saved_seq_def by blast
  have "texts_in kvs ([r, guid_text (tcGuid c), t0, x, i] @ [])" using kvs by (simp add: texts_in_def case_keys_def)
  from load_sequence_saved [OF f stk pool b h this v(2) v(3) [unfolded c(2)] v(4,5), of n] v(1) c(2)
  show ?thesis
    by (auto simp: LoadSingleTestSequence_def attempt_def check_name_def no_results_def intro: EFI_SCT_TEST_CASE.equality)
qed

lemma LoadSingleTestCase_saved:
  assumes f: "file_ok f" and stk: "\<forall>k. stack_ok (Stk k)" and pool: "\<forall>k. pool k" and b: "length b = 512"
    and h: "holding f Order kvs" and c: "saved_as c kvs" "tcRevision c = EFI_SCT_TEST_CASE_REVISION"
  shows "LoadSingleTestCase Stk pool n f Order b = Some (Inr c)"
proof -
  obtain ks p w e where s: "saved_seq c ks" "reads_number (tcPasses c) p" "reads_number (tcWarnings c) w" "reads_number (tcFailures c) e"
    "kvs = ks @ zip (map key (drop 5 case_keys)) (map name_of [p, w, e])" using c(1) unfolding saved_as_def by blast
  obtain r t0 x i where v: "tcName c = Some t0" "plain t0" "reads_number (tcRevision c) r" "reads_number (tcOrder c) x"
    "reads_number (tcIterations c) i" and ks: "ks = zip (map key (take 5 case_keys)) (map name_of [r, guid_text (tcGuid c), t0, x, i])"
    using s(1) unfolding saved_seq_def by blast
  define us where "us = [r, guid_text (tcGuid c), t0, x, i] @ [p, w, e]"
  have t: "texts_in kvs us" by (simp add: texts_in_def us_def s(5) ks case_keys_def)
  note at = a_get_texts [OF t]
  have number_at: "\<exists>b'. load_number (Stk k) f Order (case_keys ! j) b = Some (Inr (u, b')) \<and> length b' = 512"
    if "j < length us" "reads_number u (us ! j)" "length b = 512" for j k b u
    by (rule load_number_reads [OF f _ at(3) [OF that(1)] that(3) h at(1,2) [OF that(1)] that(2)]) (use stk in simp)
  from load_sequence_saved [OF f stk pool b h t [unfolded us_def] v(2) v(3) [unfolded c(2)] v(4,5), of n]
  obtain b4 where 4: "load_sequence Stk pool n f Order b = Some (Inr (\<lparr>tcRevision = EFI_SCT_TEST_CASE_REVISION, tcGuid = tcGuid c,
      tcName = Some t0, tcOrder = tcOrder c, tcIterations = tcIterations c, tcPasses = EFI_SCT_TEST_CASE_INVALID,
      tcWarnings = EFI_SCT_TEST_CASE_INVALID, tcFailures = EFI_SCT_TEST_CASE_INVALID\<rparr>, b4))" "length b4 = 512" by blast
  note K = case_keys_nth
  obtain b5 where 5: "load_number (Stk (n + 5)) f Order ''Passes'' b4 = Some (Inr (tcPasses c, b5))" "length b5 = 512"
    using number_at [of 5 "tcPasses c" b4 "n + 5"] 4(2) s(2) K by (auto simp: us_def)
  obtain b6 where 6: "load_number (Stk (n + 6)) f Order ''Warnings'' b5 = Some (Inr (tcWarnings c, b6))" "length b6 = 512"
    using number_at [of 6 "tcWarnings c" b5 "n + 6"] 5(2) s(3) K by (auto simp: us_def)
  obtain b7 where 7: "load_number (Stk (n + 7)) f Order ''Failures'' b6 = Some (Inr (tcFailures c, b7))"
    using number_at [of 7 "tcFailures c" b6 "n + 7"] 6(2) s(4) K by (auto simp: us_def)
  show ?thesis
    using 4(1) 5(1) 6(1) 7 v(1) c(2)
    by (auto simp: LoadSingleTestCase_def attempt_def check_name_def intro: EFI_SCT_TEST_CASE.equality)
qed

section \<open>The file\<close>

lemma RmSection_saved:
  assumes f: "file_ok f" "fresh n f" and stk: "stack_ok Stk"
  shows "\<exists>st f'. EfiIniRmSection Stk f (Some EFI_SCT_SECTION_TEST_CASE) = Some (st, f') \<and>
    (st = EFI_SUCCESS \<or> st = EFI_NOT_FOUND) \<and> file_ok f' \<and> fresh n f' \<and> isUnicode f' = isUnicode f \<and>
    entries f' = a_rm S_NAME (entries f) \<and> (CommentLines f = [] \<longrightarrow> CommentLines f' = [])"
proof -
  define T where "T = ''Test Case''"
  have g: "good_key T" using good_keys(1) by (simp add: T_def)
  have S: "cstr EFI_SCT_SECTION_TEST_CASE = Some (map (of_nat \<circ> of_char) T)" "length (map (of_nat \<circ> of_char) T :: u16 list) \<le> 100"
    using g by (simp_all add: EFI_SCT_SECTION_TEST_CASE_def T_def good_key_def)
  have sk: "name_of (map (of_nat \<circ> of_char) T) = S_NAME" by (simp add: S_NAME_def T_def key_def)
  from EfiIniRmSection_entries [OF f(1) stk S] obtain st f' where r:
    "EfiIniRmSection Stk f (Some EFI_SCT_SECTION_TEST_CASE) = Some (st, f')" "st = EFI_SUCCESS \<or> st = EFI_NOT_FOUND"
    "file_ok f'" "entries f' = a_rm S_NAME (entries f)" "Items f' = filter (\<lambda>x. \<not> in_section S_NAME (view x)) (Items f)"
    "set (CommentLines f') \<subseteq> set (CommentLines f)" unfolding sk by (auto split: if_splits)
  have "isUnicode f' = isUnicode f"
    using r(1) by (auto simp: EfiIniRmSection_def bind_eq_Some_conv split: option.splits)
  then show ?thesis using r f(2) by (auto simp: fresh_def)
qed

lemma storable_clean:
  assumes "storable (e, v)"
  shows "clean_entry (S_NAME, e, v)" and "e \<noteq> []" and "length e < 100" and "length v < 100"
proof -
  obtain k t where x: "e = key k" "v = name_of t" "k \<in> set case_keys" "plain t" using assms by (auto simp: storable_def)
  have g: "good_key k" by (rule good_keys(2) [OF x(3)])
  show "e \<noteq> []" "length e < 100" "length v < 100"
    using g key_length [of k] plain_name [OF x(4)] x by (auto simp: good_key_def)
  then show "clean_entry (S_NAME, e, v)"
    using g plain_name [OF x(4)] x by (simp add: good_key_def clean_entry_def MAX_STRING_LEN_def)
qed

lemma head_clean: "clean_entry (S_NAME, [], [])" "length S_NAME < 100"
proof -
  have g: "good_key ''Test Case''" by (rule good_keys)
  show "length S_NAME < 100" using g key_length [of "''Test Case''"] by (simp add: good_key_def S_NAME_def)
  then show "clean_entry (S_NAME, [], [])" using g by (simp add: good_key_def clean_entry_def S_NAME_def MAX_STRING_LEN_def)
qed

lemma retitle_own:
  "\<forall>x\<in>set ys. fst x = s \<Longrightarrow> ys = [] \<or> is_head (hd ys) \<or> c = s \<Longrightarrow>
    retitle c (map (Pair []) ys) = map (Pair []) ys"
proof (induction ys arbitrary: c)
  case (Cons y ys)
  obtain e v where y: "y = (s, e, v)" using Cons.prems(1) by (cases y) auto
  have "retitle s (map (Pair []) ys) = map (Pair []) ys" by (rule Cons.IH) (use Cons.prems in auto)
  then show ?case using Cons.prems(2) y by (auto simp: is_head_def)
qed simp

lemma blocks_entries:
  "list_all storable kvs \<Longrightarrow>
    \<exists>acc'. blocks acc (map (Pair []) (map (Pair S_NAME) kvs) @ xs) = blocks acc' xs \<and>
      length acc' \<le> length acc + 203 * length kvs"
proof (induction kvs arbitrary: acc)
  case (Cons x kvs)
  obtain e v where x: "x = (e, v)" by (cases x)
  then have s: "e \<noteq> []" "length e < 100" "length v < 100" using Cons.prems storable_clean by auto
  let ?acc = "acc @ item_text ([], S_NAME, x)"
  have l: "length ?acc \<le> length acc + 203"
    using s by (simp add: x item_text_def remark_lines_def entry_line_def)
  obtain acc' where "blocks ?acc (map (Pair []) (map (Pair S_NAME) kvs) @ xs) = blocks acc' xs"
    "length acc' \<le> length ?acc + 203 * length kvs" using Cons.IH [of ?acc] Cons.prems by auto
  then show ?case using l s(1) by (intro exI [of _ acc']) (simp add: x)
qed auto

lemma blocks_sections:
  "list_all (\<lambda>kvs. list_all storable kvs \<and> kvs \<noteq> [] \<and> length kvs \<le> 8) kvss \<Longrightarrow> length acc < 5120 \<Longrightarrow>
    fits (blocks acc (map (Pair []) (concat (map (sect_of S_NAME) kvss))))"
proof (induction kvss arbitrary: acc)
  case Nil
  then show ?case by (simp add: fits_def MAX_LINE_LEN_def)
next
  case (Cons kvs kvss)
  have k: "list_all storable kvs" "length kvs \<le> 8" "kvs \<noteq> []" using Cons.prems by auto
  let ?acc = "CRLF @ item_text ([], S_NAME, [], [])" and ?xs = "map (Pair []) (concat (map (sect_of S_NAME) kvss)) :: noted list"
  obtain acc' where a: "blocks ?acc (map (Pair []) (map (Pair S_NAME) kvs) @ ?xs) = blocks acc' ?xs"
    "length acc' \<le> length ?acc + 203 * length kvs" using blocks_entries [OF k(1)] by blast
  have "length ?acc < 110" using head_clean(2) by (simp add: item_text_def remark_lines_def entry_line_def)
  then have "length acc' < 5120" using a(2) k(2) by simp
  then have f: "fits (blocks acc' ?xs)" using Cons by simp
  have "map (Pair []) (concat (map (sect_of S_NAME) (kvs # kvss))) =
      ([], S_NAME, [], []) # map (Pair []) (map (Pair S_NAME) kvs) @ ?xs"
    using k(3) by (simp add: sect_of_def [of S_NAME kvs])
  then have "blocks acc (map (Pair []) (concat (map (sect_of S_NAME) (kvs # kvss)))) = acc # blocks acc' ?xs"
    using a(1) by (simp only: blocks.simps fst_conv snd_conv if_True refl)
  then show ?case using f Cons.prems(2) by (simp add: fits_def MAX_LINE_LEN_def)
qed

text \<open>A file of the framework: Unicode, without comments, and with nothing but test cases in it.\<close>

definition case_file :: "nat \<Rightarrow> 'd EFI_INI_FILE \<Rightarrow> bool" where
  "case_file n f \<longleftrightarrow> file_ok f \<and> fresh n f \<and> isUnicode f \<and> CommentLines f = [] \<and>
     (\<forall>x\<in>set (entries f). in_section S_NAME x)"

lemma attached_plain: "CommentLines f = [] \<Longrightarrow> attached f = map (Pair []) (entries f)" "CommentLines f = [] \<Longrightarrow> trailing f = []"
  by (simp_all add: attached_def entries_def remarks_for_def trailing_def)

lemma entries_attached: "entries f = map snd (attached f)"
  by (simp add: attached_def entries_def)

text \<open>Sections of test cases that a file can hold, and what they are in the file.\<close>

abbreviation fitting :: "(u8 list \<times> u8 list) list list \<Rightarrow> bool" where
  "fitting \<equiv> list_all (\<lambda>kvs. list_all storable kvs \<and> kvs \<noteq> [] \<and> length kvs \<le> 8)"

lemma fitting_entries:
  assumes "fitting kvss"
  shows "length (concat (map (sect_of S_NAME) kvss)) \<le> 9 * length kvss"
    and "x \<in> set (concat (map (sect_of S_NAME) kvss)) \<Longrightarrow>
      clean_entry x \<and> fst x = S_NAME \<and> length (fst (snd x)) < 100"
proof -
  show "length (concat (map (sect_of S_NAME) kvss)) \<le> 9 * length kvss"
    using assms by (induction kvss) (auto simp: sect_of_def)
  assume "x \<in> set (concat (map (sect_of S_NAME) kvss))"
  then obtain kvs where kvs: "kvs \<in> set kvss" "x = (S_NAME, [], []) \<or> x \<in> Pair S_NAME ` set kvs"
    by (auto simp: sect_of_def split: if_splits)
  then show "clean_entry x \<and> fst x = S_NAME \<and> length (fst (snd x)) < 100"
  proof (cases "x = (S_NAME, [], [])")
    case False
    then obtain e v where "x = (S_NAME, e, v)" "storable (e, v)" using kvs assms by (auto simp: list_all_iff)
    then show ?thesis using storable_clean [of e v] by simp
  qed (simp add: head_clean(1))
qed

lemma fitting_sections:
  assumes "fitting kvss"
  shows "sections (xs @ concat (map (sect_of s) kvss)) = sections xs @ map (sect_of s) kvss"
    and "filter (of_section s) (map (sect_of s) kvss) = map (sect_of s) kvss"
proof -
  show "sections (xs @ concat (map (sect_of s) kvss)) = sections xs @ map (sect_of s) kvss"
    using assms
  proof (induction kvss rule: rev_induct)
    case (snoc kvs kvss)
    then have k: "keyed kvs" "kvs \<noteq> []" using storable_keyed by auto
    show ?case
      using count_sections(1) [OF k, of "xs @ concat (map (sect_of s) kvss)" s] snoc by simp
  qed simp
  show "filter (of_section s) (map (sect_of s) kvss) = map (sect_of s) kvss"
    using assms
  proof (induction kvss)
    case (Cons kvs kvss)
    then have "of_section s (sect_of s kvs)" using count_sections(2) [OF storable_keyed] by auto
    then show ?case using Cons by simp
  qed simp
qed

lemma fitting_flushable:
  assumes f: "file_ok f" "isUnicode f" "CommentLines f = []" and kvss: "fitting kvss" "kvss \<noteq> []"
    and e: "entries f = concat (map (sect_of S_NAME) kvss)" and l: "length kvss < 2 ^ 28"
  shows "flushable f" and "survives f" and "retitle [] (attached f) = attached f"
proof -
  note es = fitting_entries [OF kvss(1), folded e]
  obtain k ks where ks: "kvss = k # ks" using kvss(2) by (cases kvss) auto
  then have k8: "k \<noteq> []" using kvss(1) by simp
  have hd: "entries f = (S_NAME, [], []) # map (Pair S_NAME) k @ concat (map (sect_of S_NAME) ks)"
    using e ks k8 by (simp add: sect_of_def [of S_NAME k])
  then obtain x xs where its: "Items f = x # xs" "view x = (S_NAME, [], [])" by (auto simp: entries_def)
  have ln: "length (Items f) \<le> 9 * length kvss" using es(1) by (simp add: entries_def)
  have at: "attached f = map (Pair []) (entries f)" and tr: "trailing f = []" using attached_plain f(3) by blast+
  have k: "list_all storable k" "fitting ks" "length k \<le> 8" using kvss(1) ks by auto
  obtain acc' where acc: "blocks (item_text ([], S_NAME, [], [])) (map (Pair []) (map (Pair S_NAME) k) @
      map (Pair []) (concat (map (sect_of S_NAME) ks))) = blocks acc' (map (Pair []) (concat (map (sect_of S_NAME) ks)))"
    "length acc' \<le> length (item_text ([], S_NAME, [], [])) + 203 * length k"
    using blocks_entries [OF k(1)] by blast
  have "length (item_text ([], S_NAME, [], [])) < 110"
    using head_clean(2) by (simp add: item_text_def remark_lines_def entry_line_def)
  then have "fits (file_blocks f)"
    using blocks_sections [OF k(2), of acc'] acc k(3) by (simp add: file_blocks_def at hd)
  moreover have "length (ent_of (snd y)) < 100" if "y \<in> set (Items f)" for y
    using es(2) [of "view y"] that by (simp add: entries_def view_def)
  ultimately show "flushable f"
    using f its tr by (simp add: flushable_def comments_ok_def MAX_STRING_LEN_def MAX_LINE_LEN_def remark_lines_def view_def)
  show "survives f" using es(2) at tr ln l by (auto simp: survives_def clean_item_def)
  show "retitle [] (attached f) = attached f"
    unfolding at by (rule retitle_own [where s = S_NAME]) (use es(2) hd in \<open>auto simp: is_head_def\<close>)
qed

text \<open>The files after a save: the next one to be opened has what the flush has written.\<close>

definition saved_to :: "'d files \<Rightarrow> io list \<Rightarrow> 'd files" where
  "saved_to F tr = F\<lparr>fiFirmware := (fiFirmware F)(0 := disk (fiFirmware F 2) (contents [] tr))\<rparr>"

definition files_ok :: "'d files \<Rightarrow> pool \<Rightarrow> bool" where
  "files_ok F Pool \<longleftrightarrow> all_good (fiFirmware F 2) \<and> open_ok (fiFirmware F 2) (fiPath F) (fiName F) \<and>
     out_ok (fiOut F) \<and> pools_ok Pool (fiCPool F) \<and> length (fiLine F) = MAX_LINE_LEN \<and> length (fiSect F) = 101"

end
