(* ===== verification/Fw_Format.thy ===== *)
theory Fw_Format
  imports Fw_Round
begin

text \<open>
  Saving a list and loading it from the flushed file, for every way to save and load one test case
  that the locale \<open>section_format\<close> describes. Its two instances are the test cases and the sequences
  of \<open>TestCase.c\<close>.
\<close>

section \<open>Formats\<close>

text \<open>\<open>put c kvs\<close>: the section of \<open>c\<close> may hold the keys and values \<open>kvs\<close>. \<open>kept c\<close> is what is loaded again.\<close>

locale section_format =
  fixes save :: "(nat \<Rightarrow> stack) \<Rightarrow> pool \<Rightarrow> u32 \<Rightarrow> EFI_SCT_TEST_CASE \<Rightarrow> 'd saving \<Rightarrow> 'd saving option"
    and load :: "(nat \<Rightarrow> stack) \<Rightarrow> (nat \<Rightarrow> bool) \<Rightarrow> nat \<Rightarrow> 'd EFI_INI_FILE \<Rightarrow> u32 \<Rightarrow> u16 list \<Rightarrow>
      (EFI_STATUS + EFI_SCT_TEST_CASE) option"
    and put :: "EFI_SCT_TEST_CASE \<Rightarrow> (u8 list \<times> u8 list) list \<Rightarrow> bool"
    and kept :: "EFI_SCT_TEST_CASE \<Rightarrow> EFI_SCT_TEST_CASE"
  assumes put_fits: "put c kvs \<Longrightarrow> list_all storable kvs \<and> kvs \<noteq> [] \<and> length kvs \<le> 8"
    and save_put: "memory Stk Pool \<Longrightarrow> length (filter (of_section S_NAME) (sections xs)) = unat Order \<Longrightarrow>
      saving xs f0 [] s \<Longrightarrow> nameable c \<Longrightarrow>
      \<exists>s' kvs. save Stk Pool Order c s = Some s' \<and> put c kvs \<and> saving xs f0 kvs s'"
    and load_put: "file_ok f \<Longrightarrow> \<forall>k. stack_ok (Stk k) \<Longrightarrow> \<forall>k. pool k \<Longrightarrow> length b = 512 \<Longrightarrow> holding f Order kvs \<Longrightarrow>
      put c kvs \<Longrightarrow> tcRevision c = EFI_SCT_TEST_CASE_REVISION \<Longrightarrow> load Stk pool n f Order b = Some (Inr (kept c))"
begin

lemma all_fit: "list_all2 put cs kvss \<Longrightarrow> fitting kvss"
  by (induction cs kvss rule: list_all2_induct) (simp_all add: put_fits)

lemma save_all:
  assumes m: "memory Stk Pool" and b: "\<forall>k. length (Buf k) = 512"
  shows "list_all nameable cs \<Longrightarrow> length (filter (of_section S_NAME) (sections (entries f))) = unat Index \<Longrightarrow>
    unat Index + length cs < 2 ^ 32 \<Longrightarrow> file_ok f \<Longrightarrow> fresh n f \<Longrightarrow>
    \<exists>n' f' kvss. save_loop (save Stk Pool) Buf Index cs (n, f) = Some (n', f') \<and>
      list_all2 put cs kvss \<and> entries f' = entries f @ concat (map (sect_of S_NAME) kvss) \<and>
      file_ok f' \<and> fresh n' f' \<and> same_file f f' \<and> (cs = [] \<or> Modified f')"
proof (induction cs arbitrary: Index f n)
  case Nil
  then show ?case by simp
next
  case (Cons c cs)
  have "saving (entries f) f [] (n, f, Buf n)" using Cons.prems b by (simp add: saving_def sect_of_def)
  moreover have "nameable c" using Cons.prems(1) by simp
  ultimately obtain n1 f1 b1 kvs where s: "save Stk Pool Index c (n, f, Buf n) = Some (n1, f1, b1)" "put c kvs"
    "saving (entries f) f kvs (n1, f1, b1)" using save_put [OF m Cons.prems(2)] by (metis prod_cases3)
  have k: "keyed kvs" "kvs \<noteq> []" using put_fits [OF s(2)] storable_keyed by blast+
  have f1: "file_ok f1" "fresh n1 f1" "same_file f f1" "entries f1 = entries f @ sect_of S_NAME kvs" "Modified f1"
    using s(3) k by (simp_all add: saving_def)
  have i: "unat (Index + 1) = unat Index + 1" using Cons.prems(3) by (simp add: unat_word_ariths(1))
  have "length (filter (of_section S_NAME) (sections (entries f1))) = unat (Index + 1)"
    using Cons.prems(2) count_sections [OF k] unfolding f1(4) i by simp
  from Cons.IH [OF _ this _ f1(1,2)] Cons.prems(1,3) i
  obtain n' f' kvss where r: "save_loop (save Stk Pool) Buf (Index + 1) cs (n1, f1) = Some (n', f')"
    "list_all2 put cs kvss" "entries f' = entries f1 @ concat (map (sect_of S_NAME) kvss)" "file_ok f'" "fresh n' f'"
    "same_file f1 f'" "cs = [] \<or> Modified f'" by auto
  have "Modified f'" using r(1,7) f1(5) by (cases "cs = []") auto
  then show ?case
    using s r f1 same_file_trans [OF f1(3) r(6)] by (intro exI [of _ n'] exI [of _ f'] exI [of _ "kvs # kvss"]) simp
qed

lemma load_all:
  assumes f: "file_ok f" and stk: "\<forall>k. stack_ok (Stk k)" and pool: "\<forall>k. pool k" and b: "\<forall>k. length (Buf k) = 512"
    and kvss: "list_all2 put cs kvss" and own: "filter (of_section S_NAME) (sections (entries f)) = map (sect_of S_NAME) kvss"
    and rev: "\<forall>c\<in>set cs. tcRevision c = EFI_SCT_TEST_CASE_REVISION" and l: "length cs < 2 ^ 32"
  shows "unat Index + m = length cs \<Longrightarrow>
    \<exists>n'. load_loop (\<lambda>n. load Stk pool n f) Buf m Index n acc = Some (n', acc @ map kept (drop (unat Index) cs))"
proof (induction m arbitrary: Index n acc)
  case 0
  then show ?case by simp
next
  case (Suc m)
  have i: "unat Index < length cs" using Suc.prems by simp
  then have i': "unat (Index + 1) = unat Index + 1" using l by (simp add: unat_word_ariths(1))
  have "unat Index < length kvss" using i list_all2_lengthD [OF kvss] by simp
  then have h: "holding f Index (kvss ! unat Index)" using own by (simp add: holding_def nth_match_filter)
  have "load Stk pool n f Index (Buf n) = Some (Inr (kept (cs ! unat Index)))"
    by (rule load_put [OF f stk pool _ h list_all2_nthD [OF kvss i]]) (use b rev i in auto)
  with Suc.IH [of "Index + 1" "n + 8" "acc @ [kept (cs ! unat Index)]"] Suc.prems i' show ?case
    by (simp add: Cons_nth_drop_Suc [OF i, symmetric])
qed

text \<open>Removing the old test cases, saving all, and the flush; and what is then in the file.\<close>

lemma save_file:
  assumes f: "case_file n f" and F: "files_ok F Pool" and stk: "\<forall>k. stack_ok (Stk k)" and b: "\<forall>k. length (Buf k) = 512"
    and cs: "list_all nameable cs" "cs \<noteq> []" "length cs < 2 ^ 28"
  obtains st f0 n' f1 kvss tr where
    "EfiIniRmSection (Stk n) f (Some EFI_SCT_SECTION_TEST_CASE) = Some (st, f0)" "st = EFI_SUCCESS \<or> st = EFI_NOT_FOUND"
    "save_loop (save Stk Pool) Buf 0 cs (n, f0) = Some (n', f1)"
    "EfiIniFlush (fiFirmware F 2) (fiOut F) f1 = Some (EFI_SUCCESS, f1\<lparr>Modified := False\<rparr>, tr)"
    "case_file n' (f1\<lparr>Modified := False\<rparr>)" "list_all2 put cs kvss"
    "\<forall>m old. \<exists>f2 tr2. open_file (saved_to F (old @ tr)) 0 Stk Pool m = Some (EFI_SUCCESS, Some f2, tr2) \<and> file_ok f2 \<and>
      \<not> Modified f2 \<and> entries f2 = concat (map (sect_of S_NAME) kvss)"
proof -
  have F: "all_good (fiFirmware F 2)" "open_ok (fiFirmware F 2) (fiPath F) (fiName F)" "out_ok (fiOut F)"
    "pools_ok Pool (fiCPool F)" "length (fiLine F) = MAX_LINE_LEN" "length (fiSect F) = 101"
    using F by (simp_all add: files_ok_def)
  have mem: "memory Stk Pool" using F(4) stk by (simp add: memory_def pools_ok_def)
  have f: "file_ok f" "fresh n f" "isUnicode f" "CommentLines f = []" "\<forall>x\<in>set (entries f). in_section S_NAME x"
    using f by (simp_all add: case_file_def)
  obtain st f0 where rm: "EfiIniRmSection (Stk n) f (Some EFI_SCT_SECTION_TEST_CASE) = Some (st, f0)"
    "st = EFI_SUCCESS \<or> st = EFI_NOT_FOUND" "file_ok f0" "fresh n f0" "isUnicode f0" "CommentLines f0 = []"
    "entries f0 = []"
    using RmSection_saved [OF f(1,2), of "Stk n"] stk f(3-5) by (auto simp: a_rm_def)
  obtain n' f1 kvss where sv: "save_loop (save Stk Pool) Buf 0 cs (n, f0) = Some (n', f1)"
    "list_all2 put cs kvss" "entries f1 = concat (map (sect_of S_NAME) kvss)" "file_ok f1" "fresh n' f1"
    "same_file f0 f1" "Modified f1"
    using save_all [OF mem b cs(1), of f0 0 n] rm(3,4,7) cs(2,3) by auto
  have f1: "isUnicode f1" "CommentLines f1 = []" using sv(6) rm(5,6) by (simp_all add: same_file_def)
  have ne: "kvss \<noteq> []" and l: "length kvss < 2 ^ 28" using list_all2_lengthD [OF sv(2)] cs(2,3) by auto
  note fit = all_fit [OF sv(2)]
  note ok = fitting_flushable [OF sv(4) f1 fit ne sv(3) l]
  obtain tr where fl: "EfiIniFlush (fiFirmware F 2) (fiOut F) f1 = Some (EFI_SUCCESS, f1\<lparr>Modified := False\<rparr>, tr)"
    using EfiIniFlush_data [OF F(1) ok(1) sv(7) F(3)] by blast
  have disk: "\<exists>f2 tr2. open_file (saved_to F (old @ tr)) 0 Stk Pool m = Some (EFI_SUCCESS, Some f2, tr2) \<and> file_ok f2 \<and>
      \<not> Modified f2 \<and> entries f2 = concat (map (sect_of S_NAME) kvss)" for m old
  proof -
    obtain f2 tr2 where "open_file (saved_to F (old @ tr)) 0 Stk Pool m = Some (EFI_SUCCESS, Some f2, tr2)"
      "file_ok f2" "\<not> Modified f2" "attached f2 = attached f1"
      using flush_then_open [OF F(1,2) ok(1) sv(7) ok(2) F(3,4) stk F(5,6), of "contents [] old" m] fl ok(3)
      by (auto simp: open_file_def saved_to_def)
    then show ?thesis using sv(3) entries_attached [of f1] entries_attached [of f2] by simp
  qed
  have "in_section S_NAME x" if "x \<in> set (entries f1)" for x
  proof -
    have "fst x = S_NAME" using fitting_entries(2) [OF fit, of x] that unfolding sv(3) by blast
    then show ?thesis by (cases x) simp
  qed
  then have "case_file n' (f1\<lparr>Modified := False\<rparr>)"
    using sv(4,5) f1 by (simp add: case_file_def file_ok_def fresh_def entries_def)
  then show ?thesis using that [OF rm(1,2) sv(1) fl _ sv(2)] disk by blast
qed

lemma load_file_all:
  assumes f: "file_ok f" "\<not> Modified f"
    and stk: "\<forall>k. stack_ok (Stk k)" and pool: "\<forall>k. pool k" and b: "\<forall>k. length (Buf k) = 512"
    and kvss: "list_all2 put cs kvss" and e: "entries f = concat (map (sect_of S_NAME) kvss)"
    and rev: "\<forall>c\<in>set cs. tcRevision c = EFI_SCT_TEST_CASE_REVISION" and l: "length cs < 2 ^ 28"
  shows "\<exists>tr. load_file F Stk Buf (\<lambda>n. load Stk pool n f) n f acc = Some (EFI_SUCCESS, acc @ map kept cs, tr)"
proof -
  define T where "T = ''Test Case''"
  have "good_key T" using good_keys(1) by (simp add: T_def)
  then have S: "cstr EFI_SCT_SECTION_TEST_CASE = Some (map (of_nat \<circ> of_char) T)" "length (map (of_nat \<circ> of_char) T :: u16 list) \<le> 100"
    by (simp_all add: EFI_SCT_SECTION_TEST_CASE_def T_def good_key_def)
  have sk: "name_of (map (of_nat \<circ> of_char) T) = S_NAME" by (simp add: S_NAME_def T_def key_def)
  have own: "filter (of_section S_NAME) (sections (entries f)) = map (sect_of S_NAME) kvss"
    using fitting_sections(1) [OF all_fit [OF kvss], of "[]" S_NAME] fitting_sections(2) [OF all_fit [OF kvss], of S_NAME]
    by (simp add: e)
  have stk0: "stack_ok (Stk n)" using stk by blast
  have num: "TestCaseGetOrderNum (Stk n) f 0 = Some (EFI_SUCCESS, Some (of_nat (length cs)))"
    using EfiIniGetOrderNum_entries [OF f(1) stk0 S, of 0] list_all2_lengthD [OF kvss] unfolding sk own
    by (simp add: TestCaseGetOrderNum_def)
  have l32: "length cs < 2 ^ 32" using l by simp
  then have u: "unat (of_nat (length cs) :: u32) = length cs" by (simp add: unat_of_nat take_bit_nat_eq_self)
  obtain n' where "load_loop (\<lambda>n. load Stk pool n f) Buf (length cs) 0 n acc = Some (n', acc @ map kept cs)"
    using load_all [OF f(1) stk pool b kvss own rev l32, of 0 "length cs" n acc] by auto
  then show ?thesis using f(2) num u by (simp add: load_file_def AtslEfiIniClose_def EfiIniFlush_def)
qed

end

text \<open>The two formats of \<open>TestCase.c\<close>. A sequence comes back without results.\<close>

lemma saved_fits:
  "saved_as c kvs \<Longrightarrow> list_all storable kvs \<and> kvs \<noteq> [] \<and> length kvs \<le> 8"
  "saved_seq c kvs \<Longrightarrow> list_all storable kvs \<and> kvs \<noteq> [] \<and> length kvs \<le> 8"
  using saved_as_storable [of c kvs] saved_seq_storable [of c kvs] by auto

lemma SaveSingleTestSequence_put:
  assumes "memory Stk Pool" and "length (filter (of_section S_NAME) (sections xs)) = unat Order"
    and "saving xs f0 [] s" and "nameable c"
  shows "\<exists>s' kvs. SaveSingleTestSequence Stk Pool Order c s = Some s' \<and> saved_seq c kvs \<and> saving xs f0 kvs s'"
  using SaveSingleTestSequence_saved [OF assms] by blast


interpretation seq_format: section_format SaveSingleTestSequence LoadSingleTestSequence saved_seq no_results
  by (unfold_locales; (erule saved_fits | rule SaveSingleTestSequence_put, assumption+ | simp add: LoadSingleTestSequence_saved))

section \<open>Saving, then loading\<close>






end
