(* ===== verification/Fw_Modes.thy ===== *)
theory Fw_Modes
  imports Fw_Props Fw_Format
begin

text \<open>
  The operations CONTINUE, SEQUENCE and UI (\<open>Operation.c\<close>): how the test cases of the files take over
  what is known of them, from the list of the last run or from a saved sequence.
\<close>

section \<open>The operations\<close>

text \<open>Every operation creates the test cases of the files, merges the old ones into them and replaces
  the old list.\<close>

definition DoPreOperationContinue :: "(nat \<Rightarrow> bool) \<Rightarrow> EFI_SCT_TEST_FILE list \<Rightarrow> nat \<Rightarrow> EFI_SCT_TEST_CASE list \<Rightarrow>
    EFI_STATUS \<times> nat \<times> EFI_SCT_TEST_CASE list" where
  "DoPreOperationContinue pool fs n TestCaseList =
     (case CreateTestCases pool n fs [] of (st, n, cs) \<Rightarrow>
        if EFI_ERROR st then (st, n, TestCaseList) else (EFI_SUCCESS, n, MergeTestCases cs TestCaseList))"


definition DoPreOperationUi :: "collation \<Rightarrow> (nat \<Rightarrow> bool) \<Rightarrow> EFI_SCT_CATEGORY_DATA list \<Rightarrow> EFI_SCT_TEST_FILE list \<Rightarrow>
    nat \<Rightarrow> EFI_SCT_TEST_CASE list \<Rightarrow> EFI_SCT_TEST_NODE list \<Rightarrow>
    (EFI_STATUS \<times> nat \<times> EFI_SCT_TEST_CASE list \<times> EFI_SCT_TEST_NODE list) option" where
  "DoPreOperationUi stri pool cats fs n TestCaseList TestNodeList =
     (case CreateTestCases pool n fs [] of (st, n, cs) \<Rightarrow>
        if EFI_ERROR st then Some (st, n, TestCaseList, TestNodeList)
        else (case CreateTestNodes stri pool cats n fs TestNodeList of
            None \<Rightarrow> None
          | Some (st, n, ns) \<Rightarrow> Some (st, n, MergeTestCases cs TestCaseList, ns)))"

section \<open>The renewed list\<close>

definition renewed :: "EFI_SCT_TEST_CASE list \<Rightarrow> EFI_SCT_TEST_FILE list \<Rightarrow> EFI_SCT_TEST_CASE list" where
  "renewed old fs = map (merged old \<circ> new_case) (test_entries fs)"

lemma renewed_guids: "map tcGuid (renewed old fs) = map enEntryId (test_entries fs)"
  by (simp add: renewed_def new_case_def)

lemma renew_full:
  assumes "list_all (\<lambda>f. test_type (tfType f)) fs" and "distinct (map enEntryId (test_entries fs))"
    and "distinct (map tcGuid old)"
  shows "\<exists>n' cs. CreateTestCases full n fs [] = (EFI_SUCCESS, n', cs) \<and> MergeTestCases cs old = renewed old fs"
proof -
  obtain n1 where n1: "CreateTestCases full n fs [] = (EFI_SUCCESS, n1, map new_case (test_entries fs))"
    using CreateTestCases_full [OF assms(1), of n "[]"] by auto
  have "map tcGuid (map new_case (test_entries fs)) = map enEntryId (test_entries fs)" by (simp add: new_case_def)
  then have "distinct (map tcGuid (map new_case (test_entries fs)))" using assms(2) by argo
  then show ?thesis using n1 MergeTestCases_map [OF _ assms(3)] by (simp add: renewed_def)
qed

lemma find_guid:
  assumes "distinct (map tcGuid old)" and "x \<in> set old"
  shows "find (\<lambda>y. tcGuid y = tcGuid x) old = Some x"
  using assms by (induction old) (auto simp: image_iff)

lemma guid_merged: "tcGuid \<circ> merged old = tcGuid"
  by (simp add: fun_eq_iff)

lemma merged_known:
  assumes "distinct (map tcGuid old)" and "x \<in> set old" and "tcGuid c = tcGuid x"
  shows "merged old c = merge_case x c"
  using find_guid [OF assms(1,2)] assms(3) by (simp add: merged_def)

lemma merged_unknown: "tcGuid c \<notin> tcGuid ` set old \<Longrightarrow> merged old c = c"
proof -
  assume "tcGuid c \<notin> tcGuid ` set old"
  then have "find (\<lambda>x. tcGuid x = tcGuid c) old = None" by (auto simp: find_None_iff image_iff)
  then show ?thesis by (simp add: merged_def)
qed

text \<open>Test cases without an order take over the queue.\<close>

lemma merged_schedule:
  assumes q: "schedule old q" "set q \<subseteq> tcGuid ` set cs" and cs: "distinct (map tcGuid cs)" "length cs < 2 ^ 32 - 2"
    "\<forall>c\<in>set cs. tcOrder c = EFI_SCT_TEST_CASE_INVALID"
  shows "schedule (map (merged old) cs) q"
proof -
  have old: "distinct (map tcGuid old)" "distinct q" "set q \<subseteq> tcGuid ` set old"
    "\<forall>c\<in>set old. tcOrder c = order_in q (tcGuid c)" using q(1) by (simp_all add: schedule_def)
  have "tcOrder (merged old c) = order_in q (tcGuid c)" if c: "c \<in> set cs" for c
  proof (cases "tcGuid c \<in> tcGuid ` set old")
    case True
    then obtain x where x: "x \<in> set old" "tcGuid c = tcGuid x" by blast
    then show ?thesis using merged_known [OF old(1) x] old(4) cs(3) c by (simp add: merge_case_def overwrite_def)
  next
    case False
    then show ?thesis using merged_unknown [OF False] old(3) cs(3) c by (auto simp: order_in_def)
  qed
  moreover have "tcGuid ` merged old ` set cs = tcGuid ` set cs" by (simp add: image_image)
  ultimately show ?thesis using old(2) q(2) cs(1,2) by (simp add: schedule_def guid_merged)
qed

lemma renewed_known:
  assumes "distinct (map tcGuid old)" and "x \<in> set old" and "c \<in> set (renewed old fs)" and "tcGuid c = tcGuid x"
  shows "tcOrder c = tcOrder x \<and> tcIterations c = tcIterations x \<and> results c = results x"
proof -
  obtain e where c: "c = merged old (new_case e)" using assms(3) by (auto simp: renewed_def)
  then have "c = merge_case x (new_case e)" using merged_known [OF assms(1,2)] assms(4) by simp
  then show ?thesis by (simp add: merge_case_def overwrite_def new_case_def results_def)
qed

lemma renewed_schedule:
  assumes q: "schedule old q" "set q \<subseteq> enEntryId ` set (test_entries fs)"
    and new: "distinct (map enEntryId (test_entries fs))" and len: "length (test_entries fs) < 2 ^ 32 - 2"
  shows "schedule (renewed old fs) q"
proof -
  let ?cs = "map new_case (test_entries fs)"
  have g: "map tcGuid ?cs = map enEntryId (test_entries fs)" by (simp add: new_case_def)
  then have "distinct (map tcGuid ?cs)" using new by argo
  moreover have "set q \<subseteq> set (map tcGuid ?cs)" using q(2) unfolding g by simp
  moreover have "\<forall>c\<in>set ?cs. tcOrder c = EFI_SCT_TEST_CASE_INVALID" "length ?cs = length (test_entries fs)"
    by (simp_all add: new_case_def)
  moreover have "renewed old fs = map (merged old) ?cs" by (simp add: renewed_def)
  ultimately show ?thesis using merged_schedule [OF q(1), of ?cs] len by (simp only: list.set_map)
qed

text \<open>C17: The operation CONTINUE goes on with the run of the list it starts from, as far as its test cases are
  in the files: the same queue is selected, the next and the running test case are the same, and
  every test case has the iterations and results it had.\<close>

theorem fw_continue:
  assumes "list_all (\<lambda>f. test_type (tfType f)) fs" and "distinct (map enEntryId (test_entries fs))"
    and "length (test_entries fs) < 2 ^ 32 - 2" and "schedule old q" and "set q \<subseteq> enEntryId ` set (test_entries fs)"
  shows "\<exists>n' cs. DoPreOperationContinue (\<lambda>_. True) fs n old = (EFI_SUCCESS, n', cs) \<and>
    map tcGuid cs = map enEntryId (test_entries fs) \<and> schedule cs q \<and>
    pending is_ready cs q = pending is_ready old q \<and> pending is_running cs q = pending is_running old q \<and>
    (\<forall>c\<in>set cs. \<forall>x\<in>set old. tcGuid c = tcGuid x \<longrightarrow> tcIterations c = tcIterations x \<and> results c = results x)"
proof -
  let ?cs = "renewed old fs"
  have old: "distinct (map tcGuid old)" "set q \<subseteq> tcGuid ` set old" using assms(4) by (simp_all add: schedule_def)
  note k = renewed_known [OF old(1)]
  have inj: "inj_on tcGuid (set old)" using old(1) by (simp add: distinct_map)
  have both: "(\<exists>c\<in>set ?cs. tcGuid c = g \<and> P c) \<longleftrightarrow> (\<exists>c\<in>set old. tcGuid c = g \<and> P c)"
    if P: "\<And>c x. results c = results x \<Longrightarrow> P c = P x" and g: "g \<in> set q" for P g
  proof -
    obtain x where x: "x \<in> set old" "tcGuid x = g" using old(2) g by blast
    have "g \<in> set (map tcGuid ?cs)" unfolding renewed_guids using assms(5) g by auto
    then obtain c where c: "c \<in> set ?cs" "tcGuid c = g" by auto
    have "P c' = P x" if "c' \<in> set ?cs" "tcGuid c' = g" for c'
      by (rule P) (use k [OF x(1) that(1)] that(2) x(2) in simp)
    moreover have "x' = x" if "x' \<in> set old" "tcGuid x' = g" for x'
      by (rule inj_onD [OF inj _ that(1) x(1)]) (use that(2) x(2) in simp)
    ultimately show ?thesis using x c by blast
  qed
  have "pending is_ready ?cs q = pending is_ready old q" "pending is_running ?cs q = pending is_running old q"
    unfolding pending_def by (intro filter_cong refl both; simp add: results_def is_ready_def is_running_def)+
  moreover obtain n' where "DoPreOperationContinue full fs n old = (EFI_SUCCESS, n', ?cs)"
    using renew_full [OF assms(1,2) old(1), of n] by (auto simp: DoPreOperationContinue_def)
  ultimately show ?thesis
    using renewed_guids renewed_schedule [OF assms(4,5,2,3)] k by blast
qed

theorem fw_continue_witness:
  "\<exists>n' cs. DoPreOperationContinue (\<lambda>_. True) ex_files 0 ex_cases = (EFI_SUCCESS, n', cs) \<and>
    schedule cs ex_queue \<and> pending is_ready cs ex_queue = ex_queue"
proof -
  have q: "set ex_queue \<subseteq> enEntryId ` set (test_entries ex_files)"
    by (simp add: ex_queue_def test_entries_def ex_files_def ex_entry_def)
  have "pending is_ready ex_cases ex_queue = ex_queue"
    by (simp add: pending_def ex_cases_def ex_case_def ex_queue_def is_ready_def)
  with fw_continue [OF ex_types ex_distinct(1) _ ex_schedule q, of 0] ex_distinct(2) show ?thesis by auto
qed

section \<open>A saved sequence\<close>













end
