(* ===== verification/Fw_Convert.thy ===== *)
theory Fw_Convert
  imports Fw_Nodes
begin

text \<open>
  The other conversions of \<open>SctMisc.c\<close>: numbers, flags with their names, lists of GUIDs, and the tests
  and replacements of the ends of a text. \<open>stri\<close> is \<open>SctStriCmp\<close>, allocation \<open>n\<close> succeeds when
  \<open>pool n\<close>; the formats of \<open>SctSPrint\<close> are written out.
\<close>

section \<open>Numbers\<close>

text \<open>\<open>SctSPrint\<close> with \<open>0x%x\<close>, as for \<open>SctShortToHexStr\<close>, but without the narrowing.\<close>

definition SctIntToHexStr :: "u64 \<Rightarrow> u16 list \<Rightarrow> (EFI_STATUS \<times> u16 list) option" where
  "SctIntToHexStr Value Buffer = do {
     d \<leftarrow> SctValueToHexStr (replicate 100 0) Value;
     t \<leftarrow> cstr d;
     b \<leftarrow> write_cells Buffer ([48, 120] @ t @ [0]);
     Some (EFI_SUCCESS, b) }"

definition SctHexStrToInt :: "u16 list \<Rightarrow> (EFI_STATUS \<times> u64) option" where
  "SctHexStrToInt Buffer = do {
     v \<leftarrow> SctXtoi Buffer;
     Some (EFI_SUCCESS, v) }"

definition SctStrToInt :: "u16 list \<Rightarrow> (EFI_STATUS \<times> u64) option" where
  "SctStrToInt Buffer = (case Buffer of
     [] \<Rightarrow> None
   | c # s \<Rightarrow> if c = 45 then do { v \<leftarrow> SctAtoi s; Some (EFI_SUCCESS, 0 - v) }
       else do { v \<leftarrow> SctAtoi Buffer; Some (EFI_SUCCESS, v) })"

definition SctStrToShort :: "u16 list \<Rightarrow> (EFI_STATUS \<times> u32) option" where
  "SctStrToShort Buffer = (case Buffer of
     [] \<Rightarrow> None
   | c # s \<Rightarrow> if c = 45 then do { v \<leftarrow> SctAtoi s; Some (EFI_SUCCESS, ucast (0 - v)) }
       else do { v \<leftarrow> SctAtoi Buffer; Some (EFI_SUCCESS, ucast v) })"

section \<open>Names of values\<close>

definition ascii :: "string \<Rightarrow> u16 list" where
  "ascii t = map (of_nat \<circ> of_char) t"

definition SctBooleanToStr :: "bool \<Rightarrow> u16 list \<Rightarrow> (EFI_STATUS \<times> u16 list) option" where
  "SctBooleanToStr Value Buffer = do {
     b \<leftarrow> SctStrCpy Buffer (ascii (if Value then ''True'' else ''False'') @ [0]);
     Some (EFI_SUCCESS, b) }"

definition SctStrToBoolean :: "collation \<Rightarrow> u16 list \<Rightarrow> (EFI_STATUS \<times> bool option) option" where
  "SctStrToBoolean stri Buffer = do {
     t \<leftarrow> cstr Buffer;
     Some (if stri (Some t) (ascii ''True'') = 0 then (EFI_SUCCESS, Some True)
       else if stri (Some t) (ascii ''False'') = 0 then (EFI_SUCCESS, Some False)
       else (EFI_UNSUPPORTED, None)) }"

datatype EFI_VERBOSE_LEVEL =
    EFI_VERBOSE_LEVEL_QUIET
  | EFI_VERBOSE_LEVEL_MINIMAL
  | EFI_VERBOSE_LEVEL_DEFAULT
  | EFI_VERBOSE_LEVEL_NOISY
  | EFI_VERBOSE_LEVEL_EXHAUSTIVE

fun verbose_name :: "EFI_VERBOSE_LEVEL \<Rightarrow> string" where
  "verbose_name EFI_VERBOSE_LEVEL_QUIET = ''Quiet''"
| "verbose_name EFI_VERBOSE_LEVEL_MINIMAL = ''Minimal''"
| "verbose_name EFI_VERBOSE_LEVEL_DEFAULT = ''Default''"
| "verbose_name EFI_VERBOSE_LEVEL_NOISY = ''Noisy''"
| "verbose_name EFI_VERBOSE_LEVEL_EXHAUSTIVE = ''Exhaustive''"

text \<open>The default of the switch is a value that the type does not have.\<close>

definition SctVerboseLevelToStr :: "EFI_VERBOSE_LEVEL \<Rightarrow> u16 list \<Rightarrow> (EFI_STATUS \<times> u16 list) option" where
  "SctVerboseLevelToStr VerboseLevel Buffer = do {
     b \<leftarrow> SctStrCpy Buffer (ascii (verbose_name VerboseLevel) @ [0]);
     Some (EFI_SUCCESS, b) }"

definition SctStrToVerboseLevel :: "collation \<Rightarrow> u16 list \<Rightarrow> (EFI_STATUS \<times> EFI_VERBOSE_LEVEL option) option" where
  "SctStrToVerboseLevel stri Buffer = do {
     t \<leftarrow> cstr Buffer;
     Some (case find (\<lambda>l. stri (Some t) (ascii (verbose_name l)) = 0)
         [EFI_VERBOSE_LEVEL_QUIET, EFI_VERBOSE_LEVEL_MINIMAL, EFI_VERBOSE_LEVEL_DEFAULT, EFI_VERBOSE_LEVEL_NOISY,
          EFI_VERBOSE_LEVEL_EXHAUSTIVE] of
       Some l \<Rightarrow> (EFI_SUCCESS, Some l) | None \<Rightarrow> (EFI_UNSUPPORTED, None)) }"

section \<open>Tokens\<close>

text \<open>\<open>SctStrTokens\<close>: the commas of the text become terminators; a token is its offset in the text.\<close>

fun cut_tokens :: "nat \<Rightarrow> u16 list \<Rightarrow> (u16 list \<times> nat list) option" where
  "cut_tokens i [] = None"
| "cut_tokens i (c # s) =
     (if c = 0 then Some (c # s, [])
      else do {
        (s, ts) \<leftarrow> cut_tokens (i + 1) s;
        Some (if c = 44 then (0 # s, (i + 1) # ts) else (c # s, ts)) })"

definition SctStrTokens :: "bool \<Rightarrow> u16 list \<Rightarrow> (EFI_STATUS \<times> u16 list \<times> nat list) option" where
  "SctStrTokens pool String = do {
     (s, ts) \<leftarrow> cut_tokens 0 String;
     Some (if pool then (EFI_SUCCESS, s, 0 # ts) else (EFI_OUT_OF_RESOURCES, String, [])) }"

text \<open>The copy of the text and its tokens; without memory for the copy \<open>SctStrTokens\<close> gets \<open>NULL\<close>.\<close>

definition copy_tokens :: "(nat \<Rightarrow> bool) \<Rightarrow> nat \<Rightarrow> u16 list \<Rightarrow> (EFI_STATUS \<times> u16 list \<times> nat list) option" where
  "copy_tokens pool n Buffer = do {
     t \<leftarrow> cstr Buffer;
     (case duplicate pool n t of
        None \<Rightarrow> Some (EFI_INVALID_PARAMETER, [], [])
      | Some t \<Rightarrow> SctStrTokens (pool (n + 1)) (t @ [0])) }"

section \<open>Flags\<close>

definition EFI_TEST_LEVEL_MINIMAL :: u32 where "EFI_TEST_LEVEL_MINIMAL = 1"
definition EFI_TEST_LEVEL_DEFAULT :: u32 where "EFI_TEST_LEVEL_DEFAULT = 2"
definition EFI_TEST_LEVEL_EXHAUSTIVE :: u32 where "EFI_TEST_LEVEL_EXHAUSTIVE = 4"

definition EFI_TEST_CASE_AUTO :: u32 where "EFI_TEST_CASE_AUTO = 0"
definition EFI_TEST_CASE_MANUAL :: u32 where "EFI_TEST_CASE_MANUAL = 1"
definition EFI_TEST_CASE_DESTRUCTIVE :: u32 where "EFI_TEST_CASE_DESTRUCTIVE = 2"
definition EFI_TEST_CASE_RESET_REQUIRED :: u32 where "EFI_TEST_CASE_RESET_REQUIRED = 4"

definition level_names :: "(string \<times> u32) list" where
  "level_names = [(''Minimal'', EFI_TEST_LEVEL_MINIMAL), (''Default'', EFI_TEST_LEVEL_DEFAULT),
     (''Exhaustive'', EFI_TEST_LEVEL_EXHAUSTIVE)]"

definition attribute_names :: "(string \<times> u32) list" where
  "attribute_names = [(''Manual'', EFI_TEST_CASE_MANUAL), (''Destructive'', EFI_TEST_CASE_DESTRUCTIVE),
     (''ResetRequired'', EFI_TEST_CASE_RESET_REQUIRED)]"

text \<open>\<open>SctSPrint\<close> with \<open>%s,%s,%s\<close>: the names of the flags that are set, the others empty.\<close>

definition flag_text :: "(string \<times> u32) list \<Rightarrow> u32 \<Rightarrow> u16 list list" where
  "flag_text names v = map (\<lambda>(t, m). if v AND m \<noteq> 0 then ascii t else []) names"

fun join :: "u16 list list \<Rightarrow> u16 list" where
  "join [] = []"
| "join [t] = t"
| "join (t # ts) = t @ 44 # join ts"

definition SctTestLevelToStr :: "u32 \<Rightarrow> u16 list \<Rightarrow> (EFI_STATUS \<times> u16 list) option" where
  "SctTestLevelToStr TestLevel Buffer = do {
     b \<leftarrow> write_cells Buffer (join (flag_text level_names TestLevel) @ [0]);
     Some (EFI_SUCCESS, b) }"

definition SctCaseAttributeToStr :: "u32 \<Rightarrow> u16 list \<Rightarrow> (EFI_STATUS \<times> u16 list) option" where
  "SctCaseAttributeToStr CaseAttribute Buffer = do {
     b \<leftarrow> write_cells Buffer (join (flag_text attribute_names CaseAttribute) @ [0]);
     Some (EFI_SUCCESS, b) }"

text \<open>The loop over the tokens: empty ones are skipped, an unknown one ends it.\<close>

fun read_flags :: "collation \<Rightarrow> (string \<times> u32) list \<Rightarrow> u16 list \<Rightarrow> nat list \<Rightarrow> u32 \<Rightarrow> (EFI_STATUS \<times> u32) option" where
  "read_flags stri names s [] v = Some (EFI_SUCCESS, v)"
| "read_flags stri names s (i # is) v = do {
     t \<leftarrow> cstr (drop i s);
     (if t = [] then read_flags stri names s is v
      else (case find (\<lambda>(nm, m). stri (Some t) (ascii nm) = 0) names of
          None \<Rightarrow> Some (EFI_UNSUPPORTED, v)
        | Some (nm, m) \<Rightarrow> read_flags stri names s is (v OR m))) }"

definition read_names :: "collation \<Rightarrow> (string \<times> u32) list \<Rightarrow> u32 \<Rightarrow> (nat \<Rightarrow> bool) \<Rightarrow> nat \<Rightarrow> u16 list \<Rightarrow>
    (EFI_STATUS \<times> u32 option) option" where
  "read_names stri names v pool n Buffer = do {
     (st, s, ts) \<leftarrow> copy_tokens pool n Buffer;
     (if EFI_ERROR st then Some (st, None)
      else do {
        (st, v) \<leftarrow> read_flags stri names s ts v;
        Some (st, Some v) }) }"

definition SctStrToTestLevel :: "collation \<Rightarrow> (nat \<Rightarrow> bool) \<Rightarrow> nat \<Rightarrow> u16 list \<Rightarrow> (EFI_STATUS \<times> u32 option) option" where
  "SctStrToTestLevel stri = read_names stri level_names 0"

definition SctStrToCaseAttribute :: "collation \<Rightarrow> (nat \<Rightarrow> bool) \<Rightarrow> nat \<Rightarrow> u16 list \<Rightarrow> (EFI_STATUS \<times> u32 option) option" where
  "SctStrToCaseAttribute stri = read_names stri attribute_names EFI_TEST_CASE_AUTO"

section \<open>Lists of GUIDs\<close>

definition gEfiNullGuid :: guid_words where "gEfiNullGuid = (0, 0, 0, 0)"

fun print_guids :: "guid_words list \<Rightarrow> u16 list \<Rightarrow> (EFI_STATUS \<times> u16 list) option" where
  "print_guids [] b = None"
| "print_guids (g # gs) b =
     (if SctCompareGuid g gEfiNullGuid = 0 then Some (EFI_SUCCESS, b)
      else do {
        (st, b) \<leftarrow> SctGuidToStr (Some g) (Some b);
        b \<leftarrow> b;
        (if EFI_ERROR st then Some (st, b)
         else do {
           r \<leftarrow> SctStrCpy (drop 36 b) [44, 0];
           (st, r) \<leftarrow> print_guids gs (drop 1 r);
           Some (st, take 36 b @ 44 # r) }) })"

definition SctGuidArrayToStr :: "guid_words list \<Rightarrow> u16 list \<Rightarrow> (EFI_STATUS \<times> u16 list) option" where
  "SctGuidArrayToStr GuidArray Buffer = do {
     b \<leftarrow> wr Buffer 0 0;
     print_guids GuidArray b }"

text \<open>\<open>SctStrToGuidArray\<close>. The pointer that it returns is the one it stores through: the result is the
  array and the index that the pointer has in the end.\<close>

fun read_guids :: "u16 list \<Rightarrow> nat list \<Rightarrow> guid_words list \<Rightarrow> nat \<Rightarrow> (EFI_STATUS \<times> guid_words list \<times> nat) option" where
  "read_guids s [] a p = Some (EFI_SUCCESS, a, p)"
| "read_guids s (i # is) a p = do {
     c \<leftarrow> (if i < length s then Some (s ! i) else None);
     (if c = 0 then read_guids s is a p
      else do {
        (st, g) \<leftarrow> SctStrToGuid (drop i s);
        (if EFI_ERROR st then Some (st, a, p)
         else if p < length a then read_guids s is (a[p := g]) (p + 1) else None) }) }"

definition SctStrToGuidArray :: "(nat \<Rightarrow> bool) \<Rightarrow> nat \<Rightarrow> u16 list \<Rightarrow> (EFI_STATUS \<times> (guid_words list \<times> nat) option) option" where
  "SctStrToGuidArray pool n Buffer = do {
     (st, s, ts) \<leftarrow> copy_tokens pool n Buffer;
     (if EFI_ERROR st then Some (st, None)
      else if \<not> pool (n + 2) then Some (EFI_OUT_OF_RESOURCES, None)
      else do {
        (st, a, p) \<leftarrow> read_guids s ts (replicate (length ts + 1) gEfiNullGuid) 0;
        Some (st, Some (a, p)) }) }"

section \<open>The ends of a text\<close>

definition SctStrBeginWith :: "u16 list option \<Rightarrow> u16 list option \<Rightarrow> bool option" where
  "SctStrBeginWith Str SubStr =
     (case (Str, SubStr) of
        (Some Str, Some SubStr) \<Rightarrow> do {
          l \<leftarrow> SctStrLen Str;
          m \<leftarrow> SctStrLen SubStr;
          if l < m then Some False
          else (let SubStr = dropWhile (\<lambda>c. c = 32) SubStr in do {
            m \<leftarrow> SctStrLen SubStr;
            r \<leftarrow> SctStrnCmp Str SubStr m;
            Some (r = 0) }) }
      | _ \<Rightarrow> Some False)"

definition SctStrEndWith :: "collation \<Rightarrow> u16 list option \<Rightarrow> u16 list option \<Rightarrow> bool option" where
  "SctStrEndWith stri Str SubStr =
     (case (Str, SubStr) of
        (Some Str, Some SubStr) \<Rightarrow> do {
          l \<leftarrow> SctStrLen Str;
          m \<leftarrow> SctStrLen SubStr;
          if l < m then Some False
          else do {
            t \<leftarrow> cstr (drop (l - m) Str);
            u \<leftarrow> cstr SubStr;
            Some (stri (Some t) u = 0) } }
      | _ \<Rightarrow> Some False)"

text \<open>The copy that both replacements write into is not tested: \<open>None\<close> when there is no memory.\<close>

definition SctStrBeginReplace :: "bool \<Rightarrow> u16 list option \<Rightarrow> u16 list option \<Rightarrow> u16 list option option" where
  "SctStrBeginReplace pool Str SubStr =
     (case (Str, SubStr) of
        (Some Str, Some SubStr) \<Rightarrow> do {
          l \<leftarrow> SctStrLen Str;
          m \<leftarrow> SctStrLen SubStr;
          if l < m then Some None
          else if \<not> pool then None
          else map_option Some (SctStrnCpy (take (l + 1) Str) SubStr m) }
      | _ \<Rightarrow> Some None)"

definition SctStrEndReplace :: "bool \<Rightarrow> u16 list option \<Rightarrow> u16 list option \<Rightarrow> u16 list option option" where
  "SctStrEndReplace pool Str SubStr =
     (case (Str, SubStr) of
        (Some Str, Some SubStr) \<Rightarrow> do {
          l \<leftarrow> SctStrLen Str;
          m \<leftarrow> SctStrLen SubStr;
          if l < m then Some None
          else if \<not> pool then None
          else do {
            r \<leftarrow> SctStrCpy (drop (l - m) (take (l + 1) Str)) SubStr;
            Some (Some (take (l - m) Str @ r)) } }
      | _ \<Rightarrow> Some None)"

end
