(* ===== verification/Fw_Flags.thy ===== *)
theory Fw_Flags
  imports Fw_Convert
begin

text \<open>
  The texts that \<open>SctStrTokens\<close> cuts at their commas, and what the readers of flags and of lists of
  GUIDs make of the texts that were printed for them. The two flag formats share the locale
  \<open>flag_format\<close>.
\<close>

section \<open>Tokens of a text with commas\<close>

abbreviation token :: "u16 list \<Rightarrow> bool" where
  "token t \<equiv> 0 \<notin> set t \<and> 44 \<notin> set t"

text \<open>The tokens with their terminators, and where they start.\<close>

definition glue :: "u16 list list \<Rightarrow> u16 list" where
  "glue ts = concat (map (\<lambda>t. t @ [0]) ts)"

fun starts :: "nat \<Rightarrow> u16 list list \<Rightarrow> nat list" where
  "starts i [] = []"
| "starts i (t # ts) = i # starts (i + length t + 1) ts"

lemma glue_simps [simp]: "glue [] = []" "glue (t # ts) = t @ 0 # glue ts"
  by (simp_all add: glue_def)

lemma length_starts [simp]: "length (starts i ts) = length ts"
  by (induction ts arbitrary: i) auto

lemma cut_tokens_token:
  "token t \<Longrightarrow> cut_tokens i (t @ u) = map_option (\<lambda>(s, ks). (t @ s, ks)) (cut_tokens (i + length t) u)"
proof (induction t arbitrary: i)
  case Nil
  then show ?case by (cases "cut_tokens i u") auto
next
  case (Cons c t)
  then show ?case by (cases "cut_tokens (Suc (i + length t)) u") auto
qed

lemma cut_tokens_join:
  "list_all token ts \<Longrightarrow> ts \<noteq> [] \<Longrightarrow> cut_tokens i (join ts @ [0]) = Some (glue ts, tl (starts i ts))"
proof (induction ts arbitrary: i rule: join.induct)
  case (3 t u ts)
  then show ?case using cut_tokens_token [of t i "44 # join (u # ts) @ [0]"] by simp
qed (simp_all add: cut_tokens_token)

lemma join_nz: "list_all token ts \<Longrightarrow> 0 \<notin> set (join ts)"
  by (induction ts rule: join.induct) auto

lemma copy_tokens_join:
  assumes "cstr b = Some (join ts)" "list_all token ts" "ts \<noteq> []" "pool n" "pool (n + 1)"
  shows "copy_tokens pool n b = Some (EFI_SUCCESS, glue ts, starts 0 ts)"
  using assms cut_tokens_join [OF assms(2,3), of 0]
  by (cases ts) (simp_all add: copy_tokens_def duplicate_def SctStrTokens_def)

lemma token_at: "token t \<Longrightarrow> cstr (drop (length p) (p @ t @ 0 # q)) = Some t"
  by simp

section \<open>Flags\<close>

text \<open>The collation tells the names apart that it is asked about, as it does for \<open>SctStriCmp\<close> when they
  differ in more than the case of their letters.\<close>

definition tells_apart :: "collation \<Rightarrow> string list \<Rightarrow> bool" where
  "tells_apart stri names = (\<forall>s\<in>set names. \<forall>t\<in>set names. stri (Some (ascii s)) (ascii t) = 0 \<longleftrightarrow> s = t)"

locale flag_format =
  fixes names :: "(string \<times> u32) list"
  assumes some_name: "names \<noteq> []"
    and plain_names: "list_all (\<lambda>(s, m). token (ascii s) \<and> ascii s \<noteq> []) names"
    and one_name: "distinct (map fst names)"
    and one_bit: "list_all (\<lambda>(s, m). \<forall>v. v AND m = 0 \<or> v AND m = m) names"
begin

lemma tokens: "list_all token (flag_text names v)"
  using plain_names by (auto simp: flag_text_def list_all_iff)

lemma find_name:
  assumes "tells_apart stri (map fst names)" and "(s, m) \<in> set names"
  shows "find (\<lambda>(nm, m). stri (Some (ascii s)) (ascii nm) = 0) names = Some (s, m)"
proof -
  have "set xs \<subseteq> set names \<Longrightarrow> distinct (map fst xs) \<Longrightarrow> (s, m) \<in> set xs \<Longrightarrow>
      find (\<lambda>(nm, m). stri (Some (ascii s)) (ascii nm) = 0) xs = Some (s, m)" for xs
  proof (induction xs)
    case (Cons x xs)
    obtain t k where x: "x = (t, k)" by force
    have "s \<in> set (map fst names)" "t \<in> set (map fst names)" using assms(2) Cons.prems(1) by (force simp: x)+
    then have e: "stri (Some (ascii s)) (ascii t) = 0 \<longleftrightarrow> s = t" using assms(1) unfolding tells_apart_def by blast
    show ?case using Cons e by (cases "s = t") (force simp: x)+
  qed simp
  then show ?thesis using assms(2) one_name by blast
qed

lemma read_flags_text:
  assumes "tells_apart stri (map fst names)"
  shows "set xs \<subseteq> set names \<Longrightarrow>
    read_flags stri names (p @ glue (flag_text xs v)) (starts (length p) (flag_text xs v)) a =
      Some (EFI_SUCCESS, foldl (\<lambda>a (s, m). a OR (v AND m)) a xs)"
proof (induction xs arbitrary: p a)
  case (Cons x xs)
  obtain s m where x: "x = (s, m)" by force
  have m: "(s, m) \<in> set names" using Cons.prems x by simp
  then have t: "token (ascii s)" "ascii s \<noteq> []" "v AND m = 0 \<or> v AND m = m"
    using plain_names one_bit by (auto simp: list_all_iff)
  let ?t = "if v AND m \<noteq> 0 then ascii s else []"
  have "read_flags stri names ((p @ ?t @ [0]) @ glue (flag_text xs v))
      (starts (length (p @ ?t @ [0])) (flag_text xs v)) b =
      Some (EFI_SUCCESS, foldl (\<lambda>a (s, m). a OR (v AND m)) b xs)" for b
    by (rule Cons.IH) (use Cons.prems in simp)
  then show ?case using t find_name [OF assms m] by (cases "v AND m = 0") (auto simp: x flag_text_def)
qed (simp add: flag_text_def)

lemma read_names_text:
  assumes "tells_apart stri (map fst names)" "pool n" "pool (n + 1)" "cstr b = Some (join (flag_text names v))"
  shows "read_names stri names a pool n b = Some (EFI_SUCCESS, Some (foldl (\<lambda>a (s, m). a OR (v AND m)) a names))"
proof -
  have "flag_text names v \<noteq> []" using some_name by (simp add: flag_text_def)
  note c = copy_tokens_join [where pool = pool and n = n, OF assms(4) tokens this assms(2,3)]
  show ?thesis using read_flags_text [OF assms(1), of names "[]" v a] c by (simp add: read_names_def)
qed

lemma text_printed:
  assumes "length (join (flag_text names v)) < length b"
  obtains b' where "write_cells b (join (flag_text names v) @ [0]) = Some b'" "cstr b' = Some (join (flag_text names v))"
  using assms join_nz [OF tokens] by (simp add: write_cells_spec)

end

lemma single_bit: "v AND 2 ^ k = 0 \<or> v AND 2 ^ k = (2 ^ k :: u32)"
proof (cases "bit v k")
  case True
  then have "v AND 2 ^ k = 2 ^ k" by (auto intro!: bit_word_eqI simp: bit_simps)
  then show ?thesis ..
next
  case False
  then have "v AND 2 ^ k = 0" by (auto intro!: bit_word_eqI simp: bit_simps)
  then show ?thesis ..
qed

lemmas flag_bits = single_bit [of _ 0, simplified] single_bit [of _ 1, simplified] single_bit [of _ 2, simplified]

interpretation level: flag_format level_names
  by unfold_locales (simp_all add: level_names_def ascii_def flag_bits EFI_TEST_LEVEL_MINIMAL_def
    EFI_TEST_LEVEL_DEFAULT_def EFI_TEST_LEVEL_EXHAUSTIVE_def)

interpretation attribute: flag_format attribute_names
  by unfold_locales (simp_all add: attribute_names_def ascii_def flag_bits EFI_TEST_CASE_MANUAL_def
    EFI_TEST_CASE_DESTRUCTIVE_def EFI_TEST_CASE_RESET_REQUIRED_def)

lemma three_bits: "v AND 1 OR v AND 2 OR v AND 4 = v AND (7 :: u32)"
proof -
  have "v AND 1 OR v AND 2 OR v AND 4 = v AND (1 OR 2 OR 4)" by (simp only: bit.conj_disj_distrib)
  then show ?thesis by simp
qed

lemma flag_sums:
  "foldl (\<lambda>a (s, m). a OR (v AND m)) 0 level_names = v AND 7"
  "foldl (\<lambda>a (s, m). a OR (v AND m)) EFI_TEST_CASE_AUTO attribute_names = v AND 7"
  using three_bits [of v]
  by (simp_all add: or.assoc level_names_def attribute_names_def EFI_TEST_LEVEL_MINIMAL_def EFI_TEST_LEVEL_DEFAULT_def
    EFI_TEST_LEVEL_EXHAUSTIVE_def EFI_TEST_CASE_AUTO_def EFI_TEST_CASE_MANUAL_def EFI_TEST_CASE_DESTRUCTIVE_def
    EFI_TEST_CASE_RESET_REQUIRED_def)

lemma flag_lengths:
  "length (join (flag_text level_names v)) \<le> 26" "length (join (flag_text attribute_names v)) \<le> 32"
  by (simp_all add: flag_text_def level_names_def attribute_names_def ascii_def)

section \<open>Lists of GUIDs\<close>

lemma hex_char_token: "hex_char n \<noteq> 0 \<and> hex_char n \<noteq> 44" if "n < 16"
  using hex_char_cases [OF that] by auto

lemma token_hex_field:
  assumes "Mask = push_bit (4 * (Len - 1)) 15" and "Len \<le> 8"
  shows "token (hex_field Mask Len v)"
  using hex_char_token nibbles_small by (fastforce simp: hex_field_nibbles [OF assms])

lemma token_guid_text: "token (guid_text g)"
proof -
  have "token (hex_field 0xf0000000 8 v)" "token (hex_field 0xf000 4 v)" "token (hex_field 0xf0 2 v)" for v
    by (rule token_hex_field; simp)+
  then show ?thesis by (simp add: guid_text_parts)
qed

text \<open>The printed list: a comma behind every GUID, and the terminator behind the last comma.\<close>

lemma print_guids_text:
  "gEfiNullGuid \<notin> set gs \<Longrightarrow> 37 * length gs \<le> length b \<Longrightarrow>
    print_guids (gs @ gEfiNullGuid # r) (0 # b) =
      Some (EFI_SUCCESS, concat (map (\<lambda>g. guid_text g @ [44]) gs) @ 0 # drop (37 * length gs) b)"
proof (induction gs arbitrary: b)
  case Nil
  then show ?case by (simp add: SctCompareGuid_0)
next
  case (Cons g gs)
  have l: "36 \<le> length b" using Cons.prems by simp
  then have "SctGuidToStr (Some g) (Some (0 # b)) = Some (EFI_SUCCESS, Some (guid_text g @ 0 # drop 36 b))"
    by (simp add: SctGuidToStr_def write_cells_spec length_guid_text)
  moreover have "SctStrCpy (0 # drop 36 b) [44, 0] = Some (44 # 0 # drop 37 b)"
    using SctStrCpy_spec [of "[44, 0]" "[44]" "0 # drop 36 b"] Cons.prems by simp
  moreover have "print_guids (gs @ gEfiNullGuid # r) (0 # drop 37 b) =
      Some (EFI_SUCCESS, concat (map (\<lambda>g. guid_text g @ [44]) gs) @ 0 # drop (37 * length gs) (drop 37 b))"
    by (rule Cons.IH) (use Cons.prems in auto)
  ultimately show ?case
    using Cons.prems by (auto simp: SctCompareGuid_0 length_guid_text add.commute)
qed

lemma join_guids: "join (map guid_text gs @ [[]]) = concat (map (\<lambda>g. guid_text g @ [44]) gs)"
proof (induction gs)
  case (Cons g gs)
  have "join (guid_text g # (map guid_text gs @ [[]])) = guid_text g @ 44 # join (map guid_text gs @ [[]])"
    by (cases "map guid_text gs @ [[]]") auto
  with Cons show ?case by simp
qed simp

lemma read_guids_text:
  "length ds + length gs \<le> length a \<Longrightarrow> take (length ds) a = ds \<Longrightarrow>
    read_guids (p @ glue (map guid_text gs @ [[]])) (starts (length p) (map guid_text gs @ [[]])) a (length ds) =
      Some (EFI_SUCCESS, ds @ gs @ drop (length ds + length gs) a, length ds + length gs)"
proof (induction gs arbitrary: p a ds)
  case Nil
  then show ?case by (simp add: nth_append) (metis append_take_drop_id)
next
  case (Cons g gs)
  have "token (guid_text g)" "guid_text g \<noteq> []" using token_guid_text length_guid_text [of g] by auto
  then have h: "guid_text g ! 0 \<noteq> 0" by (metis length_greater_0_conv nth_mem)
  let ?p = "p @ guid_text g @ [0]" and ?a = "a[length ds := g]"
  have t: "take (length (ds @ [g])) ?a = ds @ [g]"
    using Cons.prems by (simp add: take_Suc_conv_app_nth)
  have "read_guids (?p @ glue (map guid_text gs @ [[]])) (starts (length ?p) (map guid_text gs @ [[]])) ?a (length (ds @ [g])) =
      Some (EFI_SUCCESS, (ds @ [g]) @ gs @ drop (length (ds @ [g]) + length gs) ?a, length (ds @ [g]) + length gs)"
    by (rule Cons.IH) (use Cons.prems t in auto)
  then show ?case
    using Cons.prems h SctStrToGuid_text [of g] length_guid_text [of g]
    by (simp add: nth_append add.commute [of 37])
qed

section \<open>Names and numbers\<close>

lemma text_copied:
  assumes "token (ascii t)" and "length (ascii t) < length b"
  obtains b' where "SctStrCpy b (ascii t @ [0]) = Some b'" "cstr b' = Some (ascii t)"
  using assms SctStrCpy_spec [of "ascii t @ [0]" "ascii t" b] by simp

lemma hex_text_read:
  assumes "19 \<le> length b"
  shows "\<exists>b'. SctIntToHexStr v b = Some (EFI_SUCCESS, b') \<and> SctHexStrToInt b' = Some (EFI_SUCCESS, v)"
proof -
  obtain d s where d: "SctValueToHexStr (replicate 100 0) v = Some d" "cstr d = Some s" "all_digits 16 s"
    "value_of 16 s = unat v" "length s \<le> 16" "s \<noteq> []"
    using SctValueToHexStr_spec [of "replicate 100 0" v] by auto
  let ?b = "48 # 120 # s @ 0 # drop (Suc (Suc (Suc (length s)))) b"
  have "SctIntToHexStr v b = Some (EFI_SUCCESS, ?b)"
    using d assms by (simp add: SctIntToHexStr_def write_cells_spec)
  moreover have "cstr ?b = Some (48 # 120 # s)" using cstr_nz [OF d(2)] by simp
  moreover have "num_of 16 (digits_of hex_val s) = unat v"
    using d(3,4) digits_of_all [of s hex_val] by (simp add: value_of_def all_digits_def)
  ultimately show ?thesis using SctXtoi_cstr [of ?b] by (simp add: SctHexStrToInt_def xtoi_body_def)
qed

lemma boolean_read:
  assumes "tells_apart stri [''True'', ''False'']" and "6 \<le> length b"
  shows "\<exists>b'. SctBooleanToStr t b = Some (EFI_SUCCESS, b') \<and> SctStrToBoolean stri b' = Some (EFI_SUCCESS, Some t)"
proof -
  let ?t = "if t then ''True'' else ''False''"
  have "token (ascii ?t)" "length (ascii ?t) < length b" using assms(2) by (auto simp: ascii_def)
  then obtain b' where "SctStrCpy b (ascii ?t @ [0]) = Some b'" "cstr b' = Some (ascii ?t)" by (rule text_copied)
  then show ?thesis using assms(1) by (auto simp: SctBooleanToStr_def SctStrToBoolean_def tells_apart_def)
qed

lemma verbose_read:
  assumes "tells_apart stri [''Quiet'', ''Minimal'', ''Default'', ''Noisy'', ''Exhaustive'']" and "11 \<le> length b"
  shows "\<exists>b'. SctVerboseLevelToStr l b = Some (EFI_SUCCESS, b') \<and> SctStrToVerboseLevel stri b' = Some (EFI_SUCCESS, Some l)"
proof -
  let ?t = "verbose_name l"
  have "token (ascii ?t)" "length (ascii ?t) < length b" using assms(2) by (cases l; simp add: ascii_def)+
  then obtain b' where "SctStrCpy b (ascii ?t @ [0]) = Some b'" "cstr b' = Some (ascii ?t)" by (rule text_copied)
  then show ?thesis
    using assms(1) by (cases l) (simp_all add: SctVerboseLevelToStr_def SctStrToVerboseLevel_def tells_apart_def)
qed

lemma level_read:
  assumes "tells_apart stri (map fst level_names)" and "33 \<le> length b" and "pool n" and "pool (n + 1)"
  shows "\<exists>b'. SctTestLevelToStr v b = Some (EFI_SUCCESS, b') \<and>
    SctStrToTestLevel stri pool n b' = Some (EFI_SUCCESS, Some (v AND 7))"
proof -
  have "length (join (flag_text level_names v)) < length b" using flag_lengths [of v] assms(2) by linarith
  from level.text_printed [OF this] obtain b'
    where b: "write_cells b (join (flag_text level_names v) @ [0]) = Some b'"
    and c: "cstr b' = Some (join (flag_text level_names v))" by blast
  show ?thesis
    using b level.read_names_text [OF assms(1,3,4) c, of 0] flag_sums(1) [of v]
    by (simp add: SctTestLevelToStr_def SctStrToTestLevel_def)
qed

lemma attribute_read:
  assumes "tells_apart stri (map fst attribute_names)" and "33 \<le> length b" and "pool n" and "pool (n + 1)"
  shows "\<exists>b'. SctCaseAttributeToStr v b = Some (EFI_SUCCESS, b') \<and>
    SctStrToCaseAttribute stri pool n b' = Some (EFI_SUCCESS, Some (v AND 7))"
proof -
  have "length (join (flag_text attribute_names v)) < length b" using flag_lengths [of v] assms(2) by linarith
  from attribute.text_printed [OF this] obtain b'
    where b: "write_cells b (join (flag_text attribute_names v) @ [0]) = Some b'"
    and c: "cstr b' = Some (join (flag_text attribute_names v))" by blast
  show ?thesis
    using b attribute.read_names_text [OF assms(1,3,4) c, of EFI_TEST_CASE_AUTO] flag_sums(2) [of v]
    by (simp add: SctCaseAttributeToStr_def SctStrToCaseAttribute_def)
qed

section \<open>Properties\<close>

text \<open>C39: What is printed for a test level and for a case attribute is read back, and so are truth values,
  verbose levels and numbers of 64 bits: of the flags the three bits that have names. The collation has to
  tell the names of the values apart, the buffer must hold 33 characters, and memory must be there for the tokens.\<close>

theorem flags_roundtrip:
  assumes "tells_apart stri (map fst level_names)" and "tells_apart stri (map fst attribute_names)"
    and "tells_apart stri [''True'', ''False'']"
    and "tells_apart stri [''Quiet'', ''Minimal'', ''Default'', ''Noisy'', ''Exhaustive'']"
    and "33 \<le> length Buffer" and "pool n" and "pool (n + 1)"
  shows "(\<exists>b. SctTestLevelToStr v Buffer = Some (EFI_SUCCESS, b) \<and>
      SctStrToTestLevel stri pool n b = Some (EFI_SUCCESS, Some (v AND 7))) \<and>
    (\<exists>b. SctCaseAttributeToStr v Buffer = Some (EFI_SUCCESS, b) \<and>
      SctStrToCaseAttribute stri pool n b = Some (EFI_SUCCESS, Some (v AND 7))) \<and>
    (\<exists>b. SctBooleanToStr t Buffer = Some (EFI_SUCCESS, b) \<and> SctStrToBoolean stri b = Some (EFI_SUCCESS, Some t)) \<and>
    (\<exists>b. SctVerboseLevelToStr l Buffer = Some (EFI_SUCCESS, b) \<and>
      SctStrToVerboseLevel stri b = Some (EFI_SUCCESS, Some l)) \<and>
    (\<exists>b. SctIntToHexStr x Buffer = Some (EFI_SUCCESS, b) \<and> SctHexStrToInt b = Some (EFI_SUCCESS, x))"
proof -
  have "6 \<le> length Buffer" "11 \<le> length Buffer" "19 \<le> length Buffer" using assms(5) by simp_all
  then show ?thesis
    using level_read [OF assms(1,5,6,7)] attribute_read [OF assms(2,5,6,7)] boolean_read [OF assms(3)]
      verbose_read [OF assms(4)] hex_text_read by blast
qed

definition same_word :: collation where
  "same_word s t = (if s = Some t then 0 else 1)"

theorem flags_roundtrip_witness:
  "\<exists>b. SctTestLevelToStr 5 (replicate 33 0) = Some (EFI_SUCCESS, b) \<and>
    SctStrToTestLevel same_word (\<lambda>_. True) 0 b = Some (EFI_SUCCESS, Some 5)"
  using flags_roundtrip [of same_word "replicate 33 0" "\<lambda>_. True" 0 5 True EFI_VERBOSE_LEVEL_NOISY 7]
  by (simp add: tells_apart_def same_word_def level_names_def attribute_names_def ascii_def)

text \<open>C38: A list of GUIDs that is printed is read back, into a new array that ends with the null GUID; but the
  pointer the reader returns is behind the GUIDs, at the null GUID: who follows it finds an empty list.\<close>

theorem guid_array_lost:
  assumes "gEfiNullGuid \<notin> set gs" and "37 * length gs + 1 \<le> length Buffer"
    and "pool n" and "pool (n + 1)" and "pool (n + 2)"
  shows "\<exists>b. SctGuidArrayToStr (gs @ [gEfiNullGuid]) Buffer = Some (EFI_SUCCESS, b) \<and>
    cstr b = Some (concat (map (\<lambda>g. guid_text g @ [44]) gs)) \<and>
    SctStrToGuidArray pool n b = Some (EFI_SUCCESS, Some (gs @ [gEfiNullGuid, gEfiNullGuid], length gs))"
proof -
  obtain c b0 where b0: "Buffer = c # b0" using assms(2) by (cases Buffer) auto
  let ?ts = "map guid_text gs @ [[]]"
  let ?b = "concat (map (\<lambda>g. guid_text g @ [44]) gs) @ 0 # drop (37 * length gs) b0"
  have p: "SctGuidArrayToStr (gs @ [gEfiNullGuid]) Buffer = Some (EFI_SUCCESS, ?b)"
    using print_guids_text [OF assms(1), of b0 "[]"] assms(2) by (simp add: SctGuidArrayToStr_def wr_def b0)
  have t: "list_all token ?ts" using token_guid_text by (simp add: list_all_iff)
  then have z: "0 \<notin> set (join ?ts)" by (rule join_nz)
  then have b: "cstr ?b = Some (join ?ts)" by (simp add: join_guids)
  note c = copy_tokens_join [where pool = pool and n = n, OF b t _ assms(3,4)]
  have d: "drop (length gs) (replicate (length gs + 2) gEfiNullGuid) = [gEfiNullGuid, gEfiNullGuid]"
    by (simp only: drop_replicate) (simp add: numeral_2_eq_2)
  have "read_guids (glue ?ts) (starts 0 ?ts) (replicate (length gs + 2) gEfiNullGuid) 0 =
      Some (EFI_SUCCESS, gs @ [gEfiNullGuid, gEfiNullGuid], length gs)"
    using read_guids_text [of "[]" gs "replicate (length gs + 2) gEfiNullGuid" "[]"]
    by (simp only: d list.size append_Nil add_0 take_0) simp
  then have "SctStrToGuidArray pool n ?b = Some (EFI_SUCCESS, Some (gs @ [gEfiNullGuid, gEfiNullGuid], length gs))"
    using c assms(5) by (simp add: SctStrToGuidArray_def)
  then show ?thesis using p b by (simp add: join_guids)
qed

theorem guid_array_lost_witness:
  "\<exists>b. SctGuidArrayToStr [(1, 2, 3, 4), (5, 6, 7, 8), gEfiNullGuid] (replicate 75 0) = Some (EFI_SUCCESS, b) \<and>
    SctStrToGuidArray (\<lambda>_. True) 0 b =
      Some (EFI_SUCCESS, Some ([(1, 2, 3, 4), (5, 6, 7, 8), gEfiNullGuid, gEfiNullGuid], 2))"
  using guid_array_lost [of "[(1, 2, 3, 4), (5, 6, 7, 8)]" "replicate 75 0" "\<lambda>_. True" 0]
  by (auto simp: gEfiNullGuid_def)

text \<open>C40: When memory is available, SctStrBeginReplace and SctStrEndReplace return a new text of the same length whose beginning, or
  end, is the given text, and the rest is as it was. SctStrBeginWith then finds the given text there if it does
  not begin with a blank, and SctStrEndWith if the collation finds it equal to itself. A text that is
  too long is not found, and nothing is returned.\<close>

theorem ends_replaced:
  assumes "cstr Str = Some s" and "cstr SubStr = Some t"
  shows "(if length s < length t
    then SctStrBeginReplace True (Some Str) (Some SubStr) = Some None \<and>
      SctStrEndReplace True (Some Str) (Some SubStr) = Some None \<and>
      SctStrBeginWith (Some Str) (Some SubStr) = Some False \<and>
      SctStrEndWith stri (Some Str) (Some SubStr) = Some False
    else (\<exists>b e. SctStrBeginReplace True (Some Str) (Some SubStr) = Some (Some b) \<and>
      cstr b = Some (t @ drop (length t) s) \<and>
      (t = [] \<or> hd t \<noteq> 32 \<longrightarrow> SctStrBeginWith (Some b) (Some SubStr) = Some True) \<and>
      SctStrEndReplace True (Some Str) (Some SubStr) = Some (Some e) \<and>
      cstr e = Some (take (length s - length t) s @ t) \<and>
      SctStrEndWith stri (Some e) (Some SubStr) = Some (stri (Some t) t = 0)))"
proof (cases "length s < length t")
  case True
  then show ?thesis
    using assms by (simp add: SctStrBeginReplace_def SctStrEndReplace_def SctStrBeginWith_def SctStrEndWith_def SctStrLen_cstr)
next
  case False
  obtain r where Str: "Str = s @ 0 # r" and s: "0 \<notin> set s" using assms(1) by (rule cstrE)
  obtain q where SubStr: "SubStr = t @ 0 # q" and t: "0 \<notin> set t" using assms(2) by (rule cstrE)
  let ?b = "t @ drop (length t) s @ [0]" and ?e = "take (length s - length t) s @ t @ [0]"
  have z: "0 \<notin> set (t @ drop (length t) s)" "0 \<notin> set (take (length s - length t) s @ t)"
    using s t by (auto dest: in_set_dropD in_set_takeD)
  then have c: "cstr ?b = Some (t @ drop (length t) s)" "cstr ?e = Some (take (length s - length t) s @ t)"
    using cstr_append_0 [OF z(1), of "[]"] cstr_append_0 [OF z(2), of "[]"] by simp_all
  have w: "dropWhile (\<lambda>c. c = 32) SubStr = SubStr" if "t = [] \<or> hd t \<noteq> 32"
    using that by (cases t) (auto simp: SubStr)
  have "SctStrBeginReplace True (Some Str) (Some SubStr) = Some (Some ?b)"
    using False assms(1,2) SctStrnCpy_spec [OF assms(2), of "length t" "s @ [0]"]
    by (simp add: SctStrBeginReplace_def SctStrLen_cstr Str)
  moreover have "t = [] \<or> hd t \<noteq> 32 \<longrightarrow> SctStrBeginWith (Some ?b) (Some SubStr) = Some True"
    using False assms(2) c(1) SctStrnCmp_eq0 [OF c(1) assms(2), of "length t"]
    by (simp add: SctStrBeginWith_def SctStrLen_cstr w)
  moreover have "SctStrEndReplace True (Some Str) (Some SubStr) = Some (Some ?e)"
    using False assms(1,2) SctStrCpy_spec [OF assms(2), of "drop (length s - length t) (s @ [0])"]
    by (simp add: SctStrEndReplace_def SctStrLen_cstr Str)
  moreover have "SctStrEndWith stri (Some ?e) (Some SubStr) = Some (stri (Some t) t = 0)"
    using False assms(2) c(2) cstr_append_0 [OF t, of "[]"] by (simp add: SctStrEndWith_def SctStrLen_cstr)
  ultimately show ?thesis using False c by simp
qed

theorem ends_replaced_witness:
  "\<exists>b e. SctStrBeginReplace True (Some [65, 66, 67, 0]) (Some [68, 69, 0]) = Some (Some b) \<and> cstr b = Some [68, 69, 67] \<and>
    SctStrEndReplace True (Some [65, 66, 67, 0]) (Some [68, 69, 0]) = Some (Some e) \<and> cstr e = Some [65, 68, 69] \<and>
    SctStrEndWith same_word (Some e) (Some [68, 69, 0]) = Some True"
  using ends_replaced [of "[65, 66, 67, 0]" "[65, 66, 67]" "[68, 69, 0]" "[68, 69]" same_word]
  by (auto simp: same_word_def)

end
