(* ===== verification/Spec2Isabelle.thy ===== *)
theory Spec2Isabelle
  imports Sct_Hex Sct_Search Sct_Misc Sct_Match Sct_List Ini_Order Ini_Round Eftp_Props Eftp_Put Fw_Modes Fw_Flags
begin

text \<open>
  A verification library for the UEFI Self Certification Test (SCT): the support library the
  tests and the framework are built on (\<open>SctPkg/Library/SctLib\<close>); the test profile library
  (\<open>SctPkg/TestInfrastructure/SCT/Drivers/TestProfile\<close>), which keeps configurations in INI files;
  the test cases, test nodes and saved sequences of the framework
  (\<open>SctPkg/TestInfrastructure/SCT/Framework\<close>: \<open>Data\<close>, \<open>Load\<close>, \<open>Misc\<close>, \<open>Operation\<close>), which are
  built on the lists, the GUIDs and the INI files of the other two; and the file transfer
  protocol of the network tests (\<open>Framework/ENTS/Eftp\<close>), with its download and upload client.

  \<^bold>\<open>Conventions.\<close> A block of memory reached through a pointer is the list of its cells, from the
  pointer to the end of the block; a read or write outside it is the value \<open>None\<close>, so every
  theorem that a routine returns \<open>Some\<close> result is also a theorem that it stays in bounds. A C
  string is read out of a block by \<open>cstr\<close>. Machine integers are words of their width; counts
  and lengths whose width cannot matter (they are bounded by the size of a block in memory)
  are \<open>nat\<close>. Status codes are the datatype \<open>EFI_STATUS\<close>. Uninitialised memory is a parameter:
  the arrays on the stack (\<open>stack\<close>, \<open>out\<close>), the blocks the pool returns (\<open>pool\<close>, \<open>cpool\<close>), and
  the theorems hold for all of its values.

  \<^bold>\<open>Theories.\<close>
  \<^item> \<open>Sct_Prelude\<close>: machine types, status codes, blocks, C strings, trimming.
  \<^item> \<open>Sct_String\<close>: \<open>String.c\<close> and \<open>Mem.c\<close>: length, comparison, copying, concatenation, character
    search, trimming, splitting, conversion between ASCII and Unicode.
  \<^item> \<open>Sct_Number\<close>: \<open>Math.c\<close>, and the number parsers of \<open>String.c\<close> with their overflow behaviour.
  \<^item> \<open>Sct_Hex\<close>: hexadecimal printing and parsing of values and buffers, IPv4 and IPv6 addresses.
  \<^item> \<open>Sct_Search\<close>: \<open>SctStrStr\<close> (Knuth, Morris and Pratt, with its failure table) and \<open>SctAsciiStrStr\<close>,
    against the first occurrence.
  \<^item> \<open>Sct_Misc\<close>: \<open>Misc.c\<close>: buffer growing, GUID comparison, CRC-32 with its table, byte orders.
  \<^item> \<open>Sct_Match\<close>: \<open>Match.c\<close>: \<open>SctMetaMatch\<close> against the language of its patterns.
  \<^item> \<open>Sct_List\<close>: \<open>List.c\<close>: doubly linked circular lists in a heap of entries, through the locales
    \<open>linked_list\<close> and \<open>linked_list_ins\<close>.
  \<^item> \<open>Ini_File\<close>, \<open>Ini_Ops\<close>, \<open>Ini_Store\<close>, \<open>Ini_Order\<close>: the records of an INI file and the operations
    of its interface in memory (\<open>EfiIniGetString\<close> ... \<open>EfiIniGetOrderNum\<close>), refined to functions on
    the list of \<open>(section, entry, value)\<close> texts; the laws of a name table are the locale
    \<open>string_table\<close>.
  \<^item> \<open>Ini_Parse\<close>: \<open>_prosessLine\<close> and its parts, and the reading loop, refined to a grammar of lines.
  \<^item> \<open>Ini_Io\<close>: \<open>AtslEfiIniOpen\<close>, \<open>AtslEfiIniCreate\<close>, \<open>EfiIniFlush\<close>, \<open>AtslEfiIniClose\<close> over a firmware
    that is a parameter; \<open>Ini_Handles\<close>: what each of them holds and releases on every path, with the
    records and comments that parsing allocates;
    \<open>Ini_Print\<close>: the text a flush writes; \<open>Ini_Round\<close>: flushing and opening again.

  \<^item> \<open>Fw_Cases\<close>: the list of test cases (\<open>TestCaseEx.c\<close> and the part of \<open>TestCase.c\<close> in memory);
    \<open>Fw_Queue\<close>: every operation against the queue of the selected GUIDs, the abstract state;
    \<open>Fw_Text\<close>: numbers and GUIDs as text (\<open>SctMisc.c\<close>).
  \<^item> \<open>Fw_Nodes\<close>: categories, test files, the tree of test nodes (\<open>TestNode.c\<close>) and the operation ALL
    (\<open>Operation.c\<close>); \<open>Fw_Tree\<close>: the walks with their paths refined to one recursion on the tree;
    \<open>Fw_Load\<close>: sortedness, leaves and orders of the tree; \<open>Fw_Props\<close>: the properties.
  \<^item> \<open>Fw_Files\<close>: test cases and sequences saved to and loaded from INI files (the rest of \<open>TestCase.c\<close>);
    \<open>Fw_Saved\<close>: the sections a save writes; \<open>Fw_Round\<close>: what is read from them, and the file that is
    flushed; \<open>Fw_Format\<close>: saving and loading a list, over the locale \<open>section_format\<close> that both formats
    of \<open>TestCase.c\<close> interpret; \<open>Fw_Modes\<close>: the operations CONTINUE, SEQUENCE and UI.
  \<^item> \<open>Fw_Convert\<close>: the other conversions of \<open>SctMisc.c\<close> (flags, truth values, verbose levels, lists of
    GUIDs, tokens, the ends of a text); \<open>Fw_Flags\<close>: their round trips, over the locale \<open>flag_format\<close> that
    test levels and case attributes interpret, and the list of GUIDs whose start is lost.
  \<^item> \<open>Eftp_Packet\<close>, \<open>Eftp_Option\<close>, \<open>Eftp_Rrq\<close>, \<open>Eftp_Wrq\<close>, \<open>Eftp_Main\<close>: the five C files of the file
    transfer protocol, one theory each: packets, their pool and the session state; options; the
    download client; the upload client; the interface and the events of a session.
  \<^item> \<open>Eftp_Pool\<close>, \<open>Eftp_Cksum\<close>, \<open>Eftp_Mem\<close>, \<open>Eftp_Send\<close>, \<open>Eftp_Start\<close>: reference counts against the
    multiset of the references held, the checksum, the memory of a session, the exact packets sent,
    the state a start leaves.
  \<^item> \<open>Eftp_Session\<close>: the locale \<open>timed_session\<close> of sessions with an invariant and a measure that the
    timer lowers; \<open>Eftp_Read\<close> (locale \<open>rrq_client\<close>), \<open>Eftp_Download\<close>, \<open>Eftp_Example\<close>, \<open>Eftp_Round\<close>,
    \<open>Eftp_Props\<close>: downloads; \<open>Eftp_Blocks\<close>, \<open>Eftp_Upload\<close> (locale \<open>wrq_client\<close>), \<open>Eftp_Put\<close>: uploads.

  \<^bold>\<open>Representation.\<close> The chain of INI records from \<open>Head\<close> through \<open>ptrNext\<close> is the list \<open>Items\<close> of
  addressed records; \<open>Tail\<close> is the address the code keeps, and \<open>file_ok\<close> states that it is the
  last one. \<open>entries\<close> reads the texts out of a file. The linked lists of \<open>List.c\<close> are kept as a
  map from addresses to entries, since their correctness is about the links themselves. The lists
  of the framework are lists in the order of their links; a pointer to a test case is its index,
  a pointer into the tree the path of indices to the node. Output pointers that only the framework
  passes are never \<open>NULL\<close> and are not arguments; nor are the buffers of \<open>Fw_Convert\<close>. The comparison \<open>SctStriCmp\<close> is the parameter
  \<open>stri\<close>; the property of the sorted tree assumes that it compares by a key in some linear order.
  An EFTP session is one record, \<open>EFTP_IO_PRIVATE\<close>; the network, the boot services and the callbacks
  of the user are the record \<open>eftp_env\<close> of answers numbered by the calls, and \<open>Wire\<close> is the list
  of packets sent. \<open>None\<close> is a failed assertion or an access outside a block. A history is a list
  of events (a packet comes, a packet comes back from the network, the timer expires), each running
  one callback to its end, as the callbacks do at their task priority. What the properties assume
  of the peer is named: \<open>any_peer\<close> admits every packet whose length field is covered by its data;
  \<open>any_sink\<close> every packet but an option acknowledgement that changes an option or names one the
  client does not know (for which it reads behind its table); \<open>sender\<close> sends the blocks of one file;
  \<open>fair\<close> is a buffer of the user as long as its size says, \<open>room\<close> one of 10485760 bytes;
  \<open>network_ok\<close> says that no transmission is refused with \<open>EFI_ACCESS_DENIED\<close> and that the addresses
  of packets are allocated (the allocation of packet buffers may fail). A session ends in \<open>EFTP_INIT\<close>;
  events after that are not covered, as a late completion then fails an assertion.

  \<^bold>\<open>Bounds.\<close> Names and values of the INI operations are below 100 characters in the theorems about
  setting and reading: the code admits 100, but a field filled with exactly 100 characters is
  not terminated. Flushing and opening again is stated for Unicode files whose texts survive it
  (\<open>flushable\<close>, \<open>survives\<close>): the first record is a section head, texts are trimmed and without the
  characters that structure a line, and sections are below 5120 bytes. The loops are structural or carry a measure; the failure-table loops of
  \<open>SctStrStr\<close> and the walk of a circular list are \<open>partial_function\<close>s or take fuel, and the
  theorems state that they return. A session ends after at most \<open>MaxNRetry + 3\<close> expirations of the
  timer without another event. Requests are below 60000 bytes, and downloads are limited to the
  10485760 bytes of \<open>MAX_REAL_FILE_SIZE\<close>, which the code compares with instead of the buffer. The
  operation ALL is stated when memory is available and there are fewer than \<open>2 ^ 32 - 2\<close> test cases, so
  that orders do not reach the two values that mark unknown and running ones.

  \<^bold>\<open>Not modelled.\<close> The conformance tests themselves (\<open>SctPkg/TestCase\<close>) call firmware that is not
  part of the repository; \<open>SctStriCmp\<close>, \<open>SctStrLwr\<close>, \<open>SctStrUpr\<close> and \<open>SctMetaiMatch\<close> only call the
  Unicode collation protocol; protocol installation (\<open>EftpDriver.c\<close>, \<open>ComponentName.c\<close>), console output, the
  user interface, the reports and the recovery file are sequences of firmware calls. The execution
  loop (\<open>Execute.c\<close>) starts images and calls the tests, which may reset the machine at any point:
  its choice of the next test case and the saved list it resumes from are modelled, the loop is
  not. \<open>EftpPoll\<close>, \<open>EftpGetInfo\<close> and \<open>EftpReadDirectory\<close> forward or refuse. Task priorities and
  the freeing of blocks that no later operation reads are left out. The host tools under \<open>EMS\<close>
  are operating system and Tcl calls.
\<close>

section \<open>Arguments and results of the INI file interface\<close>

text \<open>The name a Unicode argument stands for, when it is a terminated string within the limit
  of 100 characters; and what a caller sees of a result: the status, the string returned and
  the length.\<close>

definition arg_name :: "u16 list \<Rightarrow> u8 list option" where
  "arg_name b = (case cstr b of
     Some t \<Rightarrow> if length t \<le> 100 then Some (name_of t) else None | None \<Rightarrow> None)"

lemma arg_nameE:
  assumes "arg_name b = Some s"
  obtains t where "cstr b = Some t" "length t \<le> 100" "name_of t = s"
  using assms by (auto simp: arg_name_def split: option.splits if_splits)

definition key_args :: "u16 list \<Rightarrow> u16 list \<Rightarrow> u8 list \<Rightarrow> u8 list \<Rightarrow> bool" where
  "key_args Section Entry s e \<longleftrightarrow>
     arg_name Section = Some s \<and> arg_name Entry = Some e \<and> s \<noteq> [] \<and> e \<noteq> []"

definition set_args :: "u16 list \<Rightarrow> u16 list \<Rightarrow> u16 list \<Rightarrow> u8 list \<Rightarrow> u8 list \<Rightarrow> u8 list \<Rightarrow> bool" where
  "set_args Section Entry String s e v \<longleftrightarrow> key_args Section Entry s e \<and> arg_name String = Some v \<and>
     length s < 100 \<and> length e < 100 \<and> length v < 100"

definition ready :: "stack \<Rightarrow> pool \<Rightarrow> nat \<Rightarrow> 'd EFI_INI_FILE \<Rightarrow> bool" where
  "ready Stk Pool n f \<longleftrightarrow> file_ok f \<and> grouped (entries f) \<and> fresh n f \<and> pool_ok Pool \<and>
     Pool n \<noteq> None \<and> Pool (Suc n) \<noteq> None \<and> stack_ok Stk"

definition seen :: "(EFI_STATUS \<times> u16 list option \<times> u32) option \<Rightarrow> (EFI_STATUS \<times> u16 list option \<times> u32) option" where
  "seen r = map_option (\<lambda>(st, str, m). (st, Option.bind str cstr, m)) r"

text \<open>The answer to a look-up, given the value or its absence.\<close>

definition answer :: "u8 list option \<Rightarrow> u32 \<Rightarrow> EFI_STATUS \<times> u16 list option \<times> u32" where
  "answer r m = (case r of
     None \<Rightarrow> (EFI_NOT_FOUND, Some [], m)
   | Some v \<Rightarrow>
       if length v < unat m then (EFI_SUCCESS, Some (widen v), m)
       else (EFI_BUFFER_TOO_SMALL, Some (widen (take (unat m - 1) v)), of_nat (length v + 1)))"

lemma get_answer:
  assumes "file_ok f" "stack_ok Stk" "key_args Section Entry s e" "0 < unat m" "101 \<le> length Str"
  shows "seen (EfiIniGetString Stk f (Some Section) (Some Entry) (Some Str) m) =
    Some (answer (a_get s e (entries f)) m)"
proof -
  obtain S where S: "cstr Section = Some S" "length S \<le> 100" "name_of S = s"
    using assms(3) by (auto simp: key_args_def elim: arg_nameE)
  obtain E where E: "cstr Entry = Some E" "length E \<le> 100" "name_of E = e"
    using assms(3) by (auto simp: key_args_def elim: arg_nameE)
  have ne: "name_of S \<noteq> []" "name_of E \<noteq> []" using assms(3) S E by (auto simp: key_args_def)
  show ?thesis
    using EfiIniGetString_entries [OF assms(1) S(1,2) E(1,2) ne assms(2,4,5)]
    unfolding S(3) E(3)
    by (auto simp: seen_def answer_def cstr_Cons split: option.splits if_splits)
qed

lemma set_result:
  assumes "ready Stk Pool n f" "set_args Section Entry String s e v"
  shows "\<exists>f'. EfiIniSetString Stk Pool n f (Some Section) (Some Entry) (Some String) =
      Some (EFI_SUCCESS, f') \<and> file_ok f' \<and> fresh (n + 2) f' \<and> grouped (entries f') \<and>
    entries f' = a_set s e v (entries f)"
proof -
  have k: "arg_name Section = Some s" "arg_name Entry = Some e" "arg_name String = Some v"
    "s \<noteq> []" "e \<noteq> []" "length s < 100" "length e < 100" "length v < 100"
    using assms(2) by (simp_all add: set_args_def key_args_def)
  obtain S where S: "cstr Section = Some S" "length S \<le> 100" "name_of S = s" using k(1) by (rule arg_nameE)
  obtain E where E: "cstr Entry = Some E" "length E \<le> 100" "name_of E = e" using k(2) by (rule arg_nameE)
  obtain V where V: "cstr String = Some V" "length V \<le> 100" "name_of V = v" using k(3) by (rule arg_nameE)
  have r: "file_ok f" "fresh n f" "pool_ok Pool" "Pool n \<noteq> None" "Pool (Suc n) \<noteq> None" "stack_ok Stk"
    "grouped (entries f)" using assms(1) by (simp_all add: ready_def)
  have ne: "name_of S \<noteq> []" "name_of E \<noteq> []"
    and len: "length (name_of S) < 100" "length (name_of E) < 100" "length (name_of V) < 100"
    using k S(3) E(3) V(3) by simp_all
  show ?thesis
    using EfiIniSetString_entries [OF r(1-6) S(1,2) E(1,2) V(1,2) ne len] k(5)
      grouped_a_set [OF _ r(7), of e s v] S(3) E(3) V(3) by auto
qed

text \<open>A file, a stack and a pool for the concrete instances.\<close>

definition demo_stack :: stack where "demo_stack v = replicate 101 204"
definition demo_pool :: pool where
  "demo_pool n = Some \<lparr>commentNo = 0, ptrSection = replicate 101 175,
     ptrEntry = replicate 101 175, ptrValue = replicate 101 175\<rparr>"

lemma demo_ready: "ready demo_stack demo_pool 0 (initFile :: unit EFI_INI_FILE)"
  by (simp add: ready_def file_ok_def chain_ok_def initFile_def entries_def grouped_def fresh_def
      pool_ok_def demo_pool_def stack_ok_def demo_stack_def MAX_STRING_LEN_def)

section \<open>Properties of the INI file operations\<close>

text \<open>C15: What \<open>EfiIniSetString\<close> stored, \<open>EfiIniGetString\<close> returns: after a successful set, a
  look-up of the same section and entry (names compared without case) finds a value equal to
  the one set up to case, delivered whole or cut to the caller's buffer.\<close>

theorem ini_set_then_get:
  assumes "ready Stk Pool n f" "set_args Section Entry String s e v"
    and "key_args Section' Entry' s' e'" "up s' = up s" "up e' = up e"
    and "0 < unat m" "101 \<le> length Str"
  shows "\<exists>f' w. EfiIniSetString Stk Pool n f (Some Section) (Some Entry) (Some String) =
      Some (EFI_SUCCESS, f') \<and> up w = up v \<and>
    seen (EfiIniGetString Stk f' (Some Section') (Some Entry') (Some Str) m) = Some (answer (Some w) m)"
proof -
  obtain f' where f': "EfiIniSetString Stk Pool n f (Some Section) (Some Entry) (Some String) =
      Some (EFI_SUCCESS, f')" "file_ok f'" "entries f' = a_set s e v (entries f)"
    using set_result [OF assms(1,2)] by blast
  have "e \<noteq> []" using assms(2) by (simp add: set_args_def key_args_def)
  then obtain w where w: "a_get s' e' (entries f') = Some w" "up w = up v"
    using a_get_set [of e s s' e' v "entries f"] assms(4,5) f'(3) by auto
  have "stack_ok Stk" using assms(1) by (simp add: ready_def)
  from get_answer [OF f'(2) this assms(3,6,7)] show ?thesis using f'(1) w by auto
qed

lemma ini_set_then_get_witness:
  "\<exists>f' w. EfiIniSetString demo_stack demo_pool 0 (initFile :: unit EFI_INI_FILE)
      (Some [83, 0]) (Some [32, 101, 0]) (Some [118, 49, 32, 0]) = Some (EFI_SUCCESS, f') \<and>
    up w = up [118, 49] \<and>
    seen (EfiIniGetString demo_stack f' (Some [115, 32, 0]) (Some [69, 0]) (Some (replicate 101 7)) 2) =
      Some (answer (Some w) 2)"
  by (rule ini_set_then_get [OF demo_ready, of _ _ _ "[83]" "[101]" _ _ _ "[115]" "[69]"])
    (simp_all add: set_args_def key_args_def arg_name_def name_of_def low_bytes_def trim_def
      trimmed_def up_def AsciiToUpper_def)

text \<open>C16: Setting a value leaves every other name alone: a look-up of another section or entry
  returns after the set what it returned before it.\<close>

theorem ini_set_frame:
  assumes "ready Stk Pool n f" "set_args Section Entry String s e v"
    and "key_args Section' Entry' s' e'" "\<not> (up s' = up s \<and> up e' = up e)"
    and "0 < unat m" "101 \<le> length Str"
  shows "\<exists>f'. EfiIniSetString Stk Pool n f (Some Section) (Some Entry) (Some String) =
      Some (EFI_SUCCESS, f') \<and>
    seen (EfiIniGetString Stk f' (Some Section') (Some Entry') (Some Str) m) =
      seen (EfiIniGetString Stk f (Some Section') (Some Entry') (Some Str) m)"
proof -
  obtain f' where f': "EfiIniSetString Stk Pool n f (Some Section) (Some Entry) (Some String) =
      Some (EFI_SUCCESS, f')" "file_ok f'" "entries f' = a_set s e v (entries f)"
    using set_result [OF assms(1,2)] by blast
  have "e' \<noteq> []" using assms(3) by (simp add: key_args_def)
  then have "a_get s' e' (entries f') = a_get s' e' (entries f)"
    using a_get_set_other [of e' s s' e v "entries f"] assms(4) f'(3) by auto
  moreover have oks: "stack_ok Stk" "file_ok f" using assms(1) by (simp_all add: ready_def)
  ultimately show ?thesis
    using f'(1) get_answer [OF f'(2) oks(1) assms(3,5,6)] get_answer [OF oks(2,1) assms(3,5,6)] by auto
qed

lemma ini_set_frame_witness:
  "\<exists>f'. EfiIniSetString demo_stack demo_pool 0 (initFile :: unit EFI_INI_FILE)
      (Some [83, 0]) (Some [101, 0]) (Some [118, 0]) = Some (EFI_SUCCESS, f') \<and>
    seen (EfiIniGetString demo_stack f' (Some [83, 0]) (Some [102, 0]) (Some (replicate 101 7)) 9) =
      seen (EfiIniGetString demo_stack (initFile :: unit EFI_INI_FILE) (Some [83, 0]) (Some [102, 0]) (Some (replicate 101 7)) 9)"
  by (rule ini_set_frame [OF demo_ready, of _ _ _ "[83]" "[101]" "[118]" _ _ "[83]" "[102]"])
    (simp_all add: set_args_def key_args_def arg_name_def name_of_def low_bytes_def trim_def
      trimmed_def up_def AsciiToUpper_def)

text \<open>C27: \<open>EfiIniSetString\<close> refines the abstract update of the list of entries (the first
  record of the name is updated, else a record is added behind the last one of its section,
  else a new section is appended), and it keeps the chain well formed: records terminated,
  addresses distinct, \<open>Tail\<close> the last record, every record behind the head of its section.\<close>

theorem ini_set_refines:
  assumes "ready Stk Pool n f" "set_args Section Entry String s e v"
  shows "\<exists>f'. EfiIniSetString Stk Pool n f (Some Section) (Some Entry) (Some String) =
      Some (EFI_SUCCESS, f') \<and> entries f' = a_set s e v (entries f) \<and>
    file_ok f' \<and> grouped (entries f') \<and> fresh (n + 2) f'"
  using set_result [OF assms] by blast

lemma ini_set_refines_witness:
  "\<exists>f'. EfiIniSetString demo_stack demo_pool 0 (initFile :: unit EFI_INI_FILE)
      (Some [83, 0]) (Some [101, 0]) (Some [118, 0]) = Some (EFI_SUCCESS, f') \<and>
    entries f' = a_set [83] [101] [118] (entries (initFile :: unit EFI_INI_FILE)) \<and>
    file_ok f' \<and> grouped (entries f') \<and> fresh (0 + 2) f'"
  by (rule ini_set_refines [OF demo_ready])
    (simp add: set_args_def key_args_def arg_name_def name_of_def low_bytes_def trim_def trimmed_def)

text \<open>C28: \<open>EfiIniGetString\<close> returns the value of the first record whose section and entry match
  without case: whole when it fits, else its first \<open>maxLength - 1\<close> characters with the length
  needed, and \<open>EFI_NOT_FOUND\<close> with an empty string when there is no such record.\<close>

theorem ini_get_correct:
  assumes "file_ok f" "stack_ok Stk" "key_args Section Entry s e" "0 < unat m" "101 \<le> length Str"
  shows "seen (EfiIniGetString Stk f (Some Section) (Some Entry) (Some Str) m) =
    Some (answer (a_get s e (entries f)) m)"
  by (rule get_answer [OF assms])

lemma ini_get_correct_witness:
  "seen (EfiIniGetString demo_stack (initFile :: unit EFI_INI_FILE) (Some [83, 0]) (Some [101, 0])
     (Some (replicate 101 7)) 5) = Some (answer (a_get [83] [101] (entries (initFile :: unit EFI_INI_FILE))) 5)"
  by (rule ini_get_correct)
    (use demo_ready in \<open>simp_all add: ready_def key_args_def arg_name_def name_of_def
      low_bytes_def trim_def trimmed_def\<close>)

text \<open>C29: \<open>EfiIniRmSection\<close> removes exactly the records of the section, with the comments tied
  to them, keeps the chain and the sections well formed, and answers \<open>EFI_NOT_FOUND\<close> only when
  nothing was removed and the file was not modified before.\<close>

theorem ini_rm_section_correct:
  assumes "file_ok f" "grouped (entries f)" "stack_ok Stk" "arg_name Section = Some s"
  shows "\<exists>f'. EfiIniRmSection Stk f (Some Section) =
      Some (if Modified f \<or> (\<exists>x\<in>set (entries f). in_section s x) then EFI_SUCCESS
            else EFI_NOT_FOUND, f') \<and>
    file_ok f' \<and> grouped (entries f') \<and> entries f' = a_rm s (entries f) \<and>
    (\<forall>s' e. a_get s' e (entries f') = (if up s = up s' then None else a_get s' e (entries f))) \<and>
    CommentLines f' = filter (\<lambda>c. \<not> (\<exists>x\<in>set (Items f).
      in_section s (view x) \<and> cmtNo c = commentNo (snd x))) (CommentLines f)"
proof -
  obtain S where S: "cstr Section = Some S" "length S \<le> 100" "name_of S = s"
    using assms(4) by (rule arg_nameE)
  show ?thesis
    using EfiIniRmSection_entries [OF assms(1,3) S(1,2)] grouped_a_rm [OF assms(2), of s] S(3)
    by (auto simp: list_ex_iff a_get_rm intro!: exI)
qed

definition demo_field :: "u8 list \<Rightarrow> u8 list" where
  "demo_field s = s @ replicate (101 - length s) 0"

definition demo_item :: "nat \<Rightarrow> u32 \<Rightarrow> u8 list \<Rightarrow> u8 list \<Rightarrow> u8 list \<Rightarrow> item" where
  "demo_item a n s e v = (a, \<lparr>commentNo = n, ptrSection = demo_field s, ptrEntry = demo_field e,
     ptrValue = demo_field v\<rparr>)"

text \<open>Two sections named \<open>S\<close> with one entry \<open>e\<close> each, after a comment.\<close>

definition demo_file :: "unit EFI_INI_FILE" where
  "demo_file = initFile\<lparr>Items := [demo_item 0 1 [83] [] [], demo_item 1 2 [83] [101] [49],
       demo_item 2 3 [115] [] [], demo_item 3 4 [115] [101] [50]], Tail := Some 3,
     CommentLines := [\<lparr>cmtNo = 1, ptrComment = [35, 0]\<rparr>]\<rparr>"

lemma demo_field_ok: "length s \<le> 100 \<Longrightarrow> 0 \<notin> set s \<Longrightarrow> field_ok (demo_field s) \<and> text_of (demo_field s) = s"
proof -
  assume s: "length s \<le> 100" "0 \<notin> set s"
  then obtain k where "101 - length s = Suc k" by (metis Suc_diff_le add.commute numeral_plus_one
        plus_1_eq_Suc semiring_norm(2) semiring_norm(4) semiring_norm(5))
  then have "cstr (demo_field s) = Some s" using s by (simp add: demo_field_def)
  then show ?thesis using s text_of_cstr by (auto simp: field_ok_def MAX_STRING_LEN_def demo_field_def)
qed

lemma demo_entries:
  "entries demo_file = [([83], [], []), ([83], [101], [49]), ([115], [], []), ([115], [101], [50])]"
  by (simp add: entries_def demo_file_def demo_item_def view_def demo_field_ok)

lemma demo_file_ok: "file_ok demo_file" "grouped (entries demo_file)" "fresh 4 demo_file" "stack_ok demo_stack"
proof -
  show "file_ok demo_file"
    by (simp add: file_ok_def chain_ok_def demo_file_def demo_item_def item_ok_def demo_field_ok)
  show "grouped (entries demo_file)"
    unfolding demo_entries by (simp add: grouped_def up_def AsciiToUpper_def)
  show "fresh 4 demo_file" by (simp add: fresh_def demo_file_def demo_item_def)
  show "stack_ok demo_stack" using demo_ready by (simp add: ready_def)
qed

text \<open>\<open>EfiIniGetStringByOrder\<close> answers from the section that has the given order among the
  sections of the name, and from that section only.\<close>

theorem ini_get_by_order_correct:
  assumes "file_ok f" "stack_ok Stk" "key_args Section Entry s e" "0 < unat m" "101 \<le> length Str"
  shows "seen (EfiIniGetStringByOrder Stk f Order (Some Section) (Some Entry) (Some Str) m) =
    Some (answer (Option.bind (nth_match (of_section s) (unat Order) (sections (entries f)))
      (\<lambda>g. a_get s e (tl g))) m)"
proof -
  obtain S where S: "cstr Section = Some S" "length S \<le> 100" "name_of S = s"
    using assms(3) by (auto simp: key_args_def elim: arg_nameE)
  obtain E where E: "cstr Entry = Some E" "length E \<le> 100" "name_of E = e"
    using assms(3) by (auto simp: key_args_def elim: arg_nameE)
  have ne: "name_of S \<noteq> []" "name_of E \<noteq> []" using assms(3) S E by (auto simp: key_args_def)
  show ?thesis
    using EfiIniGetStringByOrder_entries [OF assms(1) S(1,2) E(1,2) ne assms(2,4,5), of Order]
    unfolding S(3) E(3)
    by (auto simp: seen_def answer_def cstr_Cons split: option.splits if_splits)
qed

lemma ini_get_by_order_correct_witness:
  "seen (EfiIniGetStringByOrder demo_stack demo_file 1 (Some [83, 0]) (Some [101, 0])
     (Some (replicate 101 7)) 5) = Some (EFI_SUCCESS, Some [50], 5)"
proof -
  have a: "key_args [83, 0] [101, 0] [83] [101]"
    by (simp add: key_args_def arg_name_def name_of_def low_bytes_def trim_def trimmed_def)
  have "sections (entries demo_file) =
      [[([83], [], []), ([83], [101], [49])], [([115], [], []), ([115], [101], [50])]]"
    unfolding demo_entries by (simp add: is_head_def)
  then show ?thesis
    using ini_get_by_order_correct [OF demo_file_ok(1,4) a, of 5 "replicate 101 7" 1]
    by (simp add: of_section_def in_section_def up_def AsciiToUpper_def hits_def answer_def widen_def)
qed

text \<open>C30: \<open>EfiIniSetStringByOrder\<close> changes only the section of the given order: it updates the
  entry there, or adds it as the last record of that section; when there is no such section
  it appends a new one. The chain and the sections stay well formed.\<close>

theorem ini_set_by_order_refines:
  assumes "ready Stk Pool n f" "set_args Section Entry String s e v"
  shows "\<exists>f'. EfiIniSetStringByOrder Stk Pool n f Order (Some Section) (Some Entry) (Some String) =
      Some (EFI_SUCCESS, f') \<and> entries f' = a_set_nth (unat Order) s e v (entries f) \<and>
    file_ok f' \<and> grouped (entries f') \<and> fresh (n + 2) f'"
proof -
  have k: "arg_name Section = Some s" "arg_name Entry = Some e" "arg_name String = Some v"
    "s \<noteq> []" "e \<noteq> []" "length s < 100" "length e < 100" "length v < 100"
    using assms(2) by (simp_all add: set_args_def key_args_def)
  obtain S where S: "cstr Section = Some S" "length S \<le> 100" "name_of S = s" using k(1) by (rule arg_nameE)
  obtain E where E: "cstr Entry = Some E" "length E \<le> 100" "name_of E = e" using k(2) by (rule arg_nameE)
  obtain V where V: "cstr String = Some V" "length V \<le> 100" "name_of V = v" using k(3) by (rule arg_nameE)
  have r: "file_ok f" "fresh n f" "pool_ok Pool" "Pool n \<noteq> None" "Pool (Suc n) \<noteq> None" "stack_ok Stk"
    "grouped (entries f)" using assms(1) by (simp_all add: ready_def)
  have ne: "name_of S \<noteq> []" "name_of E \<noteq> []"
    and len: "length (name_of S) < 100" "length (name_of E) < 100" "length (name_of V) < 100"
    using k S(3) E(3) V(3) by simp_all
  show ?thesis
    using EfiIniSetStringByOrder_entries [OF r(1-6) S(1,2) E(1,2) V(1,2) ne len, of Order]
      grouped_a_set_nth [OF r(7) k(5), of "unat Order" s v] S(3) E(3) V(3) by auto
qed

lemma ini_set_by_order_refines_witness:
  "\<exists>f'. EfiIniSetStringByOrder demo_stack demo_pool 4 demo_file 1 (Some [83, 0]) (Some [102, 0])
      (Some [51, 0]) = Some (EFI_SUCCESS, f') \<and>
    entries f' = a_set_nth (unat (1 :: u32)) [83] [102] [51] (entries demo_file) \<and>
    file_ok f' \<and> grouped (entries f') \<and> fresh (4 + 2) f'"
proof (rule ini_set_by_order_refines)
  show "ready demo_stack demo_pool 4 demo_file"
    using demo_file_ok demo_ready by (simp add: ready_def demo_pool_def)
qed (simp add: set_args_def key_args_def arg_name_def name_of_def low_bytes_def trim_def trimmed_def)

text \<open>\<open>EfiIniRmSectionByOrder\<close> removes the section of the given order and no other, so the
  later sections of the name move up by one; it fails with \<open>EFI_NOT_FOUND\<close>, leaving the list
  as it is, exactly when the order is not below the number of sections of the name.\<close>

theorem ini_rm_by_order_correct:
  assumes "file_ok f" "grouped (entries f)" "stack_ok Stk" "arg_name Section = Some s"
  shows "\<exists>f'. EfiIniRmSectionByOrder Stk f Order (Some Section) =
      Some (if unat Order < length (filter (of_section s) (sections (entries f)))
            then EFI_SUCCESS else EFI_NOT_FOUND, f') \<and>
    file_ok f' \<and> grouped (entries f') \<and>
    sections (entries f') = drop_nth_match (of_section s) (unat Order) (sections (entries f)) \<and>
    (\<forall>j. nth_match (of_section s) j (sections (entries f')) =
      nth_match (of_section s) (if j < unat Order then j else Suc j) (sections (entries f)))"
proof -
  obtain S where S: "cstr Section = Some S" "length S \<le> 100" "name_of S = s"
    using assms(4) by (rule arg_nameE)
  obtain f' where f': "EfiIniRmSectionByOrder Stk f Order (Some Section) =
      Some (if nth_match (of_section s) (unat Order) (sections (entries f)) = None
            then EFI_NOT_FOUND else EFI_SUCCESS, f')" "file_ok f'"
      "entries f' = a_rm_nth (unat Order) s (entries f)"
    using EfiIniRmSectionByOrder_entries [OF assms(1,3) S(1,2), of Order] S(3) by blast
  have "sections (entries f') = drop_nth_match (of_section s) (unat Order) (sections (entries f))"
    using sections_a_rm_nth [OF assms(2)] f'(3) by simp
  moreover have "(if nth_match (of_section s) (unat Order) (sections (entries f)) = None
      then EFI_NOT_FOUND else EFI_SUCCESS) =
    (if unat Order < length (filter (of_section s) (sections (entries f)))
      then EFI_SUCCESS else EFI_NOT_FOUND)"
    by (simp add: nth_match_filter)
  moreover have "grouped (entries f')" using grouped_a_rm_nth [OF assms(2)] f'(3) by simp
  ultimately show ?thesis using f'(1,2) by (intro exI [of _ f']) (simp add: nth_match_drop)
qed

lemma ini_rm_by_order_correct_witness:
  "\<exists>f'. EfiIniRmSectionByOrder demo_stack demo_file 1 (Some [83, 0]) =
      Some (if unat (1 :: u32) < length (filter (of_section [83]) (sections (entries demo_file)))
            then EFI_SUCCESS else EFI_NOT_FOUND, f') \<and>
    file_ok f' \<and> grouped (entries f') \<and>
    sections (entries f') = drop_nth_match (of_section [83]) (unat (1 :: u32)) (sections (entries demo_file)) \<and>
    (\<forall>j. nth_match (of_section [83]) j (sections (entries f')) =
      nth_match (of_section [83]) (if j < unat (1 :: u32) then j else Suc j) (sections (entries demo_file)))"
  by (rule ini_rm_by_order_correct [OF demo_file_ok(1,2,4)])
    (simp add: arg_name_def name_of_def low_bytes_def trim_def trimmed_def)

text \<open>\<open>EfiIniGetOrderNum\<close> counts the sections of the name (modulo \<open>2 ^ 32\<close>), and the orders
  below the count are exactly those that have a section.\<close>

theorem ini_order_num_correct:
  assumes "file_ok f" "stack_ok Stk" "arg_name Section = Some s"
    and "length (sections (entries f)) < 2 ^ 32"
  shows "\<exists>num. EfiIniGetOrderNum Stk f (Some Section) (Some n) = Some (EFI_SUCCESS, Some num) \<and>
    (\<forall>k. k < unat num \<longleftrightarrow> nth_match (of_section s) k (sections (entries f)) \<noteq> None)"
proof -
  obtain S where S: "cstr Section = Some S" "length S \<le> 100" "name_of S = s"
    using assms(3) by (rule arg_nameE)
  let ?c = "length (filter (of_section s) (sections (entries f)))"
  have "?c < 2 ^ 32" using assms(4) length_filter_le [of "of_section s" "sections (entries f)"] by linarith
  then have "unat (of_nat ?c :: u32) = ?c" by (simp add: unat_of_nat take_bit_nat_eq_self)
  then show ?thesis
    using EfiIniGetOrderNum_entries [OF assms(1,2) S(1,2), of n] S(3) by (simp add: nth_match_filter)
qed

lemma ini_order_num_correct_witness:
  "\<exists>num. EfiIniGetOrderNum demo_stack demo_file (Some [115, 0]) (Some 0) = Some (EFI_SUCCESS, Some num) \<and>
    (\<forall>k. k < unat num \<longleftrightarrow> nth_match (of_section [115]) k (sections (entries demo_file)) \<noteq> None)"
  by (rule ini_order_num_correct [OF demo_file_ok(1,4)])
    (simp_all add: arg_name_def name_of_def low_bytes_def trim_def trimmed_def demo_entries is_head_def)

lemma ini_rm_section_correct_witness:
  "\<exists>f'. EfiIniRmSection demo_stack demo_file (Some [83, 0]) =
      Some (if Modified demo_file \<or> (\<exists>x\<in>set (entries demo_file). in_section [83] x) then EFI_SUCCESS
            else EFI_NOT_FOUND, f') \<and>
    file_ok f' \<and> grouped (entries f') \<and> entries f' = a_rm [83] (entries demo_file) \<and>
    (\<forall>s' e. a_get s' e (entries f') = (if up [83] = up s' then None else a_get s' e (entries demo_file))) \<and>
    CommentLines f' = filter (\<lambda>c. \<not> (\<exists>x\<in>set (Items demo_file).
      in_section [83] (view x) \<and> cmtNo c = commentNo (snd x))) (CommentLines demo_file)"
  by (rule ini_rm_section_correct [OF demo_file_ok(1,2,4)])
    (simp add: arg_name_def name_of_def low_bytes_def trim_def trimmed_def)

section \<open>Properties of the INI files on disk\<close>

definition demo_fw :: "unit firmware" where
  "demo_fw = \<lparr>AllocIni = True, NamePool = (\<lambda>n. Some (replicate (n div 2) 0)), DupPath = Some,
     LocateDevicePath = EFI_SUCCESS, HandleProtocol = EFI_SUCCESS, OpenVolume = EFI_SUCCESS,
     FOpen = (\<lambda>k. EFI_SUCCESS), FDelete = EFI_SUCCESS, FWrite = (\<lambda>k n. (EFI_SUCCESS, n)),
     InfoPool = True, FGetInfo = EFI_SUCCESS, AllocPages = EFI_SUCCESS, FRead = (EFI_SUCCESS, 0),
     PageData = []\<rparr>"

definition demo_out :: out where
  "demo_out = \<lparr>oBuffer = replicate 5120 204, oUnicode = replicate 10240 0xCCCC,
     oLine = replicate 1024 204, oSize = 204, oNo = 9, oFirst = False, oTrace = [], oWrites = 7\<rparr>"

definition demo_cpool :: cpool where
  "demo_cpool n = Some \<lparr>cmtNo = 0, ptrComment = replicate 512 175\<rparr>"

lemma demo_io:
  "all_good demo_fw" "open_ok demo_fw () [70, 0]" "out_ok demo_out" "pools_ok demo_pool demo_cpool"
  "\<forall>k :: nat. stack_ok demo_stack"
  using demo_ready
  by (auto simp: all_good_def demo_fw_def volume_status_def open_ok_def cstr_Cons out_ok_def demo_out_def
      MAX_LINE_LEN_def MAX_STRING_LEN_def pools_ok_def demo_pool_def demo_cpool_def pool_ok_def ready_def)

text \<open>The file of the examples above, as a Unicode file with one comment, to be written.\<close>

definition demo_saved :: "unit EFI_INI_FILE" where
  "demo_saved = demo_file\<lparr>CommentLines := [\<lparr>cmtNo = 1, ptrComment = [35, 99] @ replicate 510 0\<rparr>],
     isUnicode := True, Modified := True\<rparr>"

lemma demo_attached:
  "attached demo_saved = [([[35, 99]], [83], [], []), ([], [83], [101], [49]), ([], [115], [], []),
     ([], [115], [101], [50])]"
proof -
  have "text_of (35 # 99 # replicate 510 0) = [35, 99]" by (simp add: text_of_def)
  then show ?thesis
    by (simp add: attached_def demo_saved_def demo_file_def demo_item_def remarks_for_def view_def demo_field_ok)
qed

lemma demo_trailing: "trailing demo_saved = []"
  by (simp add: trailing_def demo_saved_def demo_file_def demo_item_def last_no_def remarks_for_def
      word_le_nat_alt)

lemma demo_saved_ok: "flushable demo_saved" "Modified demo_saved" "survives demo_saved"
  "grouped (entries demo_saved)" "stack_ok demo_stack"
proof -
  have b: "file_blocks demo_saved = [[35, 99, 13, 10, 91, 83, 93, 13, 10, 101, 61, 49, 13, 10],
      [13, 10, 91, 115, 93, 13, 10, 101, 61, 50, 13, 10]]"
    by (simp add: file_blocks_def demo_attached item_text_def entry_line_def)
  have "file_ok demo_saved" using demo_file_ok(1) by (simp add: demo_saved_def file_ok_def)
  moreover have "comments_ok demo_saved"
    by (simp add: comments_ok_def demo_saved_def MAX_LINE_LEN_def cstr_def)
  ultimately show "flushable demo_saved"
    using b demo_trailing
    by (simp add: flushable_def fits_def MAX_LINE_LEN_def MAX_STRING_LEN_def)
      (simp add: demo_saved_def demo_file_def demo_item_def demo_field_ok)
  show "Modified demo_saved" by (simp add: demo_saved_def)
  show "survives demo_saved"
    using demo_trailing
    by (simp add: survives_def demo_attached clean_item_def clean_remark_def clean_entry_def clean_def
        trim_def trimmed_def MAX_LINE_LEN_def MAX_STRING_LEN_def) (simp add: demo_saved_def demo_file_def)
  show "grouped (entries demo_saved)" using demo_file_ok(2) by (simp add: demo_saved_def entries_def)
  show "stack_ok demo_stack" by (rule demo_file_ok(4))
qed

text \<open>C4: A modified Unicode file with clean texts that is flushed and opened again answers every look-up as
  before, on a firmware that does what it is asked and with memory for its records. The records come back with their comments, in
  their order, under the section head they stood behind; of the comments behind the last record the
  first one is lost, because the NUL written behind the last section hides it. Clean means: the
  first record is a section head, and every entry stands behind the head of its section; names and
  values are trimmed, shorter than 100 and without NUL and line feed; a section name is not empty
  and has no closing bracket, an entry name no equals sign and no leading
  \<open>#\<close>, a value no \<open>#\<close>, and no entry reads as a section head; comments begin with \<open>#\<close>, are
  trimmed and shorter than 509; there are fewer than 2^32 - 1 records; and every section fits the buffer of 5120 bytes. Values with a \<open>#\<close>, which \<open>EfiIniSetString\<close> stores, come
  back cut at it, and a file that is not Unicode is written with an uninitialised size: both are excluded.\<close>

theorem ini_flush_open_lookup:
  assumes "all_good fw" "open_ok fw p name" "flushable f" "Modified f" "survives f"
    and "grouped (entries f)" "out_ok Out" "pools_ok Pool CPool" "\<forall>k. stack_ok (Stk k)"
    and "length line = MAX_LINE_LEN" "length sect = 101" "stack_ok Stk'"
    and "key_args Section Entry s e" "0 < unat m" "101 \<le> length Str"
  shows "\<exists>f1 tr f2 tr2. EfiIniFlush fw Out f = Some (EFI_SUCCESS, f1, tr) \<and>
    AtslEfiIniOpen (disk fw (contents old tr)) Stk Pool CPool n line sect (Some p) (Some name) True =
      Some (EFI_SUCCESS, Some f2, tr2) \<and>
    seen (EfiIniGetString Stk' f2 (Some Section) (Some Entry) (Some Str) m) =
      seen (EfiIniGetString Stk' f (Some Section) (Some Entry) (Some Str) m) \<and>
    attached f2 = retitle [] (attached f) \<and>
    map snd (remarks f2) = concat (map fst (attached f)) @ tl (trailing f)"
proof -
  obtain f1 tr f2 tr2 where r: "EfiIniFlush fw Out f = Some (EFI_SUCCESS, f1, tr)"
    "AtslEfiIniOpen (disk fw (contents old tr)) Stk Pool CPool n line sect (Some p) (Some name) True =
      Some (EFI_SUCCESS, Some f2, tr2)" "file_ok f2" "attached f2 = retitle [] (attached f)"
    "map snd (remarks f2) = concat (map fst (attached f)) @ tl (trailing f)"
    using flush_then_open [OF assms(1-5,7-11)] by blast
  have "file_ok f" using assms(3) by (simp add: flushable_def)
  then show ?thesis
    using r get_answer [OF r(3) assms(12-15)] get_answer [OF _ assms(12-15), of f]
      a_get_flush_open [OF r(4) assms(6)] by auto
qed

lemma ini_flush_open_lookup_witness:
  "\<exists>f1 tr f2 tr2. EfiIniFlush demo_fw demo_out demo_saved = Some (EFI_SUCCESS, f1, tr) \<and>
    AtslEfiIniOpen (disk demo_fw (contents [] tr)) (\<lambda>k. demo_stack) demo_pool demo_cpool 0
        (replicate 512 204) (replicate 101 204) (Some ()) (Some [70, 0]) True =
      Some (EFI_SUCCESS, Some f2, tr2) \<and>
    seen (EfiIniGetString demo_stack f2 (Some [83, 0]) (Some [69, 0]) (Some (replicate 101 7)) 9) =
      seen (EfiIniGetString demo_stack demo_saved (Some [83, 0]) (Some [69, 0]) (Some (replicate 101 7)) 9) \<and>
    attached f2 = retitle [] (attached demo_saved) \<and>
    map snd (remarks f2) = concat (map fst (attached demo_saved)) @ tl (trailing demo_saved)"
  by (rule ini_flush_open_lookup [OF demo_io(1,2) demo_saved_ok(1-4) demo_io(3,4) demo_io(5) _ _ demo_saved_ok(5),
        where s = "[83]" and e = "[69]"])
    (simp_all add: MAX_LINE_LEN_def key_args_def arg_name_def name_of_def low_bytes_def trim_def trimmed_def)

text \<open>C5: \<open>AtslEfiIniOpen\<close> reads the file as the grammar of its lines says: section heads, entries
  and comments with their numbers, blanks and all other lines ignored, values cut at a \<open>#\<close>,
  the low bytes only of a Unicode file. The result is a well-formed, unmodified file in which
  every entry stands behind the head of its section.\<close>

theorem ini_open_parses:
  assumes "all_good fw" "open_ok fw p name" "pools_ok Pool CPool" "\<forall>k. stack_ok (Stk k)"
    and "length line = MAX_LINE_LEN" "length sect = 101"
    and "\<forall>l\<in>set (split_lines [] (profile_text data)). line_ok l"
  shows "\<exists>f tr k. AtslEfiIniOpen (disk fw data) Stk Pool CPool n line sect (Some p) (Some name) True =
      Some (EFI_SUCCESS, Some f, tr) \<and> file_ok f \<and> grouped (entries f) \<and> fresh k f \<and>
    numbered f = dItems (parse (profile_text data)) \<and> remarks f = dComments (parse (profile_text data)) \<and>
    isUnicode f = is_bom data (length data) \<and> \<not> Modified f"
  using open_spec [OF assms] grouped_parse entries_numbered by metis

text \<open>The text \<open># c\<close>, \<open>[S ]\<close>, \<open>a = 1 # x\<close>, \<open>junk\<close>, \<open>[]\<close>, \<open>= 2\<close> in lines of their own.\<close>

definition demo_profile :: "u8 list" where
  "demo_profile = [35, 32, 99, 13, 10, 91, 83, 32, 93, 10, 97, 32, 61, 32, 49, 32, 35, 32, 120, 10,
     106, 117, 110, 107, 10, 91, 93, 10, 61, 32, 50]"

lemma demo_parse:
  "dItems (parse demo_profile) = [(1, [83], [], []), (2, [83], [97], [49]),
     (3, UNKNOWN, [], []), (4, UNKNOWN, UNKNOWN, [50])]"
  "dComments (parse demo_profile) = [(1, [35, 32, 99])]"
  by (simp_all add: parse_def demo_profile_def start_def text_of_def classify_def trim_def trimmed_def
      before_def after_def nm_def UNKNOWN_def)

lemma ini_open_parses_witness:
  "\<exists>f tr k. AtslEfiIniOpen (disk demo_fw demo_profile) (\<lambda>k. demo_stack) demo_pool demo_cpool 0
        (replicate 512 204) (replicate 101 204) (Some ()) (Some [70, 0]) True =
      Some (EFI_SUCCESS, Some f, tr) \<and> file_ok f \<and> grouped (entries f) \<and> fresh k f \<and>
    numbered f = [(1, [83], [], []), (2, [83], [97], [49]), (3, UNKNOWN, [], []), (4, UNKNOWN, UNKNOWN, [50])] \<and>
    remarks f = [(1, [35, 32, 99])] \<and> \<not> isUnicode f \<and> \<not> Modified f"
proof -
  have p: "profile_text demo_profile = demo_profile" "\<not> is_bom demo_profile (length demo_profile)"
    by (simp_all add: profile_text_def is_bom_def demo_profile_def)
  have "\<forall>l\<in>set (split_lines [] demo_profile). line_ok l"
    by (simp add: demo_profile_def line_ok_def MAX_LINE_LEN_def MAX_STRING_LEN_def text_of_def classify_def
        trim_def trimmed_def before_def after_def nm_def UNKNOWN_def)
  then show ?thesis
    using ini_open_parses [OF demo_io(1,2) demo_io(4) demo_io(5), of "replicate 512 204" "replicate 101 204" demo_profile 0]
      p demo_parse by (simp add: MAX_LINE_LEN_def)
qed

text \<open>\<open>EfiIniFlush\<close> replaces the file by the byte order mark and the text of its sections, each
  section in one write: the comments with the number of a record, then its line, an empty line
  between two sections, and last the comments whose number is behind that of the last record
  with comments. It then clears the modified flag; an unmodified file it does not touch.\<close>

theorem ini_flush_data:
  assumes "all_good fw" "flushable f" "out_ok Out"
  shows "\<exists>tr. EfiIniFlush fw Out f = Some (EFI_SUCCESS, f\<lparr>Modified := False\<rparr>, tr) \<and>
    contents old tr = (if Modified f then concat (flush_data f) else old)"
proof (cases "Modified f")
  case True
  then show ?thesis using EfiIniFlush_data [OF assms(1,2) True assms(3)] by simp
next
  case False
  then show ?thesis by (simp add: EfiIniFlush_def)
qed

lemma ini_flush_data_witness:
  "\<exists>tr. EfiIniFlush demo_fw demo_out demo_saved = Some (EFI_SUCCESS, demo_saved\<lparr>Modified := False\<rparr>, tr) \<and>
    contents [1] tr = (if Modified demo_saved then concat (flush_data demo_saved) else [1])"
  by (rule ini_flush_data [OF demo_io(1) demo_saved_ok(1) demo_io(3)])

text \<open>C31: Whatever the firmware answers, \<open>AtslEfiIniOpen\<close> and \<open>AtslEfiIniCreate\<close> return an error and
  no file, or a file with its two names; and what they hold then is what the file owns, so that closing it
  releases all of it: its record, its names, and every INI record and comment that was allocated
  while it was read. There are two exceptions: \<open>AtslEfiIniOpen\<close> leaks the file information when \<open>GetInfo\<close>
  fails, and \<open>AtslEfiIniCreate\<close> leaks the handle of a file that exists already. (A call that
  leaves a buffer, as a line of more than 511 characters makes the reader do, is not covered.)\<close>

theorem ini_open_create_resources:
  shows "(case AtslEfiIniOpen fw Stk Pool CPool n line sect p name hh of
      None \<Rightarrow> True
    | Some (st, fo, tr) \<Rightarrow> (fo = None) = EFI_ERROR st \<and> run nothing tr = Some (case fo of
        None \<Rightarrow> if Acquire FileInfo \<in> set tr \<and> EFI_ERROR (FGetInfo fw) then nothing(FileInfo := 1) else nothing
      | Some f \<Rightarrow> owned f) \<and> (case fo of None \<Rightarrow> True | Some f \<Rightarrow> FileName f \<noteq> None \<and> DevPath f \<noteq> None)) \<and>
    (case AtslEfiIniCreate fw p name hh of
      None \<Rightarrow> True
    | Some (st, fo, tr) \<Rightarrow> (fo = None) = EFI_ERROR st \<and> run nothing tr = Some (case fo of
        None \<Rightarrow> if Acquire File \<in> set tr \<and> FOpen fw 0 \<noteq> EFI_NOT_FOUND then nothing(File := 1) else nothing
      | Some f \<Rightarrow> owned f) \<and> (case fo of None \<Rightarrow> True | Some f \<Rightarrow> FileName f \<noteq> None \<and> DevPath f \<noteq> None))"
proof -
  have "FileName f \<noteq> None \<and> DevPath f \<noteq> None" if "owned f = opened" for f :: "'a EFI_INI_FILE"
    using opened_names [OF that] .
  then show ?thesis
    using open_resources [of fw Stk Pool CPool n line sect p name hh] create_resources [of fw p name hh]
    by (auto split: option.splits prod.splits)
qed

text \<open>C32: Whatever the firmware answers, \<open>EfiIniFlush\<close> opens and closes every handle it uses, writes
  and deletes only through an open handle, and keeps what the file owns; \<open>AtslEfiIniClose\<close>
  releases all that the file owns, each record and comment once, and nothing else.\<close>

theorem ini_flush_close_resources:
  assumes "h File = 0" "h RootDir = 0"
  shows "(case EfiIniFlush fw Out f of
      None \<Rightarrow> True
    | Some (st, f', tr) \<Rightarrow> run h tr = Some h \<and> owned f' = owned f \<and> entries f' = entries f) \<and>
    (case AtslEfiIniClose fw Out f of
      None \<Rightarrow> True
    | Some (st, tr) \<Rightarrow> run (owned f) tr = Some nothing)"
proof -
  have e: "entries f' = entries f" if "Items f' = Items f" for f' :: "'a EFI_INI_FILE"
    using that by (simp add: entries_def)
  have "case EfiIniFlush fw Out f of
      None \<Rightarrow> True
    | Some (st, f', tr) \<Rightarrow> run h tr = Some h \<and> owned f' = owned f \<and> entries f' = entries f"
  proof (cases "EfiIniFlush fw Out f")
    case (Some r)
    obtain st f' tr where r: "r = (st, f', tr)" by (cases r)
    note q = EfiIniFlush_run [OF Some [unfolded r] assms]
    show ?thesis unfolding Some r using q(1,2) e [OF q(3)] by simp
  qed simp
  moreover have "case AtslEfiIniClose fw Out f of None \<Rightarrow> True | Some (st, tr) \<Rightarrow> run (owned f) tr = Some nothing"
    using AtslEfiIniClose_run [of fw Out f] by (auto split: option.splits)
  ultimately show ?thesis ..
qed

lemma ini_flush_close_resources_witness:
  "(case EfiIniFlush demo_fw demo_out demo_saved of
      None \<Rightarrow> True
    | Some (st, f', tr) \<Rightarrow> run nothing tr = Some nothing \<and> owned f' = owned demo_saved \<and>
        entries f' = entries demo_saved) \<and>
    (case AtslEfiIniClose demo_fw demo_out demo_saved of
      None \<Rightarrow> True
    | Some (st, tr) \<Rightarrow> run (owned demo_saved) tr = Some nothing)"
  by (rule ini_flush_close_resources) (simp_all add: nothing_def)

section \<open>Properties of the string library\<close>

text \<open>C33: The Knuth-Morris-Pratt search \<open>SctStrStr\<close> builds its failure table and searches
  without leaving a buffer, ends, and returns the position of the first occurrence of the
  pattern, plus one; or \<open>NULL\<close> exactly when the pattern does not occur.\<close>

theorem SctStrStr_first_occurrence:
  assumes "cstr Str = Some s" "cstr Pat = Some p" "s \<noteq> []" "p \<noteq> []" "length p \<le> length F"
  shows "SctStrStr Str Pat (Some F) = Some (map_option (\<lambda>q. int q + 1) (first_occ p s)) \<and>
    (\<forall>q. first_occ p s = Some q \<longleftrightarrow> occ p s q \<and> (\<forall>q'<q. \<not> occ p s q'))"
  using SctStrStr_cstr [OF assms] by (simp add: first_occ_Some)

lemma SctStrStr_first_occurrence_witness:
  "SctStrStr [97, 98, 97, 98, 99, 0] [97, 98, 99, 0] (Some [9, 9, 9]) = Some (Some 3)"
  using SctStrStr_first_occurrence [of "[97, 98, 97, 98, 99, 0]" "[97, 98, 97, 98, 99]"
      "[97, 98, 99, 0]" "[97, 98, 99]" "[9, 9, 9]"] by simp

text \<open>\<open>SctAsciiStrStr\<close> returns the first occurrence of the pattern, \<open>NULL\<close> exactly when
  there is none, and an empty pattern occurs at the start.\<close>

theorem SctAsciiStrStr_first_occurrence:
  assumes "cstr b = Some s" "cstr pb = Some p"
  shows "SctAsciiStrStr b pb = Some (first_occ p s)"
  unfolding SctAsciiStrStr_def
  by (rule SctAsciiStrStr_loop_spec [OF assms]) simp_all

lemma SctAsciiStrStr_first_occurrence_witness:
  "SctAsciiStrStr [97, 97, 98, 0] [97, 98, 0] = Some (Some 1)"
  using SctAsciiStrStr_first_occurrence [of "[97, 97, 98, 0]" "[97, 97, 98]" "[97, 98, 0]" "[97, 98]"]
  by simp

text \<open>C34: \<open>SctMetaMatch\<close> decides the language of a well-formed pattern: the string splits into
  one piece per token, where a star takes any piece, a question mark one character, and a
  bracketed set one character of its characters and ranges.\<close>

theorem SctMetaMatch_language:
  assumes "list_all tok_wf ts" "cstr S = Some s"
  shows "SctMetaMatch S (pat_text ts @ 0 # r) = Some (glob ts s)"
  by (rule SctMetaMatch_glob [OF assms])

lemma SctMetaMatch_language_witness:
  "SctMetaMatch [120, 98, 0] (pat_text [Star, Set [97, 45, 99]] @ 0 # []) =
    Some (glob [Star, Set [97, 45, 99]] [120, 98])"
  by (rule SctMetaMatch_language) simp_all

text \<open>\<open>SctStrCmp\<close> is zero exactly on equal strings and negative exactly when the first
  string precedes the second lexicographically.\<close>

theorem SctStrCmp_order:
  assumes "cstr b1 = Some s" "cstr b2 = Some t"
  shows "\<exists>r. SctStrCmp b1 b2 = Some r \<and> (r = 0 \<longleftrightarrow> s = t) \<and> (r < 0 \<longleftrightarrow> ord_class.lexordp s t)"
  by (rule SctStrCmp_cstr [OF assms])

lemma SctStrCmp_order_witness:
  "\<exists>r. SctStrCmp [97, 0] [97, 98, 0] = Some r \<and> (r = 0 \<longleftrightarrow> [97::u16] = [97, 98]) \<and>
    (r < 0 \<longleftrightarrow> ord_class.lexordp [97::u16] [97, 98])"
  by (rule SctStrCmp_order) simp_all

text \<open>\<open>SctAsciiStriCmp\<close> is zero exactly on strings that are equal without case.\<close>

theorem SctAsciiStriCmp_equal:
  assumes "cstr b1 = Some s" "cstr b2 = Some t"
  shows "SctAsciiStriCmp b1 b2 = Some 0 \<longleftrightarrow> map AsciiToUpper s = map AsciiToUpper t"
  using SctAsciiStriCmp_cstr [OF assms] by auto

lemma SctAsciiStriCmp_equal_witness: "SctAsciiStriCmp [97, 90, 0] [65, 122, 0] = Some 0"
  using SctAsciiStriCmp_equal [of "[97, 90, 0]" "[97, 90]" "[65, 122, 0]" "[65, 122]"]
  by (simp add: AsciiToUpper_def)

text \<open>\<open>SctStrTrim\<close> works in place, in bounds, and leaves the string without the character
  at its two ends; trimming again changes nothing.\<close>

theorem SctStrTrim_correct:
  assumes "cstr b = Some s"
  shows "\<exists>b'. SctStrTrim b c = Some b' \<and> length b' = length b \<and>
    (\<exists>t. cstr b' = Some t \<and> t = trimmed (\<lambda>x. x = c) (\<lambda>x. x = c) s \<and>
      (t \<noteq> [] \<longrightarrow> hd t \<noteq> c \<and> last t \<noteq> c) \<and>
      (\<exists>b''. SctStrTrim b' c = Some b'' \<and> cstr b'' = Some t))"
proof -
  let ?t = "trimmed (\<lambda>x. x = c) (\<lambda>x. x = c) s"
  obtain b' where b': "SctStrTrim b c = Some b'" "length b' = length b" "cstr b' = Some ?t"
    using SctStrTrim_cstr [OF assms] by blast
  obtain b'' where "SctStrTrim b' c = Some b''" "cstr b'' = Some ?t"
    using SctStrTrim_cstr [OF b'(3), of c] by (auto simp: trimmed_idem)
  then show ?thesis
    using b' trimmed_hd [of "\<lambda>x. x = c" "\<lambda>x. x = c" s] trimmed_last [of "\<lambda>x. x = c" "\<lambda>x. x = c" s]
    by blast
qed

lemma SctStrTrim_correct_witness:
  "\<exists>b'. SctStrTrim [32, 97, 32, 98, 32, 0] 32 = Some b' \<and>
    length b' = length [32::u16, 97, 32, 98, 32, 0] \<and>
    (\<exists>t. cstr b' = Some t \<and> t = trimmed (\<lambda>x. x = 32) (\<lambda>x. x = 32) [32, 97, 32, 98, 32] \<and>
      (t \<noteq> [] \<longrightarrow> hd t \<noteq> 32 \<and> last t \<noteq> 32) \<and>
      (\<exists>b''. SctStrTrim b' 32 = Some b'' \<and> cstr b'' = Some t))"
  by (rule SctStrTrim_correct) simp

text \<open>\<open>SctSplitStr\<close> cuts the string at the first separator: the token returned and the rest
  are the text before it and behind it, and the token has no separator.\<close>

theorem SctSplitStr_correct:
  assumes "cstr (drop i b) = Some u" "c \<noteq> 0"
  shows "\<exists>b' i'. SctSplitStr b i c = Some (i, b', i') \<and> length b' = length b \<and>
    (\<exists>tok rest. cstr (drop i b') = Some tok \<and> cstr (drop i' b') = Some rest \<and> c \<notin> set tok \<and>
      u = (if c \<in> set u then tok @ c # rest else tok) \<and> (c \<notin> set u \<longrightarrow> rest = []))"
proof -
  obtain b' i' where r: "SctSplitStr b i c = Some (i, b', i')" "length b' = length b"
    "cstr (drop i b') = Some (takeWhile (\<lambda>x. x \<noteq> c) u)"
    "cstr (drop i' b') = Some (drop (Suc (first_pos c u)) u)"
    using SctSplitStr_spec [OF assms] by blast
  define tok rest where "tok = takeWhile (\<lambda>x. x \<noteq> c) u" and "rest = drop (Suc (first_pos c u)) u"
  have "c \<notin> set tok" unfolding tok_def by (auto dest: set_takeWhileD)
  moreover have "u = tok @ c # rest" if "c \<in> set u"
    using that unfolding tok_def rest_def by (induction u) (auto simp: first_pos_def)
  moreover have "u = tok" "rest = []" if "c \<notin> set u"
    using that unfolding tok_def rest_def by (induction u) (auto simp: first_pos_def)
  ultimately show ?thesis
    using r unfolding tok_def [symmetric] rest_def [symmetric] by (metis (full_types))
qed

lemma SctSplitStr_correct_witness:
  "\<exists>b' i'. SctSplitStr [97, 46, 98, 0] 0 46 = Some (0, b', i') \<and>
    length b' = length [97::u16, 46, 98, 0] \<and>
    (\<exists>tok rest. cstr (drop 0 b') = Some tok \<and> cstr (drop i' b') = Some rest \<and> 46 \<notin> set tok \<and>
      [97, 46, 98] = (if 46 \<in> set [97::u16, 46, 98] then tok @ 46 # rest else tok) \<and>
      (46 \<notin> set [97::u16, 46, 98] \<longrightarrow> rest = []))"
  by (rule SctSplitStr_correct) simp_all

text \<open>Converting an ASCII string to Unicode and back gives the string: both loops stop at
  the terminator and stay inside buffers that hold it.\<close>

theorem unicode_ascii_roundtrip:
  assumes "cstr b = Some s" "length s < n" "length s < length w" "length s < length a"
  shows "\<exists>w' a' r r'. SctAsciiToUnicode (Some w) (Some b) n = Some (Some w', r) \<and>
    SctUnicodeToAscii (Some a) (Some w') n = Some (Some a', r') \<and> cstr a' = Some s"
proof -
  have nz: "0 \<notin> set s" using cstr_nz [OF assms(1)] .
  have c: "cstr (widen s @ 0 # drop (Suc (length s)) w) = Some (widen s)" using widen_nz [OF nz] by simp
  have l: "low_bytes (widen s) = s" by (rule low_bytes_widen [OF nz])
  show ?thesis
    using SctAsciiToUnicode_spec [OF assms(1,2,3)] SctUnicodeToAscii_spec [OF c, of n a] assms(2,4) nz
    unfolding l by auto
qed

lemma unicode_ascii_roundtrip_witness:
  "\<exists>w' a' r r'. SctAsciiToUnicode (Some [0, 0, 0]) (Some [200, 7, 0]) 3 = Some (Some w', r) \<and>
    SctUnicodeToAscii (Some [1, 1, 1]) (Some w') 3 = Some (Some a', r') \<and> cstr a' = Some [200, 7]"
  by (rule unicode_ascii_roundtrip) simp_all

text \<open>\<open>SctAsciiStrCat\<close> appends when and only when the result with its terminator fits into
  the destination; else it writes past the end.\<close>

theorem SctAsciiStrCat_fits:
  assumes "cstr dest = Some s" "cstr src = Some t"
  shows "SctAsciiStrCat dest src =
    (if length s + length t < length dest
     then Some (s @ t @ 0 # drop (Suc (length s + length t)) dest) else None)"
  by (rule SctAsciiStrCat_spec [OF assms])

lemma SctAsciiStrCat_fits_witness:
  "SctAsciiStrCat [97, 0, 5, 6] [98, 0] = Some [97, 98, 0, 6]"
  using SctAsciiStrCat_fits [of "[97, 0, 5, 6]" "[97]" "[98, 0]" "[98]"] by simp

text \<open>Printing a 64-bit value in hexadecimal and parsing the text gives the value back:
  \<open>SctValueToHexStr\<close> fits into 17 characters and \<open>SctXtoi\<close> inverts it.\<close>

theorem hex_value_roundtrip:
  assumes "17 \<le> length buf"
  shows "\<exists>buf'. SctValueToHexStr buf v = Some buf' \<and> SctXtoi buf' = Some v"
proof -
  obtain buf' s where b: "SctValueToHexStr buf v = Some buf'" "cstr buf' = Some s"
    "all_digits 16 s" "value_of 16 s = unat v"
    using SctValueToHexStr_spec [OF assms, of v] by blast
  have "SctXtoi buf' = Some (of_nat (unat v))"
    using SctXtoi_cstr [OF b(2)] xtoi_body_digits [OF b(3)] b(4) by simp
  then show ?thesis using b(1) by simp
qed

lemma hex_value_roundtrip_witness:
  "\<exists>buf'. SctValueToHexStr (replicate 17 0) 48879 = Some buf' \<and> SctXtoi buf' = Some 48879"
  by (rule hex_value_roundtrip) simp

text \<open>\<open>SctBufToHexString\<close> and \<open>SctHexStringToBuf\<close> are inverse: the text of a buffer, read
  back into a buffer of the same size, restores every byte.\<close>

theorem buffer_hex_roundtrip:
  assumes "0 < length Buf" "2 * length Buf \<le> unat (HexLen - 1)" "2 * length Buf < length Str"
    and "length Out = length Buf"
  shows "\<exists>Str' h. SctBufToHexString Str HexLen Buf (length Buf) = Some (EFI_SUCCESS, Str', h) \<and>
    SctHexStringToBuf Out (length Out) Str' None = Some (EFI_SUCCESS, Buf, length Buf, None)"
proof -
  let ?r = "drop (Suc (2 * length Buf)) Str"
  have p: "SctBufToHexString Str HexLen Buf (length Buf) =
      Some (EFI_SUCCESS, hex_text Buf @ 0 # ?r, of_nat (2 * length Buf + 1))"
    using SctBufToHexString_spec [OF assms(2,3), of Buf] by simp
  have h: "length (hex_text Buf) = 2 * length Buf" by (rule length_hex_text)
  have ne: "hex_text Buf \<noteq> []" using h assms(1) by auto
  obtain B where B: "SctHexStringToBuf Out (length Out) (hex_text Buf @ 0 # ?r) None =
      Some (EFI_SUCCESS, B, length Buf, None)" "length B = length Out"
      "le_val (take (length Buf) B) = le_val Buf"
    using SctHexStringToBuf_spec [OF hex_text_digits ne hex_val_0, where Len = "length Out" and Buf = Out
        and r = ?r and Conv = None] h assms(4) by (auto simp: hex_text_value)
  have "B = Buf" using le_val_inj [of B Buf] B(2,3) assms(4) by simp
  then show ?thesis using p B(1) by blast
qed

lemma buffer_hex_roundtrip_witness:
  "\<exists>Str' h. SctBufToHexString (replicate 9 7) 5 [18, 255] (length [18::u8, 255]) = Some (EFI_SUCCESS, Str', h) \<and>
    SctHexStringToBuf [0, 0] (length [0::u8, 0]) Str' None =
      Some (EFI_SUCCESS, [18, 255], length [18::u8, 255], None)"
  by (rule buffer_hex_roundtrip) simp_all

text \<open>C35: \<open>SctStrToUInt64\<close> on a trimmed hexadecimal text returns its value, or 0 exactly when
  the value does not fit into 64 bits; on a decimal text that fits it returns the value.\<close>

theorem SctStrToUInt64_correct:
  assumes "cstr b = Some s" "int_text (trim_spaces s) = (base, ds)" "all_digits base ds"
    and "base = 16 \<or> value_of base ds < 2 ^ 64"
  shows "\<exists>b'. SctStrToUInt64 b =
    Some (b', if value_of base ds < 2 ^ 64 then of_nat (value_of base ds) else 0)"
  using SctStrToUInt64_cstr [OF assms] by blast

lemma SctStrToUInt64_correct_witness:
  "\<exists>b'. SctStrToUInt64 [32, 48, 120, 49, 70, 0] =
    Some (b', if value_of 16 [49, 70] < 2 ^ 64 then of_nat (value_of 16 [49, 70]) else 0)"
  by (rule SctStrToUInt64_correct [of _ "[32, 48, 120, 49, 70]"])
    (simp_all add: int_text_def trimmed_def all_digits_def hex_val_def)

text \<open>\<open>SctStrToIPv4Addr\<close> reads four fields separated by dots, each as a decimal number
  reduced to a byte.\<close>

theorem SctStrToIPv4Addr_fields:
  assumes "cstr (drop i b) = Some u"
  shows "\<exists>b' i'. SctStrToIPv4Addr b i =
    Some (b', i', map (\<lambda>t. of_nat (atoi_val t)) (addr_fields 4 46 u))"
  unfolding SctStrToIPv4Addr_def by (rule SctStrToIPv4Addr_loop_spec [OF assms])

lemma SctStrToIPv4Addr_fields_witness:
  "\<exists>b' i'. SctStrToIPv4Addr [49, 46, 50, 46, 51, 46, 52, 53, 0] 0 = Some (b', i', [1, 2, 3, 45])"
proof -
  have "map (\<lambda>t. of_nat (atoi_val t) :: u8) (addr_fields 4 46 [49, 46, 50, 46, 51, 46, 52, 53]) = [1, 2, 3, 45]"
    by code_simp
  then show ?thesis
    using SctStrToIPv4Addr_fields [of 0 "[49, 46, 50, 46, 51, 46, 52, 53, 0]"
        "[49, 46, 50, 46, 51, 46, 52, 53]"] by simp
qed

text \<open>\<open>SctStrToIPv6Addr\<close> reads eight fields separated by colons, each as a hexadecimal
  number of 16 bits stored with its high byte first.\<close>

theorem SctStrToIPv6Addr_groups:
  assumes "cstr (drop i b) = Some u"
  shows "\<exists>b' i'. SctStrToIPv6Addr b i =
    Some (b', i', concat (map (\<lambda>t. group_bytes (xtoi_val t mod 2 ^ 16)) (addr_fields 8 58 u)))"
  unfolding SctStrToIPv6Addr_def by (rule SctStrToIPv6Addr_loop_spec [OF assms])

lemma SctStrToIPv6Addr_groups_witness:
  "\<exists>b' i'. SctStrToIPv6Addr [102, 101, 58, 49, 0] 0 =
    Some (b', i', concat (map (\<lambda>t. group_bytes (xtoi_val t mod 2 ^ 16)) (addr_fields 8 58 [102, 101, 58, 49])))"
  by (rule SctStrToIPv6Addr_groups) simp

section \<open>Properties of the checksum and byte routines\<close>

text \<open>The table-driven \<open>SctCalculateCrc32\<close> computes the CRC-32 of the bytes by the division
  one bit at a time; in particular each of the 256 table entries is right.\<close>

theorem SctCalculateCrc32_bitwise:
  assumes "0 < n" "n \<le> length d"
  shows "SctCalculateCrc32 (Some d) n (Some c) = Some (EFI_SUCCESS, Some (crc32_ref (take n d)))"
  by (rule SctCalculateCrc32_ref [OF assms])

lemma SctCalculateCrc32_bitwise_witness:
  "SctCalculateCrc32 (Some [49, 50, 0]) 2 (Some 0) = Some (EFI_SUCCESS, Some (crc32_ref [49, 50]))"
  using SctCalculateCrc32_bitwise [of 2 "[49, 50, 0]" 0] by simp

text \<open>A change of any one byte of the data changes the checksum.\<close>

theorem SctCalculateCrc32_detects:
  assumes "i < length d" "x \<noteq> d ! i"
  shows "SctCalculateCrc32 (Some (d[i := x])) (length d) (Some c) \<noteq>
    SctCalculateCrc32 (Some d) (length d) (Some c)"
proof -
  have n: "0 < length d" using assms(1) by auto
  show ?thesis
    using SctCalculateCrc32_ref [OF n, of "d[i := x]" c] SctCalculateCrc32_ref [OF n, of d c]
      crc32_ref_byte [OF assms] by simp
qed

lemma SctCalculateCrc32_detects_witness:
  "SctCalculateCrc32 (Some ([1, 2, 3][1 := 7])) (length [1::u8, 2, 3]) (Some 0) \<noteq>
    SctCalculateCrc32 (Some [1, 2, 3]) (length [1::u8, 2, 3]) (Some 0)"
  by (rule SctCalculateCrc32_detects) simp_all

text \<open>\<open>SctSwapBytes32\<close> reverses the bytes of a word, and is its own inverse; a value
  written by \<open>SctWriteUnaligned32\<close> is laid out low byte first.\<close>

theorem byte_order_correct:
  "le_bytes32 (SctSwapBytes32 v) = rev (le_bytes32 v) \<and> SctSwapBytes32 (SctSwapBytes32 v) = v \<and>
    SctSwapBytes16 (SctSwapBytes16 w) = w \<and>
    SctWriteUnaligned32 (b0 # b1 # b2 # b3 # b) v = Some (le_bytes32 v @ b, v)"
  by (simp add: SctSwapBytes32_bytes SctSwapBytes32_invol SctSwapBytes16_invol SctWriteUnaligned32_spec)

text \<open>\<open>SctGrowBuffer\<close> asks its caller to retry only with a fresh buffer, never leaves a
  buffer together with an error that ends the loop, and frees a buffer it replaces or gives up
  exactly once.\<close>

theorem SctGrowBuffer_correct:
  "(let r = SctGrowBuffer S B n A; grow = (S = EFI_BUFFER_TOO_SMALL \<or> B = None \<and> n \<noteq> 0)
    in TryAgain r = (grow \<and> A n \<noteq> None) \<and>
       gBuffer r = (if grow then A n else if EFI_ERROR S then None else B) \<and>
       gFreed r = (case B of Some b \<Rightarrow> if EFI_ERROR S then [b] else [] | None \<Rightarrow> []))"
  by (simp add: Let_def SctGrowBuffer_retry SctGrowBuffer_buffer SctGrowBuffer_freed)

section \<open>Properties of the linked lists\<close>

text \<open>Inserting a sequence of entries with \<open>SctInsertTailList\<close> into an initialised list and
  walking it with \<open>SctGetFirstNode\<close> and \<open>SctGetNextNode\<close> until \<open>SctIsNull\<close> yields the entries
  in order.\<close>

theorem list_insert_walk:
  assumes "L \<in> dom h" "set es \<subseteq> dom h" "distinct (L # es)"
  shows "\<exists>h0 h'. SctInitializeListHead h L = Some h0 \<and>
    fold (\<lambda>e h. Option.bind h (\<lambda>h. SctInsertTailList h L e)) es (Some h0) = Some h' \<and>
    walk_all SctGetFirstNode SctGetNextNode SctIsNull (Suc (length es)) h' L = Some es"
proof -
  obtain h0 where h0: "SctInitializeListHead h L = Some h0" "dll h0 L []" "dom h0 = dom h"
    using SctInitializeListHead_dll [OF assms(1)] by blast
  then obtain h' where "fold (\<lambda>e h. Option.bind h (\<lambda>h. SctInsertTailList h L e)) es (Some h0) = Some h'"
    "dll h' L es"
    using sct_list_ins.ins_many [of h0 L "[]" es] assms by auto
  then show ?thesis using h0(1) sct_list.walk_repr [of h' L es] by auto
qed

definition demo_heap :: "nat heap" where
  "demo_heap p = (if p < 4 then Some \<lparr>ForwardLink = 9, BackLink = 9\<rparr> else None)"

lemma demo_heap_dom: "dom demo_heap = {..<4}"
  by (auto simp: demo_heap_def dom_def)

lemma list_insert_walk_witness:
  "\<exists>h0 h'. SctInitializeListHead demo_heap 0 = Some h0 \<and>
    fold (\<lambda>e h. Option.bind h (\<lambda>h. SctInsertTailList h 0 e)) [2, 1, 3] (Some h0) = Some h' \<and>
    walk_all SctGetFirstNode SctGetNextNode SctIsNull (Suc (length [2::nat, 1, 3])) h' 0 = Some [2, 1, 3]"
  by (rule list_insert_walk) (simp_all add: demo_heap_dom)

text \<open>C36: \<open>SctRemoveEntryList\<close> unlinks the entry and keeps the rest in order, in the release and
  in the debug build, touching no entry outside the list.\<close>

theorem list_remove_correct:
  assumes "dll h L (xs @ e # ys)"
  shows "\<exists>h'. SctRemoveEntryList Bad h e = Some h' \<and> dll h' L (xs @ ys) \<and> dom h' = dom h \<and>
    (\<forall>q. q \<notin> insert L (set (xs @ e # ys)) \<longrightarrow> h' q = h q)"
  by (rule SctRemoveEntryList_dll [OF assms])

definition ring3 :: "int heap" where
  "ring3 = [0 \<mapsto> \<lparr>ForwardLink = 1, BackLink = 2\<rparr>, 1 \<mapsto> \<lparr>ForwardLink = 2, BackLink = 0\<rparr>,
     2 \<mapsto> \<lparr>ForwardLink = 0, BackLink = 1\<rparr>]"

lemma ring3_dll: "dll ring3 0 [1, 2]"
  by (simp add: dll_def lnk_def fwd_def bck_def ring3_def)

lemma list_remove_correct_witness:
  "\<exists>h'. SctRemoveEntryList (Some 7) ring3 1 = Some h' \<and> dll h' 0 ([] @ [2]) \<and> dom h' = dom ring3 \<and>
    (\<forall>q. q \<notin> insert 0 (set ([] @ 1 # [2])) \<longrightarrow> h' q = ring3 q)"
  by (rule list_remove_correct) (simp add: ring3_dll)

text \<open>C37: \<open>SctSwapListEntries\<close> moves the later entry directly in front of the earlier one and
  keeps the order of all others, whether the two are adjacent or not. This is the second sentence of its
  comment (\<open>Node2 is placed in front of Node1\<close>); the first one (\<open>Swap the location of the two
  elements\<close>) holds only for neighbours: the result is the list with the two exchanged exactly when
  no entry is between them.\<close>

theorem list_swap_correct:
  assumes "dll h L (xs @ a # ys @ b # zs)"
  shows "\<exists>h'. SctSwapListEntries h a b = Some h' \<and> dll h' L (xs @ b # a # ys @ zs) \<and> dom h' = dom h \<and>
    (\<forall>q. q \<notin> insert L (set (xs @ a # ys @ b # zs)) \<longrightarrow> h' q = h q) \<and>
    (dll h' L (xs @ b # ys @ a # zs) \<longleftrightarrow> ys = [])"
proof -
  obtain h' where h: "SctSwapListEntries h a b = Some h'" "dll h' L (xs @ b # a # ys @ zs)" "dom h' = dom h"
    "\<forall>q. q \<notin> insert L (set (xs @ a # ys @ b # zs)) \<longrightarrow> h' q = h q"
    using SctSwapListEntries_dll [OF assms] by (elim exE conjE)
  show ?thesis by (intro exI conjI) (rule h dll_swapped [OF h(2)])+
qed

lemma list_swap_correct_witness:
  "\<exists>h'. SctSwapListEntries ring3 1 2 = Some h' \<and> dll h' 0 ([] @ 2 # 1 # [] @ []) \<and> dom h' = dom ring3 \<and>
    (\<forall>q. q \<notin> insert 0 (set ([] @ 1 # [] @ 2 # [])) \<longrightarrow> h' q = ring3 q) \<and>
    (dll h' 0 ([] @ 2 # [] @ 1 # []) \<longleftrightarrow> ([] :: int list) = [])"
  by (rule list_swap_correct) (simp add: ring3_dll)

text \<open>The loop that removes the first node until \<open>SctIsListEmpty\<close> ends after as many rounds
  as the list has nodes, having visited every node once, in order.\<close>

theorem list_drain_terminates:
  assumes "dll h L xs"
  shows "\<exists>h'. drain SctIsListEmpty SctGetFirstNode (SctRemoveEntryList Bad) (Suc (length xs)) h L =
    Some (xs, h') \<and> SctIsListEmpty h' L = Some True"
proof -
  obtain h' where h': "drain SctIsListEmpty SctGetFirstNode (SctRemoveEntryList Bad) (Suc (length xs)) h L =
      Some (xs, h')" "dll h' L []"
    using sct_list.drain_repr [OF assms, of "Suc (length xs)"] by auto
  then show ?thesis using sct_list.empty_law [of h' L "[]"] by auto
qed

lemma list_drain_terminates_witness:
  "\<exists>h'. drain SctIsListEmpty SctGetFirstNode (SctRemoveEntryList None) (Suc (length [1::int, 2])) ring3 0 =
    Some ([1, 2], h') \<and> SctIsListEmpty h' 0 = Some True"
  by (rule list_drain_terminates [OF ring3_dll])

end
